(* ===== verification/Prelude.thy ===== *)
theory Prelude
  imports Complex_Main "HOL-Library.Word" "HOL-Library.Sublist" "HOL-Library.Finite_Map"
begin

text \<open>
  Shared vocabulary of the development.

  Rust values are represented as follows.  Unsigned machine integers are words of their
  width (\<open>u16\<close>, \<open>u32\<close>, \<open>u64\<close>, \<open>u128\<close>, and \<open>usize\<close> at 64 bits).  A \<open>String\<close> or \<open>&str\<close> is
  its UTF-8 byte sequence, a list of 8-bit \<open>char\<close>, so that \<open>len()\<close> is \<open>length\<close>.  A
  \<open>Duration\<close> is a number of nanoseconds.  A \<open>Result<T, E>\<close> is the sum \<open>'e + 'a\<close> with \<open>Inl\<close>
  the error.  The theory also holds Rust's decimal rendering and parsing of unsigned
  integers, \<open>str::trim\<close>, the checked and saturating operations on words, and the sequencing
  of validation steps, with the lemmas the component theories share.
\<close>

section \<open>Machine integers\<close>

type_synonym u16 = "16 word"
type_synonym u32 = "32 word"
type_synonym u64 = "64 word"
type_synonym u128 = "128 word"
type_synonym usize = "64 word"

definition checked_add :: "'a::len word \<Rightarrow> 'a word \<Rightarrow> 'a word option" where
  "checked_add a b = (if unat a + unat b < 2 ^ LENGTH('a) then Some (a + b) else None)"

definition checked_mul :: "'a::len word \<Rightarrow> 'a word \<Rightarrow> 'a word option" where
  "checked_mul a b = (if unat a * unat b < 2 ^ LENGTH('a) then Some (a * b) else None)"

definition saturating_add :: "'a::len word \<Rightarrow> 'a word \<Rightarrow> 'a word" where
  "saturating_add a b = (if unat a + unat b < 2 ^ LENGTH('a) then a + b else - 1)"

definition saturating_mul :: "'a::len word \<Rightarrow> 'a word \<Rightarrow> 'a word" where
  "saturating_mul a b = (if unat a * unat b < 2 ^ LENGTH('a) then a * b else - 1)"

definition saturating_sub :: "'a::len word \<Rightarrow> 'a word \<Rightarrow> 'a word" where
  "saturating_sub a b = (if b \<le> a then a - b else 0)"

lemma unat_bound: "unat (w :: 'a::len word) < 2 ^ LENGTH('a)"
  by (rule unsigned_less)

lemma unat_plus_exact [simp]:
  "unat (a :: 'a::len word) + unat b < 2 ^ LENGTH('a) \<Longrightarrow> unat (a + b) = unat a + unat b"
  by (simp add: unat_word_ariths)

lemma unat_mult_exact [simp]:
  "unat (a :: 'a::len word) * unat b < 2 ^ LENGTH('a) \<Longrightarrow> unat (a * b) = unat a * unat b"
  by (simp add: unat_word_ariths)

lemma checked_add_SomeD:
  "checked_add a b = Some c \<Longrightarrow> unat c = unat a + unat b"
  by (auto simp: checked_add_def split: if_splits)

lemma checked_mul_SomeD:
  "checked_mul a b = Some c \<Longrightarrow> unat c = unat a * unat b"
  by (auto simp: checked_mul_def split: if_splits)

lemma unat_max_word: "unat (- 1 :: 'a::len word) = 2 ^ LENGTH('a) - 1"
  by (simp add: unsigned_minus_1_eq_mask mask_eq_exp_minus_1)

lemma unat_saturating_add:
  "unat (saturating_add a (b :: 'a::len word)) = min (unat a + unat b) (2 ^ LENGTH('a) - 1)"
  by (auto simp: saturating_add_def unat_max_word min_def)

lemma unat_saturating_mul:
  "unat (saturating_mul a (b :: 'a::len word)) = min (unat a * unat b) (2 ^ LENGTH('a) - 1)"
proof (cases "unat a * unat b < 2 ^ LENGTH('a)")
  case True
  then show ?thesis by (simp add: saturating_mul_def)
next
  case False
  then have "2 ^ LENGTH('a) - 1 \<le> unat a * unat b"
    by linarith
  with False show ?thesis
    by (simp add: saturating_mul_def unat_max_word)
qed

lemma unat_saturating_sub:
  "unat (saturating_sub a (b :: 'a::len word)) = unat a - unat b"
  by (auto simp: saturating_sub_def unat_sub_if' word_le_nat_alt)

section \<open>Results and validation sequences\<close>

type_synonym ('e, 'a) result = "'e + 'a"

definition is_ok :: "('e, 'a) result \<Rightarrow> bool" where
  "is_ok r = (case r of Inl _ \<Rightarrow> False | Inr _ \<Rightarrow> True)"

lemma is_ok_simps [simp]: "is_ok (Inr x)" "\<not> is_ok (Inl e)"
  by (simp_all add: is_ok_def)

lemma is_ok_unit: "is_ok r \<longleftrightarrow> r = Inr (())" for r :: "('e, unit) result"
  by (cases r) simp_all

definition try_res :: "('e, 'a) result \<Rightarrow> ('a \<Rightarrow> ('e, 'b) result) \<Rightarrow> ('e, 'b) result" where
  "try_res r k = (case r of Inl e \<Rightarrow> Inl e | Inr x \<Rightarrow> k x)"

lemma try_res_simps [simp]:
  "try_res (Inl e) k = Inl e"
  "try_res (Inr x) k = k x"
  by (simp_all add: try_res_def)

lemma try_res_Inr_iff: "try_res r k = Inr y \<longleftrightarrow> (\<exists>x. r = Inr x \<and> k x = Inr y)"
  by (cases r) simp_all

definition ok_or :: "'a option \<Rightarrow> 'e \<Rightarrow> ('e, 'a) result" where
  "ok_or v e = (case v of None \<Rightarrow> Inl e | Some x \<Rightarrow> Inr x)"

lemma ok_or_simps [simp]:
  "ok_or None e = Inl e"
  "ok_or (Some x) e = Inr x"
  by (simp_all add: ok_or_def)

lemma ok_or_Inr_iff: "ok_or v e = Inr x \<longleftrightarrow> v = Some x"
  by (cases v) simp_all

text \<open>An early \<open>return Err(e)\<close> under a condition, and the sequence of such steps: the first
  error is the result.\<close>

definition reject_if :: "bool \<Rightarrow> 'e \<Rightarrow> ('e, unit) result" where
  "reject_if b e = (if b then Inl e else Inr ())"

lemma reject_if_ok [simp]: "reject_if b e = Inr u \<longleftrightarrow> \<not> b"
  by (simp add: reject_if_def)

lemma if_Inl_Inr_iff [simp]: "(if b then Inl e else r) = Inr x \<longleftrightarrow> \<not> b \<and> r = Inr x"
  by simp

lemma reject_if_simps [simp]:
  "reject_if True e = Inl e"
  "reject_if False e = Inr ()"
  by (simp_all add: reject_if_def)

primrec check_all :: "('e, unit) result list \<Rightarrow> ('e, unit) result" where
  "check_all [] = Inr ()"
| "check_all (c # cs) = try_res c (\<lambda>_. check_all cs)"

lemma check_all_ok_simps [simp]:
  "check_all [] = Inr ()"
  "check_all (c # cs) = Inr () \<longleftrightarrow> c = Inr () \<and> check_all cs = Inr ()"
  by (auto simp: try_res_Inr_iff)

declare check_all.simps(2) [simp del]

lemma check_all_append: "check_all (as @ bs) = try_res (check_all as) (\<lambda>_. check_all bs)"
  by (induction as) (auto simp: check_all.simps try_res_def split: sum.splits)


section \<open>Decimal rendering and parsing\<close>

definition digit_char :: "nat \<Rightarrow> char" where
  "digit_char d = char_of (48 + d)"

definition digit_val :: "char \<Rightarrow> nat option" where
  "digit_val c = (if 48 \<le> (of_char c :: nat) \<and> (of_char c :: nat) \<le> 57
                  then Some (of_char c - 48) else None)"

definition is_digit :: "char \<Rightarrow> bool" where
  "is_digit c = (digit_val c \<noteq> None)"

text \<open>The \<open>Display\<close> rendering of an unsigned integer, and of a signed one.\<close>

fun nat_str :: "nat \<Rightarrow> string" where
  "nat_str n = (if n < 10 then [digit_char n] else nat_str (n div 10) @ [digit_char (n mod 10)])"

declare nat_str.simps [simp del]

definition int_str :: "int \<Rightarrow> string" where
  "int_str i = (if i < 0 then CHR ''-'' # nat_str (nat (- i)) else nat_str (nat i))"

definition word_str :: "'a::len word \<Rightarrow> string" where
  "word_str w = nat_str (unat w)"

primrec parse_digits :: "nat \<Rightarrow> string \<Rightarrow> nat option" where
  "parse_digits acc [] = Some acc"
| "parse_digits acc (c # cs) =
     (case digit_val c of None \<Rightarrow> None | Some d \<Rightarrow> parse_digits (acc * 10 + d) cs)"

definition parse_nat :: "string \<Rightarrow> nat option" where
  "parse_nat s = (if s = [] then None else parse_digits 0 s)"

text \<open>\<open>str::parse\<close> for an unsigned type with \<open>bound\<close> values: one leading plus sign is
  accepted, the empty string, other characters and values out of range are errors.\<close>

definition parse_uint :: "nat \<Rightarrow> string \<Rightarrow> nat option" where
  "parse_uint bound s =
     (let digits = (case s of c # cs \<Rightarrow> if c = CHR ''+'' then cs else s | [] \<Rightarrow> [])
      in case parse_nat digits of
           None \<Rightarrow> None
         | Some n \<Rightarrow> if n < bound then Some n else None)"

definition parse_word :: "string \<Rightarrow> 'a::len word option" where
  "parse_word s = map_option of_nat (parse_uint (2 ^ LENGTH('a)) s)"

lemma of_char_digit [simp]: "d < 10 \<Longrightarrow> (of_char (digit_char d) :: nat) = 48 + d"
  by (simp add: digit_char_def)

lemma digit_val_digit [simp]: "d < 10 \<Longrightarrow> digit_val (digit_char d) = Some d"
  by (simp add: digit_val_def)

lemma digit_char_eval [simp]:
  "digit_char 0 = CHR ''0''" "digit_char (Suc 0) = CHR ''1''" "digit_char 1 = CHR ''1''"
  "digit_char 2 = CHR ''2''" "digit_char 3 = CHR ''3''" "digit_char 4 = CHR ''4''"
  "digit_char 5 = CHR ''5''" "digit_char 6 = CHR ''6''" "digit_char 7 = CHR ''7''"
  "digit_char 8 = CHR ''8''" "digit_char 9 = CHR ''9''"
  by (simp_all add: digit_char_def char_of_def bit_0)

lemma is_digit_digit [simp]: "d < 10 \<Longrightarrow> is_digit (digit_char d)"
  by (simp add: is_digit_def)

lemma is_digit_range: "is_digit c \<longleftrightarrow> 48 \<le> (of_char c :: nat) \<and> (of_char c :: nat) \<le> 57"
  by (simp add: is_digit_def digit_val_def)

lemma nat_str_Nil [simp]: "nat_str n \<noteq> []"
  by (subst nat_str.simps) simp

lemma nat_str_digits: "c \<in> set (nat_str n) \<Longrightarrow> is_digit c"
  by (induction n rule: nat_str.induct) (subst (asm) (2) nat_str.simps, auto split: if_splits)

lemma not_digit_notin_nat_str: "\<not> is_digit c \<Longrightarrow> c \<notin> set (nat_str n)"
  using nat_str_digits by blast

lemma separators_not_digits [simp]:
  "\<not> is_digit (CHR '':'')" "\<not> is_digit (CHR '','')" "\<not> is_digit (CHR ''-'')"
  "\<not> is_digit (CHR ''+'')" "\<not> is_digit (CHR ''n'')" "\<not> is_digit (CHR ''w'')"
  "\<not> is_digit (CHR ''s'')" "\<not> is_digit (CHR ''o'')" "\<not> is_digit (CHR ''e'')"
  "\<not> is_digit (CHR '' '')" "\<not> is_digit (CHR ''.'')"
  by (simp_all add: is_digit_range)

lemma parse_digits_append:
  "parse_digits acc (xs @ ys) = Option.bind (parse_digits acc xs) (\<lambda>a. parse_digits a ys)"
  by (induction xs arbitrary: acc) (auto split: option.splits)

lemma parse_digits_nat_str: "parse_digits 0 (nat_str n) = Some n"
proof (induction n rule: nat_str.induct)
  case (1 n)
  then show ?case
    by (subst nat_str.simps) (auto simp: parse_digits_append)
qed

lemma parse_nat_str [simp]: "parse_nat (nat_str n) = Some n"
  by (simp add: parse_nat_def parse_digits_nat_str)

lemma nat_str_inject [simp]: "nat_str m = nat_str n \<longleftrightarrow> m = n"
  by (metis option.inject parse_nat_str)

lemma nat_str_hd: "is_digit (hd (nat_str n))"
  by (rule nat_str_digits [of _ n]) simp

lemma parse_uint_nat_str: "parse_uint bound (nat_str n) = (if n < bound then Some n else None)"
proof -
  obtain c cs where cs: "nat_str n = c # cs"
    by (meson nat_str_Nil neq_Nil_conv)
  have "c \<noteq> CHR ''+''"
    using nat_str_hd [of n] cs by (auto simp: is_digit_range)
  then have "(case nat_str n of c # cs \<Rightarrow> if c = CHR ''+'' then cs else nat_str n | [] \<Rightarrow> [])
             = nat_str n"
    by (simp add: cs)
  then show ?thesis
    by (simp add: parse_uint_def Let_def)
qed

lemma parse_word_str [simp]: "parse_word (word_str w) = Some w"
  by (simp add: parse_word_def word_str_def parse_uint_nat_str)

lemma word_str_inject [simp]: "word_str v = word_str w \<longleftrightarrow> v = w"
  by (metis option.inject parse_word_str)

lemma word_str_digits: "c \<in> set (word_str w) \<Longrightarrow> is_digit c"
  by (simp add: word_str_def nat_str_digits)

lemma word_str_Nil [simp]: "word_str w \<noteq> []"
  by (simp add: word_str_def)

text \<open>A rendering has \<open>k\<close> characters at most when the number is below \<open>10 ^ k\<close>.\<close>

lemma length_nat_str: "n < 10 ^ k \<Longrightarrow> 0 < k \<Longrightarrow> length (nat_str n) \<le> k"
proof (induction n arbitrary: k rule: nat_str.induct)
  case (1 n)
  show ?case
  proof (cases "n < 10")
    case True
    with "1.prems" show ?thesis by (subst nat_str.simps) simp
  next
    case False
    then obtain j where k: "k = Suc j" and "0 < j"
      using "1.prems" by (cases k; cases "k = 1") auto
    with "1.prems" have "n div 10 < 10 ^ j"
      by (simp add: less_mult_imp_div_less)
    with "1.IH" [OF False this \<open>0 < j\<close>] False k show ?thesis
      by (subst nat_str.simps) simp
  qed
qed

text \<open>Splitting a rendering off at the first character that is not a digit.\<close>

lemma takeWhile_stop: "(\<forall>x \<in> set xs. P x) \<Longrightarrow> \<not> P c \<Longrightarrow> takeWhile P (xs @ c # r) = xs"
  by (induction xs) auto

lemma digits_prefix_unique:
  assumes "ds @ c # r = ds' @ c' # r'"
    and "\<forall>d \<in> set ds. is_digit d" "\<forall>d \<in> set ds'. is_digit d"
    and "\<not> is_digit c" "\<not> is_digit c'"
  shows "ds = ds' \<and> c # r = c' # r'"
  proof -
  have "ds = ds'"
    using arg_cong [OF assms(1), of "takeWhile is_digit"] assms(2-) by (simp add: takeWhile_stop)
  with assms(1) show ?thesis by simp
qed


lemma digits_suffix_unique:
  assumes "r @ c # ds = r' @ c' # ds'"
    and "\<forall>d \<in> set ds. is_digit d" "\<forall>d \<in> set ds'. is_digit d"
    and "\<not> is_digit c" "\<not> is_digit c'"
  shows "r = r' \<and> c = c' \<and> ds = ds'"
proof -
  have "rev ds @ c # rev r = rev ds' @ c' # rev r'"
    using arg_cong [OF assms(1), of rev] by simp
  then have "rev ds = rev ds' \<and> c # rev r = c' # rev r'"
    using assms(2-) by (intro digits_prefix_unique) auto
  then show ?thesis by simp
qed

section \<open>Trimming and UTF-8 boundaries\<close>

text \<open>The UTF-8 encodings of the characters with the Unicode property \<open>White_Space\<close>, which
  \<open>str::trim\<close> removes at both ends.\<close>

definition bytes :: "nat list \<Rightarrow> string" where
  "bytes ns = map char_of ns"

definition white_space :: "string list" where
  "white_space = map bytes
     ([[9], [10], [11], [12], [13], [32], [194, 133], [194, 160], [225, 154, 128]] @
      map (\<lambda>k. [226, 128, 128 + k]) [0..<11] @
      [[226, 128, 168], [226, 128, 169], [226, 128, 175], [226, 129, 159], [227, 128, 128]])"

function (sequential) strip_start :: "string list \<Rightarrow> string \<Rightarrow> string" where
  "strip_start ws s =
     (case find (\<lambda>w. w \<noteq> [] \<and> prefix w s) ws of
        None \<Rightarrow> s
      | Some w \<Rightarrow> strip_start ws (drop (length w) s))"
  by pat_completeness auto
termination
  by (relation "measure (\<lambda>(ws, s). length s)")
     (auto simp: find_Some_iff prefix_def)

declare strip_start.simps [simp del]

definition trim_start :: "string \<Rightarrow> string" where
  "trim_start s = strip_start white_space s"

definition trim_end :: "string \<Rightarrow> string" where
  "trim_end s = rev (strip_start (map rev white_space) (rev s))"

definition trim :: "string \<Rightarrow> string" where
  "trim s = trim_end (trim_start s)"

lemma strip_start_suffix: "\<exists>p. s = p @ strip_start ws s"
proof (induction ws s rule: strip_start.induct)
  case (1 ws s)
  show ?case
  proof (cases "find (\<lambda>w. w \<noteq> [] \<and> prefix w s) ws")
    case None
    then show ?thesis by (subst strip_start.simps) simp
  next
    case (Some w)
    then have "prefix w s" by (auto simp: find_Some_iff)
    then have "s = w @ drop (length w) s" by (auto simp: prefix_def)
    moreover from 1 [OF Some] obtain p where
      "drop (length w) s = p @ strip_start ws (drop (length w) s)" by blast
    ultimately have "s = (w @ p) @ strip_start ws (drop (length w) s)" by simp
    moreover have "strip_start ws s = strip_start ws (drop (length w) s)"
      by (subst strip_start.simps) (simp add: Some)
    ultimately show ?thesis by metis
  qed
qed

lemma strip_start_stop:
  "(\<And>w. w \<in> set ws \<Longrightarrow> w \<noteq> [] \<Longrightarrow> \<not> prefix w s) \<Longrightarrow> strip_start ws s = s"
  by (subst strip_start.simps) (auto simp: find_None_iff split: option.splits dest: find_Some_iff [THEN iffD1])

lemma trim_Nil [simp]: "trim [] = []"
  by (simp add: trim_def trim_end_def trim_start_def strip_start_stop)

lemma length_trim: "length (trim s) \<le> length s"
proof -
  have "length (strip_start ws t) \<le> length t" for ws t
    by (metis length_append le_add2 strip_start_suffix)
  then show ?thesis
    unfolding trim_def trim_end_def trim_start_def by (metis le_trans length_rev)
qed

text \<open>A printable ASCII byte at an end of the text is not white space, so trimming leaves a
  text that starts with one unchanged at the start and never empties it.\<close>

definition graphic :: "char \<Rightarrow> bool" where
  "graphic c = (33 \<le> (of_char c :: nat) \<and> (of_char c :: nat) \<le> 126)"

lemma white_space_not_graphic:
  "w \<in> set white_space \<Longrightarrow> c \<in> set w \<Longrightarrow> \<not> graphic c"
  by (auto simp: white_space_def bytes_def graphic_def)

lemma trim_start_graphic: "graphic c \<Longrightarrow> trim_start (c # s) = c # s"
  unfolding trim_start_def
proof (rule strip_start_stop)
  fix w assume "graphic c" "w \<in> set white_space" "w \<noteq> []"
  then show "\<not> prefix w (c # s)"
    using white_space_not_graphic [of w c] by (cases w) auto
qed

lemma strip_start_keeps:
  "c \<in> set s \<Longrightarrow> (\<And>w. w \<in> set ws \<Longrightarrow> c \<notin> set w) \<Longrightarrow> c \<in> set (strip_start ws s)"
proof (induction ws s rule: strip_start.induct)
  case (1 ws s)
  show ?case
  proof (cases "find (\<lambda>w. w \<noteq> [] \<and> prefix w s) ws")
    case None
    then show ?thesis using 1 by (subst strip_start.simps) simp
  next
    case (Some w)
    then have "w \<in> set ws" "prefix w s" by (auto simp: find_Some_iff)
    then have "c \<in> set (drop (length w) s)"
      using 1 by (auto simp: prefix_def)
    then show ?thesis using 1 Some by (subst strip_start.simps) simp
  qed
qed

lemma trim_end_keeps_graphic:
  assumes "graphic c" "c \<in> set s"
  shows "trim_end s \<noteq> []"
proof -
  have "c \<in> set (strip_start (map rev white_space) (rev s))"
  proof (rule strip_start_keeps)
    show "c \<in> set (rev s)" using assms by simp
    show "c \<notin> set w" if "w \<in> set (map rev white_space)" for w
      using that assms(1) white_space_not_graphic by auto
  qed
  then show ?thesis by (auto simp: trim_end_def)
qed

lemma trim_not_empty: "graphic c \<Longrightarrow> c \<in> set s \<Longrightarrow> trim s \<noteq> []"
  unfolding trim_def trim_start_def
  by (rule trim_end_keeps_graphic, assumption, rule strip_start_keeps)
     (auto dest: white_space_not_graphic)

text \<open>\<open>str::is_char_boundary\<close>: the end of the text, or the index of a byte that does not
  continue a character.\<close>

definition is_char_boundary :: "string \<Rightarrow> nat \<Rightarrow> bool" where
  "is_char_boundary s i =
     (i = 0 \<or> i = length s \<or>
      (i < length s \<and> ((of_char (s ! i) :: nat) < 128 \<or> 192 \<le> (of_char (s ! i) :: nat))))"

fun floor_boundary :: "string \<Rightarrow> nat \<Rightarrow> nat" where
  "floor_boundary s i =
     (if is_char_boundary s i then i else if i = 0 then 0 else floor_boundary s (i - 1))"

declare floor_boundary.simps [simp del]

lemma floor_boundary_le: "floor_boundary s i \<le> i"
proof (induction s i rule: floor_boundary.induct)
  case (1 s i)
  then show ?case by (subst floor_boundary.simps) auto
qed

lemma floor_boundary_boundary: "is_char_boundary s (floor_boundary s i)"
proof (induction s i rule: floor_boundary.induct)
  case (1 s i)
  then show ?case by (subst floor_boundary.simps) (auto simp: is_char_boundary_def)
qed

lemma floor_boundary_id: "is_char_boundary s i \<Longrightarrow> floor_boundary s i = i"
  by (subst floor_boundary.simps) simp

section \<open>Durations and floating point numbers\<close>

type_synonym duration = nat

definition max_duration :: duration where
  "max_duration = 2 ^ 64 * 10 ^ 9 - 1"

definition as_millis :: "duration \<Rightarrow> nat" where
  "as_millis d = d div 10 ^ 6"

definition from_millis :: "nat \<Rightarrow> duration" where
  "from_millis ms = ms * 10 ^ 6"

definition from_secs :: "nat \<Rightarrow> duration" where
  "from_secs s = s * 10 ^ 9"

definition duration_saturating_mul :: "duration \<Rightarrow> nat \<Rightarrow> duration" where
  "duration_saturating_mul d k = min (d * k) max_duration"

definition duration_saturating_add :: "duration \<Rightarrow> duration \<Rightarrow> duration" where
  "duration_saturating_add a b = min (a + b) max_duration"

definition duration_checked_add :: "duration \<Rightarrow> duration \<Rightarrow> duration option" where
  "duration_checked_add a b = (if a + b \<le> max_duration then Some (a + b) else None)"

definition duration_checked_mul :: "duration \<Rightarrow> nat \<Rightarrow> duration option" where
  "duration_checked_mul d k = (if d * k \<le> max_duration then Some (d * k) else None)"

lemma as_millis_from_millis [simp]: "as_millis (from_millis ms) = ms"
  by (simp add: as_millis_def from_millis_def)

lemma from_millis_as_millis_le: "from_millis (as_millis d) \<le> d"
  by (simp add: as_millis_def from_millis_def)

lemma as_millis_mono: "a \<le> b \<Longrightarrow> as_millis a \<le> as_millis b"
  by (simp add: as_millis_def div_le_mono)

text \<open>An \<open>f64\<close>: a finite value is the rational it denotes.\<close>

datatype f64 = NaN | Infinite bool | Finite rat

definition f64_is_finite :: "f64 \<Rightarrow> bool" where
  "f64_is_finite x = (case x of Finite _ \<Rightarrow> True | _ \<Rightarrow> False)"

fun f64_le :: "f64 \<Rightarrow> f64 \<Rightarrow> bool" where
  "f64_le NaN _ = False"
| "f64_le _ NaN = False"
| "f64_le (Infinite neg) y = (neg \<or> y = Infinite False)"
| "f64_le _ (Infinite neg) = (\<not> neg)"
| "f64_le (Finite a) (Finite b) = (a \<le> b)"

definition f64_less :: "f64 \<Rightarrow> f64 \<Rightarrow> bool" where
  "f64_less x y = (f64_le x y \<and> \<not> f64_le y x)"

lemma f64_simps [simp]:
  "f64_is_finite (Finite a)" "\<not> f64_is_finite NaN" "\<not> f64_is_finite (Infinite b)"
  "f64_less (Finite a) (Finite c) \<longleftrightarrow> a < c"
  by (auto simp: f64_is_finite_def f64_less_def)

lemma f64_is_finiteE:
  assumes "f64_is_finite x" obtains a where "x = Finite a"
  using assms by (cases x) auto

text \<open>\<open>str::split\<close> at a character.\<close>

fun split_on :: "char \<Rightarrow> string \<Rightarrow> string list" where
  "split_on sep [] = [[]]"
| "split_on sep (c # cs) =
     (if c = sep then [] # split_on sep cs
      else case split_on sep cs of w # ws \<Rightarrow> (c # w) # ws | [] \<Rightarrow> [[c]])"

lemma split_on_Nil [simp]: "split_on sep s \<noteq> []"
  by (induction s) (auto split: list.splits)

lemma split_on_word: "sep \<notin> set w \<Longrightarrow> split_on sep w = [w]"
  by (induction w) auto

lemma split_on_append: "sep \<notin> set w \<Longrightarrow> split_on sep (w @ sep # s) = w # split_on sep s"
  by (induction w) auto

text \<open>Finite maps.\<close>

lemma fmupd_not_empty [simp]: "fmupd f v h \<noteq> fmempty" "fmempty \<noteq> fmupd f v h"
  by (metis fmempty_lookup fmupd_lookup option.distinct(1))+

text \<open>A name between single quotes, as messages show it.\<close>

definition quoted :: "string \<Rightarrow> string" where
  "quoted s = [CHR 0x27] @ s @ [CHR 0x27]"

text \<open>\<open>str::strip_prefix\<close>.\<close>

definition strip_prefix_str :: "string \<Rightarrow> string \<Rightarrow> string option" where
  "strip_prefix_str p s = (if prefix p s then Some (drop (length p) s) else None)"

end
