(* ===== verification/Contracts.thy ===== *)
theory Contracts
  imports Prelude
begin

text \<open>
  The versioned messages of \<open>domain/contracts.rs\<close> and the errors of \<open>domain/error.rs\<close>: jobs,
  slice results, summaries, dead-letter and poison records, their validation, and the
  deterministic identities derived from them.  Every early return of the validators is a
  step of a \<open>check_all\<close> sequence, in source order, with the error the source builds.
\<close>

section \<open>Errors\<close>

datatype contract_error =
    UnsupportedVersion u16 u16 u16
  | FutureVersion u16 u16
  | MissingField string
  | InvalidLoad string
  | InvalidSlice string
  | InvalidAttempt u32 u32
  | InvalidResult string
  | SafetyLimit string
  | Malformed string

definition contract_error_display :: "contract_error \<Rightarrow> string" where
  "contract_error_display e = (case e of
     UnsupportedVersion found min_supported max_supported \<Rightarrow>
       ''unsupported contract version '' @ word_str found @ ''; supported range is ''
         @ word_str min_supported @ ''..='' @ word_str max_supported
   | FutureVersion found max_supported \<Rightarrow>
       ''future contract version '' @ word_str found @ ''; maximum supported is ''
         @ word_str max_supported
   | MissingField field \<Rightarrow> ''required field '' @ [CHR 0x27] @ field @ [CHR 0x27] @ '' is empty''
   | InvalidLoad message \<Rightarrow> ''invalid load configuration: '' @ message
   | InvalidSlice message \<Rightarrow> ''invalid slice metadata: '' @ message
   | InvalidAttempt attempt max_retries \<Rightarrow>
       ''invalid attempt '' @ word_str attempt @ ''; maximum retry attempt is ''
         @ word_str max_retries
   | InvalidResult message \<Rightarrow> ''invalid result: '' @ message
   | SafetyLimit message \<Rightarrow> ''safety limit exceeded: '' @ message
   | Malformed message \<Rightarrow> ''malformed contract: '' @ message)"

datatype pulse_error =
    MissingContextVar string
  | Client string
  | GrpcStatus string string
  | InvalidScenario string
  | TargetTransport string
  | TargetStatus string string
  | RequestTimeout string
  | TransientInfrastructure string
  | PermanentProcessing string
  | Cancelled string
  | InvariantViolation string

definition pulse_error_display :: "pulse_error \<Rightarrow> string" where
  "pulse_error_display e = (case e of
     MissingContextVar k \<Rightarrow> ''missing context var: '' @ k
   | Client m \<Rightarrow> ''client error: '' @ m
   | GrpcStatus code message \<Rightarrow> ''grpc status error ('' @ code @ ''): '' @ message
   | InvalidScenario m \<Rightarrow> ''invalid scenario: '' @ m
   | TargetTransport m \<Rightarrow> ''target transport error: '' @ m
   | TargetStatus code message \<Rightarrow> ''target status ('' @ code @ ''): '' @ message
   | RequestTimeout step \<Rightarrow> ''request deadline exceeded for '' @ step
   | TransientInfrastructure m \<Rightarrow> ''transient infrastructure error: '' @ m
   | PermanentProcessing m \<Rightarrow> ''permanent processing error: '' @ m
   | Cancelled m \<Rightarrow> ''cancelled: '' @ m
   | InvariantViolation m \<Rightarrow> ''internal invariant violation: '' @ m)"

definition kind_label :: "pulse_error \<Rightarrow> string" where
  "kind_label e = (case e of
     MissingContextVar _ \<Rightarrow> ''missing_context_var''
   | Client _ \<Rightarrow> ''invalid_scenario''
   | GrpcStatus code _ \<Rightarrow> ''target_status:'' @ code
   | InvalidScenario _ \<Rightarrow> ''invalid_scenario''
   | TargetTransport _ \<Rightarrow> ''target_transport''
   | TargetStatus code _ \<Rightarrow> ''target_status:'' @ code
   | RequestTimeout _ \<Rightarrow> ''target_timeout''
   | TransientInfrastructure _ \<Rightarrow> ''pulse_infrastructure''
   | PermanentProcessing _ \<Rightarrow> ''permanent_processing''
   | Cancelled _ \<Rightarrow> ''cancelled''
   | InvariantViolation _ \<Rightarrow> ''invariant_violation'')"

definition is_target_measurement :: "pulse_error \<Rightarrow> bool" where
  "is_target_measurement e = (case e of
     GrpcStatus _ _ \<Rightarrow> True | TargetTransport _ \<Rightarrow> True | TargetStatus _ _ \<Rightarrow> True
   | RequestTimeout _ \<Rightarrow> True | _ \<Rightarrow> False)"

definition is_retryable_infrastructure :: "pulse_error \<Rightarrow> bool" where
  "is_retryable_infrastructure e = (case e of TransientInfrastructure _ \<Rightarrow> True | _ \<Rightarrow> False)"

section \<open>Limits\<close>

definition CURRENT_CONTRACT_VERSION :: u16 where "CURRENT_CONTRACT_VERSION = 2"
definition MIN_SUPPORTED_CONTRACT_VERSION :: u16 where "MIN_SUPPORTED_CONTRACT_VERSION = 1"
definition MAX_CONTRACT_ID_BYTES :: nat where "MAX_CONTRACT_ID_BYTES = 1024"
definition MAX_CONTRACT_SLICES :: u32 where "MAX_CONTRACT_SLICES = 4096"
definition MAX_CONTRACT_ATTEMPT :: u32 where "MAX_CONTRACT_ATTEMPT = 32"
definition MAX_CONTRACT_ERROR_KINDS :: nat where "MAX_CONTRACT_ERROR_KINDS = 64"
definition MAX_CONTRACT_ERROR_KIND_BYTES :: nat where "MAX_CONTRACT_ERROR_KIND_BYTES = 256"
definition MAX_CONTRACT_HISTOGRAM_BUCKETS :: nat where "MAX_CONTRACT_HISTOGRAM_BUCKETS = 128"
definition MAX_CONTRACT_EXACT_INTEGER :: u64 where
  "MAX_CONTRACT_EXACT_INTEGER = 9007199254740991"
definition MAX_POISON_EVIDENCE_FIELD_BYTES :: nat where
  "MAX_POISON_EVIDENCE_FIELD_BYTES = 256 * 1024"

definition LATENCY_BUCKET_BOUNDS_MS :: "u64 list" where
  "LATENCY_BUCKET_BOUNDS_MS =
     [1, 2, 5, 10, 25, 50, 100, 250, 500, 1000, 2500, 5000, 10000, 30000, 60000, 120000]"

lemmas contract_limits =
  CURRENT_CONTRACT_VERSION_def MIN_SUPPORTED_CONTRACT_VERSION_def MAX_CONTRACT_ID_BYTES_def
  MAX_CONTRACT_SLICES_def MAX_CONTRACT_ATTEMPT_def MAX_CONTRACT_ERROR_KINDS_def
  MAX_CONTRACT_ERROR_KIND_BYTES_def MAX_CONTRACT_HISTOGRAM_BUCKETS_def
  MAX_CONTRACT_EXACT_INTEGER_def MAX_POISON_EVIDENCE_FIELD_BYTES_def

section \<open>Messages\<close>

record JobSlice =
  index :: u32
  slice_total :: u32

record JobLoadConfig =
  scenarios_per_sec :: f64
  load_duration :: duration
  max_concurrency :: usize
  startup_burst :: usize

record ScenarioJob =
  job_schema_version :: u16
  job_scenario_id :: string
  job_run_id :: string
  job_execution_key :: string
  job_plan_fingerprint :: string
  scheduled_at_unix_ms :: u128
  not_before_unix_ms :: u128
  job_slice :: JobSlice
  load :: JobLoadConfig
  job_attempt :: u32
  job_max_retries :: u32

record LatencyBucket =
  upper_bound_ms :: u64
  bucket_count :: u64

record ErrorCount =
  error_kind :: string
  error_count :: u64

datatype ScenarioRunStatus = RunSuccess | RunFailed

record ScenarioRunResult =
  res_schema_version :: u16
  res_scenario_id :: string
  res_run_id :: string
  res_execution_key :: string
  res_event_id :: string
  res_attempt :: u32
  res_slice :: JobSlice
  started_at_unix_ms :: u128
  finished_at_unix_ms :: u128
  res_status :: ScenarioRunStatus
  res_total :: u64
  res_success :: u64
  res_failure :: u64
  res_p50_ms :: u64
  res_p95_ms :: u64
  res_p99_ms :: u64
  latency_histogram :: "LatencyBucket list"
  error_breakdown :: "ErrorCount list"

datatype ScenarioRunSummaryStatus = Complete | Partial | TimedOut | SummaryCancelled

record ScenarioRunSummary =
  sum_schema_version :: u16
  sum_scenario_id :: string
  sum_run_id :: string
  sum_status :: ScenarioRunSummaryStatus
  sum_expected_slices :: u32
  sum_received_slices :: u32
  sum_missing_slices :: "u32 list"
  sum_total :: u64
  sum_success :: u64
  sum_failure :: u64
  sum_p50_ms :: u64
  sum_p95_ms :: u64
  sum_p99_ms :: u64
  sum_latency_histogram :: "LatencyBucket list"
  sum_error_breakdown :: "ErrorCount list"
  first_result_at_unix_ms :: u128
  finalized_at_unix_ms :: u128

record ScenarioRunSummaryEvent =
  ev_schema_version :: u16
  ev_event_id :: string
  ev_revision :: u64
  ev_summary :: ScenarioRunSummary

record FailedScenarioJob =
  fj_schema_version :: u16
  fj_event_id :: string
  fj_scenario_id :: string
  fj_run_id :: string
  fj_execution_key :: string
  fj_slice :: JobSlice
  fj_failed_at_unix_ms :: u128
  fj_attempt :: u32
  fj_max_retries :: u32
  fj_reason :: string

record PoisonMessageRecord =
  pm_schema_version :: u16
  pm_event_id :: string
  pm_failed_at_unix_ms :: u128
  source_topic :: string
  source_partition :: int
  source_offset :: int
  source_key_base64 :: "string option"
  source_key_original_bytes :: "u64 option"
  source_key_truncated :: bool
  payload_base64 :: "string option"
  payload_original_bytes :: "u64 option"
  payload_truncated :: bool
  pm_reason :: string

end
