(* ===== verification/Contract_Validation.thy ===== *)
theory Contract_Validation
  imports Contracts
begin

text \<open>
  The validators and identity builders of \<open>domain/contracts.rs\<close>.  The first part translates
  them; the second part states what a validated message guarantees to the components that
  consume it, and that the identities derived from a message determine it.
\<close>

section \<open>Validators\<close>

definition validate_contract_version :: "u16 \<Rightarrow> (contract_error, unit) result" where
  "validate_contract_version version = check_all
    [reject_if (version < MIN_SUPPORTED_CONTRACT_VERSION)
       (UnsupportedVersion version MIN_SUPPORTED_CONTRACT_VERSION CURRENT_CONTRACT_VERSION),
     reject_if (version > CURRENT_CONTRACT_VERSION)
       (FutureVersion version CURRENT_CONTRACT_VERSION)]"

definition validate_slice :: "JobSlice \<Rightarrow> (contract_error, unit) result" where
  "validate_slice sl = check_all
    [reject_if (slice_total sl = 0) (InvalidSlice ''slice total must be greater than zero''),
     reject_if (slice_total sl > MAX_CONTRACT_SLICES)
       (InvalidSlice (''slice total '' @ word_str (slice_total sl) @ '' exceeds maximum ''
          @ word_str MAX_CONTRACT_SLICES)),
     reject_if (index sl \<ge> slice_total sl)
       (InvalidSlice (''slice index '' @ word_str (index sl) @ '' must be less than total ''
          @ word_str (slice_total sl)))]"

definition require_non_empty :: "string \<Rightarrow> string \<Rightarrow> (contract_error, unit) result" where
  "require_non_empty field value = reject_if (trim value = []) (MissingField field)"

fun validate_identity_lengths :: "(string \<times> string) list \<Rightarrow> (contract_error, unit) result" where
  "validate_identity_lengths [] = Inr ()"
| "validate_identity_lengths ((field, value) # rest) =
     (if length value > MAX_CONTRACT_ID_BYTES
      then Inl (Malformed (field @ '' exceeds '' @ nat_str MAX_CONTRACT_ID_BYTES @ '' bytes''))
      else validate_identity_lengths rest)"

definition validate_job :: "ScenarioJob \<Rightarrow> (contract_error, unit) result" where
  "validate_job job = check_all
    [validate_contract_version (job_schema_version job),
     require_non_empty ''scenario_id'' (job_scenario_id job),
     require_non_empty ''run_id'' (job_run_id job),
     require_non_empty ''execution_key'' (job_execution_key job),
     (if job_schema_version job \<ge> 2
      then require_non_empty ''plan_fingerprint'' (job_plan_fingerprint job) else Inr ()),
     validate_identity_lengths
       [(''scenario_id'', job_scenario_id job), (''run_id'', job_run_id job),
        (''execution_key'', job_execution_key job),
        (''plan_fingerprint'', job_plan_fingerprint job)],
     validate_slice (job_slice job),
     reject_if (\<not> f64_is_finite (scenarios_per_sec (load job))
                \<or> f64_le (scenarios_per_sec (load job)) (Finite 0))
       (InvalidLoad ''scenarios_per_sec must be finite and > 0''),
     reject_if (load_duration (load job) = 0)
       (InvalidLoad ''duration must be greater than zero''),
     reject_if (max_concurrency (load job) = 0)
       (InvalidLoad ''max_concurrency must be greater than zero''),
     reject_if (startup_burst (load job) > max_concurrency (load job))
       (InvalidLoad (''startup_burst '' @ word_str (startup_burst (load job))
          @ '' exceeds slice max_concurrency '' @ word_str (max_concurrency (load job)))),
     reject_if (job_attempt job > job_max_retries job)
       (InvalidAttempt (job_attempt job) (job_max_retries job)),
     reject_if (job_max_retries job > MAX_CONTRACT_ATTEMPT)
       (InvalidAttempt (job_attempt job) (job_max_retries job)),
     reject_if (job_schema_version job \<ge> 2 \<and> job_attempt job > 0 \<and> not_before_unix_ms job = 0)
       (InvalidAttempt (job_attempt job) (job_max_retries job))]"

text \<open>The two renderings of the messages below are arguments: \<open>show_f64\<close> is the shortest
  decimal of an \<open>f64\<close> and \<open>show_duration\<close> the \<open>Debug\<close> form of a \<open>Duration\<close>.\<close>

definition validate_limits ::
  "(f64 \<Rightarrow> string) \<Rightarrow> (duration \<Rightarrow> string) \<Rightarrow> ScenarioJob \<Rightarrow> duration \<Rightarrow> f64 \<Rightarrow> usize
     \<Rightarrow> (contract_error, unit) result" where
  "validate_limits show_f64 show_duration job max_dur max_rate max_conc = check_all
    [validate_job job,
     reject_if (load_duration (load job) > max_dur)
       (SafetyLimit (''duration '' @ show_duration (load_duration (load job))
          @ '' exceeds maximum '' @ show_duration max_dur)),
     reject_if (f64_less max_rate (scenarios_per_sec (load job)))
       (SafetyLimit (''rate '' @ show_f64 (scenarios_per_sec (load job))
          @ '' exceeds maximum '' @ show_f64 max_rate)),
     reject_if (max_concurrency (load job) > max_conc)
       (SafetyLimit (''concurrency '' @ word_str (max_concurrency (load job))
          @ '' exceeds maximum '' @ word_str max_conc))]"

section \<open>Identities\<close>

datatype PartitionKeyStrategy = ByScenarioId | ByExecutionKey

definition key_for :: "PartitionKeyStrategy \<Rightarrow> ScenarioJob \<Rightarrow> string" where
  "key_for strategy job = (case strategy of
     ByScenarioId \<Rightarrow> job_scenario_id job
   | ByExecutionKey \<Rightarrow> job_execution_key job)"

definition build_execution_key :: "string \<Rightarrow> u128 \<Rightarrow> JobSlice \<Rightarrow> string" where
  "build_execution_key scenario_id window_start_unix_ms sl =
     scenario_id @ '':'' @ word_str window_start_unix_ms @ '':slice-'' @ word_str (index sl)
       @ ''-of-'' @ word_str (slice_total sl)"

definition build_versioned_execution_key :: "u16 \<Rightarrow> string \<Rightarrow> u128 \<Rightarrow> JobSlice \<Rightarrow> string" where
  "build_versioned_execution_key contract_version scenario_id window_start_unix_ms sl =
     ''v'' @ word_str contract_version @ '':'' @ scenario_id @ '':''
       @ word_str window_start_unix_ms @ '':slice-'' @ word_str (index sl)
       @ ''-of-'' @ word_str (slice_total sl)"

definition build_run_id :: "u16 \<Rightarrow> string \<Rightarrow> u128 \<Rightarrow> string" where
  "build_run_id contract_version scenario_id window_start_unix_ms =
     ''v'' @ word_str contract_version @ '':'' @ scenario_id @ '':'' @ word_str window_start_unix_ms"

definition build_terminal_event_id :: "string \<Rightarrow> u32 \<Rightarrow> string \<Rightarrow> string" where
  "build_terminal_event_id execution_key attempt kind =
     execution_key @ '':attempt-'' @ word_str attempt @ '':'' @ kind"

section \<open>Results\<close>

fun validate_error_counts ::
  "string set \<Rightarrow> u64 \<Rightarrow> ErrorCount list \<Rightarrow> (contract_error, u64) result" where
  "validate_error_counts error_kinds error_total [] = Inr error_total"
| "validate_error_counts error_kinds error_total (error # errors) =
     try_res (require_non_empty ''error_breakdown.kind'' (error_kind error)) (\<lambda>_.
     if length (error_kind error) > MAX_CONTRACT_ERROR_KIND_BYTES
     then Inl (InvalidResult (''error kind exceeds ''
            @ nat_str MAX_CONTRACT_ERROR_KIND_BYTES @ '' bytes''))
     else if error_kind error \<in> error_kinds
     then Inl (InvalidResult (''duplicate error kind '' @ [CHR 0x27] @ error_kind error @ [CHR 0x27]))
     else try_res (ok_or (checked_add error_total (error_count error))
                    (InvalidResult ''error counts overflowed u64''))
            (\<lambda>total. validate_error_counts (insert (error_kind error) error_kinds) total errors))"

fun latency_bucket_loop ::
  "u64 option \<Rightarrow> u64 \<Rightarrow> LatencyBucket list \<Rightarrow> (contract_error, u64) result" where
  "latency_bucket_loop previous count [] = Inr count"
| "latency_bucket_loop previous count (bucket # buckets) =
     (if (case previous of None \<Rightarrow> False | Some bound \<Rightarrow> upper_bound_ms bucket \<le> bound)
      then Inl (InvalidResult ''latency histogram bounds must be strictly increasing'')
      else try_res (ok_or (checked_add count (bucket_count bucket))
                     (InvalidResult ''latency histogram count overflowed u64''))
             (\<lambda>c. latency_bucket_loop (Some (upper_bound_ms bucket)) c buckets))"

definition validate_latency_buckets :: "LatencyBucket list \<Rightarrow> u64 \<Rightarrow> (contract_error, unit) result"
where
  "validate_latency_buckets buckets expected_total =
     (if length buckets > MAX_CONTRACT_HISTOGRAM_BUCKETS
      then Inl (InvalidResult (''latency histogram has '' @ nat_str (length buckets)
             @ '' buckets; maximum is '' @ nat_str MAX_CONTRACT_HISTOGRAM_BUCKETS))
      else if buckets = [] then Inr ()
      else try_res (latency_bucket_loop None 0 buckets) (\<lambda>count.
             reject_if (count \<noteq> expected_total)
               (InvalidResult (''latency histogram count '' @ word_str count
                  @ '' does not equal total '' @ word_str expected_total))))"

definition validate_exact_range :: "string \<Rightarrow> u64 \<Rightarrow> (contract_error, unit) result" where
  "validate_exact_range field value = reject_if (value > MAX_CONTRACT_EXACT_INTEGER)
     (InvalidResult (field @ '' exceeds the exact aggregation integer range''))"

definition validate_result_identity :: "ScenarioRunResult \<Rightarrow> (contract_error, unit) result" where
  "validate_result_identity r = check_all
    [require_non_empty ''event_id'' (res_event_id r),
     reject_if (length (res_event_id r) > MAX_CONTRACT_ID_BYTES)
       (InvalidResult (''event_id exceeds '' @ nat_str MAX_CONTRACT_ID_BYTES @ '' bytes'')),
     reject_if (res_event_id r
                \<noteq> build_terminal_event_id (res_execution_key r) (res_attempt r) ''result'')
       (InvalidResult ''event_id is not the deterministic result identity''),
     reject_if (res_total r > 0 \<and> latency_histogram r = [])
       (InvalidResult ''version 2 results with observations require a mergeable latency histogram'')]"

definition validate_result_counts :: "ScenarioRunResult \<Rightarrow> u64 \<Rightarrow> (contract_error, unit) result"
where
  "validate_result_counts r error_total =
     (if res_schema_version r \<ge> 2 then check_all
        [validate_exact_range ''total'' (res_total r),
         validate_exact_range ''success'' (res_success r),
         validate_exact_range ''failure'' (res_failure r),
         validate_exact_range ''error count'' error_total,
         reject_if (error_total \<noteq> res_failure r)
           (InvalidResult (''error count total '' @ word_str error_total
              @ '' does not equal failure count '' @ word_str (res_failure r))),
         reject_if (\<exists>bucket \<in> set (latency_histogram r).
                      bucket_count bucket > MAX_CONTRACT_EXACT_INTEGER)
           (InvalidResult ''latency bucket count exceeds the exact aggregation integer range'')]
      else reject_if (error_total > res_failure r)
        (InvalidResult (''error count total '' @ word_str error_total
           @ '' exceeds failure count '' @ word_str (res_failure r))))"

definition validate_result :: "ScenarioRunResult \<Rightarrow> (contract_error, unit) result" where
  "validate_result r =
     try_res (check_all
      [validate_contract_version (res_schema_version r),
       require_non_empty ''scenario_id'' (res_scenario_id r),
       require_non_empty ''run_id'' (res_run_id r),
       require_non_empty ''execution_key'' (res_execution_key r),
       validate_identity_lengths
         [(''scenario_id'', res_scenario_id r), (''run_id'', res_run_id r),
          (''execution_key'', res_execution_key r)],
       validate_slice (res_slice r),
       reject_if (res_attempt r > MAX_CONTRACT_ATTEMPT)
         (InvalidResult (''attempt '' @ word_str (res_attempt r) @ '' exceeds maximum ''
            @ word_str MAX_CONTRACT_ATTEMPT)),
       (if res_schema_version r \<ge> 2 then validate_result_identity r else Inr ())]) (\<lambda>_.
     try_res (ok_or (checked_add (res_success r) (res_failure r))
               (InvalidResult ''success + failure overflowed u64'')) (\<lambda>outcome_total.
     if outcome_total \<noteq> res_total r
     then Inl (InvalidResult ''success + failure must equal total'')
     else if length (error_breakdown r) > MAX_CONTRACT_ERROR_KINDS
     then Inl (InvalidResult (''error breakdown has '' @ nat_str (length (error_breakdown r))
            @ '' kinds; maximum is '' @ nat_str MAX_CONTRACT_ERROR_KINDS))
     else try_res (validate_error_counts {} 0 (error_breakdown r)) (\<lambda>error_total.
       check_all
        [validate_result_counts r error_total,
         reject_if (finished_at_unix_ms r < started_at_unix_ms r)
           (InvalidResult ''finished timestamp precedes started timestamp''),
         validate_latency_buckets (latency_histogram r) (res_total r)])))"


section \<open>What a validated message guarantees\<close>

definition supported_version :: "u16 \<Rightarrow> bool" where
  "supported_version v \<longleftrightarrow> v = 1 \<or> v = 2"

definition slice_wf :: "JobSlice \<Rightarrow> bool" where
  "slice_wf sl \<longleftrightarrow> unat (index sl) < unat (slice_total sl) \<and> unat (slice_total sl) \<le> 4096"

definition identity_wf :: "string \<Rightarrow> bool" where
  "identity_wf s \<longleftrightarrow> trim s \<noteq> [] \<and> length s \<le> 1024"

definition job_wf :: "ScenarioJob \<Rightarrow> bool" where
  "job_wf job \<longleftrightarrow>
     supported_version (job_schema_version job) \<and>
     identity_wf (job_scenario_id job) \<and> identity_wf (job_run_id job) \<and>
     identity_wf (job_execution_key job) \<and>
     (job_schema_version job = 2 \<longrightarrow> trim (job_plan_fingerprint job) \<noteq> []) \<and>
     length (job_plan_fingerprint job) \<le> 1024 \<and>
     slice_wf (job_slice job) \<and>
     (\<exists>rate. scenarios_per_sec (load job) = Finite rate \<and> rate > 0) \<and>
     load_duration (load job) > 0 \<and>
     0 < unat (max_concurrency (load job)) \<and>
     unat (startup_burst (load job)) \<le> unat (max_concurrency (load job)) \<and>
     unat (job_attempt job) \<le> unat (job_max_retries job) \<and>
     unat (job_max_retries job) \<le> 32 \<and>
     (job_schema_version job = 2 \<and> job_attempt job \<noteq> 0 \<longrightarrow> not_before_unix_ms job \<noteq> 0)"

definition error_total_of :: "ErrorCount list \<Rightarrow> nat" where
  "error_total_of es = (\<Sum>e \<leftarrow> es. unat (error_count e))"

definition bucket_total_of :: "LatencyBucket list \<Rightarrow> nat" where
  "bucket_total_of bs = (\<Sum>b \<leftarrow> bs. unat (bucket_count b))"

definition histogram_wf :: "LatencyBucket list \<Rightarrow> nat \<Rightarrow> bool" where
  "histogram_wf bs n \<longleftrightarrow>
     length bs \<le> 128 \<and> sorted_wrt (<) (map upper_bound_ms bs) \<and>
     (bs \<noteq> [] \<longrightarrow> bucket_total_of bs = n)"

definition errors_wf :: "ErrorCount list \<Rightarrow> bool" where
  "errors_wf es \<longleftrightarrow>
     length es \<le> 64 \<and> distinct (map error_kind es) \<and>
     (\<forall>e \<in> set es. trim (error_kind e) \<noteq> [] \<and> length (error_kind e) \<le> 256)"

definition result_wf :: "ScenarioRunResult \<Rightarrow> bool" where
  "result_wf r \<longleftrightarrow>
     supported_version (res_schema_version r) \<and>
     identity_wf (res_scenario_id r) \<and> identity_wf (res_run_id r) \<and>
     identity_wf (res_execution_key r) \<and> slice_wf (res_slice r) \<and>
     unat (res_attempt r) \<le> 32 \<and>
     unat (res_success r) + unat (res_failure r) = unat (res_total r) \<and>
     errors_wf (error_breakdown r) \<and>
     started_at_unix_ms r \<le> finished_at_unix_ms r \<and>
     histogram_wf (latency_histogram r) (unat (res_total r)) \<and>
     (if res_schema_version r = 2
      then res_event_id r = build_terminal_event_id (res_execution_key r) (res_attempt r) ''result'' \<and>
           length (res_event_id r) \<le> 1024 \<and>
           (res_total r \<noteq> 0 \<longrightarrow> latency_histogram r \<noteq> []) \<and>
           unat (res_total r) < 2 ^ 53 \<and>
           error_total_of (error_breakdown r) = unat (res_failure r)
      else error_total_of (error_breakdown r) \<le> unat (res_failure r))"

lemma version_ok_iff: "validate_contract_version v = Inr () \<longleftrightarrow> supported_version v"
proof -
  have "v < 1 \<or> v > 2 \<longleftrightarrow> \<not> (v = 1 \<or> v = 2)"
    by (simp add: word_less_nat_alt word_unat_eq_iff) linarith
  then show ?thesis
    by (auto simp: validate_contract_version_def contract_limits supported_version_def)
qed

lemma supported_version_ge2: "supported_version v \<Longrightarrow> v \<ge> 2 \<longleftrightarrow> v = 2"
  by (auto simp: supported_version_def word_le_nat_alt)

lemma slice_ok_iff: "validate_slice sl = Inr () \<longleftrightarrow> slice_wf sl"
  by (auto simp: validate_slice_def contract_limits slice_wf_def
      word_less_nat_alt word_le_nat_alt not_less not_le word_unat_eq_iff)

lemma identity_lengths_ok_iff:
  "validate_identity_lengths fs = Inr () \<longleftrightarrow> (\<forall>(f, v) \<in> set fs. length v \<le> 1024)"
  by (induction fs rule: validate_identity_lengths.induct) (auto simp: contract_limits)

lemma rate_ok_iff:
  "\<not> (\<not> f64_is_finite x \<or> f64_le x (Finite 0)) \<longleftrightarrow> (\<exists>rate. x = Finite rate \<and> rate > 0)"
  by (cases x) auto

lemmas validator_iffs =
  version_ok_iff slice_ok_iff identity_lengths_ok_iff require_non_empty_def identity_wf_def
  contract_limits word_less_nat_alt word_le_nat_alt not_less not_le

lemma validate_job_wf: "validate_job job = Inr () \<longleftrightarrow> job_wf job"
proof (cases "supported_version (job_schema_version job)")
  case True
  then consider "job_schema_version job = 1" | "job_schema_version job = 2"
    by (auto simp: supported_version_def)
  then show ?thesis
    using True rate_ok_iff [of "scenarios_per_sec (load job)"]
    unfolding validate_job_def job_wf_def
    by cases (auto simp: validator_iffs word_unat_eq_iff)
next
  case False
  then show ?thesis
    by (simp add: validate_job_def job_wf_def version_ok_iff)
qed

lemma error_counts_ok_iff:
  "validate_error_counts K t es = Inr t' \<longleftrightarrow>
     distinct (map error_kind es) \<and> (\<forall>e \<in> set es. error_kind e \<notin> K) \<and>
     (\<forall>e \<in> set es. trim (error_kind e) \<noteq> [] \<and> length (error_kind e) \<le> 256) \<and>
     unat t' = unat t + error_total_of es"
proof (induction K t es rule: validate_error_counts.induct)
  case (1 K t)
  then show ?case by (auto simp: error_total_of_def word_unat_eq_iff)
next
  case (2 K t e es)
  show ?case
  proof (cases "trim (error_kind e) \<noteq> [] \<and> length (error_kind e) \<le> 256 \<and> error_kind e \<notin> K
                \<and> unat t + unat (error_count e) < 2 ^ 64")
    case True
    then show ?thesis
      using "2.IH" by (auto simp: validator_iffs checked_add_def error_total_of_def image_iff)
  next
    case False
    then show ?thesis
      using unat_bound [of t']
      by (auto simp: validator_iffs checked_add_def error_total_of_def try_res_Inr_iff split: if_splits)
  qed
qed

lemma bucket_loop_ok_iff:
  "latency_bucket_loop p c bs = Inr t \<longleftrightarrow>
     sorted_wrt (<) (map upper_bound_ms bs) \<and>
     (\<forall>b. p = Some b \<longrightarrow> (\<forall>x \<in> set bs. b < upper_bound_ms x)) \<and>
     unat t = unat c + bucket_total_of bs"
proof (induction p c bs rule: latency_bucket_loop.induct)
  case (1 p c)
  then show ?case by (auto simp: bucket_total_of_def word_unat_eq_iff)
next
  case (2 p c b bs)
  note IH = "2.IH" [of "c + bucket_count b"]
  have lt: "unat t < 2 ^ 64"
    using unat_bound [of t] by simp
  show ?case
  proof (cases p)
    case None
    then show ?thesis
      using IH lt by (auto simp: checked_add_def bucket_total_of_def try_res_Inr_iff)
  next
    case (Some q)
    then show ?thesis
      using IH lt by (auto simp: checked_add_def bucket_total_of_def try_res_Inr_iff not_le
          intro: less_trans)
  qed
qed

lemma buckets_ok_iff:
  "validate_latency_buckets bs t = Inr () \<longleftrightarrow> histogram_wf bs (unat t)"
  by (auto simp: validate_latency_buckets_def histogram_wf_def contract_limits try_res_Inr_iff
      bucket_loop_ok_iff)


lemma graphic_attempt: "graphic (CHR ''t'')"
  by (simp add: graphic_def)

lemma terminal_event_id_not_blank: "trim (build_terminal_event_id k a kind) \<noteq> []"
  by (rule trim_not_empty [OF graphic_attempt]) (simp add: build_terminal_event_id_def)

lemma member_le_total:
  "b \<in> set bs \<Longrightarrow> unat (bucket_count b) \<le> bucket_total_of bs"
  by (simp add: bucket_total_of_def member_le_sum_list)

lemma outcome_total_iff:
  "checked_add s f = Some t \<longleftrightarrow> unat s + unat f = unat t" for s f t :: u64
  using unat_bound [of t] by (auto simp: checked_add_def word_unat_eq_iff)

lemma validate_result_split:
  "validate_result r = Inr () \<longleftrightarrow>
     supported_version (res_schema_version r) \<and>
     identity_wf (res_scenario_id r) \<and> identity_wf (res_run_id r) \<and>
     identity_wf (res_execution_key r) \<and> slice_wf (res_slice r) \<and> unat (res_attempt r) \<le> 32 \<and>
     (res_schema_version r \<ge> 2 \<longrightarrow> validate_result_identity r = Inr ()) \<and>
     unat (res_success r) + unat (res_failure r) = unat (res_total r) \<and>
     errors_wf (error_breakdown r) \<and>
     (\<exists>n. unat n = error_total_of (error_breakdown r) \<and> validate_result_counts r n = Inr ()) \<and>
     started_at_unix_ms r \<le> finished_at_unix_ms r \<and>
     histogram_wf (latency_histogram r) (unat (res_total r))"
  unfolding validate_result_def
  by (auto simp: try_res_Inr_iff ok_or_Inr_iff outcome_total_iff version_ok_iff slice_ok_iff
      identity_lengths_ok_iff require_non_empty_def identity_wf_def buckets_ok_iff
      error_counts_ok_iff errors_wf_def contract_limits word_less_nat_alt not_less
      word_le_nat_alt)

lemma result_identity_ok_iff:
  "validate_result_identity r = Inr () \<longleftrightarrow>
     res_event_id r = build_terminal_event_id (res_execution_key r) (res_attempt r) ''result'' \<and>
     length (res_event_id r) \<le> 1024 \<and> (res_total r \<noteq> 0 \<longrightarrow> latency_histogram r \<noteq> [])"
  using terminal_event_id_not_blank
  by (auto simp: validate_result_identity_def require_non_empty_def contract_limits not_less
      word_neq_0_conv)

lemma result_counts_v2_iff:
  assumes "res_schema_version r = 2"
    and "unat (res_success r) + unat (res_failure r) = unat (res_total r)"
    and "histogram_wf (latency_histogram r) (unat (res_total r))"
  shows "(\<exists>n. unat n = E \<and> validate_result_counts r n = Inr ()) \<longleftrightarrow>
           unat (res_total r) < 2 ^ 53 \<and> E = unat (res_failure r)"
proof -
  have "unat (bucket_count b) \<le> unat (res_total r)" if "b \<in> set (latency_histogram r)" for b
    using assms(3) member_le_total [OF that] that by (auto simp: histogram_wf_def)
  then show ?thesis
    using assms
    by (auto simp: validate_result_counts_def validate_exact_range_def contract_limits
        word_less_nat_alt not_less intro!: exI [of _ "res_failure r"]) force
qed

lemma validate_result_wf: "validate_result r = Inr () \<longleftrightarrow> result_wf r"
proof (cases "res_schema_version r = 2")
  case True
  then show ?thesis
    using result_counts_v2_iff [OF True]
    by (auto simp: validate_result_split result_identity_ok_iff result_wf_def)
next
  case False
  have "(\<exists>n. unat n = E \<and> validate_result_counts r n = Inr ()) \<longleftrightarrow> E \<le> unat (res_failure r)"
    if "res_schema_version r = 1" for E
    using that unat_bound [of "res_failure r"]
    by (auto simp: validate_result_counts_def not_less word_le_nat_alt
        intro!: exI [of _ "of_nat E"] simp: unat_of_nat)
  with False show ?thesis
    by (auto simp: validate_result_split result_wf_def supported_version_def word_le_nat_alt)
qed

text \<open>C14: A slice result passes validation exactly when it is well formed: its identities are
  present and bounded, its counts add up without overflow, its error kinds are distinct and
  account for the failures, and its histogram bounds increase and account for every
  observation.\<close>

theorem validate_result_iff_wf: "validate_result r = Inr () \<longleftrightarrow> result_wf r"
  by (rule validate_result_wf)

section \<open>Identities determine what they name\<close>

lemma word_str_all_digits: "\<forall>d \<in> set (word_str w). is_digit d"
  by (simp add: word_str_digits)

lemma colon_split:
  assumes "xs @ CHR '':'' # ys = xs' @ CHR '':'' # ys'"
    and "CHR '':'' \<notin> set ys" "CHR '':'' \<notin> set ys'"
  shows "xs = xs' \<and> ys = ys'"
proof -
  have "rev ys @ CHR '':'' # rev xs = rev ys' @ CHR '':'' # rev xs'"
    using arg_cong [OF assms(1), of rev] by simp
  moreover have "takeWhile (\<lambda>c. c \<noteq> CHR '':'') (rev ys @ CHR '':'' # rev xs) = rev ys"
    "takeWhile (\<lambda>c. c \<noteq> CHR '':'') (rev ys' @ CHR '':'' # rev xs') = rev ys'"
    using assms(2,3) by (auto intro!: takeWhile_stop)
  ultimately have "rev ys = rev ys'" by metis
  with assms(1) show ?thesis by simp
qed

lemma version_prefix_unique:
  assumes "''v'' @ word_str a @ '':'' @ xs = ''v'' @ word_str b @ '':'' @ ys"
  shows "a = b \<and> xs = ys"
proof -
  have "word_str a @ CHR '':'' # xs = word_str b @ CHR '':'' # ys"
    using assms by simp
  from digits_prefix_unique [OF this word_str_all_digits word_str_all_digits] show ?thesis
    by simp
qed

text \<open>C16: Terminal event identities are injective: two events with the same identity have the
  same execution key, attempt and kind, for kinds without a colon such as \<open>result\<close> and
  \<open>dlq\<close>.  Consumers that deduplicate by event identity therefore never merge different events.\<close>

theorem terminal_event_id_injective:
  assumes "build_terminal_event_id k a kind = build_terminal_event_id k' a' kind'"
    and "CHR '':'' \<notin> set kind" "CHR '':'' \<notin> set kind'"
  shows "k = k' \<and> a = a' \<and> kind = kind'"
proof -
  have "(k @ '':attempt-'' @ word_str a) @ CHR '':'' # kind
        = (k' @ '':attempt-'' @ word_str a') @ CHR '':'' # kind'"
    using assms(1) by (simp add: build_terminal_event_id_def)
  from colon_split [OF this assms(2,3)]
  have eq: "(k @ '':attempt'') @ CHR ''-'' # word_str a = (k' @ '':attempt'') @ CHR ''-'' # word_str a'"
    and kind: "kind = kind'"
    by auto
  from digits_suffix_unique [OF eq word_str_all_digits word_str_all_digits] kind show ?thesis
    by simp
qed

theorem terminal_event_id_injective_witness:
  "build_terminal_event_id ''v2:a:1'' 3 ''dlq'' = ''v2:a:1:attempt-3:dlq'' \<and>
   ''v2:a:1'' = ''v2:a:1'' \<and> (3 :: u32) = 3 \<and> ''dlq'' = ''dlq''"
  using terminal_event_id_injective [of "''v2:a:1''" 3 "''dlq''" "''v2:a:1''" 3 "''dlq''"]
  by (simp add: build_terminal_event_id_def word_str_def nat_str.simps)

text \<open>C17: Versioned execution keys are injective: the key determines the contract version, the
  scenario, the schedule window and the slice, whatever characters the scenario identifier
  contains.\<close>

theorem versioned_execution_key_injective:
  assumes "build_versioned_execution_key v s w sl = build_versioned_execution_key v' s' w' sl'"
  shows "v = v' \<and> s = s' \<and> w = w' \<and> index sl = index sl' \<and> slice_total sl = slice_total sl'"
proof -
  let ?p = "\<lambda>v s w. ''v'' @ word_str v @ '':'' @ s @ '':'' @ word_str w"
  have "(?p v s w @ '':slice-'' @ word_str (index sl) @ ''-of'') @ CHR ''-'' # word_str (slice_total sl)
      = (?p v' s' w' @ '':slice-'' @ word_str (index sl') @ ''-of'') @ CHR ''-'' # word_str (slice_total sl')"
    using assms by (simp add: build_versioned_execution_key_def)
  from digits_suffix_unique [OF this word_str_all_digits word_str_all_digits]
  have total: "slice_total sl = slice_total sl'"
    and "(?p v s w @ '':slice'') @ CHR ''-'' # word_str (index sl)
       = (?p v' s' w' @ '':slice'') @ CHR ''-'' # word_str (index sl')"
    by auto
  from digits_suffix_unique [OF this(2) word_str_all_digits word_str_all_digits]
  have idx: "index sl = index sl'"
    and "(''v'' @ word_str v @ '':'' @ s) @ CHR '':'' # word_str w
       = (''v'' @ word_str v' @ '':'' @ s') @ CHR '':'' # word_str w'"
    by auto
  from digits_suffix_unique [OF this(2) word_str_all_digits word_str_all_digits]
  have "w = w'" "''v'' @ word_str v @ '':'' @ s = ''v'' @ word_str v' @ '':'' @ s'"
    by auto
  with version_prefix_unique [OF this(2)] total idx show ?thesis by simp
qed

theorem versioned_execution_key_injective_witness:
  "let sl = \<lparr>index = 0, slice_total = 2\<rparr>
   in build_versioned_execution_key 2 ''a:1'' 7 sl = ''v2:a:1:7:slice-0-of-2'' \<and>
      ((2 :: u16) = 2 \<and> ''a:1'' = ''a:1'' \<and> (7 :: u128) = 7 \<and> index sl = index sl \<and>
       slice_total sl = slice_total sl)"
  using versioned_execution_key_injective
    [of 2 "''a:1''" 7 "\<lparr>index = 0, slice_total = 2\<rparr>" 2 "''a:1''" 7 "\<lparr>index = 0, slice_total = 2\<rparr>"]
  by (simp add: build_versioned_execution_key_def word_str_def nat_str.simps)

end
