(* ===== verification/Coordination.thy ===== *)
theory Coordination
  imports Contracts
begin

text \<open>
  The coordination vocabulary of \<open>domain/coordination.rs\<close> and the schedule policy of
  \<open>domain/scenario.rs\<close>: leases, dispatch windows, terminal outcomes and the errors that are
  kept apart from legitimate contention.
\<close>

datatype coordination_error =
    Unavailable string string
  | Timeout string
  | InvalidState string string
  | StaleOwner string

definition coordination_error_display :: "coordination_error \<Rightarrow> string" where
  "coordination_error_display e =
     (let quoted = (\<lambda>operation. ''coordination operation '' @ [CHR 0x27] @ operation @ [CHR 0x27]) in
      case e of
        Unavailable operation message \<Rightarrow> quoted operation @ '' is unavailable: '' @ message
      | Timeout operation \<Rightarrow> quoted operation @ '' timed out''
      | InvalidState operation message \<Rightarrow> quoted operation @ '' found invalid state: '' @ message
      | StaleOwner operation \<Rightarrow> quoted operation @ '' rejected a stale owner'')"

record LeaderLease =
  lock_key :: string
  lease_node_id :: string
  leader_token :: string
  fencing_token :: u64
  leader_expires_at :: u64
  leader_ttl :: duration

datatype LeadershipOutcome =
    LeaderAcquired LeaderLease
  | LeaderRenewed LeaderLease
  | Follower duration

datatype RepeatPolicy = Once | Every duration

record DispatchSpec =
  spec_scenario_id :: string
  spec_contract_version :: u16
  spec_total_slices :: u32
  spec_repeat :: RepeatPolicy
  spec_plan_fingerprint :: string

record DispatchWindow =
  win_scenario_id :: string
  window_id :: string
  win_run_id :: string
  win_scheduled_at :: u128
  win_contract_version :: u16
  win_total_slices :: u32
  win_plan_fingerprint :: string
  win_missing_slices :: "u32 list"

definition execution_key :: "DispatchWindow \<Rightarrow> u32 \<Rightarrow> string option" where
  "execution_key w slice_index =
     (if slice_index < win_total_slices w
      then Some (window_id w @ '':slice-'' @ word_str slice_index @ ''-of-''
                   @ word_str (win_total_slices w))
      else None)"

datatype DispatchOutcome =
    Ready DispatchWindow
  | NotDue duration
  | Finished

datatype DispatchProgress =
    Pending u32
  | DispatchComplete

datatype TerminalOutcome = ResultPublished | RetryPublished | DeadLetterPublished

definition terminal_as_str :: "TerminalOutcome \<Rightarrow> string" where
  "terminal_as_str t = (case t of
     ResultPublished \<Rightarrow> ''completed''
   | RetryPublished \<Rightarrow> ''retry_published''
   | DeadLetterPublished \<Rightarrow> ''dlq_published'')"

definition terminal_from_str :: "string \<Rightarrow> (string, TerminalOutcome) result" where
  "terminal_from_str value =
     (if value = ''completed'' then Inr ResultPublished
      else if value = ''retry_published'' then Inr RetryPublished
      else if value = ''dlq_published'' then Inr DeadLetterPublished
      else Inl (''unknown terminal outcome '' @ [CHR 0x27] @ value @ [CHR 0x27]))"

record CompletedOutcome =
  completed_outcome :: TerminalOutcome
  completed_at_unix_ms :: u128

record ExecutionClaim =
  claim_execution_key :: string
  claim_attempt :: u32

record ExecutionLease =
  lease_execution_key :: string
  lease_attempt :: u32
  lease_owner_token :: string
  lease_expires_at :: u128
  lease_ttl :: duration
  lease_recovered :: bool

datatype ClaimOutcome =
    Acquired ExecutionLease
  | AlreadyCompleted CompletedOutcome
  | Busy duration

datatype ReleaseOutcome = Released | AlreadyAbsent

lemma terminal_from_as_str [simp]: "terminal_from_str (terminal_as_str t) = Inr t"
  by (cases t) (simp_all add: terminal_as_str_def terminal_from_str_def)

lemma terminal_as_str_inject [simp]: "terminal_as_str s = terminal_as_str t \<longleftrightarrow> s = t"
  by (metis sum.inject(2) terminal_from_as_str)

lemma terminal_from_str_ok: "terminal_from_str v = Inr t \<longleftrightarrow> v = terminal_as_str t"
  by (cases t) (auto simp: terminal_as_str_def terminal_from_str_def split: if_splits)

end
