(* ===== verification/Lua_Numbers.thy ===== *)
theory Lua_Numbers
  imports Prelude
begin

text \<open>
  Numbers of the Lua 5.1 scripts that Pulse runs inside Redis.  A Lua number is an IEEE-754
  double; the scripts only compute with integers, so a number is the integer it denotes and
  every arithmetic result is rounded to the nearest double, ties to even.  \<open>tostring\<close> uses the
  C format \<open>%.14g\<close>: from fifteen digits on the text is in exponent form and keeps fourteen
  significant digits only.  \<open>tonumber\<close> reads decimal integers and that exponent form, which
  are the numerals that Pulse, Redis and the scripts themselves write.
\<close>

section \<open>Rounding to doubles\<close>

fun bit_count :: "nat \<Rightarrow> nat" where
  "bit_count n = (if n = 0 then 0 else Suc (bit_count (n div 2)))"

declare bit_count.simps [simp del]

definition round_half_even :: "nat \<Rightarrow> nat \<Rightarrow> nat" where
  "round_half_even n unit_size =
     (let q = n div unit_size; r = n mod unit_size
      in if 2 * r > unit_size \<or> (2 * r = unit_size \<and> odd q) then Suc q else q)"

definition round_double_nat :: "nat \<Rightarrow> nat" where
  "round_double_nat n =
     (if n \<le> 2 ^ 53 then n
      else let unit_size = 2 ^ (bit_count n - 53) in round_half_even n unit_size * unit_size)"

definition lua_round :: "int \<Rightarrow> int" where
  "lua_round i = (if i < 0 then - int (round_double_nat (nat (- i)))
                  else int (round_double_nat (nat i)))"

definition lua_add :: "int \<Rightarrow> int \<Rightarrow> int" where
  "lua_add a b = lua_round (a + b)"

definition lua_sub :: "int \<Rightarrow> int \<Rightarrow> int" where
  "lua_sub a b = lua_round (a - b)"

definition lua_mul :: "int \<Rightarrow> int \<Rightarrow> int" where
  "lua_mul a b = lua_round (a * b)"

definition MAX_EXACT :: int where
  "MAX_EXACT = 9007199254740991"

lemma lua_round_exact [simp]: "\<bar>i\<bar> \<le> 2 ^ 53 \<Longrightarrow> lua_round i = i"
  by (auto simp: lua_round_def round_double_nat_def nat_le_iff)

lemma lua_add_exact: "\<bar>a + b\<bar> \<le> 2 ^ 53 \<Longrightarrow> lua_add a b = a + b"
  by (simp add: lua_add_def)

lemma lua_sub_exact: "\<bar>a - b\<bar> \<le> 2 ^ 53 \<Longrightarrow> lua_sub a b = a - b"
  by (simp add: lua_sub_def)

lemma lua_mul_exact: "\<bar>a * b\<bar> \<le> 2 ^ 53 \<Longrightarrow> lua_mul a b = a * b"
  by (simp add: lua_mul_def)

lemmas lua_exact = lua_add_exact lua_sub_exact lua_mul_exact

section \<open>tostring and tonumber\<close>

definition strip_trailing_zeros :: "string \<Rightarrow> string" where
  "strip_trailing_zeros s = rev (dropWhile (\<lambda>c. c = CHR ''0'') (rev s))"

definition sci_str :: "nat \<Rightarrow> string" where
  "sci_str m =
     (let k = length (nat_str m);
          q = round_half_even m (10 ^ (k - 14));
          (digits, e) = (if q = 10 ^ 14 then (''1'', k) else (nat_str q, k - 1));
          frac = strip_trailing_zeros (tl digits)
      in hd digits # (if frac = [] then [] else CHR ''.'' # frac) @ ''e+''
           @ (if e < 10 then CHR ''0'' # nat_str e else nat_str e))"

definition lua_tostring :: "int \<Rightarrow> string" where
  "lua_tostring i =
     (if \<bar>i\<bar> < 10 ^ 14 then int_str i
      else if i < 0 then CHR ''-'' # sci_str (nat (- i)) else sci_str (nat i))"

definition split_at :: "char \<Rightarrow> string \<Rightarrow> string \<times> string option" where
  "split_at c s = (let pre = takeWhile (\<lambda>x. x \<noteq> c) s; post = dropWhile (\<lambda>x. x \<noteq> c) s
                   in (pre, if post = [] then None else Some (tl post)))"

definition lua_numeral :: "string \<Rightarrow> nat option" where
  "lua_numeral s =
     (case split_at (CHR ''e'') s of
        (m, None) \<Rightarrow> parse_nat m
      | (m, Some x) \<Rightarrow>
          (case (split_at (CHR ''.'') m, x) of
             ((ip, fp), s # es) \<Rightarrow>
               (let frac = (case fp of None \<Rightarrow> [] | Some f \<Rightarrow> f) in
                case (s = CHR ''+'', parse_nat (ip @ frac), parse_nat es) of
                  (True, Some v, Some e) \<Rightarrow>
                    if length frac \<le> e then Some (v * 10 ^ (e - length frac)) else None
                | _ \<Rightarrow> None)
           | _ \<Rightarrow> None))"

definition lua_tonumber :: "string \<Rightarrow> int option" where
  "lua_tonumber s =
     (if s \<noteq> [] \<and> hd s = CHR ''-''
      then map_option (\<lambda>n. lua_round (- int n)) (lua_numeral (tl s))
      else map_option (\<lambda>n. lua_round (int n)) (lua_numeral s))"

lemma split_at_absent: "c \<notin> set s \<Longrightarrow> split_at c s = (s, None)"
proof -
  assume "c \<notin> set s"
  then have "dropWhile (\<lambda>x. x \<noteq> c) s = []" "takeWhile (\<lambda>x. x \<noteq> c) s = s"
    by (auto simp: dropWhile_eq_Nil_conv takeWhile_eq_all_conv)
  then show ?thesis by (simp add: split_at_def Let_def)
qed

lemma lua_numeral_nat_str [simp]: "lua_numeral (nat_str n) = Some n"
  by (simp add: lua_numeral_def split_at_absent not_digit_notin_nat_str)

lemma nat_str_not_minus: "hd (nat_str n) \<noteq> CHR ''-''"
  using nat_str_hd [of n] by (auto simp: is_digit_range)

lemma lua_tonumber_nat_str [simp]: "lua_tonumber (nat_str n) = Some (lua_round (int n))"
  by (simp add: lua_tonumber_def nat_str_not_minus)

lemma lua_tonumber_int_str [simp]: "lua_tonumber (int_str i) = Some (lua_round i)"
  by (cases "i < 0") (simp_all add: int_str_def, simp add: lua_tonumber_def)

lemma lua_round_trip [simp]: "\<bar>i\<bar> < 10 ^ 14 \<Longrightarrow> lua_tonumber (lua_tostring i) = Some i"
  by (simp add: lua_tostring_def)

lemma lua_tostring_nat: "int n < 10 ^ 14 \<Longrightarrow> lua_tostring (int n) = nat_str n"
  by (simp add: lua_tostring_def int_str_def)

lemma lua_tostring_inject:
  "\<bar>i\<bar> < 10 ^ 14 \<Longrightarrow> \<bar>j\<bar> < 10 ^ 14 \<Longrightarrow> lua_tostring i = lua_tostring j \<longleftrightarrow> i = j"
  by (metis lua_round_trip option.inject)

lemma int_str_inject: "int_str a = int_str b \<longleftrightarrow> a = b"
proof
  assume eq: "int_str a = int_str b"
  have minus: "CHR ''-'' # s \<noteq> nat_str n" for s n
    using nat_str_not_minus [of n] by (metis list.sel(1))
  from eq show "a = b"
    by (cases "a < 0"; cases "b < 0") (auto simp: int_str_def minus minus [symmetric])
qed simp

lemma int_str_small: "int_str 0 = ''0''" "int_str 1 = ''1''"
  by code_simp+

lemma bit_count_bounds: "n \<noteq> 0 \<Longrightarrow> bit_count n \<noteq> 0 \<and> 2 ^ (bit_count n - 1) \<le> n \<and> n < 2 ^ bit_count n"
proof (induction n rule: bit_count.induct)
  case (1 n)
  have zero: "bit_count 0 = 0" by (simp add: bit_count.simps)
  have step: "bit_count n = Suc (bit_count (n div 2))" using "1.prems" by (simp add: bit_count.simps [of n])
  show ?case
  proof (cases "n div 2 = 0")
    case True
    then have "n = 1" using "1.prems" by linarith
    with zero step show ?thesis by simp
  next
    case False
    with "1.IH" "1.prems" obtain m where m: "bit_count (n div 2) = Suc m" "2 ^ m \<le> n div 2" "n div 2 < 2 ^ Suc m"
      by (metis diff_Suc_1 not0_implies_Suc)
    then have "2 * 2 ^ m \<le> n" "n < 2 * 2 ^ Suc m" by linarith+
    with m step show ?thesis by simp
  qed
qed

lemma lua_round_small:
  assumes "0 \<le> i" "lua_round i < 2 ^ 53"
  shows "lua_round i = i"
proof (cases "nat i \<le> 2 ^ 53")
  case True
  with assms(1) show ?thesis by (simp add: nat_le_iff)
next
  case False
  define b where "b = bit_count (nat i)"
  define u :: nat where "u = 2 ^ (b - 53)"
  have b: "2 ^ (b - 1) \<le> nat i" "nat i < 2 ^ b"
    using bit_count_bounds [of "nat i"] False by (auto simp: b_def)
  have "(2 :: nat) ^ 53 < 2 ^ b" using b(2) False by linarith
  then have "53 < b" by (rule power_less_imp_less_exp [rotated]) simp
  then obtain c where c: "b = c + 54" by (auto dest!: less_imp_Suc_add)
  have split: "(2 :: nat) ^ (b - 1) = 2 ^ 52 * u" "2 \<le> u"
    by (simp_all add: u_def c power_add)
  have "2 ^ 52 \<le> nat i div u"
    using div_le_mono [OF b(1), of u] split by simp
  then have "2 ^ 52 \<le> round_half_even (nat i) u" by (auto simp: round_half_even_def Let_def)
  then have "2 ^ 52 * 2 \<le> round_half_even (nat i) u * u" using split(2) by (rule mult_le_mono)
  then have "(2 :: nat) ^ 53 \<le> round_double_nat (nat i)"
    using False by (simp add: round_double_nat_def Let_def u_def b_def)
  with assms show ?thesis by (simp add: lua_round_def)
qed

end
