(* ===== verification/Redis_Server.thy ===== *)
theory Redis_Server
  imports Lua_Numbers "HOL-Library.Finite_Map" "HOL-Library.Char_ord"
    "HOL-Library.List_Lexorder" "HOL-Library.Product_Lexorder" "HOL-Library.Multiset"
begin

text \<open>
  The Redis server as Pulse uses it.  The server is not part of the repository: every script
  takes it as an argument, a record of the commands it calls.  The locale \<open>redis_server\<close> states
  the documented behaviour of those commands, relative to a view of the server state as a
  keyspace (typed values, expiry times and a clock): a command replies what the command of the
  keyspace replies and changes the view the same way.  \<open>simulates\<close> is that relation; it is
  closed under the combinators scripts are built from, so a fact about a script on the
  keyspace carries over to every server.  The keyspace itself is a server, which gives the
  interpretation of the locale and the concrete runs of the witnesses.
\<close>

section \<open>Scripts\<close>

text \<open>An action reads and changes a state and returns a value or an error.  A script is an
  action on the server state whose errors are the messages of Lua and Redis; an asynchronous
  operation of the Rust code is an action whose errors are the error type of the operation.\<close>

type_synonym ('s, 'e, 'a) action = "'s \<Rightarrow> ('e + 'a) \<times> 's"
type_synonym ('s, 'a) script = "('s, string, 'a) action"

text \<open>The keys and the arguments a script is invoked with.\<close>

type_synonym rkey = string
type_synonym rarg = string

definition sreturn :: "'a \<Rightarrow> ('s, 'e, 'a) action" where
  "sreturn x s = (Inr x, s)"

definition serror :: "'e \<Rightarrow> ('s, 'e, 'a) action" where
  "serror e s = (Inl e, s)"

definition slift :: "('e, 'a) result \<Rightarrow> ('s, 'e, 'a) action" where
  "slift r s = (r, s)"

definition sbind ::
  "('s, 'e, 'a) action \<Rightarrow> ('a \<Rightarrow> ('s, 'e, 'b) action) \<Rightarrow> ('s, 'e, 'b) action" where
  "sbind m k s = (case m s of (Inl e, s') \<Rightarrow> (Inl e, s') | (Inr x, s') \<Rightarrow> k x s')"

fun sfold ::
  "('x \<Rightarrow> 'acc \<Rightarrow> ('s, 'e, 'acc) action) \<Rightarrow> 'x list \<Rightarrow> 'acc \<Rightarrow> ('s, 'e, 'acc) action" where
  "sfold f [] acc = sreturn acc"
| "sfold f (x # xs) acc = sbind (f x acc) (sfold f xs)"

text \<open>Arithmetic and comparison on a nil value raise a Lua error, which aborts the script and
  keeps the writes made so far.\<close>

definition lua_need :: "int option \<Rightarrow> ('s, int) script" where
  "lua_need v = (case v of None \<Rightarrow> serror ''attempt to perform arithmetic on a nil value''
                         | Some i \<Rightarrow> sreturn i)"

lemma script_simps [simp]:
  "sreturn x s = (Inr x, s)"
  "serror e s = (Inl e, s)"
  "slift r s = (r, s)"
  "lua_need (Some i) s = (Inr i, s)"
  "lua_need None s = (Inl ''attempt to perform arithmetic on a nil value'', s)"
  by (simp_all add: sreturn_def serror_def slift_def lua_need_def)

lemma sbind_cases:
  assumes "sbind m k s = (r, s')"
  obtains (error) e where "m s = (Inl e, s')" "r = Inl e"
    | (ok) x t where "m s = (Inr x, t)" "k x t = (r, s')"
  using assms by (auto simp: sbind_def split: prod.splits sum.splits)

lemma sbind_Inr [simp]: "m s = (Inr x, s') \<Longrightarrow> sbind m k s = k x s'"
  by (simp add: sbind_def)

lemma sbind_bool [simp]:
  "m s = (Inr True, s') \<Longrightarrow> sbind m k s = k True s'"
  "m s = (Inr False, s') \<Longrightarrow> sbind m k s = k False s'"
  by simp_all

lemma sbind_Inl [simp]: "m s = (Inl e, s') \<Longrightarrow> sbind m k s = (Inl e, s')"
  by (simp add: sbind_def)

section \<open>The keyspace\<close>

datatype rvalue =
    RString string
  | RHash "(string, string) fmap"
  | RZset "(string, int) fmap"

text \<open>Expiry times are absolute milliseconds, the clock counts microseconds.\<close>

record keyspace =
  ks_data :: "string \<Rightarrow> (rvalue \<times> nat option) option"
  ks_clock :: nat

definition kv_now :: "keyspace \<Rightarrow> nat" where
  "kv_now ks = ks_clock ks div 1000"

definition expired :: "nat \<Rightarrow> nat option \<Rightarrow> bool" where
  "expired now e = (case e of None \<Rightarrow> False | Some t \<Rightarrow> t < now)"

definition kv_entry :: "keyspace \<Rightarrow> string \<Rightarrow> (rvalue \<times> nat option) option" where
  "kv_entry ks k = (case ks_data ks k of
     None \<Rightarrow> None
   | Some (v, e) \<Rightarrow> if expired (kv_now ks) e then None else Some (v, e))"

definition kv_live :: "keyspace \<Rightarrow> string \<Rightarrow> rvalue option" where
  "kv_live ks k = map_option fst (kv_entry ks k)"

definition kv_expiry :: "keyspace \<Rightarrow> string \<Rightarrow> nat option" where
  "kv_expiry ks k = Option.bind (kv_entry ks k) snd"

definition kv_write :: "string \<Rightarrow> rvalue \<Rightarrow> keyspace \<Rightarrow> keyspace" where
  "kv_write k v ks = ks\<lparr>ks_data := (ks_data ks)(k \<mapsto> (v, kv_expiry ks k))\<rparr>"

definition kv_delete :: "string \<Rightarrow> keyspace \<Rightarrow> keyspace" where
  "kv_delete k ks = ks\<lparr>ks_data := (ks_data ks)(k := None)\<rparr>"

definition kv_set_expiry :: "string \<Rightarrow> nat option \<Rightarrow> keyspace \<Rightarrow> keyspace" where
  "kv_set_expiry k e ks = (case kv_live ks k of
     None \<Rightarrow> ks
   | Some v \<Rightarrow> ks\<lparr>ks_data := (ks_data ks)(k \<mapsto> (v, e))\<rparr>)"

definition kv_tick :: "nat \<Rightarrow> keyspace \<Rightarrow> keyspace" where
  "kv_tick us ks = ks\<lparr>ks_clock := ks_clock ks + us\<rparr>"

lemma kv_clock_simps [simp]:
  "ks_clock (kv_write k v ks) = ks_clock ks"
  "ks_clock (kv_delete k ks) = ks_clock ks"
  "ks_clock (kv_set_expiry k e ks) = ks_clock ks"
  by (auto simp: kv_write_def kv_delete_def kv_set_expiry_def split: option.splits)

lemma kv_now_simps [simp]:
  "kv_now (kv_write k v ks) = kv_now ks"
  "kv_now (kv_delete k ks) = kv_now ks"
  "kv_now (kv_set_expiry k e ks) = kv_now ks"
  by (simp_all add: kv_now_def)

lemma expired_simps [simp]: "\<not> expired now None" "expired now (Some t) \<longleftrightarrow> t < now"
  by (simp_all add: expired_def)

lemma kv_entry_not_expired: "kv_entry ks k = Some (v, e) \<Longrightarrow> \<not> expired (kv_now ks) e"
  by (auto simp: kv_entry_def split: option.splits if_splits)

lemma kv_now_data [simp]: "kv_now (ks\<lparr>ks_data := d\<rparr>) = kv_now ks"
  by (simp add: kv_now_def)

lemma kv_entry_data:
  "kv_entry (ks\<lparr>ks_data := (ks_data ks)(k := x)\<rparr>) k' =
     (if k' = k then Option.bind x (\<lambda>(v, e). if expired (kv_now ks) e then None else Some (v, e))
      else kv_entry ks k')"
  by (auto simp: kv_entry_def split: option.splits)

lemma kv_entry_write [simp]:
  "kv_entry (kv_write k v ks) k' = (if k' = k then Some (v, kv_expiry ks k) else kv_entry ks k')"
  by (cases "kv_entry ks k")
     (auto simp: kv_write_def kv_entry_data kv_expiry_def dest: kv_entry_not_expired)

lemma kv_entry_delete [simp]:
  "kv_entry (kv_delete k ks) k' = (if k' = k then None else kv_entry ks k')"
  by (simp add: kv_delete_def kv_entry_data)

lemma kv_entry_set_expiry [simp]:
  "kv_entry (kv_set_expiry k e ks) k' =
     (if k' = k then if expired (kv_now ks) e then None
                     else map_option (\<lambda>(v, _). (v, e)) (kv_entry ks k)
      else kv_entry ks k')"
  by (cases "kv_entry ks k") (auto simp: kv_set_expiry_def kv_live_def kv_entry_data)

lemma kv_live_write [simp]: "kv_live (kv_write k v ks) k' = (if k' = k then Some v else kv_live ks k')"
  by (simp add: kv_live_def)

lemma kv_live_delete [simp]: "kv_live (kv_delete k ks) k' = (if k' = k then None else kv_live ks k')"
  by (simp add: kv_live_def)

lemma kv_live_set_expiry [simp]:
  "kv_live (kv_set_expiry k e ks) k' =
     (if k' = k \<and> expired (kv_now ks) e then None else kv_live ks k')"
  by (cases "kv_entry ks k") (auto simp: kv_live_def)

lemma kv_expiry_write [simp]: "kv_expiry (kv_write k v ks) k' = kv_expiry ks k'"
  by (simp add: kv_expiry_def)

lemma kv_expiry_delete [simp]:
  "kv_expiry (kv_delete k ks) k' = (if k' = k then None else kv_expiry ks k')"
  by (simp add: kv_expiry_def)

lemma kv_expiry_set_expiry [simp]:
  "kv_expiry (kv_set_expiry k e ks) k' =
     (if k' = k then if kv_live ks k = None \<or> expired (kv_now ks) e then None else e
      else kv_expiry ks k')"
  by (cases "kv_entry ks k") (auto simp: kv_expiry_def kv_live_def)

lemma kv_expiry_ge: "kv_expiry ks k = Some t \<Longrightarrow> kv_now ks \<le> t"
  using kv_entry_not_expired [of ks k _ "Some t"]
  by (cases "kv_entry ks k") (auto simp: kv_expiry_def)

section \<open>Commands\<close>

definition WRONGTYPE :: string where
  "WRONGTYPE = ''WRONGTYPE Operation against a key holding the wrong kind of value''"

text \<open>The hash at a key for reading and writing: an absent key is an empty hash, a key of
  another type is an error.\<close>

definition kv_hash :: "keyspace \<Rightarrow> string \<Rightarrow> (string, string) fmap option" where
  "kv_hash ks k = (case kv_live ks k of
     None \<Rightarrow> Some fmempty | Some (RHash h) \<Rightarrow> Some h | Some _ \<Rightarrow> None)"

definition kv_zset :: "keyspace \<Rightarrow> string \<Rightarrow> (string, int) fmap option" where
  "kv_zset ks k = (case kv_live ks k of
     None \<Rightarrow> Some fmempty | Some (RZset z) \<Rightarrow> Some z | Some _ \<Rightarrow> None)"

text \<open>A removal that empties a collection removes its key.\<close>

definition kv_put_hash :: "string \<Rightarrow> (string, string) fmap \<Rightarrow> keyspace \<Rightarrow> keyspace" where
  "kv_put_hash k h ks = (if h = fmempty then kv_delete k ks else kv_write k (RHash h) ks)"

definition kv_put_zset :: "string \<Rightarrow> (string, int) fmap \<Rightarrow> keyspace \<Rightarrow> keyspace" where
  "kv_put_zset k z ks = (if z = fmempty then kv_delete k ks else kv_write k (RZset z) ks)"

text \<open>The strict signed 64-bit decimal that Redis reads for integer arguments and values.\<close>

definition redis_int :: "string \<Rightarrow> int option" where
  "redis_int s =
     (let i = (if s \<noteq> [] \<and> hd s = CHR ''-'' then map_option (\<lambda>n. - int n) (parse_nat (tl s))
               else map_option int (parse_nat s))
      in case i of None \<Rightarrow> None
         | Some v \<Rightarrow> if int_str v = s \<and> - (2 ^ 63) \<le> v \<and> v < 2 ^ 63 then Some v else None)"

definition kv_time :: "(keyspace, string \<times> string) script" where
  "kv_time ks = (Inr (nat_str (ks_clock ks div 10 ^ 6), nat_str (ks_clock ks mod 10 ^ 6)), ks)"

definition kv_exists :: "string \<Rightarrow> (keyspace, int) script" where
  "kv_exists k ks = (Inr (if kv_live ks k = None then 0 else 1), ks)"

definition kv_pttl :: "string \<Rightarrow> (keyspace, int) script" where
  "kv_pttl k ks = (Inr (if kv_live ks k = None then - 2
     else case kv_expiry ks k of None \<Rightarrow> - 1 | Some t \<Rightarrow> int t - int (kv_now ks)), ks)"

definition kv_pexpire :: "string \<Rightarrow> string \<Rightarrow> (keyspace, int) script" where
  "kv_pexpire k ttl ks = (case redis_int ttl of
     None \<Rightarrow> (Inl ''ERR value is not an integer or out of range'', ks)
   | Some ms \<Rightarrow>
       if ms + int (kv_now ks) \<ge> 2 ^ 63 then (Inl ''ERR invalid expire time'', ks)
       else if kv_live ks k = None then (Inr 0, ks)
       else if ms \<le> 0 then (Inr 1, kv_delete k ks)
       else (Inr 1, kv_set_expiry k (Some (kv_now ks + nat ms)) ks))"

definition kv_persist :: "string \<Rightarrow> (keyspace, int) script" where
  "kv_persist k ks = (Inr (if kv_expiry ks k = None then 0 else 1), kv_set_expiry k None ks)"

definition kv_del :: "string \<Rightarrow> (keyspace, int) script" where
  "kv_del k ks = (Inr (if kv_live ks k = None then 0 else 1), kv_delete k ks)"

definition kv_incr :: "string \<Rightarrow> (keyspace, int) script" where
  "kv_incr k ks = (case kv_live ks k of
     None \<Rightarrow> (Inr 1, kv_write k (RString ''1'') ks)
   | Some (RString s) \<Rightarrow> (case redis_int s of
       None \<Rightarrow> (Inl ''ERR value is not an integer or out of range'', ks)
     | Some i \<Rightarrow> if i + 1 \<ge> 2 ^ 63 then (Inl ''ERR increment or decrement would overflow'', ks)
                 else (Inr (i + 1), kv_write k (RString (int_str (i + 1))) ks))
   | Some _ \<Rightarrow> (Inl WRONGTYPE, ks))"

definition on_hash :: "string \<Rightarrow> ((string, string) fmap \<Rightarrow> (keyspace, 'a) script) \<Rightarrow> (keyspace, 'a) script"
where
  "on_hash k f ks = (case kv_hash ks k of None \<Rightarrow> (Inl WRONGTYPE, ks) | Some h \<Rightarrow> f h ks)"

definition on_zset :: "string \<Rightarrow> ((string, int) fmap \<Rightarrow> (keyspace, 'a) script) \<Rightarrow> (keyspace, 'a) script"
where
  "on_zset k f ks = (case kv_zset ks k of None \<Rightarrow> (Inl WRONGTYPE, ks) | Some z \<Rightarrow> f z ks)"

definition kv_hget :: "string \<Rightarrow> string \<Rightarrow> (keyspace, string option) script" where
  "kv_hget k f = on_hash k (\<lambda>h ks. (Inr (fmlookup h f), ks))"

definition kv_hexists :: "string \<Rightarrow> string \<Rightarrow> (keyspace, int) script" where
  "kv_hexists k f = on_hash k (\<lambda>h ks. (Inr (if fmlookup h f = None then 0 else 1), ks))"

definition hash_entries :: "(string, string) fmap \<Rightarrow> (string \<times> string) list" where
  "hash_entries h = map (\<lambda>f. (f, the (fmlookup h f))) (sorted_list_of_fset (fmdom h))"

definition kv_hgetall :: "string \<Rightarrow> (keyspace, (string \<times> string) list) script" where
  "kv_hgetall k = on_hash k (\<lambda>h ks. (Inr (hash_entries h), ks))"

definition fmupds :: "(string \<times> string) list \<Rightarrow> (string, string) fmap \<Rightarrow> (string, string) fmap" where
  "fmupds fvs h = foldl (\<lambda>m (f, v). fmupd f v m) h fvs"

definition kv_hset :: "string \<Rightarrow> (string \<times> string) list \<Rightarrow> (keyspace, int) script" where
  "kv_hset k fvs = on_hash k (\<lambda>h ks.
     (Inr (int (length (remdups (filter (\<lambda>f. fmlookup h f = None) (map fst fvs))))),
      kv_put_hash k (fmupds fvs h) ks))"

definition kv_hsetnx :: "string \<Rightarrow> string \<Rightarrow> string \<Rightarrow> (keyspace, int) script" where
  "kv_hsetnx k f v = on_hash k (\<lambda>h ks.
     if fmlookup h f = None then (Inr 1, kv_put_hash k (fmupd f v h) ks) else (Inr 0, ks))"

definition kv_hdel :: "string \<Rightarrow> string list \<Rightarrow> (keyspace, int) script" where
  "kv_hdel k fs = on_hash k (\<lambda>h ks.
     (Inr (int (length (remdups (filter (\<lambda>f. fmlookup h f \<noteq> None) fs)))),
      kv_put_hash k (fmdrop_set (set fs) h) ks))"

definition kv_hincrby :: "string \<Rightarrow> string \<Rightarrow> string \<Rightarrow> (keyspace, int) script" where
  "kv_hincrby k f by = on_hash k (\<lambda>h ks.
     case (redis_int by, redis_int (case fmlookup h f of None \<Rightarrow> ''0'' | Some v \<Rightarrow> v)) of
       (None, _) \<Rightarrow> (Inl ''ERR value is not an integer or out of range'', ks)
     | (Some d, None) \<Rightarrow> (Inl ''ERR hash value is not an integer'', ks)
     | (Some d, Some i) \<Rightarrow>
         if - (2 ^ 63) \<le> i + d \<and> i + d < 2 ^ 63
         then (Inr (i + d), kv_put_hash k (fmupd f (int_str (i + d)) h) ks)
         else (Inl ''ERR increment or decrement would overflow'', ks))"

text \<open>Members of a sorted set in score order, equal scores by member.\<close>

definition zset_order :: "(string, int) fmap \<Rightarrow> (int \<times> string) list" where
  "zset_order z = sort (map (\<lambda>m. (the (fmlookup z m), m)) (sorted_list_of_fset (fmdom z)))"

definition kv_zadd :: "string \<Rightarrow> int \<Rightarrow> string \<Rightarrow> (keyspace, int) script" where
  "kv_zadd k score m = on_zset k (\<lambda>z ks.
     (Inr (if fmlookup z m = None then 1 else 0), kv_put_zset k (fmupd m score z) ks))"

definition kv_zrem :: "string \<Rightarrow> string \<Rightarrow> (keyspace, int) script" where
  "kv_zrem k m = on_zset k (\<lambda>z ks.
     (Inr (if fmlookup z m = None then 0 else 1), kv_put_zset k (fmdrop m z) ks))"

definition kv_zcard :: "string \<Rightarrow> (keyspace, int) script" where
  "kv_zcard k = on_zset k (\<lambda>z ks. (Inr (int (fcard (fmdom z))), ks))"

definition kv_zremrangebyscore :: "string \<Rightarrow> int \<Rightarrow> (keyspace, int) script" where
  "kv_zremrangebyscore k max_score = on_zset k (\<lambda>z ks.
     (Inr (int (length (filter (\<lambda>(s, m). s \<le> max_score) (zset_order z)))),
      kv_put_zset k (fmfilter (\<lambda>m. \<not> the (fmlookup z m) \<le> max_score) z) ks))"

definition kv_zrangebyscore :: "string \<Rightarrow> int \<Rightarrow> nat \<Rightarrow> (keyspace, string list) script" where
  "kv_zrangebyscore k max_score limit = on_zset k (\<lambda>z ks.
     (Inr (take limit (map snd (filter (\<lambda>(s, m). s \<le> max_score) (zset_order z)))), ks))"

definition kv_zrange :: "string \<Rightarrow> nat \<Rightarrow> (keyspace, string list) script" where
  "kv_zrange k n = on_zset k (\<lambda>z ks. (Inr (take n (map snd (zset_order z))), ks))"


section \<open>The server interface\<close>

record 's redis =
  time :: "('s, string \<times> string) script"
  exists_key :: "string \<Rightarrow> ('s, int) script"
  pttl :: "string \<Rightarrow> ('s, int) script"
  pexpire :: "string \<Rightarrow> string \<Rightarrow> ('s, int) script"
  persist :: "string \<Rightarrow> ('s, int) script"
  del :: "string \<Rightarrow> ('s, int) script"
  incr :: "string \<Rightarrow> ('s, int) script"
  hget :: "string \<Rightarrow> string \<Rightarrow> ('s, string option) script"
  hexists :: "string \<Rightarrow> string \<Rightarrow> ('s, int) script"
  hgetall :: "string \<Rightarrow> ('s, (string \<times> string) list) script"
  hset :: "string \<Rightarrow> (string \<times> string) list \<Rightarrow> ('s, int) script"
  hsetnx :: "string \<Rightarrow> string \<Rightarrow> string \<Rightarrow> ('s, int) script"
  hdel :: "string \<Rightarrow> string list \<Rightarrow> ('s, int) script"
  hincrby :: "string \<Rightarrow> string \<Rightarrow> string \<Rightarrow> ('s, int) script"
  zadd :: "string \<Rightarrow> int \<Rightarrow> string \<Rightarrow> ('s, int) script"
  zrem :: "string \<Rightarrow> string \<Rightarrow> ('s, int) script"
  zcard :: "string \<Rightarrow> ('s, int) script"
  zremrangebyscore :: "string \<Rightarrow> int \<Rightarrow> ('s, int) script"
  zrangebyscore :: "string \<Rightarrow> int \<Rightarrow> nat \<Rightarrow> ('s, string list) script"
  zrange :: "string \<Rightarrow> nat \<Rightarrow> ('s, string list) script"

definition kv_redis :: "keyspace redis" where
  "kv_redis = \<lparr>time = kv_time, exists_key = kv_exists, pttl = kv_pttl, pexpire = kv_pexpire,
     persist = kv_persist, del = kv_del, incr = kv_incr, hget = kv_hget, hexists = kv_hexists,
     hgetall = kv_hgetall, hset = kv_hset, hsetnx = kv_hsetnx, hdel = kv_hdel,
     hincrby = kv_hincrby, zadd = kv_zadd, zrem = kv_zrem, zcard = kv_zcard,
     zremrangebyscore = kv_zremrangebyscore, zrangebyscore = kv_zrangebyscore,
     zrange = kv_zrange\<rparr>"

text \<open>\<open>simulates view Q m m'\<close>: from every server state the script \<open>m\<close> raises exactly when \<open>m'\<close>
  raises on the view, with the same error, returns values related by \<open>Q\<close>, and leaves the
  server in a state whose view is the one \<open>m'\<close> leaves.\<close>

definition simulates ::
  "('s \<Rightarrow> keyspace) \<Rightarrow> ('a \<Rightarrow> 'b \<Rightarrow> bool) \<Rightarrow> ('s, 'e, 'a) action \<Rightarrow> (keyspace, 'e, 'b) action
     \<Rightarrow> bool" where
  "simulates view Q m m' \<longleftrightarrow>
     (\<forall>s. rel_sum (=) Q (fst (m s)) (fst (m' (view s))) \<and> view (snd (m s)) = snd (m' (view s)))"

named_theorems simulation "introduction rules for simulation of a script by the keyspace"

lemma simulates_return [simulation]: "Q x y \<Longrightarrow> simulates view Q (sreturn x) (sreturn y)"
  by (simp add: simulates_def)

lemma simulates_error [simulation]: "simulates view Q (serror e) (serror e)"
  by (simp add: simulates_def)

lemma simulates_lift [simulation]: "simulates view (=) (slift r) (slift r)"
  by (cases r) (simp_all add: simulates_def)

lemma simulates_need [simulation]: "simulates view (=) (lua_need v) (lua_need v)"
  by (cases v) (simp_all add: simulates_def)

lemma simulates_bind_rel:
  assumes "simulates view P m m'" and "\<And>x y. P x y \<Longrightarrow> simulates view Q (k x) (k' y)"
  shows "simulates view Q (sbind m k) (sbind m' k')"
  unfolding simulates_def
proof
  fix s
  have m: "rel_sum (=) P (fst (m s)) (fst (m' (view s)))" "view (snd (m s)) = snd (m' (view s))"
    using assms(1) by (auto simp: simulates_def)
  obtain r t r' t' where eqs: "m s = (r, t)" "m' (view s) = (r', t')"
    by fastforce
  show "rel_sum (=) Q (fst (sbind m k s)) (fst (sbind m' k' (view s)))
        \<and> view (snd (sbind m k s)) = snd (sbind m' k' (view s))"
  proof (cases r)
    case (Inl e)
    with m eqs have "r' = Inl e" "view t = t'" by (cases r'; simp)+
    with eqs Inl show ?thesis by simp
  next
    case (Inr x)
    with m eqs obtain y where "r' = Inr y" "P x y" "view t = t'" by (cases r') auto
    with assms(2) [OF \<open>P x y\<close>] eqs Inr show ?thesis by (auto simp: simulates_def)
  qed
qed

lemma simulates_bind [simulation]:
  "simulates view (=) m m' \<Longrightarrow> (\<And>x. simulates view Q (k x) (k' x)) \<Longrightarrow>
   simulates view Q (sbind m k) (sbind m' k')"
  by (rule simulates_bind_rel [where P = "(=)"]) auto

lemma simulates_if [simulation]:
  "simulates view Q a a' \<Longrightarrow> simulates view Q b b' \<Longrightarrow>
   simulates view Q (if c then a else b) (if c then a' else b')"
  by simp

lemma simulates_case_option [simulation]:
  "simulates view Q a a' \<Longrightarrow> (\<And>x. simulates view Q (f x) (f' x)) \<Longrightarrow>
   simulates view Q (case v of None \<Rightarrow> a | Some x \<Rightarrow> f x) (case v of None \<Rightarrow> a' | Some x \<Rightarrow> f' x)"
  by (cases v) simp_all

lemma simulates_case_prod [simulation]:
  "(\<And>x y. simulates view Q (f x y) (f' x y)) \<Longrightarrow>
   simulates view Q (case p of (x, y) \<Rightarrow> f x y) (case p of (x, y) \<Rightarrow> f' x y)"
  by (cases p) simp

lemma simulates_let [simulation]:
  "(\<And>x. simulates view Q (f x) (f' x)) \<Longrightarrow> simulates view Q (Let v f) (Let v f')"
  by (simp add: Let_def)

lemma simulates_fold [simulation]:
  "(\<And>x acc. simulates view (=) (f x acc) (f' x acc)) \<Longrightarrow>
   simulates view (=) (sfold f xs acc) (sfold f' xs acc)"
  by (induction xs arbitrary: acc) (auto intro!: simulation)

text \<open>The documented behaviour of the server.  The order of the entries in an \<open>HGETALL\<close> reply is
  unspecified, so that reply is only a permutation of the entries.\<close>

definition same_entries :: "(string \<times> string) list \<Rightarrow> (string \<times> string) list \<Rightarrow> bool" where
  "same_entries xs ys \<longleftrightarrow> mset xs = mset ys"

locale redis_server =
  fixes R :: "'s redis" and view :: "'s \<Rightarrow> keyspace"
  assumes time_sim: "simulates view (=) (time R) kv_time"
    and exists_sim: "simulates view (=) (exists_key R k) (kv_exists k)"
    and pttl_sim: "simulates view (=) (pttl R k) (kv_pttl k)"
    and pexpire_sim: "simulates view (=) (pexpire R k ttl) (kv_pexpire k ttl)"
    and persist_sim: "simulates view (=) (persist R k) (kv_persist k)"
    and del_sim: "simulates view (=) (del R k) (kv_del k)"
    and incr_sim: "simulates view (=) (incr R k) (kv_incr k)"
    and hget_sim: "simulates view (=) (hget R k f) (kv_hget k f)"
    and hexists_sim: "simulates view (=) (hexists R k f) (kv_hexists k f)"
    and hgetall_sim: "simulates view same_entries (hgetall R k) (kv_hgetall k)"
    and hset_sim: "simulates view (=) (hset R k fvs) (kv_hset k fvs)"
    and hsetnx_sim: "simulates view (=) (hsetnx R k f v) (kv_hsetnx k f v)"
    and hdel_sim: "simulates view (=) (hdel R k fs) (kv_hdel k fs)"
    and hincrby_sim: "simulates view (=) (hincrby R k f i) (kv_hincrby k f i)"
    and zadd_sim: "simulates view (=) (zadd R k sc m) (kv_zadd k sc m)"
    and zrem_sim: "simulates view (=) (zrem R k m) (kv_zrem k m)"
    and zcard_sim: "simulates view (=) (zcard R k) (kv_zcard k)"
    and zremrangebyscore_sim:
      "simulates view (=) (zremrangebyscore R k sc) (kv_zremrangebyscore k sc)"
    and zrangebyscore_sim:
      "simulates view (=) (zrangebyscore R k sc n) (kv_zrangebyscore k sc n)"
    and zrange_sim: "simulates view (=) (zrange R k n) (kv_zrange k n)"
begin

lemmas command_sims =
  time_sim exists_sim pttl_sim pexpire_sim persist_sim del_sim incr_sim hget_sim hexists_sim
  hset_sim hsetnx_sim hdel_sim hincrby_sim zadd_sim zrem_sim zcard_sim zremrangebyscore_sim
  zrangebyscore_sim zrange_sim

end

lemma kv_redis_simps [simp]:
  "time kv_redis = kv_time" "exists_key kv_redis = kv_exists" "pttl kv_redis = kv_pttl"
  "pexpire kv_redis = kv_pexpire" "persist kv_redis = kv_persist" "del kv_redis = kv_del"
  "incr kv_redis = kv_incr" "hget kv_redis = kv_hget" "hexists kv_redis = kv_hexists"
  "hgetall kv_redis = kv_hgetall" "hset kv_redis = kv_hset" "hsetnx kv_redis = kv_hsetnx"
  "hdel kv_redis = kv_hdel" "hincrby kv_redis = kv_hincrby" "zadd kv_redis = kv_zadd"
  "zrem kv_redis = kv_zrem" "zcard kv_redis = kv_zcard"
  "zremrangebyscore kv_redis = kv_zremrangebyscore"
  "zrangebyscore kv_redis = kv_zrangebyscore" "zrange kv_redis = kv_zrange"
  by (simp_all add: kv_redis_def)

lemma simulates_refl: "(\<And>x. Q x x) \<Longrightarrow> simulates id Q m m"
  by (auto simp: simulates_def intro!: sum.rel_refl)

interpretation kv: redis_server kv_redis id
  by unfold_locales (auto intro!: simulates_refl simp: same_entries_def)

text \<open>A server state and a script: the reply and the view after the script are those of the
  keyspace.\<close>

lemma simulates_run:
  assumes "simulates view (=) m m'"
  shows "fst (m s) = fst (m' (view s))" "view (snd (m s)) = snd (m' (view s))"
  using assms by (auto simp: simulates_def sum.rel_eq)


section \<open>Evaluation rules\<close>

lemma fmupds_simps [simp]:
  "fmupds [] h = h"
  "fmupds ((f, v) # fvs) h = fmupds fvs (fmupd f v h)"
  by (simp_all add: fmupds_def)

lemma fmupds_empty_iff: "fmupds fvs h = fmempty \<longleftrightarrow> fvs = [] \<and> h = fmempty"
  by (induction fvs arbitrary: h) (auto simp: fmupds_def)

lemma kv_live_put_hash [simp]:
  "kv_live (kv_put_hash k h ks) k' =
     (if k' = k then if h = fmempty then None else Some (RHash h) else kv_live ks k')"
  by (simp add: kv_put_hash_def)

lemma kv_live_put_zset [simp]:
  "kv_live (kv_put_zset k z ks) k' =
     (if k' = k then if z = fmempty then None else Some (RZset z) else kv_live ks k')"
  by (simp add: kv_put_zset_def)

lemma kv_entry_put [simp]:
  "kv_entry (kv_put_hash k h ks) k' =
     (if k' = k then if h = fmempty then None else Some (RHash h, kv_expiry ks k) else kv_entry ks k')"
  "kv_entry (kv_put_zset k z ks) k' =
     (if k' = k then if z = fmempty then None else Some (RZset z, kv_expiry ks k) else kv_entry ks k')"
  by (simp_all add: kv_put_hash_def kv_put_zset_def)

lemma kv_put_absorb [simp]:
  "h' \<noteq> fmempty \<Longrightarrow> kv_put_hash k h (kv_put_hash k h' ks) = kv_put_hash k h ks"
  "z' \<noteq> fmempty \<Longrightarrow> kv_put_zset k z (kv_put_zset k z' ks) = kv_put_zset k z ks"
proof -
  have again: "kv_write k v (kv_write k v' ks) = kv_write k v ks" for v v'
  proof -
    have "kv_expiry (kv_write k v' ks) k = kv_expiry ks k" by simp
    then show ?thesis by (simp add: kv_write_def)
  qed
  have "kv_delete k (kv_write k v' ks) = kv_delete k ks" for v'
    by (simp add: kv_delete_def kv_write_def)
  with again show
    "h' \<noteq> fmempty \<Longrightarrow> kv_put_hash k h (kv_put_hash k h' ks) = kv_put_hash k h ks"
    "z' \<noteq> fmempty \<Longrightarrow> kv_put_zset k z (kv_put_zset k z' ks) = kv_put_zset k z ks"
    by (simp_all add: kv_put_hash_def kv_put_zset_def)
qed

lemma kv_put_clock [simp]:
  "kv_now (kv_put_hash k h ks) = kv_now ks" "kv_now (kv_put_zset k z ks) = kv_now ks"
  "ks_clock (kv_put_hash k h ks) = ks_clock ks" "ks_clock (kv_put_zset k z ks) = ks_clock ks"
  by (simp_all add: kv_put_hash_def kv_put_zset_def)

lemma kv_expiry_put [simp]:
  "kv_expiry (kv_put_hash k h ks) k' = (if k' = k \<and> h = fmempty then None else kv_expiry ks k')"
  "kv_expiry (kv_put_zset k z ks) k' = (if k' = k \<and> z = fmempty then None else kv_expiry ks k')"
  by (auto simp: kv_put_hash_def kv_put_zset_def)

lemma kv_hash_put [simp]:
  "kv_hash (kv_put_hash k h ks) k' = (if k' = k then Some h else kv_hash ks k')"
  "k' \<noteq> k \<Longrightarrow> kv_hash (kv_put_zset k z ks) k' = kv_hash ks k'"
  "k' \<noteq> k \<Longrightarrow> kv_hash (kv_write k v ks) k' = kv_hash ks k'"
  "kv_hash (kv_delete k ks) k' = (if k' = k then Some fmempty else kv_hash ks k')"
  "\<not> expired (kv_now ks) e \<Longrightarrow> kv_hash (kv_set_expiry k e ks) k' = kv_hash ks k'"
  by (auto simp: kv_hash_def)

lemma kv_zset_put [simp]:
  "kv_zset (kv_put_zset k z ks) k' = (if k' = k then Some z else kv_zset ks k')"
  "k' \<noteq> k \<Longrightarrow> kv_zset (kv_put_hash k h ks) k' = kv_zset ks k'"
  "k' \<noteq> k \<Longrightarrow> kv_zset (kv_write k v ks) k' = kv_zset ks k'"
  "kv_zset (kv_delete k ks) k' = (if k' = k then Some fmempty else kv_zset ks k')"
  "\<not> expired (kv_now ks) e \<Longrightarrow> kv_zset (kv_set_expiry k e ks) k' = kv_zset ks k'"
  by (auto simp: kv_zset_def)

lemma kv_hash_live [simp]:
  "kv_live ks k = Some (RHash h) \<Longrightarrow> kv_hash ks k = Some h"
  "kv_live ks k = None \<Longrightarrow> kv_hash ks k = Some fmempty"
  by (simp_all add: kv_hash_def)

lemma redis_int_int_str [simp]: "- (2 ^ 63) \<le> i \<Longrightarrow> i < 2 ^ 63 \<Longrightarrow> redis_int (int_str i) = Some i"
  by (cases "i < 0")
     (simp_all add: redis_int_def int_str_def Let_def nat_str_not_minus)

lemma redis_int_nat_str [simp]: "n < 2 ^ 63 \<Longrightarrow> redis_int (nat_str n) = Some (int n)"
  using redis_int_int_str [of "int n"] by (simp add: int_str_def)

text \<open>Commands on a key that is absent or holds a hash (a sorted set).\<close>

lemma hash_commands [simp]:
  assumes "kv_hash ks k = Some h"
  shows "kv_hget k f ks = (Inr (fmlookup h f), ks)"
    and "kv_hexists k f ks = (Inr (if fmlookup h f = None then 0 else 1), ks)"
    and "kv_hgetall k ks = (Inr (hash_entries h), ks)"
    and "kv_hset k fvs ks =
      (Inr (int (length (remdups (filter (\<lambda>f. fmlookup h f = None) (map fst fvs))))),
       kv_put_hash k (fmupds fvs h) ks)"
    and "kv_hsetnx k f v ks =
      (if fmlookup h f = None then (Inr 1, kv_put_hash k (fmupd f v h) ks) else (Inr 0, ks))"
    and "kv_hdel k fs ks =
      (Inr (int (length (remdups (filter (\<lambda>f. fmlookup h f \<noteq> None) fs)))),
       kv_put_hash k (fmdrop_set (set fs) h) ks)"
  using assms
  by (simp_all add: kv_hget_def kv_hexists_def kv_hgetall_def kv_hset_def kv_hsetnx_def
      kv_hdel_def on_hash_def)

lemma kv_hincrby_eval [simp]:
  assumes "kv_hash ks k = Some h"
    and "redis_int by = Some d"
    and "redis_int (case fmlookup h f of None \<Rightarrow> ''0'' | Some v \<Rightarrow> v) = Some i"
    and "- (2 ^ 63) \<le> i + d" "i + d < 2 ^ 63"
  shows "kv_hincrby k f by ks = (Inr (i + d), kv_put_hash k (fmupd f (int_str (i + d)) h) ks)"
  using assms by (simp add: kv_hincrby_def on_hash_def)

lemma zset_commands [simp]:
  assumes "kv_zset ks k = Some z"
  shows "kv_zadd k sc m ks =
      (Inr (if fmlookup z m = None then 1 else 0), kv_put_zset k (fmupd m sc z) ks)"
    and "kv_zrem k m ks =
      (Inr (if fmlookup z m = None then 0 else 1), kv_put_zset k (fmdrop m z) ks)"
    and "kv_zcard k ks = (Inr (int (fcard (fmdom z))), ks)"
    and "kv_zremrangebyscore k sc ks =
      (Inr (int (length (filter (\<lambda>(s, m). s \<le> sc) (zset_order z)))),
       kv_put_zset k (fmfilter (\<lambda>m. \<not> the (fmlookup z m) \<le> sc) z) ks)"
    and "kv_zrangebyscore k sc n ks =
      (Inr (take n (map snd (filter (\<lambda>(s, m). s \<le> sc) (zset_order z)))), ks)"
    and "kv_zrange k n ks = (Inr (take n (map snd (zset_order z))), ks)"
  using assms
  by (simp_all add: kv_zadd_def kv_zrem_def kv_zcard_def kv_zremrangebyscore_def
      kv_zrangebyscore_def kv_zrange_def on_zset_def)

lemma kv_exists_eval [simp]: "kv_exists k ks = (Inr (if kv_live ks k = None then 0 else 1), ks)"
  by (simp add: kv_exists_def)

lemma kv_pexpire_eval [simp]:
  assumes "redis_int ttl = Some ms" "ms + int (kv_now ks) < 2 ^ 63" "0 < ms"
    and "kv_live ks k = Some v"
  shows "kv_pexpire k ttl ks = (Inr 1, kv_set_expiry k (Some (kv_now ks + nat ms)) ks)"
  using assms by (simp add: kv_pexpire_def)

lemma kv_persist_eval [simp]:
  "kv_persist k ks = (Inr (if kv_expiry ks k = None then 0 else 1), kv_set_expiry k None ks)"
  by (simp add: kv_persist_def)

lemma kv_del_eval [simp]:
  "kv_del k ks = (Inr (if kv_live ks k = None then 0 else 1), kv_delete k ks)"
  by (simp add: kv_del_def)

section \<open>The server clock in a script\<close>

text \<open>Every script that needs the time computes milliseconds from the reply of \<open>TIME\<close>.\<close>

text \<open>A reply that is used as a Lua number is converted to a double.\<close>

definition lua_reply :: "('s, int) script \<Rightarrow> ('s, int) script" where
  "lua_reply m = sbind m (\<lambda>i. sreturn (lua_round i))"

lemma lua_reply_eval [simp]: "m s = (Inr i, s') \<Longrightarrow> lua_reply m s = (Inr (lua_round i), s')"
  by (simp add: lua_reply_def)

lemma simulates_reply [simulation]:
  "simulates view (=) m m' \<Longrightarrow> simulates view (=) (lua_reply m) (lua_reply m')"
  unfolding lua_reply_def by (intro simulation) auto

definition script_now_ms :: "'s redis \<Rightarrow> ('s, int) script" where
  "script_now_ms R =
     sbind (time R) (\<lambda>(secs, micros).
     sbind (lua_need (lua_tonumber secs)) (\<lambda>a.
     sbind (lua_need (lua_tonumber micros)) (\<lambda>b.
     sreturn (lua_add (lua_mul a 1000) (b div 1000)))))"

lemma clock_split:
  "clock div 10 ^ 6 * 1000 + clock mod 10 ^ 6 div 1000 = clock div (1000 :: nat)"
proof -
  have "clock = clock div 10 ^ 6 * 1000 * 1000 + clock mod 10 ^ 6"
    using div_mult_mod_eq [of clock "10 ^ 6"] by simp
  then have "clock div 1000 = (clock div 10 ^ 6 * 1000 * 1000 + clock mod 10 ^ 6) div 1000"
    by (rule arg_cong)
  also have "\<dots> = clock div 10 ^ 6 * 1000 + clock mod 10 ^ 6 div 1000"
    by (rule div_mult_self3) simp
  finally show ?thesis by simp
qed

lemma script_now_ms_total: "\<exists>n. script_now_ms kv_redis ks = (Inr n, ks)"
  by (simp add: script_now_ms_def kv_time_def)

lemma script_now_ms_eval [simp]:
  assumes "kv_now ks < 2 ^ 53"
  shows "script_now_ms kv_redis ks = (Inr (int (kv_now ks)), ks)"
proof -
  let ?a = "ks_clock ks div 10 ^ 6" and ?b = "ks_clock ks mod 10 ^ 6"
  have now: "?a * 1000 + ?b div 1000 = kv_now ks"
    by (simp only: kv_now_def clock_split)
  then have "?a * 1000 < 2 ^ 53" using assms by linarith
  then have "lua_round (int ?a) = int ?a" "lua_mul (int ?a) 1000 = int (?a * 1000)"
    by (auto intro!: lua_round_exact simp: lua_mul_exact)
  moreover have "lua_round (int ?b) = int ?b"
    by (rule lua_round_exact) (simp add: order_trans [OF less_imp_le [OF mod_less_divisor]])
  moreover have "lua_add (int (?a * 1000)) (int ?b div 1000) = int (kv_now ks)"
  proof -
    have "int (?a * 1000) + int ?b div 1000 = int (kv_now ks)"
      using arg_cong [OF now, of int] by (simp add: zdiv_int)
    with assms show ?thesis by (simp add: lua_add_def)
  qed
  ultimately show ?thesis
    by (simp add: script_now_ms_def kv_time_def del: One_nat_def)
qed

context redis_server
begin

lemma now_sim: "simulates view (=) (script_now_ms R) (script_now_ms kv_redis)"
  unfolding script_now_ms_def by (auto intro!: simulation command_sims)

end

end
