(* ===== verification/Redis_Client.thy ===== *)
theory Redis_Client
  imports Coordination Redis_Server
begin

text \<open>
  The client side that every Redis-backed store shares (\<open>infrastructure/redis/mod.rs\<close>): one
  bounded request, and the conversions between durations, Redis integers and Rust integers.

  A request can fail in two ways that the caller cannot tell from the reply: the script ran and
  the reply was lost, or it never ran.  The environment's choice is an argument.
\<close>

datatype delivery =
    Delivered
  | Failed string bool
  | NoReplyInTime bool

definition redis_operation ::
  "string \<Rightarrow> delivery \<Rightarrow> ('s, 'a) script \<Rightarrow> ('s, coordination_error, 'a) action" where
  "redis_operation operation d m s = (case d of
     Delivered \<Rightarrow> (case m s of
         (Inr value, s') \<Rightarrow> (Inr value, s')
       | (Inl error, s') \<Rightarrow> (Inl (Unavailable operation error), s'))
   | Failed error applied \<Rightarrow>
       (Inl (Unavailable operation error), if applied then snd (m s) else s)
   | NoReplyInTime applied \<Rightarrow> (Inl (Timeout operation), if applied then snd (m s) else s))"

text \<open>Opening the connection is a request of its own, with no effect on the server.\<close>

record net =
  connecting :: delivery
  invoking :: delivery

definition redis_invoke ::
  "string \<Rightarrow> net \<Rightarrow> ('s, 'a) script \<Rightarrow> ('s, coordination_error, 'a) action" where
  "redis_invoke operation net m =
     sbind (redis_operation operation (connecting net) (sreturn ())) (\<lambda>_.
     redis_operation operation (invoking net) m)"

definition duration_ms :: "string \<Rightarrow> duration \<Rightarrow> (coordination_error, int) result" where
  "duration_ms operation d =
     (let millis = as_millis d in
      if millis = 0 then Inl (InvalidState operation ''duration must be at least one millisecond'')
      else if millis < 2 ^ 63 then Inr (int millis)
      else Inl (InvalidState operation ''duration exceeds Redis integer range''))"

definition duration_from_nonnegative_ms :: "int \<Rightarrow> duration" where
  "duration_from_nonnegative_ms value = from_millis (nat (max value 0))"

definition as_u64 :: "string \<Rightarrow> string \<Rightarrow> int \<Rightarrow> (coordination_error, u64) result" where
  "as_u64 operation field value =
     (if value < 0 then Inl (InvalidState operation (field @ '' must not be negative''))
      else Inr (of_int value))"

definition try_i64 :: "string \<Rightarrow> string \<Rightarrow> u64 \<Rightarrow> (coordination_error, int) result" where
  "try_i64 operation message value =
     (if unat value < 2 ^ 63 then Inr (int (unat value)) else Inl (InvalidState operation message))"

definition unknown_code :: "string \<Rightarrow> int \<Rightarrow> coordination_error" where
  "unknown_code operation code =
     InvalidState operation (''unknown Redis response code '' @ int_str code)"

lemma duration_ms_range: "duration_ms op d = Inr ms \<Longrightarrow> 0 < ms \<and> ms < 2 ^ 63 \<and> ms = int (as_millis d)"
  by (auto simp: duration_ms_def Let_def split: if_splits)

lemma int_str_nat [simp]:
  "int_str (int n) = nat_str n"
  "int_str (uint w) = nat_str (unat w)"
  by (simp_all add: int_str_def)

lemma redis_operation_Inr:
  "redis_operation op d m s = (Inr x, s') \<longleftrightarrow> d = Delivered \<and> m s = (Inr x, s')"
  by (auto simp: redis_operation_def split: delivery.splits prod.splits sum.splits)

lemma redis_operation_state: "snd (redis_operation op d m s) = s \<or> snd (redis_operation op d m s) = snd (m s)"
  by (auto simp: redis_operation_def split: delivery.splits prod.splits sum.splits)

lemma redis_operation_error:
  "redis_operation op d m s = (Inl e, s') \<Longrightarrow> (\<exists>msg. e = Unavailable op msg) \<or> e = Timeout op"
  by (auto simp: redis_operation_def split: delivery.splits prod.splits sum.splits)

lemma redis_invoke_Inr:
  "redis_invoke op net m s = (Inr x, s') \<longleftrightarrow>
     connecting net = Delivered \<and> invoking net = Delivered \<and> m s = (Inr x, s')"
  by (auto simp: redis_invoke_def sbind_def redis_operation_Inr redis_operation_def
      split: delivery.splits prod.splits sum.splits)

lemma redis_invoke_state: "snd (redis_invoke op net m s) = s \<or> snd (redis_invoke op net m s) = snd (m s)"
  using redis_operation_state [of op "invoking net" m s]
  by (auto simp: redis_invoke_def sbind_def redis_operation_def [of op "connecting net"]
      split: delivery.splits prod.splits sum.splits)

lemma redis_invoke_error:
  "redis_invoke op net m s = (Inl e, s') \<Longrightarrow> (\<exists>msg. e = Unavailable op msg) \<or> e = Timeout op"
  by (auto simp: redis_invoke_def elim!: sbind_cases dest: redis_operation_error)

lemma redis_invoke_delivered:
  "connecting net = Delivered \<Longrightarrow> invoking net = Delivered \<Longrightarrow> m s = (Inr x, s') \<Longrightarrow>
   redis_invoke op net m s = (Inr x, s')"
  by (simp add: redis_invoke_Inr)

lemma simulates_operation [simulation]:
  assumes "simulates view Q m m'"
  shows "simulates view Q (redis_operation op d m) (redis_operation op d m')"
  unfolding simulates_def
proof
  fix s
  have "rel_sum (=) Q (fst (m s)) (fst (m' (view s)))" "view (snd (m s)) = snd (m' (view s))"
    using assms by (auto simp: simulates_def)
  then show "rel_sum (=) Q (fst (redis_operation op d m s)) (fst (redis_operation op d m' (view s)))
             \<and> view (snd (redis_operation op d m s)) = snd (redis_operation op d m' (view s))"
    by (auto simp: redis_operation_def split: delivery.splits prod.splits sum.splits)
qed

lemma simulates_invoke [simulation]:
  "simulates view Q m m' \<Longrightarrow> simulates view Q (redis_invoke op net m) (redis_invoke op net m')"
  unfolding redis_invoke_def by (intro simulation) auto

end
