(* ===== verification/Leader_Election.thy ===== *)
theory Leader_Election
  imports Redis_Client
begin

text \<open>
  Leader election on a Redis lease (\<open>RedisLeaderElector\<close> in \<open>infrastructure/redis/mod.rs\<close>).

  The first part translates the three scripts and the operations around them.  The second part
  is the event system of any number of electors on one lock: acquisitions, renewals and
  relinquishments with any request failure, the passing of time, and changes to other keys.
  Its invariant gives the fencing guarantee: every lease that is ever issued has a larger
  fencing token than all leases issued before it, and only the holder of the stored owner and
  fence can renew or relinquish.
\<close>

section \<open>Operations\<close>

record RedisLeaderElector =
  el_lock_key :: string
  el_fence_key :: string
  el_node_id :: string
  el_lock_ttl :: duration

definition new_leader_elector :: "string \<Rightarrow> string \<Rightarrow> u64 \<Rightarrow> RedisLeaderElector" where
  "new_leader_elector lock node_id lock_ttl_ms =
     \<lparr>el_lock_key = lock, el_fence_key = lock @ '':fence'', el_node_id = node_id,
      el_lock_ttl = from_millis (unat lock_ttl_ms)\<rparr>"

definition acquire_script ::
  "'s redis \<Rightarrow> rkey \<Rightarrow> rkey \<Rightarrow> rarg \<Rightarrow> rarg \<Rightarrow> rarg
     \<Rightarrow> ('s, int \<times> int \<times> int \<times> int \<times> string) script" where
  "acquire_script R key1 key2 argv1 argv2 argv3 =
     sbind (script_now_ms R) (\<lambda>now_ms.
     sbind (exists_key R key1) (\<lambda>present.
     if present = 0 then
       sbind (lua_reply (incr R key2)) (\<lambda>fence.
       sbind (hset R key1 [(''owner'', argv1), (''node_id'', argv2), (''fence'', lua_tostring fence)]) (\<lambda>_.
       sbind (pexpire R key1 argv3) (\<lambda>_.
       sbind (lua_need (lua_tonumber argv3)) (\<lambda>ttl.
       sreturn (1, fence, lua_add now_ms ttl, 0, '''')))))
     else
       sbind (lua_reply (pttl R key1)) (\<lambda>remaining.
       if remaining < 0 then sreturn (3, 0, 0, 0, ''leader record has no expiry'')
       else sreturn (2, 0, 0, remaining, ''''))))"

definition leader_acquire ::
  "'s redis \<Rightarrow> RedisLeaderElector \<Rightarrow> string \<Rightarrow> net \<Rightarrow> ('s, coordination_error, LeadershipOutcome) action"
where
  "leader_acquire R el uuid net =
     (let op = ''leader_acquire''; owner_token = el_node_id el @ '':'' @ uuid in
     sbind (slift (duration_ms op (el_lock_ttl el))) (\<lambda>ttl_ms.
     sbind (redis_invoke op net
              (acquire_script R (el_lock_key el) (el_fence_key el) owner_token (el_node_id el)
                 (int_str ttl_ms))) (\<lambda>(code, fence, expires_at, retry_after, message).
     if code = 1 then
       slift (try_res (as_u64 op ''fencing token'' fence) (\<lambda>fencing.
              try_res (as_u64 op ''lease expiry'' expires_at) (\<lambda>expires.
              Inr (LeaderAcquired
                \<lparr>lock_key = el_lock_key el, lease_node_id = el_node_id el, leader_token = owner_token,
                 fencing_token = fencing, leader_expires_at = expires, leader_ttl = el_lock_ttl el\<rparr>))))
     else if code = 2 then sreturn (Follower (duration_from_nonnegative_ms retry_after))
     else if code = 3 then serror (InvalidState op message)
     else serror (unknown_code op code))))"

text \<open>The check that a caller still owns the record; it opens the renewal and the
  relinquishment.\<close>

definition owner_or_fence_changed ::
  "'s redis \<Rightarrow> string \<Rightarrow> string \<Rightarrow> string \<Rightarrow> ('s, bool) script" where
  "owner_or_fence_changed R key1 argv1 argv2 =
     sbind (hget R key1 ''owner'') (\<lambda>owner.
     if owner \<noteq> Some argv1 then sreturn True
     else sbind (hget R key1 ''fence'') (\<lambda>fence. sreturn (fence \<noteq> Some argv2)))"

definition leader_renew_script ::
  "'s redis \<Rightarrow> rkey \<Rightarrow> rarg \<Rightarrow> rarg \<Rightarrow> rarg \<Rightarrow> ('s, int \<times> int \<times> string) script" where
  "leader_renew_script R key1 argv1 argv2 argv3 =
     sbind (exists_key R key1) (\<lambda>present.
     if present = 0 then sreturn (2, 0, ''leader record is absent'')
     else sbind (owner_or_fence_changed R key1 argv1 argv2) (\<lambda>changed.
     if changed then sreturn (2, 0, ''leader owner or fence changed'')
     else
       sbind (script_now_ms R) (\<lambda>now_ms.
       sbind (pexpire R key1 argv3) (\<lambda>_.
       sbind (lua_need (lua_tonumber argv3)) (\<lambda>ttl.
       sreturn (1, lua_add now_ms ttl, ''''))))))"

definition leader_renew ::
  "'s redis \<Rightarrow> RedisLeaderElector \<Rightarrow> LeaderLease \<Rightarrow> net
     \<Rightarrow> ('s, coordination_error, LeadershipOutcome) action" where
  "leader_renew R el current net =
     (let op = ''leader_renew'' in
     if lock_key current \<noteq> el_lock_key el \<or> lease_node_id current \<noteq> el_node_id el
     then serror (InvalidState op ''lease belongs to a different elector'')
     else
     sbind (slift (duration_ms op (el_lock_ttl el))) (\<lambda>ttl_ms.
     sbind (slift (try_i64 op ''fencing token exceeds Redis integer range'' (fencing_token current)))
       (\<lambda>fence.
     sbind (redis_invoke op net
              (leader_renew_script R (el_lock_key el) (leader_token current) (int_str fence)
                 (int_str ttl_ms))) (\<lambda>(code, expires_at, message).
     if code = 1 then
       slift (try_res (as_u64 op ''lease expiry'' expires_at) (\<lambda>expires.
              Inr (LeaderRenewed (current\<lparr>leader_expires_at := expires, leader_ttl := el_lock_ttl el\<rparr>))))
     else if code = 2 then serror (StaleOwner op)
     else serror (InvalidState op
            (''unknown Redis response code '' @ int_str code @ '': '' @ message))))))"

definition acquire_or_renew ::
  "'s redis \<Rightarrow> RedisLeaderElector \<Rightarrow> LeaderLease option \<Rightarrow> string \<Rightarrow> net
     \<Rightarrow> ('s, coordination_error, LeadershipOutcome) action" where
  "acquire_or_renew R el current uuid net = (case current of
     Some lease \<Rightarrow> leader_renew R el lease net
   | None \<Rightarrow> leader_acquire R el uuid net)"

definition relinquish_script :: "'s redis \<Rightarrow> rkey \<Rightarrow> rarg \<Rightarrow> rarg \<Rightarrow> ('s, int) script" where
  "relinquish_script R key1 argv1 argv2 =
     sbind (exists_key R key1) (\<lambda>present.
     if present = 0 then sreturn 0
     else sbind (owner_or_fence_changed R key1 argv1 argv2) (\<lambda>changed.
     if changed then sreturn 2
     else sbind (del R key1) (\<lambda>_. sreturn 1)))"

definition leader_relinquish ::
  "'s redis \<Rightarrow> RedisLeaderElector \<Rightarrow> LeaderLease \<Rightarrow> net \<Rightarrow> ('s, coordination_error, unit) action" where
  "leader_relinquish R el lease net =
     (let op = ''leader_relinquish'' in
     if lock_key lease \<noteq> el_lock_key el \<or> lease_node_id lease \<noteq> el_node_id el
     then serror (InvalidState op ''lease belongs to a different elector'')
     else
     sbind (slift (try_i64 op ''fencing token exceeds Redis integer range'' (fencing_token lease)))
       (\<lambda>fence.
     sbind (redis_invoke op net
              (relinquish_script R (el_lock_key el) (leader_token lease) (int_str fence))) (\<lambda>code.
     if code = 0 \<or> code = 1 then sreturn ()
     else if code = 2 then serror (StaleOwner op)
     else serror (unknown_code op code))))"

section \<open>Simulation\<close>

context redis_server
begin

lemma acquire_sim:
  "simulates view (=) (leader_acquire R el uuid net) (leader_acquire kv_redis el uuid net)"
  unfolding leader_acquire_def acquire_script_def Let_def
  by (auto intro!: simulation command_sims now_sim)

lemma renew_sim:
  "simulates view (=) (leader_renew R el l net) (leader_renew kv_redis el l net)"
  unfolding leader_renew_def leader_renew_script_def owner_or_fence_changed_def Let_def
  by (auto intro!: simulation command_sims now_sim)

lemma relinquish_sim:
  "simulates view (=) (leader_relinquish R el l net) (leader_relinquish kv_redis el l net)"
  unfolding leader_relinquish_def relinquish_script_def owner_or_fence_changed_def Let_def
  by (auto intro!: simulation command_sims)

end

section \<open>The stored leader state\<close>

text \<open>\<open>leader_state ks lock fence c\<close>: the fence counter has issued the tokens up to \<open>c\<close> and never
  expires, and the lock is free or holds a record with one of those tokens.\<close>

definition leader_state :: "keyspace \<Rightarrow> string \<Rightarrow> string \<Rightarrow> nat \<Rightarrow> bool" where
  "leader_state ks lock fence c \<longleftrightarrow>
     lock \<noteq> fence \<and> c < 10 ^ 14 \<and>
     (kv_entry ks fence = Some (RString (nat_str c), None) \<or> kv_entry ks fence = None \<and> c = 0) \<and>
     (kv_live ks lock = None \<or>
      (\<exists>h f. kv_live ks lock = Some (RHash h) \<and> fmlookup h ''fence'' = Some (nat_str f) \<and>
             0 < f \<and> f \<le> c))"

text \<open>A lease is current when the stored record carries its owner and its fence.\<close>

definition lease_current :: "keyspace \<Rightarrow> LeaderLease \<Rightarrow> bool" where
  "lease_current ks l \<longleftrightarrow>
     (\<exists>h. kv_live ks (lock_key l) = Some (RHash h) \<and>
          fmlookup h ''owner'' = Some (leader_token l) \<and>
          fmlookup h ''fence'' = Some (nat_str (unat (fencing_token l))))"

lemma kv_pexpire_positive:
  "0 < ttl \<Longrightarrow> ttl < 2 ^ 63 \<Longrightarrow> kv_live ks k = Some v \<Longrightarrow>
   kv_pexpire k (int_str ttl) ks =
     (if ttl + int (kv_now ks) \<ge> 2 ^ 63 then (Inl ''ERR invalid expire time'', ks)
      else (Inr 1, kv_set_expiry k (Some (kv_now ks + nat ttl)) ks))"
  by (simp add: kv_pexpire_def)

lemma kv_incr_counter:
  assumes "leader_state ks lock fence c"
  shows "kv_incr fence ks = (Inr (int (Suc c)), kv_write fence (RString (nat_str (Suc c))) ks)"
proof (cases "kv_entry ks fence")
  case None
  with assms have "c = 0" by (auto simp: leader_state_def)
  with None show ?thesis
    by (simp add: kv_incr_def kv_live_def nat_str.simps)
next
  case (Some p)
  with assms have "kv_live ks fence = Some (RString (nat_str c))" "c < 10 ^ 14"
    by (auto simp: leader_state_def kv_live_def)
  then show ?thesis
    by (simp add: kv_incr_def int_str_def nat_add_distrib)
qed

definition leader_record :: "string \<Rightarrow> string \<Rightarrow> nat \<Rightarrow> (string, string) fmap" where
  "leader_record owner node f =
     fmupds [(''owner'', owner), (''node_id'', node), (''fence'', nat_str f)] fmempty"

lemma acquire_script_cases [consumes 4, case_names busy taken no_expiry]:
  assumes st: "leader_state ks lock fence c" and c: "Suc c < 10 ^ 14" and ttl: "0 < ttl" "ttl < 2 ^ 63"
  obtains
    (busy) code retry msg where "code \<noteq> 1"
      "acquire_script kv_redis lock fence owner node (int_str ttl) ks = (Inr (code, 0, 0, retry, msg), ks)"
      "kv_live ks lock \<noteq> None"
  | (taken) expires ks' where "kv_live ks lock = None"
      "ks' = kv_put_hash lock (leader_record owner node (Suc c))
               (kv_write fence (RString (nat_str (Suc c))) ks)"
      "ttl + int (kv_now ks) < 2 ^ 63"
      "acquire_script kv_redis lock fence owner node (int_str ttl) ks =
         (Inr (1, int (Suc c), expires, 0, ''''), kv_set_expiry lock (Some (kv_now ks + nat ttl)) ks')"
  | (no_expiry) e ks' where "kv_live ks lock = None"
      "ks' = kv_put_hash lock (leader_record owner node (Suc c))
               (kv_write fence (RString (nat_str (Suc c))) ks)"
      "acquire_script kv_redis lock fence owner node (int_str ttl) ks = (Inl e, ks')"
proof -
  obtain n where now: "script_now_ms kv_redis ks = (Inr n, ks)"
    using script_now_ms_total by blast
  have neq: "lock \<noteq> fence" using st by (simp add: leader_state_def)
  have tostr: "lua_tostring (int (Suc c)) = nat_str (Suc c)"
    using c by (intro lua_tostring_nat) simp
  have round: "lua_round (int (Suc c)) = int (Suc c)"
    using c by (intro lua_round_exact) simp
  show thesis
  proof (cases "kv_live ks lock")
    case None
    let ?ks1 = "kv_write fence (RString (nat_str (Suc c))) ks"
    let ?ks' = "kv_put_hash lock (leader_record owner node (Suc c)) ?ks1"
    have "kv_live ?ks1 lock = None" using None neq by simp
    then have put: "kv_hset lock [(''owner'', owner), (''node_id'', node), (''fence'', nat_str (Suc c))] ?ks1
                    = (Inr 3, ?ks')"
      by (simp add: leader_record_def)
    have live: "kv_live ?ks' lock = Some (RHash (leader_record owner node (Suc c)))"
      by (simp add: leader_record_def)
    note eval = acquire_script_def now None kv_incr_counter [OF st] round tostr put
      kv_pexpire_positive [OF ttl live]
    show thesis
    proof (cases "ttl + int (kv_now ks) < 2 ^ 63")
      case True
      then show thesis
        by (intro taken [OF None refl True]) (simp add: eval del: of_nat_Suc)
    next
      case False
      then show thesis
        by (intro no_expiry [OF None refl]) (simp add: eval del: of_nat_Suc)
    qed
  next
    case (Some v)
    obtain r where "kv_pttl lock ks = (Inr r, ks)" by (simp add: kv_pttl_def)
    then show thesis
      using Some by (cases "lua_round r < 0") (auto intro!: busy simp: acquire_script_def now)
  qed
qed

lemma leader_state_taken:
  assumes "leader_state ks lock fence c" "Suc c < 10 ^ 14"
    and "ks' = kv_put_hash lock (leader_record owner node (Suc c))
                 (kv_write fence (RString (nat_str (Suc c))) ks)"
  shows "leader_state ks' lock fence (Suc c)"
    and "\<not> expired (kv_now ks) e \<Longrightarrow> leader_state (kv_set_expiry lock e ks') lock fence (Suc c)"
proof -
  have "kv_expiry ks fence = None"
    using assms(1) by (auto simp: leader_state_def kv_expiry_def)
  then show "leader_state ks' lock fence (Suc c)"
    and "\<not> expired (kv_now ks) e \<Longrightarrow> leader_state (kv_set_expiry lock e ks') lock fence (Suc c)"
    using assms by (auto simp: leader_state_def leader_record_def kv_put_hash_def)
qed

section \<open>Renewal and relinquishment\<close>

lemma owner_check_eval [simp]:
  "kv_hash ks k = Some h \<Longrightarrow> owner_or_fence_changed kv_redis k o1 f1 ks =
     (Inr (\<not> (fmlookup h ''owner'' = Some o1 \<and> fmlookup h ''fence'' = Some f1)), ks)"
  by (simp add: owner_or_fence_changed_def)

lemma leader_state_hash: "leader_state ks lock fence c \<Longrightarrow> \<exists>h. kv_hash ks lock = Some h"
  by (auto simp: leader_state_def)

lemma leader_state_live:
  "leader_state ks lock fence c \<Longrightarrow> kv_live ks lock = None \<or> (\<exists>h. kv_live ks lock = Some (RHash h))"
  by (auto simp: leader_state_def)

lemma leader_state_set_expiry:
  "leader_state ks lock fence c \<Longrightarrow> \<not> expired (kv_now ks) e \<Longrightarrow>
   leader_state (kv_set_expiry lock e ks) lock fence c"
  by (auto simp: leader_state_def)

lemma leader_state_delete: "leader_state ks lock fence c \<Longrightarrow> leader_state (kv_delete lock ks) lock fence c"
  by (auto simp: leader_state_def)

lemma renew_script_state:
  assumes st: "leader_state ks lock fence c" and ttl: "0 < ttl" "ttl < 2 ^ 63"
  shows "leader_state (snd (leader_renew_script kv_redis lock o1 f1 (int_str ttl) ks)) lock fence c"
proof -
  obtain n where now: "script_now_ms kv_redis ks = (Inr n, ks)"
    using script_now_ms_total by blast
  from leader_state_live [OF st] show ?thesis
  proof
    assume "kv_live ks lock = None"
    with st show ?thesis by (simp add: leader_renew_script_def)
  next
    assume "\<exists>h. kv_live ks lock = Some (RHash h)"
    then obtain h where "kv_live ks lock = Some (RHash h)" ..
    then show ?thesis
      using st by (auto simp: leader_renew_script_def now kv_pexpire_positive [OF ttl] sbind_def [of "kv_pexpire _ _"]
          intro!: leader_state_set_expiry)
  qed
qed

lemma relinquish_script_state:
  assumes "leader_state ks lock fence c"
  shows "leader_state (snd (relinquish_script kv_redis lock o1 f1 ks)) lock fence c"
  using leader_state_live [OF assms]
  by (auto simp: relinquish_script_def assms intro!: leader_state_delete)

lemma sbind_state:
  "snd (sbind m k s) = snd (m s) \<or> (\<exists>x. fst (m s) = Inr x \<and> snd (sbind m k s) = snd (k x (snd (m s))))"
  by (auto simp: sbind_def split: prod.splits sum.splits)

lemma leader_renew_state:
  assumes "leader_state ks (el_lock_key el) fence c"
  shows "leader_state (snd (leader_renew kv_redis el l net ks)) (el_lock_key el) fence c"
proof -
  let ?op = "''leader_renew''"
  show ?thesis
  proof (cases "duration_ms ?op (el_lock_ttl el)")
    case (Inl e)
    then show ?thesis using assms by (auto simp: leader_renew_def Let_def sbind_def)
  next
    case (Inr ttl)
    then have ttl: "0 < ttl" "ttl < 2 ^ 63" by (auto dest: duration_ms_range)
    have "leader_state (snd (redis_invoke ?op net
            (leader_renew_script kv_redis (el_lock_key el) o1 f1 (int_str ttl)) ks)) (el_lock_key el) fence c"
      for o1 f1
      using redis_invoke_state [of ?op net "leader_renew_script kv_redis (el_lock_key el) o1 f1 (int_str ttl)" ks]
        renew_script_state [OF assms ttl] assms by metis
    then show ?thesis
      using assms Inr
      by (auto simp: leader_renew_def Let_def try_i64_def sbind_def [of "redis_invoke _ _ _"]
          split: prod.splits sum.splits if_splits) (metis snd_conv)+
  qed
qed

lemma leader_relinquish_state:
  assumes "leader_state ks (el_lock_key el) fence c"
  shows "leader_state (snd (leader_relinquish kv_redis el l net ks)) (el_lock_key el) fence c"
proof -
  let ?op = "''leader_relinquish''"
  have "leader_state (snd (redis_invoke ?op net (relinquish_script kv_redis (el_lock_key el) o1 f1) ks))
          (el_lock_key el) fence c" for o1 f1
    using redis_invoke_state [of ?op net "relinquish_script kv_redis (el_lock_key el) o1 f1" ks]
      relinquish_script_state [OF assms] assms by metis
  then show ?thesis
    using assms
    by (auto simp: leader_relinquish_def Let_def try_i64_def sbind_def [of "redis_invoke _ _ _"]
        split: prod.splits sum.splits if_splits) (metis snd_conv)+
qed

section \<open>Acquisition\<close>

lemma unat_of_small: "n < 10 ^ 14 \<Longrightarrow> unat (of_nat n :: u64) = n"
  by (simp add: unat_of_nat)

lemma as_u64_nat [simp]: "as_u64 op field (int n) = Inr (of_nat n)"
  by (simp add: as_u64_def)

lemma acquired_current:
  assumes "leader_state ks lock fence c" "Suc c < 10 ^ 14"
    and "lock_key l = lock" "leader_token l = owner" "fencing_token l = of_nat (Suc c)"
    and "ks' = kv_put_hash lock (leader_record owner node (Suc c))
                 (kv_write fence (RString (nat_str (Suc c))) ks)"
    and "\<not> expired (kv_now ks) e"
  shows "lease_current (kv_set_expiry lock e ks') l"
  using assms by (auto simp: lease_current_def leader_record_def unat_of_small simp del: of_nat_Suc)

lemma leader_acquire_effect:
  assumes st: "leader_state ks (el_lock_key el) (el_fence_key el) c" and c: "Suc c < 10 ^ 14"
    and run: "leader_acquire kv_redis el uuid net ks = (r, ks')"
  shows "\<exists>c'. leader_state ks' (el_lock_key el) (el_fence_key el) c' \<and> c \<le> c' \<and>
              (\<forall>l. r = Inr (LeaderAcquired l) \<longrightarrow>
                 c' = Suc c \<and> fencing_token l = of_nat (Suc c) \<and> lease_current ks' l \<and>
                 kv_live ks (el_lock_key el) = None)"
proof (cases "duration_ms ''leader_acquire'' (el_lock_ttl el)")
  case (Inl e)
  then show ?thesis using st run by (auto simp: leader_acquire_def Let_def)
next
  case (Inr ttl)
  let ?lock = "el_lock_key el" and ?fence = "el_fence_key el"
  let ?owner = "el_node_id el @ '':'' @ uuid"
  let ?m = "acquire_script kv_redis ?lock ?fence ?owner (el_node_id el) (int_str ttl)"
  let ?i = "redis_invoke ''leader_acquire'' net ?m"
  from Inr have ttl: "0 < ttl" "ttl < 2 ^ 63" by (auto dest: duration_ms_range)
  have any: "\<exists>c'. leader_state (snd (?m ks)) ?lock ?fence c' \<and> c \<le> c'"
    using st c ttl
  proof (cases rule: acquire_script_cases [where owner = ?owner and node = "el_node_id el"])
    case (busy code retry msg)
    with st show ?thesis by auto
  next
    case (taken expires ks1)
    with leader_state_taken(2) [OF st c taken(2), of "Some (kv_now ks + nat ttl)"] show ?thesis
      by (intro exI [of _ "Suc c"]) simp
  next
    case (no_expiry e ks1)
    with leader_state_taken(1) [OF st c no_expiry(2)] show ?thesis
      by (intro exI [of _ "Suc c"]) simp
  qed
  obtain x ks1 where inv: "?i ks = (x, ks1)" by fastforce
  then have ks1: "\<exists>c'. leader_state ks1 ?lock ?fence c' \<and> c \<le> c'"
    using redis_invoke_state [of "''leader_acquire''" net ?m ks] any st by (metis order_refl snd_conv)
  show ?thesis
  proof (cases "\<exists>l. r = Inr (LeaderAcquired l)")
    case False
    moreover have "ks' = ks1"
      using run Inr inv by (auto simp: leader_acquire_def Let_def sbind_def split: sum.splits if_splits)
    ultimately show ?thesis using ks1 by auto
  next
    case True
    then obtain l where l: "r = Inr (LeaderAcquired l)" ..
    with run Inr inv obtain fence expires retry msg where
      x: "x = Inr (1, fence, expires, retry, msg)" and [simp]: "ks' = ks1"
      by (auto simp: leader_acquire_def Let_def sbind_def split: sum.splits if_splits)
    with inv have m: "?m ks = (Inr (1, fence, expires, retry, msg), ks1)"
      by (simp add: redis_invoke_Inr)
    show ?thesis
      using st c ttl
    proof (cases rule: acquire_script_cases [where owner = ?owner and node = "el_node_id el"])
      case (busy code retry msg)
      with m show ?thesis by simp
    next
      case (taken expires' ks2)
      with m have eqs: "fence = int (Suc c)" "ks1 = kv_set_expiry ?lock (Some (kv_now ks + nat ttl)) ks2"
        by auto
      have "fencing_token l = of_nat (Suc c)" "lock_key l = ?lock" "leader_token l = ?owner"
        using run Inr inv x l eqs
        by (auto simp: leader_acquire_def Let_def try_res_Inr_iff simp del: of_nat_Suc)
      with taken eqs l show ?thesis
        by (intro exI [of _ "Suc c"]) (auto intro!: leader_state_taken(2) [OF st c]
            acquired_current [OF st c])
    next
      case (no_expiry e ks2)
      with m show ?thesis by simp
    qed
  qed
qed

section \<open>The event system\<close>

record 's leader_system =
  server :: 's
  issued :: "LeaderLease list"

text \<open>The fence counter still has at most fourteen digits, so that the scripts render it
  exactly.\<close>

definition fence_budget :: "keyspace \<Rightarrow> string \<Rightarrow> bool" where
  "fence_budget ks fence \<longleftrightarrow> (\<forall>c. kv_live ks fence = Some (RString (nat_str c)) \<longrightarrow> Suc c < 10 ^ 14)"

inductive leader_step ::
  "'s redis \<Rightarrow> ('s \<Rightarrow> keyspace) \<Rightarrow> string \<Rightarrow> 's leader_system \<Rightarrow> 's leader_system \<Rightarrow> bool"
  for R :: "'s redis" and view :: "'s \<Rightarrow> keyspace" and lock :: string where
  step_acquire:
    "leader_step R view lock \<sigma> \<lparr>server = s', issued = (case r of
        Inr (LeaderAcquired l) \<Rightarrow> l # issued \<sigma> | _ \<Rightarrow> issued \<sigma>)\<rparr>"
    if "el_lock_key el = lock" "el_fence_key el = lock @ '':fence''"
      "fence_budget (view (server \<sigma>)) (lock @ '':fence'')"
      "leader_acquire R el uuid net (server \<sigma>) = (r, s')"
| step_renew: "leader_step R view lock \<sigma> (\<sigma>\<lparr>server := s'\<rparr>)"
    if "el_lock_key el = lock" "leader_renew R el l net (server \<sigma>) = (r, s')"
| step_relinquish: "leader_step R view lock \<sigma> (\<sigma>\<lparr>server := s'\<rparr>)"
    if "el_lock_key el = lock" "leader_relinquish R el l net (server \<sigma>) = (r, s')"
| step_time: "leader_step R view lock \<sigma> (\<sigma>\<lparr>server := s'\<rparr>)"
    if "view s' = kv_tick us (view (server \<sigma>))"
| step_other: "leader_step R view lock \<sigma> (\<sigma>\<lparr>server := s'\<rparr>)"
    if "kv_entry (view s') lock = kv_entry (view (server \<sigma>)) lock"
      "kv_entry (view s') (lock @ '':fence'') = kv_entry (view (server \<sigma>)) (lock @ '':fence'')"

definition leader_init :: "('s \<Rightarrow> keyspace) \<Rightarrow> string \<Rightarrow> 's leader_system \<Rightarrow> bool" where
  "leader_init view lock \<sigma> \<longleftrightarrow>
     kv_entry (view (server \<sigma>)) lock = None \<and>
     kv_entry (view (server \<sigma>)) (lock @ '':fence'') = None \<and> issued \<sigma> = []"

inductive leader_reachable ::
  "'s redis \<Rightarrow> ('s \<Rightarrow> keyspace) \<Rightarrow> string \<Rightarrow> 's leader_system \<Rightarrow> bool"
  for R :: "'s redis" and view :: "'s \<Rightarrow> keyspace" and lock :: string where
  reach_init: "leader_init view lock \<sigma> \<Longrightarrow> leader_reachable R view lock \<sigma>"
| reach_step: "leader_reachable R view lock \<sigma> \<Longrightarrow> leader_step R view lock \<sigma> \<sigma>' \<Longrightarrow>
    leader_reachable R view lock \<sigma>'"

definition leader_inv :: "('s \<Rightarrow> keyspace) \<Rightarrow> string \<Rightarrow> 's leader_system \<Rightarrow> bool" where
  "leader_inv view lock \<sigma> \<longleftrightarrow>
     (\<exists>c. leader_state (view (server \<sigma>)) lock (lock @ '':fence'') c \<and>
          (\<forall>l \<in> set (issued \<sigma>). unat (fencing_token l) \<le> c) \<and>
          sorted_wrt (\<lambda>newer older. unat (fencing_token older) < unat (fencing_token newer)) (issued \<sigma>))"

lemma kv_entry_tick:
  "kv_entry (kv_tick us ks) k =
     Option.bind (kv_entry ks k) (\<lambda>(v, e). if expired (kv_now (kv_tick us ks)) e then None else Some (v, e))"
proof -
  have "kv_now ks \<le> kv_now (kv_tick us ks)"
    by (simp add: kv_now_def kv_tick_def div_le_mono)
  moreover have "ks_data (kv_tick us ks) = ks_data ks"
    by (simp add: kv_tick_def)
  ultimately show ?thesis
    by (auto simp: kv_entry_def expired_def split: option.splits)
qed

lemma leader_state_tick: "leader_state ks lock fence c \<Longrightarrow> leader_state (kv_tick us ks) lock fence c"
  by (auto simp: leader_state_def kv_entry_tick kv_live_def split: if_splits)

lemma fence_key_distinct: "lock \<noteq> lock @ '':fence''"
  by simp

lemma fence_budgetD:
  "fence_budget ks fence \<Longrightarrow> leader_state ks lock fence c \<Longrightarrow> Suc c < 10 ^ 14"
  by (auto simp: fence_budget_def leader_state_def kv_live_def)

lemma leader_inv_init: "leader_init view lock \<sigma> \<Longrightarrow> leader_inv view lock \<sigma>"
  by (auto simp: leader_init_def leader_inv_def leader_state_def kv_live_def intro!: exI [of _ 0])

context redis_server
begin

lemma leader_inv_step:
  assumes "leader_step R view lock \<sigma> \<sigma>'" "leader_inv view lock \<sigma>"
  shows "leader_inv view lock \<sigma>'"
proof -
  let ?fence = "lock @ '':fence''"
  from assms(2) obtain c where
    st: "leader_state (view (server \<sigma>)) lock ?fence c"
    and le: "\<forall>l \<in> set (issued \<sigma>). unat (fencing_token l) \<le> c"
    and sorted: "sorted_wrt (\<lambda>newer older. unat (fencing_token older) < unat (fencing_token newer)) (issued \<sigma>)"
    by (auto simp: leader_inv_def)
  from assms(1) show ?thesis
  proof cases
    case (step_acquire el uuid net r s')
    then have c: "Suc c < 10 ^ 14"
      using st by (auto dest: fence_budgetD)
    have "leader_acquire kv_redis el uuid net (view (server \<sigma>)) = (r, view s')"
      using step_acquire simulates_run [OF acquire_sim, of el uuid net "server \<sigma>"]
      by (metis fst_conv prod.collapse snd_conv)
    from leader_acquire_effect [OF _ c this] st step_acquire obtain c' where
      "leader_state (view s') lock ?fence c'" "c \<le> c'"
      and acq: "\<And>l. r = Inr (LeaderAcquired l) \<Longrightarrow> c' = Suc c \<and> fencing_token l = of_nat (Suc c)"
      by auto
    moreover have "unat (fencing_token l) = Suc c" if "r = Inr (LeaderAcquired l)" for l
      using acq [OF that] c by (simp add: unat_of_small del: of_nat_Suc)
    ultimately show ?thesis
      unfolding leader_inv_def step_acquire(1) using le sorted acq
      by (intro exI [of _ c']) (auto simp: less_Suc_eq_le dest: le_trans
          split: sum.splits LeadershipOutcome.splits)
  next
    case (step_renew el l net r s')
    then have "view s' = snd (leader_renew kv_redis el l net (view (server \<sigma>)))"
      using simulates_run [OF renew_sim, of el l net "server \<sigma>"] by simp
    then have "leader_state (view s') lock ?fence c"
      using leader_renew_state [of "view (server \<sigma>)" el ?fence c l net] st step_renew by simp
    with le sorted step_renew(1) show ?thesis by (auto simp: leader_inv_def)
  next
    case (step_relinquish el l net r s')
    then have "view s' = snd (leader_relinquish kv_redis el l net (view (server \<sigma>)))"
      using simulates_run [OF relinquish_sim, of el l net "server \<sigma>"] by simp
    then have "leader_state (view s') lock ?fence c"
      using leader_relinquish_state [of "view (server \<sigma>)" el ?fence c l net] st step_relinquish by simp
    with le sorted step_relinquish(1) show ?thesis by (auto simp: leader_inv_def)
  next
    case (step_time s' us)
    with leader_state_tick [OF st] le sorted show ?thesis by (auto simp: leader_inv_def)
  next
    case (step_other s')
    then have "leader_state (view s') lock ?fence c"
      using st by (simp add: leader_state_def kv_live_def)
    with le sorted step_other(1) show ?thesis by (auto simp: leader_inv_def)
  qed
qed

lemma leader_inv_reachable: "leader_reachable R view lock \<sigma> \<Longrightarrow> leader_inv view lock \<sigma>"
  by (induction rule: leader_reachable.induct) (auto intro: leader_inv_init leader_inv_step)

end

lemma current_same_fence:
  "lease_current ks l1 \<Longrightarrow> lease_current ks l2 \<Longrightarrow> lock_key l1 = lock_key l2 \<Longrightarrow>
   fencing_token l1 = fencing_token l2 \<and> leader_token l1 = leader_token l2"
  by (auto simp: lease_current_def word_unat_eq_iff)

section \<open>Properties\<close>

text \<open>C9: Fencing tokens strictly increase: however electors acquire, renew, relinquish, crash, lose
  replies or let leases expire, every issued leader lease has a fencing token strictly larger
  than the tokens of all leases issued before it.\<close>

theorem fencing_tokens_increase:
  assumes "redis_server R view" "leader_reachable R view lock \<sigma>"
  shows "sorted_wrt (\<lambda>newer older. unat (fencing_token older) < unat (fencing_token newer)) (issued \<sigma>)"
  using redis_server.leader_inv_reachable [OF assms] by (auto simp: leader_inv_def)

lemma leader_renew_script_eval:
  assumes "lock_key l = lock" "0 < ttl" "kv_now ks + ttl < 2 ^ 53" "kv_hash ks lock \<noteq> None"
  shows "leader_renew_script kv_redis lock (leader_token l) (nat_str (unat (fencing_token l))) (nat_str ttl) ks =
     (if lease_current ks l
      then (Inr (1, int (kv_now ks + ttl), ''''), kv_set_expiry lock (Some (kv_now ks + ttl)) ks)
      else (Inr (2, 0, if kv_live ks lock = None then ''leader record is absent''
                       else ''leader owner or fence changed''), ks))"
proof (cases "kv_live ks lock")
  case None
  then show ?thesis using assms(1) by (simp add: leader_renew_script_def lease_current_def)
next
  case (Some v)
  with assms(4) obtain h where h: "kv_live ks lock = Some (RHash h)"
    by (cases v) (auto simp: kv_hash_def)
  have "lua_add (int (kv_now ks)) (int ttl) = int (kv_now ks + ttl)"
    using assms(3) by (simp add: lua_add_def)
  with h assms(1-3) show ?thesis
    by (auto simp: leader_renew_script_def lease_current_def)
qed

text \<open>Renewal is exact: a delivered renewal of the current lease extends the record's expiry to
  the server time plus the lock ttl and returns the same lease with that expiry; a renewal of
  any other lease is rejected as stale and leaves the server as it was.\<close>

theorem leader_renew_exact:
  assumes "redis_server R view"
    and "lock_key l = el_lock_key el" "lease_node_id l = el_node_id el"
    and "connecting net = Delivered" "invoking net = Delivered"
    and "0 < as_millis (el_lock_ttl el)" "kv_now (view s) + as_millis (el_lock_ttl el) < 2 ^ 53"
    and "unat (fencing_token l) < 2 ^ 63" "kv_hash (view s) (el_lock_key el) \<noteq> None"
  shows "let until = kv_now (view s) + as_millis (el_lock_ttl el);
             (r, s') = leader_renew R el l net s
         in if lease_current (view s) l
            then r = Inr (LeaderRenewed (l\<lparr>leader_expires_at := of_nat until, leader_ttl := el_lock_ttl el\<rparr>))
                 \<and> view s' = kv_set_expiry (el_lock_key el) (Some until) (view s)
            else r = Inl (StaleOwner ''leader_renew'') \<and> view s' = view s"
proof -
  let ?ttl = "as_millis (el_lock_ttl el)" and ?lock = "el_lock_key el" and ?ks = "view s"
  have ttl: "duration_ms ''leader_renew'' (el_lock_ttl el) = Inr (int ?ttl)"
    using assms(6,7) by (auto simp: duration_ms_def)
  have fence: "try_i64 ''leader_renew'' m (fencing_token l) = Inr (int (unat (fencing_token l)))" for m
    using assms(8) by (simp add: try_i64_def)
  from leader_renew_script_eval [OF assms(2,6,7,9)] have "leader_renew kv_redis el l net ?ks =
     (if lease_current ?ks l
      then (Inr (LeaderRenewed (l\<lparr>leader_expires_at := of_nat (kv_now ?ks + ?ttl), leader_ttl := el_lock_ttl el\<rparr>)),
            kv_set_expiry ?lock (Some (kv_now ?ks + ?ttl)) ?ks)
      else (Inl (StaleOwner ''leader_renew''), ?ks))"
    using assms(2-5) ttl fence
    by (auto simp: leader_renew_def Let_def redis_invoke_delivered simp del: of_nat_add)
  with simulates_run [OF redis_server.renew_sim [OF assms(1)], of el l net s]
  show ?thesis by (auto simp: Let_def split: prod.splits)
qed

lemma acquire_script_free:
  assumes st: "leader_state ks lock fence c" and c: "Suc c < 10 ^ 14"
    and free: "kv_live ks lock = None" and ttl: "0 < ttl" "kv_now ks + ttl < 2 ^ 53"
  shows "acquire_script kv_redis lock fence owner node (int_str (int ttl)) ks =
       (Inr (1, int (Suc c), int (kv_now ks + ttl), 0, ''''),
        kv_set_expiry lock (Some (kv_now ks + ttl))
          (kv_put_hash lock (leader_record owner node (Suc c))
             (kv_write fence (RString (nat_str (Suc c))) ks)))"
proof -
  have neq: "lock \<noteq> fence" using st by (simp add: leader_state_def)
  have "lua_tostring (int (Suc c)) = nat_str (Suc c)" "lua_round (int (Suc c)) = int (Suc c)"
    using c by (auto intro!: lua_tostring_nat lua_round_exact simp del: of_nat_Suc)
  moreover have "lua_add (int (kv_now ks)) (int ttl) = int (kv_now ks + ttl)"
    using ttl by (simp add: lua_add_def)
  ultimately show ?thesis
    using free neq ttl
    by (simp add: acquire_script_def kv_incr_counter [OF st] leader_record_def del: of_nat_Suc of_nat_add)
qed

lemma leader_acquire_free:
  assumes st: "leader_state ks (el_lock_key el) (el_fence_key el) c" and c: "Suc c < 10 ^ 14"
    and free: "kv_live ks (el_lock_key el) = None"
    and net: "connecting net = Delivered" "invoking net = Delivered"
    and ttl: "0 < as_millis (el_lock_ttl el)" "kv_now ks + as_millis (el_lock_ttl el) < 2 ^ 53"
  shows "leader_acquire kv_redis el uuid net ks =
    (Inr (LeaderAcquired
       \<lparr>lock_key = el_lock_key el, lease_node_id = el_node_id el,
        leader_token = el_node_id el @ '':'' @ uuid, fencing_token = of_nat (Suc c),
        leader_expires_at = of_nat (kv_now ks + as_millis (el_lock_ttl el)),
        leader_ttl = el_lock_ttl el\<rparr>),
     kv_set_expiry (el_lock_key el) (Some (kv_now ks + as_millis (el_lock_ttl el)))
       (kv_put_hash (el_lock_key el)
          (leader_record (el_node_id el @ '':'' @ uuid) (el_node_id el) (Suc c))
          (kv_write (el_fence_key el) (RString (nat_str (Suc c))) ks)))"
proof -
  have "duration_ms ''leader_acquire'' (el_lock_ttl el) = Inr (int (as_millis (el_lock_ttl el)))"
    using ttl by (auto simp: duration_ms_def)
  with net acquire_script_free [OF st c free ttl] show ?thesis
    by (simp add: leader_acquire_def Let_def redis_invoke_delivered del: of_nat_Suc of_nat_add)
qed

section \<open>A concrete election\<close>

text \<open>On an empty server the first node acquires the lock for a second; two seconds later the
  lease has expired and a second node acquires it.\<close>

definition empty_server :: keyspace where
  "empty_server = \<lparr>ks_data = (\<lambda>_. None), ks_clock = 0\<rparr>"

definition reliable :: net where
  "reliable = \<lparr>connecting = Delivered, invoking = Delivered\<rparr>"

lemma empty_server_simps [simp]:
  "kv_entry empty_server k = None" "kv_live empty_server k = None" "kv_expiry empty_server k = None"
  "kv_now empty_server = 0" "ks_clock empty_server = 0"
  by (simp_all add: empty_server_def kv_entry_def kv_live_def kv_expiry_def kv_now_def)

lemma reliable_simps [simp]: "connecting reliable = Delivered" "invoking reliable = Delivered"
  by (simp_all add: reliable_def)

lemma as_millis_second: "as_millis (from_millis (unat (1000 :: u64))) = 1000"
  by simp

lemma two_elections:
  "\<exists>\<sigma>. leader_reachable kv_redis id ''pulse'' \<sigma> \<and> map fencing_token (issued \<sigma>) = [2, 1] \<and>
       lock_key (issued \<sigma> ! 0) = ''pulse'' \<and> lease_current (server \<sigma>) (issued \<sigma> ! 0)"
proof -
  let ?lock = "''pulse''" and ?fence = "''pulse'' @ '':fence''"
  let ?a = "new_leader_elector ?lock ''a'' 1000" and ?b = "new_leader_elector ?lock ''b'' 1000"
  let ?s0 = "\<lparr>server = empty_server, issued = []\<rparr>"
  have keys: "el_lock_key (new_leader_elector ?lock n 1000) = ?lock"
    "el_fence_key (new_leader_elector ?lock n 1000) = ?fence"
    "as_millis (el_lock_ttl (new_leader_elector ?lock n 1000)) = 1000" for n
    by (simp_all add: new_leader_elector_def)
  have st0: "leader_state empty_server ?lock ?fence 0"
    by (simp add: leader_state_def)
  have r0: "leader_reachable kv_redis id ?lock ?s0"
    by (rule reach_init) (simp add: leader_init_def)
  obtain l1 k1 where a1: "leader_acquire kv_redis ?a ''u'' reliable empty_server = (Inr (LeaderAcquired l1), k1)"
    and k1: "k1 = kv_set_expiry ?lock (Some 1000) (kv_put_hash ?lock (leader_record ''a:u'' ''a'' 1)
               (kv_write ?fence (RString (nat_str 1)) empty_server))"
    and l1: "fencing_token l1 = 1"
    using leader_acquire_free [of empty_server ?a 0 reliable "''u''"] st0 keys
    by (simp add: new_leader_elector_def)
  from r0 have "leader_reachable kv_redis id ?lock \<lparr>server = k1, issued = [l1]\<rparr>"
    using leader_step.step_acquire [of ?a ?lock id ?s0 kv_redis "''u''" reliable "Inr (LeaderAcquired l1)" k1] a1 keys
    by (auto intro: reach_step simp: fence_budget_def)
  then have r2: "leader_reachable kv_redis id ?lock \<lparr>server = kv_tick 2000000 k1, issued = [l1]\<rparr>"
    using leader_step.step_time [of id "kv_tick 2000000 k1" 2000000 "\<lparr>server = k1, issued = [l1]\<rparr>" kv_redis ?lock]
    by (auto intro: reach_step)
  let ?k2 = "kv_tick 2000000 k1"
  have now: "kv_now ?k2 = 2000"
    by (simp add: k1 kv_now_def kv_tick_def)
  have free: "kv_live ?k2 ?lock = None"
    using now by (simp add: kv_live_def kv_entry_tick k1 kv_put_hash_def)
  have counter: "kv_entry ?k2 ?fence = Some (RString (nat_str 1), None)"
    by (simp add: kv_entry_tick k1 kv_put_hash_def)
  then have st2: "leader_state ?k2 ?lock ?fence 1"
    using free by (simp add: leader_state_def)
  obtain l2 k3 where b1: "leader_acquire kv_redis ?b ''w'' reliable ?k2 = (Inr (LeaderAcquired l2), k3)"
    and l2: "fencing_token l2 = 2" "lock_key l2 = ?lock"
    using leader_acquire_free [of ?k2 ?b 1 reliable "''w''"] st2 free keys now
    by (simp add: new_leader_elector_def)
  have "leader_reachable kv_redis id ?lock \<lparr>server = k3, issued = [l2, l1]\<rparr>"
    using leader_step.step_acquire [of ?b ?lock id "\<lparr>server = ?k2, issued = [l1]\<rparr>" kv_redis "''w''" reliable
        "Inr (LeaderAcquired l2)" k3] b1 keys counter r2
    by (auto intro!: reach_step [OF r2] simp: fence_budget_def kv_live_def)
  moreover have "lease_current k3 l2"
    using leader_acquire_effect [OF _ _ b1, of 1] st2 keys by auto
  ultimately show ?thesis using l1 l2 by fastforce
qed

theorem fencing_tokens_increase_witness:
  "\<exists>\<sigma>. leader_reachable kv_redis id ''pulse'' \<sigma> \<and> map fencing_token (issued \<sigma>) = [2, 1] \<and>
       sorted_wrt (\<lambda>newer older. unat (fencing_token older) < unat (fencing_token newer)) (issued \<sigma>)"
proof -
  obtain \<sigma> where s: "leader_reachable kv_redis id ''pulse'' \<sigma>" "map fencing_token (issued \<sigma>) = [2, 1]"
    using two_elections by (elim exE conjE) (rule that)
  from s fencing_tokens_increase [OF kv.redis_server_axioms s(1)] show ?thesis
    by (intro exI [of _ \<sigma>] conjI)
qed

theorem leader_renew_exact_witness:
  "\<exists>el l s. let (r, s') = leader_renew kv_redis el l reliable s
            in lease_current s l \<and>
               r = Inr (LeaderRenewed (l\<lparr>leader_expires_at := 1000, leader_ttl := el_lock_ttl el\<rparr>))"
proof -
  let ?el = "new_leader_elector ''pulse'' ''a'' 1000"
  let ?l = "\<lparr>lock_key = ''pulse'', lease_node_id = ''a'', leader_token = ''a:u'', fencing_token = 1,
             leader_expires_at = 0, leader_ttl = 0\<rparr>"
  let ?s = "kv_put_hash ''pulse'' (leader_record ''a:u'' ''a'' 1) empty_server"
  have cur: "lease_current ?s ?l"
    by (simp add: lease_current_def leader_record_def)
  have "\<exists>s'. leader_renew kv_redis ?el ?l reliable ?s =
          (Inr (LeaderRenewed (?l\<lparr>leader_expires_at := 1000, leader_ttl := el_lock_ttl ?el\<rparr>)), s')"
    using leader_renew_exact [OF kv.redis_server_axioms, of ?l ?el reliable ?s] cur
    by (simp add: new_leader_elector_def Let_def split: prod.splits)
  with cur show ?thesis
    by (intro exI [of _ ?el] exI [of _ ?l] exI [of _ ?s]) (auto simp: Let_def)
qed

end
