(* ===== verification/Leader_Tenure.thy ===== *)
theory Leader_Tenure
  imports Leader_Election
begin

text \<open>
  The exclusion of leaders in time.  The event system has any number of nodes that run
  \<open>acquire_or_renew\<close> and \<open>relinquish\<close> of \<open>RedisLeaderElector\<close> on one lock, with any request failure;
  it keeps every lease a node was granted or had renewed until the node relinquishes it.  A node
  counts on such a lease as long as the server time is before the expiry the lease carries.
\<close>

section \<open>The event system of the nodes\<close>

record 's tenure_system =
  ten_server :: 's
  tenures :: "LeaderLease list"

definition granted :: "(coordination_error, LeadershipOutcome) result \<Rightarrow> LeaderLease list" where
  "granted r = (case r of Inr (LeaderAcquired l) \<Rightarrow> [l] | Inr (LeaderRenewed l) \<Rightarrow> [l] | _ \<Rightarrow> [])"

text \<open>All nodes are configured with the same lock and lock ttl, and the server time and the fence
  counter are still in the range in which Lua numbers are exact.\<close>

definition elector_ok :: "string \<Rightarrow> duration \<Rightarrow> RedisLeaderElector \<Rightarrow> keyspace \<Rightarrow> bool" where
  "elector_ok lock ttl el ks \<longleftrightarrow>
     el_lock_key el = lock \<and> el_fence_key el = lock @ '':fence'' \<and> el_lock_ttl el = ttl \<and>
     0 < as_millis ttl \<and> kv_now ks + as_millis ttl < 2 ^ 53 \<and> fence_budget ks (lock @ '':fence'')"

inductive tenure_step ::
  "'s redis \<Rightarrow> ('s \<Rightarrow> keyspace) \<Rightarrow> string \<Rightarrow> duration \<Rightarrow> 's tenure_system \<Rightarrow> 's tenure_system \<Rightarrow> bool"
  for R :: "'s redis" and view :: "'s \<Rightarrow> keyspace" and lock :: string and ttl :: duration where
  node_elects:
    "tenure_step R view lock ttl \<sigma> \<lparr>ten_server = s', tenures = granted r @ tenures \<sigma>\<rparr>"
    if "elector_ok lock ttl el (view (ten_server \<sigma>))"
      "acquire_or_renew R el current uuid net (ten_server \<sigma>) = (r, s')"
| node_relinquishes:
    "tenure_step R view lock ttl \<sigma> \<lparr>ten_server = s', tenures = filter (\<lambda>k.
        \<not> (leader_token k = leader_token l \<and> fencing_token k = fencing_token l)) (tenures \<sigma>)\<rparr>"
    if "elector_ok lock ttl el (view (ten_server \<sigma>))"
      "leader_relinquish R el l net (ten_server \<sigma>) = (r, s')"
| time_passes: "tenure_step R view lock ttl \<sigma> (\<sigma>\<lparr>ten_server := s'\<rparr>)"
    if "view s' = kv_tick us (view (ten_server \<sigma>))"
| foreign_keys: "tenure_step R view lock ttl \<sigma> (\<sigma>\<lparr>ten_server := s'\<rparr>)"
    if "kv_entry (view s') lock = kv_entry (view (ten_server \<sigma>)) lock"
      "kv_entry (view s') (lock @ '':fence'') = kv_entry (view (ten_server \<sigma>)) (lock @ '':fence'')"
      "ks_clock (view s') = ks_clock (view (ten_server \<sigma>))"

inductive tenure_reachable ::
  "'s redis \<Rightarrow> ('s \<Rightarrow> keyspace) \<Rightarrow> string \<Rightarrow> duration \<Rightarrow> 's tenure_system \<Rightarrow> bool"
  for R :: "'s redis" and view :: "'s \<Rightarrow> keyspace" and lock :: string and ttl :: duration where
  tenure_start: "kv_entry (view (ten_server \<sigma>)) lock = None \<Longrightarrow>
    kv_entry (view (ten_server \<sigma>)) (lock @ '':fence'') = None \<Longrightarrow> tenures \<sigma> = [] \<Longrightarrow>
    tenure_reachable R view lock ttl \<sigma>"
| tenure_more: "tenure_reachable R view lock ttl \<sigma> \<Longrightarrow> tenure_step R view lock ttl \<sigma> \<sigma>' \<Longrightarrow>
    tenure_reachable R view lock ttl \<sigma>'"

section \<open>The invariant\<close>

text \<open>A lease that has not expired is the one of the stored record, which does not expire earlier.\<close>

definition tenure_ok :: "keyspace \<Rightarrow> string \<Rightarrow> nat \<Rightarrow> LeaderLease list \<Rightarrow> bool" where
  "tenure_ok ks lock ttl ls \<longleftrightarrow>
     (\<forall>l \<in> set ls. lock_key l = lock \<and> unat (leader_expires_at l) \<le> kv_now ks + ttl \<and>
        (kv_now ks < unat (leader_expires_at l) \<longrightarrow> lease_current ks l \<and>
           (\<exists>e. kv_expiry ks lock = Some e \<and> unat (leader_expires_at l) \<le> e))) \<and>
     (\<forall>e. kv_expiry ks lock = Some e \<longrightarrow> e \<le> kv_now ks + ttl)"

definition tenure_inv :: "('s \<Rightarrow> keyspace) \<Rightarrow> string \<Rightarrow> duration \<Rightarrow> 's tenure_system \<Rightarrow> bool" where
  "tenure_inv view lock ttl \<sigma> \<longleftrightarrow>
     (\<exists>c. leader_state (view (ten_server \<sigma>)) lock (lock @ '':fence'') c) \<and>
     tenure_ok (view (ten_server \<sigma>)) lock (as_millis ttl) (tenures \<sigma>)"

lemma lease_current_live: "lease_current ks l \<Longrightarrow> kv_live ks (lock_key l) \<noteq> None"
  by (auto simp: lease_current_def)

lemma tenure_ok_cong:
  assumes "tenure_ok ks lock ttl ls" "kv_entry ks' lock = kv_entry ks lock" "kv_now ks' = kv_now ks"
  shows "tenure_ok ks' lock ttl ls"
proof -
  have "lease_current ks' l \<longleftrightarrow> lease_current ks l" if "lock_key l = lock" for l
    using assms(2) that by (simp add: lease_current_def kv_live_def)
  moreover have "kv_expiry ks' lock = kv_expiry ks lock"
    using assms(2) by (simp add: kv_expiry_def)
  ultimately show ?thesis using assms(1,3) unfolding tenure_ok_def by auto
qed

lemma tenure_ok_tick:
  assumes "tenure_ok ks lock ttl ls"
  shows "tenure_ok (kv_tick us ks) lock ttl ls"
proof -
  let ?ks' = "kv_tick us ks"
  have now: "kv_now ks \<le> kv_now ?ks'" by (simp add: kv_now_def kv_tick_def div_le_mono)
  have "lease_current ?ks' l \<and> (\<exists>e. kv_expiry ?ks' lock = Some e \<and> unat (leader_expires_at l) \<le> e)"
    if l: "l \<in> set ls" "kv_now ?ks' < unat (leader_expires_at l)" for l
  proof -
    from l now assms obtain e where key: "lock_key l = lock" "lease_current ks l"
      and e: "kv_expiry ks lock = Some e" "unat (leader_expires_at l) \<le> e"
      by (auto simp: tenure_ok_def dest: le_less_trans)
    from e(1) obtain v where entry: "kv_entry ks lock = Some (v, Some e)"
      by (auto simp: kv_expiry_def bind_eq_Some_conv)
    with e(2) l(2) have same: "kv_entry ?ks' lock = kv_entry ks lock"
      by (simp add: kv_entry_tick expired_def)
    with key have "lease_current ?ks' l" by (simp add: lease_current_def kv_live_def)
    with same e show ?thesis by (simp add: kv_expiry_def)
  qed
  moreover have "e \<le> kv_now ?ks' + ttl" if "kv_expiry ?ks' lock = Some e" for e
  proof -
    from that have "kv_expiry ks lock = Some e"
      by (auto simp: kv_expiry_def kv_entry_tick bind_eq_Some_conv split: if_splits)
    with assms now show ?thesis by (auto simp: tenure_ok_def)
  qed
  moreover have "unat (leader_expires_at l) \<le> kv_now ?ks' + ttl" "lock_key l = lock" if "l \<in> set ls" for l
    using assms now that by (auto simp: tenure_ok_def dest!: bspec)
  ultimately show ?thesis unfolding tenure_ok_def by blast
qed

lemma tenure_ok_filter: "tenure_ok ks lock ttl ls \<Longrightarrow> tenure_ok ks lock ttl (filter P ls)"
  by (auto simp: tenure_ok_def)

text \<open>A free lock leaves no unexpired lease, so its next holder cannot meet another one.\<close>

lemma tenure_ok_take:
  assumes "tenure_ok ks lock ttl ls" "kv_live ks lock = None" "kv_now ks' = kv_now ks"
    and "kv_expiry ks' lock = Some (kv_now ks + ttl)"
  shows "tenure_ok ks' lock ttl ls"
    and "lock_key l = lock \<Longrightarrow> lease_current ks' l \<Longrightarrow> unat (leader_expires_at l) = kv_now ks + ttl \<Longrightarrow>
         tenure_ok ks' lock ttl (l # ls)"
proof -
  have "\<not> kv_now ks < unat (leader_expires_at k)" "lock_key k = lock"
    "unat (leader_expires_at k) \<le> kv_now ks + ttl" if "k \<in> set ls" for k
    using assms(1,2) that lease_current_live [of ks k] by (auto simp: tenure_ok_def)
  then show old: "tenure_ok ks' lock ttl ls"
    using assms(3,4) by (auto simp: tenure_ok_def)
  assume "lock_key l = lock" "lease_current ks' l" "unat (leader_expires_at l) = kv_now ks + ttl"
  with old assms(3,4) show "tenure_ok ks' lock ttl (l # ls)" by (simp add: tenure_ok_def)
qed

lemma tenure_ok_extend:
  assumes ok: "tenure_ok ks lock ttl ls" and cur: "lease_current ks l" "lock_key l = lock"
    and ks': "ks' = kv_set_expiry lock (Some (kv_now ks + ttl)) ks"
  shows "tenure_ok ks' lock ttl ls"
    and "unat until = kv_now ks + ttl \<Longrightarrow> tenure_ok ks' lock ttl (l\<lparr>leader_expires_at := until, leader_ttl := d\<rparr> # ls)"
proof -
  from cur have live: "kv_live ks lock \<noteq> None" by (auto dest: lease_current_live)
  have now: "kv_now ks' = kv_now ks" by (simp add: ks')
  have exp: "kv_expiry ks' lock = Some (kv_now ks + ttl)" using live by (auto simp: ks' kv_live_def)
  have "kv_live ks' lock = kv_live ks lock" using live by (auto simp: ks' expired_def)
  then have same: "lease_current ks' k \<longleftrightarrow> lease_current ks k" if "lock_key k = lock" for k
    using that by (simp add: lease_current_def)
  show old: "tenure_ok ks' lock ttl ls"
    using ok same unfolding tenure_ok_def now exp by auto
  assume "unat until = kv_now ks + ttl"
  moreover have "lease_current ks' (l\<lparr>leader_expires_at := until, leader_ttl := d\<rparr>)"
    using same [OF cur(2)] cur by (simp add: lease_current_def)
  ultimately show "tenure_ok ks' lock ttl (l\<lparr>leader_expires_at := until, leader_ttl := d\<rparr> # ls)"
    using old cur(2) unfolding tenure_ok_def now exp by auto
qed

lemma tenure_ok_drop:
  assumes "tenure_ok ks lock ttl ls" "lease_current ks l" "lock_key l = lock"
  shows "tenure_ok (kv_delete lock ks) lock ttl (filter (\<lambda>k.
           \<not> (leader_token k = leader_token l \<and> fencing_token k = fencing_token l)) ls)"
proof -
  have "\<not> kv_now ks < unat (leader_expires_at k)"
    if "k \<in> set ls" "\<not> (leader_token k = leader_token l \<and> fencing_token k = fencing_token l)" for k
    using assms that current_same_fence [of ks k l] by (auto simp: tenure_ok_def)
  then show ?thesis using assms(1) by (auto simp: tenure_ok_def)
qed

section \<open>The operations keep the invariant\<close>

text \<open>A request that reached the script leaves the keyspace of the script, any other one leaves it
  unchanged, and only a delivered one is granted.\<close>

lemma elector_okD:
  assumes "elector_ok lock ttl el ks" "leader_state ks lock (lock @ '':fence'') c"
  shows "el_lock_key el = lock" "el_fence_key el = lock @ '':fence''" "el_lock_ttl el = ttl"
    "0 < as_millis ttl" "kv_now ks + as_millis ttl < 2 ^ 53" "Suc c < 10 ^ 14"
    "duration_ms op ttl = Inr (int (as_millis ttl))"
    "unat (of_nat (kv_now ks + as_millis ttl) :: u64) = kv_now ks + as_millis ttl"
  using assms by (auto simp: elector_ok_def duration_ms_def unat_of_nat simp del: of_nat_add dest: fence_budgetD)

lemma acquire_tenure:
  assumes st: "leader_state ks lock (lock @ '':fence'') c" and ok: "tenure_ok ks lock (as_millis ttl) ls"
    and el: "elector_ok lock ttl el ks"
    and run: "leader_acquire kv_redis el uuid net ks = (r, ks')"
  shows "tenure_ok ks' lock (as_millis ttl) (granted r @ ls)"
proof -
  let ?fence = "lock @ '':fence''" and ?owner = "el_node_id el @ '':'' @ uuid" and ?node = "el_node_id el"
  let ?until = "kv_now ks + as_millis ttl" and ?op = "''leader_acquire''"
  let ?m = "acquire_script kv_redis lock ?fence ?owner ?node (int_str (int (as_millis ttl)))"
  note el = elector_okD [OF el st]
  have acquire: "leader_acquire kv_redis el uuid net ks =
      sbind (redis_invoke ?op net ?m) (\<lambda>(code, fence, expires_at, retry_after, message).
        if code = 1 then
          slift (try_res (as_u64 ?op ''fencing token'' fence) (\<lambda>fencing.
                 try_res (as_u64 ?op ''lease expiry'' expires_at) (\<lambda>expires.
                 Inr (LeaderAcquired
                   \<lparr>lock_key = lock, lease_node_id = ?node, leader_token = ?owner,
                    fencing_token = fencing, leader_expires_at = expires, leader_ttl = ttl\<rparr>))))
        else if code = 2 then sreturn (Follower (duration_from_nonnegative_ms retry_after))
        else if code = 3 then serror (InvalidState ?op message)
        else serror (unknown_code ?op code)) ks"
    unfolding leader_acquire_def Let_def el(1-3,7) by simp
  obtain x ks1 where inv: "redis_invoke ?op net ?m ks = (x, ks1)" by fastforce
  have ks': "ks' = ks1"
    using run unfolding acquire sbind_def inv by (auto split: sum.splits if_splits prod.splits)
  from redis_invoke_state [of ?op net ?m ks] inv have ks1: "ks1 = ks \<or> ks1 = snd (?m ks)" by simp
  show ?thesis
  proof (cases "kv_live ks lock")
    case None
    note m = acquire_script_free [OF st el(6) None el(4,5)]
    note taken = tenure_ok_take [OF ok None, of "snd (?m ks)"]
    have keys: "kv_now (snd (?m ks)) = kv_now ks" "kv_expiry (snd (?m ks)) lock = Some ?until"
      unfolding m by (simp_all add: leader_record_def expired_def)
    show ?thesis
    proof (cases x)
      case (Inl e)
      with run have "granted r = []" unfolding acquire sbind_def inv by (auto simp: granted_def)
      with ks1 ok taken(1) [OF keys] ks' show ?thesis by auto
    next
      case (Inr y)
      with inv have full: "?m ks = (Inr y, ks1)" by (simp add: redis_invoke_Inr)
      let ?l = "\<lparr>lock_key = lock, lease_node_id = ?node, leader_token = ?owner, fencing_token = of_nat (Suc c),
        leader_expires_at = of_nat ?until, leader_ttl = ttl\<rparr>"
      from full have y: "y = (1, int (Suc c), int ?until, 0, '''')"
        unfolding m by (simp del: of_nat_Suc of_nat_add)
      have "granted r = [?l]"
        using run unfolding acquire sbind_def inv Inr y
        by (auto simp: granted_def simp del: of_nat_Suc of_nat_add)
      moreover have "lease_current (snd (?m ks)) ?l"
        using acquired_current [OF st el(6), of ?l ?owner _ ?node "Some ?until"]
        unfolding m by (simp add: expired_def del: of_nat_Suc of_nat_add)
      ultimately show ?thesis
        using taken(2) [OF keys, of ?l] ks' full el(8) by (simp del: of_nat_Suc of_nat_add)
    qed
  next
    case (Some v)
    have ttl: "0 < int (as_millis ttl)" "int (as_millis ttl) < 2 ^ 63" using el(4,5) by auto
    obtain code retry msg where busy: "code \<noteq> 1" "?m ks = (Inr (code, 0, 0, retry, msg), ks)"
      using st el(6) ttl
      by (cases rule: acquire_script_cases [where owner = ?owner and node = ?node]) (use Some that in auto)
    with ks1 ks' have "ks' = ks" by auto
    moreover have "fst y = code" if "x = Inr y" for y using inv that busy(2) by (auto simp: redis_invoke_Inr)
    then have "granted r = []"
      using run busy(1) unfolding acquire sbind_def inv
      by (cases x) (auto simp: granted_def split: if_splits)
    ultimately show ?thesis using ok by simp
  qed
qed

lemma renew_tenure:
  assumes st: "leader_state ks lock (lock @ '':fence'') c" and ok: "tenure_ok ks lock (as_millis ttl) ls"
    and el: "elector_ok lock ttl el ks"
    and run: "leader_renew kv_redis el l net ks = (r, ks')"
  shows "tenure_ok ks' lock (as_millis ttl) (granted r @ ls)"
proof -
  let ?op = "''leader_renew''" and ?until = "kv_now ks + as_millis ttl"
  let ?f = "nat_str (unat (fencing_token l))"
  let ?m = "leader_renew_script kv_redis lock (leader_token l) ?f (nat_str (as_millis ttl))"
  note el = elector_okD [OF el st]
  show ?thesis
  proof (cases "lock_key l \<noteq> lock \<or> lease_node_id l \<noteq> el_node_id el \<or> 2 ^ 63 \<le> unat (fencing_token l)")
    case True
    with run ok el show ?thesis
      by (auto simp: leader_renew_def Let_def try_i64_def granted_def split: if_splits)
  next
    case False
    then have l: "lock_key l = lock" by simp
    have renew: "leader_renew kv_redis el l net ks =
        sbind (redis_invoke ?op net ?m) (\<lambda>(code, expires_at, message).
          if code = 1 then
            slift (try_res (as_u64 ?op ''lease expiry'' expires_at) (\<lambda>expires.
                   Inr (LeaderRenewed (l\<lparr>leader_expires_at := expires, leader_ttl := ttl\<rparr>))))
          else if code = 2 then serror (StaleOwner ?op)
          else serror (InvalidState ?op
                 (''unknown Redis response code '' @ int_str code @ '': '' @ message))) ks"
      using False unfolding leader_renew_def Let_def el(1-3,7) by (simp add: try_i64_def)
    obtain x ks1 where inv: "redis_invoke ?op net ?m ks = (x, ks1)" by fastforce
    have ks': "ks' = ks1"
      using run unfolding renew sbind_def inv by (auto split: sum.splits if_splits prod.splits)
    from redis_invoke_state [of ?op net ?m ks] inv have ks1: "ks1 = ks \<or> ks1 = snd (?m ks)" by simp
    have "kv_hash ks lock \<noteq> None" using leader_state_hash [OF st] by auto
    note m = leader_renew_script_eval [OF l el(4,5) this]
    show ?thesis
    proof (cases "lease_current ks l \<and> is_ok x")
      case True
      then obtain y where x: "x = Inr y" by (cases x) auto
      with inv have "?m ks = (Inr y, ks1)" by (simp add: redis_invoke_Inr)
      with True m have y: "y = (1, int ?until, '''')" "ks1 = kv_set_expiry lock (Some ?until) ks" by auto
      have "granted r = [l\<lparr>leader_expires_at := of_nat ?until, leader_ttl := ttl\<rparr>]"
        using run unfolding renew sbind_def inv x y by (auto simp: granted_def simp del: of_nat_add)
      with tenure_ok_extend(2) [OF ok _ l y(2), of "of_nat ?until" ttl] True el(8) ks' show ?thesis
        by (simp del: of_nat_add)
    next
      case False
      have "fst y = 2" if "x = Inr y" for y
      proof -
        from inv that have "?m ks = (Inr y, ks1)" by (simp add: redis_invoke_Inr)
        with m False that show ?thesis by (auto split: if_splits)
      qed
      with run have "granted r = []" unfolding renew sbind_def inv
        by (cases x) (auto simp: granted_def)
      with ks1 ks' ok m tenure_ok_extend(1) [OF ok _ l refl] show ?thesis by (auto split: if_splits)
    qed
  qed
qed

lemma relinquish_tenure:
  assumes st: "leader_state ks lock (lock @ '':fence'') c" and ok: "tenure_ok ks lock (as_millis ttl) ls"
    and el: "elector_ok lock ttl el ks"
    and run: "leader_relinquish kv_redis el l net ks = (r, ks')"
  shows "tenure_ok ks' lock (as_millis ttl) (filter (\<lambda>k.
           \<not> (leader_token k = leader_token l \<and> fencing_token k = fencing_token l)) ls)"
proof -
  let ?op = "''leader_relinquish''" and ?f = "nat_str (unat (fencing_token l))"
  let ?m = "relinquish_script kv_redis lock (leader_token l) ?f"
  note el = elector_okD [OF el st]
  show ?thesis
  proof (cases "lock_key l \<noteq> lock \<or> lease_node_id l \<noteq> el_node_id el \<or> 2 ^ 63 \<le> unat (fencing_token l)")
    case True
    with run el have "ks' = ks"
      by (auto simp: leader_relinquish_def Let_def try_i64_def split: if_splits)
    with tenure_ok_filter [OF ok] show ?thesis by simp
  next
    case False
    then have l: "lock_key l = lock" by simp
    have "ks' = snd (redis_invoke ?op net ?m ks)"
      using run False unfolding leader_relinquish_def Let_def el(1-3,7)
      by (auto simp: try_i64_def sbind_def split: prod.splits sum.splits if_splits)
    then have "ks' = ks \<or> ks' = snd (?m ks)" using redis_invoke_state [of ?op net ?m ks] by simp
    moreover have "snd (?m ks) = (if lease_current ks l then kv_delete lock ks else ks)"
      using leader_state_live [OF st] l by (auto simp: relinquish_script_def lease_current_def)
    ultimately show ?thesis
      using tenure_ok_drop [OF ok _ l] tenure_ok_filter [OF ok] by (auto split: if_splits)
  qed
qed

context redis_server
begin

lemma tenure_inv_elects:
  assumes "leader_state (view s) lock (lock @ '':fence'') c" "tenure_ok (view s) lock (as_millis ttl) ls"
    and "elector_ok lock ttl el (view s)" "acquire_or_renew R el current uuid net s = (r, s')"
  shows "tenure_inv view lock ttl \<lparr>ten_server = s', tenures = granted r @ ls\<rparr>"
proof -
  note el = elector_okD [OF assms(3,1)]
  show ?thesis
  proof (cases current)
    case None
    with assms(4) have "leader_acquire kv_redis el uuid net (view s) = (r, view s')"
      using simulates_run [OF acquire_sim, of el uuid net s]
      by (metis acquire_or_renew_def fst_conv option.simps(4) prod.collapse snd_conv)
    with acquire_tenure [OF assms(1-3)] leader_acquire_effect [of "view s" el c uuid net] assms(1) el
    show ?thesis by (fastforce simp: tenure_inv_def)
  next
    case (Some l)
    with assms(4) have "leader_renew kv_redis el l net (view s) = (r, view s')"
      using simulates_run [OF renew_sim, of el l net s]
      by (metis acquire_or_renew_def fst_conv option.simps(5) prod.collapse snd_conv)
    with renew_tenure [OF assms(1-3)] leader_renew_state [of "view s" el "lock @ '':fence''" c l net] assms(1) el
    show ?thesis by (auto simp: tenure_inv_def)
  qed
qed

lemma tenure_inv_relinquishes:
  assumes "leader_state (view s) lock (lock @ '':fence'') c" "tenure_ok (view s) lock (as_millis ttl) ls"
    and "elector_ok lock ttl el (view s)" "leader_relinquish R el l net s = (r, s')"
  shows "tenure_inv view lock ttl \<lparr>ten_server = s', tenures = filter (\<lambda>k.
           \<not> (leader_token k = leader_token l \<and> fencing_token k = fencing_token l)) ls\<rparr>"
proof -
  note el = elector_okD [OF assms(3,1)]
  from assms(4) have "leader_relinquish kv_redis el l net (view s) = (r, view s')"
    using simulates_run [OF relinquish_sim, of el l net s] by (metis fst_conv prod.collapse snd_conv)
  with relinquish_tenure [OF assms(1-3)] leader_relinquish_state [of "view s" el "lock @ '':fence''" c l net]
    assms(1) el
  show ?thesis by (auto simp: tenure_inv_def)
qed

lemma tenure_inv_step:
  assumes "tenure_step R view lock ttl \<sigma> \<sigma>'" "tenure_inv view lock ttl \<sigma>"
  shows "tenure_inv view lock ttl \<sigma>'"
proof -
  from assms(2) obtain c where st: "leader_state (view (ten_server \<sigma>)) lock (lock @ '':fence'') c"
    and ok: "tenure_ok (view (ten_server \<sigma>)) lock (as_millis ttl) (tenures \<sigma>)"
    by (auto simp: tenure_inv_def)
  from assms(1) show ?thesis
  proof cases
    case (node_elects el current uuid net r s')
    with tenure_inv_elects [OF st ok] show ?thesis by blast
  next
    case (node_relinquishes el l net r s')
    with tenure_inv_relinquishes [OF st ok] show ?thesis by blast
  next
    case (time_passes s' us)
    with leader_state_tick [OF st] tenure_ok_tick [OF ok] show ?thesis by (auto simp: tenure_inv_def)
  next
    case (foreign_keys s')
    then have "leader_state (view s') lock (lock @ '':fence'') c"
      using st by (simp add: leader_state_def kv_live_def)
    moreover have "kv_now (view s') = kv_now (view (ten_server \<sigma>))"
      using foreign_keys by (simp add: kv_now_def)
    ultimately show ?thesis
      using tenure_ok_cong [OF ok foreign_keys(2)] foreign_keys(1) by (auto simp: tenure_inv_def)
  qed
qed

lemma tenure_inv_reachable: "tenure_reachable R view lock ttl \<sigma> \<Longrightarrow> tenure_inv view lock ttl \<sigma>"
proof (induction rule: tenure_reachable.induct)
  case (tenure_start \<sigma>)
  then show ?case
    by (auto simp: tenure_inv_def leader_state_def tenure_ok_def kv_live_def kv_expiry_def intro!: exI [of _ 0])
qed (auto intro: tenure_inv_step)

end

section \<open>Properties\<close>

text \<open>C8: At most one leader at a time: however nodes acquire, renew, relinquish, crash or lose
  replies, two leases that nodes still count on, because the server time is before the expiry they
  carry, have the same owner token and the same fencing token.  In particular no node is granted
  the leadership before the lease of its predecessor has expired or was given back.\<close>

theorem one_leader_at_a_time:
  assumes "redis_server R view" "tenure_reachable R view lock ttl \<sigma>"
    and "l1 \<in> set (tenures \<sigma>)" "l2 \<in> set (tenures \<sigma>)"
    and "kv_now (view (ten_server \<sigma>)) < unat (leader_expires_at l1)"
    and "kv_now (view (ten_server \<sigma>)) < unat (leader_expires_at l2)"
  shows "leader_token l1 = leader_token l2 \<and> fencing_token l1 = fencing_token l2"
proof -
  have ok: "tenure_ok (view (ten_server \<sigma>)) lock (as_millis ttl) (tenures \<sigma>)"
    using redis_server.tenure_inv_reachable [OF assms(1,2)] by (simp add: tenure_inv_def)
  then have "lock_key l1 = lock" "lease_current (view (ten_server \<sigma>)) l1"
    "lock_key l2 = lock" "lease_current (view (ten_server \<sigma>)) l2"
    using assms(3-6) by (auto simp: tenure_ok_def)
  with current_same_fence show ?thesis by metis
qed

text \<open>A node acquires the lock for a second and renews its lease half a second later: then it has
  two unexpired leases, the granted one and the renewed one.\<close>

lemma acquire_then_renew:
  "\<exists>\<sigma> l1 l2. tenure_reachable kv_redis id ''pulse'' (from_millis 1000) \<sigma> \<and> tenures \<sigma> = [l2, l1] \<and>
     kv_now (ten_server \<sigma>) = 500 \<and> leader_expires_at l1 = 1000 \<and> leader_expires_at l2 = 1500"
proof -
  let ?lock = "''pulse''" and ?fence = "''pulse'' @ '':fence''" and ?ttl = "from_millis 1000"
  let ?a = "new_leader_elector ?lock ''a'' 1000" and ?s0 = "\<lparr>ten_server = empty_server, tenures = []\<rparr>"
  have a: "el_lock_key ?a = ?lock" "el_fence_key ?a = ?fence" "el_node_id ?a = ''a''" "el_lock_ttl ?a = ?ttl"
    "as_millis ?ttl = 1000"
    by (simp_all add: new_leader_elector_def)
  let ?l1 = "\<lparr>lock_key = ?lock, lease_node_id = ''a'', leader_token = ''a:u'', fencing_token = 1,
    leader_expires_at = 1000, leader_ttl = ?ttl\<rparr>"
  let ?l2 = "?l1\<lparr>leader_expires_at := 1500\<rparr>"
  let ?k1 = "kv_set_expiry ?lock (Some 1000) (kv_put_hash ?lock (leader_record ''a:u'' ''a'' 1)
               (kv_write ?fence (RString (nat_str 1)) empty_server))"
  let ?k2 = "kv_tick 500000 ?k1"
  have st0: "leader_state empty_server ?lock ?fence 0" by (simp add: leader_state_def)
  have acq: "acquire_or_renew kv_redis ?a None ''u'' reliable empty_server = (Inr (LeaderAcquired ?l1), ?k1)"
    using leader_acquire_free [of empty_server ?a 0 reliable "''u''"] st0 a
    by (simp add: acquire_or_renew_def)
  have r1: "tenure_reachable kv_redis id ?lock ?ttl \<lparr>ten_server = ?k1, tenures = [?l1]\<rparr>"
    using tenure_more [OF tenure_start node_elects, of id ?s0 ?lock ?ttl ?a kv_redis None "''u''" reliable] acq a
    by (simp add: elector_ok_def fence_budget_def granted_def)
  have r2: "tenure_reachable kv_redis id ?lock ?ttl \<lparr>ten_server = ?k2, tenures = [?l1]\<rparr>"
    using tenure_more [OF r1 time_passes, of ?k2 500000] by simp
  have now: "kv_now ?k2 = 500" by (simp add: kv_now_def kv_tick_def)
  have live: "kv_live ?k2 ?lock = Some (RHash (leader_record ''a:u'' ''a'' 1))"
    using now by (simp add: kv_live_def kv_entry_tick kv_put_hash_def expired_def leader_record_def)
  obtain k3 where ren: "acquire_or_renew kv_redis ?a (Some ?l1) ''v'' reliable ?k2 = (Inr (LeaderRenewed ?l2), k3)"
    and k3: "kv_now k3 = 500"
  proof -
    have "lease_current ?k2 ?l1" using live by (simp add: lease_current_def leader_record_def)
    with leader_renew_exact [OF kv.redis_server_axioms, of ?l1 ?a reliable ?k2] a now live that show ?thesis
      by (auto simp: acquire_or_renew_def Let_def kv_hash_def split: prod.splits)
  qed
  have r3: "tenure_reachable kv_redis id ?lock ?ttl \<lparr>ten_server = k3, tenures = [?l2, ?l1]\<rparr>"
  proof -
    have "kv_entry ?k2 ?fence = Some (RString (nat_str 1), None)" by (simp add: kv_entry_tick kv_put_hash_def)
    then have "elector_ok ?lock ?ttl ?a ?k2"
      using a now by (simp add: elector_ok_def fence_budget_def kv_live_def)
    with ren have "tenure_step kv_redis id ?lock ?ttl \<lparr>ten_server = ?k2, tenures = [?l1]\<rparr>
        \<lparr>ten_server = k3, tenures = granted (Inr (LeaderRenewed ?l2)) @ [?l1]\<rparr>"
      using node_elects [of ?lock ?ttl ?a id "\<lparr>ten_server = ?k2, tenures = [?l1]\<rparr>" kv_redis "Some ?l1" "''v''" reliable]
      by simp
    from tenure_more [OF r2 this] show ?thesis by (simp add: granted_def)
  qed
  show ?thesis
    using r3 k3 by (intro exI [of _ "\<lparr>ten_server = k3, tenures = [?l2, ?l1]\<rparr>"] exI [of _ ?l1] exI [of _ ?l2]) simp
qed

theorem one_leader_at_a_time_witness:
  "\<exists>\<sigma> l1 l2. tenure_reachable kv_redis id ''pulse'' (from_millis 1000) \<sigma> \<and> tenures \<sigma> = [l2, l1] \<and>
     kv_now (ten_server \<sigma>) = 500 \<and> leader_expires_at l1 = 1000 \<and> leader_expires_at l2 = 1500 \<and>
     leader_token l1 = leader_token l2 \<and> fencing_token l1 = fencing_token l2"
proof -
  obtain \<sigma> l1 l2 where s: "tenure_reachable kv_redis id ''pulse'' (from_millis 1000) \<sigma>" "tenures \<sigma> = [l2, l1]"
    "kv_now (ten_server \<sigma>) = 500" "leader_expires_at l1 = 1000" "leader_expires_at l2 = 1500"
    using acquire_then_renew by (elim exE conjE) (rule that)
  from one_leader_at_a_time [OF kv.redis_server_axioms s(1), of l1 l2] s
  have "leader_token l1 = leader_token l2 \<and> fencing_token l1 = fencing_token l2" by simp
  with s show ?thesis by (intro exI [of _ \<sigma>] exI [of _ l1] exI [of _ l2]) simp
qed

end
