(* ===== verification/Execution_Lease.thy ===== *)
theory Execution_Lease
  imports Leader_Election
begin

text \<open>
  Execution leases (\<open>RedisIdempotencyStore\<close> in \<open>infrastructure/redis/mod.rs\<close>): the record that
  makes one attempt of one slice run under one worker at a time and that keeps its terminal
  outcome.

  The first part translates the four scripts and operations.  The second part is the abstract
  lease machine of one execution attempt and the lemmas that the scripts refine it.  The third
  part is the event system of any number of workers, with its mutual exclusion and
  immutability guarantees.
\<close>

section \<open>Operations\<close>

record RedisIdempotencyStore =
  key_prefix :: string
  store_lease_ttl :: duration
  terminal_ttl :: duration

definition DEFAULT_EXECUTION_LEASE_TTL :: duration where
  "DEFAULT_EXECUTION_LEASE_TTL = from_secs 30"

definition new_idempotency_store :: "string \<Rightarrow> duration \<Rightarrow> RedisIdempotencyStore" where
  "new_idempotency_store key_pre ttl =
     \<lparr>key_prefix = key_pre, store_lease_ttl = min ttl DEFAULT_EXECUTION_LEASE_TTL, terminal_ttl = ttl\<rparr>"

definition idempotency_with_timings :: "string \<Rightarrow> duration \<Rightarrow> duration \<Rightarrow> RedisIdempotencyStore" where
  "idempotency_with_timings key_pre lease terminal =
     \<lparr>key_prefix = key_pre, store_lease_ttl = lease, terminal_ttl = terminal\<rparr>"

definition execution_record_key :: "RedisIdempotencyStore \<Rightarrow> string \<Rightarrow> u32 \<Rightarrow> string" where
  "execution_record_key store ek attempt = key_prefix store @ '':'' @ ek @ '':attempt-'' @ word_str attempt"

definition running_retention :: "RedisIdempotencyStore \<Rightarrow> duration" where
  "running_retention store = max (terminal_ttl store) (duration_saturating_mul (store_lease_ttl store) 4)"

definition terminal_state_name :: "string option \<Rightarrow> bool" where
  "terminal_state_name state \<longleftrightarrow>
     state = Some ''completed'' \<or> state = Some ''retry_published'' \<or> state = Some ''dlq_published''"

definition identity_mismatch ::
  "'s redis \<Rightarrow> string \<Rightarrow> string \<Rightarrow> string \<Rightarrow> ('s, bool) script" where
  "identity_mismatch R key1 argv2 argv3 =
     sbind (hget R key1 ''execution_key'') (\<lambda>ek.
     if ek \<noteq> Some argv2 then sreturn True
     else sbind (hget R key1 ''attempt'') (\<lambda>att. sreturn (att \<noteq> Some argv3)))"

definition hget_number :: "'s redis \<Rightarrow> string \<Rightarrow> string \<Rightarrow> string \<Rightarrow> ('s, int) script" where
  "hget_number R key field fallback =
     sbind (hget R key field) (\<lambda>v.
     lua_need (lua_tonumber (case v of None \<Rightarrow> fallback | Some text \<Rightarrow> text)))"

definition claim_script ::
  "'s redis \<Rightarrow> rkey \<Rightarrow> rarg \<Rightarrow> rarg \<Rightarrow> rarg \<Rightarrow> rarg \<Rightarrow> rarg
     \<Rightarrow> ('s, int \<times> int \<times> int \<times> string \<times> int \<times> string) script" where
  "claim_script R key1 argv1 argv2 argv3 argv4 argv5 =
     sbind (script_now_ms R) (\<lambda>now_ms.
     sbind (lua_need (lua_tonumber argv4)) (\<lambda>ttl.
     let lease_until = lua_add now_ms ttl in
     sbind (exists_key R key1) (\<lambda>present.
     if present = 0 then
       sbind (hset R key1
         [(''state'', ''running''), (''owner'', argv1), (''execution_key'', argv2),
          (''attempt'', argv3), (''lease_until'', lua_tostring lease_until),
          (''recovery_count'', ''0'')]) (\<lambda>_.
       sbind (pexpire R key1 argv5) (\<lambda>_.
       sreturn (1, lease_until, 0, '''', 0, '''')))
     else
       sbind (identity_mismatch R key1 argv2 argv3) (\<lambda>mismatch.
       if mismatch then sreturn (4, 0, 0, '''', 0, ''execution identity does not match record'')
       else
         sbind (hget R key1 ''state'') (\<lambda>state.
         if terminal_state_name state then
           sbind (hget_number R key1 ''completed_at'' ''0'') (\<lambda>completed_at.
           sreturn (2, 0, 0, the state, completed_at, ''''))
         else if state \<noteq> Some ''running'' then sreturn (4, 0, 0, '''', 0, ''execution state is unknown'')
         else
           sbind (hget_number R key1 ''lease_until'' ''0'') (\<lambda>current_until.
           if current_until \<le> now_ms then
             sbind (hset R key1
               [(''owner'', argv1), (''lease_until'', lua_tostring lease_until),
                (''recovered_at'', lua_tostring now_ms)]) (\<lambda>_.
             sbind (hincrby R key1 ''recovery_count'' ''1'') (\<lambda>_.
             sbind (pexpire R key1 argv5) (\<lambda>_.
             sreturn (1, lease_until, 1, '''', 0, ''''))))
           else sreturn (3, lua_sub current_until now_ms, 0, '''', 0, '''')))))))"

definition execution_claim ::
  "'s redis \<Rightarrow> RedisIdempotencyStore \<Rightarrow> ExecutionClaim \<Rightarrow> string \<Rightarrow> net
     \<Rightarrow> ('s, coordination_error, ClaimOutcome) action" where
  "execution_claim R store claim uuid net =
     (let op = ''execution_claim'' in
     if trim (claim_execution_key claim) = []
     then serror (InvalidState op ''execution key must not be empty'')
     else
     sbind (slift (duration_ms op (store_lease_ttl store))) (\<lambda>lease_ttl_ms.
     sbind (slift (duration_ms op (running_retention store))) (\<lambda>running_retention_ms.
     sbind (redis_invoke op net
       (claim_script R (execution_record_key store (claim_execution_key claim) (claim_attempt claim))
          uuid (claim_execution_key claim) (word_str (claim_attempt claim)) (int_str lease_ttl_ms)
          (int_str running_retention_ms)))
       (\<lambda>(code, lease_or_retry, recovered, terminal_state, completed_at, message).
     if code = 1 then
       slift (try_res (as_u64 op ''execution lease expiry'' lease_or_retry) (\<lambda>expires.
              Inr (Acquired
                \<lparr>lease_execution_key = claim_execution_key claim, lease_attempt = claim_attempt claim,
                 lease_owner_token = uuid, lease_expires_at = ucast expires,
                 lease_ttl = store_lease_ttl store, lease_recovered = (recovered = 1)\<rparr>)))
     else if code = 2 then
       slift (case terminal_from_str terminal_state of
                Inl error \<Rightarrow> Inl (InvalidState op error)
              | Inr outcome \<Rightarrow>
                  try_res (as_u64 op ''completion timestamp'' completed_at) (\<lambda>done_at.
                  Inr (AlreadyCompleted \<lparr>completed_outcome = outcome, completed_at_unix_ms = ucast done_at\<rparr>)))
     else if code = 3 then sreturn (Busy (duration_from_nonnegative_ms lease_or_retry))
     else if code = 4 then serror (InvalidState op message)
     else serror (unknown_code op code)))))"

definition renew_script ::
  "'s redis \<Rightarrow> rkey \<Rightarrow> rarg \<Rightarrow> rarg \<Rightarrow> rarg \<Rightarrow> rarg \<Rightarrow> rarg
     \<Rightarrow> ('s, int \<times> int \<times> string) script" where
  "renew_script R key1 argv1 argv2 argv3 argv4 argv5 =
     sbind (exists_key R key1) (\<lambda>present.
     if present = 0 then sreturn (2, 0, ''execution record is absent'')
     else
       sbind (identity_mismatch R key1 argv2 argv3) (\<lambda>mismatch.
       if mismatch then sreturn (3, 0, ''execution identity does not match record'')
       else
         sbind (hget R key1 ''state'') (\<lambda>state.
         if state \<noteq> Some ''running'' then sreturn (3, 0, ''execution is no longer running'')
         else
           sbind (hget R key1 ''owner'') (\<lambda>owner.
           if owner \<noteq> Some argv1 then sreturn (2, 0, ''execution owner changed'')
           else
             sbind (script_now_ms R) (\<lambda>now_ms.
             sbind (hget_number R key1 ''lease_until'' ''0'') (\<lambda>current_until.
             if current_until \<le> now_ms then sreturn (2, 0, ''execution lease expired'')
             else
               sbind (lua_need (lua_tonumber argv4)) (\<lambda>ttl.
               let lease_until = lua_add now_ms ttl in
               sbind (hset R key1 [(''lease_until'', lua_tostring lease_until)]) (\<lambda>_.
               sbind (pexpire R key1 argv5) (\<lambda>_.
               sreturn (1, lease_until, ''''))))))))))"

definition execution_renew ::
  "'s redis \<Rightarrow> RedisIdempotencyStore \<Rightarrow> ExecutionLease \<Rightarrow> net
     \<Rightarrow> ('s, coordination_error, ExecutionLease) action" where
  "execution_renew R store lease net =
     (let op = ''execution_renew'' in
     sbind (slift (duration_ms op (store_lease_ttl store))) (\<lambda>lease_ttl_ms.
     sbind (slift (duration_ms op (running_retention store))) (\<lambda>running_retention_ms.
     sbind (redis_invoke op net
       (renew_script R (execution_record_key store (lease_execution_key lease) (lease_attempt lease))
          (lease_owner_token lease) (lease_execution_key lease) (word_str (lease_attempt lease))
          (int_str lease_ttl_ms) (int_str running_retention_ms)))
       (\<lambda>(code, expires_at, message).
     if code = 1 then
       slift (try_res (as_u64 op ''execution lease expiry'' expires_at) (\<lambda>expires.
              Inr (lease\<lparr>lease_expires_at := ucast expires, lease_ttl := store_lease_ttl store\<rparr>)))
     else if code = 2 then serror (StaleOwner op)
     else if code = 3 then serror (InvalidState op message)
     else serror (unknown_code op code)))))"

definition complete_script ::
  "'s redis \<Rightarrow> rkey \<Rightarrow> rarg \<Rightarrow> rarg \<Rightarrow> rarg \<Rightarrow> rarg \<Rightarrow> rarg
     \<Rightarrow> ('s, int \<times> int \<times> string) script" where
  "complete_script R key1 argv1 argv2 argv3 argv4 argv5 =
     sbind (exists_key R key1) (\<lambda>present.
     if present = 0 then sreturn (2, 0, ''execution record is absent'')
     else
       sbind (identity_mismatch R key1 argv2 argv3) (\<lambda>mismatch.
       if mismatch then sreturn (3, 0, ''execution identity does not match record'')
       else
         sbind (hget R key1 ''owner'') (\<lambda>owner.
         if owner \<noteq> Some argv1 then sreturn (2, 0, ''execution owner changed'')
         else
           sbind (hget R key1 ''state'') (\<lambda>state.
           if terminal_state_name state then
             (if state \<noteq> Some argv4
              then sreturn (3, 0, ''execution already has a different terminal outcome'')
              else sbind (hget_number R key1 ''completed_at'' ''0'') (\<lambda>done_at. sreturn (1, done_at, '''')))
           else if state \<noteq> Some ''running'' then sreturn (3, 0, ''execution state is unknown'')
           else
             sbind (script_now_ms R) (\<lambda>now_ms.
             sbind (hget_number R key1 ''lease_until'' ''0'') (\<lambda>lease_until.
             if lease_until \<le> now_ms then sreturn (2, 0, ''execution lease expired'')
             else
               sbind (hset R key1 [(''state'', argv4), (''completed_at'', lua_tostring now_ms)]) (\<lambda>_.
               sbind (hdel R key1 [''lease_until'']) (\<lambda>_.
               sbind (pexpire R key1 argv5) (\<lambda>_.
               sreturn (1, now_ms, ''''))))))))))"

definition execution_complete ::
  "'s redis \<Rightarrow> RedisIdempotencyStore \<Rightarrow> ExecutionLease \<Rightarrow> TerminalOutcome \<Rightarrow> net
     \<Rightarrow> ('s, coordination_error, CompletedOutcome) action" where
  "execution_complete R store lease outcome net =
     (let op = ''execution_complete'' in
     sbind (slift (duration_ms op (terminal_ttl store))) (\<lambda>terminal_ttl_ms.
     sbind (redis_invoke op net
       (complete_script R (execution_record_key store (lease_execution_key lease) (lease_attempt lease))
          (lease_owner_token lease) (lease_execution_key lease) (word_str (lease_attempt lease))
          (terminal_as_str outcome) (int_str terminal_ttl_ms)))
       (\<lambda>(code, completed_at, message).
     if code = 1 then
       slift (try_res (as_u64 op ''completion timestamp'' completed_at) (\<lambda>done_at.
              Inr \<lparr>completed_outcome = outcome, completed_at_unix_ms = ucast done_at\<rparr>))
     else if code = 2 then serror (StaleOwner op)
     else if code = 3 then serror (InvalidState op message)
     else serror (unknown_code op code))))"

definition release_script ::
  "'s redis \<Rightarrow> rkey \<Rightarrow> rarg \<Rightarrow> rarg \<Rightarrow> rarg \<Rightarrow> ('s, int \<times> string) script" where
  "release_script R key1 argv1 argv2 argv3 =
     sbind (exists_key R key1) (\<lambda>present.
     if present = 0 then sreturn (0, '''')
     else
       sbind (identity_mismatch R key1 argv2 argv3) (\<lambda>mismatch.
       if mismatch then sreturn (3, ''execution identity does not match record'')
       else
         sbind (hget R key1 ''state'') (\<lambda>state.
         if state \<noteq> Some ''running'' then sreturn (3, ''execution is no longer running'')
         else
           sbind (hget R key1 ''owner'') (\<lambda>owner.
           if owner \<noteq> Some argv1 then sreturn (2, ''execution owner changed'')
           else
             sbind (script_now_ms R) (\<lambda>now_ms.
             sbind (hget_number R key1 ''lease_until'' ''0'') (\<lambda>lease_until.
             if lease_until \<le> now_ms then sreturn (2, ''execution lease expired'')
             else sbind (del R key1) (\<lambda>_. sreturn (1, ''''))))))))"

definition execution_release ::
  "'s redis \<Rightarrow> RedisIdempotencyStore \<Rightarrow> ExecutionLease \<Rightarrow> net
     \<Rightarrow> ('s, coordination_error, ReleaseOutcome) action" where
  "execution_release R store lease net =
     (let op = ''execution_release'' in
     sbind (redis_invoke op net
       (release_script R (execution_record_key store (lease_execution_key lease) (lease_attempt lease))
          (lease_owner_token lease) (lease_execution_key lease) (word_str (lease_attempt lease))))
       (\<lambda>(code, message).
     if code = 0 then sreturn AlreadyAbsent
     else if code = 1 then sreturn Released
     else if code = 2 then serror (StaleOwner op)
     else if code = 3 then serror (InvalidState op message)
     else serror (unknown_code op code)))"

context redis_server
begin

lemma hget_number_sim [simulation]:
  "simulates view (=) (hget_number R k f d) (hget_number kv_redis k f d)"
  unfolding hget_number_def by (auto intro!: simulation command_sims)

lemma identity_mismatch_sim [simulation]:
  "simulates view (=) (identity_mismatch R k a b) (identity_mismatch kv_redis k a b)"
  unfolding identity_mismatch_def by (auto intro!: simulation command_sims)

lemma claim_sim:
  "simulates view (=) (execution_claim R st c u net) (execution_claim kv_redis st c u net)"
  unfolding execution_claim_def claim_script_def Let_def
  by (auto intro!: simulation command_sims now_sim hget_number_sim identity_mismatch_sim)

lemma execution_renew_sim:
  "simulates view (=) (execution_renew R st l net) (execution_renew kv_redis st l net)"
  unfolding execution_renew_def renew_script_def Let_def
  by (auto intro!: simulation command_sims now_sim hget_number_sim identity_mismatch_sim)

lemma complete_sim:
  "simulates view (=) (execution_complete R st l t net) (execution_complete kv_redis st l t net)"
  unfolding execution_complete_def complete_script_def Let_def
  by (auto intro!: simulation command_sims now_sim hget_number_sim identity_mismatch_sim)

lemma release_sim:
  "simulates view (=) (execution_release R st l net) (execution_release kv_redis st l net)"
  unfolding execution_release_def release_script_def Let_def
  by (auto intro!: simulation command_sims now_sim hget_number_sim identity_mismatch_sim)

end

section \<open>The abstract lease machine\<close>

text \<open>One attempt of one execution: no record, a lease held by an owner until a time, or a
  terminal outcome with the owner that recorded it and the completion time.\<close>

datatype exec_state =
    NoRecord
  | Running string nat
  | Done TerminalOutcome string nat

text \<open>The transitions, and the replies that belong to them.\<close>

definition claim_next :: "string \<Rightarrow> nat \<Rightarrow> nat \<Rightarrow> exec_state \<Rightarrow> exec_state" where
  "claim_next uuid now ttl st = (case st of
     NoRecord \<Rightarrow> Running uuid (now + ttl)
   | Running owner u \<Rightarrow> if u \<le> now then Running uuid (now + ttl) else st
   | Done t owner done_at \<Rightarrow> st)"

definition renew_next :: "string \<Rightarrow> nat \<Rightarrow> nat \<Rightarrow> exec_state \<Rightarrow> exec_state" where
  "renew_next token now ttl st = (case st of
     Running owner u \<Rightarrow> if owner = token \<and> now < u then Running owner (now + ttl) else st
   | _ \<Rightarrow> st)"

definition complete_next :: "string \<Rightarrow> TerminalOutcome \<Rightarrow> nat \<Rightarrow> exec_state \<Rightarrow> exec_state" where
  "complete_next token outcome now st = (case st of
     Running owner u \<Rightarrow> if owner = token \<and> now < u then Done outcome owner now else st
   | _ \<Rightarrow> st)"

definition release_next :: "string \<Rightarrow> nat \<Rightarrow> exec_state \<Rightarrow> exec_state" where
  "release_next token now st = (case st of
     Running owner u \<Rightarrow> if owner = token \<and> now < u then NoRecord else st
   | _ \<Rightarrow> st)"

definition claimed_lease ::
  "RedisIdempotencyStore \<Rightarrow> ExecutionClaim \<Rightarrow> string \<Rightarrow> nat \<Rightarrow> bool \<Rightarrow> ExecutionLease" where
  "claimed_lease store claim uuid until recovered =
     \<lparr>lease_execution_key = claim_execution_key claim, lease_attempt = claim_attempt claim,
      lease_owner_token = uuid, lease_expires_at = of_nat until, lease_ttl = store_lease_ttl store,
      lease_recovered = recovered\<rparr>"

definition claim_outcome ::
  "RedisIdempotencyStore \<Rightarrow> ExecutionClaim \<Rightarrow> string \<Rightarrow> nat \<Rightarrow> exec_state \<Rightarrow> ClaimOutcome" where
  "claim_outcome store claim uuid now st =
     (let until = now + as_millis (store_lease_ttl store) in
      case st of
        NoRecord \<Rightarrow> Acquired (claimed_lease store claim uuid until False)
      | Running owner u \<Rightarrow>
          if u \<le> now then Acquired (claimed_lease store claim uuid until True)
          else Busy (from_millis (u - now))
      | Done t owner done_at \<Rightarrow>
          AlreadyCompleted \<lparr>completed_outcome = t, completed_at_unix_ms = of_nat done_at\<rparr>)"

definition renew_outcome ::
  "RedisIdempotencyStore \<Rightarrow> ExecutionLease \<Rightarrow> nat \<Rightarrow> exec_state
     \<Rightarrow> (coordination_error, ExecutionLease) result" where
  "renew_outcome store lease now st = (case st of
     NoRecord \<Rightarrow> Inl (StaleOwner ''execution_renew'')
   | Running owner u \<Rightarrow>
       if owner = lease_owner_token lease \<and> now < u
       then Inr (lease\<lparr>lease_expires_at := of_nat (now + as_millis (store_lease_ttl store)),
                       lease_ttl := store_lease_ttl store\<rparr>)
       else Inl (StaleOwner ''execution_renew'')
   | Done t owner done_at \<Rightarrow>
       Inl (InvalidState ''execution_renew'' ''execution is no longer running''))"

definition complete_outcome ::
  "ExecutionLease \<Rightarrow> TerminalOutcome \<Rightarrow> nat \<Rightarrow> exec_state
     \<Rightarrow> (coordination_error, CompletedOutcome) result" where
  "complete_outcome lease outcome now st = (case st of
     NoRecord \<Rightarrow> Inl (StaleOwner ''execution_complete'')
   | Running owner u \<Rightarrow>
       if owner = lease_owner_token lease \<and> now < u
       then Inr \<lparr>completed_outcome = outcome, completed_at_unix_ms = of_nat now\<rparr>
       else Inl (StaleOwner ''execution_complete'')
   | Done t owner done_at \<Rightarrow>
       if owner \<noteq> lease_owner_token lease then Inl (StaleOwner ''execution_complete'')
       else if t \<noteq> outcome
       then Inl (InvalidState ''execution_complete''
              ''execution already has a different terminal outcome'')
       else Inr \<lparr>completed_outcome = outcome, completed_at_unix_ms = of_nat done_at\<rparr>)"

definition release_outcome ::
  "ExecutionLease \<Rightarrow> nat \<Rightarrow> exec_state \<Rightarrow> (coordination_error, ReleaseOutcome) result" where
  "release_outcome lease now st = (case st of
     NoRecord \<Rightarrow> Inr AlreadyAbsent
   | Running owner u \<Rightarrow>
       if owner = lease_owner_token lease \<and> now < u then Inr Released
       else Inl (StaleOwner ''execution_release'')
   | Done t owner done_at \<Rightarrow>
       Inl (InvalidState ''execution_release'' ''execution is no longer running''))"

section \<open>The stored record\<close>

definition record_identity :: "(string, string) fmap \<Rightarrow> string \<Rightarrow> u32 \<Rightarrow> bool" where
  "record_identity h ek attempt \<longleftrightarrow>
     fmlookup h ''execution_key'' = Some ek \<and> fmlookup h ''attempt'' = Some (word_str attempt)"

definition exec_rel :: "keyspace \<Rightarrow> string \<Rightarrow> string \<Rightarrow> u32 \<Rightarrow> exec_state \<Rightarrow> bool" where
  "exec_rel ks key ek attempt st \<longleftrightarrow> (case st of
     NoRecord \<Rightarrow> kv_entry ks key = None
   | Running owner u \<Rightarrow>
       (\<exists>h e r. kv_entry ks key = Some (RHash h, Some e) \<and> record_identity h ek attempt \<and>
          fmlookup h ''state'' = Some ''running'' \<and> fmlookup h ''owner'' = Some owner \<and>
          fmlookup h ''lease_until'' = Some (nat_str u) \<and> u < 10 ^ 14 \<and> u \<le> e \<and>
          fmlookup h ''recovery_count'' = Some (nat_str r) \<and> r \<le> kv_now ks \<and> r < u)
   | Done t owner done_at \<Rightarrow>
       (\<exists>h e. kv_entry ks key = Some (RHash h, Some e) \<and> record_identity h ek attempt \<and>
          fmlookup h ''state'' = Some (terminal_as_str t) \<and> fmlookup h ''owner'' = Some owner \<and>
          fmlookup h ''completed_at'' = Some (nat_str done_at) \<and> done_at < 10 ^ 14))"

lemma kv_entry_live:
  "kv_entry ks k = Some (RHash h, e) \<Longrightarrow> kv_live ks k = Some (RHash h)"
  "kv_entry ks k = None \<Longrightarrow> kv_live ks k = None"
  "kv_entry ks k = Some (v, e) \<Longrightarrow> kv_expiry ks k = e"
  by (simp_all add: kv_live_def kv_expiry_def)

lemma hget_number_eval [simp]:
  "kv_hash ks k = Some h \<Longrightarrow> fmlookup h f = Some (nat_str n) \<Longrightarrow> n < 10 ^ 14 \<Longrightarrow>
   hget_number kv_redis k f d ks = (Inr (int n), ks)"
  by (simp add: hget_number_def)

lemma identity_mismatch_eval [simp]:
  "kv_hash ks k = Some h \<Longrightarrow> identity_mismatch kv_redis k ek att ks =
     (Inr (\<not> (fmlookup h ''execution_key'' = Some ek \<and> fmlookup h ''attempt'' = Some att)), ks)"
  by (simp add: identity_mismatch_def)



lemma terminal_state_name_simps [simp]:
  "terminal_state_name (Some (terminal_as_str t))"
  "\<not> terminal_state_name (Some ''running'')"
  "terminal_as_str t \<noteq> ''running''" "''running'' \<noteq> terminal_as_str t"
  by (auto simp: terminal_state_name_def terminal_as_str_def split: TerminalOutcome.splits)

text \<open>The configuration of a store at a server time: the ttls are at least a millisecond and every
  deadline the scripts write has at most fourteen digits.\<close>

definition store_ok :: "RedisIdempotencyStore \<Rightarrow> nat \<Rightarrow> bool" where
  "store_ok store now \<longleftrightarrow>
     0 < as_millis (store_lease_ttl store) \<and> store_lease_ttl store \<le> max_duration \<and>
     0 < as_millis (terminal_ttl store) \<and>
     now + as_millis (running_retention store) < 10 ^ 14"

lemma retention_ge: "store_lease_ttl store \<le> max_duration \<Longrightarrow>
    as_millis (store_lease_ttl store) \<le> as_millis (running_retention store)"
  unfolding running_retention_def duration_saturating_mul_def
  by (intro as_millis_mono) (auto simp: max_def min_def)

lemma retention_ge_terminal: "as_millis (terminal_ttl store) \<le> as_millis (running_retention store)"
  unfolding running_retention_def by (intro as_millis_mono) simp

text \<open>A script that runs on one key: the reply, the related new state, every other key and the
  clock unchanged.\<close>

definition exec_effect ::
  "(keyspace, 'a) script \<Rightarrow> keyspace \<Rightarrow> string \<Rightarrow> string \<Rightarrow> u32 \<Rightarrow> 'a \<Rightarrow> exec_state \<Rightarrow> bool" where
  "exec_effect m ks key ek attempt reply st' \<longleftrightarrow>
     (\<exists>ks'. m ks = (Inr reply, ks') \<and> exec_rel ks' key ek attempt st' \<and>
            (\<forall>k. k \<noteq> key \<longrightarrow> kv_entry ks' k = kv_entry ks k) \<and> ks_clock ks' = ks_clock ks)"

lemma exec_effect_unchanged:
  "m ks = (Inr reply, ks) \<Longrightarrow> exec_rel ks key ek attempt st \<Longrightarrow> exec_effect m ks key ek attempt reply st"
  by (auto simp: exec_effect_def)

lemma exec_effect_put:
  assumes "m ks = (Inr reply, kv_set_expiry key (Some e) (kv_put_hash key h ks))"
    and "kv_now ks \<le> e" "h \<noteq> fmempty"
    and "exec_rel (kv_set_expiry key (Some e) (kv_put_hash key h ks)) key ek attempt st"
  shows "exec_effect m ks key ek attempt reply st"
  using assms by (auto simp: exec_effect_def kv_put_hash_def)

lemma kv_entry_put_expire:
  "kv_now ks \<le> e \<Longrightarrow> h \<noteq> fmempty \<Longrightarrow>
   kv_entry (kv_set_expiry key (Some e) (kv_put_hash key h ks)) key = Some (RHash h, Some e)"
  by (simp add: kv_put_hash_def)

section \<open>The scripts refine the machine\<close>

definition claim_reply :: "nat \<Rightarrow> nat \<Rightarrow> exec_state \<Rightarrow> int \<times> int \<times> int \<times> string \<times> int \<times> string" where
  "claim_reply now ttl st = (case st of
     NoRecord \<Rightarrow> (1, int (now + ttl), 0, '''', 0, '''')
   | Running owner u \<Rightarrow>
       if u \<le> now then (1, int (now + ttl), 1, '''', 0, '''') else (3, int (u - now), 0, '''', 0, '''')
   | Done t owner done_at \<Rightarrow> (2, 0, 0, terminal_as_str t, int done_at, ''''))"

lemma small_exact:
  "a + b < 10 ^ 14 \<Longrightarrow> lua_add (int a) (int b) = int (a + b)"
  "a < 10 ^ 14 \<Longrightarrow> lua_tostring (int a) = nat_str a"
  "a < 10 ^ 14 \<Longrightarrow> b \<le> a \<Longrightarrow> lua_sub (int a) (int b) = int (a - b)"
  by (simp_all add: lua_add_def lua_tostring_nat lua_sub_def of_nat_diff)

lemma nat_str_0 [simp]: "nat_str 0 = ''0''"
  by (simp add: nat_str.simps)

lemma redis_int_one [simp]: "redis_int ''1'' = Some 1"
  using redis_int_nat_str [of 1] by (simp add: nat_str.simps)

lemma claim_script_refines:
  assumes rel: "exec_rel ks key ek attempt st"
    and ttl: "0 < ttl" "ttl \<le> ret" "kv_now ks + ret < 10 ^ 14"
  shows "exec_effect (claim_script kv_redis key uuid ek (word_str attempt) (nat_str ttl) (nat_str ret))
           ks key ek attempt (claim_reply (kv_now ks) ttl st)
           (claim_next uuid (kv_now ks) ttl st)"
proof (cases st)
  case NoRecord
  let ?h = "fmupds [(''state'', ''running''), (''owner'', uuid), (''execution_key'', ek),
          (''attempt'', word_str attempt), (''lease_until'', nat_str (kv_now ks + ttl)),
          (''recovery_count'', ''0'')] fmempty"
  from NoRecord rel have live: "kv_live ks key = None" by (simp add: exec_rel_def kv_live_def)
  show ?thesis
  proof (rule exec_effect_put [of _ _ _ _ "kv_now ks + ret" ?h])
    show "claim_script kv_redis key uuid ek (word_str attempt) (nat_str ttl) (nat_str ret) ks =
      (Inr (claim_reply (kv_now ks) ttl st), kv_set_expiry key (Some (kv_now ks + ret)) (kv_put_hash key ?h ks))"
      using live ttl NoRecord
      by (simp add: claim_script_def claim_reply_def small_exact Let_def del: of_nat_add)
  qed (use ttl NoRecord in \<open>auto simp: exec_rel_def claim_next_def record_identity_def
      kv_entry_put_expire Let_def intro!: exI [of _ 0]\<close>)
next
  case (Done t owner done_at)
  with rel obtain h e where h: "kv_entry ks key = Some (RHash h, Some e)" "record_identity h ek attempt"
    "fmlookup h ''state'' = Some (terminal_as_str t)" "fmlookup h ''completed_at'' = Some (nat_str done_at)"
    "done_at < 10 ^ 14"
    by (auto simp: exec_rel_def)
  show ?thesis
  proof (rule exec_effect_unchanged)
    show "claim_script kv_redis key uuid ek (word_str attempt) (nat_str ttl) (nat_str ret) ks =
      (Inr (claim_reply (kv_now ks) ttl st), ks)"
      using h ttl Done kv_entry_live(1) [OF h(1)]
      by (simp add: claim_script_def claim_reply_def record_identity_def Let_def)
  qed (use rel Done in \<open>simp add: claim_next_def Let_def\<close>)
next
  case (Running owner u)
  with rel obtain h e r where h: "kv_entry ks key = Some (RHash h, Some e)" "record_identity h ek attempt"
    "fmlookup h ''state'' = Some ''running''" "fmlookup h ''lease_until'' = Some (nat_str u)" "u < 10 ^ 14"
    "fmlookup h ''recovery_count'' = Some (nat_str r)" "r \<le> kv_now ks" "r < u"
    by (auto simp: exec_rel_def)
  note live = kv_entry_live(1) [OF h(1)]
  show ?thesis
  proof (cases "u \<le> kv_now ks")
    case True
    let ?h = "fmupd ''recovery_count'' (nat_str (Suc r)) (fmupds [(''owner'', uuid),
        (''lease_until'', nat_str (kv_now ks + ttl)), (''recovered_at'', nat_str (kv_now ks))] h)"
    have inc: "kv_hincrby key ''recovery_count'' ''1'' (kv_put_hash key (fmupds [(''owner'', uuid),
        (''lease_until'', nat_str (kv_now ks + ttl)), (''recovered_at'', nat_str (kv_now ks))] h) ks)
       = (Inr (int r + 1), kv_put_hash key ?h ks)"
      using h ttl by (simp add: int_str_def nat_add_distrib)
    show ?thesis
    proof (rule exec_effect_put [of _ _ _ _ "kv_now ks + ret" ?h])
      show "claim_script kv_redis key uuid ek (word_str attempt) (nat_str ttl) (nat_str ret) ks =
        (Inr (claim_reply (kv_now ks) ttl st), kv_set_expiry key (Some (kv_now ks + ret)) (kv_put_hash key ?h ks))"
        using h ttl live True Running inc
        by (simp add: claim_script_def claim_reply_def small_exact record_identity_def Let_def del: of_nat_add)
    qed (use h ttl True Running in \<open>auto simp: exec_rel_def claim_next_def record_identity_def
        kv_entry_put_expire Let_def\<close>)
  next
    case False
    show ?thesis
    proof (rule exec_effect_unchanged)
      show "claim_script kv_redis key uuid ek (word_str attempt) (nat_str ttl) (nat_str ret) ks =
        (Inr (claim_reply (kv_now ks) ttl st), ks)"
        using h ttl live False Running
        by (simp add: claim_script_def claim_reply_def small_exact record_identity_def Let_def)
    qed (use rel False Running in \<open>simp add: claim_next_def Let_def\<close>)
  qed
qed


definition renew_reply :: "string \<Rightarrow> nat \<Rightarrow> nat \<Rightarrow> exec_state \<Rightarrow> int \<times> int \<times> string" where
  "renew_reply token now ttl st = (case st of
     NoRecord \<Rightarrow> (2, 0, ''execution record is absent'')
   | Running owner u \<Rightarrow>
       if owner \<noteq> token then (2, 0, ''execution owner changed'')
       else if u \<le> now then (2, 0, ''execution lease expired'')
       else (1, int (now + ttl), [])
   | Done t owner done_at \<Rightarrow> (3, 0, ''execution is no longer running''))"

definition complete_reply ::
  "string \<Rightarrow> TerminalOutcome \<Rightarrow> nat \<Rightarrow> exec_state \<Rightarrow> int \<times> int \<times> string" where
  "complete_reply token outcome now st = (case st of
     NoRecord \<Rightarrow> (2, 0, ''execution record is absent'')
   | Running owner u \<Rightarrow>
       if owner \<noteq> token then (2, 0, ''execution owner changed'')
       else if u \<le> now then (2, 0, ''execution lease expired'')
       else (1, int now, [])
   | Done t owner done_at \<Rightarrow>
       if owner \<noteq> token then (2, 0, ''execution owner changed'')
       else if t \<noteq> outcome then (3, 0, ''execution already has a different terminal outcome'')
       else (1, int done_at, []))"

definition release_reply :: "string \<Rightarrow> nat \<Rightarrow> exec_state \<Rightarrow> int \<times> string" where
  "release_reply token now st = (case st of
     NoRecord \<Rightarrow> (0, [])
   | Running owner u \<Rightarrow>
       if owner \<noteq> token then (2, ''execution owner changed'')
       else if u \<le> now then (2, ''execution lease expired'')
       else (1, [])
   | Done t owner done_at \<Rightarrow> (3, ''execution is no longer running''))"

lemma exec_rel_RunningE:
  assumes "exec_rel ks key ek attempt (Running owner u)"
  obtains h e r where "kv_entry ks key = Some (RHash h, Some e)" "record_identity h ek attempt"
    "fmlookup h ''state'' = Some ''running''" "fmlookup h ''owner'' = Some owner"
    "fmlookup h ''lease_until'' = Some (nat_str u)" "u < 10 ^ 14"
    "fmlookup h ''recovery_count'' = Some (nat_str r)" "r \<le> kv_now ks" "r < u"
    "kv_live ks key = Some (RHash h)"
  using assms by (auto simp: exec_rel_def kv_live_def)

lemma exec_rel_DoneE:
  assumes "exec_rel ks key ek attempt (Done t owner done_at)"
  obtains h e where "kv_entry ks key = Some (RHash h, Some e)" "record_identity h ek attempt"
    "fmlookup h ''state'' = Some (terminal_as_str t)" "fmlookup h ''owner'' = Some owner"
    "fmlookup h ''completed_at'' = Some (nat_str done_at)" "done_at < 10 ^ 14"
    "kv_live ks key = Some (RHash h)"
  using assms by (auto simp: exec_rel_def kv_live_def)

lemma renew_script_refines:
  assumes rel: "exec_rel ks key ek attempt st"
    and ttl: "0 < ttl" "ttl \<le> ret" "kv_now ks + ret < 10 ^ 14"
  shows "exec_effect (renew_script kv_redis key token ek (word_str attempt) (nat_str ttl) (nat_str ret))
           ks key ek attempt (renew_reply token (kv_now ks) ttl st) (renew_next token (kv_now ks) ttl st)"
proof (cases st)
  case NoRecord
  with rel show ?thesis
    by (intro exec_effect_unchanged)
       (simp_all add: renew_script_def renew_reply_def renew_next_def exec_rel_def kv_live_def)
next
  case (Done t owner done_at)
  with rel show ?thesis
    by (intro exec_effect_unchanged)
       (auto elim!: exec_rel_DoneE
         simp: renew_script_def renew_reply_def renew_next_def record_identity_def)
next
  case (Running owner u)
  from rel [unfolded Running] show ?thesis
  proof (cases rule: exec_rel_RunningE)
    case (1 h e r)
    show ?thesis
    proof (cases "owner = token \<and> kv_now ks < u")
      case True
      let ?h = "fmupd ''lease_until'' (nat_str (kv_now ks + ttl)) h"
      show ?thesis
      proof (rule exec_effect_put [of _ _ _ _ "kv_now ks + ret" ?h])
        show "renew_script kv_redis key token ek (word_str attempt) (nat_str ttl) (nat_str ret) ks =
          (Inr (renew_reply token (kv_now ks) ttl st),
           kv_set_expiry key (Some (kv_now ks + ret)) (kv_put_hash key ?h ks))"
          using 1 ttl True Running
          by (simp add: renew_script_def renew_reply_def small_exact record_identity_def Let_def del: of_nat_add)
      qed (use 1 ttl True Running in \<open>auto simp: exec_rel_def renew_next_def record_identity_def\<close>)
    next
      case False
      with 1 ttl Running rel show ?thesis
        by (intro exec_effect_unchanged)
           (auto simp: renew_script_def renew_reply_def renew_next_def record_identity_def)
    qed
  qed
qed

lemma complete_script_refines:
  assumes rel: "exec_rel ks key ek attempt st"
    and ttl: "0 < ttl" "kv_now ks + ttl < 10 ^ 14"
  shows "exec_effect (complete_script kv_redis key token ek (word_str attempt) (terminal_as_str outcome) (nat_str ttl))
           ks key ek attempt (complete_reply token outcome (kv_now ks) st)
           (complete_next token outcome (kv_now ks) st)"
proof (cases st)
  case NoRecord
  with rel show ?thesis
    by (intro exec_effect_unchanged)
       (simp_all add: complete_script_def complete_reply_def complete_next_def exec_rel_def kv_live_def)
next
  case (Done t owner done_at)
  with rel show ?thesis
    by (intro exec_effect_unchanged)
       (auto elim!: exec_rel_DoneE
         simp: complete_script_def complete_reply_def complete_next_def record_identity_def)
next
  case (Running owner u)
  from rel [unfolded Running] show ?thesis
  proof (cases rule: exec_rel_RunningE)
    case (1 h e r)
    show ?thesis
    proof (cases "owner = token \<and> kv_now ks < u")
      case True
      let ?h = "fmdrop ''lease_until'' (fmupds [(''state'', terminal_as_str outcome),
                  (''completed_at'', nat_str (kv_now ks))] h)"
      show ?thesis
      proof (rule exec_effect_put [of _ _ _ _ "kv_now ks + ttl" ?h])
        show "complete_script kv_redis key token ek (word_str attempt) (terminal_as_str outcome) (nat_str ttl) ks =
          (Inr (complete_reply token outcome (kv_now ks) st),
           kv_set_expiry key (Some (kv_now ks + ttl)) (kv_put_hash key ?h ks))"
          using 1 ttl True Running
          by (simp add: complete_script_def complete_reply_def small_exact record_identity_def fmdrop_fmupd)
      qed (use 1 ttl True Running in \<open>auto simp: exec_rel_def complete_next_def record_identity_def fmdrop_fmupd\<close>)
    next
      case False
      with 1 ttl Running rel show ?thesis
        by (intro exec_effect_unchanged)
           (auto simp: complete_script_def complete_reply_def complete_next_def record_identity_def)
    qed
  qed
qed

lemma release_script_refines:
  assumes rel: "exec_rel ks key ek attempt st" and now: "kv_now ks < 10 ^ 14"
  shows "exec_effect (release_script kv_redis key token ek (word_str attempt))
           ks key ek attempt (release_reply token (kv_now ks) st) (release_next token (kv_now ks) st)"
proof (cases st)
  case NoRecord
  with rel show ?thesis
    by (intro exec_effect_unchanged)
       (simp_all add: release_script_def release_reply_def release_next_def exec_rel_def kv_live_def)
next
  case (Done t owner done_at)
  with rel show ?thesis
    by (intro exec_effect_unchanged)
       (auto elim!: exec_rel_DoneE
         simp: release_script_def release_reply_def release_next_def record_identity_def)
next
  case (Running owner u)
  from rel [unfolded Running] show ?thesis
  proof (cases rule: exec_rel_RunningE)
    case (1 h e r)
    show ?thesis
    proof (cases "owner = token \<and> kv_now ks < u")
      case True
      with 1 now Running show ?thesis
        by (auto simp: exec_effect_def release_script_def release_reply_def release_next_def
            record_identity_def exec_rel_def)
    next
      case False
      with 1 now Running rel show ?thesis
        by (intro exec_effect_unchanged)
           (auto simp: release_script_def release_reply_def release_next_def record_identity_def)
    qed
  qed
qed

section \<open>The operations refine the machine\<close>

lemma invoke_effect:
  assumes "exec_effect m ks key ek attempt reply st'" "exec_rel ks key ek attempt st"
    and "redis_invoke op net m ks = (x, ks1)"
  shows "ks_clock ks1 = ks_clock ks"
    and "exec_rel ks1 key ek attempt st \<or> exec_rel ks1 key ek attempt st'"
    and "x = Inr v \<Longrightarrow> v = reply \<and> exec_rel ks1 key ek attempt st'"
proof -
  from assms(1) obtain ks' where ks': "m ks = (Inr reply, ks')" "exec_rel ks' key ek attempt st'"
    "ks_clock ks' = ks_clock ks"
    by (auto simp: exec_effect_def)
  have "ks1 = ks \<or> ks1 = ks'"
    using redis_invoke_state [of op net m ks] assms(3) ks'(1) by auto
  with ks' assms(2) show "ks_clock ks1 = ks_clock ks"
    "exec_rel ks1 key ek attempt st \<or> exec_rel ks1 key ek attempt st'"
    by auto
  show "x = Inr v \<Longrightarrow> v = reply \<and> exec_rel ks1 key ek attempt st'"
    using assms(3) ks' by (auto simp: redis_invoke_Inr)
qed

lemma store_ok_durations:
  assumes "store_ok store now"
  shows "duration_ms op (store_lease_ttl store) = Inr (int (as_millis (store_lease_ttl store)))"
    and "duration_ms op (running_retention store) = Inr (int (as_millis (running_retention store)))"
    and "duration_ms op (terminal_ttl store) = Inr (int (as_millis (terminal_ttl store)))"
    and "as_millis (store_lease_ttl store) \<le> as_millis (running_retention store)"
    and "as_millis (terminal_ttl store) \<le> as_millis (running_retention store)"
  using assms retention_ge [of store] retention_ge_terminal [of store]
  by (auto simp: store_ok_def duration_ms_def Let_def)

lemma ucast_of_nat_small: "n < 10 ^ 14 \<Longrightarrow> ucast (of_nat n :: u64) = (of_nat n :: u128)"
  by (simp add: unsigned_of_nat take_bit_nat_eq_self)

abbreviation claim_key where
  "claim_key store claim \<equiv> execution_record_key store (claim_execution_key claim) (claim_attempt claim)"

abbreviation lease_key where
  "lease_key store lease \<equiv> execution_record_key store (lease_execution_key lease) (lease_attempt lease)"

text \<open>What an operation leaves behind: the record of a transition that did or did not happen, with
  the reply of the transition when one arrived.\<close>

definition refined ::
  "keyspace \<Rightarrow> string \<Rightarrow> string \<Rightarrow> u32 \<Rightarrow> exec_state \<Rightarrow> exec_state \<Rightarrow> string \<Rightarrow> net
     \<Rightarrow> (coordination_error, 'a) result \<times> keyspace \<Rightarrow> (coordination_error, 'a) result \<Rightarrow> bool" where
  "refined ks key ek attempt st st' op net run expected \<longleftrightarrow>
     ks_clock (snd run) = ks_clock ks \<and>
     (exec_rel (snd run) key ek attempt st' \<and> fst run = expected \<or>
      (exec_rel (snd run) key ek attempt st \<or> exec_rel (snd run) key ek attempt st') \<and>
      ((\<exists>msg. fst run = Inl (Unavailable op msg)) \<or> fst run = Inl (Timeout op)) \<and>
      \<not> (connecting net = Delivered \<and> invoking net = Delivered))"

lemma refined_invoke:
  assumes eff: "exec_effect m ks key ek attempt reply st'" and rel: "exec_rel ks key ek attempt st"
    and k: "\<And>t. k reply t = (expected, t)"
  shows "refined ks key ek attempt st st' op net (sbind (redis_invoke op net m) k ks) expected"
proof -
  obtain x ks1 where x: "redis_invoke op net m ks = (x, ks1)" by fastforce
  note f = invoke_effect [OF eff rel x]
  show ?thesis
  proof (cases x)
    case (Inl e)
    have "\<not> (connecting net = Delivered \<and> invoking net = Delivered)"
    proof
      assume "connecting net = Delivered \<and> invoking net = Delivered"
      with eff have "\<exists>ks'. redis_invoke op net m ks = (Inr reply, ks')"
        by (auto simp: exec_effect_def redis_invoke_Inr)
      with x Inl show False by simp
    qed
    with Inl x f redis_invoke_error [of op net m ks e ks1] show ?thesis
      by (auto simp: refined_def)
  next
    case (Inr v)
    with f(3) have "v = reply" "exec_rel ks1 key ek attempt st'" by auto
    with Inr x f(1) k show ?thesis by (simp add: refined_def)
  qed
qed

lemma nat_int_diff: "nat (int a - int b) = a - b"
  by arith

lemma claim_refined:
  assumes "store_ok store (kv_now ks)" "trim (claim_execution_key claim) \<noteq> []"
    and rel: "exec_rel ks (claim_key store claim) (claim_execution_key claim) (claim_attempt claim) st"
  shows "refined ks (claim_key store claim) (claim_execution_key claim) (claim_attempt claim) st
           (claim_next uuid (kv_now ks) (as_millis (store_lease_ttl store)) st) ''execution_claim'' net
           (execution_claim kv_redis store claim uuid net ks) (Inr (claim_outcome store claim uuid (kv_now ks) st))"
proof -
  let ?now = "kv_now ks" and ?ttl = "as_millis (store_lease_ttl store)"
  let ?ret = "as_millis (running_retention store)"
  note d = store_ok_durations [OF assms(1)]
  have ttl: "0 < ?ttl" "?ttl \<le> ?ret" "?now + ?ret < 10 ^ 14" "?now + ?ttl < 10 ^ 14"
    using assms(1) d(4) by (auto simp: store_ok_def)
  have done_small: "done_at < 10 ^ 14" if "st = Done t owner done_at" for t owner done_at
    using rel that by (auto elim: exec_rel_DoneE)
  show ?thesis
    unfolding execution_claim_def Let_def
    using assms(2) d(1,2)
    apply simp
    apply (rule refined_invoke [OF claim_script_refines [OF rel ttl(1-3)] rel])
    using ttl done_small
    by (cases st) (auto simp: claim_reply_def claim_outcome_def claimed_lease_def ucast_of_nat_small
        duration_from_nonnegative_ms_def nat_int_diff Let_def simp del: of_nat_add)
qed

lemma renew_refined:
  assumes "store_ok store (kv_now ks)"
    and rel: "exec_rel ks (lease_key store lease) (lease_execution_key lease) (lease_attempt lease) st"
  shows "refined ks (lease_key store lease) (lease_execution_key lease) (lease_attempt lease) st
           (renew_next (lease_owner_token lease) (kv_now ks) (as_millis (store_lease_ttl store)) st)
           ''execution_renew'' net (execution_renew kv_redis store lease net ks)
           (renew_outcome store lease (kv_now ks) st)"
proof -
  let ?now = "kv_now ks" and ?ttl = "as_millis (store_lease_ttl store)"
  let ?ret = "as_millis (running_retention store)"
  note d = store_ok_durations [OF assms(1)]
  have ttl: "0 < ?ttl" "?ttl \<le> ?ret" "?now + ?ret < 10 ^ 14" "?now + ?ttl < 10 ^ 14"
    using assms(1) d(4) by (auto simp: store_ok_def)
  show ?thesis
    unfolding execution_renew_def Let_def
    using d(1,2)
    apply simp
    apply (rule refined_invoke [OF renew_script_refines [OF rel ttl(1-3)] rel])
    using ttl
    by (cases st) (auto simp: renew_reply_def renew_outcome_def ucast_of_nat_small simp del: of_nat_add)
qed

lemma complete_refined:
  assumes "store_ok store (kv_now ks)"
    and rel: "exec_rel ks (lease_key store lease) (lease_execution_key lease) (lease_attempt lease) st"
  shows "refined ks (lease_key store lease) (lease_execution_key lease) (lease_attempt lease) st
           (complete_next (lease_owner_token lease) outcome (kv_now ks) st)
           ''execution_complete'' net (execution_complete kv_redis store lease outcome net ks)
           (complete_outcome lease outcome (kv_now ks) st)"
proof -
  let ?now = "kv_now ks" and ?ttl = "as_millis (terminal_ttl store)"
  note d = store_ok_durations [OF assms(1)]
  have ttl: "0 < ?ttl" "?now + ?ttl < 10 ^ 14" "?now < 10 ^ 14"
    using assms(1) d(5) by (auto simp: store_ok_def)
  have done_small: "done_at < 10 ^ 14" if "st = Done t owner done_at" for t owner done_at
    using rel that by (auto elim: exec_rel_DoneE)
  show ?thesis
    unfolding execution_complete_def Let_def
    using d(3)
    apply simp
    apply (rule refined_invoke [OF complete_script_refines [OF rel ttl(1,2)] rel])
    using ttl done_small
    by (cases st) (auto simp: complete_reply_def complete_outcome_def ucast_of_nat_small)
qed

lemma release_refined:
  assumes "kv_now ks < 10 ^ 14"
    and rel: "exec_rel ks (lease_key store lease) (lease_execution_key lease) (lease_attempt lease) st"
  shows "refined ks (lease_key store lease) (lease_execution_key lease) (lease_attempt lease) st
           (release_next (lease_owner_token lease) (kv_now ks) st)
           ''execution_release'' net (execution_release kv_redis store lease net ks)
           (release_outcome lease (kv_now ks) st)"
  unfolding execution_release_def Let_def
  apply (rule refined_invoke [OF release_script_refines [OF rel assms(1)] rel])
  by (cases st) (auto simp: release_reply_def release_outcome_def)

text \<open>The same for every server.\<close>

definition server_run :: "('s \<Rightarrow> keyspace) \<Rightarrow> ('e + 'a) \<times> 's \<Rightarrow> ('e + 'a) \<times> keyspace" where
  "server_run view run = (fst run, view (snd run))"

lemma server_run_simulates: "simulates view (=) m m' \<Longrightarrow> server_run view (m s) = m' (view s)"
  using simulates_run [of view m m' s] by (simp add: server_run_def)

section \<open>Properties\<close>

text \<open>C6: Claiming refines the abstract lease machine on every Redis server: a delivered claim of a
  free or expired attempt acquires it until the server time plus the lease ttl, a claim of a
  live lease is told to wait for exactly its remaining time, and a claim of a finished attempt
  reports the recorded outcome; a lost request leaves the record as it was or as the claim
  makes it, and is always reported as an error.\<close>

theorem execution_claim_refines:
  assumes "redis_server R view" "store_ok store (kv_now (view s))"
    and "trim (claim_execution_key claim) \<noteq> []"
    and "exec_rel (view s) (claim_key store claim) (claim_execution_key claim) (claim_attempt claim) st"
  shows "refined (view s) (claim_key store claim) (claim_execution_key claim) (claim_attempt claim) st
           (claim_next uuid (kv_now (view s)) (as_millis (store_lease_ttl store)) st)
           ''execution_claim'' net (server_run view (execution_claim R store claim uuid net s))
           (Inr (claim_outcome store claim uuid (kv_now (view s)) st))"
  unfolding server_run_simulates [OF redis_server.claim_sim [OF assms(1)]]
  by (rule claim_refined [OF assms(2-4)])

text \<open>C7: Renewal, completion and release refine the abstract lease machine on every Redis server:
  only the owner of an unexpired lease extends, completes or releases it, a finished attempt
  keeps its outcome, and every other caller gets the error of the machine and changes
  nothing.\<close>

theorem execution_settlement_refines:
  assumes "redis_server R view" "store_ok store (kv_now (view s))"
    and "exec_rel (view s) (lease_key store lease) (lease_execution_key lease) (lease_attempt lease) st"
  shows "refined (view s) (lease_key store lease) (lease_execution_key lease) (lease_attempt lease) st
           (renew_next (lease_owner_token lease) (kv_now (view s)) (as_millis (store_lease_ttl store)) st)
           ''execution_renew'' net (server_run view (execution_renew R store lease net s))
           (renew_outcome store lease (kv_now (view s)) st)
       \<and> refined (view s) (lease_key store lease) (lease_execution_key lease) (lease_attempt lease) st
           (complete_next (lease_owner_token lease) outcome (kv_now (view s)) st)
           ''execution_complete'' net (server_run view (execution_complete R store lease outcome net s))
           (complete_outcome lease outcome (kv_now (view s)) st)
       \<and> refined (view s) (lease_key store lease) (lease_execution_key lease) (lease_attempt lease) st
           (release_next (lease_owner_token lease) (kv_now (view s)) st)
           ''execution_release'' net (server_run view (execution_release R store lease net s))
           (release_outcome lease (kv_now (view s)) st)"
proof -
  have "kv_now (view s) < 10 ^ 14"
    using assms(2) by (simp add: store_ok_def)
  then show ?thesis
    unfolding server_run_simulates [OF redis_server.execution_renew_sim [OF assms(1)]]
      server_run_simulates [OF redis_server.complete_sim [OF assms(1)]]
      server_run_simulates [OF redis_server.release_sim [OF assms(1)]]
    using renew_refined [OF assms(2,3)] complete_refined [OF assms(2,3)] release_refined [OF _ assms(3)]
    by blast
qed

section \<open>The event system of the workers\<close>

text \<open>The workers of one attempt: the server, and the leases (owner token and expiry) that workers
  believe to hold.  A worker that asks to complete or to release stops using its lease whatever
  the reply.  All workers are configured with the same lease ttl.\<close>

record 's lease_system =
  exec_server :: 's
  held :: "(string \<times> nat) list"

definition holds :: "(coordination_error, ClaimOutcome) result \<Rightarrow> (string \<times> nat) list" where
  "holds r = (case r of
     Inr (Acquired l) \<Rightarrow> [(lease_owner_token l, unat (lease_expires_at l))] | _ \<Rightarrow> [])"

inductive lease_step ::
  "'s redis \<Rightarrow> ('s \<Rightarrow> keyspace) \<Rightarrow> string \<Rightarrow> duration \<Rightarrow> ExecutionClaim
     \<Rightarrow> 's lease_system \<Rightarrow> 's lease_system \<Rightarrow> bool"
  for R :: "'s redis" and view :: "'s \<Rightarrow> keyspace" and pre :: string and lease :: duration
    and claim :: ExecutionClaim where
  worker_claim:
    "lease_step R view pre lease claim \<sigma> \<lparr>exec_server = s', held = holds r @ held \<sigma>\<rparr>"
    if "key_prefix store = pre" "store_lease_ttl store = lease"
      "store_ok store (kv_now (view (exec_server \<sigma>)))"
      "execution_claim R store claim uuid net (exec_server \<sigma>) = (r, s')"
| worker_renew:
    "lease_step R view pre lease claim \<sigma> \<lparr>exec_server = s', held = (case r of
        Inr l' \<Rightarrow> [(lease_owner_token l', unat (lease_expires_at l'))] | Inl _ \<Rightarrow> []) @ held \<sigma>\<rparr>"
    if "key_prefix store = pre" "store_lease_ttl store = lease"
      "store_ok store (kv_now (view (exec_server \<sigma>)))"
      "lease_execution_key l = claim_execution_key claim" "lease_attempt l = claim_attempt claim"
      "execution_renew R store l net (exec_server \<sigma>) = (r, s')"
| worker_complete:
    "lease_step R view pre lease claim \<sigma>
       \<lparr>exec_server = s', held = filter (\<lambda>(owner, _). owner \<noteq> lease_owner_token l) (held \<sigma>)\<rparr>"
    if "key_prefix store = pre" "store_ok store (kv_now (view (exec_server \<sigma>)))"
      "lease_execution_key l = claim_execution_key claim" "lease_attempt l = claim_attempt claim"
      "execution_complete R store l outcome net (exec_server \<sigma>) = (r, s')"
| worker_release:
    "lease_step R view pre lease claim \<sigma>
       \<lparr>exec_server = s', held = filter (\<lambda>(owner, _). owner \<noteq> lease_owner_token l) (held \<sigma>)\<rparr>"
    if "key_prefix store = pre" "kv_now (view (exec_server \<sigma>)) < 10 ^ 14"
      "lease_execution_key l = claim_execution_key claim" "lease_attempt l = claim_attempt claim"
      "execution_release R store l net (exec_server \<sigma>) = (r, s')"
| clock_advances: "lease_step R view pre lease claim \<sigma> (\<sigma>\<lparr>exec_server := s'\<rparr>)"
    if "view s' = kv_tick us (view (exec_server \<sigma>))"
| other_keys: "lease_step R view pre lease claim \<sigma> (\<sigma>\<lparr>exec_server := s'\<rparr>)"
    if "kv_entry (view s') (pre @ '':'' @ claim_execution_key claim @ '':attempt-'' @ word_str (claim_attempt claim))
        = kv_entry (view (exec_server \<sigma>))
            (pre @ '':'' @ claim_execution_key claim @ '':attempt-'' @ word_str (claim_attempt claim))"
      "ks_clock (view s') = ks_clock (view (exec_server \<sigma>))"

abbreviation attempt_key :: "string \<Rightarrow> ExecutionClaim \<Rightarrow> string" where
  "attempt_key pre claim \<equiv>
     pre @ '':'' @ claim_execution_key claim @ '':attempt-'' @ word_str (claim_attempt claim)"

abbreviation record_state :: "keyspace \<Rightarrow> string \<Rightarrow> ExecutionClaim \<Rightarrow> exec_state \<Rightarrow> bool" where
  "record_state ks pre claim st \<equiv>
     exec_rel ks (attempt_key pre claim) (claim_execution_key claim) (claim_attempt claim) st"

inductive lease_reachable ::
  "'s redis \<Rightarrow> ('s \<Rightarrow> keyspace) \<Rightarrow> string \<Rightarrow> duration \<Rightarrow> ExecutionClaim \<Rightarrow> 's lease_system \<Rightarrow> bool"
  for R :: "'s redis" and view :: "'s \<Rightarrow> keyspace" and pre :: string and lease :: duration
    and claim :: ExecutionClaim where
  lease_start: "kv_entry (view (exec_server \<sigma>)) (attempt_key pre claim) = None \<Longrightarrow> held \<sigma> = [] \<Longrightarrow>
    lease_reachable R view pre lease claim \<sigma>"
| lease_more: "lease_reachable R view pre lease claim \<sigma> \<Longrightarrow> lease_step R view pre lease claim \<sigma> \<sigma>' \<Longrightarrow>
    lease_reachable R view pre lease claim \<sigma>'"

text \<open>Every lease that is believed to be held and has not expired is the one in the record.\<close>

definition held_ok :: "(string \<times> nat) list \<Rightarrow> nat \<Rightarrow> nat \<Rightarrow> exec_state \<Rightarrow> bool" where
  "held_ok hs now ttl st \<longleftrightarrow>
     (\<forall>(owner, u) \<in> set hs. u \<le> now + ttl \<and> (now < u \<longrightarrow> (\<exists>u'. st = Running owner u' \<and> u \<le> u'))) \<and>
     (\<forall>owner u. st = Running owner u \<longrightarrow> u \<le> now + ttl)"

lemma held_ok_claim:
  assumes "held_ok hs now ttl st" "0 < ttl"
  shows "held_ok hs now ttl (claim_next uuid now ttl st)"
    and "claim_next uuid now ttl st = Running uuid (now + ttl) \<Longrightarrow>
         held_ok ((uuid, now + ttl) # hs) now ttl (claim_next uuid now ttl st)"
  using assms by (cases st; fastforce simp: held_ok_def claim_next_def)+

lemma held_ok_renew:
  assumes "held_ok hs now ttl st" "0 < ttl"
  shows "held_ok hs now ttl (renew_next token now ttl st)"
    and "st = Running token u \<Longrightarrow> now < u \<Longrightarrow>
         held_ok ((token, now + ttl) # hs) now ttl (renew_next token now ttl st)"
  using assms by (cases st; fastforce simp: held_ok_def renew_next_def)+

lemma held_ok_complete:
  "held_ok hs now ttl st \<Longrightarrow>
   held_ok (filter (\<lambda>(owner, _). owner \<noteq> token) hs) now ttl (complete_next token outcome now st)"
  by (cases st; fastforce simp: held_ok_def complete_next_def)

lemma held_ok_release:
  "held_ok hs now ttl st \<Longrightarrow>
   held_ok (filter (\<lambda>(owner, _). owner \<noteq> token) hs) now ttl (release_next token now st)"
  by (cases st; fastforce simp: held_ok_def release_next_def)

lemma held_ok_filter: "held_ok hs now ttl st \<Longrightarrow> held_ok (filter P hs) now ttl st"
  by (auto simp: held_ok_def)

lemma held_ok_later: "held_ok hs now ttl st \<Longrightarrow> now \<le> now' \<Longrightarrow> held_ok hs now' ttl st"
  by (fastforce simp: held_ok_def)

lemma held_ok_vanish:
  "held_ok hs now ttl (Running owner u) \<Longrightarrow> u \<le> now \<Longrightarrow> held_ok hs now ttl NoRecord"
  by (fastforce simp: held_ok_def)

lemma held_ok_done: "held_ok hs now ttl (Done t owner d) \<Longrightarrow> held_ok hs now ttl NoRecord"
  by (fastforce simp: held_ok_def)

definition lease_inv :: "('s \<Rightarrow> keyspace) \<Rightarrow> string \<Rightarrow> duration \<Rightarrow> ExecutionClaim \<Rightarrow> 's lease_system \<Rightarrow> bool"
where
  "lease_inv view pre lease claim \<sigma> \<longleftrightarrow>
     (\<exists>st. record_state (view (exec_server \<sigma>)) pre claim st \<and>
           held_ok (held \<sigma>) (kv_now (view (exec_server \<sigma>))) (as_millis lease) st)"

lemma exec_rel_cong:
  "kv_entry ks' key = kv_entry ks key \<Longrightarrow> kv_now ks' = kv_now ks \<Longrightarrow>
   exec_rel ks' key ek attempt st \<longleftrightarrow> exec_rel ks key ek attempt st"
  by (auto simp: exec_rel_def split: exec_state.splits)

lemma kv_now_clock: "ks_clock ks' = ks_clock ks \<Longrightarrow> kv_now ks' = kv_now ks"
  by (simp add: kv_now_def)

lemma exec_rel_tick:
  assumes rel: "exec_rel ks key ek attempt st" and ks': "ks' = kv_tick us ks"
  shows "exec_rel ks' key ek attempt st \<or>
         exec_rel ks' key ek attempt NoRecord \<and> (\<forall>owner u. st = Running owner u \<longrightarrow> u \<le> kv_now ks')"
proof -
  have now: "kv_now ks \<le> kv_now ks'"
    using ks' by (simp add: kv_now_def kv_tick_def div_le_mono)
  show ?thesis
  proof (cases "kv_entry ks' key")
    case None
    have "u \<le> kv_now ks'" if "st = Running owner u" for owner u
    proof -
      from rel that obtain h e where "kv_entry ks key = Some (RHash h, Some e)" "u \<le> e"
        by (auto simp: exec_rel_def)
      with None ks' show ?thesis by (auto simp: kv_entry_tick split: if_splits)
    qed
    with None show ?thesis by (auto simp: exec_rel_def)
  next
    case (Some p)
    then have "kv_entry ks' key = kv_entry ks key"
      using ks' by (auto simp: kv_entry_tick bind_eq_Some_conv split: if_splits)
    with rel now show ?thesis
      by (cases st) (fastforce simp: exec_rel_def)+
  qed
qed

lemma refined_state:
  "refined ks key ek attempt st st' op net run expected \<Longrightarrow>
     (exec_rel (snd run) key ek attempt st \<or> exec_rel (snd run) key ek attempt st') \<and>
     kv_now (snd run) = kv_now ks"
  by (auto simp: refined_def kv_now_def)

lemma refined_ok:
  "refined ks key ek attempt st st' op net run expected \<Longrightarrow> fst run = Inr x \<Longrightarrow>
     expected = Inr x \<and> exec_rel (snd run) key ek attempt st'"
  by (auto simp: refined_def)

lemma claim_outcome_acquired:
  assumes "claim_outcome store claim uuid now st = Acquired l" "store_ok store now"
  shows "claim_next uuid now (as_millis (store_lease_ttl store)) st
           = Running uuid (now + as_millis (store_lease_ttl store))"
    and "lease_owner_token l = uuid"
    and "unat (lease_expires_at l) = now + as_millis (store_lease_ttl store)"
proof -
  have small: "now + as_millis (store_lease_ttl store) < 10 ^ 14"
    using assms(2) store_ok_durations(4) [OF assms(2)] by (auto simp: store_ok_def)
  show "claim_next uuid now (as_millis (store_lease_ttl store)) st
           = Running uuid (now + as_millis (store_lease_ttl store))"
    using assms(1) by (cases st) (auto simp: claim_outcome_def claim_next_def Let_def split: if_splits)
  have "l = claimed_lease store claim uuid (now + as_millis (store_lease_ttl store)) (lease_recovered l)"
    using assms(1) by (cases st) (auto simp: claim_outcome_def claimed_lease_def Let_def split: if_splits)
  then have "lease_owner_token l = uuid \<and>
      lease_expires_at l = of_nat (now + as_millis (store_lease_ttl store))"
    by (metis ExecutionLease.select_convs(3,4) claimed_lease_def)
  with small show "lease_owner_token l = uuid"
    "unat (lease_expires_at l) = now + as_millis (store_lease_ttl store)"
    by (simp_all add: unat_of_nat del: of_nat_add)
qed

lemma renew_outcome_ok:
  assumes "renew_outcome store lease now st = Inr l" "store_ok store now"
  shows "\<exists>u. st = Running (lease_owner_token lease) u \<and> now < u"
    and "lease_owner_token l = lease_owner_token lease"
    and "unat (lease_expires_at l) = now + as_millis (store_lease_ttl store)"
proof -
  have small: "now + as_millis (store_lease_ttl store) < 10 ^ 14"
    using assms(2) store_ok_durations(4) [OF assms(2)] by (auto simp: store_ok_def)
  show "\<exists>u. st = Running (lease_owner_token lease) u \<and> now < u"
    "lease_owner_token l = lease_owner_token lease"
    "unat (lease_expires_at l) = now + as_millis (store_lease_ttl store)"
    using assms(1) small
    by (auto simp: renew_outcome_def unat_of_nat simp del: of_nat_add split: exec_state.splits if_splits)
qed

lemma attempt_key_record: "key_prefix store = pre \<Longrightarrow>
    execution_record_key store (claim_execution_key claim) (claim_attempt claim) = attempt_key pre claim"
  by (simp add: execution_record_key_def)

lemma store_ok_ttl: "store_ok store now \<Longrightarrow> 0 < as_millis (store_lease_ttl store)"
  by (simp add: store_ok_def)

context redis_server
begin

lemma lease_inv_claim:
  assumes inv: "record_state (view s) pre claim st" "held_ok hs (kv_now (view s)) (as_millis lease) st"
    and store: "key_prefix store = pre" "store_lease_ttl store = lease" "store_ok store (kv_now (view s))"
    and step: "execution_claim R store claim uuid net s = (r, s')"
  shows "lease_inv view pre lease claim \<lparr>exec_server = s', held = holds r @ hs\<rparr>"
proof -
  let ?ks = "view s"
  note key = attempt_key_record [OF store(1), of claim]
  have run: "execution_claim kv_redis store claim uuid net ?ks = (r, view s')"
    using server_run_simulates [OF claim_sim, of store claim uuid net s] step
    by (simp add: server_run_def)
  show ?thesis
  proof (cases "trim (claim_execution_key claim) = []")
    case True
    with run inv show ?thesis
      by (auto simp: lease_inv_def execution_claim_def Let_def holds_def)
  next
    case False
    let ?st' = "claim_next uuid (kv_now ?ks) (as_millis lease) st"
    note ref = claim_refined [OF store(3) False, of st uuid net, unfolded key run store(2), OF inv(1)]
    note ttl = store_ok_ttl [OF store(3), unfolded store(2)]
    show ?thesis
    proof (cases "\<exists>l. r = Inr (Acquired l)")
      case True
      then obtain l where l: "r = Inr (Acquired l)" ..
      with refined_ok [OF ref, of "Acquired l"]
      have out: "claim_outcome store claim uuid (kv_now ?ks) st = Acquired l"
        and rel: "record_state (view s') pre claim ?st'"
        by auto
      note eqs = claim_outcome_acquired [OF out store(3), unfolded store(2)]
      have "held_ok (holds r @ hs) (kv_now ?ks) (as_millis lease) ?st'"
        using held_ok_claim(2) [OF inv(2) ttl eqs(1)] eqs l by (simp add: holds_def)
      with rel refined_state [OF ref] show ?thesis by (auto simp: lease_inv_def)
    next
      case False
      then have "holds r = []" by (auto simp: holds_def split: sum.splits ClaimOutcome.splits)
      with refined_state [OF ref] inv(2) held_ok_claim(1) [OF inv(2) ttl] show ?thesis
        by (auto simp: lease_inv_def)
    qed
  qed
qed

lemma lease_inv_renew:
  assumes inv: "record_state (view s) pre claim st" "held_ok hs (kv_now (view s)) (as_millis lease) st"
    and store: "key_prefix store = pre" "store_lease_ttl store = lease" "store_ok store (kv_now (view s))"
    and l: "lease_execution_key l = claim_execution_key claim" "lease_attempt l = claim_attempt claim"
    and step: "execution_renew R store l net s = (r, s')"
  shows "lease_inv view pre lease claim \<lparr>exec_server = s', held = (case r of
           Inr l' \<Rightarrow> [(lease_owner_token l', unat (lease_expires_at l'))] | Inl _ \<Rightarrow> []) @ hs\<rparr>"
proof -
  let ?ks = "view s" and ?st' = "renew_next (lease_owner_token l) (kv_now (view s)) (as_millis lease) st"
  note key = attempt_key_record [OF store(1), of claim]
  have run: "execution_renew kv_redis store l net ?ks = (r, view s')"
    using server_run_simulates [OF execution_renew_sim, of store l net s] step
    by (simp add: server_run_def)
  note ref = renew_refined [OF store(3), of l st net, unfolded store(2) l key run, OF inv(1)]
  note ttl = store_ok_ttl [OF store(3), unfolded store(2)]
  show ?thesis
  proof (cases r)
    case (Inr l')
    with refined_ok [OF ref, of l']
    have out: "renew_outcome store l (kv_now ?ks) st = Inr l'"
      and rel: "record_state (view s') pre claim ?st'"
      by auto
    note eqs = renew_outcome_ok [OF out store(3), unfolded store(2)]
    from eqs(1) obtain u where "st = Running (lease_owner_token l) u" "kv_now ?ks < u" by auto
    with held_ok_renew(2) [OF inv(2) ttl] rel refined_state [OF ref] eqs Inr show ?thesis
      by (auto simp: lease_inv_def)
  next
    case (Inl e)
    with refined_state [OF ref] inv(2) held_ok_renew(1) [OF inv(2) ttl] show ?thesis
      by (auto simp: lease_inv_def)
  qed
qed

lemma lease_inv_complete:
  assumes inv: "record_state (view s) pre claim st" "held_ok hs (kv_now (view s)) (as_millis lease) st"
    and store: "key_prefix store = pre" "store_ok store (kv_now (view s))"
    and l: "lease_execution_key l = claim_execution_key claim" "lease_attempt l = claim_attempt claim"
    and step: "execution_complete R store l outcome net s = (r, s')"
  shows "lease_inv view pre lease claim
           \<lparr>exec_server = s', held = filter (\<lambda>(owner, _). owner \<noteq> lease_owner_token l) hs\<rparr>"
proof -
  have run: "execution_complete kv_redis store l outcome net (view s) = (r, view s')"
    using server_run_simulates [OF complete_sim, of store l outcome net s] step
    by (simp add: server_run_def)
  note ref = complete_refined [OF store(2), of l st outcome net,
      unfolded l attempt_key_record [OF store(1), of claim] run, OF inv(1)]
  from refined_state [OF ref] held_ok_complete [OF inv(2)] held_ok_filter [OF inv(2)]
  show ?thesis by (auto simp: lease_inv_def)
qed

lemma lease_inv_release:
  assumes inv: "record_state (view s) pre claim st" "held_ok hs (kv_now (view s)) (as_millis lease) st"
    and store: "key_prefix store = pre" "kv_now (view s) < 10 ^ 14"
    and l: "lease_execution_key l = claim_execution_key claim" "lease_attempt l = claim_attempt claim"
    and step: "execution_release R store l net s = (r, s')"
  shows "lease_inv view pre lease claim
           \<lparr>exec_server = s', held = filter (\<lambda>(owner, _). owner \<noteq> lease_owner_token l) hs\<rparr>"
proof -
  have run: "execution_release kv_redis store l net (view s) = (r, view s')"
    using server_run_simulates [OF release_sim, of store l net s] step
    by (simp add: server_run_def)
  note ref = release_refined [OF store(2), of store l st net,
      unfolded l attempt_key_record [OF store(1), of claim] run, OF inv(1)]
  from refined_state [OF ref] held_ok_release [OF inv(2)] held_ok_filter [OF inv(2)]
  show ?thesis by (auto simp: lease_inv_def)
qed

lemma lease_inv_clock:
  assumes inv: "record_state (view s) pre claim st" "held_ok hs (kv_now (view s)) (as_millis lease) st"
    and step: "view s' = kv_tick us (view s)"
  shows "lease_inv view pre lease claim \<lparr>exec_server = s', held = hs\<rparr>"
proof -
  have "kv_now (view s) \<le> kv_now (view s')"
    using step by (simp add: kv_now_def kv_tick_def div_le_mono)
  note later = held_ok_later [OF inv(2) this]
  from exec_rel_tick [OF inv(1) step] show ?thesis
  proof
    assume "record_state (view s') pre claim st"
    with later show ?thesis by (auto simp: lease_inv_def)
  next
    assume gone: "record_state (view s') pre claim NoRecord \<and>
                  (\<forall>owner u. st = Running owner u \<longrightarrow> u \<le> kv_now (view s'))"
    then have "held_ok hs (kv_now (view s')) (as_millis lease) NoRecord"
      using later by (cases st) (auto intro: held_ok_vanish held_ok_done)
    with gone show ?thesis by (auto simp: lease_inv_def)
  qed
qed

lemma lease_inv_step:
  assumes "lease_step R view pre lease claim \<sigma> \<sigma>'" "lease_inv view pre lease claim \<sigma>"
  shows "lease_inv view pre lease claim \<sigma>'"
proof -
  let ?ks = "view (exec_server \<sigma>)"
  from assms(2) obtain st where st: "record_state ?ks pre claim st"
    and ok: "held_ok (held \<sigma>) (kv_now ?ks) (as_millis lease) st"
    by (auto simp: lease_inv_def)
  from assms(1) show ?thesis
  proof cases
    case (other_keys s')
    with st ok exec_rel_cong [of "view s'" "attempt_key pre claim" ?ks] kv_now_clock [of "view s'" ?ks]
    show ?thesis by (auto simp: lease_inv_def)
  next
    case (clock_advances s' us)
    with lease_inv_clock [OF st ok clock_advances(2)] show ?thesis by (simp add: lease_inv_def)
  next
    case (worker_claim store uuid net r s')
    with lease_inv_claim [OF st ok worker_claim(2-5)] show ?thesis by simp
  next
    case (worker_renew store l net r s')
    with lease_inv_renew [OF st ok worker_renew(2-7)] show ?thesis by simp
  next
    case (worker_complete store l outcome net r s')
    with lease_inv_complete [OF st ok worker_complete(2-6)] show ?thesis by simp
  next
    case (worker_release store l net r s')
    with lease_inv_release [OF st ok worker_release(2-6)] show ?thesis by simp
  qed
qed

lemma lease_inv_reachable:
  "lease_reachable R view pre lease claim \<sigma> \<Longrightarrow> lease_inv view pre lease claim \<sigma>"
proof (induction rule: lease_reachable.induct)
  case (lease_start \<sigma>)
  then show ?case
    by (auto simp: lease_inv_def exec_rel_def held_ok_def intro!: exI [of _ NoRecord])
qed (auto intro: lease_inv_step)

end

lemma held_ok_running:
  "held_ok hs now ttl st \<Longrightarrow> (owner, u) \<in> set hs \<Longrightarrow> now < u \<Longrightarrow> \<exists>u'. st = Running owner u'"
  by (auto simp: held_ok_def)

text \<open>C1: Mutual exclusion: however workers claim, renew, complete, release, crash or lose replies,
  two leases of one attempt that are still in use and have not expired by the server clock
  have the same owner token.\<close>

theorem execution_mutual_exclusion:
  assumes "redis_server R view" "lease_reachable R view pre lease claim \<sigma>"
    and "(owner1, u1) \<in> set (held \<sigma>)" "(owner2, u2) \<in> set (held \<sigma>)"
    and "kv_now (view (exec_server \<sigma>)) < u1" "kv_now (view (exec_server \<sigma>)) < u2"
  shows "owner1 = owner2"
proof -
  obtain st where ok: "held_ok (held \<sigma>) (kv_now (view (exec_server \<sigma>))) (as_millis lease) st"
    using redis_server.lease_inv_reachable [OF assms(1,2)] by (auto simp: lease_inv_def)
  from held_ok_running [OF ok assms(3,5)] held_ok_running [OF ok assms(4,6)] show ?thesis by auto
qed

lemma next_done [simp]:
  "claim_next uuid now ttl (Done t owner d) = Done t owner d"
  "renew_next token now ttl (Done t owner d) = Done t owner d"
  "complete_next token out now (Done t owner d) = Done t owner d"
  "release_next token now (Done t owner d) = Done t owner d"
  by (simp_all add: claim_next_def renew_next_def complete_next_def release_next_def)

context redis_server
begin

lemma done_claim:
  assumes "record_state (view s) pre claim (Done t owner d)"
    and "key_prefix store = pre" "store_ok store (kv_now (view s))"
    and "execution_claim R store claim uuid net s = (r, s')"
  shows "record_state (view s') pre claim (Done t owner d)"
proof (cases "trim (claim_execution_key claim) = []")
  case True
  with assms(1,4) show ?thesis by (auto simp: execution_claim_def Let_def)
next
  case False
  have "execution_claim kv_redis store claim uuid net (view s) = (r, view s')"
    using server_run_simulates [OF claim_sim, of store claim uuid net s] assms(4)
    by (simp add: server_run_def)
  with refined_state [OF claim_refined [OF assms(3) False, of "Done t owner d" uuid net]] assms(1,2)
  show ?thesis by (simp add: attempt_key_record)
qed

lemma done_settle:
  assumes rel: "record_state (view s) pre claim (Done t owner d)"
    and store: "key_prefix store = pre"
    and l: "lease_execution_key l = claim_execution_key claim" "lease_attempt l = claim_attempt claim"
  shows "store_ok store (kv_now (view s)) \<Longrightarrow> execution_renew R store l net s = (r1, s1) \<Longrightarrow>
           record_state (view s1) pre claim (Done t owner d)"
    and "store_ok store (kv_now (view s)) \<Longrightarrow> execution_complete R store l outcome net s = (r2, s2) \<Longrightarrow>
           record_state (view s2) pre claim (Done t owner d)"
    and "kv_now (view s) < 10 ^ 14 \<Longrightarrow> execution_release R store l net s = (r3, s3) \<Longrightarrow>
           record_state (view s3) pre claim (Done t owner d)"
proof -
  let ?d = "Done t owner d"
  note facts = l attempt_key_record [OF store, of claim]
  show "record_state (view s1) pre claim ?d"
    if "store_ok store (kv_now (view s))" "execution_renew R store l net s = (r1, s1)"
    using refined_state [OF renew_refined [OF that(1), of l ?d net, unfolded facts, OF rel]]
      server_run_simulates [OF execution_renew_sim, of store l net s, symmetric] that(2)
    by (simp add: server_run_def)
  show "record_state (view s2) pre claim ?d"
    if "store_ok store (kv_now (view s))" "execution_complete R store l outcome net s = (r2, s2)"
    using refined_state [OF complete_refined [OF that(1), of l ?d outcome net, unfolded facts, OF rel]]
      server_run_simulates [OF complete_sim, of store l outcome net s, symmetric] that(2)
    by (simp add: server_run_def)
  show "record_state (view s3) pre claim ?d"
    if "kv_now (view s) < 10 ^ 14" "execution_release R store l net s = (r3, s3)"
    using refined_state [OF release_refined [OF that(1), of store l ?d net, unfolded facts, OF rel]]
      server_run_simulates [OF release_sim, of store l net s, symmetric] that(2)
    by (simp add: server_run_def)
qed

lemma done_step:
  assumes "lease_step R view pre lease claim \<sigma> \<sigma>'"
    and rel: "record_state (view (exec_server \<sigma>)) pre claim (Done t owner d)"
    and live: "kv_entry (view (exec_server \<sigma>')) (attempt_key pre claim) \<noteq> None"
  shows "record_state (view (exec_server \<sigma>')) pre claim (Done t owner d)"
  using assms(1)
proof cases
  case (worker_claim store uuid net r s')
  with done_claim [OF rel worker_claim(2,4,5)] show ?thesis by simp
next
  case (worker_renew store l net r s')
  with done_settle(1) [OF rel worker_renew(2,5,6,4,7)] show ?thesis by simp
next
  case (worker_complete store l outcome net r s')
  with done_settle(2) [OF rel worker_complete(2,4,5,3,6)] show ?thesis by simp
next
  case (worker_release store l net r s')
  with done_settle(3) [OF rel worker_release(2,4,5,3,6)] show ?thesis by simp
next
  case (clock_advances s' us)
  with exec_rel_tick [OF rel clock_advances(2)] live show ?thesis by (auto simp: exec_rel_def)
next
  case (other_keys s')
  with rel exec_rel_cong [of "view s'" "attempt_key pre claim" "view (exec_server \<sigma>)"]
    kv_now_clock [of "view s'" "view (exec_server \<sigma>)"]
  show ?thesis by auto
qed

end

text \<open>C2: Terminal outcomes are immutable: once an attempt has a recorded outcome, no step of any
  worker changes the outcome, its owner or its completion time; the record can only disappear
  when its retention has passed.\<close>

theorem terminal_outcome_immutable:
  assumes "redis_server R view" "lease_step R view pre lease claim \<sigma> \<sigma>'"
    and "record_state (view (exec_server \<sigma>)) pre claim (Done t owner d)"
    and "kv_entry (view (exec_server \<sigma>')) (attempt_key pre claim) \<noteq> None"
  shows "record_state (view (exec_server \<sigma>')) pre claim (Done t owner d)"
  by (rule redis_server.done_step [OF assms])

section \<open>A concrete attempt\<close>

definition demo_store :: RedisIdempotencyStore where
  "demo_store = idempotency_with_timings ''exec'' (from_secs 30) (from_secs 3600)"

definition demo_claim :: ExecutionClaim where
  "demo_claim = \<lparr>claim_execution_key = ''run'', claim_attempt = 0\<rparr>"

lemma demo_store_ok: "store_ok demo_store 0"
  by (simp add: store_ok_def demo_store_def idempotency_with_timings_def running_retention_def
      as_millis_def from_secs_def max_duration_def duration_saturating_mul_def)

lemma demo_claim_key: "trim (claim_execution_key demo_claim) \<noteq> []"
  by (rule trim_not_empty [of "CHR ''r''"]) (simp_all add: demo_claim_def graphic_def)

lemma demo_simps: "key_prefix demo_store = ''exec''" "as_millis (store_lease_ttl demo_store) = 30000"
  by (simp_all add: demo_store_def idempotency_with_timings_def as_millis_def from_secs_def)

lemma empty_no_record [simp]: "exec_rel empty_server key ek attempt NoRecord"
  by (simp add: exec_rel_def)

lemma refined_delivered:
  "refined ks key ek attempt st st' op reliable run expected \<Longrightarrow>
     fst run = expected \<and> exec_rel (snd run) key ek attempt st' \<and> ks_clock (snd run) = ks_clock ks"
  by (auto simp: refined_def)

theorem execution_claim_refines_witness:
  "refined empty_server (claim_key demo_store demo_claim) ''run'' 0 NoRecord
     (Running ''u'' 30000) ''execution_claim'' reliable
     (server_run id (execution_claim kv_redis demo_store demo_claim ''u'' reliable empty_server))
     (Inr (Acquired (claimed_lease demo_store demo_claim ''u'' 30000 False)))"
  using execution_claim_refines [OF kv.redis_server_axioms, of demo_store empty_server demo_claim NoRecord
      "''u''" reliable] demo_store_ok demo_claim_key
  by (simp add: demo_simps(2) claim_next_def claim_outcome_def
      Let_def demo_claim_def)

lemma demo_claimed:
  obtains l :: ExecutionLease and ks where
    "execution_claim kv_redis demo_store demo_claim ''u'' reliable empty_server = (Inr (Acquired l), ks)"
    "lease_execution_key l = claim_execution_key demo_claim" "lease_attempt l = claim_attempt demo_claim"
    "lease_owner_token l = ''u''" "unat (lease_expires_at l) = 30000"
    "record_state ks ''exec'' demo_claim (Running ''u'' 30000)" "kv_now ks = 0"
proof -
  let ?run = "execution_claim kv_redis demo_store demo_claim ''u'' reliable empty_server"
  let ?l = "claimed_lease demo_store demo_claim ''u'' 30000 False"
  have "refined empty_server (claim_key demo_store demo_claim) (claim_execution_key demo_claim)
      (claim_attempt demo_claim) NoRecord (Running ''u'' 30000) ''execution_claim'' reliable ?run (Inr (Acquired ?l))"
    using claim_refined [of demo_store empty_server demo_claim NoRecord "''u''" reliable]
      demo_store_ok demo_claim_key
    by (simp add: demo_simps(2) claim_next_def claim_outcome_def Let_def)
  from refined_delivered [OF this]
  have run: "?run = (Inr (Acquired ?l), snd ?run)"
    and rel: "record_state (snd ?run) ''exec'' demo_claim (Running ''u'' 30000)"
    and "ks_clock (snd ?run) = 0"
    by (simp_all add: attempt_key_record [OF demo_simps(1)] prod_eq_iff)
  then have "kv_now (snd ?run) = 0" by (simp add: kv_now_def)
  with run rel show thesis
    by (intro that [of ?l "snd ?run"]) (simp_all add: claimed_lease_def)
qed

theorem execution_settlement_refines_witness:
  "\<exists>(l :: ExecutionLease) ks. refined ks (lease_key demo_store l) (lease_execution_key l) (lease_attempt l)
            (Running ''u'' 30000) (Done ResultPublished ''u'' 0) ''execution_complete'' reliable
            (server_run id (execution_complete kv_redis demo_store l ResultPublished reliable ks))
            (Inr \<lparr>completed_outcome = ResultPublished, completed_at_unix_ms = 0\<rparr>)"
proof -
  obtain l :: ExecutionLease and ks where l: "lease_execution_key l = claim_execution_key demo_claim"
    "lease_attempt l = claim_attempt demo_claim" "lease_owner_token l = ''u''"
    and ks: "record_state ks ''exec'' demo_claim (Running ''u'' 30000)" "kv_now ks = 0"
    by (rule demo_claimed) (rule that)
  have "exec_rel ks (lease_key demo_store l) (lease_execution_key l) (lease_attempt l) (Running ''u'' 30000)"
    using ks(1) l by (simp add: attempt_key_record [OF demo_simps(1)])
  from execution_settlement_refines [OF kv.redis_server_axioms, of demo_store ks l "Running ''u'' 30000"
      reliable ResultPublished] this ks(2) demo_store_ok l(3)
  show ?thesis
    by (intro exI [of _ l] exI [of _ ks]) (simp add: complete_next_def complete_outcome_def)
qed

lemma demo_reachable:
  obtains \<sigma> and l :: ExecutionLease where "lease_reachable kv_redis id ''exec'' (store_lease_ttl demo_store) demo_claim \<sigma>"
    "held \<sigma> = [(''u'', 30000)]" "record_state (exec_server \<sigma>) ''exec'' demo_claim (Running ''u'' 30000)"
    "kv_now (exec_server \<sigma>) = 0" "lease_execution_key l = claim_execution_key demo_claim"
    "lease_attempt l = claim_attempt demo_claim" "lease_owner_token l = ''u''"
proof -
  obtain l :: ExecutionLease and ks where c: "execution_claim kv_redis demo_store demo_claim ''u'' reliable empty_server = (Inr (Acquired l), ks)"
    and l: "lease_execution_key l = claim_execution_key demo_claim"
    "lease_attempt l = claim_attempt demo_claim" "lease_owner_token l = ''u''" "unat (lease_expires_at l) = 30000"
    and ks: "record_state ks ''exec'' demo_claim (Running ''u'' 30000)" "kv_now ks = 0"
    by (rule demo_claimed) (rule that)
  let ?s0 = "\<lparr>exec_server = empty_server, held = []\<rparr>"
  have r0: "lease_reachable kv_redis id ''exec'' (store_lease_ttl demo_store) demo_claim ?s0"
    by (rule lease_start) simp_all
  have "lease_step kv_redis id ''exec'' (store_lease_ttl demo_store) demo_claim ?s0
          \<lparr>exec_server = ks, held = holds (Inr (Acquired l)) @ held ?s0\<rparr>"
    by (rule worker_claim [where store = demo_store and uuid = "''u''" and net = reliable]) (simp_all add: demo_simps demo_store_ok c)
  from lease_more [OF r0 this] l ks show thesis
    by (intro that [of "\<lparr>exec_server = ks, held = [(''u'', 30000)]\<rparr>" l]) (simp_all add: holds_def)
qed

theorem execution_mutual_exclusion_witness:
  "\<exists>\<sigma>. lease_reachable kv_redis id ''exec'' (store_lease_ttl demo_store) demo_claim \<sigma> \<and>
       (''u'', 30000) \<in> set (held \<sigma>) \<and> kv_now (exec_server \<sigma>) < 30000 \<and> ''u'' = ''u''"
proof -
  obtain \<sigma> where s: "lease_reachable kv_redis id ''exec'' (store_lease_ttl demo_store) demo_claim \<sigma>"
    "held \<sigma> = [(''u'', 30000)]" "kv_now (exec_server \<sigma>) = 0"
    by (rule demo_reachable) (rule that)
  have "''u'' = ''u''"
    using execution_mutual_exclusion [OF kv.redis_server_axioms s(1), of "''u''" 30000 "''u''" 30000] s by simp
  with s show ?thesis by (intro exI [of _ \<sigma>]) simp
qed

theorem terminal_outcome_immutable_witness:
  "\<exists>\<sigma> \<sigma>'. lease_step kv_redis id ''exec'' (store_lease_ttl demo_store) demo_claim \<sigma> \<sigma>' \<and>
     record_state (exec_server \<sigma>) ''exec'' demo_claim (Done ResultPublished ''u'' 0) \<and>
     record_state (exec_server \<sigma>') ''exec'' demo_claim (Done ResultPublished ''u'' 0)"
proof -
  obtain \<sigma> :: "keyspace lease_system" and l :: ExecutionLease where s: "record_state (exec_server \<sigma>) ''exec'' demo_claim (Running ''u'' 30000)"
    "kv_now (exec_server \<sigma>) = 0" "lease_execution_key l = claim_execution_key demo_claim"
    "lease_attempt l = claim_attempt demo_claim" "lease_owner_token l = ''u''"
    by (rule demo_reachable) (rule that)
  let ?ks = "snd (execution_complete kv_redis demo_store l ResultPublished reliable (exec_server \<sigma>))"
  have "store_ok demo_store (kv_now (exec_server \<sigma>))"
    using s(2) demo_store_ok by simp
  from refined_delivered [OF complete_refined [OF this, of l "Running ''u'' 30000" ResultPublished reliable,
        unfolded s(3,4) attempt_key_record [OF demo_simps(1)], OF s(1)]] s(2,5)
  have rel: "record_state ?ks ''exec'' demo_claim (Done ResultPublished ''u'' 0)"
    and "ks_clock ?ks = ks_clock (exec_server \<sigma>)"
    by (simp_all add: complete_next_def)
  let ?\<sigma>1 = "\<lparr>exec_server = ?ks, held = []\<rparr>"
  have step: "lease_step kv_redis id ''exec'' (store_lease_ttl demo_store) demo_claim ?\<sigma>1
                (?\<sigma>1\<lparr>exec_server := kv_tick 0 ?ks\<rparr>)"
    by (rule clock_advances) simp
  have "kv_tick 0 ?ks = ?ks" by (simp add: kv_tick_def)
  moreover have "kv_entry ?ks (attempt_key ''exec'' demo_claim) \<noteq> None"
    using rel by (auto simp: exec_rel_def)
  ultimately have "record_state (exec_server (?\<sigma>1\<lparr>exec_server := kv_tick 0 ?ks\<rparr>)) ''exec'' demo_claim
                     (Done ResultPublished ''u'' 0)"
    using terminal_outcome_immutable [OF kv.redis_server_axioms step, of ResultPublished "''u''" 0] rel by simp
  with step rel show ?thesis by (intro exI [of _ ?\<sigma>1] exI) (auto simp only: lease_system.simps)
qed

end
