(* ===== verification/Dispatch_Ledger.thy ===== *)
theory Dispatch_Ledger
  imports Execution_Lease
begin

text \<open>
  The dispatch ledger (\<open>RedisDueStateStore\<close> in \<open>infrastructure/redis/mod.rs\<close>): one schedule
  record per scenario that survives leader changes.  A leader prepares the due window, publishes
  its missing slices, acknowledges each slice, and the last acknowledgement closes the window
  and sets the next due time.  Registration of a run for aggregation is part of the same store.

  The first part translates the scripts and operations.  The second part is the abstract
  ledger and the refinement of the scripts to it.
\<close>

section \<open>Operations\<close>

record AggregationRegistrationConfig =
  reg_key_prefix :: string
  reg_partial_timeout :: duration
  reg_retention :: duration
  reg_max_active_runs :: usize

record RedisDueStateStore =
  schedule_prefix :: string
  aggregation_registration :: "AggregationRegistrationConfig option"

definition MAX_DISPATCH_SLICES :: u32 where
  "MAX_DISPATCH_SLICES = 4096"

definition schedule_key :: "RedisDueStateStore \<Rightarrow> string \<Rightarrow> string" where
  "schedule_key store scenario_id = schedule_prefix store @ '':'' @ scenario_id"

fun join_with :: "char \<Rightarrow> string list \<Rightarrow> string" where
  "join_with sep [] = []"
| "join_with sep [w] = w"
| "join_with sep (w # ws) = w @ sep # join_with sep ws"

fun missing_slice_loop ::
  "string \<Rightarrow> u32 \<Rightarrow> u32 list \<Rightarrow> string list \<Rightarrow> (coordination_error, u32 list) result" where
  "missing_slice_loop operation total_slices slices [] = Inr slices"
| "missing_slice_loop operation total_slices slices (value # values) =
     (case parse_word value of
        None \<Rightarrow> Inl (InvalidState operation
                  (''invalid missing-slice index '' @ [CHR 0x27] @ value @ [CHR 0x27]))
      | Some idx \<Rightarrow>
          if idx \<ge> total_slices \<or> (slices \<noteq> [] \<and> last slices \<ge> idx)
          then Inl (InvalidState operation
                 ''missing-slice indexes are out of range or not strictly ordered'')
          else missing_slice_loop operation total_slices (slices @ [idx]) values)"

definition parse_missing_slices :: "string \<Rightarrow> string \<Rightarrow> u32 \<Rightarrow> (coordination_error, u32 list) result" where
  "parse_missing_slices operation raw total_slices =
     (if raw = [] then Inr []
      else missing_slice_loop operation total_slices [] (split_on (CHR '','') raw))"

definition leader_is_current :: "'s redis \<Rightarrow> string \<Rightarrow> string \<Rightarrow> string \<Rightarrow> ('s, bool) script" where
  "leader_is_current R key1 argv1 argv2 =
     sbind (exists_key R key1) (\<lambda>present.
     if present = 0 then sreturn False
     else sbind (lua_reply (pttl R key1)) (\<lambda>remaining.
     if remaining \<le> 0 then sreturn False
     else sbind (hget R key1 ''owner'') (\<lambda>owner.
     if owner \<noteq> Some argv1 then sreturn False
     else sbind (hget R key1 ''fence'') (\<lambda>fence. sreturn (fence = Some argv2)))))"

definition lua_optional :: "string option \<Rightarrow> int option" where
  "lua_optional v = Option.bind v lua_tonumber"

definition ack_field :: "nat \<Rightarrow> string" where
  "ack_field i = ''ack:'' @ lua_tostring (int i)"

text \<open>The stored window differs from the dispatch specification in one of five fields.\<close>

definition window_changed ::
  "'s redis \<Rightarrow> string \<Rightarrow> string \<Rightarrow> int option \<Rightarrow> string \<Rightarrow> int option \<Rightarrow> string \<Rightarrow> ('s, bool) script" where
  "window_changed R key2 contract_version total_slices repeat_kind repeat_ms plan =
     sbind (hget R key2 ''active_contract_version'') (\<lambda>v.
     if v \<noteq> Some contract_version then sreturn True
     else sbind (hget R key2 ''active_total_slices'') (\<lambda>n.
     if lua_optional n \<noteq> total_slices then sreturn True
     else sbind (hget R key2 ''active_repeat_kind'') (\<lambda>kind.
     if kind \<noteq> Some repeat_kind then sreturn True
     else sbind (hget R key2 ''active_repeat_ms'') (\<lambda>ms.
     if lua_optional ms \<noteq> repeat_ms then sreturn True
     else sbind (hget R key2 ''active_plan_fingerprint'') (\<lambda>p. sreturn (p \<noteq> Some plan))))))"

definition collect_missing ::
  "'s redis \<Rightarrow> string \<Rightarrow> nat list \<Rightarrow> ('s, nat list \<times> nat) script" where
  "collect_missing R key2 indexes =
     sfold (\<lambda>i (missing, acked).
       sbind (hget R key2 (ack_field i)) (\<lambda>ack.
       if ack = Some ''1'' then sreturn (missing, Suc acked) else sreturn (missing @ [i], acked)))
       indexes ([], 0)"

definition slice_names :: "nat list \<Rightarrow> string" where
  "slice_names is = join_with (CHR '','') (map (\<lambda>i. lua_tostring (int i)) is)"

definition prepare_script ::
  "'s redis \<Rightarrow> rkey \<Rightarrow> rkey \<Rightarrow> rarg \<Rightarrow> rarg \<Rightarrow> rarg \<Rightarrow> rarg \<Rightarrow> rarg \<Rightarrow> rarg \<Rightarrow> rarg \<Rightarrow> rarg
     \<Rightarrow> ('s, int \<times> string \<times> int \<times> string \<times> int \<times> string) script" where
  "prepare_script R key1 key2 argv1 argv2 scenario_id contract_version argv5 repeat_kind argv7 argv8 =
     sbind (leader_is_current R key1 argv1 argv2) (\<lambda>current.
     if \<not> current then sreturn (4, '''', 0, '''', 0, ''leader lease is stale'')
     else
       let total_slices = lua_tonumber argv5; repeat_ms = lua_tonumber argv7 in
       sbind (hget R key2 ''active_window_id'') (\<lambda>active_window.
       case active_window of
         Some active \<Rightarrow>
           sbind (window_changed R key2 contract_version total_slices repeat_kind repeat_ms argv8) (\<lambda>changed.
           if changed
           then sreturn (5, '''', 0, '''', 0, ''active window metadata does not match current dispatch spec'')
           else
             sbind (lua_need total_slices) (\<lambda>total.
             sbind (hget R key2 ''active_scheduled_at'') (\<lambda>scheduled.
             sbind (collect_missing R key2 [0..<nat total]) (\<lambda>(missing, acked).
             sbind (hget R key2 ''active_ack_count'') (\<lambda>count.
             if lua_tonumber (case count of None \<Rightarrow> ''-1'' | Some c \<Rightarrow> c) \<noteq> Some (int acked)
             then sreturn (5, '''', 0, '''', 0, ''active acknowledgement count is inconsistent'')
             else
               sbind (lua_need (lua_optional scheduled)) (\<lambda>scheduled_at.
               sreturn (1, active, scheduled_at, slice_names missing, 0, '''')))))))
       | None \<Rightarrow>
           sbind (if repeat_kind = ''once'' then sbind (hget R key2 ''once_done'') (\<lambda>d. sreturn (d = Some ''1''))
                  else sreturn False) (\<lambda>finished.
           if finished then sreturn (3, '''', 0, '''', 0, '''')
           else
             sbind (script_now_ms R) (\<lambda>now_ms.
             sbind (hget_number R key2 ''next_at'' (lua_tostring now_ms)) (\<lambda>next_at.
             if next_at > now_ms then sreturn (2, '''', 0, '''', lua_sub next_at now_ms, '''')
             else
               sbind (lua_need total_slices) (\<lambda>total.
               sbind (lua_need repeat_ms) (\<lambda>every.
               let window = ''v'' @ contract_version @ '':s'' @ lua_tostring (int (length scenario_id))
                     @ '':'' @ scenario_id @ '':w'' @ lua_tostring next_at @ '':n'' @ lua_tostring total in
               sbind (hset R key2
                 [(''active_window_id'', window), (''active_scheduled_at'', lua_tostring next_at),
                  (''active_contract_version'', contract_version),
                  (''active_total_slices'', lua_tostring total), (''active_repeat_kind'', repeat_kind),
                  (''active_repeat_ms'', lua_tostring every), (''active_plan_fingerprint'', argv8),
                  (''active_ack_count'', ''0'')]) (\<lambda>_.
               sreturn (1, window, next_at, slice_names [0..<nat total], 0, '''')))))))))"

definition repeat_args :: "RepeatPolicy \<Rightarrow> string \<Rightarrow> (coordination_error, string \<times> int) result" where
  "repeat_args repeat operation = (case repeat of
     Once \<Rightarrow> Inr (''once'', 0)
   | Every interval \<Rightarrow> try_res (duration_ms operation interval) (\<lambda>ms. Inr (''every'', ms)))"

definition prepare_response ::
  "string \<Rightarrow> DispatchSpec \<Rightarrow> int \<times> string \<times> int \<times> string \<times> int \<times> string
     \<Rightarrow> (coordination_error, DispatchOutcome) result" where
  "prepare_response op spec reply = (case reply of (code, window, scheduled_at, missing_raw, retry_after, message) \<Rightarrow>
     if code = 1 then
       try_res (parse_missing_slices op missing_raw (spec_total_slices spec)) (\<lambda>missing.
         if missing = []
         then Inl (InvalidState op ''active window has no missing slices but is not complete'')
         else try_res (as_u64 op ''scheduled timestamp'' scheduled_at) (\<lambda>scheduled.
           Inr (Ready
             \<lparr>win_scenario_id = spec_scenario_id spec, window_id = window, win_run_id = window,
              win_scheduled_at = ucast scheduled, win_contract_version = spec_contract_version spec,
              win_total_slices = spec_total_slices spec,
              win_plan_fingerprint = spec_plan_fingerprint spec, win_missing_slices = missing\<rparr>)))
     else if code = 2 then Inr (NotDue (duration_from_nonnegative_ms retry_after))
     else if code = 3 then Inr Finished
     else if code = 4 then Inl (StaleOwner op)
     else if code = 5 then Inl (InvalidState op message)
     else Inl (unknown_code op code))"

definition prepare_window ::
  "'s redis \<Rightarrow> RedisDueStateStore \<Rightarrow> DispatchSpec \<Rightarrow> LeaderLease \<Rightarrow> net
     \<Rightarrow> ('s, coordination_error, DispatchOutcome) action" where
  "prepare_window R store spec leader net =
     (let op = ''dispatch_prepare_window'' in
     sbind (slift (check_all
       [reject_if (trim (spec_scenario_id spec) = []) (InvalidState op ''scenario id must not be empty''),
        reject_if (spec_contract_version spec = 0) (InvalidState op ''contract version must be positive''),
        reject_if (spec_total_slices spec = 0 \<or> spec_total_slices spec > MAX_DISPATCH_SLICES)
          (InvalidState op (''total slices must be between 1 and '' @ word_str MAX_DISPATCH_SLICES)),
        reject_if (trim (spec_plan_fingerprint spec) = [])
          (InvalidState op ''plan fingerprint must not be empty'')])) (\<lambda>_.
     sbind (slift (repeat_args (spec_repeat spec) op)) (\<lambda>(repeat_kind, repeat_ms).
     sbind (slift (try_i64 op ''fencing token exceeds Redis integer range'' (fencing_token leader))) (\<lambda>fence.
     sbind (redis_invoke op net
       (prepare_script R (lock_key leader) (schedule_key store (spec_scenario_id spec))
          (leader_token leader) (int_str fence) (spec_scenario_id spec)
          (word_str (spec_contract_version spec)) (word_str (spec_total_slices spec)) repeat_kind
          (int_str repeat_ms) (spec_plan_fingerprint spec)))
       (\<lambda>reply. slift (prepare_response op spec reply))))))"

text \<open>The acknowledgement script after its checks: record the slice and, when every slice is
  acknowledged, close the window.\<close>

definition active_fields :: "string list" where
  "active_fields =
     [''active_window_id'', ''active_scheduled_at'', ''active_contract_version'',
      ''active_total_slices'', ''active_repeat_kind'', ''active_repeat_ms'',
      ''active_plan_fingerprint'', ''active_ack_count'']"

definition close_window ::
  "'s redis \<Rightarrow> string \<Rightarrow> string \<Rightarrow> nat \<Rightarrow> string option \<Rightarrow> int option \<Rightarrow> int
     \<Rightarrow> ('s, int \<times> int \<times> string) script" where
  "close_window R key2 active_window slice_count repeat_kind repeat_ms scheduled_at =
     sbind (if repeat_kind = Some ''once'' then
              sbind (hset R key2 [(''once_done'', ''1'')]) (\<lambda>_. hdel R key2 [''next_at''])
            else
              sbind (lua_need repeat_ms) (\<lambda>every.
              hset R key2 [(''next_at'', lua_tostring (lua_add scheduled_at every))])) (\<lambda>_.
     sbind (script_now_ms R) (\<lambda>now_ms.
     sbind (hset R key2 [(''last_completed_window'', active_window),
                         (''last_completed_at'', lua_tostring now_ms)]) (\<lambda>_.
     sbind (sfold (\<lambda>i (_ :: int). hdel R key2 [ack_field i]) [0..<slice_count] 0) (\<lambda>_.
     sbind (hdel R key2 active_fields) (\<lambda>_.
     sreturn (2, 0, ''''))))))"

definition record_ack ::
  "'s redis \<Rightarrow> string \<Rightarrow> string \<Rightarrow> int \<Rightarrow> int \<Rightarrow> string option \<Rightarrow> int option \<Rightarrow> int
     \<Rightarrow> ('s, int \<times> int \<times> string) script" where
  "record_ack R key2 active_window slice_count slice_index repeat_kind repeat_ms scheduled_at =
     sbind (hsetnx R key2 (''ack:'' @ lua_tostring slice_index) ''1'') (\<lambda>fresh.
     sbind (if fresh = 1 then hincrby R key2 ''active_ack_count'' ''1'' else sreturn 0) (\<lambda>_.
     sbind (hget_number R key2 ''active_ack_count'' ''0'') (\<lambda>ack_count.
     let remaining = lua_sub slice_count ack_count in
     if remaining > 0 then sreturn (1, remaining, '''')
     else if remaining < 0 then sreturn (5, 0, ''acknowledgement count exceeds slice count'')
     else close_window R key2 active_window (nat slice_count) repeat_kind repeat_ms scheduled_at)))"

definition ack_active_script ::
  "'s redis \<Rightarrow> rkey \<Rightarrow> rarg \<Rightarrow> rarg \<Rightarrow> rarg \<Rightarrow> rarg \<Rightarrow> ('s, int \<times> int \<times> string) script" where
  "ack_active_script R key2 active_window argv4 argv5 argv6 =
     sbind (hget R key2 ''active_total_slices'') (\<lambda>total_text.
     let total_slices = lua_optional total_text in
     if total_slices \<noteq> lua_tonumber argv5 then sreturn (5, 0, ''dispatch slice count changed'')
     else sbind (hget R key2 ''active_plan_fingerprint'') (\<lambda>plan.
     if plan \<noteq> Some argv6 then sreturn (5, 0, ''dispatch plan fingerprint changed'')
     else sbind (lua_need (lua_tonumber argv4)) (\<lambda>slice_index.
     sbind (lua_need total_slices) (\<lambda>total.
     if slice_index < 0 \<or> slice_index \<ge> total
     then sreturn (5, 0, ''slice index is outside the active window'')
     else sbind (hget R key2 ''active_repeat_kind'') (\<lambda>repeat_kind.
     sbind (hget R key2 ''active_repeat_ms'') (\<lambda>ms.
     let repeat_ms = lua_tonumber (case ms of None \<Rightarrow> ''0'' | Some m \<Rightarrow> m) in
     sbind (hget R key2 ''active_scheduled_at'') (\<lambda>scheduled.
     sbind (if repeat_kind = Some ''every''
            then sbind (lua_need repeat_ms) (\<lambda>every. sreturn (\<not> every > 0))
            else sreturn (repeat_kind \<noteq> Some ''once'')) (\<lambda>invalid.
     if invalid then sreturn (5, 0, ''active repeat policy is invalid'')
     else case lua_optional scheduled of
       None \<Rightarrow> sreturn (5, 0, ''active schedule timestamp is invalid'')
     | Some scheduled_at \<Rightarrow>
         sbind (hget_number R key2 ''active_ack_count'' ''-1'') (\<lambda>previous.
         if previous < 0 \<or> previous > total then sreturn (5, 0, ''acknowledgement count is invalid'')
         else record_ack R key2 active_window total slice_index repeat_kind repeat_ms scheduled_at)))))))))"

definition ack_script ::
  "'s redis \<Rightarrow> rkey \<Rightarrow> rkey \<Rightarrow> rarg \<Rightarrow> rarg \<Rightarrow> rarg \<Rightarrow> rarg \<Rightarrow> rarg \<Rightarrow> rarg
     \<Rightarrow> ('s, int \<times> int \<times> string) script" where
  "ack_script R key1 key2 argv1 argv2 argv3 argv4 argv5 argv6 =
     sbind (leader_is_current R key1 argv1 argv2) (\<lambda>current.
     if \<not> current then sreturn (4, 0, ''leader lease is stale'')
     else sbind (hget R key2 ''active_window_id'') (\<lambda>active_window.
     case active_window of
       None \<Rightarrow>
         sbind (hget R key2 ''last_completed_window'') (\<lambda>completed.
         if completed = Some argv3 then sreturn (2, 0, '''')
         else sreturn (5, 0, ''dispatch window is not active''))
     | Some active \<Rightarrow>
         if active \<noteq> argv3 then sreturn (5, 0, ''a different dispatch window is active'')
         else ack_active_script R key2 active argv4 argv5 argv6))"

definition ack_slice ::
  "'s redis \<Rightarrow> RedisDueStateStore \<Rightarrow> DispatchWindow \<Rightarrow> u32 \<Rightarrow> LeaderLease \<Rightarrow> net
     \<Rightarrow> ('s, coordination_error, DispatchProgress) action" where
  "ack_slice R store w slice_index leader net =
     (let op = ''dispatch_ack_slice'' in
     sbind (slift (check_all
       [reject_if (slice_index \<ge> win_total_slices w)
          (InvalidState op ''slice index is outside the dispatch window''),
        reject_if (win_total_slices w = 0 \<or> win_total_slices w > MAX_DISPATCH_SLICES)
          (InvalidState op ''dispatch window has an invalid slice count'')])) (\<lambda>_.
     sbind (slift (try_i64 op ''fencing token exceeds Redis integer range'' (fencing_token leader))) (\<lambda>fence.
     sbind (redis_invoke op net
       (ack_script R (lock_key leader) (schedule_key store (win_scenario_id w)) (leader_token leader)
          (int_str fence) (window_id w) (word_str slice_index) (word_str (win_total_slices w))
          (win_plan_fingerprint w))) (\<lambda>(code, remaining, message).
     if code = 1 then
       (if 0 \<le> remaining \<and> remaining < 2 ^ 32 then sreturn (Pending (of_int remaining))
        else serror (InvalidState op ''remaining slice count is out of range''))
     else if code = 2 then sreturn DispatchComplete
     else if code = 4 then serror (StaleOwner op)
     else if code = 5 then serror (InvalidState op message)
     else serror (unknown_code op code)))))"

definition refresh_registered ::
  "'s redis \<Rightarrow> string \<Rightarrow> string \<Rightarrow> string \<Rightarrow> int \<Rightarrow> int \<Rightarrow> ('s, unit) script" where
  "refresh_registered R key1 active_key run_id now_ms retention_ms =
     sbind (hget_number R key1 ''summary_pending_revision'' ''0'') (\<lambda>pending.
     sbind (hget_number R key1 ''summary_ack_revision'' ''0'') (\<lambda>acknowledged.
     if pending > acknowledged then
       sbind (persist R key1) (\<lambda>_. sbind (zadd R active_key MAX_EXACT run_id) (\<lambda>_. sreturn ()))
     else
       sbind (pexpire R key1 (int_str retention_ms)) (\<lambda>_.
       sbind (zadd R active_key (lua_add now_ms retention_ms) run_id) (\<lambda>_. sreturn ()))))"

definition registered_mismatch ::
  "'s redis \<Rightarrow> string \<Rightarrow> string \<Rightarrow> string \<Rightarrow> string \<Rightarrow> int \<Rightarrow> ('s, bool) script" where
  "registered_mismatch R key1 run_id scenario_id schema_version expected_slices =
     sbind (hget R key1 ''run_id'') (\<lambda>r.
     if r \<noteq> Some run_id then sreturn True
     else sbind (hget R key1 ''scenario_id'') (\<lambda>s.
     if s \<noteq> Some scenario_id then sreturn True
     else sbind (hget R key1 ''schema_version'') (\<lambda>v.
     if v \<noteq> Some schema_version then sreturn True
     else sbind (hget R key1 ''expected_slices'') (\<lambda>n.
     sreturn (lua_tonumber (case n of None \<Rightarrow> ''-1'' | Some x \<Rightarrow> x) \<noteq> Some expected_slices)))))"

definition register_script ::
  "'s redis \<Rightarrow> rkey \<Rightarrow> rkey \<Rightarrow> rkey \<Rightarrow> rarg \<Rightarrow> rarg \<Rightarrow> rarg \<Rightarrow> rarg \<Rightarrow> rarg \<Rightarrow> rarg \<Rightarrow> rarg
     \<Rightarrow> ('s, int \<times> string) script" where
  "register_script R key1 key2 key3 run_id scenario_id schema_version argv4 argv5 argv6 argv7 =
     (case (lua_tonumber argv4, lua_tonumber argv5, lua_tonumber argv6, lua_tonumber argv7) of
        (Some expected_slices, Some deadline_at, Some retention_ms, Some max_active) \<Rightarrow>
          if expected_slices < 1 \<or> deadline_at < 0 \<or> deadline_at > MAX_EXACT \<or> retention_ms < 1 \<or> max_active < 1
          then sreturn (3, ''invalid run registration arguments'')
          else
            sbind (script_now_ms R) (\<lambda>redis_now_ms.
            sbind (zremrangebyscore R key3 redis_now_ms) (\<lambda>_.
            sbind (exists_key R key1) (\<lambda>present.
            if present = 1 then
              sbind (registered_mismatch R key1 run_id scenario_id schema_version expected_slices) (\<lambda>mismatch.
              if mismatch then sreturn (3, ''registered run metadata changed'')
              else sbind (refresh_registered R key1 key3 run_id redis_now_ms retention_ms) (\<lambda>_.
                   sreturn (2, '''')))
            else
              sbind (zcard R key3) (\<lambda>active.
              if active \<ge> max_active then sreturn (4, ''bounded active-run capacity exceeded'')
              else
                sbind (hset R key1
                  [(''scenario_id'', scenario_id), (''run_id'', run_id), (''schema_version'', schema_version),
                   (''expected_slices'', lua_tostring expected_slices), (''histogram_bounds'', ''''),
                   (''status'', ''open''), (''received_slices'', ''0''), (''total'', ''0''),
                   (''success'', ''0''), (''failure'', ''0''), (''error_kind_count'', ''0''),
                   (''first_result_at'', ''0''), (''last_result_at'', ''0''),
                   (''deadline_at'', lua_tostring deadline_at), (''finalized_at'', ''0''),
                   (''summary_revision'', ''0''), (''summary_pending_revision'', ''0''),
                   (''summary_ack_revision'', ''0'')]) (\<lambda>_.
                sbind (zadd R key2 deadline_at run_id) (\<lambda>_.
                sbind (pexpire R key1 (int_str retention_ms)) (\<lambda>_.
                sbind (zadd R key3 (lua_add redis_now_ms retention_ms) run_id) (\<lambda>_.
                sreturn (1, '''')))))))))
      | _ \<Rightarrow> sreturn (3, ''invalid run registration arguments''))"

definition register_run ::
  "'s redis \<Rightarrow> RedisDueStateStore \<Rightarrow> DispatchWindow \<Rightarrow> duration \<Rightarrow> net \<Rightarrow> ('s, coordination_error, unit) action"
where
  "register_run R store w load_dur net =
     (let op = ''aggregation_register_run'' in
     case aggregation_registration store of
       None \<Rightarrow> sreturn ()
     | Some config \<Rightarrow>
         if as_millis load_dur \<ge> 2 ^ 64
         then serror (InvalidState op ''load duration exceeds u64 milliseconds'')
         else if as_millis (reg_partial_timeout config) \<ge> 2 ^ 64
         then serror (InvalidState op ''partial timeout exceeds u64 milliseconds'')
         else
         sbind (slift (ok_or
           (Option.bind (checked_add (win_scheduled_at w) (of_nat (as_millis load_dur))) (\<lambda>value.
              checked_add value (of_nat (as_millis (reg_partial_timeout config)))))
           (InvalidState op ''run deadline overflowed''))) (\<lambda>deadline.
         if unat deadline > 9007199254740991
         then serror (InvalidState op (''run deadline exceeds Redis Lua'' @ [CHR 0x27] @ ''s exact integer range''))
         else
         sbind (slift (duration_ms op (reg_retention config))) (\<lambda>retention_ms.
         sbind (slift (try_i64 op ''active-run limit exceeds Redis range'' (reg_max_active_runs config)))
           (\<lambda>max_active.
         if max_active < 1 then serror (InvalidState op ''active-run limit must be positive'')
         else
         let base = reg_key_prefix config @ '':{runs}:'' in
         sbind (redis_invoke op net
           (register_script R (base @ ''run:'' @ win_run_id w) (base @ ''deadlines'') (base @ ''active'')
              (win_run_id w) (win_scenario_id w) (word_str (win_contract_version w))
              (word_str (win_total_slices w)) (word_str deadline) (int_str retention_ms)
              (int_str max_active))) (\<lambda>(code, message).
         if code = 1 \<or> code = 2 then sreturn ()
         else if code = 3 \<or> code = 4 then serror (InvalidState op message)
         else serror (unknown_code op code))))))"

context redis_server
begin

lemma leader_is_current_sim:
  "simulates view (=) (leader_is_current R k a b) (leader_is_current kv_redis k a b)"
  unfolding leader_is_current_def by (auto intro!: simulation command_sims)

lemma window_changed_sim:
  "simulates view (=) (window_changed R k a b c d e) (window_changed kv_redis k a b c d e)"
  unfolding window_changed_def by (auto intro!: simulation command_sims)

lemma collect_missing_sim:
  "simulates view (=) (collect_missing R k is) (collect_missing kv_redis k is)"
  unfolding collect_missing_def by (auto intro!: simulation command_sims)

lemmas ledger_sims =
  leader_is_current_sim window_changed_sim collect_missing_sim hget_number_sim now_sim command_sims

lemma prepare_sim:
  "simulates view (=) (prepare_window R st sp l net) (prepare_window kv_redis st sp l net)"
  unfolding prepare_window_def prepare_script_def Let_def
  by (auto intro!: simulation ledger_sims)

lemma close_window_sim:
  "simulates view (=) (close_window R k w n a b c) (close_window kv_redis k w n a b c)"
  unfolding close_window_def by (auto intro!: simulation ledger_sims)

lemma record_ack_sim:
  "simulates view (=) (record_ack R k w n a b c d) (record_ack kv_redis k w n a b c d)"
  unfolding record_ack_def Let_def by (auto intro!: simulation ledger_sims close_window_sim)

lemma ack_sim:
  "simulates view (=) (ack_slice R st w i l net) (ack_slice kv_redis st w i l net)"
  unfolding ack_slice_def ack_script_def ack_active_script_def Let_def
  by (auto intro!: simulation ledger_sims record_ack_sim)

end

section \<open>Slice lists\<close>

lemma split_join:
  "ws \<noteq> [] \<Longrightarrow> (\<And>w. w \<in> set ws \<Longrightarrow> sep \<notin> set w) \<Longrightarrow> split_on sep (join_with sep ws) = ws"
  by (induction sep ws rule: join_with.induct) (auto simp: split_on_word split_on_append)

lemma join_with_empty_iff: "(\<And>w. w \<in> set ws \<Longrightarrow> w \<noteq> []) \<Longrightarrow> join_with sep ws = [] \<longleftrightarrow> ws = []"
  by (induction sep ws rule: join_with.induct) auto

lemma parse_word_nat_str: "n < 2 ^ 32 \<Longrightarrow> parse_word (nat_str n) = Some (of_nat n :: u32)"
  by (simp add: parse_word_def parse_uint_nat_str)

lemma missing_slice_loop_ok:
  assumes "sorted_wrt (<) (map unat acc @ is)" "\<And>i. i \<in> set is \<Longrightarrow> i < unat total_slices"
  shows "missing_slice_loop op total_slices acc (map nat_str is) = Inr (acc @ map of_nat is)"
  using assms
proof (induction "is" arbitrary: acc)
  case (Cons i "is")
  have i: "i < unat total_slices" "unat total_slices < 2 ^ 32"
    using Cons.prems(2) unat_bound [of total_slices] by auto
  then have word: "unat (of_nat i :: u32) = i" by (simp add: unat_of_nat)
  have "\<not> (of_nat i :: u32) \<ge> total_slices"
    using i word by (simp add: word_le_nat_alt)
  moreover have "\<not> (acc \<noteq> [] \<and> last acc \<ge> (of_nat i :: u32))"
  proof
    assume "acc \<noteq> [] \<and> last acc \<ge> (of_nat i :: u32)"
    then have "unat (last acc) < i" "i \<le> unat (last acc)"
      using Cons.prems(1) word by (auto simp: sorted_wrt_append word_le_nat_alt)
    then show False by simp
  qed
  moreover have "missing_slice_loop op total_slices (acc @ [of_nat i]) (map nat_str is)
                   = Inr ((acc @ [of_nat i]) @ map of_nat is)"
    using Cons.prems word by (intro Cons.IH) auto
  ultimately show ?case
    using i by (simp add: parse_word_nat_str)
qed simp

text \<open>The names of a strictly increasing slice list are read back as that list.\<close>

lemma parse_slice_names:
  assumes "sorted_wrt (<) is" "\<And>i. i \<in> set is \<Longrightarrow> i < unat total_slices"
  shows "parse_missing_slices op (slice_names is) total_slices = Inr (map of_nat is)"
proof (cases "is = []")
  case True
  then show ?thesis by (simp add: parse_missing_slices_def slice_names_def)
next
  case False
  have small: "i < 10 ^ 14" if "i \<in> set is" for i
    using assms(2) [OF that] unat_bound [of total_slices] by simp
  then have names: "map (\<lambda>i. lua_tostring (int i)) is = map nat_str is"
    by (simp add: lua_tostring_nat)
  have comma: "CHR '','' \<notin> set (nat_str i)" for i
    by (rule not_digit_notin_nat_str) simp
  have "join_with (CHR '','') (map nat_str is) = [] \<longleftrightarrow> map nat_str is = []"
    by (rule join_with_empty_iff) auto
  then have "slice_names is \<noteq> []"
    using False by (simp add: slice_names_def names)
  moreover have "split_on (CHR '','') (slice_names is) = map nat_str is"
    using False comma by (auto simp: slice_names_def names intro!: split_join)
  ultimately show ?thesis
    using missing_slice_loop_ok [of "[]" "is" total_slices op] assms by (simp add: parse_missing_slices_def)
qed

section \<open>The abstract ledger\<close>

record active_window =
  aw_id :: string
  aw_sched :: nat
  aw_version :: u16
  aw_total :: u32
  aw_kind :: string
  aw_ms :: nat
  aw_plan :: string
  aw_acked :: "nat set"

record ledger =
  lg_active :: "active_window option"
  lg_next :: "nat option"
  lg_once :: bool
  lg_last :: "string option"

definition window_wf :: "active_window \<Rightarrow> bool" where
  "window_wf w \<longleftrightarrow>
     0 < unat (aw_total w) \<and> unat (aw_total w) \<le> 4096 \<and>
     aw_acked w \<subset> {..<unat (aw_total w)} \<and> aw_sched w + aw_ms w < 10 ^ 14 \<and>
     (aw_kind w = ''once'' \<and> aw_ms w = 0 \<or> aw_kind w = ''every'' \<and> 0 < aw_ms w)"

definition acked_slices :: "ledger \<Rightarrow> nat set" where
  "acked_slices lg = (case lg_active lg of None \<Rightarrow> {} | Some w \<Rightarrow> aw_acked w)"

definition window_fields :: "(string, string) fmap \<Rightarrow> active_window \<Rightarrow> bool" where
  "window_fields h w \<longleftrightarrow>
     fmlookup h ''active_window_id'' = Some (aw_id w) \<and>
     fmlookup h ''active_scheduled_at'' = Some (nat_str (aw_sched w)) \<and>
     fmlookup h ''active_contract_version'' = Some (word_str (aw_version w)) \<and>
     fmlookup h ''active_total_slices'' = Some (word_str (aw_total w)) \<and>
     fmlookup h ''active_repeat_kind'' = Some (aw_kind w) \<and>
     fmlookup h ''active_repeat_ms'' = Some (nat_str (aw_ms w)) \<and>
     fmlookup h ''active_plan_fingerprint'' = Some (aw_plan w) \<and>
     fmlookup h ''active_ack_count'' = Some (nat_str (card (aw_acked w)))"

definition ledger_hash :: "(string, string) fmap \<Rightarrow> ledger \<Rightarrow> bool" where
  "ledger_hash h lg \<longleftrightarrow>
     fmlookup h ''next_at'' = map_option nat_str (lg_next lg) \<and>
     (\<forall>n. lg_next lg = Some n \<longrightarrow> n < 10 ^ 14) \<and>
     fmlookup h ''once_done'' = (if lg_once lg then Some ''1'' else None) \<and>
     fmlookup h ''last_completed_window'' = lg_last lg \<and>
     (\<forall>i. fmlookup h (''ack:'' @ nat_str i) = (if i \<in> acked_slices lg then Some ''1'' else None)) \<and>
     (case lg_active lg of
        None \<Rightarrow> fmlookup h ''active_window_id'' = None
      | Some w \<Rightarrow> window_wf w \<and> window_fields h w)"

text \<open>The schedule record of a scenario never expires.\<close>

definition ledger_rel :: "keyspace \<Rightarrow> string \<Rightarrow> ledger \<Rightarrow> bool" where
  "ledger_rel ks key lg \<longleftrightarrow>
     kv_expiry ks key = None \<and> (\<exists>h. kv_hash ks key = Some h \<and> ledger_hash h lg)"

definition new_window_id :: "DispatchSpec \<Rightarrow> nat \<Rightarrow> string" where
  "new_window_id spec sched =
     ''v'' @ word_str (spec_contract_version spec) @ '':s'' @ nat_str (length (spec_scenario_id spec))
       @ '':'' @ spec_scenario_id spec @ '':w'' @ nat_str sched @ '':n'' @ word_str (spec_total_slices spec)"

definition repeat_kind_of :: "RepeatPolicy \<Rightarrow> string" where
  "repeat_kind_of p = (case p of Once \<Rightarrow> ''once'' | Every _ \<Rightarrow> ''every'')"

definition repeat_ms_of :: "RepeatPolicy \<Rightarrow> nat" where
  "repeat_ms_of p = (case p of Once \<Rightarrow> 0 | Every d \<Rightarrow> as_millis d)"

definition new_window :: "DispatchSpec \<Rightarrow> nat \<Rightarrow> active_window" where
  "new_window spec sched =
     \<lparr>aw_id = new_window_id spec sched, aw_sched = sched, aw_version = spec_contract_version spec,
      aw_total = spec_total_slices spec, aw_kind = repeat_kind_of (spec_repeat spec),
      aw_ms = repeat_ms_of (spec_repeat spec), aw_plan = spec_plan_fingerprint spec, aw_acked = {}\<rparr>"

definition window_matches :: "active_window \<Rightarrow> DispatchSpec \<Rightarrow> bool" where
  "window_matches w spec \<longleftrightarrow>
     aw_version w = spec_contract_version spec \<and> aw_total w = spec_total_slices spec \<and>
     aw_kind w = repeat_kind_of (spec_repeat spec) \<and> aw_ms w = repeat_ms_of (spec_repeat spec) \<and>
     aw_plan w = spec_plan_fingerprint spec"

definition missing_slices :: "active_window \<Rightarrow> nat list" where
  "missing_slices w = filter (\<lambda>i. i \<notin> aw_acked w) [0..<unat (aw_total w)]"

definition due_time :: "ledger \<Rightarrow> nat \<Rightarrow> nat" where
  "due_time lg now = (case lg_next lg of None \<Rightarrow> now | Some n \<Rightarrow> n)"

definition prepare_next :: "DispatchSpec \<Rightarrow> nat \<Rightarrow> ledger \<Rightarrow> ledger" where
  "prepare_next spec now lg =
     (if lg_active lg = None \<and> \<not> (spec_repeat spec = Once \<and> lg_once lg) \<and> due_time lg now \<le> now
      then lg\<lparr>lg_active := Some (new_window spec (due_time lg now))\<rparr> else lg)"

definition ready_window :: "DispatchSpec \<Rightarrow> active_window \<Rightarrow> DispatchWindow" where
  "ready_window spec w =
     \<lparr>win_scenario_id = spec_scenario_id spec, window_id = aw_id w, win_run_id = aw_id w,
      win_scheduled_at = of_nat (aw_sched w), win_contract_version = spec_contract_version spec,
      win_total_slices = spec_total_slices spec, win_plan_fingerprint = spec_plan_fingerprint spec,
      win_missing_slices = map of_nat (missing_slices w)\<rparr>"

definition prepare_outcome ::
  "DispatchSpec \<Rightarrow> nat \<Rightarrow> ledger \<Rightarrow> (coordination_error, DispatchOutcome) result" where
  "prepare_outcome spec now lg = (case lg_active lg of
     Some w \<Rightarrow>
       if window_matches w spec then Inr (Ready (ready_window spec w))
       else Inl (InvalidState ''dispatch_prepare_window''
              ''active window metadata does not match current dispatch spec'')
   | None \<Rightarrow>
       if spec_repeat spec = Once \<and> lg_once lg then Inr Finished
       else if due_time lg now \<le> now
       then Inr (Ready (ready_window spec (new_window spec (due_time lg now))))
       else Inr (NotDue (from_millis (due_time lg now - now))))"

definition closed_ledger :: "active_window \<Rightarrow> ledger \<Rightarrow> ledger" where
  "closed_ledger w lg =
     \<lparr>lg_active = None,
      lg_next = (if aw_kind w = ''once'' then None else Some (aw_sched w + aw_ms w)),
      lg_once = (aw_kind w = ''once'' \<or> lg_once lg), lg_last = Some (aw_id w)\<rparr>"

definition ack_window :: "active_window \<Rightarrow> nat \<Rightarrow> ledger \<Rightarrow> ledger" where
  "ack_window w i lg =
     (if insert i (aw_acked w) = {..<unat (aw_total w)} then closed_ledger w lg
      else lg\<lparr>lg_active := Some (w\<lparr>aw_acked := insert i (aw_acked w)\<rparr>)\<rparr>)"

definition ack_applies :: "DispatchWindow \<Rightarrow> nat \<Rightarrow> active_window \<Rightarrow> bool" where
  "ack_applies dw i w \<longleftrightarrow>
     aw_id w = window_id dw \<and> aw_total w = win_total_slices dw \<and> aw_plan w = win_plan_fingerprint dw \<and>
     i < unat (aw_total w)"

definition ack_next :: "DispatchWindow \<Rightarrow> nat \<Rightarrow> ledger \<Rightarrow> ledger" where
  "ack_next dw i lg = (case lg_active lg of
     Some w \<Rightarrow> if ack_applies dw i w then ack_window w i lg else lg
   | None \<Rightarrow> lg)"

definition ack_outcome ::
  "DispatchWindow \<Rightarrow> nat \<Rightarrow> ledger \<Rightarrow> (coordination_error, DispatchProgress) result" where
  "ack_outcome dw i lg =
     (let err = (\<lambda>m. Inl (InvalidState ''dispatch_ack_slice'' m)) in
      case lg_active lg of
        None \<Rightarrow>
          if lg_last lg = Some (window_id dw) then Inr DispatchComplete
          else err ''dispatch window is not active''
      | Some w \<Rightarrow>
          if aw_id w \<noteq> window_id dw then err ''a different dispatch window is active''
          else if aw_total w \<noteq> win_total_slices dw then err ''dispatch slice count changed''
          else if aw_plan w \<noteq> win_plan_fingerprint dw then err ''dispatch plan fingerprint changed''
          else if insert i (aw_acked w) = {..<unat (aw_total w)} then Inr DispatchComplete
          else Inr (Pending (of_nat (unat (aw_total w) - card (insert i (aw_acked w))))))"

section \<open>The scripts on the keyspace\<close>

text \<open>The leadership record names the lease and has not expired.\<close>

definition leader_live :: "keyspace \<Rightarrow> LeaderLease \<Rightarrow> bool" where
  "leader_live ks l \<longleftrightarrow>
     (\<exists>h e. kv_entry ks (lock_key l) = Some (RHash h, Some e) \<and> kv_now ks < e \<and> e \<le> 2 ^ 53 \<and>
        fmlookup h ''owner'' = Some (leader_token l) \<and>
        fmlookup h ''fence'' = Some (word_str (fencing_token l)))"

text \<open>The leadership record is absent or names another owner or another token.\<close>

definition leader_lost :: "keyspace \<Rightarrow> LeaderLease \<Rightarrow> bool" where
  "leader_lost ks l \<longleftrightarrow>
     (\<exists>h. kv_hash ks (lock_key l) = Some h \<and>
        (fmlookup h ''owner'' \<noteq> Some (leader_token l) \<or>
         fmlookup h ''fence'' \<noteq> Some (word_str (fencing_token l))))"

lemma kv_pttl_eval: "kv_entry ks k = Some (v, Some e) \<Longrightarrow> kv_pttl k ks = (Inr (int e - int (kv_now ks)), ks)"
  by (simp add: kv_pttl_def kv_live_def kv_expiry_def)

lemma leader_live_current:
  assumes "leader_live ks l"
  shows "leader_is_current kv_redis (lock_key l) (leader_token l) (word_str (fencing_token l)) ks = (Inr True, ks)"
proof -
  from assms obtain h e where
    e: "kv_entry ks (lock_key l) = Some (RHash h, Some e)" "kv_now ks < e" "e \<le> 2 ^ 53" and
    h: "fmlookup h ''owner'' = Some (leader_token l)" "fmlookup h ''fence'' = Some (word_str (fencing_token l))"
    by (auto simp: leader_live_def)
  have "int e \<le> 2 ^ 53" using e(3) by (metis of_nat_le_iff of_nat_numeral of_nat_power)
  then have "lua_round (int e - int (kv_now ks)) = int e - int (kv_now ks)"
    using e(2) by (intro lua_round_exact) auto
  moreover have "kv_live ks (lock_key l) = Some (RHash h)" using e(1) by (simp add: kv_live_def)
  ultimately show ?thesis
    using e h by (simp add: leader_is_current_def kv_pttl_eval)
qed

lemma leader_lost_current:
  assumes "leader_lost ks l"
  shows "leader_is_current kv_redis (lock_key l) (leader_token l) (word_str (fencing_token l)) ks = (Inr False, ks)"
proof -
  from assms obtain h where h: "kv_hash ks (lock_key l) = Some h"
    "fmlookup h ''owner'' \<noteq> Some (leader_token l) \<or> fmlookup h ''fence'' \<noteq> Some (word_str (fencing_token l))"
    by (auto simp: leader_lost_def)
  have "\<exists>i. kv_pttl (lock_key l) ks = (Inr i, ks)" by (simp add: kv_pttl_def)
  then show ?thesis
    using h by (auto simp: leader_is_current_def)
qed

lemma ack_field_small: "i < 10 ^ 14 \<Longrightarrow> ack_field i = ''ack:'' @ nat_str i"
  by (simp add: ack_field_def lua_tostring_nat)

lemma collect_missing_eval:
  assumes "kv_hash ks key = Some h"
    and acks: "\<And>i. fmlookup h (''ack:'' @ nat_str i) = (if i \<in> A then Some ''1'' else None)"
    and "\<And>i. i \<in> set is \<Longrightarrow> i < 10 ^ 14"
  shows "collect_missing kv_redis key is ks =
           (Inr (filter (\<lambda>i. i \<notin> A) is, length (filter (\<lambda>i. i \<in> A) is)), ks)"
proof -
  have "sfold (\<lambda>i (missing, acked).
          sbind (hget kv_redis key (ack_field i)) (\<lambda>ack.
          if ack = Some ''1'' then sreturn (missing, Suc acked) else sreturn (missing @ [i], acked)))
          is (missing, acked) ks =
        (Inr (missing @ filter (\<lambda>i. i \<notin> A) is, acked + length (filter (\<lambda>i. i \<in> A) is)), ks)"
    for missing acked
    using assms(3)
  proof (induction "is" arbitrary: missing acked)
    case (Cons i "is")
    then show ?case using assms(1) acks [of i] by (simp add: ack_field_small)
  qed simp
  then show ?thesis by (simp add: collect_missing_def)
qed

lemma length_filter_card: "A \<subseteq> {..<n} \<Longrightarrow> length (filter (\<lambda>i. i \<in> A) [0..<n]) = card A"
  by (metis Int_absorb1 distinct_card distinct_filter distinct_upt inf_commute lessThan_atLeast0
      set_filter set_upt Collect_mem_eq Int_def)

lemma fmlookup_not_empty: "fmlookup m k = Some v \<Longrightarrow> m \<noteq> fmempty"
  by auto

definition ack_names :: "nat list \<Rightarrow> string set" where
  "ack_names is = (\<lambda>i. ''ack:'' @ nat_str i) ` set is"

lemma drop_acks_eval:
  assumes "\<And>i. i \<in> set is \<Longrightarrow> i < 10 ^ 14" and "fmlookup h f = Some v" and "\<And>is. f \<notin> ack_names is"
    and "kv_hash ks key = Some h"
  shows "\<exists>n. sfold (\<lambda>i (_ :: int). hdel kv_redis key [ack_field i]) is m ks =
           (Inr n, if is = [] then ks else kv_put_hash key (fmdrop_set (ack_names is) h) ks)"
  using assms(1,2,4)
proof (induction "is" arbitrary: m h ks)
  case (Cons i "is")
  let ?h = "fmdrop_set (ack_names [i]) h"
  have f: "fmlookup ?h f = Some v" using Cons.prems(2) assms(3) by simp
  then have ne: "?h \<noteq> fmempty" by (rule fmlookup_not_empty)
  have drop: "set [ack_field i] = ack_names [i]"
    using Cons.prems(1) [of i] by (simp add: ack_names_def ack_field_small)
  obtain c where step: "hdel kv_redis key [ack_field i] ks = (Inr c, kv_put_hash key ?h ks)"
    using hash_commands(6) [OF Cons.prems(3), of "[ack_field i]"] by (simp only: drop kv_redis_simps)
  obtain n where "sfold (\<lambda>i (_ :: int). hdel kv_redis key [ack_field i]) is c (kv_put_hash key ?h ks) =
      (Inr n, if is = [] then kv_put_hash key ?h ks
              else kv_put_hash key (fmdrop_set (ack_names is) ?h) (kv_put_hash key ?h ks))"
    using Cons.IH [OF _ f, of "kv_put_hash key ?h ks" c] Cons.prems(1) by force
  moreover have "fmdrop_set (ack_names is) ?h = fmdrop_set (ack_names (i # is)) h"
    by (rule fmap_ext) (auto simp: ack_names_def)
  moreover have "sfold (\<lambda>i (_ :: int). hdel kv_redis key [ack_field i]) (i # is) m ks =
      sfold (\<lambda>i (_ :: int). hdel kv_redis key [ack_field i]) is c (kv_put_hash key ?h ks)"
    by (simp only: sfold.simps sbind_def step prod.case sum.case)
  ultimately show ?case
    using ne by (intro exI [of _ n]) (simp add: kv_put_absorb(1) [OF ne])
qed simp


lemma u32_small: "int (unat (n :: u32)) < 4294967296"
proof -
  have "unat n < 4294967296" using unat_bound [of n] by simp
  then show ?thesis by linarith
qed

lemma lua_tonumber_word [simp]: "lua_tonumber (word_str (n :: u32)) = Some (int (unat n))"
proof -
  have "int (unat n) < 4294967296" by (rule u32_small)
  then have "lua_round (int (unat n)) = int (unat n)" by (intro lua_round_exact) simp
  then show ?thesis by (simp only: word_str_def lua_tonumber_nat_str)
qed

lemma lua_tostring_word [simp]: "lua_tostring (uint (n :: u32)) = word_str n"
proof -
  have "int (unat n) < 10 ^ 14" by (rule less_trans [OF u32_small]) simp
  then show ?thesis using lua_tostring_nat [of "unat n"] by (simp add: word_str_def)
qed

lemma lua_tonumber_small [simp]: "n < 10 ^ 14 \<Longrightarrow> lua_tonumber (nat_str n) = Some (int n)"
  by simp

lemma lua_optional_Some [simp]: "lua_optional (Some s) = lua_tonumber s"
  by (simp add: lua_optional_def)

definition ledger_effect ::
  "(keyspace, 'a) script \<Rightarrow> keyspace \<Rightarrow> string \<Rightarrow> 'a \<Rightarrow> ledger \<Rightarrow> bool" where
  "ledger_effect m ks key reply lg' \<longleftrightarrow>
     (\<exists>ks'. m ks = (Inr reply, ks') \<and> ledger_rel ks' key lg' \<and> ks_clock ks' = ks_clock ks \<and>
        (\<forall>k. k \<noteq> key \<longrightarrow> kv_entry ks' k = kv_entry ks k))"

lemma ledger_effect_unchanged:
  "m ks = (Inr reply, ks) \<Longrightarrow> ledger_rel ks key lg \<Longrightarrow> ledger_effect m ks key reply lg"
  by (auto simp: ledger_effect_def)

lemma ledger_effect_put:
  assumes "m ks = (Inr reply, kv_put_hash key h ks)" "kv_expiry ks key = None" "ledger_hash h lg"
  shows "ledger_effect m ks key reply lg"
  using assms by (auto simp: ledger_effect_def ledger_rel_def)

definition spec_ok :: "DispatchSpec \<Rightarrow> nat \<Rightarrow> bool" where
  "spec_ok spec now \<longleftrightarrow>
     trim (spec_scenario_id spec) \<noteq> [] \<and> spec_contract_version spec \<noteq> 0 \<and>
     0 < unat (spec_total_slices spec) \<and> unat (spec_total_slices spec) \<le> 4096 \<and>
     trim (spec_plan_fingerprint spec) \<noteq> [] \<and> length (spec_scenario_id spec) < 10 ^ 14 \<and>
     (\<forall>d. spec_repeat spec = Every d \<longrightarrow> 0 < as_millis d) \<and>
     now + repeat_ms_of (spec_repeat spec) < 10 ^ 14"

definition prepare_reply ::
  "DispatchSpec \<Rightarrow> nat \<Rightarrow> ledger \<Rightarrow> int \<times> string \<times> int \<times> string \<times> int \<times> string" where
  "prepare_reply spec now lg = (case lg_active lg of
     Some w \<Rightarrow>
       if window_matches w spec
       then (1, aw_id w, int (aw_sched w), slice_names (missing_slices w), 0, '''')
       else (5, '''', 0, '''', 0, ''active window metadata does not match current dispatch spec'')
   | None \<Rightarrow>
       if spec_repeat spec = Once \<and> lg_once lg then (3, '''', 0, '''', 0, '''')
       else if due_time lg now \<le> now
       then (1, new_window_id spec (due_time lg now), int (due_time lg now),
             slice_names [0..<unat (spec_total_slices spec)], 0, '''')
       else (2, '''', 0, '''', int (due_time lg now) - int now, ''''))"

abbreviation prepare_call :: "DispatchSpec \<Rightarrow> LeaderLease \<Rightarrow> string
    \<Rightarrow> (keyspace, int \<times> string \<times> int \<times> string \<times> int \<times> string) script" where
  "prepare_call spec l key \<equiv>
     prepare_script kv_redis (lock_key l) key (leader_token l) (word_str (fencing_token l))
       (spec_scenario_id spec) (word_str (spec_contract_version spec)) (word_str (spec_total_slices spec))
       (repeat_kind_of (spec_repeat spec)) (nat_str (repeat_ms_of (spec_repeat spec)))
       (spec_plan_fingerprint spec)"

lemma window_changed_eval:
  assumes "kv_hash ks key = Some h" "window_fields h w" "window_wf w" "repeat_ms_of (spec_repeat spec) < 10 ^ 14"
  shows "window_changed kv_redis key (word_str (spec_contract_version spec))
           (Some (int (unat (spec_total_slices spec)))) (repeat_kind_of (spec_repeat spec))
           (Some (int (repeat_ms_of (spec_repeat spec)))) (spec_plan_fingerprint spec) ks
         = (Inr (\<not> window_matches w spec), ks)"
proof -
  have "aw_ms w < 10 ^ 14" using assms(3) by (auto simp: window_wf_def)
  with assms(1,2,4) show ?thesis
    by (auto simp: window_changed_def window_fields_def window_matches_def word_uint_eq_iff)
qed

lemma prepare_active:
  assumes "ledger_rel ks key lg" "lg_active lg = Some w" "leader_live ks l" "spec_ok spec (kv_now ks)"
  shows "prepare_call spec l key ks = (Inr (prepare_reply spec (kv_now ks) lg), ks)"
proof -
  from assms(1,2) obtain h where h: "kv_hash ks key = Some h" "window_fields h w" and wf: "window_wf w"
    and acks: "\<And>i. fmlookup h (''ack:'' @ nat_str i) = (if i \<in> aw_acked w then Some ''1'' else None)"
    by (auto simp: ledger_rel_def ledger_hash_def acked_slices_def)
  have ms: "repeat_ms_of (spec_repeat spec) < 10 ^ 14" using assms(4) by (simp add: spec_ok_def)
  have card: "length (filter (\<lambda>i. i \<in> aw_acked w) [0..<unat (aw_total w)]) = card (aw_acked w)"
    and "card (aw_acked w) < 10 ^ 14" and sched: "aw_sched w < 10 ^ 14"
  proof -
    have sub: "aw_acked w \<subseteq> {..<unat (aw_total w)}" using wf by (auto simp: window_wf_def)
    then show "length (filter (\<lambda>i. i \<in> aw_acked w) [0..<unat (aw_total w)]) = card (aw_acked w)"
      by (rule length_filter_card)
    have "card (aw_acked w) \<le> unat (aw_total w)"
      using card_mono [OF _ sub] by simp
    then show "card (aw_acked w) < 10 ^ 14" using wf by (simp add: window_wf_def)
    show "aw_sched w < 10 ^ 14" using wf by (simp add: window_wf_def)
  qed
  have collect: "collect_missing kv_redis key [0..<unat (aw_total w)] ks =
      (Inr (missing_slices w, card (aw_acked w)), ks)"
    using collect_missing_eval [OF h(1) acks, of "[0..<unat (aw_total w)]"] wf
    by (simp add: card missing_slices_def window_wf_def)
  note live = leader_live_current [OF assms(3)]
  note changed = window_changed_eval [OF h wf ms]
  have fields: "fmlookup h ''active_window_id'' = Some (aw_id w)"
    "fmlookup h ''active_scheduled_at'' = Some (nat_str (aw_sched w))"
    "fmlookup h ''active_ack_count'' = Some (nat_str (card (aw_acked w)))"
    using h(2) by (auto simp: window_fields_def)
  have "aw_total w = spec_total_slices spec" if "window_matches w spec"
    using that by (simp add: window_matches_def)
  then show ?thesis
    using h(1) fields collect changed live \<open>card (aw_acked w) < 10 ^ 14\<close> ms sched assms(2)
    by (cases "window_matches w spec") (simp_all add: prepare_script_def Let_def prepare_reply_def)
qed

lemma prepare_idle:
  assumes "ledger_rel ks key lg" "lg_active lg = None" "leader_live ks l" "spec_ok spec (kv_now ks)"
  shows "ledger_effect (prepare_call spec l key) ks key
           (prepare_reply spec (kv_now ks) lg) (prepare_next spec (kv_now ks) lg)"
proof -
  let ?now = "kv_now ks" and ?due = "due_time lg (kv_now ks)"
  from assms(1,2) obtain h where h: "kv_hash ks key = Some h" "fmlookup h ''active_window_id'' = None"
    "fmlookup h ''next_at'' = map_option nat_str (lg_next lg)" "kv_expiry ks key = None"
    "fmlookup h ''once_done'' = (if lg_once lg then Some ''1'' else None)" "ledger_hash h lg"
    and due: "?due < 10 ^ 14"
    using assms(4) by (auto simp: ledger_rel_def ledger_hash_def due_time_def spec_ok_def split: option.splits)
  have now: "?now < 10 ^ 14" "?now < 2 ^ 53" and spec: "repeat_ms_of (spec_repeat spec) < 10 ^ 14"
    "length (spec_scenario_id spec) < 10 ^ 14"
    using assms(4) by (auto simp: spec_ok_def)
  have total: "unat (spec_total_slices spec) < 10 ^ 14" using assms(4) by (simp add: spec_ok_def)
  have next_at: "hget_number kv_redis key ''next_at'' (lua_tostring (int ?now)) ks = (Inr (int ?due), ks)"
    using h(1,3) now due by (cases "lg_next lg") (simp_all add: due_time_def lua_tostring_nat hget_number_def)
  have finished: "(if repeat_kind_of (spec_repeat spec) = ''once''
       then sbind (hget kv_redis key ''once_done'') (\<lambda>d. sreturn (d = Some ''1'')) else sreturn False) ks
     = (Inr (spec_repeat spec = Once \<and> lg_once lg), ks)"
    using h(1,5) by (cases "spec_repeat spec") (auto simp: repeat_kind_of_def)
  note live = leader_live_current [OF assms(3)]
  consider (finished) "spec_repeat spec = Once \<and> lg_once lg"
    | (wait) "\<not> (spec_repeat spec = Once \<and> lg_once lg)" "?now < ?due"
    | (open_it) "\<not> (spec_repeat spec = Once \<and> lg_once lg)" "?due \<le> ?now"
    by linarith
  then show ?thesis
  proof cases
    case finished
    then show ?thesis
      using assms h(1,2) \<open>(if _ then _ else _) ks = _\<close> live
      by (intro ledger_effect_unchanged)
         (simp_all add: prepare_script_def Let_def prepare_reply_def prepare_next_def)
  next
    case wait
    have "lua_sub (int ?due) (int ?now) = int ?due - int ?now"
      using wait due now by (intro lua_sub_exact) simp
    then show ?thesis
      using assms h(1,2) finished live next_at wait now
      by (intro ledger_effect_unchanged)
         (auto simp add: prepare_script_def Let_def prepare_reply_def prepare_next_def)
  next
    case open_it
    let ?w = "new_window spec ?due"
    let ?fvs = "[(''active_window_id'', aw_id ?w), (''active_scheduled_at'', nat_str ?due),
      (''active_contract_version'', word_str (spec_contract_version spec)),
      (''active_total_slices'', word_str (spec_total_slices spec)),
      (''active_repeat_kind'', repeat_kind_of (spec_repeat spec)),
      (''active_repeat_ms'', nat_str (repeat_ms_of (spec_repeat spec))),
      (''active_plan_fingerprint'', spec_plan_fingerprint spec), (''active_ack_count'', ''0'')]"
    have wf: "window_wf ?w"
      using assms(4) open_it by (cases "spec_repeat spec")
        (auto simp: window_wf_def new_window_def spec_ok_def repeat_kind_of_def repeat_ms_of_def)
    have "prepare_call spec l key ks = (Inr (prepare_reply spec ?now lg), kv_put_hash key (fmupds ?fvs h) ks)"
      using assms(2) h(1,2) finished live next_at open_it now due spec total
      by (simp add: prepare_script_def Let_def prepare_reply_def lua_tostring_nat new_window_def
          new_window_id_def)
    moreover have "ledger_hash (fmupds ?fvs h) (prepare_next spec ?now lg)"
      using h(2,6) assms(2) open_it due spec wf
      by (auto simp: ledger_hash_def prepare_next_def acked_slices_def window_fields_def new_window_def)
    ultimately show ?thesis
      using h(4) by (intro ledger_effect_put)
  qed
qed

lemma ack_names_other:
  "''last_completed_window'' \<notin> ack_names is" "''next_at'' \<notin> ack_names is" "''once_done'' \<notin> ack_names is"
  by (auto simp: ack_names_def)

text \<open>Closing a window, in two halves: setting the next due time, then removing the window.\<close>

definition after_window :: "active_window \<Rightarrow> (string, string) fmap \<Rightarrow> (string, string) fmap" where
  "after_window w h =
     (if aw_kind w = ''once'' then fmdrop ''next_at'' (fmupd ''once_done'' ''1'' h)
      else fmupd ''next_at'' (nat_str (aw_sched w + aw_ms w)) h)"

lemma after_window_eval:
  assumes "kv_hash ks key = Some h" "window_wf w"
  shows "\<exists>n. (if Some (aw_kind w) = Some ''once'' then
            sbind (hset kv_redis key [(''once_done'', ''1'')]) (\<lambda>_. hdel kv_redis key [''next_at''])
          else
            sbind (lua_need (Some (int (aw_ms w)))) (\<lambda>every.
            hset kv_redis key [(''next_at'', lua_tostring (lua_add (int (aw_sched w)) every))])) ks
         = (Inr n, kv_put_hash key (after_window w h) ks)"
proof (cases "aw_kind w = ''once''")
  case True
  with assms show ?thesis by (simp add: after_window_def)
next
  case False
  have "lua_tostring (lua_add (int (aw_sched w)) (int (aw_ms w))) = nat_str (aw_sched w + aw_ms w)"
  proof -
    have "int (aw_sched w + aw_ms w) < 10 ^ 14" using assms(2) by (simp add: window_wf_def)
    then show ?thesis using lua_tostring_nat [of "aw_sched w + aw_ms w"] by (simp add: lua_add_def)
  qed
  with False assms(1) show ?thesis by (simp add: after_window_def)
qed

lemma after_window_not_empty: "after_window w h \<noteq> fmempty"
proof -
  have "fmlookup (after_window w h) (if aw_kind w = ''once'' then ''once_done'' else ''next_at'') \<noteq> None"
    by (simp add: after_window_def)
  then show ?thesis by (intro notI) simp
qed

definition closed_hash :: "active_window \<Rightarrow> nat \<Rightarrow> (string, string) fmap \<Rightarrow> (string, string) fmap" where
  "closed_hash w now h =
     fmdrop_set (set active_fields) (fmdrop_set (ack_names [0..<unat (aw_total w)])
       (fmupds [(''last_completed_window'', aw_id w), (''last_completed_at'', nat_str now)] (after_window w h)))"

lemma closed_hash_lookup:
  assumes "window_wf w"
  shows "fmlookup (closed_hash w now h) ''last_completed_window'' = Some (aw_id w)"
    and "fmlookup (closed_hash w now h) ''active_window_id'' = None"
    and "fmlookup (closed_hash w now h) ''next_at''
           = (if aw_kind w = ''once'' then None else Some (nat_str (aw_sched w + aw_ms w)))"
    and "fmlookup (closed_hash w now h) ''once_done''
           = (if aw_kind w = ''once'' then Some ''1'' else fmlookup h ''once_done'')"
    and "fmlookup (closed_hash w now h) (''ack:'' @ nat_str i)
           = (if i < unat (aw_total w) then None else fmlookup h (''ack:'' @ nat_str i))"
  using ack_names_other [of "[0..<unat (aw_total w)]"]
  by (auto simp: closed_hash_def after_window_def active_fields_def ack_names_def)

lemma close_window_eval:
  assumes "kv_hash ks key = Some h" "window_wf w" "kv_now ks < 10 ^ 14"
  shows "close_window kv_redis key (aw_id w) (unat (aw_total w)) (Some (aw_kind w)) (Some (int (aw_ms w)))
           (int (aw_sched w)) ks = (Inr (2, 0, ''''), kv_put_hash key (closed_hash w (kv_now ks) h) ks)"
proof -
  let ?n = "unat (aw_total w)" and ?h1 = "after_window w h"
  let ?h2 = "fmupds [(''last_completed_window'', aw_id w), (''last_completed_at'', nat_str (kv_now ks))] ?h1"
  let ?h3 = "fmdrop_set (ack_names [0..<?n]) ?h2"
  have small: "i < 10 ^ 14" if "i \<in> set [0..<?n]" for i
    using that assms(2) by (auto simp: window_wf_def)
  have lookup: "fmlookup ?h2 ''last_completed_window'' = Some (aw_id w)" by simp
  have h2: "?h2 \<noteq> fmempty" by (simp add: fmupds_empty_iff)
  have "fmlookup ?h3 ''last_completed_window'' = Some (aw_id w)"
    using ack_names_other(1) [of "[0..<?n]"] by simp
  then have h3: "?h3 \<noteq> fmempty" by (rule fmlookup_not_empty)
  have n: "[0..<?n] \<noteq> []" using assms(2) by (simp add: window_wf_def)
  obtain a where a: "(if Some (aw_kind w) = Some ''once'' then
            sbind (hset kv_redis key [(''once_done'', ''1'')]) (\<lambda>_. hdel kv_redis key [''next_at''])
          else
            sbind (lua_need (Some (int (aw_ms w)))) (\<lambda>every.
            hset kv_redis key [(''next_at'', lua_tostring (lua_add (int (aw_sched w)) every))])) ks
         = (Inr a, kv_put_hash key ?h1 ks)"
    using after_window_eval [OF assms(1,2)] by auto
  have set_last: "\<exists>b. hset kv_redis key [(''last_completed_window'', aw_id w),
      (''last_completed_at'', lua_tostring (int (kv_now ks)))] (kv_put_hash key ?h1 ks)
      = (Inr b, kv_put_hash key ?h2 ks)"
    using assms(3) after_window_not_empty [of w h] by (simp add: lua_tostring_nat)
  obtain m where m: "sfold (\<lambda>i (_ :: int). hdel kv_redis key [ack_field i]) [0..<?n] 0
      (kv_put_hash key ?h2 ks) = (Inr m, kv_put_hash key ?h3 ks)"
    using drop_acks_eval [OF small lookup ack_names_other(1),
        of "[0..<?n]" "kv_put_hash key ?h2 ks" key 0] n h2
    by (auto simp del: fmupds_simps)
  have del: "\<exists>c. hdel kv_redis key active_fields (kv_put_hash key ?h3 ks)
      = (Inr c, kv_put_hash key (closed_hash w (kv_now ks) h) ks)"
    using h3 by (simp add: closed_hash_def del: fmupds_simps)
  have now: "script_now_ms kv_redis (kv_put_hash key ?h1 ks) = (Inr (int (kv_now ks)), kv_put_hash key ?h1 ks)"
    using assms(3) by simp
  show ?thesis
    unfolding close_window_def using set_last del
    by (auto simp only: sbind_def a now m prod.case sum.case sreturn_def)
qed

definition ack_reply :: "DispatchWindow \<Rightarrow> nat \<Rightarrow> ledger \<Rightarrow> int \<times> int \<times> string" where
  "ack_reply dw i lg = (case lg_active lg of
     None \<Rightarrow>
       if lg_last lg = Some (window_id dw) then (2, 0, '''') else (5, 0, ''dispatch window is not active'')
   | Some w \<Rightarrow>
       if aw_id w \<noteq> window_id dw then (5, 0, ''a different dispatch window is active'')
       else if aw_total w \<noteq> win_total_slices dw then (5, 0, ''dispatch slice count changed'')
       else if aw_plan w \<noteq> win_plan_fingerprint dw then (5, 0, ''dispatch plan fingerprint changed'')
       else if insert i (aw_acked w) = {..<unat (aw_total w)} then (2, 0, '''')
       else (1, int (unat (aw_total w)) - int (card (insert i (aw_acked w))), ''''))"

lemma window_ackedD:
  assumes "window_wf w"
  shows "finite (aw_acked w)" "card (aw_acked w) < unat (aw_total w)" "unat (aw_total w) \<le> 4096"
    and "aw_acked w \<subset> {..<unat (aw_total w)}"
  using assms psubset_card_mono [of "{..<unat (aw_total w)}" "aw_acked w"]
  by (auto simp: window_wf_def intro: finite_subset [of _ "{..<unat (aw_total w)}"])

lemma lua_sub_small: "a \<le> 4096 \<Longrightarrow> b \<le> 4096 \<Longrightarrow> lua_sub (int a) (int b) = int a - int b"
proof -
  assume "a \<le> 4096" "b \<le> 4096"
  then have "\<bar>int a - int b\<bar> \<le> 4096" by linarith
  then show ?thesis by (intro lua_sub_exact) simp
qed

text \<open>Acknowledging a slice of the active window.\<close>

lemma record_ack_again:
  assumes "kv_hash ks key = Some h" "window_wf w" "window_fields h w"
    and "fmlookup h (''ack:'' @ nat_str i) = Some ''1''" "i \<in> aw_acked w"
    and t: "t = unat (aw_total w)"
  shows "record_ack kv_redis key wid (int (t)) (int i) kind ms sched ks
           = (Inr (1, int (t) - int (card (aw_acked w)), ''''), ks)"
proof -
  note f = window_ackedD [OF assms(2), folded t]
  have "i < t" using f(4) assms(5) by auto
  then have "lua_tostring (int i) = nat_str i" using f(3) by (intro lua_tostring_nat) simp
  moreover have "lua_sub (int (t)) (int (card (aw_acked w)))
                   = int (t) - int (card (aw_acked w))"
    using f by (intro lua_sub_small) auto
  moreover have "fmlookup h ''active_ack_count'' = Some (nat_str (card (aw_acked w)))" "card (aw_acked w) < 10 ^ 14"
    using assms(3) f by (auto simp: window_fields_def)
  ultimately show ?thesis
    using assms(1,4) f(2) by (simp add: record_ack_def Let_def)
qed

definition acked_hash :: "nat \<Rightarrow> nat \<Rightarrow> (string, string) fmap \<Rightarrow> (string, string) fmap" where
  "acked_hash i n h = fmupd ''active_ack_count'' (nat_str n) (fmupd (''ack:'' @ nat_str i) ''1'' h)"

lemma record_ack_fresh:
  assumes "kv_hash ks key = Some h" "window_wf w" "window_fields h w" "kv_now ks < 10 ^ 14"
    and "fmlookup h (''ack:'' @ nat_str i) = None" "i < t" "i \<notin> aw_acked w"
    and t: "t = unat (aw_total w)"
  shows "record_ack kv_redis key (aw_id w) (int (t)) (int i) (Some (aw_kind w))
           (Some (int (aw_ms w))) (int (aw_sched w)) ks =
         (let n = Suc (card (aw_acked w)) in
          if n < t
          then (Inr (1, int (t) - int n, ''''), kv_put_hash key (acked_hash i n h) ks)
          else (Inr (2, 0, ''''), kv_put_hash key (closed_hash w (kv_now ks) (acked_hash i n h)) ks))"
proof -
  let ?n = "Suc (card (aw_acked w))" 
  note f = window_ackedD [OF assms(2), folded t]
  have i: "lua_tostring (int i) = nat_str i" using assms(6) f(3) by (intro lua_tostring_nat) simp
  have sub: "lua_sub (int t) (int ?n) = int t - int ?n"
    using f by (intro lua_sub_small) auto
  have count: "fmlookup h ''active_ack_count'' = Some (nat_str (card (aw_acked w)))" and n: "?n < 10 ^ 14"
    using assms(3) f by (auto simp: window_fields_def)
  let ?h1 = "fmupd (''ack:'' @ nat_str i) ''1'' h"
  have incr: "hincrby kv_redis key ''active_ack_count'' ''1'' (kv_put_hash key ?h1 ks)
      = (Inr (int ?n), kv_put_hash key (acked_hash i ?n h) ks)"
  proof -
    have "redis_int (nat_str (card (aw_acked w))) = Some (int (card (aw_acked w)))"
      using n by (intro redis_int_nat_str) simp
    moreover have "int_str (int (card (aw_acked w)) + 1) = nat_str ?n"
      using int_str_nat(1) [of ?n] by (simp add: add.commute)
    ultimately show ?thesis
      using count n by (simp add: acked_hash_def add.commute)
  qed
  have read_count: "hget_number kv_redis key ''active_ack_count'' ''0'' (kv_put_hash key (acked_hash i ?n h) ks)
      = (Inr (int ?n), kv_put_hash key (acked_hash i ?n h) ks)"
    using n by (intro hget_number_eval) (auto simp: acked_hash_def)
  have start: "hsetnx kv_redis key (''ack:'' @ lua_tostring (int i)) ''1'' ks = (Inr 1, kv_put_hash key ?h1 ks)"
    using assms(1,5) i by simp
  have close: "close_window kv_redis key (aw_id w) t (Some (aw_kind w)) (Some (int (aw_ms w)))
      (int (aw_sched w)) (kv_put_hash key (acked_hash i ?n h) ks)
      = (Inr (2, 0, ''''), kv_put_hash key (closed_hash w (kv_now ks) (acked_hash i ?n h)) ks)"
    using close_window_eval [of "kv_put_hash key (acked_hash i ?n h) ks" key "acked_hash i ?n h" w] assms(2,4)
    by (simp add: t acked_hash_def)
  show ?thesis
    unfolding record_ack_def sbind_def start prod.case sum.case simp_thms if_True incr read_count Let_def sub
    using close f(2) by (auto simp: not_less of_nat_diff)
qed

abbreviation ack_call :: "DispatchWindow \<Rightarrow> u32 \<Rightarrow> LeaderLease \<Rightarrow> string
    \<Rightarrow> (keyspace, int \<times> int \<times> string) script" where
  "ack_call dw i l key \<equiv>
     ack_script kv_redis (lock_key l) key (leader_token l) (word_str (fencing_token l)) (window_id dw)
       (word_str i) (word_str (win_total_slices dw)) (win_plan_fingerprint dw)"

lemma ack_checks_pass:
  assumes "kv_hash ks key = Some h" "window_wf w" "window_fields h w" "i < aw_total w"
  shows "ack_active_script kv_redis key wid (word_str i) (word_str (aw_total w)) (aw_plan w) ks =
           record_ack kv_redis key wid (int (unat (aw_total w))) (int (unat i)) (Some (aw_kind w))
             (Some (int (aw_ms w))) (int (aw_sched w)) ks"
proof -
  have small: "aw_ms w < 10 ^ 14" "aw_sched w < 10 ^ 14" "card (aw_acked w) < 10 ^ 14"
    using assms(2) window_ackedD [OF assms(2)] by (auto simp: window_wf_def)
  have kind: "aw_kind w = ''once'' \<or> aw_kind w = ''every'' \<and> 0 < aw_ms w"
    using assms(2) by (auto simp: window_wf_def)
  have "hget_number kv_redis key ''active_ack_count'' ''-1'' ks = (Inr (int (card (aw_acked w))), ks)"
    using assms(1,3) small by (intro hget_number_eval) (auto simp: window_fields_def)
  moreover have "\<not> int (unat i) \<ge> int (unat (aw_total w))"
    using assms(4) by (simp only: word_less_nat_alt of_nat_le_iff not_le)
  moreover have "\<not> int (card (aw_acked w)) > int (unat (aw_total w))"
    using window_ackedD(2) [OF assms(2)] by linarith
  ultimately show ?thesis
    using assms(1,3) small kind
    by (auto simp: ack_active_script_def window_fields_def Let_def)
qed

lemma ack_checks_fail:
  assumes "kv_hash ks key = Some h" "window_fields h w"
  shows "n \<noteq> aw_total w \<Longrightarrow> ack_active_script kv_redis key wid (word_str i) (word_str n) p ks
           = (Inr (5, 0, ''dispatch slice count changed''), ks)"
    and "p \<noteq> aw_plan w \<Longrightarrow> ack_active_script kv_redis key wid (word_str i) (word_str (aw_total w)) p ks
           = (Inr (5, 0, ''dispatch plan fingerprint changed''), ks)"
  using assms by (auto simp: ack_active_script_def window_fields_def Let_def word_uint_eq_iff)

lemma ack_fresh_ledger:
  assumes "ledger_hash h lg" "lg_active lg = Some w" "i < unat (aw_total w)" "i \<notin> aw_acked w"
    and "insert i (aw_acked w) \<noteq> {..<unat (aw_total w)}"
  shows "ledger_hash (acked_hash i (Suc (card (aw_acked w))) h)
           (lg\<lparr>lg_active := Some (w\<lparr>aw_acked := insert i (aw_acked w)\<rparr>)\<rparr>)"
proof -
  have wf: "window_wf w" using assms(1,2) by (simp add: ledger_hash_def)
  then have "window_wf (w\<lparr>aw_acked := insert i (aw_acked w)\<rparr>)"
    using assms(3,5) by (auto simp: window_wf_def)
  then show ?thesis
    using assms window_ackedD(1) [OF wf]
    by (auto simp: ledger_hash_def acked_slices_def acked_hash_def window_fields_def)
qed

lemma ack_last_ledger:
  assumes "ledger_hash h lg" "lg_active lg = Some w" "insert i (aw_acked w) = {..<unat (aw_total w)}"
  shows "ledger_hash (closed_hash w now (acked_hash i n h)) (closed_ledger w lg)"
proof -
  have wf: "window_wf w" using assms(1,2) by (simp add: ledger_hash_def)
  have i: "i < unat (aw_total w)" using assms(3) by auto
  have "fmlookup (closed_hash w now (acked_hash i n h)) (''ack:'' @ nat_str j) = None" for j
    using assms(1,2) i window_ackedD(4) [OF wf] closed_hash_lookup(5) [OF wf, of now "acked_hash i n h" j]
    by (cases "j < unat (aw_total w)") (auto simp: acked_hash_def ledger_hash_def acked_slices_def)
  moreover have "fmlookup (acked_hash i n h) ''once_done'' = (if lg_once lg then Some ''1'' else None)"
    using assms(1) by (simp add: acked_hash_def ledger_hash_def)
  ultimately show ?thesis
    using wf closed_hash_lookup(1-4) [OF wf]
    by (auto simp: ledger_hash_def closed_ledger_def acked_slices_def window_wf_def)
qed

lemma card_insert_full:
  assumes "window_wf w" "i < unat (aw_total w)" "i \<notin> aw_acked w"
  shows "insert i (aw_acked w) = {..<unat (aw_total w)} \<longleftrightarrow> \<not> Suc (card (aw_acked w)) < unat (aw_total w)"
proof -
  note f = window_ackedD [OF assms(1)]
  have sub: "insert i (aw_acked w) \<subseteq> {..<unat (aw_total w)}" using f(4) assms(2) by auto
  have "card (insert i (aw_acked w)) = Suc (card (aw_acked w))" using f(1) assms(3) by simp
  moreover have "insert i (aw_acked w) = {..<unat (aw_total w)}"
    if "card (insert i (aw_acked w)) \<ge> card {..<unat (aw_total w)}"
    using card_seteq [OF _ sub that] by simp
  ultimately show ?thesis
    using card_mono [OF _ sub] by fastforce
qed

lemma ack_active_refines:
  assumes rel: "ledger_rel ks key lg" and w: "lg_active lg = Some w" and now: "kv_now ks < 10 ^ 14"
    and i: "i < aw_total w"
  shows "ledger_effect (ack_active_script kv_redis key (aw_id w) (word_str i) (word_str (aw_total w)) (aw_plan w))
           ks key (if insert (unat i) (aw_acked w) = {..<unat (aw_total w)} then (2, 0, '''')
                   else (1, int (unat (aw_total w)) - int (card (insert (unat i) (aw_acked w))), ''''))
           (ack_window w (unat i) lg)"
proof -
  from rel w obtain h where h: "kv_hash ks key = Some h" "window_fields h w" "window_wf w" "ledger_hash h lg"
    "kv_expiry ks key = None"
    by (auto simp: ledger_rel_def ledger_hash_def)
  have ack: "fmlookup h (''ack:'' @ nat_str (unat i)) = (if unat i \<in> aw_acked w then Some ''1'' else None)"
    using h(4) w by (simp add: ledger_hash_def acked_slices_def)
  have i': "unat i < unat (aw_total w)" using i by (simp add: word_less_nat_alt)
  note run = ack_checks_pass [OF h(1,3,2) i]
  note f = window_ackedD [OF h(3)]
  show ?thesis
  proof (cases "unat i \<in> aw_acked w")
    case True
    then have eq: "insert (unat i) (aw_acked w) = aw_acked w" by auto
    have "aw_acked w \<noteq> {..<unat (aw_total w)}" "lg\<lparr>lg_active := Some w\<rparr> = lg"
      using f(4) w by (blast, cases lg, simp)
    with True ack rel eq show ?thesis
      using record_ack_again [OF h(1,3,2) _ True refl] run
      by (intro ledger_effect_unchanged) (simp_all add: ack_window_def)
  next
    case False
    note fresh = record_ack_fresh [OF h(1,3,2) now _ i' False refl, unfolded Let_def]
    note full = card_insert_full [OF h(3) i' False]
    show ?thesis
    proof (cases "Suc (card (aw_acked w)) < unat (aw_total w)")
      case True
      with fresh run full ack False f(1) h(4,5) ack_fresh_ledger [OF h(4) w i' False] show ?thesis
        by (intro ledger_effect_put) (auto simp: ack_window_def)
    next
      case partial: False
      with fresh run full ack False h(4,5) ack_last_ledger [OF h(4) w] show ?thesis
        by (intro ledger_effect_put) (auto simp: ack_window_def)
    qed
  qed
qed

lemma ack_script_refines:
  assumes rel: "ledger_rel ks key lg" and live: "leader_live ks l" and now: "kv_now ks < 10 ^ 14"
    and i: "i < win_total_slices dw"
  shows "ledger_effect (ack_call dw i l key) ks key (ack_reply dw (unat i) lg) (ack_next dw (unat i) lg)"
proof (cases "lg_active lg")
  case None
  from rel obtain h where "kv_hash ks key = Some h" "ledger_hash h lg" by (auto simp: ledger_rel_def)
  with None rel leader_live_current [OF live] show ?thesis
    by (intro ledger_effect_unchanged) (auto simp: ack_script_def ack_reply_def ack_next_def ledger_hash_def)
next
  case (Some w)
  from rel Some obtain h where h: "kv_hash ks key = Some h" "window_fields h w" by (auto simp: ledger_rel_def ledger_hash_def)
  then have "fmlookup h ''active_window_id'' = Some (aw_id w)" by (simp add: window_fields_def)
  with h(1) have start: "ack_call dw i l key ks =
      (if aw_id w \<noteq> window_id dw then (Inr (5, 0, ''a different dispatch window is active''), ks)
       else ack_active_script kv_redis key (aw_id w) (word_str i) (word_str (win_total_slices dw)) (win_plan_fingerprint dw) ks)"
    using leader_live_current [OF live] by (simp add: ack_script_def)
  show ?thesis
  proof (cases "ack_applies dw (unat i) w")
    case True
    then have eqs: "aw_id w = window_id dw" "aw_total w = win_total_slices dw" "aw_plan w = win_plan_fingerprint dw"
      by (auto simp: ack_applies_def)
    have "ledger_effect (ack_active_script kv_redis key (aw_id w) (word_str i) (word_str (aw_total w)) (aw_plan w))
       ks key (ack_reply dw (unat i) lg) (ack_next dw (unat i) lg)"
      using ack_active_refines [OF rel Some now, of i] i True Some eqs
      by (simp add: ack_reply_def ack_next_def)
    with start eqs show ?thesis by (simp add: ledger_effect_def)
  next
    case False
    with i have "\<not> (aw_id w = window_id dw \<and> aw_total w = win_total_slices dw \<and> aw_plan w = win_plan_fingerprint dw)"
      by (auto simp: ack_applies_def word_less_nat_alt)
    then consider "aw_id w \<noteq> window_id dw" | "aw_id w = window_id dw" "win_total_slices dw \<noteq> aw_total w"
      | "aw_id w = window_id dw" "win_total_slices dw = aw_total w" "win_plan_fingerprint dw \<noteq> aw_plan w"
      by metis
    then show ?thesis
      using False start rel Some ack_checks_fail [OF h]
      by (cases, auto intro!: ledger_effect_unchanged simp: ack_reply_def ack_next_def)
  qed
qed

section \<open>The operations on the ledger\<close>

definition ledger_refined ::
  "keyspace \<Rightarrow> string \<Rightarrow> ledger \<Rightarrow> ledger \<Rightarrow> string \<Rightarrow> net
     \<Rightarrow> (coordination_error, 'a) result \<times> keyspace \<Rightarrow> (coordination_error, 'a) result \<Rightarrow> bool" where
  "ledger_refined ks key lg lg' op net run expected \<longleftrightarrow>
     ks_clock (snd run) = ks_clock ks \<and>
     (\<forall>k. k \<noteq> key \<longrightarrow> kv_entry (snd run) k = kv_entry ks k) \<and>
     (ledger_rel (snd run) key lg' \<and> fst run = expected \<or>
      (ledger_rel (snd run) key lg \<or> ledger_rel (snd run) key lg') \<and>
      ((\<exists>msg. fst run = Inl (Unavailable op msg)) \<or> fst run = Inl (Timeout op)) \<and>
      \<not> (connecting net = Delivered \<and> invoking net = Delivered))"

lemma ledger_refined_invoke:
  assumes eff: "ledger_effect m ks key reply lg'" and rel: "ledger_rel ks key lg"
    and k: "\<And>t. k reply t = (expected, t)"
  shows "ledger_refined ks key lg lg' op net (sbind (redis_invoke op net m) k ks) expected"
proof -
  obtain x ks1 where x: "redis_invoke op net m ks = (x, ks1)" by fastforce
  from eff obtain ks' where ks': "m ks = (Inr reply, ks')" "ledger_rel ks' key lg'" "ks_clock ks' = ks_clock ks"
    "\<And>k. k \<noteq> key \<Longrightarrow> kv_entry ks' k = kv_entry ks k"
    by (auto simp: ledger_effect_def)
  have ks1: "ks1 = ks \<or> ks1 = ks'"
    using redis_invoke_state [of op net m ks] x ks'(1) by auto
  show ?thesis
  proof (cases x)
    case (Inl e)
    have "\<not> (connecting net = Delivered \<and> invoking net = Delivered)"
      using ks'(1) x Inl redis_invoke_delivered [of net m ks reply ks' op] by auto
    with Inl x ks' ks1 rel redis_invoke_error [of op net m ks e ks1] show ?thesis
      by (auto simp: ledger_refined_def)
  next
    case (Inr v)
    with x ks'(1) have "v = reply" "ks1 = ks'" by (auto simp: redis_invoke_Inr)
    with Inr x ks' k show ?thesis by (simp add: ledger_refined_def)
  qed
qed

lemma spec_repeat_args:
  assumes "spec_ok spec now"
  shows "repeat_args (spec_repeat spec) op
           = Inr (repeat_kind_of (spec_repeat spec), int (repeat_ms_of (spec_repeat spec)))"
  using assms
  by (cases "spec_repeat spec")
     (auto simp: repeat_args_def repeat_kind_of_def repeat_ms_of_def spec_ok_def duration_ms_def Let_def)

lemma missing_slices_parse:
  assumes "window_wf w"
  shows "parse_missing_slices op (slice_names (missing_slices w)) (aw_total w) = Inr (map of_nat (missing_slices w))"
    and "missing_slices w \<noteq> []"
proof -
  show "parse_missing_slices op (slice_names (missing_slices w)) (aw_total w) = Inr (map of_nat (missing_slices w))"
    by (rule parse_slice_names) (auto simp: missing_slices_def intro: sorted_wrt_filter sorted_wrt_upt)
  show "missing_slices w \<noteq> []"
    using window_ackedD(4) [OF assms] by (auto simp: missing_slices_def filter_empty_conv)
qed

lemma new_window_wf:
  "spec_ok spec now \<Longrightarrow> sched \<le> now \<Longrightarrow> window_wf (new_window spec sched)"
  by (cases "spec_repeat spec")
     (auto simp: window_wf_def new_window_def spec_ok_def repeat_kind_of_def repeat_ms_of_def)

lemma new_window_simps [simp]:
  "aw_id (new_window spec sched) = new_window_id spec sched" "aw_sched (new_window spec sched) = sched"
  "aw_total (new_window spec sched) = spec_total_slices spec" "aw_acked (new_window spec sched) = {}"
  "aw_plan (new_window spec sched) = spec_plan_fingerprint spec"
  by (simp_all add: new_window_def)

lemma missing_new_window: "missing_slices (new_window spec sched) = [0..<unat (spec_total_slices spec)]"
  by (simp add: missing_slices_def new_window_def)

lemma prepare_response_ready:
  assumes "window_wf w" "aw_total w = spec_total_slices spec" "aw_sched w < 10 ^ 14"
  shows "prepare_response op spec (1, aw_id w, int (aw_sched w), slice_names (missing_slices w), 0, '''')
           = Inr (Ready (ready_window spec w))"
  using missing_slices_parse [OF assms(1)] assms(2,3)
  by (simp add: prepare_response_def ready_window_def as_u64_def ucast_of_nat_small)

lemma prepare_response_outcome:
  assumes rel: "ledger_rel ks key lg" and spec: "spec_ok spec (kv_now ks)"
  shows "prepare_response ''dispatch_prepare_window'' spec (prepare_reply spec (kv_now ks) lg)
           = prepare_outcome spec (kv_now ks) lg"
proof (cases "lg_active lg")
  case None
  let ?due = "due_time lg (kv_now ks)"
  have now: "kv_now ks < 10 ^ 14" using spec by (simp add: spec_ok_def)
  have "prepare_response ''dispatch_prepare_window'' spec
      (1, new_window_id spec ?due, int ?due, slice_names [0..<unat (spec_total_slices spec)], 0, '''')
      = Inr (Ready (ready_window spec (new_window spec ?due)))" if "?due \<le> kv_now ks"
    using prepare_response_ready [OF new_window_wf [OF spec that], of spec] that now
    by (simp add: missing_new_window)
  then show ?thesis
    using None
    by (auto simp: prepare_reply_def prepare_outcome_def)
       (auto simp: prepare_response_def duration_from_nonnegative_ms_def nat_int_diff)
next
  case (Some w)
  then have "window_wf w" "aw_sched w < 10 ^ 14"
    using rel by (auto simp: ledger_rel_def ledger_hash_def window_wf_def)
  then show ?thesis
    using Some prepare_response_ready [of w spec]
    by (auto simp: prepare_reply_def prepare_outcome_def window_matches_def)
       (auto simp: prepare_response_def)
qed

lemma prepare_refined:
  assumes rel: "ledger_rel ks (schedule_key store (spec_scenario_id spec)) lg" and live: "leader_live ks l"
    and spec: "spec_ok spec (kv_now ks)" and fence: "unat (fencing_token l) < 2 ^ 63"
  shows "ledger_refined ks (schedule_key store (spec_scenario_id spec)) lg (prepare_next spec (kv_now ks) lg)
           ''dispatch_prepare_window'' net (prepare_window kv_redis store spec l net ks)
           (prepare_outcome spec (kv_now ks) lg)"
proof -
  let ?key = "schedule_key store (spec_scenario_id spec)"
  have eff: "ledger_effect (prepare_call spec l ?key) ks ?key (prepare_reply spec (kv_now ks) lg)
      (prepare_next spec (kv_now ks) lg)"
  proof (cases "lg_active lg")
    case None
    with assms show ?thesis by (intro prepare_idle)
  next
    case (Some w)
    with prepare_active [OF rel Some live spec] rel show ?thesis
      by (intro ledger_effect_unchanged) (auto simp: prepare_next_def)
  qed
  have checks: "trim (spec_scenario_id spec) \<noteq> []" "spec_contract_version spec \<noteq> 0" "spec_total_slices spec \<noteq> 0"
    "\<not> spec_total_slices spec > MAX_DISPATCH_SLICES" "trim (spec_plan_fingerprint spec) \<noteq> []"
    using spec by (auto simp: spec_ok_def MAX_DISPATCH_SLICES_def word_less_nat_alt)
  note response = prepare_response_outcome [OF rel spec]
  show ?thesis
    unfolding prepare_window_def Let_def
    using checks spec_repeat_args [OF spec, of "''dispatch_prepare_window''"] fence
    by (simp add: try_i64_def flip: word_str_def)
       (rule ledger_refined_invoke [OF eff rel], simp add: response)
qed

lemma ack_refined:
  assumes rel: "ledger_rel ks (schedule_key store (win_scenario_id dw)) lg" and live: "leader_live ks l"
    and now: "kv_now ks < 10 ^ 14" and fence: "unat (fencing_token l) < 2 ^ 63"
    and i: "i < win_total_slices dw" "win_total_slices dw \<le> MAX_DISPATCH_SLICES"
  shows "ledger_refined ks (schedule_key store (win_scenario_id dw)) lg (ack_next dw (unat i) lg)
           ''dispatch_ack_slice'' net (ack_slice kv_redis store dw i l net ks) (ack_outcome dw (unat i) lg)"
proof -
  have checks: "\<not> i \<ge> win_total_slices dw" "win_total_slices dw \<noteq> 0" "\<not> win_total_slices dw > MAX_DISPATCH_SLICES"
    using i by (auto simp: not_le)
  have active: "0 \<le> int (unat (aw_total w)) - int (card (insert (unat i) (aw_acked w)))"
    "int (unat (aw_total w)) - int (card (insert (unat i) (aw_acked w))) < 4294967296"
    "of_nat (unat (aw_total w) - card (insert (unat i) (aw_acked w)))
       = aw_total w - of_nat (card (insert (unat i) (aw_acked w)))"
    if "lg_active lg = Some w" "aw_total w = win_total_slices dw" for w
  proof -
    have wf: "window_wf w" using rel that by (auto simp: ledger_rel_def ledger_hash_def)
    have "insert (unat i) (aw_acked w) \<subseteq> {..<unat (aw_total w)}"
      using window_ackedD(4) [OF wf] i(1) that(2) by (auto simp: word_less_nat_alt)
    then have "card (insert (unat i) (aw_acked w)) \<le> unat (aw_total w)"
      using card_mono [of "{..<unat (aw_total w)}"] by fastforce
    then show "of_nat (unat (aw_total w) - card (insert (unat i) (aw_acked w)))
       = aw_total w - of_nat (card (insert (unat i) (aw_acked w)))"
      by (simp add: of_nat_diff)
    show "0 \<le> int (unat (aw_total w)) - int (card (insert (unat i) (aw_acked w)))"
      "int (unat (aw_total w)) - int (card (insert (unat i) (aw_acked w))) < 4294967296"
      using \<open>card (insert (unat i) (aw_acked w)) \<le> _\<close> window_ackedD(3) [OF wf] by linarith+
  qed
  show ?thesis
    unfolding ack_slice_def Let_def
    using checks fence
    apply (simp add: try_i64_def flip: word_str_def)
    apply (rule ledger_refined_invoke [OF ack_script_refines [OF rel live now i(1)] rel])
    using active by (cases "lg_active lg") (auto simp: ack_reply_def ack_outcome_def Let_def of_nat_diff)
qed

end
