(* ===== verification/Dispatch_Windows.thy ===== *)
theory Dispatch_Windows
  imports Dispatch_Ledger
begin

text \<open>
  The properties of the dispatch ledger on every Redis server: preparing and acknowledging
  refine the abstract ledger, a leader that lost its lease changes nothing, acknowledging the
  missing slices of a prepared window closes it exactly once, and the identity of a window
  determines its contract version, scenario, due time and slice count.
\<close>

section \<open>Servers\<close>

context redis_server
begin

lemma refresh_registered_sim:
  "simulates view (=) (refresh_registered R k a b n m) (refresh_registered kv_redis k a b n m)"
  unfolding refresh_registered_def by (auto intro!: simulation ledger_sims)

lemma registered_mismatch_sim:
  "simulates view (=) (registered_mismatch R k a b c n) (registered_mismatch kv_redis k a b c n)"
  unfolding registered_mismatch_def by (auto intro!: simulation ledger_sims)

lemma register_script_sim:
  "simulates view (=) (register_script R k1 k2 k3 a b c d e f g) (register_script kv_redis k1 k2 k3 a b c d e f g)"
  unfolding register_script_def
  by (cases "lua_tonumber d"; cases "lua_tonumber e"; cases "lua_tonumber f"; cases "lua_tonumber g")
     (auto intro!: simulation ledger_sims refresh_registered_sim registered_mismatch_sim)

lemma register_sim:
  "simulates view (=) (register_run R st w d net) (register_run kv_redis st w d net)"
  unfolding register_run_def Let_def
  by (auto intro!: simulation register_script_sim split: option.splits)

end

section \<open>Leaders that lost their lease\<close>

text \<open>A run is refused when it ends with an error and leaves the server as it was.\<close>

definition refused :: "'s \<Rightarrow> ('e + 'a) \<times> 's \<Rightarrow> bool" where
  "refused s run \<longleftrightarrow> snd run = s \<and> (\<exists>e. fst run = Inl e)"

lemma refused_lift: "(\<And>x. r = Inr x \<Longrightarrow> refused s (k x s)) \<Longrightarrow> refused s (sbind (slift r) k s)"
  by (cases r) (auto simp: refused_def)

lemma refused_lift_prod:
  "(\<And>a b. r = Inr (a, b) \<Longrightarrow> refused s (k a b s)) \<Longrightarrow> refused s (sbind (slift r) (\<lambda>(a, b). k a b) s)"
  by (rule refused_lift) auto

lemma refused_invoke:
  assumes "m s = (Inr x, s)" "refused s (k x s)"
  shows "refused s (sbind (redis_invoke op net m) k s)"
proof (cases "redis_invoke op net m s")
  case (Pair r s')
  have "s' = s"
    using redis_invoke_state [of op net m s] Pair assms(1) by auto
  with Pair assms show ?thesis
    by (cases r) (auto simp: refused_def redis_invoke_Inr)
qed

lemma try_i64_fence: "try_i64 op msg w = Inr i \<Longrightarrow> int_str i = word_str w"
  by (auto simp: try_i64_def word_str_def split: if_splits)

lemma prepare_lost:
  assumes "leader_lost ks l"
  shows "refused ks (prepare_window kv_redis store spec l net ks)"
  unfolding prepare_window_def Let_def
  apply (rule refused_lift, rule refused_lift_prod, rule refused_lift)
  apply (rule refused_invoke [where x = "(4, '''', 0, '''', 0, ''leader lease is stale'')"])
  using leader_lost_current [OF assms]
  by (simp_all add: try_i64_fence prepare_script_def prepare_response_def refused_def)

lemma ack_lost:
  assumes "leader_lost ks l"
  shows "refused ks (ack_slice kv_redis store dw i l net ks)"
  unfolding ack_slice_def Let_def
  apply (rule refused_lift, rule refused_lift)
  apply (rule refused_invoke [where x = "(4, 0, ''leader lease is stale'')"])
  using leader_lost_current [OF assms]
  by (simp_all add: try_i64_fence ack_script_def refused_def)

lemma refused_view: "refused (view s) (server_run view run) \<longleftrightarrow> view (snd run) = view s \<and> (\<exists>e. fst run = Inl e)"
  by (auto simp: refused_def server_run_def)

section \<open>Closing a window\<close>

definition same_window :: "DispatchWindow \<Rightarrow> active_window \<Rightarrow> bool" where
  "same_window dw w \<longleftrightarrow>
     aw_id w = window_id dw \<and> aw_total w = win_total_slices dw \<and> aw_plan w = win_plan_fingerprint dw"

lemma pending_step:
  assumes "window_wf w" "distinct (i # is)" and all: "set (i # is) = {..<unat (aw_total w)} - aw_acked w"
  shows "i < unat (aw_total w)"
    and "is = [] \<Longrightarrow> insert i (aw_acked w) = {..<unat (aw_total w)}"
    and "is \<noteq> [] \<Longrightarrow> insert i (aw_acked w) \<noteq> {..<unat (aw_total w)}"
    and "is \<noteq> [] \<Longrightarrow> window_wf (w\<lparr>aw_acked := insert i (aw_acked w)\<rparr>)"
    and "set is = {..<unat (aw_total w)} - insert i (aw_acked w)"
proof -
  have i: "i \<in> {..<unat (aw_total w)} - aw_acked w" unfolding all [symmetric] by simp
  then show "i < unat (aw_total w)" by simp
  have "set is = set (i # is) - {i}" using assms(2) by auto
  also have "\<dots> = ({..<unat (aw_total w)} - aw_acked w) - {i}" by (rule arg_cong [OF all])
  also have "\<dots> = {..<unat (aw_total w)} - insert i (aw_acked w)" by auto
  finally show rest: "set is = {..<unat (aw_total w)} - insert i (aw_acked w)" .
  have sub: "insert i (aw_acked w) \<subseteq> {..<unat (aw_total w)}" using i window_ackedD(4) [OF assms(1)] by auto
  show "is = [] \<Longrightarrow> insert i (aw_acked w) = {..<unat (aw_total w)}" using rest sub by auto
  assume "is \<noteq> []"
  then have "set is \<noteq> {}" by simp
  then show ne: "insert i (aw_acked w) \<noteq> {..<unat (aw_total w)}" unfolding rest by blast
  show "window_wf (w\<lparr>aw_acked := insert i (aw_acked w)\<rparr>)"
    using assms(1) ne sub by (auto simp: window_wf_def)
qed

lemma ledger_refined_reliable:
  assumes "ledger_refined ks key lg lg' op reliable run (Inr v)"
  obtains ks' where "run = (Inr v, ks')" "ledger_rel ks' key lg'" "kv_now ks' = kv_now ks"
    "\<And>k. k \<noteq> key \<Longrightarrow> kv_entry ks' k = kv_entry ks k"
  using assms by (cases run) (auto simp: ledger_refined_def kv_now_def)

lemma leader_live_frame:
  "leader_live ks l \<Longrightarrow> kv_now ks' = kv_now ks \<Longrightarrow> kv_entry ks' (lock_key l) = kv_entry ks (lock_key l) \<Longrightarrow>
   leader_live ks' l"
  by (simp add: leader_live_def)

abbreviation ack_all :: "'s redis \<Rightarrow> RedisDueStateStore \<Rightarrow> DispatchWindow \<Rightarrow> LeaderLease \<Rightarrow> u32 list
    \<Rightarrow> DispatchProgress \<Rightarrow> ('s, coordination_error, DispatchProgress) action" where
  "ack_all R store dw l slices progress \<equiv>
     sfold (\<lambda>i _. ack_slice R store dw i l reliable) slices progress"

lemma ack_all_closes:
  assumes "ledger_rel ks (schedule_key store (win_scenario_id dw)) lg" "lg_active lg = Some w" "same_window dw w"
    and "distinct is" "set is = {..<unat (aw_total w)} - aw_acked w"
    and "leader_live ks l" "kv_now ks < 10 ^ 14"
    and fixed: "unat (fencing_token l) < 2 ^ 63" "lock_key l \<noteq> schedule_key store (win_scenario_id dw)"
  shows "\<exists>ks'. ack_all kv_redis store dw l (map of_nat is) p ks = (Inr DispatchComplete, ks') \<and>
           ledger_rel ks' (schedule_key store (win_scenario_id dw)) (closed_ledger w lg)"
  using assms(1-7)
proof (induction "is" arbitrary: w lg ks p)
  case Nil
  then have "window_wf w" by (auto simp: ledger_rel_def ledger_hash_def)
  with Nil.prems(5) show ?case using window_ackedD(4) [of w] by auto
next
  case (Cons i "is")
  let ?key = "schedule_key store (win_scenario_id dw)"
  have wf: "window_wf w" using Cons.prems(1,2) by (auto simp: ledger_rel_def ledger_hash_def)
  note step = pending_step [OF wf Cons.prems(4,5)]
  note same = Cons.prems(3) [unfolded same_window_def]
  have tot: "unat (aw_total w) \<le> 4096" using window_ackedD(3) [OF wf] .
  then have word: "unat (of_nat i :: u32) = i" using step(1) by (simp add: unat_of_nat)
  have bound: "(of_nat i :: u32) < win_total_slices dw" "win_total_slices dw \<le> MAX_DISPATCH_SLICES"
    using step(1) same word tot by (auto simp: word_less_nat_alt word_le_nat_alt MAX_DISPATCH_SLICES_def)
  have next_lg: "ack_next dw i lg = ack_window w i lg"
    using Cons.prems(2) same step(1) by (simp add: ack_next_def ack_applies_def)
  note ref = ack_refined [OF Cons.prems(1,6,7) fixed(1) bound, of reliable, unfolded word next_lg]
  show ?case
  proof (cases "is = []")
    case True
    with step(2) ref Cons.prems(2) same obtain ks' where
      "ack_slice kv_redis store dw (of_nat i) l reliable ks = (Inr DispatchComplete, ks')"
      "ledger_rel ks' ?key (closed_ledger w lg)"
      by (auto simp: ack_outcome_def ack_window_def Let_def elim: ledger_refined_reliable)
    with True show ?thesis by simp
  next
    case False
    let ?w = "w\<lparr>aw_acked := insert i (aw_acked w)\<rparr>"
    from step(3) [OF False] ref Cons.prems(2) same obtain ks' v where
      run: "ack_slice kv_redis store dw (of_nat i) l reliable ks = (Inr v, ks')"
      and rel: "ledger_rel ks' ?key (lg\<lparr>lg_active := Some ?w\<rparr>)" and now: "kv_now ks' = kv_now ks"
      and frame: "\<And>k. k \<noteq> ?key \<Longrightarrow> kv_entry ks' k = kv_entry ks k"
      by (auto simp: ack_outcome_def ack_window_def Let_def elim: ledger_refined_reliable)
    have "leader_live ks' l" using Cons.prems(6) now frame [OF fixed(2)] by (rule leader_live_frame)
    then have "\<exists>ks''. ack_all kv_redis store dw l (map of_nat is) v ks' = (Inr DispatchComplete, ks'') \<and>
        ledger_rel ks'' ?key (closed_ledger ?w (lg\<lparr>lg_active := Some ?w\<rparr>))"
      using Cons.IH [OF rel, of ?w v] Cons.prems(4,7) same step(5) now by (simp add: same_window_def)
    moreover have "closed_ledger ?w (lg\<lparr>lg_active := Some ?w\<rparr>) = closed_ledger w lg"
      by (simp add: closed_ledger_def)
    ultimately show ?thesis using run by simp
  qed
qed

section \<open>Properties\<close>

text \<open>C11: Preparing a window refines the abstract ledger on every Redis server: an idle schedule that
  is due opens a window for its due time with every slice missing, an open window of the same
  specification is handed out again with exactly its unacknowledged slices, a schedule that is not
  due reports the remaining wait, a finished one-shot schedule stays finished, and an open window
  of another specification is refused; a lost request leaves the ledger as it was or as the
  transition makes it and is reported as an error.\<close>

theorem dispatch_prepare_refines:
  assumes "redis_server R view" "ledger_rel (view s) (schedule_key store (spec_scenario_id spec)) lg"
    and "leader_live (view s) l" "spec_ok spec (kv_now (view s))" "unat (fencing_token l) < 2 ^ 63"
  shows "ledger_refined (view s) (schedule_key store (spec_scenario_id spec)) lg
           (prepare_next spec (kv_now (view s)) lg) ''dispatch_prepare_window'' net
           (server_run view (prepare_window R store spec l net s))
           (prepare_outcome spec (kv_now (view s)) lg)"
  unfolding server_run_simulates [OF redis_server.prepare_sim [OF assms(1)]]
  by (rule prepare_refined [OF assms(2-5)])

text \<open>C12: Acknowledging a slice refines the abstract ledger on every Redis server: the slice is added
  to the acknowledged set of the open window, repeating it changes nothing, the last missing slice
  closes the window and sets the next due time, an acknowledgement of the last closed window is
  confirmed, and a window with another identity, slice count or plan is refused without a
  change.\<close>

theorem dispatch_ack_refines:
  assumes "redis_server R view" "ledger_rel (view s) (schedule_key store (win_scenario_id dw)) lg"
    and "leader_live (view s) l" "kv_now (view s) < 10 ^ 14" "unat (fencing_token l) < 2 ^ 63"
    and "i < win_total_slices dw" "win_total_slices dw \<le> MAX_DISPATCH_SLICES"
  shows "ledger_refined (view s) (schedule_key store (win_scenario_id dw)) lg (ack_next dw (unat i) lg)
           ''dispatch_ack_slice'' net (server_run view (ack_slice R store dw i l net s))
           (ack_outcome dw (unat i) lg)"
  unfolding server_run_simulates [OF redis_server.ack_sim [OF assms(1)]]
  by (rule ack_refined [OF assms(2-7)])

text \<open>C13: A node whose leadership record is gone or names another owner or another fencing token can
  neither prepare a window nor acknowledge a slice: both operations end with an error and leave
  the whole server unchanged, whatever the network does.\<close>

theorem stale_leader_cannot_dispatch:
  assumes "redis_server R view" "leader_lost (view s) l"
  shows "refused (view s) (server_run view (prepare_window R store spec l net s)) \<and>
         refused (view s) (server_run view (ack_slice R store dw i l net s))"
  using server_run_simulates [OF redis_server.prepare_sim [OF assms(1)]] prepare_lost [OF assms(2)]
    server_run_simulates [OF redis_server.ack_sim [OF assms(1)]] ack_lost [OF assms(2)]
  by simp

lemma prepare_outcome_ready:
  assumes "prepare_outcome spec now lg = Inr (Ready dw)"
  obtains w where "lg_active (prepare_next spec now lg) = Some w" "dw = ready_window spec w"
    "aw_total w = spec_total_slices spec" "aw_plan w = spec_plan_fingerprint spec"
    "aw_kind w = repeat_kind_of (spec_repeat spec)" "aw_ms w = repeat_ms_of (spec_repeat spec)"
proof (cases "lg_active lg")
  case None
  with assms show thesis
    by (intro that [of "new_window spec (due_time lg now)"])
       (auto simp: prepare_outcome_def prepare_next_def new_window_def split: if_splits)
next
  case (Some w)
  with assms show thesis
    by (intro that [of w]) (auto simp: prepare_outcome_def prepare_next_def window_matches_def split: if_splits)
qed

text \<open>C10: A round of the scheduler closes the window it prepared: when a window was prepared and each
  slice it reported missing is acknowledged, every acknowledgement succeeds and the last one reports
  completion; the ledger then has no open window, remembers the window as the last one completed,
  and is due again exactly one repeat interval after the due time of the window (a one-shot
  schedule is marked as done instead).\<close>

theorem dispatch_round_closes_window:
  assumes server: "redis_server R view"
    and rel: "ledger_rel (view s) (schedule_key store (spec_scenario_id spec)) lg"
    and live: "leader_live (view s) l" and spec: "spec_ok spec (kv_now (view s))"
    and fence: "unat (fencing_token l) < 2 ^ 63" "lock_key l \<noteq> schedule_key store (spec_scenario_id spec)"
    and prepared: "prepare_window R store spec l reliable s = (Inr (Ready dw), s1)"
  shows "\<exists>s2 lg2. ack_all R store dw l (win_missing_slices dw) (Pending 0) s1 = (Inr DispatchComplete, s2) \<and>
           ledger_rel (view s2) (schedule_key store (spec_scenario_id spec)) lg2 \<and>
           lg_active lg2 = None \<and> lg_last lg2 = Some (window_id dw) \<and>
           (case spec_repeat spec of
              Once \<Rightarrow> lg_once lg2 \<and> lg_next lg2 = None
            | Every d \<Rightarrow> lg_next lg2 = Some (unat (win_scheduled_at dw) + as_millis d))"
proof -
  let ?key = "schedule_key store (spec_scenario_id spec)" and ?now = "kv_now (view s)"
  have run: "prepare_window kv_redis store spec l reliable (view s) = (Inr (Ready dw), view s1)"
    using server_run_simulates [OF redis_server.prepare_sim [OF server], of store spec l reliable s] prepared
    by (simp add: server_run_def)
  have out: "prepare_outcome spec ?now lg = Inr (Ready dw)"
    and rel1: "ledger_rel (view s1) ?key (prepare_next spec ?now lg)"
    and now: "kv_now (view s1) = ?now" and frame: "kv_entry (view s1) (lock_key l) = kv_entry (view s) (lock_key l)"
    using prepare_refined [OF rel live spec fence(1), of reliable] fence(2) unfolding run
    by (auto simp: ledger_refined_def kv_now_def)
  from out obtain w where w: "lg_active (prepare_next spec ?now lg) = Some w" "dw = ready_window spec w"
    "aw_total w = spec_total_slices spec" "aw_plan w = spec_plan_fingerprint spec"
    "aw_kind w = repeat_kind_of (spec_repeat spec)" "aw_ms w = repeat_ms_of (spec_repeat spec)"
    by (rule prepare_outcome_ready)
  have key: "win_scenario_id dw = spec_scenario_id spec" by (simp add: w(2) ready_window_def)
  have "\<exists>ks'. ack_all kv_redis store dw l (map of_nat (missing_slices w)) (Pending 0) (view s1)
        = (Inr DispatchComplete, ks') \<and> ledger_rel ks' ?key (closed_ledger w (prepare_next spec ?now lg))"
    unfolding key [symmetric]
  proof (rule ack_all_closes)
    show "leader_live (view s1) l" using live now frame by (rule leader_live_frame)
    show "set (missing_slices w) = {..<unat (aw_total w)} - aw_acked w" by (auto simp: missing_slices_def)
    show "same_window dw w" using w by (simp add: same_window_def ready_window_def)
  qed (use rel1 w(1) key fence spec now in \<open>auto simp: missing_slices_def spec_ok_def\<close>)
  then obtain ks' where ks': "ack_all kv_redis store dw l (win_missing_slices dw) (Pending 0) (view s1)
      = (Inr DispatchComplete, ks')" "ledger_rel ks' ?key (closed_ledger w (prepare_next spec ?now lg))"
    by (auto simp: w(2) ready_window_def)
  have sim: "simulates view (=) (ack_all R store dw l (win_missing_slices dw) (Pending 0))
      (ack_all kv_redis store dw l (win_missing_slices dw) (Pending 0))"
    by (intro simulates_fold redis_server.ack_sim [OF server])
  obtain s2 where s2: "ack_all R store dw l (win_missing_slices dw) (Pending 0) s1 = (Inr DispatchComplete, s2)"
    "view s2 = ks'"
    using server_run_simulates [OF sim, of s1] ks'(1) by (cases "ack_all R store dw l (win_missing_slices dw) (Pending 0) s1") (auto simp: server_run_def)
  have "aw_sched w < 10 ^ 14" using rel1 w(1) by (auto simp: ledger_rel_def ledger_hash_def window_wf_def)
  then have "unat (win_scheduled_at dw) = aw_sched w" by (simp add: w(2) ready_window_def unat_of_nat)
  with s2 ks'(2) w show ?thesis
    by (intro exI [of _ s2] exI [of _ "closed_ledger w (prepare_next spec ?now lg)"])
       (auto simp: closed_ledger_def ready_window_def repeat_kind_of_def repeat_ms_of_def split: RepeatPolicy.splits)
qed

section \<open>Concrete runs\<close>

definition led_server :: keyspace where
  "led_server = \<lparr>ks_data = [''lock'' \<mapsto> (RHash (fmupds [(''owner'', ''t''), (''fence'', ''1'')] fmempty), Some 60000)],
                 ks_clock = 0\<rparr>"

definition demo_leader :: LeaderLease where
  "demo_leader = \<lparr>lock_key = ''lock'', lease_node_id = ''n'', leader_token = ''t'', fencing_token = 1,
                  leader_expires_at = 60000, leader_ttl = from_secs 60\<rparr>"

definition demo_ledger_store :: RedisDueStateStore where
  "demo_ledger_store = \<lparr>schedule_prefix = ''due'', aggregation_registration = None\<rparr>"

definition demo_spec :: DispatchSpec where
  "demo_spec = \<lparr>spec_scenario_id = ''s'', spec_contract_version = 1, spec_total_slices = 2,
                spec_repeat = Every (from_secs 60), spec_plan_fingerprint = ''p''\<rparr>"

definition idle_ledger :: ledger where
  "idle_ledger = \<lparr>lg_active = None, lg_next = None, lg_once = False, lg_last = None\<rparr>"

abbreviation demo_key :: string where
  "demo_key \<equiv> schedule_key demo_ledger_store ''s''"

lemma demo_fields [simp]:
  "lock_key demo_leader = ''lock''" "leader_token demo_leader = ''t''" "fencing_token demo_leader = 1"
  "spec_scenario_id demo_spec = ''s''" "spec_repeat demo_spec = Every (from_secs 60)"
  "kv_now led_server = 0" "demo_key = ''due:s''"
  by (simp_all add: demo_leader_def demo_spec_def led_server_def kv_now_def schedule_key_def demo_ledger_store_def)

lemma word_str_one: "word_str (1 :: u64) = ''1''"
  by (simp add: word_str_def nat_str.simps)

lemma demo_live: "leader_live led_server demo_leader"
  by (simp add: leader_live_def kv_entry_def word_str_one) (simp add: led_server_def kv_now_def)

lemma demo_idle: "ledger_rel led_server demo_key idle_ledger"
  by (simp add: ledger_rel_def kv_expiry_def kv_hash_def kv_live_def kv_entry_def led_server_def
      ledger_hash_def idle_ledger_def acked_slices_def)

lemma demo_spec_ok: "spec_ok demo_spec 0"
  using trim_not_empty [of "CHR ''s''" "''s''"] trim_not_empty [of "CHR ''p''" "''p''"]
  by (auto simp: spec_ok_def demo_spec_def graphic_def as_millis_def from_secs_def repeat_ms_of_def)

lemma demo_prepare:
  "prepare_next demo_spec 0 idle_ledger = idle_ledger\<lparr>lg_active := Some (new_window demo_spec 0)\<rparr>"
  "prepare_outcome demo_spec 0 idle_ledger = Inr (Ready (ready_window demo_spec (new_window demo_spec 0)))"
  by (simp_all add: prepare_next_def prepare_outcome_def idle_ledger_def due_time_def)

lemma demo_prepared:
  obtains ks where
    "prepare_window kv_redis demo_ledger_store demo_spec demo_leader reliable led_server
       = (Inr (Ready (ready_window demo_spec (new_window demo_spec 0))), ks)"
    "ledger_rel ks demo_key (idle_ledger\<lparr>lg_active := Some (new_window demo_spec 0)\<rparr>)"
    "leader_live ks demo_leader" "kv_now ks = 0"
proof -
  have "ledger_refined led_server demo_key idle_ledger (prepare_next demo_spec 0 idle_ledger)
      ''dispatch_prepare_window'' reliable
      (prepare_window kv_redis demo_ledger_store demo_spec demo_leader reliable led_server)
      (prepare_outcome demo_spec 0 idle_ledger)"
    using prepare_refined [of led_server demo_ledger_store demo_spec idle_ledger demo_leader reliable]
      demo_live demo_idle demo_spec_ok by simp
  from ledger_refined_reliable [OF this [unfolded demo_prepare]]
  obtain ks where ks: "prepare_window kv_redis demo_ledger_store demo_spec demo_leader reliable led_server
       = (Inr (Ready (ready_window demo_spec (new_window demo_spec 0))), ks)"
    "ledger_rel ks demo_key (idle_ledger\<lparr>lg_active := Some (new_window demo_spec 0)\<rparr>)"
    "kv_now ks = kv_now led_server" "\<And>k. k \<noteq> demo_key \<Longrightarrow> kv_entry ks k = kv_entry led_server k"
    by metis
  moreover have "leader_live ks demo_leader"
    using ks(3,4) by (intro leader_live_frame [OF demo_live]) auto
  ultimately show thesis by (intro that [of ks]) simp_all
qed

theorem dispatch_prepare_refines_witness:
  "ledger_refined led_server demo_key idle_ledger (idle_ledger\<lparr>lg_active := Some (new_window demo_spec 0)\<rparr>)
     ''dispatch_prepare_window'' reliable
     (server_run id (prepare_window kv_redis demo_ledger_store demo_spec demo_leader reliable led_server))
     (Inr (Ready (ready_window demo_spec (new_window demo_spec 0))))"
  using dispatch_prepare_refines [OF kv.redis_server_axioms, of led_server demo_ledger_store demo_spec
      idle_ledger demo_leader reliable] demo_live demo_idle demo_spec_ok
  by (simp add: demo_prepare)

theorem dispatch_ack_refines_witness:
  "\<exists>ks. ledger_refined ks demo_key (idle_ledger\<lparr>lg_active := Some (new_window demo_spec 0)\<rparr>)
     (idle_ledger\<lparr>lg_active := Some (new_window demo_spec 0\<lparr>aw_acked := {1}\<rparr>)\<rparr>) ''dispatch_ack_slice'' reliable
     (server_run id (ack_slice kv_redis demo_ledger_store (ready_window demo_spec (new_window demo_spec 0)) 1
        demo_leader reliable ks)) (Inr (Pending 1))"
proof -
  let ?lg = "idle_ledger\<lparr>lg_active := Some (new_window demo_spec 0)\<rparr>"
  let ?dw = "ready_window demo_spec (new_window demo_spec 0)"
  obtain ks where ks: "ledger_rel ks demo_key ?lg" "leader_live ks demo_leader" "kv_now ks = 0"
    by (rule demo_prepared) (rule that)
  have two: "spec_total_slices demo_spec = 2" "win_total_slices ?dw = 2" "win_scenario_id ?dw = ''s''"
    by (simp_all add: demo_spec_def ready_window_def)
  have "insert 1 {} \<noteq> {..<2 :: nat}"
  proof
    assume eq: "insert 1 {} = {..<2 :: nat}"
    have "(0 :: nat) \<in> {..<2}" by simp
    then show False unfolding eq [symmetric] by simp
  qed
  then have "ack_next ?dw 1 ?lg = idle_ledger\<lparr>lg_active := Some (new_window demo_spec 0\<lparr>aw_acked := {1}\<rparr>)\<rparr>"
    "ack_outcome ?dw 1 ?lg = Inr (Pending 1)"
    using two by (auto simp: ack_next_def ack_outcome_def ack_applies_def ack_window_def ready_window_def Let_def)
  with dispatch_ack_refines [OF kv.redis_server_axioms, of ks demo_ledger_store ?dw ?lg demo_leader 1 reliable]
    ks two show ?thesis
    by (intro exI [of _ ks]) (simp add: MAX_DISPATCH_SLICES_def)
qed

theorem stale_leader_cannot_dispatch_witness:
  "refused empty_server
     (server_run id (prepare_window kv_redis demo_ledger_store demo_spec demo_leader reliable empty_server))"
  using stale_leader_cannot_dispatch [OF kv.redis_server_axioms, of empty_server demo_leader demo_ledger_store
      demo_spec reliable] by (simp add: leader_lost_def)

theorem dispatch_round_closes_window_witness:
  "\<exists>ks lg. ledger_rel ks demo_key lg \<and> lg_active lg = None \<and> lg_next lg = Some 60000"
proof -
  obtain ks where "prepare_window kv_redis demo_ledger_store demo_spec demo_leader reliable led_server
       = (Inr (Ready (ready_window demo_spec (new_window demo_spec 0))), ks)"
    by (rule demo_prepared) (rule that)
  from dispatch_round_closes_window [OF kv.redis_server_axioms, of led_server demo_ledger_store demo_spec
      idle_ledger demo_leader, simplified, OF _ demo_live demo_spec_ok this]
  show ?thesis
    using demo_idle by (auto simp: ready_window_def as_millis_def from_secs_def)
qed

end
