(* ===== verification/Rust_Floats.thy ===== *)
theory Rust_Floats
  imports Lua_Numbers
begin

text \<open>
  The \<open>f64\<close> arithmetic that planning, pacing and quantiles use.  A finite \<open>f64\<close> is the rational
  it denotes; every operation computes the exact rational and rounds it to the nearest double,
  ties to even, with gradual underflow and overflow to infinity (the sign of a zero is not
  represented, no operation of Pulse looks at it).  Conversions to integers truncate and
  saturate, as the \<open>as\<close> casts of Rust do.
\<close>

section \<open>Rounding\<close>

definition two_powi :: "int \<Rightarrow> rat" where
  "two_powi e = (if e \<ge> 0 then 2 ^ nat e else 1 / 2 ^ nat (- e))"

text \<open>The exponent of the leading binary digit of a positive rational.\<close>

definition log2_floor :: "rat \<Rightarrow> int" where
  "log2_floor q =
     (let (n, d) = quotient_of q; k = int (bit_count (nat n)) - int (bit_count (nat d))
      in if two_powi k \<le> q then k else k - 1)"

definition round_even :: "rat \<Rightarrow> int" where
  "round_even q =
     (let f = \<lfloor>q\<rfloor>; r = q - of_int f
      in if r < 1 / 2 \<or> (r = 1 / 2 \<and> even f) then f else f + 1)"

definition f64_ulp_exp :: "rat \<Rightarrow> int" where
  "f64_ulp_exp m = max (- 1074) (log2_floor m - 52)"

definition f64_limit :: rat where
  "f64_limit = 2 ^ 1024"

definition f64_round :: "rat \<Rightarrow> f64" where
  "f64_round q =
     (if q = 0 then Finite 0
      else let e = f64_ulp_exp \<bar>q\<bar>; v = of_int (round_even (\<bar>q\<bar> / two_powi e)) * two_powi e
           in if v \<ge> f64_limit then Infinite (q < 0) else Finite (if q < 0 then - v else v))"

section \<open>Operations\<close>

definition f64_sign :: "rat \<Rightarrow> f64" where
  "f64_sign a = (if a = 0 then NaN else Infinite (a < 0))"

fun f64_add :: "f64 \<Rightarrow> f64 \<Rightarrow> f64" where
  "f64_add NaN y = NaN"
| "f64_add x NaN = NaN"
| "f64_add (Infinite a) (Infinite b) = (if a = b then Infinite a else NaN)"
| "f64_add (Infinite a) (Finite b) = Infinite a"
| "f64_add (Finite a) (Infinite b) = Infinite b"
| "f64_add (Finite a) (Finite b) = f64_round (a + b)"

fun f64_mul :: "f64 \<Rightarrow> f64 \<Rightarrow> f64" where
  "f64_mul NaN y = NaN"
| "f64_mul x NaN = NaN"
| "f64_mul (Infinite a) (Infinite b) = Infinite (a \<noteq> b)"
| "f64_mul (Infinite a) (Finite b) = f64_sign (if a then - b else b)"
| "f64_mul (Finite a) (Infinite b) = f64_sign (if b then - a else a)"
| "f64_mul (Finite a) (Finite b) = f64_round (a * b)"

fun f64_div :: "f64 \<Rightarrow> f64 \<Rightarrow> f64" where
  "f64_div NaN y = NaN"
| "f64_div x NaN = NaN"
| "f64_div (Infinite a) (Infinite b) = NaN"
| "f64_div (Infinite a) (Finite b) = Infinite (a \<noteq> (b < 0))"
| "f64_div (Finite a) (Infinite b) = Finite 0"
| "f64_div (Finite a) (Finite b) = (if b = 0 then f64_sign a else f64_round (a / b))"

definition f64_map :: "(rat \<Rightarrow> rat) \<Rightarrow> f64 \<Rightarrow> f64" where
  "f64_map g x = (case x of Finite a \<Rightarrow> Finite (g a) | y \<Rightarrow> y)"

definition f64_ceil :: "f64 \<Rightarrow> f64" where
  "f64_ceil = f64_map (\<lambda>a. of_int \<lceil>a\<rceil>)"

definition f64_floor :: "f64 \<Rightarrow> f64" where
  "f64_floor = f64_map (\<lambda>a. of_int \<lfloor>a\<rfloor>)"

definition f64_max :: "f64 \<Rightarrow> f64 \<Rightarrow> f64" where
  "f64_max x y = (if x = NaN then y else if y = NaN then x else if f64_le x y then y else x)"

definition f64_min :: "f64 \<Rightarrow> f64 \<Rightarrow> f64" where
  "f64_min x y = (if x = NaN then y else if y = NaN then x else if f64_le x y then x else y)"

text \<open>The saturating cast to an unsigned integer below \<open>bound\<close>.\<close>

definition f64_to_nat :: "nat \<Rightarrow> f64 \<Rightarrow> nat" where
  "f64_to_nat bound x = (case x of
     NaN \<Rightarrow> 0
   | Infinite neg \<Rightarrow> if neg then 0 else bound - 1
   | Finite a \<Rightarrow> if a \<le> 0 then 0 else min (nat \<lfloor>a\<rfloor>) (bound - 1))"

definition f64_as_u32 :: "f64 \<Rightarrow> u32" where
  "f64_as_u32 x = of_nat (f64_to_nat (2 ^ 32) x)"

definition f64_as_u64 :: "f64 \<Rightarrow> u64" where
  "f64_as_u64 x = of_nat (f64_to_nat (2 ^ 64) x)"

definition f64_of_nat :: "nat \<Rightarrow> f64" where
  "f64_of_nat n = f64_round (of_nat n)"

definition as_secs_f64 :: "duration \<Rightarrow> f64" where
  "as_secs_f64 d =
     f64_add (f64_of_nat (d div 10 ^ 9)) (f64_div (f64_of_nat (d mod 10 ^ 9)) (f64_of_nat (10 ^ 9)))"

text \<open>The bit pattern of an \<open>f64\<close>.\<close>

definition f64_to_bits :: "f64 \<Rightarrow> u64" where
  "f64_to_bits x = (case x of
     NaN \<Rightarrow> 0x7ff8000000000000
   | Infinite neg \<Rightarrow> (if neg then 0xfff0000000000000 else 0x7ff0000000000000)
   | Finite a \<Rightarrow>
       if a = 0 then 0
       else let e = f64_ulp_exp \<bar>a\<bar>; m = nat \<lfloor>\<bar>a\<bar> / two_powi e\<rfloor>;
                magnitude = (if m < 2 ^ 52 then m else nat (e + 1075) * 2 ^ 52 + (m - 2 ^ 52))
            in of_nat magnitude + (if a < 0 then 2 ^ 63 else 0))"

section \<open>Facts about rounding\<close>

lemma two_powi_pos [simp]: "0 < two_powi e"
  by (simp add: two_powi_def)

lemma round_even_int [simp]: "round_even (of_int i) = i"
  by (simp add: round_even_def)

lemma round_even_nonneg: "0 \<le> q \<Longrightarrow> 0 \<le> round_even q"
  by (auto simp: round_even_def Let_def)

lemma f64_round_nonneg:
  "0 \<le> q \<Longrightarrow> f64_round q = Infinite False \<or> (\<exists>v \<ge> 0. f64_round q = Finite v)"
proof -
  assume q: "0 \<le> q"
  let ?v = "of_int (round_even (\<bar>q\<bar> / two_powi (f64_ulp_exp \<bar>q\<bar>))) * two_powi (f64_ulp_exp \<bar>q\<bar>)"
  have "0 \<le> round_even (\<bar>q\<bar> / two_powi (f64_ulp_exp \<bar>q\<bar>))"
    by (intro round_even_nonneg divide_nonneg_pos) auto
  then have "0 \<le> ?v"
    by (intro mult_nonneg_nonneg) (auto intro: less_imp_le)
  with q show ?thesis by (auto simp: f64_round_def Let_def)
qed

lemma f64_round_zero [simp]: "f64_round 0 = Finite 0"
  by (simp add: f64_round_def)

lemma f64_of_nat_nonneg: "f64_of_nat n = Infinite False \<or> (\<exists>v \<ge> 0. f64_of_nat n = Finite v)"
  unfolding f64_of_nat_def by (rule f64_round_nonneg) simp

lemma f64_to_nat_less: "0 < bound \<Longrightarrow> f64_to_nat bound x < bound"
  by (auto simp: f64_to_nat_def split: f64.splits)

lemma unat_f64_as_u32: "unat (f64_as_u32 x) = f64_to_nat (2 ^ 32) x"
  using f64_to_nat_less [of "2 ^ 32" x] by (simp add: f64_as_u32_def unat_of_nat)

lemma unat_f64_as_u64: "unat (f64_as_u64 x) = f64_to_nat (2 ^ 64) x"
  using f64_to_nat_less [of "2 ^ 64" x] by (simp add: f64_as_u64_def unat_of_nat)

lemma f64_to_nat_max_one:
  "1 < bound \<Longrightarrow> x \<noteq> NaN \<Longrightarrow> 1 \<le> f64_to_nat bound (f64_max x (Finite 1))"
  by (cases x) (auto simp: f64_to_nat_def f64_max_def le_nat_iff le_floor_iff)

end
