(* ===== verification/Slice_Planning.thy ===== *)
theory Slice_Planning
  imports Rust_Floats Contract_Validation Coordination
begin

text \<open>
  The pure planning functions of \<open>application/service.rs\<close>: how many slices a scenario is split
  into, the load of each slice, the fingerprints that detect a plan change, the identity budget,
  retry delays and bounded failure reasons.

  A step is opaque here: \<open>material\<close> stands for \<open>Step::fingerprint_material\<close> of its type.
\<close>

section \<open>Scenarios\<close>

record ScenarioConfig =
  sc_endpoint :: string
  sc_scenarios_per_sec :: f64
  sc_max_concurrency :: usize
  sc_duration :: duration
  sc_repeat :: RepeatPolicy
  sc_partition :: PartitionKeyStrategy

record 'step Scenario =
  sc_name :: string
  sc_steps :: "'step list"
  sc_config :: ScenarioConfig

record 'step ScenarioExecutionPlan =
  plan_scenario :: "'step Scenario"
  execution_semantics :: string

definition TARGET_SPS_PER_SLICE :: f64 where "TARGET_SPS_PER_SLICE = Finite 10"
definition TARGET_CONCURRENCY_PER_SLICE :: usize where "TARGET_CONCURRENCY_PER_SLICE = 25"
definition MAX_AUTO_SLICES :: u32 where "MAX_AUTO_SLICES = 128"

section \<open>Slices\<close>

text \<open>\<open>u32::try_from(n).unwrap_or(u32::MAX)\<close>\<close>

definition u32_or_max :: "usize \<Rightarrow> u32" where
  "u32_or_max n = (if unat n < 2 ^ 32 then ucast n else - 1)"

definition calculate_slices :: "f64 \<Rightarrow> usize \<Rightarrow> duration \<Rightarrow> u32" where
  "calculate_slices rate max_conc dur =
     (if \<not> f64_is_finite rate \<or> f64_le rate (Finite 0) \<or> max_conc = 0 then 1
      else
        let slices_by_rate = f64_as_u32 (f64_max (f64_ceil (f64_div rate TARGET_SPS_PER_SLICE)) (Finite 1));
            slices_by_concurrency = f64_as_u32 (f64_ceil
              (f64_div (f64_of_nat (unat max_conc)) (f64_of_nat (unat TARGET_CONCURRENCY_PER_SLICE))));
            concurrency_cap = u32_or_max max_conc;
            expected_start_cap = f64_as_u32 (f64_min
              (f64_max (f64_floor (f64_mul rate (as_secs_f64 dur))) (Finite 1)) (Finite (2 ^ 32 - 1)))
        in min (min (min (max (max slices_by_rate slices_by_concurrency) 1) concurrency_cap)
                  expected_start_cap) MAX_AUTO_SLICES)"

definition slice_startup_burst :: "usize \<Rightarrow> u32 \<Rightarrow> u32 \<Rightarrow> usize" where
  "slice_startup_burst global_burst total_slices slice_index =
     (let n = ucast (max total_slices 1) :: usize
      in global_burst div n + (if (ucast slice_index :: usize) < global_burst mod n then 1 else 0))"

definition slice_load :: "'step Scenario \<Rightarrow> u32 \<Rightarrow> u32 \<Rightarrow> usize \<Rightarrow> JobLoadConfig" where
  "slice_load sc total_slices slice_index global_startup_burst =
     (let n = ucast (max total_slices 1) :: usize;
          conc = sc_max_concurrency (sc_config sc)
      in \<lparr>scenarios_per_sec = f64_div (sc_scenarios_per_sec (sc_config sc)) (f64_of_nat (unat (max total_slices 1))),
          load_duration = sc_duration (sc_config sc),
          max_concurrency = conc div n + (if (ucast slice_index :: usize) < conc mod n then 1 else 0),
          startup_burst = slice_startup_burst global_startup_burst total_slices slice_index\<rparr>)"

definition scenario_slices :: "'step Scenario \<Rightarrow> u32" where
  "scenario_slices sc =
     calculate_slices (sc_scenarios_per_sec (sc_config sc)) (sc_max_concurrency (sc_config sc))
       (sc_duration (sc_config sc))"

definition planned_slice_loads :: "'step Scenario \<Rightarrow> usize \<Rightarrow> JobLoadConfig list" where
  "planned_slice_loads sc global_startup_burst =
     (let n = scenario_slices sc
      in map (\<lambda>i. slice_load sc n (of_nat i) global_startup_burst) [0..<unat n])"

section \<open>Fingerprints\<close>

definition fnv1a_128 :: "string \<Rightarrow> u128" where
  "fnv1a_128 bs = foldl (\<lambda>hash b. (xor hash (of_nat (of_char b))) * 0x0000000001000000000000000000013b)
     0x6c62272e07bb014262b821756295c58d bs"

definition hex_digit :: "nat \<Rightarrow> char" where
  "hex_digit d = (if d < 10 then char_of (48 + d) else char_of (87 + d))"

text \<open>The lower-case hexadecimal digits of an integer that fits in the given width.\<close>

definition hex_padded :: "nat \<Rightarrow> nat \<Rightarrow> string" where
  "hex_padded width n = map (\<lambda>i. hex_digit (n div 16 ^ i mod 16)) (rev [0..<width])"

definition fnv_text :: "string \<Rightarrow> string" where
  "fnv_text bs = ''fnv128:'' @ hex_padded 32 (unat (fnv1a_128 bs))"

definition partition_debug :: "PartitionKeyStrategy \<Rightarrow> string" where
  "partition_debug p = (case p of ByScenarioId \<Rightarrow> ''ScenarioId'' | ByExecutionKey \<Rightarrow> ''ExecutionKey'')"

definition repeat_material :: "RepeatPolicy \<Rightarrow> string" where
  "repeat_material r = (case r of Once \<Rightarrow> ''once'' | Every d \<Rightarrow> ''every:'' @ nat_str (as_millis d))"

definition scenario_plan_fingerprint ::
  "('step \<Rightarrow> string) \<Rightarrow> 'step Scenario \<Rightarrow> u32 \<Rightarrow> usize \<Rightarrow> u32 \<Rightarrow> string \<Rightarrow> string" where
  "scenario_plan_fingerprint material sc slices global_startup_burst worker_max_retries semantics =
     (let c = sc_config sc;
          text = ''v'' @ word_str CURRENT_CONTRACT_VERSION @ ''|endpoint='' @ sc_endpoint c
            @ ''|rate='' @ hex_padded 16 (unat (f64_to_bits (sc_scenarios_per_sec c)))
            @ ''|duration_ms='' @ nat_str (as_millis (sc_duration c))
            @ ''|concurrency='' @ word_str (sc_max_concurrency c) @ ''|slices='' @ word_str slices
            @ ''|startup_burst='' @ word_str global_startup_burst
            @ ''|max_retries='' @ word_str worker_max_retries
            @ ''|repeat='' @ repeat_material (sc_repeat c)
            @ ''|partition='' @ partition_debug (sc_partition c)
            @ ''|execution_semantics='' @ semantics
            @ concat (map (\<lambda>s. ''|step='' @ material s) (sc_steps sc))
      in fnv_text text)"

definition execution_plan_fingerprint ::
  "('step \<Rightarrow> string) \<Rightarrow> 'step ScenarioExecutionPlan \<Rightarrow> u32 \<Rightarrow> usize \<Rightarrow> u32 \<Rightarrow> string" where
  "execution_plan_fingerprint material plan slices global_startup_burst worker_max_retries =
     scenario_plan_fingerprint material (plan_scenario plan) slices global_startup_burst
       worker_max_retries (execution_semantics plan)"

text \<open>The crate version is fixed at build time.\<close>

definition CARGO_PKG_VERSION :: string where
  "CARGO_PKG_VERSION = ''0.2.0''"

definition execution_semantics_fingerprint :: "duration \<Rightarrow> duration option \<Rightarrow> string option \<Rightarrow> string" where
  "execution_semantics_fingerprint request_timeout scenario_timeout descriptor_bytes =
     fnv_text (''engine='' @ CARGO_PKG_VERSION
       @ ''|request_timeout_ms='' @ nat_str (as_millis request_timeout)
       @ ''|scenario_timeout_ms=''
       @ (case scenario_timeout of None \<Rightarrow> ''none'' | Some d \<Rightarrow> nat_str (as_millis d))
       @ ''|descriptor='' @ (case descriptor_bytes of None \<Rightarrow> ''none'' | Some b \<Rightarrow> fnv_text b))"

section \<open>Identity budget\<close>

fun check_identity_fields :: "(string \<times> string) list \<Rightarrow> (string, unit) result" where
  "check_identity_fields [] = Inr ()"
| "check_identity_fields ((field, value) # rest) =
     (if trim value = [] \<or> length value > MAX_CONTRACT_ID_BYTES
      then Inl (''generated '' @ field @ '' would exceed the '' @ nat_str MAX_CONTRACT_ID_BYTES
             @ ''-byte contract identity bound'')
      else check_identity_fields rest)"

definition worst_window :: "string \<Rightarrow> string" where
  "worst_window scenario_id =
     ''v'' @ word_str CURRENT_CONTRACT_VERSION @ '':s'' @ nat_str (length scenario_id) @ '':''
       @ scenario_id @ '':w'' @ word_str (- 1 :: u128) @ '':n'' @ word_str MAX_AUTO_SLICES"

definition worst_execution :: "string \<Rightarrow> string" where
  "worst_execution scenario_id =
     worst_window scenario_id @ '':slice-'' @ word_str (MAX_AUTO_SLICES - 1) @ ''-of-''
       @ word_str MAX_AUTO_SLICES"

definition validate_scenario_identity_budget :: "string \<Rightarrow> (string, unit) result" where
  "validate_scenario_identity_budget scenario_id = check_identity_fields
     [(''scenario_id'', scenario_id), (''run_id'', worst_window scenario_id),
      (''execution_key'', worst_execution scenario_id),
      (''result event_id'',
        build_terminal_event_id (worst_execution scenario_id) MAX_CONTRACT_ATTEMPT ''result''),
      (''summary event_id'',
        worst_window scenario_id @ '':summary:r'' @ word_str (- 1 :: u64) @ '':timed-out'')]"

section \<open>Delays and reasons\<close>

definition retry_hash :: "u32 \<Rightarrow> string \<Rightarrow> u64" where
  "retry_hash attempt entropy =
     foldl (\<lambda>state b. state * 1099511628211 + of_nat (of_char b)) (ucast attempt + 0x9e3779b9) entropy"

definition retry_delay :: "duration \<Rightarrow> duration \<Rightarrow> u32 \<Rightarrow> string \<Rightarrow> duration" where
  "retry_delay base maximum attempt entropy =
     (let multiplier = 2 ^ min (unat attempt) 16;
          exponential = min (duration_saturating_mul base multiplier) maximum;
          basis_points = 8000 + unat (retry_hash attempt entropy) mod 4001;
          jittered_nanos = min (exponential * basis_points) (2 ^ 128 - 1) div 10000
      in min (min jittered_nanos (2 ^ 64 - 1)) maximum)"

definition deferred_job_delay :: "ScenarioJob \<Rightarrow> u128 \<Rightarrow> duration" where
  "deferred_job_delay job now =
     from_millis (min (unat (not_before_unix_ms job) - unat now) (2 ^ 64 - 1))"

definition TRUNCATION_MARKER :: string where
  "TRUNCATION_MARKER = ''...[truncated]''"

definition bounded_failure_reason :: "string \<Rightarrow> string" where
  "bounded_failure_reason reason =
     (if length reason \<le> MAX_CONTRACT_ID_BYTES then reason
      else take (floor_boundary reason (MAX_CONTRACT_ID_BYTES - length TRUNCATION_MARKER)) reason
             @ TRUNCATION_MARKER)"

definition failed_job :: "u128 \<Rightarrow> ScenarioJob \<Rightarrow> string \<Rightarrow> FailedScenarioJob" where
  "failed_job now job reason =
     \<lparr>fj_schema_version = CURRENT_CONTRACT_VERSION,
      fj_event_id = build_terminal_event_id (job_execution_key job) (job_attempt job) ''dlq'',
      fj_scenario_id = job_scenario_id job, fj_run_id = job_run_id job,
      fj_execution_key = job_execution_key job, fj_slice = job_slice job, fj_failed_at_unix_ms = now,
      fj_attempt = job_attempt job, fj_max_retries = job_max_retries job,
      fj_reason = bounded_failure_reason reason\<rparr>"

section \<open>The plan check of a worker\<close>

text \<open>\<open>show_f64\<close> renders an \<open>f64\<close> in the message.\<close>

definition deterministic_job_plan_error ::
  "(f64 \<Rightarrow> string) \<Rightarrow> ('step \<Rightarrow> string) \<Rightarrow> ScenarioJob \<Rightarrow> (string \<rightharpoonup> 'step ScenarioExecutionPlan)
     \<Rightarrow> u32 \<Rightarrow> usize \<Rightarrow> string option" where
  "deterministic_job_plan_error show_f64 material job plans worker_max_retries global_burst =
     (if job_max_retries job > worker_max_retries
      then Some (''job max_retries '' @ word_str (job_max_retries job)
             @ '' exceeds configured worker ceiling '' @ word_str worker_max_retries)
      else if job_schema_version job < 2 then None
      else case plans (job_scenario_id job) of
        None \<Rightarrow> None
      | Some plan \<Rightarrow>
          let expected = slice_load (plan_scenario plan) (slice_total (job_slice job))
                (index (job_slice job)) global_burst;
              found = load job;
              fingerprint = execution_plan_fingerprint material plan (slice_total (job_slice job))
                global_burst worker_max_retries
          in if f64_to_bits (scenarios_per_sec found) \<noteq> f64_to_bits (scenarios_per_sec expected)
               \<or> load_duration found \<noteq> load_duration expected
               \<or> max_concurrency found \<noteq> max_concurrency expected
               \<or> startup_burst found \<noteq> startup_burst expected
             then Some (''job load does not match deterministic local slice plan: expected rate=''
               @ show_f64 (scenarios_per_sec expected)
               @ '' duration_ms='' @ nat_str (as_millis (load_duration expected))
               @ '' concurrency='' @ word_str (max_concurrency expected)
               @ '' startup_burst='' @ word_str (startup_burst expected)
               @ '', found rate='' @ show_f64 (scenarios_per_sec found)
               @ '' duration_ms='' @ nat_str (as_millis (load_duration found))
               @ '' concurrency='' @ word_str (max_concurrency found)
               @ '' startup_burst='' @ word_str (startup_burst found))
             else if job_plan_fingerprint job \<noteq> fingerprint
             then Some (''job plan fingerprint '' @ [CHR 0x27] @ job_plan_fingerprint job @ [CHR 0x27]
               @ '' does not match local plan '' @ [CHR 0x27] @ fingerprint @ [CHR 0x27])
             else None)"

section \<open>Even shares\<close>

text \<open>The share of item \<open>i\<close> when \<open>a\<close> units are divided among \<open>n\<close>: the remainder goes to the first
  items.\<close>

definition share :: "nat \<Rightarrow> nat \<Rightarrow> nat \<Rightarrow> nat" where
  "share a n i = a div n + (if i < a mod n then 1 else 0)"

lemma sum_share: "0 < n \<Longrightarrow> (\<Sum>i<n. share a n i) = a"
proof -
  assume n: "0 < n"
  have "(\<Sum>i<n. if i < a mod n then 1 else 0 :: nat) = card ({..<n} \<inter> {i. i < a mod n})"
    by (simp add: sum.inter_filter [symmetric] Int_def)
  also have "{..<n} \<inter> {i. i < a mod n} = {..<a mod n}"
    using mod_less_divisor [OF n, of a] by auto
  finally have "(\<Sum>i<n. if i < a mod n then 1 else 0 :: nat) = a mod n" by simp
  then show ?thesis
    by (simp add: share_def sum.distrib)
qed

lemma share_mono: "a \<le> b \<Longrightarrow> share a n i \<le> share b n i"
proof -
  assume "a \<le> b"
  then have le: "a div n \<le> b div n" by (rule div_le_mono)
  show ?thesis
  proof (cases "a div n = b div n")
    case True
    then have "a mod n \<le> b mod n"
      using \<open>a \<le> b\<close> by (metis add_le_cancel_left div_mult_mod_eq)
    with True show ?thesis by (simp add: share_def)
  next
    case False
    with le show ?thesis by (simp add: share_def)
  qed
qed

lemma share_pos: "n \<le> a \<Longrightarrow> 0 < n \<Longrightarrow> 1 \<le> share a n i"
  by (simp add: share_def div_greater_zero_iff Suc_leI trans_le_add1)

lemma share_le: "share a n i \<le> a"
proof (cases "n = 0 \<or> a = 0")
  case False
  then have "a div n + a mod n \<le> a div n * n + a mod n" by (cases n) auto
  then show ?thesis by (simp add: share_def)
qed (auto simp: share_def)

lemma unat_share:
  fixes a :: "'a::len word"
  shows "unat (a div n + (if i < a mod n then 1 else 0)) = share (unat a) (unat n) (unat i)"
proof -
  let ?b = "if i < a mod n then 1 else 0 :: 'a word"
  have b: "unat ?b = (if unat i < unat a mod unat n then 1 else 0)"
    by (simp add: word_less_nat_alt unat_mod)
  have "unat (a div n) + unat ?b = share (unat a) (unat n) (unat i)"
    by (simp add: b share_def unat_div)
  moreover have "share (unat a) (unat n) (unat i) < 2 ^ LENGTH('a)"
    using share_le [of "unat a" "unat n" "unat i"] unat_bound [of a] by linarith
  ultimately show ?thesis by simp
qed

lemma unat_max_one: "unat (max (n :: u32) 1) = max (unat n) 1"
  by (simp add: max_def word_le_nat_alt)

lemma unat_ucast_u32 [simp]: "unat (ucast (n :: u32) :: usize) = unat n"
  using unat_bound [of n] by (simp add: unsigned_ucast_eq take_bit_nat_eq_self)

lemma slice_load_shares:
  "unat (max_concurrency (slice_load sc n i g)) = share (unat (sc_max_concurrency (sc_config sc))) (max (unat n) 1) (unat i)"
  "unat (startup_burst (slice_load sc n i g)) = share (unat g) (max (unat n) 1) (unat i)"
  "load_duration (slice_load sc n i g) = sc_duration (sc_config sc)"
  by (simp_all add: slice_load_def slice_startup_burst_def Let_def unat_share unat_max_one)

section \<open>How many slices\<close>

lemma f64_one_le_cap:
  "1 \<le> f64_to_nat (2 ^ 32) (f64_min (f64_max x (Finite 1)) (Finite (2 ^ 32 - 1)))"
  by (cases x) (auto simp: f64_to_nat_def f64_max_def f64_min_def le_nat_iff le_floor_iff)

lemma unat_min_max:
  "unat (min a b) = min (unat a) (unat (b :: 'a::len word))"
  "unat (max a b) = max (unat a) (unat (b :: 'a::len word))"
  by (simp_all add: min_def max_def word_le_nat_alt)

lemma calculate_slices_bounds:
  "1 \<le> unat (calculate_slices rate conc dur)" "unat (calculate_slices rate conc dur) \<le> 128"
  "conc \<noteq> 0 \<Longrightarrow> unat (calculate_slices rate conc dur) \<le> unat conc"
proof -
  have cap: "unat (u32_or_max conc) = min (unat conc) (2 ^ 32 - 1)"
    by (auto simp: u32_or_max_def unat_max_word unsigned_ucast_eq take_bit_nat_eq_self)
  have pos: "1 \<le> unat conc" if "conc \<noteq> 0"
    using that by (simp add: Suc_leI unat_gt_0)
  show "1 \<le> unat (calculate_slices rate conc dur)"
    using f64_one_le_cap pos
    by (auto simp: calculate_slices_def Let_def unat_min_max unat_f64_as_u32 cap MAX_AUTO_SLICES_def)
  show "unat (calculate_slices rate conc dur) \<le> 128"
    by (simp add: calculate_slices_def Let_def unat_min_max MAX_AUTO_SLICES_def)
  show "unat (calculate_slices rate conc dur) \<le> unat conc" if "conc \<noteq> 0"
    using pos [OF that] by (auto simp: calculate_slices_def Let_def unat_min_max cap min_le_iff_disj)
qed

section \<open>Identities\<close>

lemma check_identity_fields_ok:
  "check_identity_fields fs = Inr () \<longleftrightarrow> (\<forall>(f, v) \<in> set fs. trim v \<noteq> [] \<and> length v \<le> 1024)"
  by (induction fs rule: check_identity_fields.induct) (auto simp: contract_limits)

lemma length_nat_str_mono: "m \<le> n \<Longrightarrow> length (nat_str m) \<le> length (nat_str n)"
proof (induction n arbitrary: m rule: nat_str.induct)
  case (1 n)
  show ?case
  proof (cases "n < 10")
    case True
    with 1 show ?thesis by (simp add: nat_str.simps [of m] nat_str.simps [of n])
  next
    case big: False
    have "length (nat_str (m div 10)) \<le> length (nat_str (n div 10))"
      using 1 big by (intro "1.IH") (auto intro: div_le_mono)
    with big show ?thesis by (simp add: nat_str.simps [of m] nat_str.simps [of n])
  qed
qed

lemma length_word_str_max: "length (word_str (w :: 'a::len word)) \<le> length (word_str (- 1 :: 'a word))"
proof -
  have "unat w \<le> 2 ^ LENGTH('a) - 1" using unat_bound [of w] by linarith
  then show ?thesis unfolding word_str_def unat_max_word by (rule length_nat_str_mono)
qed

lemma length_word_str_mono: "unat v \<le> unat w \<Longrightarrow> length (word_str v) \<le> length (word_str w)"
  unfolding word_str_def by (rule length_nat_str_mono)

section \<open>Properties\<close>

text \<open>C18: A scenario is divided without loss: between 1 and 128 slices and never more than its
  concurrency, the concurrency of the slices adds up to that of the scenario and every slice has at
  least one unit, the startup bursts add up to the global burst, no slice bursts beyond its
  concurrency, and every slice runs for the duration of the scenario.\<close>

theorem slice_plan_partitions_load:
  assumes "sc_max_concurrency (sc_config sc) \<noteq> 0" "burst \<le> sc_max_concurrency (sc_config sc)"
  shows "let loads = planned_slice_loads sc burst in
           1 \<le> length loads \<and> length loads \<le> 128 \<and>
           length loads \<le> unat (sc_max_concurrency (sc_config sc)) \<and>
           (\<Sum>l\<leftarrow>loads. unat (max_concurrency l)) = unat (sc_max_concurrency (sc_config sc)) \<and>
           (\<Sum>l\<leftarrow>loads. unat (startup_burst l)) = unat burst \<and>
           (\<forall>l \<in> set loads. 1 \<le> unat (max_concurrency l) \<and> startup_burst l \<le> max_concurrency l \<and>
              load_duration l = sc_duration (sc_config sc))"
proof -
  define n where "n = unat (scenario_slices sc)"
  let ?conc = "unat (sc_max_concurrency (sc_config sc))"
  have n: "1 \<le> n" "n \<le> 128" "n \<le> ?conc"
    using calculate_slices_bounds assms(1) by (auto simp: n_def scenario_slices_def)
  have burst: "unat burst \<le> ?conc" using assms(2) by (simp add: word_le_nat_alt)
  have word: "unat (of_nat i :: u32) = i" if "i < n" for i
    using that n by (simp add: unat_of_nat)
  have loads: "planned_slice_loads sc burst = map (\<lambda>i. slice_load sc (scenario_slices sc) (of_nat i) burst) [0..<n]"
    by (simp add: planned_slice_loads_def n_def Let_def)
  have conc: "unat (max_concurrency (slice_load sc (scenario_slices sc) (of_nat i) burst)) = share ?conc n i"
    and bst: "unat (startup_burst (slice_load sc (scenario_slices sc) (of_nat i) burst)) = share (unat burst) n i"
    if "i < n" for i
    using n word [OF that] by (simp_all add: slice_load_shares n_def [symmetric])
  have "(\<Sum>l\<leftarrow>planned_slice_loads sc burst. unat (max_concurrency l)) = ?conc"
    using sum_share [of n ?conc] n(1) conc
    by (simp add: loads comp_def interv_sum_list_conv_sum_set_nat lessThan_atLeast0)
  moreover have "(\<Sum>l\<leftarrow>planned_slice_loads sc burst. unat (startup_burst l)) = unat burst"
    using sum_share [of n "unat burst"] n(1) bst
    by (simp add: loads comp_def interv_sum_list_conv_sum_set_nat lessThan_atLeast0)
  moreover have "\<forall>l \<in> set (planned_slice_loads sc burst). 1 \<le> unat (max_concurrency l) \<and>
      startup_burst l \<le> max_concurrency l \<and> load_duration l = sc_duration (sc_config sc)"
    using n share_pos [of n ?conc] share_mono [OF burst] conc bst
    by (auto simp: loads word_le_nat_alt slice_load_shares(3))
  ultimately show ?thesis
    using n by (simp add: Let_def loads)
qed

text \<open>C19: Every delay between retries is at most the configured maximum, and unless it is capped it is
  the exponential backoff of the attempt with at most twenty percent of deterministic jitter.\<close>

theorem retry_delay_bounds:
  assumes "base \<le> max_duration" "maximum < 2 ^ 63"
  shows "let d = retry_delay base maximum attempt entropy;
             backoff = min (base * 2 ^ min (unat attempt) 16) maximum
         in d \<le> maximum \<and> 8 * backoff div 10 \<le> d \<and> d \<le> 12 * backoff div 10"
proof -
  define b where "b = min (base * 2 ^ min (unat attempt) 16) maximum"
  define j where "j = 8000 + unat (retry_hash attempt entropy) mod 4001"
  have maxd: "maximum \<le> max_duration" using assms(2) by (simp add: max_duration_def)
  have b': "min (duration_saturating_mul base (2 ^ min (unat attempt) 16)) maximum = b"
    using maxd by (auto simp: b_def duration_saturating_mul_def)
  have j: "8000 \<le> j" "j \<le> 12000" by (auto simp: j_def)
  have small: "b < 2 ^ 63" using assms(2) by (simp add: b_def)
  then have prod: "b * j < 2 ^ 63 * 12001" using j by (intro mult_strict_mono) auto
  then have "b * j div 10000 < 2 ^ 64 - 1" "min (b * j) (2 ^ 128 - 1) = b * j" by auto
  then have d: "retry_delay base maximum attempt entropy = min (b * j div 10000) maximum"
    by (simp add: retry_delay_def Let_def b' j_def [symmetric])
  have lower: "8 * b div 10 \<le> b * j div 10000"
  proof -
    have "8 * b div 10 = b * 8000 div 10000"
      using div_mult_mult1 [of 1000 "8 * b" 10] by (simp add: mult.commute)
    also have "\<dots> \<le> b * j div 10000" using j by (intro div_le_mono mult_le_mono) auto
    finally show ?thesis .
  qed
  have upper: "b * j div 10000 \<le> 12 * b div 10"
  proof -
    have "b * j div 10000 \<le> b * 12000 div 10000" using j by (intro div_le_mono mult_le_mono) auto
    also have "\<dots> = 12 * b div 10"
      using div_mult_mult1 [of 1000 "12 * b" 10] by (simp add: mult.commute)
    finally show ?thesis .
  qed
  have "8 * b div 10 \<le> b" by linarith
  then have "8 * b div 10 \<le> maximum" using b_def by (metis min.boundedE)
  with lower upper d show ?thesis
    by (simp add: Let_def b_def [symmetric] min.coboundedI1)
qed

text \<open>C20: A bounded failure reason never exceeds 1024 bytes, keeps a short reason unchanged, and otherwise
  is a prefix of the reason that ends at a character boundary, followed by the truncation marker.\<close>

theorem bounded_failure_reason_spec:
  "length (bounded_failure_reason reason) \<le> 1024 \<and>
   (if length reason \<le> 1024 then bounded_failure_reason reason = reason
    else \<exists>k. k \<le> 1010 \<and> is_char_boundary reason k \<and>
           bounded_failure_reason reason = take k reason @ ''...[truncated]'')"
proof (cases "length reason \<le> 1024")
  case True
  then show ?thesis by (simp add: bounded_failure_reason_def contract_limits)
next
  case False
  define k where "k = floor_boundary reason 1010"
  have "k \<le> 1010" "is_char_boundary reason k"
    by (simp_all add: k_def floor_boundary_le floor_boundary_boundary)
  moreover have "bounded_failure_reason reason = take k reason @ ''...[truncated]''"
    using False by (simp add: bounded_failure_reason_def contract_limits k_def TRUNCATION_MARKER_def)
  ultimately show ?thesis using False by auto
qed

section \<open>Concrete plans\<close>

definition demo_scenario :: "unit Scenario" where
  "demo_scenario = \<lparr>sc_name = ''s'', sc_steps = [()],
     sc_config = \<lparr>sc_endpoint = ''e'', sc_scenarios_per_sec = Finite 20, sc_max_concurrency = 30,
       sc_duration = from_secs 60, sc_repeat = Once, sc_partition = ByScenarioId\<rparr>\<rparr>"

theorem slice_plan_partitions_load_witness:
  "let loads = planned_slice_loads demo_scenario 7 in
     (\<Sum>l\<leftarrow>loads. unat (max_concurrency l)) = 30 \<and> (\<Sum>l\<leftarrow>loads. unat (startup_burst l)) = 7"
  using slice_plan_partitions_load [of demo_scenario 7]
  by (simp add: demo_scenario_def Let_def)

theorem retry_delay_bounds_witness:
  "let d = retry_delay (from_millis 500) (from_secs 30) 3 ''job'' in
     from_millis 3200 \<le> d \<and> d \<le> from_millis 4800"
  using retry_delay_bounds [of "from_millis 500" "from_secs 30" 3 "''job''"]
  by (simp add: from_millis_def from_secs_def max_duration_def Let_def)

end
