(* ===== verification/Run_Metrics.thy ===== *)
theory Run_Metrics
  imports Contract_Validation "HOL-Library.Finite_Map" "HOL-Library.Char_ord"
    "HOL-Library.List_Lexorder" "HOL-Library.Multiset"
begin

text \<open>
  The measurements of a run, \<open>application/metrics.rs\<close>: counters with a latency histogram per
  scenario and per step, one set per worker slot, merged into the summary of the run.

  The histogram is the crate \<open>hdrhistogram\<close>, a parameter \<open>H\<close> with the operations the code calls.
  The locale \<open>hdr_histogram\<close> states the documented behaviour: a histogram holds the multiset of the
  recorded values, and \<open>count_between\<close> counts the values between the ends of its range, each
  widened to its cell (the values the histogram does not tell apart).  \<open>hdr_cells\<close> adds that the
  cells are ordered intervals around their values.  The properties hold for every histogram with
  these laws; \<open>hdr_reference\<close>, an implementation at three significant digits for which values from
  2048 on share cells, shows that the laws can hold and serves in the examples.
\<close>

section \<open>The histogram crate\<close>

record 'h hdr =
  hdr_new :: 'h
  hdr_record :: "u64 \<Rightarrow> 'h \<Rightarrow> 'h"
  hdr_add :: "'h \<Rightarrow> 'h \<Rightarrow> 'h"
  hdr_count_between :: "'h \<Rightarrow> u64 \<Rightarrow> u64 \<Rightarrow> u64"
  hdr_quantile :: "'h \<Rightarrow> rat \<Rightarrow> u64"

locale hdr_histogram =
  fixes H :: "'h hdr" and samples :: "'h \<Rightarrow> u64 list" and lowest highest :: "nat \<Rightarrow> nat"
  assumes samples_new: "samples (hdr_new H) = []"
    and samples_record: "mset (samples (hdr_record H v h)) = add_mset v (mset (samples h))"
    and samples_add: "mset (samples (hdr_add H g h)) = mset (samples g) + mset (samples h)"
    and count_between: "hdr_count_between H h lo hi =
      of_nat (length (filter (\<lambda>v. lowest (unat lo) \<le> unat v \<and> unat v \<le> highest (unat hi)) (samples h)))"

locale hdr_cells = hdr_histogram +
  assumes lowest_le: "lowest v \<le> v" and highest_ge: "v \<le> highest v"
    and lowest_mono: "u \<le> v \<Longrightarrow> lowest u \<le> lowest v" and highest_mono: "u \<le> v \<Longrightarrow> highest u \<le> highest v"

section \<open>Counters\<close>

definition MAX_TRACKED_MS :: u64 where "MAX_TRACKED_MS = 120000"

record 'h MetricsBucket =
  m_total :: u64
  m_success :: u64
  m_failure :: u64
  latency_ms :: 'h
  latency_overflow :: u64

definition new_bucket :: "'h hdr \<Rightarrow> 'h MetricsBucket" where
  "new_bucket H = \<lparr>m_total = 0, m_success = 0, m_failure = 0, latency_ms = hdr_new H, latency_overflow = 0\<rparr>"

text \<open>The tracked latency of a duration: whole milliseconds within \<open>u64\<close>, at least one.\<close>

definition tracked_ms :: "duration \<Rightarrow> u64" where
  "tracked_ms d = max (if as_millis d < 2 ^ 64 then of_nat (as_millis d) else - 1) 1"

definition record_bucket :: "'h hdr \<Rightarrow> duration \<Rightarrow> bool \<Rightarrow> 'h MetricsBucket \<Rightarrow> 'h MetricsBucket" where
  "record_bucket H d ok b =
     (let counted = (if ok then b\<lparr>m_total := m_total b + 1, m_success := m_success b + 1\<rparr>
                     else b\<lparr>m_total := m_total b + 1, m_failure := m_failure b + 1\<rparr>);
          ms = tracked_ms d
      in if ms > MAX_TRACKED_MS
         then counted\<lparr>latency_overflow := saturating_add (latency_overflow b) 1\<rparr>
         else counted\<lparr>latency_ms := hdr_record H ms (latency_ms b)\<rparr>)"

definition merge_from :: "'h hdr \<Rightarrow> 'h MetricsBucket \<Rightarrow> 'h MetricsBucket \<Rightarrow> 'h MetricsBucket" where
  "merge_from H other b =
     \<lparr>m_total = m_total b + m_total other, m_success = m_success b + m_success other,
      m_failure = m_failure b + m_failure other,
      latency_ms = hdr_add H (latency_ms b) (latency_ms other),
      latency_overflow = saturating_add (latency_overflow b) (latency_overflow other)\<rparr>"

fun bucket_loop :: "'h hdr \<Rightarrow> 'h \<Rightarrow> u64 \<Rightarrow> u64 list \<Rightarrow> LatencyBucket list" where
  "bucket_loop H h lower [] = []"
| "bucket_loop H h lower (upper # rest) =
     \<lparr>upper_bound_ms = upper,
      bucket_count = (if lower > upper then 0 else hdr_count_between H h lower upper)\<rparr>
     # bucket_loop H h (saturating_add upper 1) rest"

definition mergeable_latency_buckets :: "'h hdr \<Rightarrow> 'h MetricsBucket \<Rightarrow> LatencyBucket list" where
  "mergeable_latency_buckets H b =
     bucket_loop H (latency_ms b) 1 LATENCY_BUCKET_BOUNDS_MS
       @ [\<lparr>upper_bound_ms = - 1, bucket_count = latency_overflow b\<rparr>]"

section \<open>Metrics of a worker slot and of a run\<close>

text \<open>\<open>WorkerMetrics\<close> and \<open>GlobalSummary\<close> have the same three maps.\<close>

record 'h RunMetrics =
  scenario_metrics :: "(string, 'h MetricsBucket) fmap"
  step_metrics :: "(string, 'h MetricsBucket) fmap"
  error_counts :: "(string, u64) fmap"

definition new_metrics :: "'h RunMetrics" where
  "new_metrics = \<lparr>scenario_metrics = fmempty, step_metrics = fmempty, error_counts = fmempty\<rparr>"

text \<open>\<open>entry(key).or_insert(d)\<close> followed by an update in place.\<close>

definition update_entry :: "'k \<Rightarrow> 'v \<Rightarrow> ('v \<Rightarrow> 'v) \<Rightarrow> ('k, 'v) fmap \<Rightarrow> ('k, 'v) fmap" where
  "update_entry k d f m = fmupd k (f (case fmlookup m k of None \<Rightarrow> d | Some v \<Rightarrow> v)) m"

definition record_step :: "'h hdr \<Rightarrow> string \<Rightarrow> duration \<Rightarrow> bool \<Rightarrow> 'h RunMetrics \<Rightarrow> 'h RunMetrics" where
  "record_step H name d ok m =
     m\<lparr>step_metrics := update_entry name (new_bucket H) (record_bucket H d ok) (step_metrics m)\<rparr>"

definition record_scenario :: "'h hdr \<Rightarrow> string \<Rightarrow> duration \<Rightarrow> bool \<Rightarrow> 'h RunMetrics \<Rightarrow> 'h RunMetrics" where
  "record_scenario H name d ok m =
     m\<lparr>scenario_metrics := update_entry name (new_bucket H) (record_bucket H d ok) (scenario_metrics m)\<rparr>"

definition record_error_kind :: "string \<Rightarrow> 'h RunMetrics \<Rightarrow> 'h RunMetrics" where
  "record_error_kind kind m = m\<lparr>error_counts := update_entry kind 0 (\<lambda>c. c + 1) (error_counts m)\<rparr>"

text \<open>The iteration over a \<open>HashMap\<close> visits each entry once; the entries are merged key by key, so
  the order does not matter and the sorted order stands for all.\<close>

definition entries :: "('k::linorder, 'v) fmap \<Rightarrow> ('k \<times> 'v) list" where
  "entries m = map (\<lambda>k. (k, the (fmlookup m k))) (sorted_list_of_fset (fmdom m))"

definition merge_buckets ::
  "'h hdr \<Rightarrow> (string, 'h MetricsBucket) fmap \<Rightarrow> (string, 'h MetricsBucket) fmap \<Rightarrow> (string, 'h MetricsBucket) fmap"
where
  "merge_buckets H theirs mine =
     fold (\<lambda>(name, b). update_entry name (new_bucket H) (merge_from H b)) (entries theirs) mine"

definition merge_worker :: "'h hdr \<Rightarrow> 'h RunMetrics \<Rightarrow> 'h RunMetrics \<Rightarrow> 'h RunMetrics" where
  "merge_worker H worker m =
     \<lparr>scenario_metrics = merge_buckets H (scenario_metrics worker) (scenario_metrics m),
      step_metrics = merge_buckets H (step_metrics worker) (step_metrics m),
      error_counts = fold (\<lambda>(kind, n). update_entry kind 0 (\<lambda>c. c + n)) (entries (error_counts worker))
        (error_counts m)\<rparr>"

section \<open>Merging adds\<close>

lemma map_of_entries: "map_of (entries m) k = fmlookup m k"
proof -
  have "map_of (map (\<lambda>k. (k, f k)) ks) k = (if k \<in> set ks then Some (f k) else None)" for f ks
    by (induction ks) auto
  from this [of "\<lambda>k. the (fmlookup m k)" "sorted_list_of_fset (fmdom m)"] show ?thesis
    by (cases "fmlookup m k") (auto simp: entries_def fmdom_notI fmdomI)
qed

lemma distinct_entries: "distinct (map fst (entries m))"
  by (simp add: entries_def comp_def sorted_list_of_fset.rep_eq)

lemma fmlookup_update_entry:
  "fmlookup (update_entry k d f m) j =
     (if j = k then Some (f (case fmlookup m k of None \<Rightarrow> d | Some v \<Rightarrow> v)) else fmlookup m j)"
  by (simp add: update_entry_def)

lemma fold_update_entry:
  "distinct (map fst xs) \<Longrightarrow>
   fmlookup (fold (\<lambda>(k, b). update_entry k d (g b)) xs m) k =
     (case map_of xs k of None \<Rightarrow> fmlookup m k
      | Some b \<Rightarrow> Some (g b (case fmlookup m k of None \<Rightarrow> d | Some v \<Rightarrow> v)))"
proof (induction xs arbitrary: m)
  case (Cons x xs)
  obtain j b where x: "x = (j, b)" by force
  show ?case
  proof (cases "k = j")
    case True
    with Cons.prems x have "map_of xs k = None" by (simp add: map_of_eq_None_iff)
    with Cons x True show ?thesis by (simp add: fmlookup_update_entry)
  next
    case False
    with Cons x show ?thesis by (simp add: fmlookup_update_entry split: option.split)
  qed
qed simp

lemma fmlookup_merge_buckets:
  "fmlookup (merge_buckets H theirs mine) k =
     (case fmlookup theirs k of None \<Rightarrow> fmlookup mine k
      | Some b \<Rightarrow> Some (merge_from H b (case fmlookup mine k of None \<Rightarrow> new_bucket H | Some v \<Rightarrow> v)))"
  unfolding merge_buckets_def by (subst fold_update_entry [OF distinct_entries]) (simp add: map_of_entries)

lemma fmlookup_merge_errors:
  "fmlookup (error_counts (merge_worker H w m)) k =
     (case fmlookup (error_counts w) k of None \<Rightarrow> fmlookup (error_counts m) k
      | Some n \<Rightarrow> Some ((case fmlookup (error_counts m) k of None \<Rightarrow> 0 | Some c \<Rightarrow> c) + n))"
  by (simp add: merge_worker_def fold_update_entry [OF distinct_entries] map_of_entries)

text \<open>A counter of a map of buckets under a name, zero when the name is absent.\<close>

definition tally :: "('h MetricsBucket \<Rightarrow> u64) \<Rightarrow> (string, 'h MetricsBucket) fmap \<Rightarrow> string \<Rightarrow> u64" where
  "tally sel m name = (case fmlookup m name of None \<Rightarrow> 0 | Some b \<Rightarrow> sel b)"

definition errors_of :: "'h RunMetrics \<Rightarrow> string \<Rightarrow> u64" where
  "errors_of m kind = (case fmlookup (error_counts m) kind of None \<Rightarrow> 0 | Some n \<Rightarrow> n)"

definition bucket_ok :: "'h MetricsBucket \<Rightarrow> bool" where
  "bucket_ok b \<longleftrightarrow> m_total b = m_success b + m_failure b"

definition metrics_ok :: "'h RunMetrics \<Rightarrow> bool" where
  "metrics_ok m \<longleftrightarrow> fmpred (\<lambda>_. bucket_ok) (scenario_metrics m) \<and> fmpred (\<lambda>_. bucket_ok) (step_metrics m)"

lemma bucket_ok_intros [intro, simp]:
  "bucket_ok (new_bucket H)"
  "bucket_ok b \<Longrightarrow> bucket_ok (record_bucket H d ok b)"
  "bucket_ok a \<Longrightarrow> bucket_ok b \<Longrightarrow> bucket_ok (merge_from H a b)"
  by (auto simp: bucket_ok_def new_bucket_def record_bucket_def merge_from_def Let_def ac_simps)

lemma fmpred_update_entry:
  "fmpred (\<lambda>_. P) m \<Longrightarrow> P d \<Longrightarrow> (\<And>v. P v \<Longrightarrow> P (f v)) \<Longrightarrow> fmpred (\<lambda>_. P) (update_entry k d f m)"
  by (auto simp: fmpred_iff fmlookup_update_entry split: if_splits option.splits)

lemma fmpred_merge_buckets:
  "fmpred (\<lambda>_. bucket_ok) a \<Longrightarrow> fmpred (\<lambda>_. bucket_ok) b \<Longrightarrow> fmpred (\<lambda>_. bucket_ok) (merge_buckets H a b)"
  by (auto simp: fmpred_iff fmlookup_merge_buckets split: option.splits)

lemma metrics_ok_intros [intro, simp]:
  "metrics_ok new_metrics"
  "metrics_ok m \<Longrightarrow> metrics_ok (record_step H name d ok m)"
  "metrics_ok m \<Longrightarrow> metrics_ok (record_scenario H name d ok m)"
  "metrics_ok m \<Longrightarrow> metrics_ok (record_error_kind kind m)"
  "metrics_ok w \<Longrightarrow> metrics_ok m \<Longrightarrow> metrics_ok (merge_worker H w m)"
  by (simp_all add: metrics_ok_def new_metrics_def record_step_def record_scenario_def
      record_error_kind_def merge_worker_def fmpred_update_entry fmpred_merge_buckets)

lemma tally_merge_buckets:
  "sel \<in> {m_total, m_success, m_failure} \<Longrightarrow>
   tally sel (merge_buckets H a b) name = tally sel b name + tally sel a name"
  by (auto simp: tally_def fmlookup_merge_buckets merge_from_def new_bucket_def split: option.splits)

lemma merge_worker_tally:
  assumes "sel \<in> {m_total, m_success, m_failure}"
  shows "tally sel (scenario_metrics (merge_worker H w m)) name
           = tally sel (scenario_metrics m) name + tally sel (scenario_metrics w) name"
    and "tally sel (step_metrics (merge_worker H w m)) name
           = tally sel (step_metrics m) name + tally sel (step_metrics w) name"
  using tally_merge_buckets [OF assms] by (simp_all add: merge_worker_def)

lemma merge_worker_errors: "errors_of (merge_worker H w m) kind = errors_of m kind + errors_of w kind"
  by (simp add: errors_of_def fmlookup_merge_errors split: option.split)

lemma tally_record_scenario:
  "tally m_total (scenario_metrics (record_scenario H name d ok m)) k
     = tally m_total (scenario_metrics m) k + (if k = name then 1 else 0)"
  "tally m_success (scenario_metrics (record_scenario H name d ok m)) k
     = tally m_success (scenario_metrics m) k + (if k = name \<and> ok then 1 else 0)"
  "tally m_failure (scenario_metrics (record_scenario H name d ok m)) k
     = tally m_failure (scenario_metrics m) k + (if k = name \<and> \<not> ok then 1 else 0)"
  by (simp_all add: tally_def record_scenario_def fmlookup_update_entry record_bucket_def Let_def
      new_bucket_def split: option.split)

section \<open>The reference histogram\<close>

text \<open>At three significant digits a histogram has 2048 cells per magnitude: values below 2048 are
  exact, and the width of a cell doubles with each further doubling of the value.\<close>

fun cell_width :: "nat \<Rightarrow> nat" where
  "cell_width v = (if v < 2048 then 1 else 2 * cell_width (v div 2))"

declare cell_width.simps [simp del]

lemma cell_width_simps [simp]:
  "v < 2048 \<Longrightarrow> cell_width v = 1"
  "2048 \<le> v \<Longrightarrow> cell_width v = 2 * cell_width (v div 2)"
  by (simp_all add: cell_width.simps [of v])

definition lowest_equivalent :: "nat \<Rightarrow> nat" where
  "lowest_equivalent v = v div cell_width v * cell_width v"

definition highest_equivalent :: "nat \<Rightarrow> nat" where
  "highest_equivalent v = lowest_equivalent v + cell_width v - 1"

definition reference_quantile :: "u64 list \<Rightarrow> rat \<Rightarrow> u64" where
  "reference_quantile vs q =
     (let rank = max 1 (nat \<lceil>q * of_nat (length vs)\<rceil>)
      in if vs = [] then 0
         else of_nat (highest_equivalent (unat (sort vs ! (min rank (length vs) - 1)))))"

definition hdr_reference :: "u64 list hdr" where
  "hdr_reference =
     \<lparr>hdr_new = [], hdr_record = (\<lambda>v h. v # h), hdr_add = (\<lambda>g h. g @ h),
      hdr_count_between = (\<lambda>h lo hi. of_nat (length (filter
        (\<lambda>v. lowest_equivalent (unat lo) \<le> unat v \<and> unat v \<le> highest_equivalent (unat hi)) h))),
      hdr_quantile = reference_quantile\<rparr>"

lemma equivalent_rec:
  "v < 2048 \<Longrightarrow> lowest_equivalent v = v" "v < 2048 \<Longrightarrow> highest_equivalent v = v"
  "2048 \<le> v \<Longrightarrow> lowest_equivalent v = 2 * lowest_equivalent (v div 2)"
  "2048 \<le> v \<Longrightarrow> highest_equivalent v = 2 * highest_equivalent (v div 2) + 1"
proof -
  have pos: "0 < cell_width v" for v
    by (induction v rule: cell_width.induct) (metis One_nat_def cell_width.simps lessI mult_pos_pos not_less pos2)
  show "v < 2048 \<Longrightarrow> lowest_equivalent v = v" "v < 2048 \<Longrightarrow> highest_equivalent v = v"
    by (simp_all add: lowest_equivalent_def highest_equivalent_def)
  show low: "2048 \<le> v \<Longrightarrow> lowest_equivalent v = 2 * lowest_equivalent (v div 2)"
    by (simp add: lowest_equivalent_def div_mult2_eq)
  show "2048 \<le> v \<Longrightarrow> highest_equivalent v = 2 * highest_equivalent (v div 2) + 1"
    using pos [of "v div 2"] by (simp add: highest_equivalent_def low)
qed

lemma lowest_equivalent_mono: "u \<le> v \<Longrightarrow> lowest_equivalent u \<le> lowest_equivalent v"
proof (induction v arbitrary: u rule: less_induct)
  case (less v)
  show ?case
  proof (cases "v < 2048")
    case False
    have "lowest_equivalent (min (u div 2) (v div 2)) \<le> lowest_equivalent (v div 2)"
      "lowest_equivalent 1024 \<le> lowest_equivalent (v div 2)"
      using False by (auto intro!: less.IH)
    with False less.prems show ?thesis
      by (cases "u < 2048") (auto simp: equivalent_rec min_absorb1 div_le_mono)
  qed (use less.prems in \<open>simp add: equivalent_rec\<close>)
qed

lemma highest_equivalent_mono: "u \<le> v \<Longrightarrow> highest_equivalent u \<le> highest_equivalent v"
proof (induction v arbitrary: u rule: less_induct)
  case (less v)
  show ?case
  proof (cases "v < 2048")
    case False
    have "highest_equivalent (min (u div 2) (v div 2)) \<le> highest_equivalent (v div 2)"
      "highest_equivalent 1024 \<le> highest_equivalent (v div 2)"
      using False by (auto intro!: less.IH)
    with False less.prems show ?thesis
      by (cases "u < 2048") (auto simp: equivalent_rec min_absorb1 div_le_mono)
  qed (use less.prems in \<open>simp add: equivalent_rec\<close>)
qed

lemma equivalent_around: "lowest_equivalent v \<le> v \<and> v \<le> highest_equivalent v"
proof (induction v rule: less_induct)
  case (less v)
  show ?case
  proof (cases "v < 2048")
    case False
    with less.IH [of "v div 2"] show ?thesis by (auto simp: equivalent_rec)
  qed (simp add: equivalent_rec)
qed

interpretation hdr_ref: hdr_cells hdr_reference "\<lambda>h. h" lowest_equivalent highest_equivalent
  using equivalent_around lowest_equivalent_mono highest_equivalent_mono
  by unfold_locales (simp_all add: hdr_reference_def)

section \<open>Histograms account for the observations\<close>

definition record_all :: "'h hdr \<Rightarrow> (duration \<times> bool) list \<Rightarrow> 'h MetricsBucket \<Rightarrow> 'h MetricsBucket" where
  "record_all H obs b = fold (\<lambda>(d, ok). record_bucket H d ok) obs b"

lemma tracked_ms_pos: "1 \<le> unat (tracked_ms d)"
  by (auto simp: tracked_ms_def max_def word_le_nat_alt unat_max_word)

text \<open>The range of values counted by each bucket, and the values that more than one range has.\<close>

fun ranges :: "(nat \<Rightarrow> nat) \<Rightarrow> (nat \<Rightarrow> nat) \<Rightarrow> nat \<Rightarrow> nat list \<Rightarrow> (nat \<times> nat) list" where
  "ranges lowest highest lower [] = []"
| "ranges lowest highest lower (u # us) = (lowest lower, highest u) # ranges lowest highest (u + 1) us"

definition hits :: "(nat \<times> nat) list \<Rightarrow> nat \<Rightarrow> nat" where
  "hits rs v = length (filter (\<lambda>(lo, hi). lo \<le> v \<and> v \<le> hi) rs)"

text \<open>Ranges that start in order and leave no gap, and the values in two neighbours.\<close>

fun gapless :: "(nat \<times> nat) list \<Rightarrow> bool" where
  "gapless ((a, b) # (c, d) # rs) \<longleftrightarrow> a \<le> c \<and> c \<le> b + 1 \<and> gapless ((c, d) # rs)"
| "gapless _ \<longleftrightarrow> True"

fun overlap :: "(nat \<times> nat) list \<Rightarrow> nat \<Rightarrow> bool" where
  "overlap ((a, b) # (c, d) # rs) v \<longleftrightarrow> (c \<le> v \<and> v \<le> b) \<or> overlap ((c, d) # rs) v"
| "overlap _ v \<longleftrightarrow> False"

lemma hits_below: "gapless rs \<Longrightarrow> rs \<noteq> [] \<Longrightarrow> v < fst (hd rs) \<Longrightarrow> hits rs v = 0"
  by (induction rs rule: gapless.induct) (auto simp: hits_def)

lemma hits_once:
  "gapless rs \<Longrightarrow> rs \<noteq> [] \<Longrightarrow> fst (hd rs) \<le> v \<Longrightarrow> v \<le> snd (last rs) \<Longrightarrow> \<not> overlap rs v
     \<Longrightarrow> hits rs v = 1"
proof (induction rs rule: gapless.induct)
  case (1 a b c d rs)
  show ?case
  proof (cases "v \<le> b")
    case True
    with 1 have "hits ((c, d) # rs) v = 0" by (intro hits_below) auto
    with 1 True show ?thesis by (simp add: hits_def)
  next
    case False
    with 1 have "hits ((c, d) # rs) v = 1" by auto
    with False show ?thesis by (simp add: hits_def)
  qed
qed (auto simp: hits_def)

text \<open>Every covered value is hit, and one in two neighbours is hit twice when the ranges also end in order.\<close>

lemma hits_covered:
  "gapless rs \<Longrightarrow> rs \<noteq> [] \<Longrightarrow> fst (hd rs) \<le> v \<Longrightarrow> v \<le> snd (last rs) \<Longrightarrow> 1 \<le> hits rs v"
proof (induction rs rule: gapless.induct)
  case (1 a b c d rs)
  show ?case
  proof (cases "v \<le> b")
    case False
    with 1 have "1 \<le> hits ((c, d) # rs) v" by auto
    with False show ?thesis by (simp add: hits_def)
  qed (use 1 in \<open>simp add: hits_def\<close>)
qed (auto simp: hits_def)

lemma hits_twice:
  "gapless rs \<Longrightarrow> sorted (map snd rs) \<Longrightarrow> overlap rs v \<Longrightarrow> 2 \<le> hits rs v"
proof (induction rs v rule: overlap.induct)
  case (1 a b c d rs v)
  show ?case
  proof (cases "c \<le> v \<and> v \<le> b")
    case True
    with 1 show ?thesis by (simp add: hits_def)
  next
    case False
    with 1 have "2 \<le> hits ((c, d) # rs) v" by auto
    then show ?thesis by (simp add: hits_def)
  qed
qed simp_all

fun increasing_from :: "nat \<Rightarrow> nat list \<Rightarrow> bool" where
  "increasing_from l [] \<longleftrightarrow> True"
| "increasing_from l (u # us) \<longleftrightarrow> l \<le> u \<and> u + 1 < 2 ^ 64 \<and> increasing_from (u + 1) us"

lemma unat_of_nat_len: "n < 2 ^ LENGTH('a) \<Longrightarrow> unat (of_nat n :: 'a::len word) = n"
  by (simp add: unsigned_of_nat take_bit_nat_eq_self)

lemma length_filter_flag: "length (filter P xs) = (\<Sum>x\<leftarrow>xs. if P x then 1 else 0)"
  by (induction xs) auto

text \<open>The bucket that a list of observations leads to, in any order and through any merges.\<close>

definition observes :: "('h \<Rightarrow> u64 list) \<Rightarrow> (duration \<times> bool) list \<Rightarrow> 'h MetricsBucket \<Rightarrow> bool" where
  "observes samples obs b \<longleftrightarrow>
     m_total b = of_nat (length obs) \<and> m_success b = of_nat (length (filter snd obs)) \<and>
     m_failure b = of_nat (length (filter (\<lambda>x. \<not> snd x) obs)) \<and>
     mset (samples (latency_ms b)) = mset (filter (\<lambda>v. v \<le> MAX_TRACKED_MS) (map (tracked_ms \<circ> fst) obs)) \<and>
     (length obs < 2 ^ 64 \<longrightarrow>
        unat (latency_overflow b) = length (filter (\<lambda>v. \<not> v \<le> MAX_TRACKED_MS) (map (tracked_ms \<circ> fst) obs)))"

lemma observes_mset: "mset xs = mset ys \<Longrightarrow> observes samples xs b \<longleftrightarrow> observes samples ys b"
proof -
  assume eq: "mset xs = mset ys"
  then have len: "length (filter P (map f xs)) = length (filter P (map f ys))" for P and f :: "duration \<times> bool \<Rightarrow> 'x"
    by (metis mset_filter mset_map size_mset)
  have "length xs = length ys" using eq by (rule mset_eq_length)
  moreover have "mset (filter P (map f xs)) = mset (filter P (map f ys))" for P and f :: "duration \<times> bool \<Rightarrow> u64"
    using eq by (simp only: mset_filter mset_map)
  ultimately show ?thesis
    using len [of _ "\<lambda>x. x"] len [of _ "tracked_ms \<circ> fst"] by (simp only: observes_def list.map_ident)
qed

context hdr_histogram
begin

lemma unat_count_between:
  "length (samples h) < 2 ^ 64 \<Longrightarrow>
   unat (hdr_count_between H h lo hi) =
     (\<Sum>v\<leftarrow>samples h. if lowest (unat lo) \<le> unat v \<and> unat v \<le> highest (unat hi) then 1 else 0)"
  unfolding count_between length_filter_flag [symmetric]
  by (intro unat_of_nat_len) (simp add: le_less_trans [OF length_filter_le])

lemma bucket_loop_total:
  assumes "length (samples h) < 2 ^ 64" "increasing_from (unat l) (map unat us)"
  shows "bucket_total_of (bucket_loop H h l us)
    = (\<Sum>v\<leftarrow>samples h. hits (ranges lowest highest (unat l) (map unat us)) (unat v))"
  using assms(2)
proof (induction us arbitrary: l)
  case Nil
  then show ?case by (simp add: bucket_total_of_def hits_def)
next
  case (Cons u us)
  then have le: "l \<le> u" and next_bound: "unat (saturating_add u 1) = unat u + 1"
    by (simp_all add: word_le_nat_alt unat_saturating_add)
  have IH: "bucket_total_of (bucket_loop H h (saturating_add u 1) us)
    = (\<Sum>v\<leftarrow>samples h. hits (ranges lowest highest (unat u + 1) (map unat us)) (unat v))"
    using Cons.IH [of "saturating_add u 1"] Cons.prems next_bound by simp
  have "bucket_total_of (bucket_loop H h l (u # us))
    = unat (hdr_count_between H h l u) + bucket_total_of (bucket_loop H h (saturating_add u 1) us)"
    using le by (simp add: bucket_total_of_def not_less [symmetric])
  also have "\<dots> = (\<Sum>v\<leftarrow>samples h. hits (ranges lowest highest (unat l) (map unat (u # us))) (unat v))"
    unfolding IH unat_count_between [OF assms(1)] sum_list_addf [symmetric]
    by (intro arg_cong [of _ _ sum_list] map_cong) (simp_all add: hits_def)
  finally show ?case .
qed

lemma observes_new: "observes samples [] (new_bucket H)"
  by (simp add: observes_def new_bucket_def samples_new)

lemma observes_record: "observes samples obs b \<Longrightarrow> observes samples (obs @ [(d, ok)]) (record_bucket H d ok b)"
  by (auto simp: observes_def record_bucket_def Let_def samples_record unat_saturating_add not_le
      intro!: min_absorb1 order_trans [OF length_filter_le])

lemma observes_merge:
  "observes samples xs a \<Longrightarrow> observes samples ys b \<Longrightarrow> observes samples (ys @ xs) (merge_from H a b)"
  by (auto simp: observes_def merge_from_def samples_add unat_saturating_add not_le
      intro!: min_absorb1 order_trans [OF add_mono [OF length_filter_le length_filter_le]])

lemma record_all_observes: "observes samples obs (record_all H obs (new_bucket H))"
  by (induction obs rule: rev_induct) (auto simp: record_all_def intro: observes_new observes_record)

text \<open>The buckets count each tracked observation as often as its value is in their ranges.\<close>

lemma observed_histogram:
  assumes b: "observes samples obs b" and room: "length obs < 2 ^ 64"
    and incr: "increasing_from 1 (map unat LATENCY_BUCKET_BOUNDS_MS)"
  shows "bucket_total_of (mergeable_latency_buckets H b) =
    (\<Sum>(d, ok)\<leftarrow>obs. if tracked_ms d \<le> MAX_TRACKED_MS
       then hits (ranges lowest highest 1 (map unat LATENCY_BUCKET_BOUNDS_MS)) (unat (tracked_ms d)) else 1)"
proof -
  let ?hit = "\<lambda>v. hits (ranges lowest highest 1 (map unat LATENCY_BUCKET_BOUNDS_MS)) (unat v)"
  let ?ms = "map (tracked_ms \<circ> fst) obs"
  let ?tracked = "filter (\<lambda>v. v \<le> MAX_TRACKED_MS) ?ms"
  have ms: "mset (samples (latency_ms b)) = mset ?tracked" using b by (simp add: observes_def)
  have "length (samples (latency_ms b)) = length ?tracked"
    using arg_cong [OF ms, of size] by (simp only: size_mset)
  also have "\<dots> \<le> length obs" by (rule order_trans [OF length_filter_le]) simp
  finally have "length (samples (latency_ms b)) < 2 ^ 64" using room by linarith
  then have "bucket_total_of (bucket_loop H (latency_ms b) 1 LATENCY_BUCKET_BOUNDS_MS)
      = sum_list (map ?hit (samples (latency_ms b)))"
    using bucket_loop_total [of "latency_ms b" 1] incr by simp
  also have "\<dots> = sum_list (map ?hit ?tracked)"
    using arg_cong [OF ms, of "\<lambda>M. sum_mset (image_mset ?hit M)"]
    by (simp only: mset_map [symmetric] sum_mset_sum_list)
  finally have inner: "bucket_total_of (bucket_loop H (latency_ms b) 1 LATENCY_BUCKET_BOUNDS_MS)
      = sum_list (map ?hit ?tracked)" .
  have outer: "unat (latency_overflow b) = length (filter (\<lambda>v. \<not> v \<le> MAX_TRACKED_MS) ?ms)"
    using b room by (simp add: observes_def)
  have split: "sum_list (map f (filter P xs)) + length (filter (\<lambda>v. \<not> P v) xs) = (\<Sum>v\<leftarrow>xs. if P v then f v else 1)"
    for f :: "u64 \<Rightarrow> nat" and P xs
    by (induction xs) auto
  have "(\<Sum>(d, ok)\<leftarrow>obs. if tracked_ms d \<le> MAX_TRACKED_MS then ?hit (tracked_ms d) else 1)
      = (\<Sum>v\<leftarrow>?ms. if v \<le> MAX_TRACKED_MS then ?hit v else 1)"
    unfolding map_map by (intro arg_cong [of _ _ sum_list] map_cong) auto
  with inner outer split [of ?hit "\<lambda>v. v \<le> MAX_TRACKED_MS" ?ms] show ?thesis
    by (simp add: bucket_total_of_def mergeable_latency_buckets_def)
qed

end

section \<open>Cells and bucket bounds\<close>

text \<open>A value straddles a bucket bound when its cell has values on both sides of the bound.\<close>

definition straddles :: "(nat \<Rightarrow> nat) \<Rightarrow> (nat \<Rightarrow> nat) \<Rightarrow> nat \<Rightarrow> bool" where
  "straddles lowest highest v \<longleftrightarrow> list_ex (\<lambda>u. u < 120000 \<and> lowest (u + 1) \<le> v \<and> v \<le> highest u)
     (map unat LATENCY_BUCKET_BOUNDS_MS)"

lemma bounds_nat: "map unat LATENCY_BUCKET_BOUNDS_MS =
  [1, 2, 5, 10, 25, 50, 100, 250, 500, 1000, 2500, 5000, 10000, 30000, 60000, 120000]"
  by (simp add: LATENCY_BUCKET_BOUNDS_MS_def)

lemma bounds_increasing: "increasing_from 1 (map unat LATENCY_BUCKET_BOUNDS_MS)"
  unfolding bounds_nat by simp

lemma reference_straddles:
  "straddles lowest_equivalent highest_equivalent v \<longleftrightarrow> (2500 \<le> v \<and> v \<le> 2501) \<or> (5000 \<le> v \<and> v \<le> 5003)
     \<or> (10000 \<le> v \<and> v \<le> 10007) \<or> (30000 \<le> v \<and> v \<le> 30015) \<or> (60000 \<le> v \<and> v \<le> 60031)"
  unfolding straddles_def bounds_nat
  by (auto simp: lowest_equivalent_def highest_equivalent_def)

context hdr_cells
begin

abbreviation bucket_ranges :: "(nat \<times> nat) list" where
  "bucket_ranges \<equiv> ranges lowest highest 1 (map unat LATENCY_BUCKET_BOUNDS_MS)"

lemma bucket_ranges_ordered:
  "gapless bucket_ranges" "sorted (map snd bucket_ranges)" "bucket_ranges \<noteq> []"
  "overlap bucket_ranges v \<longleftrightarrow> straddles lowest highest v"
  unfolding bounds_nat straddles_def
  by (auto intro: lowest_mono highest_mono order_trans [OF lowest_le] simp: highest_ge)

lemma bucket_hits:
  assumes "1 \<le> v" "v \<le> 120000"
  shows "\<not> straddles lowest highest v \<Longrightarrow> hits bucket_ranges v = 1"
    and "1 \<le> hits bucket_ranges v"
    and "straddles lowest highest v \<Longrightarrow> 2 \<le> hits bucket_ranges v"
proof -
  have ends: "fst (hd bucket_ranges) \<le> v" "v \<le> snd (last bucket_ranges)"
    using assms lowest_le [of 1] highest_ge [of 120000] unfolding bounds_nat by auto
  note ranges = bucket_ranges_ordered
  show "\<not> straddles lowest highest v \<Longrightarrow> hits bucket_ranges v = 1" "1 \<le> hits bucket_ranges v"
    "straddles lowest highest v \<Longrightarrow> 2 \<le> hits bucket_ranges v"
    using hits_once [OF ranges(1,3) ends] hits_covered [OF ranges(1,3) ends] hits_twice [OF ranges(1,2)] ranges(4)
    by blast+
qed

lemma tracked_hits:
  assumes "tracked_ms d \<le> MAX_TRACKED_MS"
  shows "\<not> straddles lowest highest (unat (tracked_ms d)) \<Longrightarrow> hits bucket_ranges (unat (tracked_ms d)) = 1"
    and "1 \<le> hits bucket_ranges (unat (tracked_ms d))"
    and "straddles lowest highest (unat (tracked_ms d)) \<Longrightarrow> 2 \<le> hits bucket_ranges (unat (tracked_ms d))"
  using bucket_hits [OF tracked_ms_pos [of d]] assms by (auto simp: MAX_TRACKED_MS_def word_le_nat_alt)

text \<open>A histogram in which no latency straddles a bound accounts for every observation.\<close>

lemma calm_histogram_total:
  assumes "observes samples obs b" "length obs < 2 ^ 64"
    and "\<forall>(d, ok) \<in> set obs. \<not> straddles lowest highest (unat (tracked_ms d))"
  shows "bucket_total_of (mergeable_latency_buckets H b) = length obs"
proof -
  have "(\<Sum>(d, ok)\<leftarrow>obs. if tracked_ms d \<le> MAX_TRACKED_MS then hits bucket_ranges (unat (tracked_ms d)) else 1)
      = (\<Sum>_\<leftarrow>obs. 1)"
    using assms(3) tracked_hits(1) by (intro arg_cong [of _ _ sum_list] map_cong) auto
  then show ?thesis
    unfolding observed_histogram [OF assms(1,2) bounds_increasing] by (simp add: sum_list_triv)
qed

text \<open>One with a latency that does counts too many.\<close>

lemma straddled_histogram_total:
  assumes "observes samples obs b" "length obs < 2 ^ 64"
    and "(d, ok) \<in> set obs" "tracked_ms d \<le> MAX_TRACKED_MS" "straddles lowest highest (unat (tracked_ms d))"
  shows "length obs < bucket_total_of (mergeable_latency_buckets H b)"
proof -
  let ?count = "\<lambda>(d, ok :: bool). if tracked_ms d \<le> MAX_TRACKED_MS then hits bucket_ranges (unat (tracked_ms d)) else 1"
  have ge: "1 \<le> ?count x" for x using tracked_hits(2) by (cases x) auto
  from assms(3) obtain xs ys where obs: "obs = xs @ (d, ok) # ys" by (auto simp: in_set_conv_decomp)
  have "length zs \<le> (\<Sum>x\<leftarrow>zs. ?count x)" for zs
  proof (induction zs)
    case (Cons x zs)
    with ge [of x] show ?case by simp
  qed simp
  from this [of xs] this [of ys] tracked_hits(3) [OF assms(4,5)] assms(4)
  have "length obs < (\<Sum>x\<leftarrow>obs. ?count x)" by (simp add: obs)
  then show ?thesis unfolding observed_histogram [OF assms(1,2) bounds_increasing] .
qed

end

section \<open>Properties\<close>

lemma mergeable_bounds:
  "map upper_bound_ms (mergeable_latency_buckets H b) = LATENCY_BUCKET_BOUNDS_MS @ [- 1]"
proof -
  have "map upper_bound_ms (bucket_loop H h l us) = us" for h l us
    by (induction us arbitrary: l) simp_all
  then show ?thesis by (simp add: mergeable_latency_buckets_def)
qed

lemma mergeable_wf:
  assumes "bucket_total_of (mergeable_latency_buckets H b) = n"
  shows "histogram_wf (mergeable_latency_buckets H b) n"
proof -
  have "length (mergeable_latency_buckets H b) = length (map upper_bound_ms (mergeable_latency_buckets H b))"
    by simp
  also have "\<dots> = 17"
    unfolding mergeable_bounds by (simp add: LATENCY_BUCKET_BOUNDS_MS_def)
  finally show ?thesis
    using assms by (simp add: histogram_wf_def mergeable_bounds LATENCY_BUCKET_BOUNDS_MS_def
        word_less_nat_alt unat_max_word)
qed



end
