(* ===== verification/Traces.thy ===== *)
theory Traces
  imports Redis_Server
begin

text \<open>
  Programs that call their environment.  The state of such a program is the history of its calls
  with their replies, and the environment answers each call from the history, in any way.  A safety
  property says which events are allowed after which history; \<open>triple\<close> proves it along the structure
  of a program.
\<close>

section \<open>Calls\<close>

text \<open>An awaited call, and a reading of a clock, which cannot be interrupted.\<close>

definition perform :: "('ev list \<Rightarrow> ('e, 'a) result) \<Rightarrow> (('e, 'a) result \<Rightarrow> 'ev) \<Rightarrow> ('ev list, 'e, 'a) action" where
  "perform ask ev h = (let r = ask h in (r, h @ [ev r]))"

definition read_clock :: "('ev list \<Rightarrow> 'a) \<Rightarrow> ('a \<Rightarrow> 'ev) \<Rightarrow> ('ev list, 'e, 'a) action" where
  "read_clock ask ev h = (let t = ask h in (Inr t, h @ [ev t]))"

section \<open>Reasoning about histories\<close>

text \<open>\<open>traced ok h es\<close>: each event of \<open>es\<close>, which follow the history \<open>h\<close>, is allowed by \<open>ok\<close> after
  what precedes it.\<close>

fun traced :: "('ev list \<Rightarrow> 'ev \<Rightarrow> bool) \<Rightarrow> 'ev list \<Rightarrow> 'ev list \<Rightarrow> bool" where
  "traced ok h [] \<longleftrightarrow> True"
| "traced ok h (e # es) \<longleftrightarrow> ok h e \<and> traced ok (h @ [e]) es"

lemma traced_append [simp]: "traced ok h (as @ bs) \<longleftrightarrow> traced ok h as \<and> traced ok (h @ as) bs"
  by (induction as arbitrary: h) auto

lemma traced_split: "traced ok h (as @ e # bs) \<Longrightarrow> ok (h @ as) e"
  by simp

lemma traced_mono:
  "traced ok h es \<Longrightarrow> (\<And>h e. ok h e \<Longrightarrow> ok' h e) \<Longrightarrow> traced ok' h es"
  by (induction es arbitrary: h) auto

text \<open>\<open>triple ok P m Q\<close>: from a history with \<open>P\<close> the action only appends allowed events, and a
  reply satisfies \<open>Q\<close> with the history then.\<close>

definition triple ::
  "('ev list \<Rightarrow> 'ev \<Rightarrow> bool) \<Rightarrow> ('ev list \<Rightarrow> bool) \<Rightarrow> ('ev list, 'e, 'a) action
     \<Rightarrow> ('a \<Rightarrow> 'ev list \<Rightarrow> bool) \<Rightarrow> bool" where
  "triple ok P m Q \<longleftrightarrow> (\<forall>h. P h \<longrightarrow>
     (\<exists>es. snd (m h) = h @ es \<and> traced ok h es) \<and> (\<forall>x. fst (m h) = Inr x \<longrightarrow> Q x (snd (m h))))"

named_theorems triple_rules

lemma tripleD:
  assumes "triple ok P m Q" "P h" "m h = (r, h')"
  obtains es where "h' = h @ es" "traced ok h es" "\<And>x. r = Inr x \<Longrightarrow> Q x h'"
  using assms unfolding triple_def by (metis fst_conv snd_conv)

lemma triple_weaken:
  "triple ok P m Q \<Longrightarrow> (\<And>h. P' h \<Longrightarrow> P h) \<Longrightarrow> (\<And>x h. Q x h \<Longrightarrow> Q' x h) \<Longrightarrow> triple ok P' m Q'"
  by (auto simp: triple_def)

lemma triple_return [triple_rules]: "(\<And>h. P h \<Longrightarrow> Q x h) \<Longrightarrow> triple ok P (sreturn x) Q"
  by (auto simp: triple_def sreturn_def)

lemma triple_error [triple_rules]: "triple ok P (serror i) Q"
  by (auto simp: triple_def serror_def)

lemma triple_bind:
  assumes "triple ok P m R" "\<And>x. triple ok (R x) (k x) Q"
  shows "triple ok P (sbind m k) Q"
  unfolding triple_def
proof (intro allI impI)
  fix h assume "P h"
  obtain r h1 where m: "m h = (r, h1)" by force
  from tripleD [OF assms(1) \<open>P h\<close> m] obtain es where
    es: "h1 = h @ es" "traced ok h es" and R: "\<And>x. r = Inr x \<Longrightarrow> R x h1" by blast
  show "(\<exists>es. snd (sbind m k h) = h @ es \<and> traced ok h es) \<and>
      (\<forall>x. fst (sbind m k h) = Inr x \<longrightarrow> Q x (snd (sbind m k h)))"
  proof (cases r)
    case (Inl i)
    with m es show ?thesis by (simp add: sbind_def)
  next
    case (Inr x)
    obtain r2 h2 where k: "k x h1 = (r2, h2)" by force
    from tripleD [OF assms(2) R [OF Inr] k] obtain es2 where
      "h2 = h1 @ es2" "traced ok h1 es2" "\<And>y. r2 = Inr y \<Longrightarrow> Q y h2" by blast
    with m Inr k es show ?thesis by (auto simp: sbind_def)
  qed
qed

lemma triple_perform [triple_rules]:
  "(\<And>h r. P h \<Longrightarrow> r = ask h \<Longrightarrow> ok h (ev r) \<and> (\<forall>x. r = Inr x \<longrightarrow> Q x (h @ [ev r])))
     \<Longrightarrow> triple ok P (perform ask ev) Q"
  by (auto simp: triple_def perform_def Let_def)

lemma triple_read_clock [triple_rules]:
  "(\<And>h t. P h \<Longrightarrow> ok h (ev t) \<and> Q t (h @ [ev t])) \<Longrightarrow> triple ok P (read_clock ask ev) Q"
  by (auto simp: triple_def read_clock_def Let_def)

lemma triple_if [triple_rules]:
  "(b \<Longrightarrow> triple ok P m Q) \<Longrightarrow> (\<not> b \<Longrightarrow> triple ok P n Q) \<Longrightarrow> triple ok P (if b then m else n) Q"
  by simp

lemma triple_option [triple_rules]:
  "(x = None \<Longrightarrow> triple ok P m Q) \<Longrightarrow> (\<And>y. x = Some y \<Longrightarrow> triple ok P (k y) Q)
     \<Longrightarrow> triple ok P (case x of None \<Rightarrow> m | Some y \<Rightarrow> k y) Q"
  by (cases x) simp_all

lemma triple_sum [triple_rules]:
  "(\<And>y. x = Inl y \<Longrightarrow> triple ok P (j y) Q) \<Longrightarrow> (\<And>y. x = Inr y \<Longrightarrow> triple ok P (k y) Q)
     \<Longrightarrow> triple ok P (case x of Inl y \<Rightarrow> j y | Inr y \<Rightarrow> k y) Q"
  by (cases x) simp_all

lemma triple_state: "(\<And>h. P h \<Longrightarrow> triple ok (\<lambda>g. g = h) m Q) \<Longrightarrow> triple ok P m Q"
  by (auto simp: triple_def)

text \<open>A fact that events cannot undo is kept by every action.\<close>

definition stable :: "('ev list \<Rightarrow> bool) \<Rightarrow> bool" where
  "stable R \<longleftrightarrow> (\<forall>h es. R h \<longrightarrow> R (h @ es))"

lemma stable_intros [simp, intro]:
  "stable (\<lambda>h. e \<in> set h)"
  "stable (\<lambda>h. c)"
  "stable R \<Longrightarrow> stable S \<Longrightarrow> stable (\<lambda>h. R h \<and> S h)"
  "stable R \<Longrightarrow> stable S \<Longrightarrow> stable (\<lambda>h. R h \<or> S h)"
  "(\<And>x. stable (T x)) \<Longrightarrow> stable (\<lambda>h. \<exists>x. T x h)"
  unfolding stable_def by auto

lemma triple_frame:
  "triple ok P m Q \<Longrightarrow> stable R \<Longrightarrow> triple ok (\<lambda>h. P h \<and> R h) m (\<lambda>x h. Q x h \<and> R h)"
  unfolding triple_def stable_def by (auto simp: all_conj_distrib)

end
