(* ===== verification/Node_Runtime.thy ===== *)
theory Node_Runtime
  imports Slice_Planning Run_Metrics Traces
begin

text \<open>
  The runtime a Pulse node runs in: its configuration, its dispositions and the ports of
  \<open>application/service.rs\<close> through which it reaches Redis, Kafka, the clocks and the load runner.

  A node is a sequence of awaited calls.  The environment \<open>E\<close> decides every reply from the history
  of calls so far, so a statement for every \<open>E\<close> covers every order in which other nodes, the
  renewal of a lease, a rebalance, a deadline or a shutdown can act between two calls.  A call is
  answered by its reply or by an interrupt: the future was dropped while the call was pending,
  whether or not the call had its effect.  \<open>Lease_Lost\<close> is the interrupt by the lease renewal that
  runs beside a settlement, \<open>Stopped\<close> the one by the processing deadline or the shutdown drain.
  Every call is appended to the history with its reply, and the properties speak about histories.
\<close>

section \<open>Configuration and dispositions\<close>

record NodeRuntimeConfig =
  leader_renew_interval :: duration
  scheduler_tick_interval :: duration
  worker_max_retries :: u32
  worker_retry_base_delay :: duration
  worker_retry_max_delay :: duration
  worker_queue_capacity :: usize
  execution_renew_interval :: duration
  shutdown_drain_timeout :: duration
  max_processing_interval :: duration
  cfg_max_job_duration :: duration
  cfg_max_scenarios_per_sec :: f64
  cfg_max_concurrency :: usize
  scenario_timeout :: "duration option"
  cfg_startup_burst :: usize

definition default_runtime_config :: NodeRuntimeConfig where
  "default_runtime_config =
     \<lparr>leader_renew_interval = from_secs 3, scheduler_tick_interval = from_millis 500,
      worker_max_retries = 2, worker_retry_base_delay = from_millis 500,
      worker_retry_max_delay = from_secs 30, worker_queue_capacity = 64,
      execution_renew_interval = from_secs 10, shutdown_drain_timeout = from_secs 30,
      max_processing_interval = from_secs 299, cfg_max_job_duration = from_secs 60,
      cfg_max_scenarios_per_sec = Finite 1000, cfg_max_concurrency = 256,
      scenario_timeout = Some (from_secs 30), cfg_startup_burst = 0\<rparr>"

datatype JobDisposition =
    Result_Published
  | Retry_Published
  | Dead_Letter_Published
  | Duplicate_Completed
  | Execution_Lease_Busy duration
  | Retry_Later

definition is_terminal :: "JobDisposition \<Rightarrow> bool" where
  "is_terminal d = (case d of Execution_Lease_Busy _ \<Rightarrow> False | Retry_Later \<Rightarrow> False | _ \<Rightarrow> True)"

section \<open>Monotonic time\<close>

text \<open>An \<open>Instant\<close> is a number of nanoseconds.  Its addition is checked against the range of the
  platform, signed 64-bit seconds.\<close>

type_synonym instant = nat

definition INSTANT_LIMIT :: nat where "INSTANT_LIMIT = 2 ^ 63 * 10 ^ 9"

definition instant_checked_add :: "instant \<Rightarrow> duration \<Rightarrow> instant option" where
  "instant_checked_add t d = (if t + d < INSTANT_LIMIT then Some (t + d) else None)"

definition conservative_lease_deadline :: "instant \<Rightarrow> duration \<Rightarrow> duration \<Rightarrow> instant" where
  "conservative_lease_deadline request_started ttl reserve =
     (case instant_checked_add request_started (ttl - reserve) of None \<Rightarrow> request_started | Some t \<Rightarrow> t)"

definition lease_response_has_safe_budget :: "instant \<Rightarrow> duration \<Rightarrow> duration \<Rightarrow> instant \<Rightarrow> bool" where
  "lease_response_has_safe_budget request_started ttl reserve now \<longleftrightarrow>
     conservative_lease_deadline request_started ttl reserve > now"

definition interval_remaining :: "instant \<Rightarrow> duration \<Rightarrow> instant \<Rightarrow> duration" where
  "interval_remaining request_started interval now = interval - (now - request_started)"

record ObservedLeaderLease =
  obs_lease :: LeaderLease
  valid_until :: instant

definition observed_leader_lease :: "LeaderLease \<Rightarrow> duration \<Rightarrow> instant \<Rightarrow> ObservedLeaderLease" where
  "observed_leader_lease lease renew_interval request_started =
     \<lparr>obs_lease = lease,
      valid_until = conservative_lease_deadline request_started (leader_ttl lease) renew_interval\<rparr>"

section \<open>Runs\<close>

record RunnerConfig =
  rc_duration :: duration
  rc_scenarios_per_sec :: f64
  rc_max_concurrency :: usize
  rc_scenario_timeout :: "duration option"
  rc_startup_burst :: usize

record 'h RunReport =
  summary :: "'h RunMetrics"
  started :: u64
  finished :: u64
  configured_scenarios_per_sec :: f64
  actual_started_per_sec :: f64
  peak_pending_tasks :: usize

section \<open>Calls and histories\<close>

datatype interrupt = Lease_Lost | Stopped

type_synonym 'a awaited = "(interrupt, 'a) result"

text \<open>A Kafka record under processing, the trait \<open>CommitableJob\<close>.\<close>

record source_record =
  src_job :: "(contract_error, ScenarioJob) result"
  src_poison_record :: "string \<Rightarrow> PoisonMessageRecord"
  src_topic :: string
  src_partition :: int
  src_offset :: int

datatype event =
    Now u128
  | Instant_Now instant
  | Slept duration "unit awaited"
  | Slept_Until instant "unit awaited"
  | Waited duration "bool awaited"
  | Elected "LeaderLease option" "(coordination_error, LeadershipOutcome) result awaited"
  | Relinquished LeaderLease "(coordination_error, unit) result awaited"
  | Sent_Leader "ObservedLeaderLease option"
  | Saw_Leader "ObservedLeaderLease option"
  | Scheduler_Stopped "unit awaited"
  | Leader_Changed "bool awaited"
  | Prepared DispatchSpec LeaderLease "(coordination_error, DispatchOutcome) result awaited"
  | Registered DispatchWindow duration "(coordination_error, unit) result awaited"
  | Acked DispatchWindow u32 LeaderLease "(coordination_error, DispatchProgress) result awaited"
  | Claimed ExecutionClaim "(coordination_error, ClaimOutcome) result awaited"
  | Renewed ExecutionLease "(coordination_error, ExecutionLease) result awaited"
  | Completed ExecutionLease TerminalOutcome "(coordination_error, CompletedOutcome) result awaited"
  | Release ExecutionLease "(coordination_error, ReleaseOutcome) result awaited"
  | Job_Published string ScenarioJob "(string, unit) result awaited"
  | Run_Result_Published ScenarioRunResult "(string, unit) result awaited"
  | Failed_Published string FailedScenarioJob "(string, unit) result awaited"
  | Poison_Published PoisonMessageRecord "(string, unit) result awaited"
  | Target_Run RunnerConfig "unit awaited"
  | Committed source_record "(string, unit) result awaited"

type_synonym history = "event list"

text \<open>What can wake a scheduler that waits for the acknowledgement of a job: a shutdown, the local
  leadership deadline, a change of the observed leadership (with the flag that the channel is
  closed), or the reply.\<close>

datatype publication_wake =
    Wake_Shutdown
  | Wake_Expired
  | Wake_Leader_Changed bool
  | Wake_Published "(string, unit) result"

record ('step, 'h) node_env =
  env_now :: "history \<Rightarrow> u128"
  env_instant :: "history \<Rightarrow> instant"
  env_shutdown :: "history \<Rightarrow> bool"
  env_sleep :: "history \<Rightarrow> duration \<Rightarrow> unit awaited"
  env_sleep_until :: "history \<Rightarrow> instant \<Rightarrow> unit awaited"
  env_wait :: "history \<Rightarrow> duration \<Rightarrow> bool awaited"
  env_claim :: "history \<Rightarrow> ExecutionClaim \<Rightarrow> (coordination_error, ClaimOutcome) result awaited"
  env_renew :: "history \<Rightarrow> ExecutionLease \<Rightarrow> (coordination_error, ExecutionLease) result awaited"
  env_complete :: "history \<Rightarrow> ExecutionLease \<Rightarrow> TerminalOutcome
    \<Rightarrow> (coordination_error, CompletedOutcome) result awaited"
  env_release :: "history \<Rightarrow> ExecutionLease \<Rightarrow> (coordination_error, ReleaseOutcome) result awaited"
  env_publish_job :: "history \<Rightarrow> string \<Rightarrow> ScenarioJob \<Rightarrow> (string, unit) result awaited"
  env_publish_result :: "history \<Rightarrow> ScenarioRunResult \<Rightarrow> (string, unit) result awaited"
  env_publish_failed :: "history \<Rightarrow> string \<Rightarrow> FailedScenarioJob \<Rightarrow> (string, unit) result awaited"
  env_publish_poison :: "history \<Rightarrow> PoisonMessageRecord \<Rightarrow> (string, unit) result awaited"
  env_run :: "history \<Rightarrow> 'step Scenario \<Rightarrow> RunnerConfig \<Rightarrow> 'h RunReport awaited"
  env_commit :: "history \<Rightarrow> source_record \<Rightarrow> (string, unit) result awaited"
  env_elect :: "history \<Rightarrow> LeaderLease option \<Rightarrow> (coordination_error, LeadershipOutcome) result awaited"
  env_relinquish :: "history \<Rightarrow> LeaderLease \<Rightarrow> (coordination_error, unit) result awaited"
  env_scheduler_stopped :: "history \<Rightarrow> unit awaited"
  env_leader :: "history \<Rightarrow> ObservedLeaderLease option"
  env_leader_changed :: "history \<Rightarrow> bool awaited"
  env_publication :: "history \<Rightarrow> string \<Rightarrow> ScenarioJob \<Rightarrow> publication_wake list"
  env_prepare :: "history \<Rightarrow> DispatchSpec \<Rightarrow> LeaderLease \<Rightarrow> (coordination_error, DispatchOutcome) result awaited"
  env_register :: "history \<Rightarrow> DispatchWindow \<Rightarrow> duration \<Rightarrow> (coordination_error, unit) result awaited"
  env_ack :: "history \<Rightarrow> DispatchWindow \<Rightarrow> u32 \<Rightarrow> LeaderLease
    \<Rightarrow> (coordination_error, DispatchProgress) result awaited"

type_synonym 'a node_action = "(history, interrupt, 'a) action"

definition now_unix_ms :: "('step, 'h) node_env \<Rightarrow> u128 node_action" where
  "now_unix_ms E = read_clock (env_now E) Now"

definition instant_now :: "('step, 'h) node_env \<Rightarrow> instant node_action" where
  "instant_now E = read_clock (env_instant E) Instant_Now"

definition shutdown_requested :: "('step, 'h) node_env \<Rightarrow> bool node_action" where
  "shutdown_requested E h = (Inr (env_shutdown E h), h)"

definition node_sleep :: "('step, 'h) node_env \<Rightarrow> duration \<Rightarrow> unit node_action" where
  "node_sleep E d = perform (\<lambda>h. env_sleep E h d) (Slept d)"

definition node_sleep_until :: "('step, 'h) node_env \<Rightarrow> instant \<Rightarrow> unit node_action" where
  "node_sleep_until E t = perform (\<lambda>h. env_sleep_until E h t) (Slept_Until t)"

definition wait_or_shutdown :: "('step, 'h) node_env \<Rightarrow> duration \<Rightarrow> bool node_action" where
  "wait_or_shutdown E d = perform (\<lambda>h. env_wait E h d) (Waited d)"

definition store_claim ::
  "('step, 'h) node_env \<Rightarrow> ExecutionClaim \<Rightarrow> (coordination_error, ClaimOutcome) result node_action" where
  "store_claim E c = perform (\<lambda>h. env_claim E h c) (Claimed c)"

definition store_renew ::
  "('step, 'h) node_env \<Rightarrow> ExecutionLease \<Rightarrow> (coordination_error, ExecutionLease) result node_action" where
  "store_renew E l = perform (\<lambda>h. env_renew E h l) (Renewed l)"

definition store_complete ::
  "('step, 'h) node_env \<Rightarrow> ExecutionLease \<Rightarrow> TerminalOutcome
     \<Rightarrow> (coordination_error, CompletedOutcome) result node_action" where
  "store_complete E l t = perform (\<lambda>h. env_complete E h l t) (Completed l t)"

definition store_release ::
  "('step, 'h) node_env \<Rightarrow> ExecutionLease \<Rightarrow> (coordination_error, ReleaseOutcome) result node_action" where
  "store_release E l = perform (\<lambda>h. env_release E h l) (Release l)"

definition publish_job ::
  "('step, 'h) node_env \<Rightarrow> string \<Rightarrow> ScenarioJob \<Rightarrow> (string, unit) result node_action" where
  "publish_job E key job = perform (\<lambda>h. env_publish_job E h key job) (Job_Published key job)"

definition publish_result ::
  "('step, 'h) node_env \<Rightarrow> ScenarioRunResult \<Rightarrow> (string, unit) result node_action" where
  "publish_result E r = perform (\<lambda>h. env_publish_result E h r) (Run_Result_Published r)"

definition publish_failed_job ::
  "('step, 'h) node_env \<Rightarrow> string \<Rightarrow> FailedScenarioJob \<Rightarrow> (string, unit) result node_action" where
  "publish_failed_job E key f = perform (\<lambda>h. env_publish_failed E h key f) (Failed_Published key f)"

definition publish_poison ::
  "('step, 'h) node_env \<Rightarrow> PoisonMessageRecord \<Rightarrow> (string, unit) result node_action" where
  "publish_poison E p = perform (\<lambda>h. env_publish_poison E h p) (Poison_Published p)"

definition run_target ::
  "('step, 'h) node_env \<Rightarrow> 'step Scenario \<Rightarrow> RunnerConfig \<Rightarrow> 'h RunReport node_action" where
  "run_target E sc rc = perform (\<lambda>h. env_run E h sc rc)
     (\<lambda>r. Target_Run rc (case r of Inl i \<Rightarrow> Inl i | Inr _ \<Rightarrow> Inr ()))"

definition commit_source :: "('step, 'h) node_env \<Rightarrow> source_record \<Rightarrow> (string, unit) result node_action" where
  "commit_source E src = perform (\<lambda>h. env_commit E h src) (Committed src)"

definition observe_leader :: "('step, 'h) node_env \<Rightarrow> ObservedLeaderLease option node_action" where
  "observe_leader E = read_clock (env_leader E) Saw_Leader"

definition send_leader :: "ObservedLeaderLease option \<Rightarrow> unit node_action" where
  "send_leader o1 = read_clock (\<lambda>_. ()) (\<lambda>_. Sent_Leader o1)"

definition elector_acquire_or_renew ::
  "('step, 'h) node_env \<Rightarrow> LeaderLease option \<Rightarrow> (coordination_error, LeadershipOutcome) result node_action" where
  "elector_acquire_or_renew E current = perform (\<lambda>h. env_elect E h current) (Elected current)"

definition elector_relinquish :: "('step, 'h) node_env \<Rightarrow> LeaderLease \<Rightarrow> (coordination_error, unit) result node_action" where
  "elector_relinquish E l = perform (\<lambda>h. env_relinquish E h l) (Relinquished l)"

definition await_scheduler_stopped :: "('step, 'h) node_env \<Rightarrow> unit node_action" where
  "await_scheduler_stopped E = perform (env_scheduler_stopped E) Scheduler_Stopped"

definition await_leader_changed :: "('step, 'h) node_env \<Rightarrow> bool node_action" where
  "await_leader_changed E = perform (env_leader_changed E) Leader_Changed"

definition store_prepare ::
  "('step, 'h) node_env \<Rightarrow> DispatchSpec \<Rightarrow> LeaderLease \<Rightarrow> (coordination_error, DispatchOutcome) result node_action" where
  "store_prepare E spec l = perform (\<lambda>h. env_prepare E h spec l) (Prepared spec l)"

definition store_register ::
  "('step, 'h) node_env \<Rightarrow> DispatchWindow \<Rightarrow> duration \<Rightarrow> (coordination_error, unit) result node_action" where
  "store_register E w d = perform (\<lambda>h. env_register E h w d) (Registered w d)"

definition store_ack ::
  "('step, 'h) node_env \<Rightarrow> DispatchWindow \<Rightarrow> u32 \<Rightarrow> LeaderLease
     \<Rightarrow> (coordination_error, DispatchProgress) result node_action" where
  "store_ack E w i l = perform (\<lambda>h. env_ack E h w i l) (Acked w i l)"

end
