(* ===== verification/Worker_Settlement.thy ===== *)
theory Worker_Settlement
  imports Node_Runtime
begin

text \<open>
  The worker of \<open>application/service.rs\<close>: a Kafka record is processed to a durable terminal
  disposition and only then committed.  The operations are the functions of the source in their
  order, from the bounded publication loops up to \<open>worker_loop\<close>.

  \<open>H\<close> is the histogram crate, \<open>material\<close> the fingerprint material of a step, \<open>show_f64\<close> and
  \<open>show_duration\<close> the renderings in messages.  Log lines and counters of the metrics endpoint have
  no effect on the processing and are left out, and with them the reading of the clock for the
  observed job age.
\<close>

section \<open>Bounded local retries\<close>

definition local_settlement_attempt_limit :: "NodeRuntimeConfig \<Rightarrow> u32" where
  "local_settlement_attempt_limit cfg = max (saturating_add (worker_max_retries cfg) 1) 1"

text \<open>The reply to one attempt: accepted, an error that ends the loop, or an error that is retried.\<close>

datatype ('e, 'a) attempt_reply =
    Accepted 'a
  | Fatal 'e
  | Refused 'e

text \<open>The loop \<open>for attempt in 0..limit\<close> with \<open>n\<close> attempts left after this one: the error of the
  last attempt is the result, and a delay separates two attempts.\<close>

fun retry_loop ::
  "('step, 'h) node_env \<Rightarrow> NodeRuntimeConfig \<Rightarrow> string \<Rightarrow> ('e, 'a) attempt_reply node_action \<Rightarrow> nat \<Rightarrow> nat
     \<Rightarrow> ('e, 'a) result node_action" where
  "retry_loop E cfg entropy body attempt n =
     sbind body (\<lambda>r. case r of
       Accepted x \<Rightarrow> sreturn (Inr x)
     | Fatal e \<Rightarrow> sreturn (Inl e)
     | Refused e \<Rightarrow> (case n of
         0 \<Rightarrow> sreturn (Inl e)
       | Suc m \<Rightarrow> sbind (node_sleep E (retry_delay (worker_retry_base_delay cfg)
             (worker_retry_max_delay cfg) (of_nat attempt) entropy))
           (\<lambda>_. retry_loop E cfg entropy body (Suc attempt) m)))"

declare retry_loop.simps [simp del]

definition with_retry ::
  "('step, 'h) node_env \<Rightarrow> NodeRuntimeConfig \<Rightarrow> string \<Rightarrow> ('e, 'a) attempt_reply node_action
     \<Rightarrow> ('e, 'a) result node_action" where
  "with_retry E cfg entropy body =
     retry_loop E cfg entropy body 0 (unat (local_settlement_attempt_limit cfg) - 1)"

definition reply_of :: "('e, 'a) result \<Rightarrow> ('e, 'a) attempt_reply" where
  "reply_of r = (case r of Inl e \<Rightarrow> Refused e | Inr x \<Rightarrow> Accepted x)"

section \<open>Publications\<close>

definition verify_publication_lease ::
  "('step, 'h) node_env \<Rightarrow> NodeRuntimeConfig \<Rightarrow> ExecutionLease \<Rightarrow> (string, unit) result node_action" where
  "verify_publication_lease E cfg lease =
     sbind (instant_now E) (\<lambda>request_started.
     sbind (store_renew E lease) (\<lambda>reply. case reply of
       Inl e \<Rightarrow> sreturn (Inl
         (''execution lease could not be owner-checked immediately before publication: ''
            @ coordination_error_display e))
     | Inr renewed \<Rightarrow> sbind (instant_now E) (\<lambda>now.
         if lease_response_has_safe_budget request_started (lease_ttl renewed)
              (execution_renew_interval cfg) now
         then sreturn (Inr ())
         else sreturn (Inl
           ''execution lease owner check exhausted its conservative local lease budget''))))"

text \<open>One publication attempt under a lease: the owner check comes first, and its error ends the
  loop.\<close>

definition leased_attempt ::
  "('step, 'h) node_env \<Rightarrow> NodeRuntimeConfig \<Rightarrow> ExecutionLease option \<Rightarrow> (string, unit) result node_action
     \<Rightarrow> (string, unit) attempt_reply node_action" where
  "leased_attempt E cfg lease publication =
     sbind (case lease of None \<Rightarrow> sreturn (Inr ()) | Some l \<Rightarrow> verify_publication_lease E cfg l)
       (\<lambda>checked. case checked of
          Inl e \<Rightarrow> sreturn (Fatal e)
        | Inr _ \<Rightarrow> sbind publication (\<lambda>r. sreturn (reply_of r)))"

definition publish_retry_with_retry ::
  "('step, 'h) node_env \<Rightarrow> NodeRuntimeConfig \<Rightarrow> string \<Rightarrow> ScenarioJob \<Rightarrow> ExecutionLease
     \<Rightarrow> (string, unit) result node_action" where
  "publish_retry_with_retry E cfg partition_key retry_job lease =
     with_retry E cfg (job_execution_key retry_job)
       (leased_attempt E cfg (Some lease) (publish_job E partition_key retry_job))"

definition publish_result_with_retry ::
  "('step, 'h) node_env \<Rightarrow> NodeRuntimeConfig \<Rightarrow> ScenarioRunResult \<Rightarrow> ExecutionLease
     \<Rightarrow> (string, unit) result node_action" where
  "publish_result_with_retry E cfg r lease =
     with_retry E cfg (res_execution_key r) (leased_attempt E cfg (Some lease) (publish_result E r))"

definition publish_failed_with_optional_lease ::
  "('step, 'h) node_env \<Rightarrow> NodeRuntimeConfig \<Rightarrow> FailedScenarioJob \<Rightarrow> ExecutionLease option
     \<Rightarrow> (string, unit) result node_action" where
  "publish_failed_with_optional_lease E cfg failed lease =
     with_retry E cfg (fj_execution_key failed)
       (leased_attempt E cfg lease (publish_failed_job E (fj_execution_key failed) failed))"

definition publish_failed_with_retry ::
  "('step, 'h) node_env \<Rightarrow> NodeRuntimeConfig \<Rightarrow> FailedScenarioJob \<Rightarrow> (string, unit) result node_action" where
  "publish_failed_with_retry E cfg failed = publish_failed_with_optional_lease E cfg failed None"

definition publish_leased_failed_with_retry ::
  "('step, 'h) node_env \<Rightarrow> NodeRuntimeConfig \<Rightarrow> FailedScenarioJob \<Rightarrow> ExecutionLease
     \<Rightarrow> (string, unit) result node_action" where
  "publish_leased_failed_with_retry E cfg failed lease =
     publish_failed_with_optional_lease E cfg failed (Some lease)"

definition publish_poison_with_retry ::
  "('step, 'h) node_env \<Rightarrow> NodeRuntimeConfig \<Rightarrow> PoisonMessageRecord \<Rightarrow> (string, unit) result node_action" where
  "publish_poison_with_retry E cfg poison =
     with_retry E cfg (pm_event_id poison) (leased_attempt E cfg None (publish_poison E poison))"

definition complete_attempt ::
  "('step, 'h) node_env \<Rightarrow> ExecutionLease \<Rightarrow> TerminalOutcome
     \<Rightarrow> (coordination_error, unit) attempt_reply node_action" where
  "complete_attempt E lease terminal =
     sbind (store_complete E lease terminal) (\<lambda>r. sreturn (case r of
       Inr _ \<Rightarrow> Accepted ()
     | Inl (StaleOwner operation) \<Rightarrow> Fatal (StaleOwner operation)
     | Inl e \<Rightarrow> Refused e))"

definition complete_until_acknowledged ::
  "('step, 'h) node_env \<Rightarrow> NodeRuntimeConfig \<Rightarrow> ExecutionLease \<Rightarrow> TerminalOutcome
     \<Rightarrow> (coordination_error, unit) result node_action" where
  "complete_until_acknowledged E cfg lease terminal =
     with_retry E cfg (lease_execution_key lease) (complete_attempt E lease terminal)"

section \<open>Settlement of an execution\<close>

text \<open>The terminal record after an acknowledged publication.\<close>

definition complete_disposition ::
  "('step, 'h) node_env \<Rightarrow> NodeRuntimeConfig \<Rightarrow> ExecutionLease \<Rightarrow> TerminalOutcome \<Rightarrow> JobDisposition
     \<Rightarrow> JobDisposition node_action" where
  "complete_disposition E cfg lease terminal d =
     sbind (complete_until_acknowledged E cfg lease terminal) (\<lambda>r.
       sreturn (case r of Inl _ \<Rightarrow> Retry_Later | Inr _ \<Rightarrow> d))"

definition publish_and_complete_dlq ::
  "('step, 'h) node_env \<Rightarrow> NodeRuntimeConfig \<Rightarrow> ScenarioJob \<Rightarrow> ExecutionLease \<Rightarrow> string
     \<Rightarrow> JobDisposition node_action" where
  "publish_and_complete_dlq E cfg job lease reason =
     sbind (now_unix_ms E) (\<lambda>now.
     sbind (publish_leased_failed_with_retry E cfg (failed_job now job reason) lease) (\<lambda>r. case r of
       Inl _ \<Rightarrow> sreturn Retry_Later
     | Inr _ \<Rightarrow> complete_disposition E cfg lease DeadLetterPublished Dead_Letter_Published))"

definition next_attempt :: "u128 \<Rightarrow> duration \<Rightarrow> ScenarioJob \<Rightarrow> ScenarioJob" where
  "next_attempt now delay job =
     job\<lparr>job_attempt := saturating_add (job_attempt job) 1,
         not_before_unix_ms := saturating_add now (of_nat (as_millis delay))\<rparr>"

definition settle_infrastructure_failure ::
  "('step, 'h) node_env \<Rightarrow> NodeRuntimeConfig \<Rightarrow> ScenarioJob \<Rightarrow> 'step ScenarioExecutionPlan option
     \<Rightarrow> ExecutionLease \<Rightarrow> string \<Rightarrow> JobDisposition node_action" where
  "settle_infrastructure_failure E cfg job plan lease reason =
     (if job_attempt job \<ge> job_max_retries job
      then publish_and_complete_dlq E cfg job lease
        (''automatic retry attempts exhausted at attempt '' @ word_str (job_attempt job) @ ''/''
           @ word_str (job_max_retries job) @ '': '' @ reason)
      else
        let delay = retry_delay (worker_retry_base_delay cfg) (worker_retry_max_delay cfg)
              (job_attempt job) (job_execution_key job)
        in sbind (now_unix_ms E) (\<lambda>now.
           let retry_job = next_attempt now delay job;
               partition_key = (case plan of
                 None \<Rightarrow> job_execution_key retry_job
               | Some p \<Rightarrow> key_for (sc_partition (sc_config (plan_scenario p))) retry_job)
           in sbind (publish_retry_with_retry E cfg partition_key retry_job lease) (\<lambda>r. case r of
                Inl _ \<Rightarrow> sreturn Retry_Later
              | Inr _ \<Rightarrow> complete_disposition E cfg lease RetryPublished Retry_Published)))"

definition error_total :: "'h RunReport \<Rightarrow> string \<Rightarrow> u64" where
  "error_total report kind = (case fmlookup (error_counts (summary report)) kind of None \<Rightarrow> 0 | Some n \<Rightarrow> n)"

definition runner_config :: "NodeRuntimeConfig \<Rightarrow> ScenarioJob \<Rightarrow> RunnerConfig" where
  "runner_config cfg job =
     \<lparr>rc_duration = load_duration (load job), rc_scenarios_per_sec = scenarios_per_sec (load job),
      rc_max_concurrency = max_concurrency (load job), rc_scenario_timeout = scenario_timeout cfg,
      rc_startup_burst = startup_burst (load job)\<rparr>"

definition run_result ::
  "'h hdr \<Rightarrow> ScenarioJob \<Rightarrow> u128 \<Rightarrow> u128 \<Rightarrow> 'h RunReport \<Rightarrow> ScenarioRunResult" where
  "run_result H job started_at finished_at report =
     (let metrics = fmlookup (scenario_metrics (summary report)) (job_scenario_id job);
          success = (case metrics of None \<Rightarrow> 0 | Some m \<Rightarrow> m_success m);
          failure = (case metrics of None \<Rightarrow> 0 | Some m \<Rightarrow> m_failure m);
          quantile = (\<lambda>q. case metrics of None \<Rightarrow> 0 | Some m \<Rightarrow> hdr_quantile H (latency_ms m) q)
      in \<lparr>res_schema_version = CURRENT_CONTRACT_VERSION, res_scenario_id = job_scenario_id job,
          res_run_id = job_run_id job, res_execution_key = job_execution_key job,
          res_event_id = build_terminal_event_id (job_execution_key job) (job_attempt job) ''result'',
          res_attempt = job_attempt job, res_slice = job_slice job,
          started_at_unix_ms = started_at, finished_at_unix_ms = finished_at,
          res_status = (if started report = finished report \<and> failure = 0 \<and> finished report > 0
                        then RunSuccess else RunFailed),
          res_total = finished report, res_success = success, res_failure = failure,
          res_p50_ms = quantile (1 / 2), res_p95_ms = quantile (95 / 100), res_p99_ms = quantile (99 / 100),
          latency_histogram = mergeable_latency_buckets H
            (case metrics of None \<Rightarrow> new_bucket H | Some m \<Rightarrow> m),
          error_breakdown = map (\<lambda>(kind, n). \<lparr>error_kind = kind, error_count = n\<rparr>)
            (entries (error_counts (summary report)))\<rparr>)"

definition settle_report ::
  "('step, 'h) node_env \<Rightarrow> 'h hdr \<Rightarrow> NodeRuntimeConfig \<Rightarrow> ScenarioJob \<Rightarrow> 'step ScenarioExecutionPlan
     \<Rightarrow> ExecutionLease \<Rightarrow> u128 \<Rightarrow> u128 \<Rightarrow> 'h RunReport \<Rightarrow> JobDisposition node_action" where
  "settle_report E H cfg job plan lease started_at finished_at report =
     (let infrastructure = error_total report ''pulse_infrastructure'';
          permanent = error_total report ''permanent_processing''
            + error_total report ''invalid_scenario'' + error_total report ''missing_context_var''
      in if error_total report ''invariant_violation'' > 0 then sreturn Retry_Later
         else if infrastructure > 0
         then settle_infrastructure_failure E cfg job (Some plan) lease
           (''scenario attempt measured '' @ word_str infrastructure
              @ '' transient Pulse infrastructure failure(s)'')
         else if permanent > 0
         then publish_and_complete_dlq E cfg job lease
           (''scenario attempt measured '' @ word_str permanent
              @ '' permanent Pulse processing failure(s)'')
         else sbind (publish_result_with_retry E cfg (run_result H job started_at finished_at report) lease)
           (\<lambda>r. case r of
              Inl _ \<Rightarrow> sreturn Retry_Later
            | Inr _ \<Rightarrow> complete_disposition E cfg lease ResultPublished Result_Published))"

definition execute_and_publish ::
  "('step, 'h) node_env \<Rightarrow> 'h hdr \<Rightarrow> NodeRuntimeConfig \<Rightarrow> ScenarioJob \<Rightarrow> 'step ScenarioExecutionPlan option
     \<Rightarrow> ExecutionLease \<Rightarrow> JobDisposition node_action" where
  "execute_and_publish E H cfg job plan lease = (case plan of
     None \<Rightarrow> publish_and_complete_dlq E cfg job lease ''unknown scenario''
   | Some p \<Rightarrow>
       sbind (now_unix_ms E) (\<lambda>started_at.
       sbind (run_target E (plan_scenario p) (runner_config cfg job)) (\<lambda>report.
       sbind (now_unix_ms E) (\<lambda>finished_at.
         settle_report E H cfg job p lease started_at finished_at report))))"

text \<open>The settlement is raced against the renewal of its lease.  When the renewal ends first, the
  settlement is dropped at its pending call and nothing further is published.\<close>

definition execute_with_lease ::
  "('step, 'h) node_env \<Rightarrow> 'h hdr \<Rightarrow> NodeRuntimeConfig \<Rightarrow> ScenarioJob \<Rightarrow> 'step ScenarioExecutionPlan option
     \<Rightarrow> ExecutionLease \<Rightarrow> JobDisposition node_action" where
  "execute_with_lease E H cfg job plan lease h =
     (let (r, h1) = execute_and_publish E H cfg job plan lease h;
          disposition = (case r of Inl Lease_Lost \<Rightarrow> Inr Retry_Later | _ \<Rightarrow> r)
      in if disposition = Inr Retry_Later
         then sbind (store_release E lease) (\<lambda>_. sreturn Retry_Later) h1
         else (disposition, h1))"

section \<open>Processing a record\<close>

definition dead_letter ::
  "('step, 'h) node_env \<Rightarrow> NodeRuntimeConfig \<Rightarrow> ScenarioJob \<Rightarrow> string \<Rightarrow> JobDisposition node_action" where
  "dead_letter E cfg job reason =
     sbind (now_unix_ms E) (\<lambda>now.
     sbind (publish_failed_with_retry E cfg (failed_job now job reason)) (\<lambda>r.
       sreturn (case r of Inl _ \<Rightarrow> Retry_Later | Inr _ \<Rightarrow> Dead_Letter_Published)))"

definition claim_and_execute ::
  "('step, 'h) node_env \<Rightarrow> 'h hdr \<Rightarrow> NodeRuntimeConfig \<Rightarrow> (string \<rightharpoonup> 'step ScenarioExecutionPlan)
     \<Rightarrow> ScenarioJob \<Rightarrow> JobDisposition node_action" where
  "claim_and_execute E H cfg plans job =
     sbind (instant_now E) (\<lambda>claim_started.
     sbind (store_claim E \<lparr>claim_execution_key = job_execution_key job, claim_attempt = job_attempt job\<rparr>)
       (\<lambda>reply. case reply of
          Inr (AlreadyCompleted _) \<Rightarrow> sreturn Duplicate_Completed
        | Inr (Busy retry_after) \<Rightarrow> sreturn (Execution_Lease_Busy retry_after)
        | Inl _ \<Rightarrow> sreturn Retry_Later
        | Inr (Acquired lease) \<Rightarrow> sbind (instant_now E) (\<lambda>now.
            if conservative_lease_deadline claim_started (lease_ttl lease) (execution_renew_interval cfg) \<le> now
            then sreturn Retry_Later
            else execute_with_lease E H cfg job (plans (job_scenario_id job)) lease)))"

definition process_once ::
  "('step, 'h) node_env \<Rightarrow> 'h hdr \<Rightarrow> (f64 \<Rightarrow> string) \<Rightarrow> (duration \<Rightarrow> string) \<Rightarrow> ('step \<Rightarrow> string)
     \<Rightarrow> NodeRuntimeConfig \<Rightarrow> (string \<rightharpoonup> 'step ScenarioExecutionPlan) \<Rightarrow> source_record
     \<Rightarrow> JobDisposition node_action" where
  "process_once E H show_f64 show_duration material cfg plans src = (case src_job src of
     Inl contract_error \<Rightarrow>
       sbind (publish_poison_with_retry E cfg (src_poison_record src (contract_error_display contract_error)))
         (\<lambda>r. sreturn (case r of Inl _ \<Rightarrow> Retry_Later | Inr _ \<Rightarrow> Dead_Letter_Published))
   | Inr job \<Rightarrow> (case validate_limits show_f64 show_duration job (cfg_max_job_duration cfg)
         (cfg_max_scenarios_per_sec cfg) (cfg_max_concurrency cfg) of
       Inl contract_error \<Rightarrow>
         dead_letter E cfg job (''invalid job contract: '' @ contract_error_display contract_error)
     | Inr _ \<Rightarrow> (case deterministic_job_plan_error show_f64 material job plans (worker_max_retries cfg)
           (cfg_startup_burst cfg) of
         Some reason \<Rightarrow> dead_letter E cfg job reason
       | None \<Rightarrow> sbind (now_unix_ms E) (\<lambda>now.
           let delay = deferred_job_delay job now
           in if delay > worker_retry_max_delay cfg
              then dead_letter E cfg job
                (''invalid retry deferral: remaining not-before delay '' @ nat_str (as_millis delay)
                   @ '' ms exceeds configured maximum '' @ nat_str (as_millis (worker_retry_max_delay cfg))
                   @ '' ms'')
              else if startup_burst (load job) = 0
                \<and> f64_less (f64_mul (scenarios_per_sec (load job)) (as_secs_f64 (load_duration (load job))))
                    (Finite 1)
              then dead_letter E cfg job
                ''invalid load plan: no paced scenario can start inside this window without an explicit startup burst''
              else claim_and_execute E H cfg plans job))))"

text \<open>The wait for the not-before time of a retried job; \<open>False\<close> when the shutdown ends it.\<close>

definition await_not_before ::
  "('step, 'h) node_env \<Rightarrow> NodeRuntimeConfig \<Rightarrow> source_record \<Rightarrow> bool node_action" where
  "await_not_before E cfg src = (case src_job src of
     Inl _ \<Rightarrow> sreturn True
   | Inr job \<Rightarrow> sbind (now_unix_ms E) (\<lambda>now.
       let delay = deferred_job_delay job now
       in if delay \<noteq> 0 \<and> delay \<le> worker_retry_max_delay cfg
          then sbind (shutdown_requested E) (\<lambda>stop.
            if stop then sreturn False
            else sbind (wait_or_shutdown E delay) (\<lambda>interrupted. sreturn (\<not> interrupted)))
          else sreturn True))"

text \<open>The processing loop.  It ends unless another owner keeps the execution lease for ever and no
  deadline stops the worker, so its value is \<open>None\<close> when it does not return.\<close>

partial_function (option) processing_loop ::
  "('step, 'h) node_env \<Rightarrow> 'h hdr \<Rightarrow> (f64 \<Rightarrow> string) \<Rightarrow> (duration \<Rightarrow> string) \<Rightarrow> ('step \<Rightarrow> string)
     \<Rightarrow> NodeRuntimeConfig \<Rightarrow> (string \<rightharpoonup> 'step ScenarioExecutionPlan) \<Rightarrow> source_record
     \<Rightarrow> history \<Rightarrow> (JobDisposition option awaited \<times> history) option" where
  "processing_loop E H show_f64 show_duration material cfg plans src h =
     (case process_once E H show_f64 show_duration material cfg plans src h of
        (Inl i, h1) \<Rightarrow> Some (Inl i, h1)
      | (Inr disposition, h1) \<Rightarrow>
          if is_terminal disposition then Some (Inr (Some disposition), h1)
          else (case disposition of
            Execution_Lease_Busy retry_after \<Rightarrow>
              (let delay = (if retry_after = 0 then worker_retry_base_delay cfg
                            else min retry_after (worker_retry_max_delay cfg))
               in if env_shutdown E h1 then Some (Inr None, h1)
                  else (case wait_or_shutdown E delay h1 of
                    (Inl i, h2) \<Rightarrow> Some (Inl i, h2)
                  | (Inr interrupted, h2) \<Rightarrow>
                      if interrupted then Some (Inr None, h2)
                      else processing_loop E H show_f64 show_duration material cfg plans src h2))
          | _ \<Rightarrow> Some (Inr None, h1)))"

definition process_until_terminal ::
  "('step, 'h) node_env \<Rightarrow> 'h hdr \<Rightarrow> (f64 \<Rightarrow> string) \<Rightarrow> (duration \<Rightarrow> string) \<Rightarrow> ('step \<Rightarrow> string)
     \<Rightarrow> NodeRuntimeConfig \<Rightarrow> (string \<rightharpoonup> 'step ScenarioExecutionPlan) \<Rightarrow> source_record
     \<Rightarrow> history \<Rightarrow> (JobDisposition option awaited \<times> history) option" where
  "process_until_terminal E H show_f64 show_duration material cfg plans src h =
     (case await_not_before E cfg src h of
        (Inl i, h1) \<Rightarrow> Some (Inl i, h1)
      | (Inr proceed, h1) \<Rightarrow>
          if proceed then processing_loop E H show_f64 show_duration material cfg plans src h1
          else Some (Inr None, h1))"

section \<open>The worker loop\<close>

text \<open>The records come from the queue of the consumer pump.  The loop stops, with the current record
  uncommitted, at a shutdown, an interrupt, a disposition that is not terminal, an exhausted commit
  budget or a failed commit.\<close>

definition commit_within_budget ::
  "('step, 'h) node_env \<Rightarrow> NodeRuntimeConfig \<Rightarrow> source_record \<Rightarrow> instant \<Rightarrow> bool node_action" where
  "commit_within_budget E cfg src processing_started =
     sbind (instant_now E) (\<lambda>now.
       if max_processing_interval cfg - (now - processing_started) = 0 then sreturn False
       else sbind (commit_source E src) (\<lambda>r.
         case r of
           Inl _ \<Rightarrow> sreturn False
         | Inr _ \<Rightarrow> sbind (shutdown_requested E) (\<lambda>stop. sreturn (\<not> stop))))"

fun worker_loop ::
  "('step, 'h) node_env \<Rightarrow> 'h hdr \<Rightarrow> (f64 \<Rightarrow> string) \<Rightarrow> (duration \<Rightarrow> string) \<Rightarrow> ('step \<Rightarrow> string)
     \<Rightarrow> NodeRuntimeConfig \<Rightarrow> (string \<rightharpoonup> 'step ScenarioExecutionPlan) \<Rightarrow> source_record list
     \<Rightarrow> history \<Rightarrow> history option" where
  "worker_loop E H show_f64 show_duration material cfg plans [] h = Some h"
| "worker_loop E H show_f64 show_duration material cfg plans (src # queue) h =
     (if env_shutdown E h then Some h
      else case instant_now E h of
        (Inl _, h0) \<Rightarrow> Some h0
      | (Inr processing_started, h0) \<Rightarrow>
          (case process_until_terminal E H show_f64 show_duration material cfg plans src h0 of
             None \<Rightarrow> None
           | Some (Inl _, h1) \<Rightarrow> Some h1
           | Some (Inr None, h1) \<Rightarrow> Some h1
           | Some (Inr (Some disposition), h1) \<Rightarrow>
               (case commit_within_budget E cfg src processing_started h1 of
                  (Inr True, h2) \<Rightarrow> worker_loop E H show_f64 show_duration material cfg plans queue h2
                | (_, h2) \<Rightarrow> Some h2)))"

end
