(* ===== verification/Worker_Discipline.thy ===== *)
theory Worker_Discipline
  imports Worker_Settlement
begin

text \<open>
  What the worker guarantees in every environment.  \<open>worker_ok\<close> states, for each kind of call, what
  must precede it; the triples show that every operation of the worker only makes allowed calls,
  and the properties at the end read off the histories of the worker loop.
\<close>

section \<open>The discipline\<close>

text \<open>The lease comes from a claim of this execution attempt.\<close>

definition owned :: "string \<Rightarrow> u32 \<Rightarrow> ExecutionLease \<Rightarrow> history \<Rightarrow> bool" where
  "owned key attempt lease h \<longleftrightarrow>
     Claimed \<lparr>claim_execution_key = key, claim_attempt = attempt\<rparr> (Inr (Inr (Acquired lease))) \<in> set h"

text \<open>The last calls claimed this execution attempt and left local budget.\<close>

definition freshly_claimed :: "NodeRuntimeConfig \<Rightarrow> string \<Rightarrow> u32 \<Rightarrow> ExecutionLease \<Rightarrow> history \<Rightarrow> bool" where
  "freshly_claimed cfg key attempt lease h \<longleftrightarrow> (\<exists>g claim_started now.
     h = g @ [Instant_Now claim_started,
       Claimed \<lparr>claim_execution_key = key, claim_attempt = attempt\<rparr> (Inr (Inr (Acquired lease))),
       Instant_Now now] \<and>
     now < conservative_lease_deadline claim_started (lease_ttl lease) (execution_renew_interval cfg))"

text \<open>The last calls checked the owner of the lease and left local budget.\<close>

definition verified :: "NodeRuntimeConfig \<Rightarrow> ExecutionLease \<Rightarrow> history \<Rightarrow> bool" where
  "verified cfg lease h \<longleftrightarrow> (\<exists>g request_started renewed now.
     h = g @ [Instant_Now request_started, Renewed lease (Inr (Inr renewed)), Instant_Now now] \<and>
     lease_response_has_safe_budget request_started (lease_ttl renewed) (execution_renew_interval cfg) now)"

definition result_published :: "string \<Rightarrow> u32 \<Rightarrow> history \<Rightarrow> bool" where
  "result_published key attempt h \<longleftrightarrow> (\<exists>r. Run_Result_Published r (Inr (Inr ())) \<in> set h \<and>
     res_execution_key r = key \<and> res_attempt r = attempt \<and>
     res_event_id r = build_terminal_event_id key attempt ''result'')"

definition retry_published :: "string \<Rightarrow> u32 \<Rightarrow> history \<Rightarrow> bool" where
  "retry_published key attempt h \<longleftrightarrow> (\<exists>k j. Job_Published k j (Inr (Inr ())) \<in> set h \<and>
     job_execution_key j = key \<and> unat (job_attempt j) = unat attempt + 1 \<and>
     job_attempt j \<le> job_max_retries j)"

definition dead_letter_published :: "string \<Rightarrow> u32 \<Rightarrow> history \<Rightarrow> bool" where
  "dead_letter_published key attempt h \<longleftrightarrow> (\<exists>f. Failed_Published key f (Inr (Inr ())) \<in> set h \<and>
     fj_execution_key f = key \<and> fj_attempt f = attempt \<and>
     fj_event_id f = build_terminal_event_id key attempt ''dlq'')"

definition terminal_published :: "TerminalOutcome \<Rightarrow> string \<Rightarrow> u32 \<Rightarrow> history \<Rightarrow> bool" where
  "terminal_published t key attempt h = (case t of
     ResultPublished \<Rightarrow> result_published key attempt h
   | RetryPublished \<Rightarrow> retry_published key attempt h
   | DeadLetterPublished \<Rightarrow> dead_letter_published key attempt h)"

definition recorded :: "TerminalOutcome \<Rightarrow> string \<Rightarrow> u32 \<Rightarrow> history \<Rightarrow> bool" where
  "recorded t key attempt h \<longleftrightarrow>
     (\<exists>lease c. owned key attempt lease h \<and> Completed lease t (Inr (Inr c)) \<in> set h)"

text \<open>The evidence for a disposition of a job.\<close>

definition disposed :: "ScenarioJob \<Rightarrow> JobDisposition \<Rightarrow> history \<Rightarrow> bool" where
  "disposed job d h =
     (let key = job_execution_key job; attempt = job_attempt job in case d of
        Result_Published \<Rightarrow> result_published key attempt h \<and> recorded ResultPublished key attempt h
      | Retry_Published \<Rightarrow> retry_published key attempt h \<and> recorded RetryPublished key attempt h
      | Dead_Letter_Published \<Rightarrow> dead_letter_published key attempt h
      | Duplicate_Completed \<Rightarrow> \<exists>c. Claimed \<lparr>claim_execution_key = key, claim_attempt = attempt\<rparr>
          (Inr (Inr (AlreadyCompleted c))) \<in> set h
      | Execution_Lease_Busy _ \<Rightarrow> False
      | Retry_Later \<Rightarrow> True)"

lemma disposed_simps:
  "disposed job Retry_Later h"
  "disposed job Duplicate_Completed h \<longleftrightarrow> (\<exists>c. Claimed \<lparr>claim_execution_key = job_execution_key job,
     claim_attempt = job_attempt job\<rparr> (Inr (Inr (AlreadyCompleted c))) \<in> set h)"
  by (simp_all add: disposed_def Let_def)

definition settled :: "source_record \<Rightarrow> JobDisposition \<Rightarrow> history \<Rightarrow> bool" where
  "settled src d h = (case src_job src of
     Inl e \<Rightarrow> is_terminal d \<longrightarrow>
       Poison_Published (src_poison_record src (contract_error_display e)) (Inr (Inr ())) \<in> set h
   | Inr job \<Rightarrow> (\<exists>t. d = Execution_Lease_Busy t) \<or> disposed job d h)"

text \<open>The calls a worker may make after a history.  \<open>rej\<close> says which dead letters are those of jobs that are
  refused before they are claimed; every other publication needs an owner check of the lease that
  was claimed for its execution attempt.\<close>

definition worker_ok ::
  "NodeRuntimeConfig \<Rightarrow> (history \<Rightarrow> FailedScenarioJob \<Rightarrow> bool) \<Rightarrow> history \<Rightarrow> event \<Rightarrow> bool" where
  "worker_ok cfg rej h e = (case e of
     Run_Result_Published r _ \<Rightarrow>
       \<exists>lease rc. owned (res_execution_key r) (res_attempt r) lease h \<and> verified cfg lease h \<and>
         Target_Run rc (Inr ()) \<in> set h
   | Job_Published k j _ \<Rightarrow>
       \<exists>lease attempt. owned (job_execution_key j) attempt lease h \<and> verified cfg lease h \<and>
         unat (job_attempt j) = unat attempt + 1 \<and> job_attempt j \<le> job_max_retries j
   | Failed_Published k f _ \<Rightarrow> k = fj_execution_key f \<and>
       ((\<exists>lease. owned (fj_execution_key f) (fj_attempt f) lease h \<and> verified cfg lease h) \<or> rej h f)
   | Completed lease t _ \<Rightarrow>
       \<exists>key attempt. owned key attempt lease h \<and> terminal_published t key attempt h
   | Target_Run _ _ \<Rightarrow>
       \<exists>key attempt lease g t. h = g @ [Now t] \<and> freshly_claimed cfg key attempt lease g
   | Committed src _ \<Rightarrow> \<exists>d. is_terminal d \<and> settled src d h
   | _ \<Rightarrow> True)"

lemma stable_published [simp, intro]:
  "stable (owned key attempt lease)"
  "stable (result_published key attempt)" "stable (retry_published key attempt)"
  "stable (dead_letter_published key attempt)" "stable (terminal_published t key attempt)"
  "stable (recorded t key attempt)"
  by (cases t; auto simp: stable_def owned_def result_published_def retry_published_def
      dead_letter_published_def terminal_published_def recorded_def)+

lemma worker_ok_simps [simp]:
  "worker_ok cfg rej h (Now t)" "worker_ok cfg rej h (Instant_Now i)" "worker_ok cfg rej h (Slept d u)"
  "worker_ok cfg rej h (Waited d w)" "worker_ok cfg rej h (Claimed c cr)" "worker_ok cfg rej h (Renewed l rr)"
  "worker_ok cfg rej h (Release l lr)"
  "worker_ok cfg rej h (Poison_Published p pr)"
  by (simp_all add: worker_ok_def)

section \<open>Bounded loops and publications\<close>

definition on_ok :: "('a \<Rightarrow> history \<Rightarrow> bool) \<Rightarrow> ('e, 'a) result \<Rightarrow> history \<Rightarrow> bool" where
  "on_ok Q r h = (case r of Inl _ \<Rightarrow> True | Inr x \<Rightarrow> Q x h)"

lemma on_ok_simps [simp]: "on_ok Q (Inl e) = (\<lambda>_. True)" "on_ok Q (Inr x) = Q x"
  by (simp_all add: on_ok_def fun_eq_iff)

definition on_accept :: "('a \<Rightarrow> history \<Rightarrow> bool) \<Rightarrow> ('e, 'a) attempt_reply \<Rightarrow> history \<Rightarrow> bool" where
  "on_accept Q r h = (case r of Accepted x \<Rightarrow> Q x h | _ \<Rightarrow> True)"

lemma on_accept_simps [simp]:
  "on_accept Q (Fatal e) h" "on_accept Q (Refused e) h" "on_accept Q (Accepted x) h = Q x h"
  by (simp_all add: on_accept_def)

lemma on_accept_reply [simp]: "on_accept Q (reply_of r) h = on_ok Q r h"
  by (cases r) (simp_all add: reply_of_def)

lemma triple_keep:
  "triple ok P m Q \<Longrightarrow> stable P \<Longrightarrow> triple ok P m (\<lambda>x h. Q x h \<and> P h)"
  using triple_frame [of ok P m Q P] by simp

lemma triple_retry_loop:
  assumes "triple (worker_ok cfg rej) P body (on_accept Q)" "stable P"
  shows "triple (worker_ok cfg rej) P (retry_loop E cfg entropy body k n) (on_ok Q)"
proof (induction n arbitrary: k)
  case 0
  show ?case
    by (subst retry_loop.simps, rule triple_bind [OF assms(1)])
       (auto intro!: triple_return split: attempt_reply.split)
next
  case (Suc n)
  have sleep: "triple (worker_ok cfg rej) P (node_sleep E d) (\<lambda>_. P)" for d
    unfolding node_sleep_def using assms(2)
    by (intro triple_rules) (auto simp: stable_def)
  show ?case
    by (subst retry_loop.simps, rule triple_bind [OF triple_keep [OF assms]])
       (auto intro!: triple_return triple_bind [OF sleep] Suc triple_weaken [OF triple_bind [OF sleep Suc]]
          split: attempt_reply.split)
qed

lemma triple_with_retry:
  "triple (worker_ok cfg rej) P body (on_accept Q) \<Longrightarrow> stable P
     \<Longrightarrow> triple (worker_ok cfg rej) P (with_retry E cfg entropy body) (on_ok Q)"
  unfolding with_retry_def by (rule triple_retry_loop)

lemma verify_triple:
  assumes "stable P"
  shows "triple (worker_ok cfg rej) P (verify_publication_lease E cfg lease)
    (on_ok (\<lambda>_ h. P h \<and> verified cfg lease h))"
proof -
  let ?A = "\<lambda>t h. P h \<and> (\<exists>g. h = g @ [Instant_Now t])"
  let ?B = "\<lambda>t r h. P h \<and> (\<exists>g. h = g @ [Instant_Now t, Renewed lease (Inr r)])"
  show ?thesis
    unfolding verify_publication_lease_def instant_now_def store_renew_def
  proof (rule triple_bind [where R = ?A], goal_cases)
    case 1 show ?case using assms by (intro triple_rules) (auto simp: stable_def)
  next
    case (2 t)
    show ?case
    proof (rule triple_bind [where R = "?B t"], goal_cases)
      case 1 show ?case using assms by (intro triple_rules) (auto simp: stable_def)
    next
      case (2 r)
      show ?case
      proof (cases r)
        case (Inl e) then show ?thesis by (auto intro!: triple_return)
      next
        case (Inr renewed)
        have "triple (worker_ok cfg rej) (?B t r) (read_clock (env_instant E) Instant_Now :: instant node_action)
          (\<lambda>now h. P h \<and> (\<exists>g. h = g @ [Instant_Now t, Renewed lease (Inr (Inr renewed)), Instant_Now now]))"
          using assms Inr by (intro triple_rules) (auto simp: stable_def)
        then show ?thesis
          unfolding Inr by (simp, elim triple_bind) (auto intro!: triple_rules simp: verified_def)
      qed
    qed
  qed
qed
lemma leased_attempt_triple:
  assumes "stable P"
    and "triple (worker_ok cfg rej) (\<lambda>h. P h \<and> (\<forall>l. lease = Some l \<longrightarrow> verified cfg l h)) publication (on_ok Q)"
  shows "triple (worker_ok cfg rej) P (leased_attempt E cfg lease publication) (on_accept Q)"
proof -
  let ?R = "on_ok (\<lambda>_ h. P h \<and> (\<forall>l. lease = Some l \<longrightarrow> verified cfg l h))"
  have check: "triple (worker_ok cfg rej) P
      (case lease of None \<Rightarrow> sreturn (Inr ()) | Some l \<Rightarrow> verify_publication_lease E cfg l) ?R"
    using verify_triple [OF assms(1)] by (auto intro!: triple_return split: option.split)
  have publish: "triple (worker_ok cfg rej) (?R (Inr u)) (sbind publication (\<lambda>r. sreturn (reply_of r)))
      (on_accept Q)" for u
    using assms(2) by (auto intro!: triple_bind triple_return)
  show ?thesis
    unfolding leased_attempt_def
    by (rule triple_bind [OF check]) (use publish in \<open>auto intro!: triple_return split: sum.split\<close>)
qed

text \<open>A publication loop makes allowed calls when each publication after an owner check is allowed,
  and its success means the broker acknowledged.\<close>

lemma publication_triple:
  assumes "stable P"
    and "\<And>h r. P h \<Longrightarrow> (\<And>l. lease = Some l \<Longrightarrow> verified cfg l h) \<Longrightarrow> worker_ok cfg rej h (ev r)"
  shows "triple (worker_ok cfg rej) P (with_retry E cfg entropy (leased_attempt E cfg lease (perform ask ev)))
    (on_ok (\<lambda>_ h. P h \<and> ev (Inr (Inr ())) \<in> set h))"
proof (rule triple_with_retry [OF leased_attempt_triple [OF assms(1)] assms(1)])
  show "triple (worker_ok cfg rej) (\<lambda>h. P h \<and> (\<forall>l. lease = Some l \<longrightarrow> verified cfg l h)) (perform ask ev)
    (on_ok (\<lambda>_ h. P h \<and> ev (Inr (Inr ())) \<in> set h))"
    using assms by (intro triple_rules) (auto simp: on_ok_def stable_def split: sum.split)
qed

lemma complete_triple:
  assumes "stable P"
    and "\<And>h. P h \<Longrightarrow> owned key attempt lease h \<and> terminal_published t key attempt h"
  shows "triple (worker_ok cfg rej) P (complete_until_acknowledged E cfg lease t)
    (on_ok (\<lambda>_ h. P h \<and> recorded t key attempt h))"
proof -
  have "triple (worker_ok cfg rej) P (store_complete E lease t)
      (on_ok (\<lambda>_ h. P h \<and> recorded t key attempt h))"
    unfolding store_complete_def
  proof (intro triple_rules conjI allI impI)
    fix h r assume "P h" and r: "r = env_complete E h lease t"
    with assms(2) show "worker_ok cfg rej h (Completed lease t r)" by (auto simp: worker_ok_def)
    fix x assume "r = Inr x"
    with \<open>P h\<close> assms show "on_ok (\<lambda>_ h. P h \<and> recorded t key attempt h) x (h @ [Completed lease t r])"
      by (cases x) (auto simp: stable_def recorded_def owned_def)
  qed
  then have "triple (worker_ok cfg rej) P (complete_attempt E lease t)
      (on_accept (\<lambda>_ h. P h \<and> recorded t key attempt h))"
    unfolding complete_attempt_def
    by (rule triple_bind) (auto intro!: triple_return split: sum.split coordination_error.split)
  from triple_with_retry [OF this assms(1)] show ?thesis
    unfolding complete_until_acknowledged_def .
qed

lemma complete_disposition_triple:
  assumes "stable P"
    and "\<And>h. P h \<Longrightarrow> owned key attempt lease h \<and> terminal_published t key attempt h"
  shows "triple (worker_ok cfg rej) P (complete_disposition E cfg lease t d)
    (\<lambda>d' h. d' = Retry_Later \<or> d' = d \<and> P h \<and> recorded t key attempt h)"
  unfolding complete_disposition_def
  by (rule triple_bind [OF complete_triple [OF assms]])
     (auto intro!: triple_return split: sum.split)

section \<open>Settlement\<close>

lemma verified_failed [simp]: "fj_execution_key (failed_job now job reason) = job_execution_key job"
  by (simp add: failed_job_def)

abbreviation holding where
  "holding job lease h \<equiv> owned (job_execution_key job) (job_attempt job) lease h"

lemma now_triple: "stable P \<Longrightarrow> triple (worker_ok cfg rej) P (now_unix_ms E) (\<lambda>_. P)"
  unfolding now_unix_ms_def by (intro triple_rules) (auto simp: stable_def)

lemma failed_job_attempt [simp]: "fj_attempt (failed_job now job reason) = job_attempt job"
  by (simp add: failed_job_def)

lemma failed_triple:
  assumes "stable P" "\<And>h l. P h \<Longrightarrow> lease = Some l \<Longrightarrow> holding job l h"
    and "\<And>h. P h \<Longrightarrow> lease = None \<Longrightarrow> rej h (failed_job now job reason)"
  shows "triple (worker_ok cfg rej) P (publish_failed_with_optional_lease E cfg (failed_job now job reason) lease)
    (on_ok (\<lambda>_ h. P h \<and> dead_letter_published (job_execution_key job) (job_attempt job) h))"
  unfolding publish_failed_with_optional_lease_def publish_failed_job_def
proof (rule triple_weaken [OF publication_triple [OF assms(1)]])
  fix h r assume "P h" "\<And>l. lease = Some l \<Longrightarrow> verified cfg l h"
  with assms(2,3) show "worker_ok cfg rej h
      (Failed_Published (fj_execution_key (failed_job now job reason)) (failed_job now job reason) r)"
    by (cases lease) (auto simp: worker_ok_def)
qed (auto simp: on_ok_def dead_letter_published_def failed_job_def split: sum.splits)

lemma publish_and_complete_dlq_triple:
  assumes "stable P" "\<And>h. P h \<Longrightarrow> holding job lease h"
  shows "triple (worker_ok cfg rej) P (publish_and_complete_dlq E cfg job lease reason) (disposed job)"
proof -
  let ?R = "\<lambda>h. P h \<and> dead_letter_published (job_execution_key job) (job_attempt job) h"
  have "triple (worker_ok cfg rej) ?R (complete_disposition E cfg lease DeadLetterPublished Dead_Letter_Published)
      (disposed job)"
    by (rule triple_weaken [OF complete_disposition_triple [where P = ?R]])
       (use assms in \<open>auto simp: terminal_published_def disposed_def Let_def\<close>)
  then show ?thesis
    unfolding publish_and_complete_dlq_def publish_leased_failed_with_retry_def
    by (intro triple_bind [OF now_triple [OF assms(1)]] triple_bind [OF failed_triple [OF assms(1)]])
       (use assms(2) in auto, auto intro!: triple_return simp: disposed_def Let_def split: sum.split)
qed

lemma next_attempt_simps [simp]:
  "job_execution_key (next_attempt now d job) = job_execution_key job"
  "job_max_retries (next_attempt now d job) = job_max_retries job"
  "job_attempt job < job_max_retries job \<Longrightarrow> unat (job_attempt (next_attempt now d job)) = unat (job_attempt job) + 1"
  "job_attempt job < job_max_retries job \<Longrightarrow> job_attempt (next_attempt now d job) \<le> job_max_retries job"
  using unat_bound [of "job_max_retries job"]
  by (auto simp: next_attempt_def unat_saturating_add word_less_nat_alt word_le_nat_alt)

lemma settle_infrastructure_triple:
  assumes "stable P" "\<And>h. P h \<Longrightarrow> holding job lease h"
  shows "triple (worker_ok cfg rej) P (settle_infrastructure_failure E cfg job plan lease reason) (disposed job)"
proof (cases "job_attempt job \<ge> job_max_retries job")
  case True
  with publish_and_complete_dlq_triple [OF assms] show ?thesis
    by (simp add: settle_infrastructure_failure_def)
next
  case False
  then have lt: "job_attempt job < job_max_retries job" by simp
  let ?R = "\<lambda>h. P h \<and> retry_published (job_execution_key job) (job_attempt job) h"
  have publish: "triple (worker_ok cfg rej) P (publish_retry_with_retry E cfg k (next_attempt now d job) lease)
      (on_ok (\<lambda>_. ?R))" for k now d
    unfolding publish_retry_with_retry_def publish_job_def
  proof (rule triple_weaken [OF publication_triple [OF assms(1)]])
    fix h r assume "P h" "\<And>l. Some lease = Some l \<Longrightarrow> verified cfg l h"
    with assms(2) lt show "worker_ok cfg rej h (Job_Published k (next_attempt now d job) r)"
      by (fastforce simp: worker_ok_def)
  qed (use lt in \<open>force simp: on_ok_def retry_published_def split: sum.splits\<close>)+
  have complete: "triple (worker_ok cfg rej) ?R (complete_disposition E cfg lease RetryPublished Retry_Published)
      (disposed job)"
    by (rule triple_weaken [OF complete_disposition_triple [where P = ?R]])
       (use assms in \<open>auto simp: terminal_published_def disposed_def Let_def\<close>)
  show ?thesis
    using False unfolding settle_infrastructure_failure_def Let_def
    by simp (intro triple_bind [OF now_triple [OF assms(1)]] triple_bind [OF publish],
      use complete in \<open>auto intro!: triple_return simp: disposed_def Let_def split: sum.split\<close>)
qed

lemma run_result_simps [simp]:
  "res_execution_key (run_result H job s f report) = job_execution_key job"
  "res_attempt (run_result H job s f report) = job_attempt job"
  "res_event_id (run_result H job s f report)
     = build_terminal_event_id (job_execution_key job) (job_attempt job) ''result''"
  by (simp_all add: run_result_def Let_def)

lemma settle_report_triple:
  assumes "stable P" "\<And>h. P h \<Longrightarrow> holding job lease h \<and> (\<exists>rc. Target_Run rc (Inr ()) \<in> set h)"
  shows "triple (worker_ok cfg rej) P (settle_report E H cfg job plan lease s f report) (disposed job)"
proof -
  let ?R = "\<lambda>h. P h \<and> result_published (job_execution_key job) (job_attempt job) h"
  have publish: "triple (worker_ok cfg rej) P
      (publish_result_with_retry E cfg (run_result H job s f report) lease) (on_ok (\<lambda>_. ?R))"
    unfolding publish_result_with_retry_def publish_result_def
  proof (rule triple_weaken [OF publication_triple [OF assms(1)]])
    fix h r assume "P h" "\<And>l. Some lease = Some l \<Longrightarrow> verified cfg l h"
    with assms(2) show "worker_ok cfg rej h (Run_Result_Published (run_result H job s f report) r)"
      by (fastforce simp: worker_ok_def)
  qed (force simp: on_ok_def result_published_def split: sum.splits)+
  have complete: "triple (worker_ok cfg rej) ?R (complete_disposition E cfg lease ResultPublished Result_Published)
      (disposed job)"
    by (rule triple_weaken [OF complete_disposition_triple [where P = ?R]])
       (use assms in \<open>auto simp: terminal_published_def disposed_def Let_def\<close>)
  have held: "\<And>h. P h \<Longrightarrow> holding job lease h" using assms(2) by blast
  show ?thesis
    unfolding settle_report_def Let_def
    by (intro triple_if triple_return settle_infrastructure_triple [OF assms(1) held]
          publish_and_complete_dlq_triple [OF assms(1) held] triple_bind [OF publish])
       (use complete in \<open>auto intro!: triple_return simp: disposed_def split: sum.split\<close>)
qed

abbreviation fresh where
  "fresh cfg job lease h \<equiv> freshly_claimed cfg (job_execution_key job) (job_attempt job) lease h"

lemma fresh_owned: "freshly_claimed cfg key attempt lease h \<Longrightarrow> owned key attempt lease h"
  by (auto simp: freshly_claimed_def owned_def)

lemma execute_and_publish_triple:
  "triple (worker_ok cfg rej) (fresh cfg job lease) (execute_and_publish E H cfg job plan lease) (disposed job)"
proof (cases plan)
  case None
  show ?thesis
    unfolding execute_and_publish_def None option.case
    by (rule triple_weaken [OF publish_and_complete_dlq_triple [where P = "holding job lease"]])
       (auto intro: fresh_owned)
next
  case (Some p)
  let ?N = "\<lambda>h. holding job lease h \<and> (\<exists>g t. h = g @ [Now t] \<and> fresh cfg job lease g)"
  let ?R = "\<lambda>h. holding job lease h \<and> (\<exists>rc. Target_Run rc (Inr ()) \<in> set h)"
  have R: "stable ?R" by (intro stable_intros stable_published)
  have now: "triple (worker_ok cfg rej) (fresh cfg job lease) (now_unix_ms E) (\<lambda>_. ?N)"
    unfolding now_unix_ms_def by (intro triple_rules) (auto dest: fresh_owned simp: owned_def)
  have run: "triple (worker_ok cfg rej) ?N (run_target E sc rc) (\<lambda>_. ?R)" for sc rc
    unfolding run_target_def
  proof (intro triple_rules conjI allI impI)
    fix h r assume h: "?N h"
    then show "worker_ok cfg rej h (Target_Run rc (case r of Inl i \<Rightarrow> Inl i | Inr _ \<Rightarrow> Inr ()))"
      by (simp add: worker_ok_def) blast
    fix x assume "r = Inr x"
    with h show "holding job lease (h @ [Target_Run rc (case r of Inl i \<Rightarrow> Inl i | Inr _ \<Rightarrow> Inr ())])"
      "\<exists>rc'. Target_Run rc' (Inr ()) \<in> set (h @ [Target_Run rc (case r of Inl i \<Rightarrow> Inl i | Inr _ \<Rightarrow> Inr ())])"
      by (auto simp: owned_def)
  qed
  show ?thesis
    unfolding execute_and_publish_def Some option.case
    by (intro triple_bind [OF now] triple_bind [OF run] triple_bind [OF now_triple [OF R]]
        settle_report_triple [OF R]) auto
qed

lemma release_triple: "stable P \<Longrightarrow> triple (worker_ok cfg rej) P (store_release E lease) (\<lambda>_. P)"
  unfolding store_release_def by (intro triple_rules) (auto simp: stable_def)

lemma execute_with_lease_triple:
  "triple (worker_ok cfg rej) (fresh cfg job lease) (execute_with_lease E H cfg job plan lease) (disposed job)"
  unfolding triple_def
proof (intro allI impI)
  fix h assume fresh: "fresh cfg job lease h"
  obtain r h1 where m: "execute_and_publish E H cfg job plan lease h = (r, h1)" by force
  from tripleD [OF execute_and_publish_triple fresh m] obtain es where
    es: "h1 = h @ es" "traced (worker_ok cfg rej) h es" and d: "\<And>x. r = Inr x \<Longrightarrow> disposed job x h1" by blast
  let ?d = "case r of Inl Lease_Lost \<Rightarrow> Inr Retry_Later | _ \<Rightarrow> r"
  have release: "triple (worker_ok cfg rej) (\<lambda>_. True) (sbind (store_release E lease) (\<lambda>_. sreturn Retry_Later))
      (disposed job)"
    by (rule triple_bind [OF release_triple]) (auto intro!: triple_return simp: disposed_def Let_def)
  obtain r2 h2 where k: "sbind (store_release E lease) (\<lambda>_. sreturn Retry_Later) h1 = (r2, h2)" by force
  from tripleD [OF release TrueI k] obtain es2 where
    es2: "h2 = h1 @ es2" "traced (worker_ok cfg rej) h1 es2" and d2: "\<And>x. r2 = Inr x \<Longrightarrow> disposed job x h2" by blast
  show "(\<exists>es. snd (execute_with_lease E H cfg job plan lease h) = h @ es \<and> traced (worker_ok cfg rej) h es) \<and>
      (\<forall>x. fst (execute_with_lease E H cfg job plan lease h) = Inr x \<longrightarrow>
        disposed job x (snd (execute_with_lease E H cfg job plan lease h)))"
    using m k es es2 d d2
    by (auto simp: execute_with_lease_def Let_def split: sum.split interrupt.split)
qed

section \<open>Processing\<close>

abbreviation always :: "history \<Rightarrow> bool" where
  "always h \<equiv> True"

lemma now_read_triple: "stable P \<Longrightarrow> triple (worker_ok cfg rej) P (now_unix_ms E) (\<lambda>t h. P h \<and> Now t \<in> set h)"
  unfolding now_unix_ms_def by (intro triple_rules) (auto simp: stable_def)

lemma dead_letter_triple:
  assumes "stable P" "\<And>h t. P h \<Longrightarrow> Now t \<in> set h \<Longrightarrow> rej h (failed_job t job reason)"
  shows "triple (worker_ok cfg rej) P (dead_letter E cfg job reason) (disposed job)"
proof -
  have failed: "triple (worker_ok cfg rej) (\<lambda>h. P h \<and> Now t \<in> set h)
      (publish_failed_with_optional_lease E cfg (failed_job t job reason) None)
      (on_ok (\<lambda>_ h. (P h \<and> Now t \<in> set h) \<and> dead_letter_published (job_execution_key job) (job_attempt job) h))" for t
    by (rule failed_triple) (use assms in auto)
  show ?thesis
    unfolding dead_letter_def publish_failed_with_retry_def
    by (intro triple_bind [OF now_read_triple [OF assms(1)]] triple_bind [OF failed])
       (auto intro!: triple_return simp: disposed_def Let_def split: sum.split)
qed

lemma instant_triple: "stable P \<Longrightarrow> triple (worker_ok cfg rej) P (instant_now E) (\<lambda>_. P)"
  unfolding instant_now_def by (intro triple_rules) (auto simp: stable_def)

lemma claim_triple:
  "triple (worker_ok cfg rej) always (store_claim E c) (\<lambda>r h. Claimed c (Inr r) \<in> set h)"
  unfolding store_claim_def by (intro triple_rules) auto

lemma claim_and_execute_triple:
  "triple (worker_ok cfg rej) always (claim_and_execute E H cfg plans job)
     (\<lambda>d h. (\<exists>t. d = Execution_Lease_Busy t) \<or> disposed job d h)"
proof -
  let ?c = "\<lparr>claim_execution_key = job_execution_key job, claim_attempt = job_attempt job\<rparr>"
  let ?S = "\<lambda>t h. \<exists>g. h = g @ [Instant_Now t]"
  let ?C = "\<lambda>t r h. \<exists>g. h = g @ [Instant_Now t, Claimed ?c (Inr r)]"
  let ?Q = "\<lambda>d h. (\<exists>t. d = Execution_Lease_Busy t) \<or> disposed job d h"
  have start: "triple (worker_ok cfg rej) always (instant_now E) ?S"
    unfolding instant_now_def by (intro triple_rules) auto
  have claim: "triple (worker_ok cfg rej) (?S t) (store_claim E ?c) (?C t)" for t
    unfolding store_claim_def by (intro triple_rules) auto
  have budget: "triple (worker_ok cfg rej) (?C t (Inr (Acquired lease))) (instant_now E)
      (\<lambda>now h. now < conservative_lease_deadline t (lease_ttl lease) (execution_renew_interval cfg)
         \<longrightarrow> fresh cfg job lease h)" for t lease
    unfolding instant_now_def by (intro triple_rules) (auto simp: freshly_claimed_def)
  have run: "triple (worker_ok cfg rej) (\<lambda>h. b \<longrightarrow> fresh cfg job lease h)
      (if \<not> b then sreturn Retry_Later else execute_with_lease E H cfg job plan lease) ?Q" for b lease plan
    by (rule triple_if) (auto intro!: triple_return triple_weaken [OF execute_with_lease_triple]
        simp: disposed_def Let_def)
  have acquired: "triple (worker_ok cfg rej) (?C t (Inr (Acquired lease)))
      (sbind (instant_now E) (\<lambda>now. if conservative_lease_deadline t (lease_ttl lease)
           (execution_renew_interval cfg) \<le> now
         then sreturn Retry_Later else execute_with_lease E H cfg job plan lease)) ?Q" for t lease plan
    by (intro triple_bind [OF budget]) (use run in \<open>simp only: linorder_not_less [symmetric]\<close>)
  show ?thesis
    unfolding claim_and_execute_def
    by (intro triple_bind [OF start] triple_bind [OF claim])
       (auto intro!: triple_return acquired simp: disposed_simps split: sum.split ClaimOutcome.split)
qed

lemma poison_triple:
  "triple (worker_ok cfg rej) always (publish_poison_with_retry E cfg p)
     (on_ok (\<lambda>_ h. Poison_Published p (Inr (Inr ())) \<in> set h))"
  unfolding publish_poison_with_retry_def publish_poison_def
  by (rule triple_weaken [OF publication_triple [where P = always]]) (auto simp: on_ok_def split: sum.splits)

text \<open>Why \<open>process_once\<close> refuses a job before it claims it: the job breaks its contract or the limits of
  the worker, it does not match the plan of the worker, its not-before time is too far away, or
  its load plan starts nothing.\<close>

definition rejection ::
  "(f64 \<Rightarrow> string) \<Rightarrow> (duration \<Rightarrow> string) \<Rightarrow> ('step \<Rightarrow> string) \<Rightarrow> NodeRuntimeConfig
     \<Rightarrow> (string \<rightharpoonup> 'step ScenarioExecutionPlan) \<Rightarrow> ScenarioJob \<Rightarrow> u128 \<Rightarrow> string option" where
  "rejection show_f64 show_duration material cfg plans job now =
     (case validate_limits show_f64 show_duration job (cfg_max_job_duration cfg)
         (cfg_max_scenarios_per_sec cfg) (cfg_max_concurrency cfg) of
       Inl contract_error \<Rightarrow> Some (''invalid job contract: '' @ contract_error_display contract_error)
     | Inr _ \<Rightarrow> (case deterministic_job_plan_error show_f64 material job plans (worker_max_retries cfg)
           (cfg_startup_burst cfg) of
         Some reason \<Rightarrow> Some reason
       | None \<Rightarrow>
           let delay = deferred_job_delay job now
           in if delay > worker_retry_max_delay cfg
              then Some (''invalid retry deferral: remaining not-before delay '' @ nat_str (as_millis delay)
                @ '' ms exceeds configured maximum '' @ nat_str (as_millis (worker_retry_max_delay cfg)) @ '' ms'')
              else if startup_burst (load job) = 0
                \<and> f64_less (f64_mul (scenarios_per_sec (load job)) (as_secs_f64 (load_duration (load job))))
                    (Finite 1)
              then Some ''invalid load plan: no paced scenario can start inside this window without an explicit startup burst''
              else None))"

text \<open>The dead letter of a job of the queue that is refused at a time the worker has read.\<close>

definition refused_job ::
  "(f64 \<Rightarrow> string) \<Rightarrow> (duration \<Rightarrow> string) \<Rightarrow> ('step \<Rightarrow> string) \<Rightarrow> NodeRuntimeConfig
     \<Rightarrow> (string \<rightharpoonup> 'step ScenarioExecutionPlan) \<Rightarrow> source_record set \<Rightarrow> history \<Rightarrow> FailedScenarioJob \<Rightarrow> bool" where
  "refused_job show_f64 show_duration material cfg plans srcs h f \<longleftrightarrow> (\<exists>src \<in> srcs. \<exists>job now t reason.
     src_job src = Inr job \<and> Now now \<in> set h \<and> Now t \<in> set h \<and>
     rejection show_f64 show_duration material cfg plans job now = Some reason \<and> f = failed_job t job reason)"

lemma refusedI:
  "src \<in> srcs \<Longrightarrow> src_job src = Inr job \<Longrightarrow> Now now \<in> set h \<Longrightarrow> Now t \<in> set h \<Longrightarrow>
   rejection show_f64 show_duration material cfg plans job now = Some reason \<Longrightarrow>
   refused_job show_f64 show_duration material cfg plans srcs h (failed_job t job reason)"
  unfolding refused_job_def by blast

lemma process_once_triple:
  assumes "src \<in> srcs" "rej = refused_job show_f64 show_duration material cfg plans srcs"
  shows "triple (worker_ok cfg rej) always (process_once E H show_f64 show_duration material cfg plans src) (settled src)"
proof (cases "src_job src")
  case (Inl e)
  show ?thesis
    unfolding process_once_def Inl sum.case
    by (rule triple_bind [OF poison_triple])
       (auto intro!: triple_return simp: settled_def Inl is_terminal_def split: sum.split)
next
  case (Inr job)
  let ?rej = "rejection show_f64 show_duration material cfg plans job"
  let ?Q = "\<lambda>d h. (\<exists>t. d = Execution_Lease_Busy t) \<or> disposed job d h"
  have always: "triple (worker_ok cfg rej) always (dead_letter E cfg job reason) ?Q"
    if "\<And>now. ?rej now = Some reason" for reason
    by (rule triple_weaken [OF dead_letter_triple [of always]])
       (use assms(1) Inr that in \<open>auto simp: assms(2) intro: refusedI\<close>)
  have timely: "triple (worker_ok cfg rej) (\<lambda>h. True \<and> Now now \<in> set h) (dead_letter E cfg job reason) ?Q"
    if "?rej now = Some reason" for now reason
    by (rule triple_weaken [OF dead_letter_triple [of "\<lambda>h. Now now \<in> set h"]])
       (use assms(1) Inr that in \<open>auto simp: assms(2) intro: refusedI\<close>)
  have claim: "triple (worker_ok cfg rej) (\<lambda>h. True \<and> Now now \<in> set h) (claim_and_execute E H cfg plans job) ?Q" for now
    by (rule triple_weaken [OF claim_and_execute_triple]) auto
  have "triple (worker_ok cfg rej) always (process_once E H show_f64 show_duration material cfg plans src) ?Q"
    unfolding process_once_def Inr sum.case Let_def
    by (auto intro!: triple_if always timely claim triple_bind [OF now_read_triple [of always]]
        simp: rejection_def Let_def split: sum.split option.split)
  then show ?thesis by (rule triple_weaken) (simp_all add: settled_def Inr)
qed

text \<open>The outcome of processing a record: allowed calls only, and evidence for the disposition.\<close>

definition processed ::
  "NodeRuntimeConfig \<Rightarrow> (history \<Rightarrow> FailedScenarioJob \<Rightarrow> bool) \<Rightarrow> source_record \<Rightarrow> history
     \<Rightarrow> JobDisposition option awaited \<Rightarrow> history \<Rightarrow> bool" where
  "processed cfg rej src h r h' \<longleftrightarrow>
     (\<exists>es. h' = h @ es \<and> traced (worker_ok cfg rej) h es) \<and>
     (\<forall>d. r = Inr (Some d) \<longrightarrow> is_terminal d \<and> settled src d h')"

lemma processed_extend:
  "traced (worker_ok cfg rej) h es \<Longrightarrow> processed cfg rej src (h @ es) r h' \<Longrightarrow> processed cfg rej src h r h'"
  by (auto simp: processed_def)

lemma processed_stop: "traced (worker_ok cfg rej) h es \<Longrightarrow> processed cfg rej src h (Inr None) (h @ es)"
  "traced (worker_ok cfg rej) h es \<Longrightarrow> processed cfg rej src h (Inl i) (h @ es)"
  by (auto simp: processed_def)

lemma wait_run:
  "wait_or_shutdown E d h = (env_wait E h d, h @ [Waited d (env_wait E h d)])"
  by (simp add: wait_or_shutdown_def perform_def Let_def)

text \<open>One turn of the loop, with \<open>loop\<close> for its continuation.\<close>

lemma processing_turn:
  assumes src: "src \<in> srcs" and rej: "rej = refused_job show_f64 show_duration material cfg plans srcs"
    and loop: "\<And>g y. loop g = Some y \<Longrightarrow> processed cfg rej src g (fst y) (snd y)"
    and turn: "(case process_once E H show_f64 show_duration material cfg plans src h of
        (Inl i, h1) \<Rightarrow> Some (Inl i, h1)
      | (Inr disposition, h1) \<Rightarrow>
          if is_terminal disposition then Some (Inr (Some disposition), h1)
          else (case disposition of
            Execution_Lease_Busy retry_after \<Rightarrow>
              (let delay = (if retry_after = 0 then worker_retry_base_delay cfg
                            else min retry_after (worker_retry_max_delay cfg))
               in if env_shutdown E h1 then Some (Inr None, h1)
                  else (case wait_or_shutdown E delay h1 of
                    (Inl i, h2) \<Rightarrow> Some (Inl i, h2)
                  | (Inr interrupted, h2) \<Rightarrow> if interrupted then Some (Inr None, h2) else loop h2))
          | _ \<Rightarrow> Some (Inr None, h1))) = Some (r, h')"
  shows "processed cfg rej src h r h'"
proof -
  obtain r1 h1 where once: "process_once E H show_f64 show_duration material cfg plans src h = (r1, h1)"
    by force
  from tripleD [OF process_once_triple [OF src rej] _ once] obtain es where
    es: "h1 = h @ es" "traced (worker_ok cfg rej) h es" and d: "\<And>x. r1 = Inr x \<Longrightarrow> settled src x h1" by blast
  have waited: "traced (worker_ok cfg rej) h (es @ [Waited t w])" for t w using es(2) by simp
  have again: "processed cfg rej src h r h'" if "loop (h @ es @ [Waited t w]) = Some (r, h')" for t w
    using loop [OF that] processed_extend [OF waited, of src t w r h'] by simp
  show ?thesis
  proof (cases "\<exists>t. r1 = Inr (Execution_Lease_Busy t)")
    case False
    with turn once es d processed_stop [OF es(2)] show ?thesis
      by (auto simp: processed_def is_terminal_def split: sum.splits JobDisposition.splits)
  next
    case True
    then obtain t where t: "r1 = Inr (Execution_Lease_Busy t)" by blast
    show ?thesis
      using turn again processed_stop [OF es(2)] processed_stop [OF waited]
      by (auto simp: once t es(1) is_terminal_def wait_run Let_def split: if_splits sum.splits)
  qed
qed

lemma processing_loop_run:
  assumes run: "processing_loop E H show_f64 show_duration material cfg plans src h = Some y"
  shows "src \<in> srcs \<longrightarrow>
    processed cfg (refused_job show_f64 show_duration material cfg plans srcs) src h (fst y) (snd y)"
proof (rule processing_loop.raw_induct [where
      P = "\<lambda>E H show_f64 show_duration material cfg plans src h y. src \<in> srcs \<longrightarrow>
        processed cfg (refused_job show_f64 show_duration material cfg plans srcs) src h (fst y) (snd y)",
      OF _ run], goal_cases)
  case (1 loop E H show_f64 show_duration material cfg plans src h y)
  show ?case
  proof
    assume src: "src \<in> srcs"
    show "processed cfg (refused_job show_f64 show_duration material cfg plans srcs) src h (fst y) (snd y)"
      by (rule processing_turn [OF src refl, where loop = "loop E H show_f64 show_duration material cfg plans src" and
            E = E and H = H])
         (use 1 src in auto)
  qed
qed

lemma processing_loop_processed:
  "processing_loop E H show_f64 show_duration material cfg plans src h = Some (r, h') \<Longrightarrow> src \<in> srcs \<Longrightarrow>
   processed cfg (refused_job show_f64 show_duration material cfg plans srcs) src h r h'"
  using processing_loop_run by fastforce

lemma await_triple: "triple (worker_ok cfg rej) always (await_not_before E cfg src) (\<lambda>_. always)"
proof -
  have stop: "triple (worker_ok cfg rej) always (shutdown_requested E) (\<lambda>_. always)"
    by (simp add: triple_def shutdown_requested_def)
  have wait: "triple (worker_ok cfg rej) always (wait_or_shutdown E d) (\<lambda>_. always)" for d
    unfolding wait_or_shutdown_def by (intro triple_rules) simp
  show ?thesis
    unfolding await_not_before_def Let_def
    by (auto intro!: triple_return triple_if triple_bind [OF now_triple] triple_bind [OF stop]
        triple_bind [OF wait] split: sum.split)
qed

lemma process_until_terminal_processed:
  assumes "process_until_terminal E H show_f64 show_duration material cfg plans src h = Some (r, h')" "src \<in> srcs"
  shows "processed cfg (refused_job show_f64 show_duration material cfg plans srcs) src h r h'"
proof -
  let ?rej = "refused_job show_f64 show_duration material cfg plans srcs"
  obtain r1 h1 where wait: "await_not_before E cfg src h = (r1, h1)" by force
  from tripleD [OF await_triple [of cfg ?rej] _ wait] obtain es where
    es: "h1 = h @ es" "traced (worker_ok cfg ?rej) h es" by blast
  show ?thesis
    using assms wait es processed_stop [OF es(2)] processed_extend [OF es(2) processing_loop_processed [OF _ assms(2)]]
    by (auto simp: process_until_terminal_def split: sum.splits if_splits)
qed

lemma commit_run:
  assumes "commit_within_budget E cfg src t h = (r, h')" "is_terminal d" "settled src d h"
  shows "\<exists>es. h' = h @ es \<and> traced (worker_ok cfg rej) h es"
proof -
  have kept: "settled src d (h @ [Instant_Now i])" for i
    using assms(3) by (auto simp: settled_def disposed_def Let_def owned_def result_published_def
        retry_published_def dead_letter_published_def recorded_def split: sum.splits JobDisposition.splits)
  have commit: "worker_ok cfg rej (h @ [Instant_Now i]) (Committed src c)" for i c
    using kept assms(2) by (auto simp: worker_ok_def)
  show ?thesis
    using assms(1) commit
    by (auto simp: commit_within_budget_def sbind_def instant_now_def read_clock_def commit_source_def
        perform_def shutdown_requested_def Let_def split: if_splits sum.splits prod.splits)
qed

lemma worker_loop_traced:
  "worker_loop E H show_f64 show_duration material cfg plans queue h = Some h' \<Longrightarrow> set queue \<subseteq> srcs \<Longrightarrow>
   \<exists>es. h' = h @ es \<and> traced (worker_ok cfg (refused_job show_f64 show_duration material cfg plans srcs)) h es"
proof (induction queue arbitrary: h)
  case (Cons src queue)
  let ?rej = "refused_job show_f64 show_duration material cfg plans srcs"
  have src: "src \<in> srcs" using Cons.prems by simp
  show ?case
  proof (cases "env_shutdown E h")
    case True with Cons.prems show ?thesis by simp
  next
    case False
    let ?h0 = "h @ [Instant_Now (env_instant E h)]"
    have start: "instant_now E h = (Inr (env_instant E h), ?h0)"
      by (simp add: instant_now_def read_clock_def Let_def)
    obtain r h1 where p: "process_until_terminal E H show_f64 show_duration material cfg plans src ?h0 = Some (r, h1)"
      using Cons.prems False start by (auto split: option.splits)
    from process_until_terminal_processed [OF p src] obtain es where
      es: "h1 = ?h0 @ es" "traced (worker_ok cfg ?rej) ?h0 es"
      and d: "\<And>d. r = Inr (Some d) \<Longrightarrow> is_terminal d \<and> settled src d h1"
      by (auto simp: processed_def)
    have h1: "\<exists>es. h1 = h @ es \<and> traced (worker_ok cfg ?rej) h es" using es by auto
    show ?thesis
    proof (cases "\<exists>d. r = Inr (Some d)")
      case False
      with Cons.prems \<open>\<not> env_shutdown E h\<close> start p h1 show ?thesis
        by (auto split: sum.splits option.splits)
    next
      case True
      then obtain dd where dd: "r = Inr (Some dd)" by blast
      obtain c h2 where k: "commit_within_budget E cfg src (env_instant E h) h1 = (c, h2)" by force
      with commit_run d [OF dd] h1 have h2: "\<exists>es. h2 = h @ es \<and> traced (worker_ok cfg ?rej) h es"
        by fastforce
      show ?thesis
        using Cons.prems \<open>\<not> env_shutdown E h\<close> start p dd k h2 Cons.IH [of h2]
        by (auto split: sum.splits bool.splits)
    qed
  qed
qed simp

section \<open>A run of the worker\<close>

definition demo_lease :: ExecutionLease where
  "demo_lease = \<lparr>lease_execution_key = ''key'', lease_attempt = 0, lease_owner_token = ''owner'',
     lease_expires_at = 30000, lease_ttl = from_secs 30, lease_recovered = False\<rparr>"

definition demo_job :: ScenarioJob where
  "demo_job = \<lparr>job_schema_version = 1, job_scenario_id = ''scn'', job_run_id = ''run'',
     job_execution_key = ''key'', job_plan_fingerprint = [], scheduled_at_unix_ms = 0,
     not_before_unix_ms = 0, job_slice = \<lparr>index = 0, slice_total = 1\<rparr>,
     load = \<lparr>scenarios_per_sec = Finite 1, load_duration = from_secs 1, max_concurrency = 1,
       startup_burst = 1\<rparr>,
     job_attempt = 0, job_max_retries = 2\<rparr>"

definition demo_source :: source_record where
  "demo_source = \<lparr>src_job = Inr demo_job, src_poison_record = (\<lambda>reason. undefined), src_topic = ''jobs'',
     src_partition = 0, src_offset = 0\<rparr>"

definition demo_report :: "u64 list RunReport" where
  "demo_report = \<lparr>summary = new_metrics, started = 0, finished = 0, configured_scenarios_per_sec = Finite 1,
     actual_started_per_sec = Finite 0, peak_pending_tasks = 0\<rparr>"

definition demo_plan :: "unit ScenarioExecutionPlan" where
  "demo_plan = \<lparr>plan_scenario = \<lparr>sc_name = ''scn'', sc_steps = [()],
       sc_config = \<lparr>sc_endpoint = ''http://target'', sc_scenarios_per_sec = Finite 1, sc_max_concurrency = 1,
         sc_duration = from_secs 1, sc_repeat = Once, sc_partition = ByExecutionKey\<rparr>\<rparr>,
     execution_semantics = []\<rparr>"

definition demo_env :: "(unit, u64 list) node_env" where
  "demo_env = \<lparr>env_now = (\<lambda>_. 5), env_instant = (\<lambda>_. 7), env_shutdown = (\<lambda>_. False),
     env_sleep = (\<lambda>_ _. Inr ()), env_sleep_until = (\<lambda>_ _. Inr ()), env_wait = (\<lambda>_ _. Inr False),
     env_claim = (\<lambda>_ _. Inr (Inr (Acquired demo_lease))), env_renew = (\<lambda>_ l. Inr (Inr l)),
     env_complete = (\<lambda>_ _ t. Inr (Inr \<lparr>completed_outcome = t, completed_at_unix_ms = 5\<rparr>)),
     env_release = (\<lambda>_ _. Inr (Inr Released)), env_publish_job = (\<lambda>_ _ _. Inr (Inr ())),
     env_publish_result = (\<lambda>_ _. Inr (Inr ())), env_publish_failed = (\<lambda>_ _ _. Inr (Inr ())),
     env_publish_poison = (\<lambda>_ _. Inr (Inr ())), env_run = (\<lambda>_ _ _. Inr demo_report),
     env_commit = (\<lambda>_ _. Inr (Inr ())), env_elect = (\<lambda>_ _. Inr (Inr (Follower 0))),
     env_relinquish = (\<lambda>_ _. Inr (Inr ())), env_scheduler_stopped = (\<lambda>_. Inr ()), env_leader = (\<lambda>_. None),
     env_leader_changed = (\<lambda>_. Inr False), env_publication = (\<lambda>_ _ _. [Wake_Published (Inr ())]), env_prepare = (\<lambda>_ _ _. Inr (Inr Finished)),
     env_register = (\<lambda>_ _ _. Inr (Inr ())), env_ack = (\<lambda>_ _ _ _. Inr (Inr DispatchComplete))\<rparr>"

lemma demo_env_simps [simp]:
  "env_now demo_env h = 5" "env_instant demo_env h = 7" "\<not> env_shutdown demo_env h"
  "env_claim demo_env h c = Inr (Inr (Acquired demo_lease))" "env_renew demo_env h l = Inr (Inr l)"
  "env_complete demo_env h l t = Inr (Inr \<lparr>completed_outcome = t, completed_at_unix_ms = 5\<rparr>)"
  "env_publish_result demo_env h r = Inr (Inr ())" "env_run demo_env h sc rc = Inr demo_report"
  "env_commit demo_env h src = Inr (Inr ())"
  by (simp_all add: demo_env_def)

lemma demo_validate:
  "validate_limits show_f64 show_duration demo_job (from_secs 60) (Finite 1000) 256 = Inr ()"
proof -
  have names: "trim ''scn'' \<noteq> []" "trim ''run'' \<noteq> []" "trim ''key'' \<noteq> []"
    using trim_not_empty [of "CHR ''n''" "''scn''"] trim_not_empty [of "CHR ''n''" "''run''"]
      trim_not_empty [of "CHR ''k''" "''key''"] by (simp_all add: graphic_def)
  show ?thesis
    using names
    by (simp add: validate_limits_def validate_job_def demo_job_def validate_contract_version_def
        require_non_empty_def validate_slice_def contract_limits from_secs_def f64_less_def
        word_less_nat_alt word_le_nat_alt)
qed

abbreviation demo_result :: ScenarioRunResult where
  "demo_result \<equiv> run_result hdr_reference demo_job 5 5 demo_report"

abbreviation demo_history :: history where
  "demo_history \<equiv>
    [Instant_Now 7, Now 5, Now 5, Instant_Now 7,
     Claimed \<lparr>claim_execution_key = ''key'', claim_attempt = 0\<rparr> (Inr (Inr (Acquired demo_lease))),
     Instant_Now 7, Now 5, Target_Run (runner_config default_runtime_config demo_job) (Inr ()), Now 5,
     Instant_Now 7, Renewed demo_lease (Inr (Inr demo_lease)), Instant_Now 7,
     Run_Result_Published demo_result (Inr (Inr ())),
     Completed demo_lease ResultPublished
       (Inr (Inr \<lparr>completed_outcome = ResultPublished, completed_at_unix_ms = 5\<rparr>)),
     Instant_Now 7, Committed demo_source (Inr (Inr ()))]"

lemma demo_process:
  "process_once demo_env hdr_reference show_f64 show_duration material default_runtime_config
     [''scn'' \<mapsto> demo_plan] demo_source (take 2 demo_history)
   = (Inr Result_Published, take 14 demo_history)"
proof -
  have pass: "deterministic_job_plan_error show_f64 material demo_job [''scn'' \<mapsto> demo_plan] 2 0 = None"
    by (simp add: deterministic_job_plan_error_def demo_job_def word_less_nat_alt)
  have limit: "unat (local_settlement_attempt_limit default_runtime_config) - 1 = 2"
    by (simp add: local_settlement_attempt_limit_def default_runtime_config_def saturating_add_def max_def
        word_le_nat_alt)
  have budget: "conservative_lease_deadline 7 (from_secs 30) (from_secs 10) = 20000000007"
    by (simp add: conservative_lease_deadline_def instant_checked_add_def INSTANT_LIMIT_def from_secs_def)
  have errors: "error_total demo_report kind = 0" for kind
    by (simp add: error_total_def demo_report_def new_metrics_def)
  have delay: "deferred_job_delay demo_job 5 = 0"
    by (simp add: deferred_job_delay_def demo_job_def from_millis_def)
  have job: "job_execution_key demo_job = ''key''" "job_attempt demo_job = 0" "job_scenario_id demo_job = ''scn''"
    "startup_burst (load demo_job) = 1"
    by (simp_all add: demo_job_def)
  have cfg: "execution_renew_interval default_runtime_config = from_secs 10"
    "cfg_max_job_duration default_runtime_config = from_secs 60"
    "cfg_max_scenarios_per_sec default_runtime_config = Finite 1000"
    "cfg_max_concurrency default_runtime_config = 256"
    "worker_max_retries default_runtime_config = 2" "cfg_startup_burst default_runtime_config = 0"
    by (simp_all add: default_runtime_config_def)
  show ?thesis
    by (simp add: process_once_def demo_source_def demo_validate pass cfg delay job claim_and_execute_def
        sbind_def now_unix_ms_def instant_now_def read_clock_def store_claim_def perform_def Let_def
        demo_lease_def [THEN arg_cong [of _ _ lease_ttl]] budget execute_with_lease_def
        execute_and_publish_def run_target_def settle_report_def errors publish_result_with_retry_def
        with_retry_def retry_loop.simps leased_attempt_def verify_publication_lease_def store_renew_def
        lease_response_has_safe_budget_def publish_result_def reply_of_def complete_disposition_def
        complete_until_acknowledged_def complete_attempt_def store_complete_def)
qed

lemma demo_worker_run:
  "worker_loop demo_env hdr_reference show_f64 show_duration material default_runtime_config
     [''scn'' \<mapsto> demo_plan] [demo_source] [] = Some demo_history"
proof -
  have await: "await_not_before demo_env default_runtime_config demo_source [Instant_Now 7]
      = (Inr True, [Instant_Now 7, Now 5])"
    by (simp add: await_not_before_def demo_source_def sbind_def now_unix_ms_def read_clock_def
        deferred_job_delay_def demo_job_def from_millis_def)
  have loop: "processing_loop demo_env hdr_reference show_f64 show_duration material default_runtime_config
      [''scn'' \<mapsto> demo_plan] demo_source [Instant_Now 7, Now 5]
      = Some (Inr (Some Result_Published), take 14 demo_history)"
    using demo_process [of show_f64 show_duration material]
    by (subst processing_loop.simps) (simp add: is_terminal_def)
  have budget: "max_processing_interval default_runtime_config = 299000000000"
    by (simp add: default_runtime_config_def from_secs_def)
  show ?thesis
    by (simp add: instant_now_def read_clock_def process_until_terminal_def await loop commit_within_budget_def
        sbind_def commit_source_def perform_def Let_def budget shutdown_requested_def)
qed

section \<open>Properties\<close>

text \<open>C3: A source offset is committed only after a durable terminal disposition: whatever the
  environment does, when the worker commits a record, the broker has acknowledged its result, its
  next attempt or its dead letter (with the terminal record stored under the claimed lease for the
  first two), or the store has reported the attempt as completed before.\<close>

theorem commit_only_after_durable_disposition:
  assumes "worker_loop E H show_f64 show_duration material cfg plans queue []
    = Some (before @ Committed src reply # after)"
  shows "\<exists>d. is_terminal d \<and> settled src d before"
proof -
  from worker_loop_traced [OF assms order_refl] have
    "traced (worker_ok cfg (refused_job show_f64 show_duration material cfg plans (set queue))) [] (before @ Committed src reply # after)"
    by auto
  from traced_split [OF this] show ?thesis by (simp add: worker_ok_def)
qed

theorem commit_only_after_durable_disposition_witness:
  "\<exists>d. is_terminal d \<and> settled demo_source d (take 15 demo_history)"
proof (rule commit_only_after_durable_disposition)
  show "worker_loop demo_env hdr_reference (\<lambda>_. []) (\<lambda>_. []) (\<lambda>_. []) default_runtime_config
      [''scn'' \<mapsto> demo_plan] [demo_source] []
    = Some (take 15 demo_history @ Committed demo_source (Inr (Inr ())) # [])"
    unfolding demo_worker_run by simp
qed

text \<open>C4: Every result, every retry and every dead letter of a claimed job is published under a verified
  lease: the call directly follows an owner check of the lease that was claimed for the same
  execution attempt, and the check left local lease budget.  A result follows a finished run of
  the target, and a retry is exactly the next attempt within the retry limit of the job.  A dead
  letter without an owner check is only published for a job of the queue that is refused before it
  is claimed, and with the reason of that refusal.\<close>

theorem publications_are_fenced:
  assumes "worker_loop E H show_f64 show_duration material cfg plans queue [] = Some (before @ e # after)"
  shows "(\<forall>r reply. e = Run_Result_Published r reply \<longrightarrow>
      (\<exists>lease rc. owned (res_execution_key r) (res_attempt r) lease before \<and> verified cfg lease before \<and>
        Target_Run rc (Inr ()) \<in> set before)) \<and>
    (\<forall>k j reply. e = Job_Published k j reply \<longrightarrow>
      (\<exists>lease attempt. owned (job_execution_key j) attempt lease before \<and> verified cfg lease before \<and>
        unat (job_attempt j) = unat attempt + 1 \<and> job_attempt j \<le> job_max_retries j)) \<and>
    (\<forall>k f reply. e = Failed_Published k f reply \<longrightarrow> k = fj_execution_key f \<and>
      ((\<exists>lease. owned (fj_execution_key f) (fj_attempt f) lease before \<and> verified cfg lease before) \<or>
       refused_job show_f64 show_duration material cfg plans (set queue) before f))"
proof -
  from worker_loop_traced [OF assms order_refl] have
    "traced (worker_ok cfg (refused_job show_f64 show_duration material cfg plans (set queue))) [] (before @ e # after)"
    by auto
  from traced_split [OF this] show ?thesis by (auto simp: worker_ok_def)
qed

theorem publications_are_fenced_witness:
  "\<exists>lease rc. owned ''key'' 0 lease (take 12 demo_history) \<and>
     verified default_runtime_config lease (take 12 demo_history) \<and>
     Target_Run rc (Inr ()) \<in> set (take 12 demo_history)"
proof -
  have "worker_loop demo_env hdr_reference (\<lambda>_. []) (\<lambda>_. []) (\<lambda>_. []) default_runtime_config
      [''scn'' \<mapsto> demo_plan] [demo_source] []
    = Some (take 12 demo_history @ Run_Result_Published demo_result (Inr (Inr ())) # drop 13 demo_history)"
    unfolding demo_worker_run by simp
  from publications_are_fenced [OF this] show ?thesis
    by (simp add: demo_job_def)
qed

text \<open>C21: A terminal outcome is recorded only after its publication: when the worker completes an
  execution attempt as published, retried or dead-lettered, it holds the lease claimed for that
  attempt and the broker has acknowledged the record of that attempt.  A target slice runs only
  directly after a successful claim of its attempt that left local lease budget.\<close>

theorem completion_and_execution_are_fenced:
  assumes "worker_loop E H show_f64 show_duration material cfg plans queue [] = Some (before @ e # after)"
  shows "(\<forall>lease t reply. e = Completed lease t reply \<longrightarrow>
      (\<exists>key attempt. owned key attempt lease before \<and> terminal_published t key attempt before)) \<and>
    (\<forall>rc reply. e = Target_Run rc reply \<longrightarrow>
      (\<exists>key attempt lease g t. before = g @ [Now t] \<and> freshly_claimed cfg key attempt lease g))"
proof -
  from worker_loop_traced [OF assms order_refl] have
    "traced (worker_ok cfg (refused_job show_f64 show_duration material cfg plans (set queue))) [] (before @ e # after)"
    by auto
  from traced_split [OF this] show ?thesis by (auto simp: worker_ok_def)
qed

theorem completion_and_execution_are_fenced_witness:
  "\<exists>key attempt. owned key attempt demo_lease (take 13 demo_history) \<and>
     terminal_published ResultPublished key attempt (take 13 demo_history)"
proof -
  have "worker_loop demo_env hdr_reference (\<lambda>_. []) (\<lambda>_. []) (\<lambda>_. []) default_runtime_config
      [''scn'' \<mapsto> demo_plan] [demo_source] []
    = Some (take 13 demo_history @ Completed demo_lease ResultPublished
        (Inr (Inr \<lparr>completed_outcome = ResultPublished, completed_at_unix_ms = 5\<rparr>)) # drop 14 demo_history)"
    unfolding demo_worker_run by simp
  from completion_and_execution_are_fenced [OF this] show ?thesis by blast
qed

section \<open>Bounded work and termination\<close>

definition calls :: "(event \<Rightarrow> bool) \<Rightarrow> history \<Rightarrow> nat" where
  "calls f h = length (filter f h)"

lemma calls_simps [simp]:
  "calls f [] = 0" "calls f (g @ h) = calls f g + calls f h"
  "calls f (e # h) = (if f e then 1 else 0) + calls f h"
  by (simp_all add: calls_def)

definition at_most :: "(event \<Rightarrow> bool) \<Rightarrow> nat \<Rightarrow> 'a node_action \<Rightarrow> bool" where
  "at_most f n m \<longleftrightarrow> (\<forall>h. calls f (snd (m h)) \<le> calls f h + n)"

lemma at_most_bind: "at_most f a m \<Longrightarrow> (\<And>x. at_most f b (k x)) \<Longrightarrow> at_most f (a + b) (sbind m k)"
  unfolding at_most_def
proof (intro allI)
  fix h assume m: "\<forall>h. calls f (snd (m h)) \<le> calls f h + a"
    and k: "\<And>x. \<forall>h. calls f (snd (k x h)) \<le> calls f h + b"
  obtain r h1 where r: "m h = (r, h1)" by force
  show "calls f (snd (sbind m k h)) \<le> calls f h + (a + b)"
  proof (cases r)
    case (Inl i)
    with m [rule_format, of h] r show ?thesis by (simp add: sbind_def)
  next
    case (Inr x)
    with m [rule_format, of h] k [rule_format, of x h1] r show ?thesis by (simp add: sbind_def)
  qed
qed

lemma at_most_perform:
  "at_most f 1 (perform ask ev)" "(\<And>r. \<not> f (ev r)) \<Longrightarrow> at_most f 0 (perform ask ev)"
  "(\<And>r. \<not> f (ev' r)) \<Longrightarrow> at_most f 0 (read_clock ask' ev')"
  by (simp_all add: at_most_def perform_def read_clock_def Let_def)

lemma at_most_return [simp]: "at_most f n (sreturn x)"
  by (simp add: at_most_def sreturn_def)

lemma at_most_mono: "at_most f a m \<Longrightarrow> a \<le> b \<Longrightarrow> at_most f b m"
  by (auto simp: at_most_def intro: order_trans)

lemma at_most_seq: "at_most f a m \<Longrightarrow> (\<And>x. at_most f b (k x)) \<Longrightarrow> a + b \<le> n \<Longrightarrow> at_most f n (sbind m k)"
  using at_most_mono [OF at_most_bind] by blast

lemma at_most_retry_loop:
  assumes "at_most f b body" "\<And>d r. \<not> f (Slept d r)"
  shows "at_most f (b * Suc n) (retry_loop E cfg entropy body k n)"
proof (induction n arbitrary: k)
  case 0
  show ?case
    by (subst retry_loop.simps, rule at_most_seq [OF assms(1), where b = 0]) (simp_all split: attempt_reply.split)
next
  case (Suc n)
  have sleep: "at_most f 0 (node_sleep E d)" for d
    unfolding node_sleep_def using assms(2) by (intro at_most_perform)
  have again: "at_most f (b * Suc n) (sbind (node_sleep E d) (\<lambda>_. retry_loop E cfg entropy body k n))" for d k
    by (rule at_most_seq [OF sleep Suc]) simp
  show ?case
    by (subst retry_loop.simps, rule at_most_seq [OF assms(1), where b = "b * Suc n"])
       (auto intro: again [simplified] split: attempt_reply.split)
qed

lemma settlement_limit: "unat (local_settlement_attempt_limit cfg) \<le> Suc (unat (worker_max_retries cfg))"
  by (simp add: local_settlement_attempt_limit_def unat_min_max unat_saturating_add)

lemma at_most_with_retry:
  assumes "at_most f b body" "\<And>d r. \<not> f (Slept d r)"
  shows "at_most f (b * Suc (unat (worker_max_retries cfg))) (with_retry E cfg entropy body)"
proof -
  have "1 \<le> unat (local_settlement_attempt_limit cfg)"
    by (simp add: local_settlement_attempt_limit_def unat_min_max)
  then have "Suc (unat (local_settlement_attempt_limit cfg) - 1) \<le> Suc (unat (worker_max_retries cfg))"
    using settlement_limit [of cfg] by simp
  then show ?thesis
    unfolding with_retry_def by (rule at_most_mono [OF at_most_retry_loop [OF assms] mult_le_mono2])
qed

lemma at_most_leased_attempt:
  assumes "at_most f b publication" "\<And>t. \<not> f (Instant_Now t)" "\<And>l r. \<not> f (Renewed l r)"
  shows "at_most f b (leased_attempt E cfg lease publication)"
proof -
  have verify: "at_most f (0 + (0 + 0)) (verify_publication_lease E cfg l)" for l
    unfolding verify_publication_lease_def instant_now_def store_renew_def
    using assms(2,3) by (intro at_most_bind at_most_perform) (auto intro!: at_most_bind [where a = 0 and b = 0, simplified]
      at_most_perform split: sum.split)
  have publish: "at_most f b (sbind publication (\<lambda>r. sreturn (reply_of r)))"
    by (rule at_most_seq [OF assms(1), where b = 0]) simp_all
  have check: "at_most f 0 (case lease of None \<Rightarrow> sreturn (Inr ()) | Some l \<Rightarrow> verify_publication_lease E cfg l)"
    using verify by (simp split: option.split)
  show ?thesis
    unfolding leased_attempt_def by (rule at_most_seq [OF check, where b = b]) (auto intro: publish split: sum.split)
qed

definition is_publication :: "event \<Rightarrow> bool" where
  "is_publication e = (case e of Job_Published _ _ _ \<Rightarrow> True | Run_Result_Published _ _ \<Rightarrow> True
     | Failed_Published _ _ _ \<Rightarrow> True | Poison_Published _ _ \<Rightarrow> True | _ \<Rightarrow> False)"

definition is_completion :: "event \<Rightarrow> bool" where
  "is_completion e = (case e of Completed _ _ _ \<Rightarrow> True | _ \<Rightarrow> False)"

definition is_target_run :: "event \<Rightarrow> bool" where
  "is_target_run e = (case e of Target_Run _ _ \<Rightarrow> True | _ \<Rightarrow> False)"

definition is_claim :: "event \<Rightarrow> bool" where
  "is_claim e = (case e of Claimed _ _ \<Rightarrow> True | _ \<Rightarrow> False)"

text \<open>A budget for the calls of one kind \<open>f\<close>: how many of them a publication loop, the recording of the
  terminal outcome, a run of the target and a claim can make.  The processing of a record has each
  of these at most once.\<close>

locale call_budget =
  fixes f :: "event \<Rightarrow> bool" and E :: "('step, 'h) node_env" and cfg :: NodeRuntimeConfig and p c r q :: nat
  assumes quiet: "\<not> f (Now t)" "\<not> f (Instant_Now i)" "\<not> f (Release l lr)"
    and publications: "at_most f p (publish_result_with_retry E cfg res lease)"
      "at_most f p (publish_retry_with_retry E cfg key job lease)"
      "at_most f p (publish_failed_with_optional_lease E cfg failed ol)"
      "at_most f p (publish_poison_with_retry E cfg poison)"
    and completion: "at_most f c (complete_until_acknowledged E cfg lease terminal)"
    and target: "at_most f r (run_target E sc rc)"
    and claim: "at_most f q (store_claim E cl)"
begin

lemma clocks: "at_most f 0 (now_unix_ms E)" "at_most f 0 (instant_now E)" "at_most f 0 (store_release E l)"
  unfolding now_unix_ms_def instant_now_def store_release_def using quiet by (intro at_most_perform; simp)+

lemma complete_disposition: "at_most f c (complete_disposition E cfg lease terminal d)"
  unfolding complete_disposition_def by (rule at_most_seq [OF completion]) auto

lemma after_publication:
  "at_most f p m \<Longrightarrow> at_most f (p + c) (sbind m (\<lambda>x. case x of
     Inl _ \<Rightarrow> sreturn Retry_Later | Inr _ \<Rightarrow> complete_disposition E cfg lease terminal d))"
  by (rule at_most_seq) (auto intro: complete_disposition split: sum.split)

lemma dlq: "at_most f (p + c) (publish_and_complete_dlq E cfg job lease reason)"
  unfolding publish_and_complete_dlq_def publish_leased_failed_with_retry_def
  by (rule at_most_seq [OF clocks(1) after_publication [OF publications(3)]]) simp

lemma infrastructure: "at_most f (p + c) (settle_infrastructure_failure E cfg job plan lease reason)"
  unfolding settle_infrastructure_failure_def Let_def
  by (auto intro!: dlq at_most_seq [OF clocks(1) after_publication [OF publications(2)]])

lemma report: "at_most f (p + c) (settle_report E H cfg job plan lease s e rep)"
  unfolding settle_report_def Let_def
  by (auto intro!: dlq infrastructure after_publication [OF publications(1)])

lemma execution: "at_most f (p + c + r) (execute_and_publish E H cfg job plan lease)"
proof (cases plan)
  case None
  then show ?thesis using at_most_mono [OF dlq, of "p + c + r"] by (simp add: execute_and_publish_def)
next
  case (Some pl)
  have finish: "at_most f (p + c) (sbind (now_unix_ms E) (\<lambda>finished_at.
      settle_report E H cfg job pl lease s finished_at rep))" for s rep
    by (rule at_most_seq [OF clocks(1) report]) simp
  have run: "at_most f (p + c + r) (sbind (run_target E sc rc) (\<lambda>rep. sbind (now_unix_ms E) (\<lambda>finished_at.
      settle_report E H cfg job pl lease s finished_at rep)))" for s sc rc
    by (rule at_most_seq [OF target finish]) simp
  show ?thesis
    unfolding execute_and_publish_def Some option.case by (rule at_most_seq [OF clocks(1) run]) simp
qed

lemma leased: "at_most f (p + c + r) (execute_with_lease E H cfg job plan lease)"
  unfolding at_most_def
proof
  fix h
  obtain x h1 where m: "execute_and_publish E H cfg job plan lease h = (x, h1)" by force
  have "at_most f 0 (sbind (store_release E lease) (\<lambda>_. sreturn Retry_Later))"
    by (rule at_most_seq [OF clocks(3)]) auto
  then have "calls f (snd (sbind (store_release E lease) (\<lambda>_. sreturn Retry_Later) h1)) \<le> calls f h1"
    by (auto simp: at_most_def)
  moreover have "calls f h1 \<le> calls f h + (p + c + r)"
    using execution [of H job plan lease] m by (auto simp: at_most_def dest: spec [of _ h])
  ultimately show "calls f (snd (execute_with_lease E H cfg job plan lease h)) \<le> calls f h + (p + c + r)"
    by (auto simp: execute_with_lease_def m Let_def)
qed

lemma claimed: "at_most f (p + c + r + q) (claim_and_execute E H cfg plans job)"
proof -
  have run: "at_most f (p + c + r) (sbind (instant_now E) (\<lambda>now. if b now then sreturn Retry_Later
      else execute_with_lease E H cfg job plan lease))" for b plan lease
    by (rule at_most_seq [OF clocks(2)]) (auto intro: leased)
  show ?thesis
    unfolding claim_and_execute_def
    by (rule at_most_seq [OF clocks(2)], rule at_most_seq [OF claim])
       (auto intro!: run split: sum.split ClaimOutcome.split)
qed

lemma refusal: "at_most f (p + c + r + q) (dead_letter E cfg job reason)"
  unfolding dead_letter_def publish_failed_with_retry_def
  by (rule at_most_seq [OF clocks(1)], rule at_most_seq [OF publications(3)]) auto

lemma process: "at_most f (p + c + r + q) (process_once E H show_f64 show_duration material cfg plans src)"
proof (cases "src_job src")
  case (Inl e)
  then show ?thesis
    unfolding process_once_def by (auto intro!: at_most_seq [OF publications(4)])
next
  case (Inr job)
  then show ?thesis
    unfolding process_once_def
    by (auto intro!: refusal claimed at_most_seq [OF clocks(1)] simp: Let_def split: sum.split option.split)
qed

end

lemma settlement_budget:
  assumes "\<And>t. \<not> f (Now t)" "\<And>t. \<not> f (Instant_Now t)" "\<And>l x. \<not> f (Release l x)" "\<And>l x. \<not> f (Renewed l x)"
    "\<And>d x. \<not> f (Slept d x)"
    and "\<And>res ol. at_most f b (publish_result E res)" "\<And>k j. at_most f b (publish_job E k j)"
    "\<And>k fj. at_most f b (publish_failed_job E k fj)" "\<And>pm. at_most f b (publish_poison E pm)"
    "\<And>l t. at_most f d (store_complete E l t)" "\<And>sc rc. at_most f r (run_target E sc rc)"
    "\<And>cl. at_most f q (store_claim E cl)"
  shows "call_budget f E cfg (b * Suc (unat (worker_max_retries cfg))) (d * Suc (unat (worker_max_retries cfg))) r q"
proof (unfold_locales, goal_cases)
  case (8 lease terminal)
  have "at_most f d (complete_attempt E lease terminal)"
    unfolding complete_attempt_def by (rule at_most_seq [OF assms(10), where b = 0]) simp_all
  then show ?case
    unfolding complete_until_acknowledged_def using assms(5) by (intro at_most_with_retry) simp_all
qed (use assms in \<open>auto simp: publish_result_with_retry_def publish_retry_with_retry_def
    publish_failed_with_optional_lease_def publish_poison_with_retry_def
    intro!: at_most_with_retry at_most_leased_attempt simp del: mult_Suc_right\<close>)

lemmas settlement_calls = publish_result_def publish_job_def publish_failed_job_def publish_poison_def
  store_complete_def run_target_def store_claim_def

interpretation publications: call_budget is_publication E cfg "Suc (unat (worker_max_retries cfg))" 0 0 0 for E cfg
  using settlement_budget [of is_publication 1 E 0 0 0 cfg]
  by (simp add: is_publication_def settlement_calls at_most_perform [unfolded One_nat_def])

interpretation completions: call_budget is_completion E cfg 0 "Suc (unat (worker_max_retries cfg))" 0 0 for E cfg
  using settlement_budget [of is_completion 0 E 1 0 0 cfg]
  by (simp add: is_completion_def settlement_calls at_most_perform [unfolded One_nat_def])

interpretation target_runs: call_budget is_target_run E cfg 0 0 1 0 for E cfg
  using settlement_budget [of is_target_run 0 E 0 1 0 cfg]
  by (simp add: is_target_run_def settlement_calls at_most_perform [unfolded One_nat_def])

interpretation claims: call_budget is_claim E cfg 0 0 0 1 for E cfg
  using settlement_budget [of is_claim 0 E 0 0 1 cfg]
  by (simp add: is_claim_def settlement_calls at_most_perform [unfolded One_nat_def])

text \<open>C22: The work on a record is bounded: one pass of \<open>process_once\<close> makes at most
  \<open>worker_max_retries + 1\<close> publications and as many attempts to record the terminal outcome, at most
  one claim and at most one run of the target, however the broker, the store and the target
  answer.\<close>

theorem settlement_attempts_bounded:
  "let h' = snd (process_once E H show_f64 show_duration material cfg plans src h) in
   calls is_publication h' \<le> calls is_publication h + unat (worker_max_retries cfg) + 1 \<and>
   calls is_completion h' \<le> calls is_completion h + unat (worker_max_retries cfg) + 1 \<and>
   calls is_claim h' \<le> calls is_claim h + 1 \<and>
   calls is_target_run h' \<le> calls is_target_run h + 1"
  using publications.process [where E = E and cfg = cfg and H = H and plans = plans]
    completions.process [where E = E and cfg = cfg and H = H and plans = plans]
    claims.process [where E = E and cfg = cfg and H = H and plans = plans]
    target_runs.process [where E = E and cfg = cfg and H = H and plans = plans]
  by (simp add: at_most_def Let_def)

lemma grows: "triple ok P m Q \<Longrightarrow> P h \<Longrightarrow> length h \<le> length (snd (m h))"
  unfolding triple_def by fastforce

lemma claim_busy:
  assumes "claim_and_execute E H cfg plans job h = (Inr (Execution_Lease_Busy t), h1)"
  shows "\<exists>g c. length h < length g \<and> length g < length h1 \<and> env_claim E g c = Inr (Inr (Busy t))"
proof -
  let ?c = "\<lparr>claim_execution_key = job_execution_key job, claim_attempt = job_attempt job\<rparr>"
  let ?g = "h @ [Instant_Now (env_instant E h)]"
  have no_busy: "execute_with_lease E H cfg job plan lease g \<noteq> (Inr (Execution_Lease_Busy t), g')"
    if "fresh cfg job lease g" for plan lease g g'
    using execute_with_lease_triple [of cfg "\<lambda>_ _. True" job lease E H plan] that
    by (fastforce simp: triple_def disposed_def Let_def)
  have fresh: "fresh cfg job lease (?g @ [Claimed ?c (Inr (Inr (Acquired lease))), Instant_Now i])"
    if "\<not> conservative_lease_deadline (env_instant E h) (lease_ttl lease) (execution_renew_interval cfg) \<le> i"
    for lease i
    using that by (auto simp: freshly_claimed_def)
  have "env_claim E ?g ?c = Inr (Inr (Busy t)) \<and> length h1 = length h + 2"
    using assms no_busy [OF fresh]
    by (auto simp: claim_and_execute_def sbind_def instant_now_def read_clock_def store_claim_def perform_def
        Let_def split: sum.splits ClaimOutcome.splits if_splits)
  then show ?thesis by (intro exI [of _ ?g] exI [of _ ?c]) simp
qed

lemma process_once_busy:
  assumes "process_once E H show_f64 show_duration material cfg plans src h = (Inr (Execution_Lease_Busy t), h1)"
  shows "\<exists>g c. length h < length g \<and> length g < length h1 \<and> env_claim E g c = Inr (Inr (Busy t))"
proof -
  have letter: "dead_letter E cfg job reason g \<noteq> (Inr (Execution_Lease_Busy t), g')" for job reason g g'
    by (auto simp: dead_letter_def sbind_def split: prod.splits sum.splits)
  have poison: "sbind m (\<lambda>r. sreturn (case r of Inl _ \<Rightarrow> Retry_Later | Inr _ \<Rightarrow> Dead_Letter_Published)) g
      \<noteq> (Inr (Execution_Lease_Busy t), g')" for m :: "(string, unit) result node_action" and g g'
    by (auto simp: sbind_def split: prod.splits sum.splits)
  show ?thesis
  proof (cases "src_job src")
    case (Inl e)
    with assms poison show ?thesis by (simp add: process_once_def)
  next
    case (Inr job)
    have now: "sbind (now_unix_ms E) k h = k (env_now E h) (h @ [Now (env_now E h)])"
      for k :: "u128 \<Rightarrow> JobDisposition node_action"
      by (simp add: sbind_def now_unix_ms_def read_clock_def Let_def)
    have "claim_and_execute E H cfg plans job (h @ [Now (env_now E h)]) = (Inr (Execution_Lease_Busy t), h1)"
      using assms letter
      by (simp add: process_once_def Inr now Let_def split: sum.splits option.splits if_splits)
    from claim_busy [OF this] show ?thesis by (elim exE conjE) (intro exI conjI, auto)
  qed
qed

text \<open>If from some point on no claim is answered \<open>Busy\<close>, the processing loop returns.\<close>

lemma processing_loop_returns:
  assumes "\<forall>g c t. env_claim E g c = Inr (Inr (Busy t)) \<longrightarrow> length g < bound"
  shows "\<exists>y. processing_loop E H show_f64 show_duration material cfg plans src h = Some y"
proof (induction "bound - length h" arbitrary: h rule: less_induct)
  case less
  obtain r h1 where once: "process_once E H show_f64 show_duration material cfg plans src h = (r, h1)"
    by force
  show ?case
  proof (cases "\<exists>t. r = Inr (Execution_Lease_Busy t)")
    case False
    then show ?thesis
      by (subst processing_loop.simps)
         (auto simp: once is_terminal_def split: sum.splits JobDisposition.splits)
  next
    case True
    then obtain t where t: "r = Inr (Execution_Lease_Busy t)" by blast
    from process_once_busy [OF once [unfolded t]] assms have "length h < bound" "length h < length h1"
      by fastforce+
    then have "bound - length (h1 @ [e]) < bound - length h" for e by simp
    with less have "\<exists>y. processing_loop E H show_f64 show_duration material cfg plans src (h1 @ [e]) = Some y"
      for e by blast
    then show ?thesis
      by (subst processing_loop.simps)
         (auto simp: once t is_terminal_def Let_def wait_run split: sum.splits)
  qed
qed

text \<open>C23: The worker does not wait for ever: if the leases of other owners end, in the sense that from
  some point of the history on no claim is answered as busy, then the worker loop returns for every
  queue.\<close>

theorem worker_loop_returns:
  assumes "\<forall>g c t. env_claim E g c = Inr (Inr (Busy t)) \<longrightarrow> length g < bound"
  shows "\<exists>h'. worker_loop E H show_f64 show_duration material cfg plans queue h = Some h'"
proof (induction queue arbitrary: h)
  case (Cons src queue)
  have "\<exists>y. process_until_terminal E H show_f64 show_duration material cfg plans src g = Some y" for g
    using processing_loop_returns [OF assms]
    by (auto simp: process_until_terminal_def split: prod.split sum.split)
  then obtain r h1 where p: "process_until_terminal E H show_f64 show_duration material cfg plans src
      (h @ [Instant_Now (env_instant E h)]) = Some (r, h1)" by force
  show ?case
    using Cons p
    by (auto simp: instant_now_def read_clock_def Let_def split: sum.split option.split prod.split bool.split)
qed simp

theorem worker_loop_returns_witness:
  "\<exists>h'. worker_loop demo_env hdr_reference (\<lambda>_. []) (\<lambda>_. []) (\<lambda>_. []) default_runtime_config
     [''scn'' \<mapsto> demo_plan] [demo_source] [] = Some h'"
  by (rule worker_loop_returns [where bound = 0]) simp

end
