(* ===== verification/Lease_Renewal.thy ===== *)
theory Lease_Renewal
  imports Worker_Settlement Execution_Lease
begin

text \<open>
  The renewal of an execution lease that runs beside a settlement, \<open>lease_renewal_until_loss\<close> of
  \<open>application/service.rs\<close>, and the relation between the local deadline of a lease and its expiry on
  the Redis server.

  A renewal round waits until the renewal is due or the local deadline has passed, renews, and
  stops when the deadline passed meanwhile, the store refused, or the reply left no budget.  The
  biased selects of the source prefer the deadline, so a round reads the clock after each wait and
  compares with the deadline first.
\<close>

record renewal =
  ren_lease :: ExecutionLease
  next_renewal_at :: instant
  lease_valid_until :: instant

definition local_deadline :: coordination_error where
  "local_deadline = Timeout ''execution_lease_local_deadline''"

definition renewal_round ::
  "('step, 'h) node_env \<Rightarrow> duration \<Rightarrow> renewal \<Rightarrow> (coordination_error, renewal) result node_action" where
  "renewal_round E interval st =
     sbind (node_sleep_until E (min (lease_valid_until st) (next_renewal_at st))) (\<lambda>_.
     sbind (instant_now E) (\<lambda>woken.
       if lease_valid_until st \<le> woken then sreturn (Inl local_deadline)
       else
         sbind (instant_now E) (\<lambda>request_started.
         sbind (store_renew E (ren_lease st)) (\<lambda>reply.
         sbind (instant_now E) (\<lambda>replied.
           if lease_valid_until st \<le> replied then sreturn (Inl local_deadline)
           else (case reply of
             Inl e \<Rightarrow> sreturn (Inl e)
           | Inr renewed \<Rightarrow>
               let renewed_valid_until =
                     conservative_lease_deadline request_started (lease_ttl renewed) interval
               in sbind (instant_now E) (\<lambda>now.
                    if renewed_valid_until \<le> now
                    then sreturn (Inl (Timeout ''execution_renew_response_budget''))
                    else sreturn (Inr
                      \<lparr>ren_lease = renewed,
                       next_renewal_at = (case instant_checked_add request_started interval of
                         None \<Rightarrow> request_started | Some t \<Rightarrow> t),
                       lease_valid_until = renewed_valid_until\<rparr>))))))))"

text \<open>The loop never ends while every renewal succeeds in time; its value is then \<open>None\<close>.\<close>

partial_function (option) lease_renewal_until_loss ::
  "('step, 'h) node_env \<Rightarrow> duration \<Rightarrow> renewal \<Rightarrow> history \<Rightarrow> (coordination_error awaited \<times> history) option" where
  "lease_renewal_until_loss E interval st h =
     (case renewal_round E interval st h of
        (Inl i, h1) \<Rightarrow> Some (Inl i, h1)
      | (Inr (Inl e), h1) \<Rightarrow> Some (Inr e, h1)
      | (Inr (Inr st'), h1) \<Rightarrow> lease_renewal_until_loss E interval st' h1)"

section \<open>Renewals\<close>

text \<open>The states the loop passes through: \<open>renewals E interval st h st' h'\<close> when some successful rounds
  lead from the state \<open>st\<close> with history \<open>h\<close> to \<open>st'\<close> with \<open>h'\<close>.\<close>

inductive renewals ::
  "('step, 'h) node_env \<Rightarrow> duration \<Rightarrow> renewal \<Rightarrow> history \<Rightarrow> renewal \<Rightarrow> history \<Rightarrow> bool"
  for E :: "('step, 'h) node_env" and interval :: duration where
  no_renewal: "renewals E interval st h st h"
| one_more: "renewals E interval st h st1 h1 \<Longrightarrow> renewal_round E interval st1 h1 = (Inr (Inr st2), h2) \<Longrightarrow>
    renewals E interval st h st2 h2"

lemma renewals_loop:
  "renewals E interval st h st' h' \<Longrightarrow>
   lease_renewal_until_loss E interval st h = lease_renewal_until_loss E interval st' h'"
proof (induction rule: renewals.induct)
  case (one_more st h st1 h1 st2 h2)
  then show ?case using lease_renewal_until_loss.simps [of E interval st1 h1] by simp
qed simp

text \<open>A successful round asks the store for the lease it keeps, after it read the instant from which
  the new deadline counts.\<close>

lemma renewal_round_reply:
  assumes "renewal_round E interval st h = (Inr (Inr st'), h')"
  shows "\<exists>g request_started. Instant_Now request_started \<in> set g \<and>
     env_renew E g (ren_lease st) = Inr (Inr (ren_lease st')) \<and>
     lease_valid_until st' = conservative_lease_deadline request_started (lease_ttl (ren_lease st')) interval"
  using assms
  by (auto simp: renewal_round_def sbind_def sreturn_def instant_now_def read_clock_def store_renew_def perform_def
      Let_def split: prod.splits sum.splits if_splits)
     (rule exI, rule exI, rule conjI [rotated], rule conjI, assumption, rule refl, simp)

section \<open>Local deadline and server expiry\<close>

text \<open>\<open>clock t\<close> is the time of the Redis server, in milliseconds, at the local instant \<open>t\<close>: it does not
  run backwards, and it does not run faster than the local clock.\<close>

definition clocks_agree :: "(instant \<Rightarrow> nat) \<Rightarrow> bool" where
  "clocks_agree clock \<longleftrightarrow> (\<forall>a b. a \<le> b \<longrightarrow> clock a \<le> clock b \<and> clock b \<le> clock a + (b - a) div 10 ^ 6 + 1)"

lemma conservative_deadline_bound:
  "conservative_lease_deadline t ttl reserve \<le> t + (ttl - reserve)"
  by (simp add: conservative_lease_deadline_def instant_checked_add_def)

lemma deadline_before_expiry:
  assumes clock: "clocks_agree clock" and order: "request_started \<le> served"
    and reserve: "2 * 10 ^ 6 \<le> reserve" and ttl: "0 < as_millis ttl"
    and now: "now < conservative_lease_deadline request_started ttl reserve"
  shows "clock now < clock served + as_millis ttl"
proof (cases "now \<le> served")
  case True
  with clock have "clock now \<le> clock served" by (auto simp: clocks_agree_def)
  with ttl show ?thesis by linarith
next
  case False
  with clock have le: "clock now \<le> clock served + (now - served) div 10 ^ 6 + 1"
    by (auto simp: clocks_agree_def)
  have "now < request_started + (ttl - reserve)"
    using now conservative_deadline_bound [of request_started ttl reserve] by linarith
  with order False reserve have "now - served + 2 * 10 ^ 6 \<le> ttl" by linarith
  then have "(now - served + 2 * 10 ^ 6) div 10 ^ 6 \<le> ttl div 10 ^ 6" by (rule div_le_mono)
  then have "(now - served) div 10 ^ 6 + 2 \<le> as_millis ttl" by (simp add: as_millis_def)
  with le show ?thesis by linarith
qed

lemma server_renew_expiry:
  assumes "redis_server R view" "store_ok store (kv_now (view s))"
    and "exec_rel (view s) (lease_key store lease) (lease_execution_key lease) (lease_attempt lease) st"
    and "fst (execution_renew R store lease net s) = Inr renewed"
  shows "lease_ttl renewed = store_lease_ttl store"
    and "lease_expires_at renewed = of_nat (kv_now (view s) + as_millis (store_lease_ttl store))"
proof -
  have "fst (execution_renew kv_redis store lease net (view s)) = Inr renewed"
    using arg_cong [OF server_run_simulates [OF redis_server.execution_renew_sim [OF assms(1)]],
      of fst store lease net s] assms(4)
    by (simp add: server_run_def)
  with renew_refined [OF assms(2,3), of net] have "renew_outcome store lease (kv_now (view s)) st = Inr renewed"
    by (auto simp: refined_def)
  then show "lease_ttl renewed = store_lease_ttl store"
    "lease_expires_at renewed = of_nat (kv_now (view s) + as_millis (store_lease_ttl store))"
    by (auto simp: renew_outcome_def split: exec_state.splits if_splits)
qed

lemma server_claim_expiry:
  assumes "redis_server R view" "store_ok store (kv_now (view s))" "trim (claim_execution_key claim) \<noteq> []"
    and "exec_rel (view s) (claim_key store claim) (claim_execution_key claim) (claim_attempt claim) st"
    and "fst (execution_claim R store claim uuid net s) = Inr (Acquired lease)"
  shows "lease_ttl lease = store_lease_ttl store"
    and "lease_expires_at lease = of_nat (kv_now (view s) + as_millis (store_lease_ttl store))"
proof -
  have "fst (execution_claim kv_redis store claim uuid net (view s)) = Inr (Acquired lease)"
    using arg_cong [OF server_run_simulates [OF redis_server.claim_sim [OF assms(1)]],
      of fst store claim uuid net s] assms(5)
    by (simp add: server_run_def)
  with claim_refined [OF assms(2-4), of uuid net]
  have "claim_outcome store claim uuid (kv_now (view s)) st = Acquired lease"
    by (auto simp: refined_def)
  then show "lease_ttl lease = store_lease_ttl store"
    "lease_expires_at lease = of_nat (kv_now (view s) + as_millis (store_lease_ttl store))"
    by (auto simp: claim_outcome_def claimed_lease_def Let_def split: exec_state.splits if_splits)
qed

section \<open>Safe deadlines\<close>

text \<open>A deadline is safe for a lease when the lease has not expired on the server before the deadline
  has passed locally.\<close>

definition deadline_safe :: "(instant \<Rightarrow> nat) \<Rightarrow> renewal \<Rightarrow> bool" where
  "deadline_safe clock st \<longleftrightarrow>
     (\<forall>now < lease_valid_until st. clock now < unat (lease_expires_at (ren_lease st)))"

text \<open>The calls of the environment that renew a lease are operations of the Redis store: one that
  succeeds was executed on some state of the server, at an instant \<open>served\<close> that is not before the
  clock readings the caller made until then.\<close>

definition renewed_by_redis ::
  "'s redis \<Rightarrow> ('s \<Rightarrow> keyspace) \<Rightarrow> RedisIdempotencyStore \<Rightarrow> (instant \<Rightarrow> nat) \<Rightarrow> ('step, 'h) node_env \<Rightarrow> bool" where
  "renewed_by_redis R view store clock E \<longleftrightarrow> (\<forall>h lease renewed. env_renew E h lease = Inr (Inr renewed) \<longrightarrow>
     (\<exists>s st net served. fst (execution_renew R store lease net s) = Inr renewed \<and>
        store_ok store (kv_now (view s)) \<and>
        exec_rel (view s) (lease_key store lease) (lease_execution_key lease) (lease_attempt lease) st \<and>
        kv_now (view s) = clock served \<and> (\<forall>t. Instant_Now t \<in> set h \<longrightarrow> t \<le> served)))"

lemma reply_deadline_safe:
  assumes "clocks_agree clock" "request_started \<le> served" "2 * 10 ^ 6 \<le> interval"
    and "store_ok store (clock served)" "lease_ttl (ren_lease st) = store_lease_ttl store"
    and "lease_expires_at (ren_lease st) = of_nat (clock served + as_millis (store_lease_ttl store))"
    and "lease_valid_until st = conservative_lease_deadline request_started (lease_ttl (ren_lease st)) interval"
  shows "deadline_safe clock st"
proof -
  have "clock served + as_millis (store_lease_ttl store) < 2 ^ 128"
    using assms(4) retention_ge [of store] unfolding store_ok_def by auto
  then have "unat (lease_expires_at (ren_lease st)) = clock served + as_millis (store_lease_ttl store)"
    unfolding assms(6) by (simp add: unsigned_of_nat take_bit_nat_eq_self)
  moreover have "0 < as_millis (store_lease_ttl store)" using assms(4) by (simp add: store_ok_def)
  ultimately show ?thesis
    using deadline_before_expiry [OF assms(1-3), of "store_lease_ttl store"] assms(5,7)
    by (simp add: deadline_safe_def)
qed

lemma renewal_round_safe:
  assumes "redis_server R view" "clocks_agree clock" "2 * 10 ^ 6 \<le> interval" "renewed_by_redis R view store clock E"
    and "renewal_round E interval st h = (Inr (Inr st'), h')"
  shows "deadline_safe clock st'"
proof -
  from renewal_round_reply [OF assms(5)] obtain g request_started where
    reply: "Instant_Now request_started \<in> set g" "env_renew E g (ren_lease st) = Inr (Inr (ren_lease st'))"
    and valid: "lease_valid_until st' = conservative_lease_deadline request_started (lease_ttl (ren_lease st')) interval"
    by blast
  from assms(4) reply obtain s prior net served where
    run: "fst (execution_renew R store (ren_lease st) net s) = Inr (ren_lease st')"
    and ok: "store_ok store (kv_now (view s))"
    and rel: "exec_rel (view s) (lease_key store (ren_lease st)) (lease_execution_key (ren_lease st))
        (lease_attempt (ren_lease st)) prior"
    and served: "kv_now (view s) = clock served" "request_started \<le> served"
    unfolding renewed_by_redis_def by blast
  from reply_deadline_safe [OF assms(2) served(2) assms(3) _ _ _ valid]
    server_renew_expiry [OF assms(1) ok rel run] ok served(1)
  show ?thesis by simp
qed

section \<open>Properties\<close>

text \<open>C24: The local lease deadline is safe through every renewal.  A worker claimed an execution on the
  Redis server and keeps the deadline counted from the start of its claim request; the store
  renews on the same server, the server clock does not outrun the local clock, and the renewal
  interval, which the deadline reserves, is at least two milliseconds.  Then whatever number of
  rounds \<open>lease_renewal_until_loss\<close> has completed, the lease it holds has not expired on the server
  as long as its local deadline has not passed, and the loop goes on from that lease and that
  deadline.  So a worker that acts before its deadline acts under a lease that no other worker can
  have taken over.\<close>

theorem local_deadline_before_server_expiry:
  assumes "redis_server R view" "clocks_agree clock" "2 * 10 ^ 6 \<le> interval"
    and "store_ok store (kv_now (view s))" "trim (claim_execution_key claim) \<noteq> []"
    and "exec_rel (view s) (claim_key store claim) (claim_execution_key claim) (claim_attempt claim) prior"
    and "fst (execution_claim R store claim uuid net s) = Inr (Acquired (ren_lease st))"
    and "claim_started \<le> served" "kv_now (view s) = clock served"
    and "lease_valid_until st = conservative_lease_deadline claim_started (lease_ttl (ren_lease st)) interval"
    and "renewed_by_redis R view store clock E"
    and "renewals E interval st h st' h'"
  shows "deadline_safe clock st' \<and>
    lease_renewal_until_loss E interval st h = lease_renewal_until_loss E interval st' h'"
proof (intro conjI renewals_loop [OF assms(12)])
  have "deadline_safe clock st"
    using reply_deadline_safe [OF assms(2,8,3) _ _ _ assms(10)] assms(4)
      server_claim_expiry [OF assms(1,4,5,6,7)] assms(9)
    by simp
  with assms(12) show "deadline_safe clock st'"
    by (cases rule: renewals.cases) (auto intro: renewal_round_safe [OF assms(1-3,11)])
qed

section \<open>A renewal\<close>

lemma clocks_agree_ms: "clocks_agree (\<lambda>t. t div 10 ^ 6)"
  unfolding clocks_agree_def
proof (intro allI impI conjI)
  fix a b :: nat assume "a \<le> b"
  then show "a div 10 ^ 6 \<le> b div 10 ^ 6" by (rule div_le_mono)
  have "a mod 10 ^ 6 < 10 ^ 6" "(b - a) mod 10 ^ 6 < 10 ^ 6" by simp_all
  then have "(a mod 10 ^ 6 + (b - a) mod 10 ^ 6) div 10 ^ 6 < 2"
    by (intro less_mult_imp_div_less) linarith
  moreover have "b div 10 ^ 6 = a div 10 ^ 6 + (b - a) div 10 ^ 6
      + (a mod 10 ^ 6 + (b - a) mod 10 ^ 6) div 10 ^ 6"
    using div_add1_eq [of a "b - a" "10 ^ 6"] \<open>a \<le> b\<close> by simp
  ultimately show "b div 10 ^ 6 \<le> a div 10 ^ 6 + (b - a) div 10 ^ 6 + 1" by linarith
qed

text \<open>The lease that is claimed at server time 0 is renewed five seconds later: the environment
  answers from a server that is at that time, as long as no later instant was read.\<close>

definition claimed_server :: keyspace where
  "claimed_server = snd (execution_claim kv_redis demo_store demo_claim ''u'' reliable empty_server)"

definition first_lease :: ExecutionLease where
  "first_lease = claimed_lease demo_store demo_claim ''u'' 30000 False"

definition renewed_lease :: ExecutionLease where
  "renewed_lease = claimed_lease demo_store demo_claim ''u'' 35000 False"

definition early :: "event \<Rightarrow> bool" where
  "early e = (case e of Instant_Now t \<Rightarrow> t \<le> 5 * 10 ^ 9 | _ \<Rightarrow> True)"

definition renewing_env :: "(unit, unit) node_env" where
  "renewing_env = \<lparr>env_now = (\<lambda>_. 0), env_instant = (\<lambda>_. 5 * 10 ^ 9), env_shutdown = (\<lambda>_. False),
     env_sleep = (\<lambda>_ _. Inl Stopped), env_sleep_until = (\<lambda>_ _. Inr ()), env_wait = (\<lambda>_ _. Inl Stopped),
     env_claim = (\<lambda>_ _. Inl Stopped),
     env_renew = (\<lambda>h lease. if lease = first_lease \<and> list_all early h
       then Inr (Inr renewed_lease) else Inl Stopped),
     env_complete = (\<lambda>_ _ _. Inl Stopped),
     env_release = (\<lambda>_ _. Inl Stopped), env_publish_job = (\<lambda>_ _ _. Inl Stopped),
     env_publish_result = (\<lambda>_ _. Inl Stopped), env_publish_failed = (\<lambda>_ _ _. Inl Stopped),
     env_publish_poison = (\<lambda>_ _. Inl Stopped), env_run = (\<lambda>_ _ _. Inl Stopped), env_commit = (\<lambda>_ _. Inl Stopped),
     env_elect = (\<lambda>_ _. Inl Stopped), env_relinquish = (\<lambda>_ _. Inl Stopped),
     env_scheduler_stopped = (\<lambda>_. Inl Stopped), env_leader = (\<lambda>_. None),
     env_leader_changed = (\<lambda>_. Inl Stopped), env_publication = (\<lambda>_ _ _. []),
     env_prepare = (\<lambda>_ _ _. Inl Stopped), env_register = (\<lambda>_ _ _. Inl Stopped),
     env_ack = (\<lambda>_ _ _ _. Inl Stopped)\<rparr>"

lemma claimed_run:
  "execution_claim kv_redis demo_store demo_claim ''u'' reliable empty_server = (Inr (Acquired first_lease), claimed_server)"
  "exec_rel claimed_server (claim_key demo_store demo_claim) ''run'' 0 (Running ''u'' 30000)"
  "kv_now claimed_server = 0"
  using refined_delivered [OF claim_refined [OF _ demo_claim_key, of demo_store empty_server NoRecord "''u''" reliable]]
    demo_store_ok
  by (simp_all add: claim_outcome_def claim_next_def demo_simps(2) first_lease_def claimed_server_def prod_eq_iff
      kv_now_def demo_claim_def)

lemma renewed_run:
  "fst (execution_renew kv_redis demo_store first_lease reliable (kv_tick 5000000 claimed_server)) = Inr renewed_lease"
  "exec_rel (kv_tick 5000000 claimed_server) (claim_key demo_store demo_claim) ''run'' 0 (Running ''u'' 30000)"
  "kv_now (kv_tick 5000000 claimed_server) = 5000" "store_ok demo_store 5000"
proof -
  let ?ks = "kv_tick 5000000 claimed_server"
  show now: "kv_now ?ks = 5000" using claimed_run(3) by (simp add: kv_now_def kv_tick_def)
  show ok: "store_ok demo_store 5000"
    by (simp add: store_ok_def demo_store_def idempotency_with_timings_def running_retention_def
        as_millis_def from_secs_def max_duration_def duration_saturating_mul_def)
  show rel: "exec_rel ?ks (claim_key demo_store demo_claim) ''run'' 0 (Running ''u'' 30000)"
    using exec_rel_tick [OF claimed_run(2) refl, of 5000000] now by auto
  have "lease_execution_key first_lease = ''run''" "lease_attempt first_lease = 0"
    "lease_key demo_store first_lease = claim_key demo_store demo_claim"
    by (simp_all add: first_lease_def claimed_lease_def demo_claim_def)
  with refined_delivered [OF renew_refined [of demo_store ?ks first_lease "Running ''u'' 30000" reliable]] now ok rel
  show "fst (execution_renew kv_redis demo_store first_lease reliable ?ks) = Inr renewed_lease"
    by (simp add: renew_outcome_def first_lease_def renewed_lease_def claimed_lease_def demo_simps(2))
qed

lemma renewing_env_served: "renewed_by_redis kv_redis id demo_store (\<lambda>t. t div 10 ^ 6) renewing_env"
  unfolding renewed_by_redis_def
proof (intro allI impI)
  fix h lease renewed assume "env_renew renewing_env h lease = Inr (Inr renewed)"
  then have l: "lease = first_lease" "renewed = renewed_lease"
    and h: "list_all early h"
    by (auto simp: renewing_env_def split: if_splits)
  from h have "\<forall>t. Instant_Now t \<in> set h \<longrightarrow> t \<le> 5 * 10 ^ 9" by (auto simp: list_all_iff early_def dest!: bspec)
  with renewed_run show "\<exists>s st net served. fst (execution_renew kv_redis demo_store lease net s) = Inr renewed \<and>
        store_ok demo_store (kv_now (id s)) \<and>
        exec_rel (id s) (lease_key demo_store lease) (lease_execution_key lease) (lease_attempt lease) st \<and>
        kv_now (id s) = served div 10 ^ 6 \<and> (\<forall>t. Instant_Now t \<in> set h \<longrightarrow> t \<le> served)"
    unfolding l
    by (intro exI [of _ "kv_tick 5000000 claimed_server"] exI [of _ "Running ''u'' 30000"] exI [of _ reliable]
        exI [of _ "5 * 10 ^ 9"])
       (simp add: first_lease_def claimed_lease_def demo_claim_def)
qed

lemma demo_deadlines:
  "lease_ttl first_lease = from_secs 30" "lease_ttl renewed_lease = from_secs 30"
  "conservative_lease_deadline 0 (from_secs 30) (10 * 10 ^ 9) = 20 * 10 ^ 9"
  "conservative_lease_deadline (5 * 10 ^ 9) (from_secs 30) (10 * 10 ^ 9) = 25 * 10 ^ 9"
  by (simp_all add: conservative_lease_deadline_def instant_checked_add_def INSTANT_LIMIT_def claimed_lease_def
      demo_store_def idempotency_with_timings_def from_secs_def first_lease_def renewed_lease_def)

lemma demo_renewal:
  "\<exists>h. renewal_round renewing_env (10 * 10 ^ 9)
     \<lparr>ren_lease = first_lease, next_renewal_at = 5 * 10 ^ 9, lease_valid_until = 20 * 10 ^ 9\<rparr> []
     = (Inr (Inr \<lparr>ren_lease = renewed_lease, next_renewal_at = 15 * 10 ^ 9, lease_valid_until = 25 * 10 ^ 9\<rparr>), h)"
  by (simp add: renewal_round_def sbind_def sreturn_def instant_now_def read_clock_def store_renew_def perform_def
      Let_def node_sleep_until_def renewing_env_def early_def demo_deadlines [simplified] instant_checked_add_def INSTANT_LIMIT_def)

theorem local_deadline_before_server_expiry_witness:
  "\<exists>st h. ren_lease st = renewed_lease \<and> lease_valid_until st = 25 * 10 ^ 9 \<and>
     renewals renewing_env (10 * 10 ^ 9)
       \<lparr>ren_lease = first_lease, next_renewal_at = 5 * 10 ^ 9, lease_valid_until = 20 * 10 ^ 9\<rparr> [] st h \<and>
     deadline_safe (\<lambda>t. t div 10 ^ 6) st"
proof -
  let ?st = "\<lparr>ren_lease = first_lease, next_renewal_at = 5 * 10 ^ 9, lease_valid_until = 20 * 10 ^ 9\<rparr>"
  let ?st' = "\<lparr>ren_lease = renewed_lease, next_renewal_at = 15 * 10 ^ 9, lease_valid_until = 25 * 10 ^ 9\<rparr>"
  from demo_renewal obtain h where round: "renewal_round renewing_env (10 * 10 ^ 9) ?st [] = (Inr (Inr ?st'), h)" ..
  from one_more [OF no_renewal round] have path: "renewals renewing_env (10 * 10 ^ 9) ?st [] ?st' h" .
  have "deadline_safe (\<lambda>t. t div 10 ^ 6) ?st' \<and> lease_renewal_until_loss renewing_env (10 * 10 ^ 9) ?st []
      = lease_renewal_until_loss renewing_env (10 * 10 ^ 9) ?st' h"
    by (rule local_deadline_before_server_expiry [OF kv.redis_server_axioms clocks_agree_ms _ _ demo_claim_key,
          of _ demo_store empty_server NoRecord "''u''" reliable ?st 0 0])
       (use demo_store_ok claimed_run(1) demo_deadlines renewing_env_served path in simp_all)
  with path show ?thesis by (intro exI [of _ ?st'] exI [of _ h]) simp
qed

end
