(* ===== verification/Scheduler.thy ===== *)
theory Scheduler
  imports Node_Runtime Dispatch_Ledger
begin

text \<open>
  The leader loops of \<open>application/service.rs\<close>: \<open>leader_election_loop\<close> keeps the leadership of a node
  observed by its scheduler current, and \<open>scheduler_loop\<close> dispatches the due windows of every scenario
  while the node leads.

  The plans of a node are a hash map; they are given as the list of its entries in the order of the
  iteration.  Both loops run until a shutdown, so their value is \<open>None\<close> when they never end.
\<close>

section \<open>Leader election\<close>

text \<open>One iteration: the lease of this node after it, and whether the loop goes on.\<close>

definition election_iteration ::
  "('step, 'h) node_env \<Rightarrow> duration \<Rightarrow> LeaderLease option \<Rightarrow> (LeaderLease option \<times> bool) node_action" where
  "election_iteration E renew_interval current =
     sbind (instant_now E) (\<lambda>request_started.
     sbind (elector_acquire_or_renew E current) (\<lambda>reply.
       let wait_rest = (\<lambda>lease interval.
             sbind (instant_now E) (\<lambda>now.
             sbind (wait_or_shutdown E (interval_remaining request_started interval now)) (\<lambda>stop.
               sreturn (lease, \<not> stop))));
           observed = (\<lambda>lease.
             let o1 = observed_leader_lease lease renew_interval request_started
             in sbind (instant_now E) (\<lambda>now.
                sbind (send_leader (if valid_until o1 > now then Some o1 else None)) (\<lambda>_.
                  wait_rest (Some lease) renew_interval)))
       in case reply of
            Inr (LeaderAcquired lease) \<Rightarrow> observed lease
          | Inr (LeaderRenewed lease) \<Rightarrow> observed lease
          | Inr (Follower retry_after) \<Rightarrow>
              sbind (send_leader None) (\<lambda>_. wait_rest None (min retry_after renew_interval))
          | Inl _ \<Rightarrow> sbind (send_leader None) (\<lambda>_. wait_rest None renew_interval)))"

text \<open>After the loop the observation is withdrawn, the scheduler gets two renewal intervals to stop,
  and the lease is given back.\<close>

definition election_shutdown :: "('step, 'h) node_env \<Rightarrow> LeaderLease option \<Rightarrow> unit node_action" where
  "election_shutdown E current =
     sbind (send_leader None) (\<lambda>_.
     sbind (await_scheduler_stopped E) (\<lambda>_.
       case current of
         None \<Rightarrow> sreturn ()
       | Some lease \<Rightarrow> sbind (elector_relinquish E lease) (\<lambda>_. sreturn ())))"

partial_function (option) leader_election_loop ::
  "('step, 'h) node_env \<Rightarrow> duration \<Rightarrow> LeaderLease option \<Rightarrow> history \<Rightarrow> (unit awaited \<times> history) option" where
  "leader_election_loop E renew_interval current h =
     (if env_shutdown E h then Some (election_shutdown E current h)
      else case election_iteration E renew_interval current h of
        (Inl i, h1) \<Rightarrow> Some (Inl i, h1)
      | (Inr (next, proceed), h1) \<Rightarrow>
          if proceed then leader_election_loop E renew_interval next h1
          else Some (election_shutdown E next h1))"

section \<open>Currency of the observed leadership\<close>

definition same_leader :: "ObservedLeaderLease \<Rightarrow> ObservedLeaderLease \<Rightarrow> bool" where
  "same_leader a b \<longleftrightarrow> leader_token (obs_lease a) = leader_token (obs_lease b) \<and>
     fencing_token (obs_lease a) = fencing_token (obs_lease b)"

definition leader_identity_is_current ::
  "('step, 'h) node_env \<Rightarrow> ObservedLeaderLease \<Rightarrow> bool node_action" where
  "leader_identity_is_current E expected =
     sbind (observe_leader E) (\<lambda>o1. sreturn (case o1 of None \<Rightarrow> False | Some current \<Rightarrow> same_leader current expected))"

definition lease_is_current :: "('step, 'h) node_env \<Rightarrow> ObservedLeaderLease \<Rightarrow> bool node_action" where
  "lease_is_current E expected =
     sbind (leader_identity_is_current E expected) (\<lambda>same.
       if \<not> same then sreturn False
       else sbind (observe_leader E) (\<lambda>o1. case o1 of
         None \<Rightarrow> sreturn False
       | Some current \<Rightarrow> sbind (instant_now E) (\<lambda>now. sreturn (valid_until current > now))))"

text \<open>\<open>shutdown_requested(..) || !lease_is_current(..)\<close>\<close>

definition dispatch_fenced :: "('step, 'h) node_env \<Rightarrow> ObservedLeaderLease \<Rightarrow> bool node_action" where
  "dispatch_fenced E leader =
     sbind (shutdown_requested E) (\<lambda>stop.
       if stop then sreturn True
       else sbind (lease_is_current E leader) (\<lambda>current. sreturn (\<not> current)))"

section \<open>Dispatch\<close>

definition dispatch_spec ::
  "('step \<Rightarrow> string) \<Rightarrow> u32 \<Rightarrow> usize \<Rightarrow> string \<Rightarrow> 'step ScenarioExecutionPlan \<Rightarrow> DispatchSpec" where
  "dispatch_spec material max_retries burst scenario_id plan =
     (let slices = scenario_slices (plan_scenario plan)
      in \<lparr>spec_scenario_id = scenario_id, spec_contract_version = CURRENT_CONTRACT_VERSION,
          spec_total_slices = slices, spec_repeat = sc_repeat (sc_config (plan_scenario plan)),
          spec_plan_fingerprint = execution_plan_fingerprint material plan slices burst max_retries\<rparr>)"

definition scheduled_job ::
  "u32 \<Rightarrow> usize \<Rightarrow> string \<Rightarrow> 'step ScenarioExecutionPlan \<Rightarrow> DispatchWindow \<Rightarrow> u32 \<Rightarrow> string \<Rightarrow> ScenarioJob" where
  "scheduled_job max_retries burst scenario_id plan w slice_index ek =
     \<lparr>job_schema_version = win_contract_version w, job_scenario_id = scenario_id,
      job_run_id = win_run_id w, job_execution_key = ek, job_plan_fingerprint = win_plan_fingerprint w,
      scheduled_at_unix_ms = win_scheduled_at w, not_before_unix_ms = 0,
      job_slice = \<lparr>index = slice_index, slice_total = win_total_slices w\<rparr>,
      load = slice_load (plan_scenario plan) (win_total_slices w) slice_index burst,
      job_attempt = 0, job_max_retries = max_retries\<rparr>"

text \<open>The publication of a job is raced against a shutdown, the local leadership deadline and changes
  of the leadership.  A renewal by the same leader moves the deadline; everything else drops the
  publication.  \<open>None\<close> leaves the dispatch round.\<close>

definition drop_publication :: "string \<Rightarrow> ScenarioJob \<Rightarrow> 'a option node_action" where
  "drop_publication key job = sbind (read_clock (\<lambda>_. ()) (\<lambda>_. Job_Published key job (Inl Stopped)))
     (\<lambda>_. sreturn None)"

fun await_publication ::
  "('step, 'h) node_env \<Rightarrow> string \<Rightarrow> ScenarioJob \<Rightarrow> ObservedLeaderLease \<Rightarrow> publication_wake list
     \<Rightarrow> (ObservedLeaderLease \<times> (string, unit) result) option node_action" where
  "await_publication E key job leader [] = serror Stopped"
| "await_publication E key job leader (wake # wakes) = (case wake of
     Wake_Shutdown \<Rightarrow> drop_publication key job
   | Wake_Expired \<Rightarrow> drop_publication key job
   | Wake_Leader_Changed is_closed \<Rightarrow>
       if is_closed then drop_publication key job
       else sbind (leader_identity_is_current E leader) (\<lambda>same.
         if \<not> same then drop_publication key job
         else sbind (observe_leader E) (\<lambda>o1. case o1 of
           None \<Rightarrow> serror Stopped
         | Some renewed \<Rightarrow> await_publication E key job renewed wakes))
   | Wake_Published r \<Rightarrow>
       sbind (read_clock (\<lambda>_. ()) (\<lambda>_. Job_Published key job (Inr r))) (\<lambda>_. sreturn (Some (leader, r))))"

definition publish_slice ::
  "('step, 'h) node_env \<Rightarrow> string \<Rightarrow> ScenarioJob \<Rightarrow> ObservedLeaderLease
     \<Rightarrow> (ObservedLeaderLease \<times> (string, unit) result) option node_action" where
  "publish_slice E key job leader h = await_publication E key job leader (env_publication E h key job) h"

text \<open>How the slices of a window end: the round is left (\<open>continue 'scheduler\<close>), or the next scenario
  follows.\<close>

datatype round_end =
    Leave_Round
  | Next_Scenario ObservedLeaderLease

fun dispatch_slices ::
  "('step, 'h) node_env \<Rightarrow> u32 \<Rightarrow> usize \<Rightarrow> string \<Rightarrow> 'step ScenarioExecutionPlan \<Rightarrow> DispatchWindow
     \<Rightarrow> ObservedLeaderLease \<Rightarrow> u32 list \<Rightarrow> round_end node_action" where
  "dispatch_slices E max_retries burst scenario_id plan w leader [] = sreturn (Next_Scenario leader)"
| "dispatch_slices E max_retries burst scenario_id plan w leader (i # slices) =
     sbind (dispatch_fenced E leader) (\<lambda>fenced.
       if fenced then sreturn Leave_Round
       else case execution_key w i of
         None \<Rightarrow> sreturn Leave_Round
       | Some ek \<Rightarrow>
           let job = scheduled_job max_retries burst scenario_id plan w i ek
           in sbind (publish_slice E (key_for (sc_partition (sc_config (plan_scenario plan))) job) job leader)
             (\<lambda>published. case published of
                None \<Rightarrow> sreturn Leave_Round
              | Some (leader', Inl _) \<Rightarrow> sreturn (Next_Scenario leader')
              | Some (leader', Inr _) \<Rightarrow>
                  sbind (store_ack E w i (obs_lease leader')) (\<lambda>reply. case reply of
                    Inr _ \<Rightarrow> dispatch_slices E max_retries burst scenario_id plan w leader' slices
                  | Inl (StaleOwner _) \<Rightarrow> sreturn Leave_Round
                  | Inl _ \<Rightarrow> sreturn (Next_Scenario leader'))))"

definition dispatch_window ::
  "('step, 'h) node_env \<Rightarrow> u32 \<Rightarrow> usize \<Rightarrow> string \<Rightarrow> 'step ScenarioExecutionPlan \<Rightarrow> DispatchWindow
     \<Rightarrow> ObservedLeaderLease \<Rightarrow> round_end node_action" where
  "dispatch_window E max_retries burst scenario_id plan w leader =
     sbind (now_unix_ms E) (\<lambda>_.
     sbind (lease_is_current E leader) (\<lambda>current.
       if \<not> current then sreturn Leave_Round
       else sbind (store_register E w (sc_duration (sc_config (plan_scenario plan)))) (\<lambda>reply. case reply of
         Inl _ \<Rightarrow> sreturn (Next_Scenario leader)
       | Inr _ \<Rightarrow> dispatch_slices E max_retries burst scenario_id plan w leader (win_missing_slices w))))"

definition dispatch_scenario ::
  "('step, 'h) node_env \<Rightarrow> ('step \<Rightarrow> string) \<Rightarrow> u32 \<Rightarrow> usize \<Rightarrow> string \<Rightarrow> 'step ScenarioExecutionPlan
     \<Rightarrow> ObservedLeaderLease \<Rightarrow> round_end node_action" where
  "dispatch_scenario E material max_retries burst scenario_id plan leader =
     sbind (dispatch_fenced E leader) (\<lambda>fenced.
       if fenced then sreturn Leave_Round
       else sbind (store_prepare E (dispatch_spec material max_retries burst scenario_id plan) (obs_lease leader))
         (\<lambda>reply. case reply of
            Inr (Ready w) \<Rightarrow> dispatch_window E max_retries burst scenario_id plan w leader
          | Inr (NotDue _) \<Rightarrow> sreturn (Next_Scenario leader)
          | Inr Finished \<Rightarrow> sreturn (Next_Scenario leader)
          | Inl (StaleOwner _) \<Rightarrow> sreturn Leave_Round
          | Inl _ \<Rightarrow> sreturn (Next_Scenario leader)))"

fun dispatch_round ::
  "('step, 'h) node_env \<Rightarrow> ('step \<Rightarrow> string) \<Rightarrow> u32 \<Rightarrow> usize \<Rightarrow> (string \<times> 'step ScenarioExecutionPlan) list
     \<Rightarrow> ObservedLeaderLease \<Rightarrow> round_end node_action" where
  "dispatch_round E material max_retries burst [] leader = sreturn (Next_Scenario leader)"
| "dispatch_round E material max_retries burst ((scenario_id, plan) # plans) leader =
     sbind (dispatch_scenario E material max_retries burst scenario_id plan leader) (\<lambda>r. case r of
       Leave_Round \<Rightarrow> sreturn Leave_Round
     | Next_Scenario leader' \<Rightarrow> dispatch_round E material max_retries burst plans leader')"

text \<open>One iteration of the loop: whether it goes on.\<close>

definition scheduler_iteration ::
  "('step, 'h) node_env \<Rightarrow> ('step \<Rightarrow> string) \<Rightarrow> duration \<Rightarrow> u32 \<Rightarrow> usize
     \<Rightarrow> (string \<times> 'step ScenarioExecutionPlan) list \<Rightarrow> bool node_action" where
  "scheduler_iteration E material tick_interval max_retries burst plans =
     sbind (observe_leader E) (\<lambda>o1. case o1 of
       None \<Rightarrow> sbind (await_leader_changed E) (\<lambda>is_closed. sreturn (\<not> is_closed))
     | Some leader \<Rightarrow>
         sbind (dispatch_round E material max_retries burst plans leader) (\<lambda>r. case r of
           Leave_Round \<Rightarrow> sreturn True
         | Next_Scenario _ \<Rightarrow> sbind (wait_or_shutdown E tick_interval) (\<lambda>stop. sreturn (\<not> stop))))"

partial_function (option) scheduler_loop ::
  "('step, 'h) node_env \<Rightarrow> ('step \<Rightarrow> string) \<Rightarrow> duration \<Rightarrow> u32 \<Rightarrow> usize
     \<Rightarrow> (string \<times> 'step ScenarioExecutionPlan) list \<Rightarrow> history \<Rightarrow> (unit awaited \<times> history) option" where
  "scheduler_loop E material tick_interval max_retries burst plans h =
     (if env_shutdown E h then Some (Inr (), h)
      else case scheduler_iteration E material tick_interval max_retries burst plans h of
        (Inl i, h1) \<Rightarrow> Some (Inl i, h1)
      | (Inr proceed, h1) \<Rightarrow>
          if proceed then scheduler_loop E material tick_interval max_retries burst plans h1
          else Some (Inr (), h1))"

section \<open>The discipline of the scheduler\<close>

text \<open>The last calls checked \<open>leader\<close> as \<open>lease_is_current\<close> does: the observed leadership had its owner
  and its fence, and then a local deadline ahead; only observations of the leadership followed.\<close>

definition led :: "ObservedLeaderLease \<Rightarrow> history \<Rightarrow> bool" where
  "led leader h \<longleftrightarrow> (\<exists>g a b now ws. h = g @ [Saw_Leader (Some a), Saw_Leader (Some b), Instant_Now now] @ ws \<and>
     same_leader a leader \<and> now < valid_until b \<and> (\<forall>e \<in> set ws. \<exists>o1. e = Saw_Leader o1))"

text \<open>The leadership that is observed can change between two readings that follow each other.  The
  scheduler compares the first one with its lease and takes over the second one.\<close>

definition torn :: "history \<Rightarrow> bool" where
  "torn h \<longleftrightarrow> (\<exists>g a b g'. h = g @ [Saw_Leader (Some a), Saw_Leader (Some b)] @ g' \<and> \<not> same_leader b a)"

text \<open>\<open>leader\<close> has the owner and the fence of the lease \<open>l\<close>.\<close>

definition heir :: "LeaderLease \<Rightarrow> ObservedLeaderLease \<Rightarrow> history \<Rightarrow> bool" where
  "heir l leader h \<longleftrightarrow> leader_token (obs_lease leader) = leader_token l \<and>
     fencing_token (obs_lease leader) = fencing_token l \<or> torn h"

definition registered :: "DispatchWindow \<Rightarrow> history \<Rightarrow> bool" where
  "registered w h \<longleftrightarrow> (\<exists>d. Registered w d (Inr (Inr ())) \<in> set h)"

text \<open>The ledger reported slice \<open>i\<close> of the window \<open>w\<close> missing to the leader with the lease \<open>l\<close>.\<close>

definition missing :: "LeaderLease \<Rightarrow> DispatchWindow \<Rightarrow> u32 \<Rightarrow> history \<Rightarrow> bool" where
  "missing l w i h \<longleftrightarrow> (\<exists>spec. Prepared spec l (Inr (Inr (Ready w))) \<in> set h) \<and> i \<in> set (win_missing_slices w)"

definition slice_job :: "DispatchWindow \<Rightarrow> u32 \<Rightarrow> ScenarioJob \<Rightarrow> bool" where
  "slice_job w i j \<longleftrightarrow> execution_key w i = Some (job_execution_key j) \<and> job_run_id j = win_run_id w \<and>
     job_slice j = \<lparr>index = i, slice_total = win_total_slices w\<rparr> \<and> job_attempt j = 0"

definition scheduler_ok :: "history \<Rightarrow> event \<Rightarrow> bool" where
  "scheduler_ok h e = (case e of
     Registered w d _ \<Rightarrow> \<exists>spec l. Prepared spec l (Inr (Inr (Ready w))) \<in> set h
   | Job_Published k j _ \<Rightarrow>
       \<exists>l w i leader. missing l w i h \<and> registered w h \<and> slice_job w i j \<and> led leader h \<and> heir l leader h
   | Acked w i l _ \<Rightarrow>
       \<exists>k j. Job_Published k j (Inr (Inr ())) \<in> set h \<and> slice_job w i j
   | _ \<Rightarrow> True)"

lemma scheduler_ok_simps [simp]:
  "scheduler_ok h (Now t)" "scheduler_ok h (Instant_Now i)" "scheduler_ok h (Waited d wr)"
  "scheduler_ok h (Saw_Leader o1)" "scheduler_ok h (Leader_Changed c)" "scheduler_ok h (Prepared s l pr)"
  by (simp_all add: scheduler_ok_def)

lemma stable_registered [simp, intro]: "stable (registered w)"
  by (auto simp: stable_def registered_def)

lemma stable_missing [simp, intro]: "stable (missing l w i)"
  by (auto simp: stable_def missing_def)

lemma stable_torn [simp, intro]: "stable torn"
  unfolding stable_def torn_def by (metis append_assoc)

lemma stable_heir [simp, intro]: "stable (heir l leader)"
  using stable_torn by (auto simp: stable_def heir_def)

lemma led_observe: "led leader h \<Longrightarrow> led leader (h @ [Saw_Leader o1])"
  unfolding led_def
proof (elim exE conjE)
  fix g a b now ws
  assume "h = g @ [Saw_Leader (Some a), Saw_Leader (Some b), Instant_Now now] @ ws" "same_leader a leader"
    "now < valid_until b" "\<forall>e \<in> set ws. \<exists>o1. e = Saw_Leader o1"
  then show "\<exists>g a b now ws. h @ [Saw_Leader o1]
      = g @ [Saw_Leader (Some a), Saw_Leader (Some b), Instant_Now now] @ ws \<and> same_leader a leader \<and>
      now < valid_until b \<and> (\<forall>e \<in> set ws. \<exists>o1. e = Saw_Leader o1)"
    by (intro exI [of _ g] exI [of _ a] exI [of _ b] exI [of _ now] exI [of _ "ws @ [Saw_Leader o1]"]) auto
qed

text \<open>A lease that is taken over after a comparison with the first reading.\<close>

lemma heir_renewed:
  assumes "heir l leader h" "h = g @ [Saw_Leader (Some a)]" "same_leader a leader"
  shows "heir l renewed (h @ [Saw_Leader (Some renewed)])"
proof (cases "same_leader renewed a")
  case True
  with assms stable_torn show ?thesis by (auto simp: heir_def same_leader_def stable_def)
next
  case False
  with assms(2) have "torn (h @ [Saw_Leader (Some renewed)])"
    unfolding torn_def by (intro exI [of _ g] exI [of _ a] exI [of _ renewed] exI [of _ "[]"]) simp
  then show ?thesis by (simp add: heir_def)
qed

abbreviation sched where "sched \<equiv> triple scheduler_ok"

lemma observe_triple: "stable P \<Longrightarrow> sched P (observe_leader E) (\<lambda>_. P)"
  unfolding observe_leader_def by (intro triple_rules; auto simp: stable_def)

lemma identity_triple:
  assumes "stable P"
  shows "sched (\<lambda>h. P h \<and> led L h) (leader_identity_is_current E leader)
    (\<lambda>same h. P h \<and> led L h \<and> (same \<longrightarrow> (\<exists>g a. h = g @ [Saw_Leader (Some a)] \<and> same_leader a leader)))"
proof -
  have "sched (\<lambda>h. P h \<and> led L h) (observe_leader E) (\<lambda>o1 h. P h \<and> led L h \<and> (\<exists>g. h = g @ [Saw_Leader o1]))"
    unfolding observe_leader_def using assms by (intro triple_rules) (auto simp: stable_def led_observe)
  then show ?thesis
    unfolding leader_identity_is_current_def
    by (rule triple_bind) (auto intro!: triple_return split: option.split)
qed

lemma renewal_triple:
  assumes "stable P"
  shows "sched (\<lambda>h. P h \<and> heir l leader h \<and> led L h \<and> (\<exists>g a. h = g @ [Saw_Leader (Some a)] \<and> same_leader a leader))
    (observe_leader E) (\<lambda>o1 h. P h \<and> led L h \<and> (\<forall>renewed. o1 = Some renewed \<longrightarrow> heir l renewed h))"
  unfolding observe_leader_def using assms
  by (intro triple_rules) (auto simp: stable_def led_observe intro: heir_renewed)

lemma lease_is_current_triple:
  assumes "stable P"
  shows "sched P (lease_is_current E leader) (\<lambda>current h. P h \<and> (current \<longrightarrow> led leader h))"
proof -
  let ?A = "\<lambda>o1 h. P h \<and> (\<exists>g. h = g @ [Saw_Leader o1])"
  let ?S = "\<lambda>same h. P h \<and> (same \<longrightarrow> (\<exists>g a. h = g @ [Saw_Leader (Some a)] \<and> same_leader a leader))"
  let ?B = "\<lambda>o1 h. P h \<and> (\<exists>g a. h = g @ [Saw_Leader (Some a), Saw_Leader o1] \<and> same_leader a leader)"
  let ?N = "\<lambda>b now h. P h \<and> (\<exists>g a. h = g @ [Saw_Leader (Some a), Saw_Leader (Some b), Instant_Now now] \<and>
    same_leader a leader)"
  have look: "sched P (observe_leader E) ?A"
    unfolding observe_leader_def using assms by (intro triple_rules) (auto simp: stable_def)
  have same: "sched P (leader_identity_is_current E leader) ?S"
    unfolding leader_identity_is_current_def
    by (rule triple_bind [OF look]) (auto intro!: triple_return split: option.split)
  have again: "sched (?S True) (observe_leader E) ?B"
    unfolding observe_leader_def using assms by (intro triple_rules) (auto simp: stable_def)
  have now: "sched (?B (Some b)) (instant_now E) (?N b)" for b
    unfolding instant_now_def using assms by (intro triple_rules) (auto simp: stable_def)
  have decide: "sched (?N b t) (sreturn (valid_until b > t)) (\<lambda>current h. P h \<and> (current \<longrightarrow> led leader h))" for b t
    by (rule triple_return) (force simp: led_def)
  have check: "sched (?S True) (sbind (observe_leader E) (\<lambda>o1. case o1 of
        None \<Rightarrow> sreturn False
      | Some current \<Rightarrow> sbind (instant_now E) (\<lambda>now. sreturn (valid_until current > now))))
      (\<lambda>current h. P h \<and> (current \<longrightarrow> led leader h))"
    by (rule triple_bind [OF again]) (auto intro!: triple_return triple_bind [OF now decide] split: option.split)
  show ?thesis
    unfolding lease_is_current_def
    by (rule triple_bind [OF same]) (use check in \<open>auto intro!: triple_return triple_if\<close>)
qed

lemma dispatch_fenced_triple:
  assumes "stable P"
  shows "sched P (dispatch_fenced E leader) (\<lambda>fenced h. P h \<and> (\<not> fenced \<longrightarrow> led leader h))"
proof -
  have stop: "sched P (shutdown_requested E) (\<lambda>_. P)"
    by (auto simp: triple_def shutdown_requested_def)
  show ?thesis
    unfolding dispatch_fenced_def
    by (intro triple_bind [OF stop] triple_if triple_return triple_bind [OF lease_is_current_triple [OF assms]])
       auto
qed

text \<open>After a publication: the broker's acknowledgement is on record, and the lease that goes on is
  still the one of the ledger's report.\<close>

definition reply_logged ::
  "LeaderLease \<Rightarrow> string \<Rightarrow> ScenarioJob \<Rightarrow> (ObservedLeaderLease \<times> (string, unit) result) option \<Rightarrow> history \<Rightarrow> bool" where
  "reply_logged l key job r h = (case r of
     None \<Rightarrow> True
   | Some (leader, reply) \<Rightarrow> heir l leader h \<and>
       (is_ok reply \<longrightarrow> Job_Published key job (Inr (Inr ())) \<in> set h))"

lemma reply_logged_simps [simp]:
  "reply_logged l key job None h" "reply_logged l key job (Some (leader, Inl e)) h \<longleftrightarrow> heir l leader h"
  "reply_logged l key job (Some (leader, Inr u)) h \<longleftrightarrow>
     heir l leader h \<and> Job_Published key job (Inr (Inr ())) \<in> set h"
  by (simp_all add: reply_logged_def)

lemma await_publication_triple:
  assumes "stable P" "\<And>h. P h \<Longrightarrow> missing l w i h \<and> registered w h \<and> slice_job w i job \<and> heir l L h"
  shows "sched (\<lambda>h. (P h \<and> heir l leader h) \<and> led L h) (await_publication E key job leader wakes)
    (\<lambda>r h. P h \<and> reply_logged l key job r h)"
proof (induction wakes arbitrary: leader)
  case Nil
  show ?case unfolding await_publication.simps by (rule triple_error)
next
  case (Cons wake wakes)
  let ?P = "\<lambda>h. P h \<and> heir l leader h" and ?Q = "\<lambda>r h. P h \<and> reply_logged l key job r h"
  have stable: "stable ?P" using assms(1) by simp
  have log: "sched (\<lambda>h. ?P h \<and> led L h) (read_clock (\<lambda>_. ()) (\<lambda>_. Job_Published key job r))
      (\<lambda>_ h. ?P h \<and> Job_Published key job r \<in> set h)" for r
  proof (intro triple_read_clock conjI)
    fix h assume h: "?P h \<and> led L h"
    with assms(2) [of h] show "scheduler_ok h (Job_Published key job r)"
      unfolding scheduler_ok_def event.case by blast
    show "P (h @ [Job_Published key job r])" "heir l leader (h @ [Job_Published key job r])"
      using h stable by (auto simp: stable_def)
  qed simp
  have drop: "sched (\<lambda>h. ?P h \<and> led L h) (drop_publication key job) ?Q"
    unfolding drop_publication_def by (rule triple_bind [OF log]) (auto intro!: triple_return)
  have published: "sched (\<lambda>h. ?P h \<and> led L h)
      (sbind (read_clock (\<lambda>_. ()) (\<lambda>_. Job_Published key job (Inr r))) (\<lambda>_. sreturn (Some (leader, r)))) ?Q" for r
    by (rule triple_bind [OF log], rule triple_return) (cases r; simp)
  have renewed: "sched (\<lambda>h. ?P h \<and> led L h \<and> (\<exists>g a. h = g @ [Saw_Leader (Some a)] \<and> same_leader a leader))
      (sbind (observe_leader E) (\<lambda>o1. case o1 of
         None \<Rightarrow> serror Stopped | Some renewed \<Rightarrow> await_publication E key job renewed wakes)) ?Q"
    by (rule triple_bind, rule triple_weaken [OF renewal_triple [OF assms(1)]], blast, assumption,
        rule triple_option, rule triple_error, rule triple_weaken [OF Cons]) auto
  have changed: "sched (\<lambda>h. ?P h \<and> led L h) (sbind (leader_identity_is_current E leader) (\<lambda>same.
         if \<not> same then drop_publication key job
         else sbind (observe_leader E) (\<lambda>o1. case o1 of
           None \<Rightarrow> serror Stopped
         | Some renewed \<Rightarrow> await_publication E key job renewed wakes))) ?Q"
    by (rule triple_bind [OF identity_triple [OF stable]], rule triple_if, rule triple_weaken [OF drop], simp,
        assumption, rule triple_weaken [OF renewed]) auto
  show ?case
    unfolding await_publication.simps
    using drop published changed by (cases wake) (simp_all add: conj_assoc)
qed

lemma publish_slice_triple:
  assumes "stable P" "\<And>h. P h \<Longrightarrow> missing l w i h \<and> registered w h \<and> slice_job w i job \<and> heir l leader h"
  shows "sched (\<lambda>h. P h \<and> led leader h) (publish_slice E key job leader) (\<lambda>r h. P h \<and> reply_logged l key job r h)"
  using await_publication_triple [OF assms, of leader E key] assms(2)
  unfolding triple_def publish_slice_def by blast

lemma slice_job_scheduled:
  "execution_key w i = Some ek \<Longrightarrow> slice_job w i (scheduled_job m b s p w i ek)"
  by (simp add: slice_job_def scheduled_job_def)

text \<open>The window that is being dispatched: the ledger reported it to the leader with the lease \<open>l\<close>, and
  its run is registered.\<close>

definition dispatching :: "LeaderLease \<Rightarrow> DispatchWindow \<Rightarrow> history \<Rightarrow> bool" where
  "dispatching l w h \<longleftrightarrow> (\<exists>spec. Prepared spec l (Inr (Inr (Ready w))) \<in> set h) \<and> registered w h"

lemma stable_dispatching [simp, intro]: "stable (dispatching l w)"
  by (auto simp: stable_def dispatching_def registered_def)

lemma ack_triple:
  assumes "execution_key w i = Some ek"
  shows "sched (\<lambda>h. (dispatching l w h \<and> heir l leader h) \<and>
      Job_Published k (scheduled_job m b s p w i ek) (Inr (Inr ())) \<in> set h)
    (store_ack E w i lease) (\<lambda>_ h. dispatching l w h \<and> heir l leader h)"
  unfolding store_ack_def
proof (rule triple_perform, intro conjI allI impI)
  fix h r
  assume h: "(dispatching l w h \<and> heir l leader h) \<and>
      Job_Published k (scheduled_job m b s p w i ek) (Inr (Inr ())) \<in> set h"
  with slice_job_scheduled [OF assms, of m b s p] show "scheduler_ok h (Acked w i lease r)"
    unfolding scheduler_ok_def event.case by blast
  show "dispatching l w (h @ [Acked w i lease r])" "heir l leader (h @ [Acked w i lease r])"
    using h stable_dispatching [of l w] stable_heir [of l leader] by (auto simp: stable_def)
qed

lemma dispatch_slices_triple:
  "set slices \<subseteq> set (win_missing_slices w) \<Longrightarrow>
   sched (\<lambda>h. dispatching l w h \<and> heir l leader h) (dispatch_slices E m b s p w leader slices) (\<lambda>_ _. True)"
proof (induction slices arbitrary: leader)
  case Nil
  show ?case unfolding dispatch_slices.simps by (rule triple_return) simp
next
  case (Cons i slices)
  let ?D = "\<lambda>leader h. dispatching l w h \<and> heir l leader h"
  let ?key = "\<lambda>ek. key_for (sc_partition (sc_config (plan_scenario p))) (scheduled_job m b s p w i ek)"
  have publish: "sched (\<lambda>h. ?D leader h \<and> (\<not> False \<longrightarrow> led leader h))
      (publish_slice E (?key ek) (scheduled_job m b s p w i ek) leader)
      (\<lambda>r h. ?D leader h \<and> reply_logged l (?key ek) (scheduled_job m b s p w i ek) r h)"
    if "execution_key w i = Some ek" for ek
    by (rule triple_weaken [OF publish_slice_triple [of "?D leader" l w i]])
       (use slice_job_scheduled [OF that] Cons.prems in \<open>auto simp: dispatching_def missing_def\<close>)
  have acked: "sched (\<lambda>h. ?D leader h \<and> reply_logged l k (scheduled_job m b s p w i ek) x h)
      (case x of None \<Rightarrow> sreturn Leave_Round
       | Some (l', Inl _) \<Rightarrow> sreturn (Next_Scenario l')
       | Some (l', Inr _) \<Rightarrow> sbind (store_ack E w i (obs_lease l')) (\<lambda>reply. case reply of
           Inr _ \<Rightarrow> dispatch_slices E m b s p w l' slices
         | Inl (StaleOwner _) \<Rightarrow> sreturn Leave_Round
         | Inl _ \<Rightarrow> sreturn (Next_Scenario l'))) (\<lambda>_ _. True)"
    if "execution_key w i = Some ek" for ek k x
  proof (cases "\<exists>l' u. x = Some (l', Inr u)")
    case False
    then show ?thesis by (auto intro!: triple_return split: option.split prod.split sum.split)
  next
    case True
    then obtain l' u where x: "x = Some (l', Inr u)" by blast
    have cont: "sched (?D l') (case reply of
           Inr _ \<Rightarrow> dispatch_slices E m b s p w l' slices
         | Inl (StaleOwner _) \<Rightarrow> sreturn Leave_Round
         | Inl _ \<Rightarrow> sreturn (Next_Scenario l')) (\<lambda>_ _. True)" for reply
      using Cons by (auto intro!: triple_return split: sum.split coordination_error.split)
    show ?thesis
      unfolding x option.case prod.case sum.case
      by (rule triple_weaken [OF triple_bind [OF ack_triple [OF that] cont]]) auto
  qed
  show ?case
    unfolding dispatch_slices.simps Let_def
    by (rule triple_bind [OF dispatch_fenced_triple], simp, rule triple_if, rule triple_return, simp,
        rule triple_option, rule triple_return, simp, rule triple_weaken [OF triple_bind [OF publish acked]])
       auto
qed

text \<open>The window of a report of the ledger.\<close>

abbreviation reported :: "LeaderLease \<Rightarrow> DispatchWindow \<Rightarrow> history \<Rightarrow> bool" where
  "reported l w h \<equiv> \<exists>spec. Prepared spec l (Inr (Inr (Ready w))) \<in> set h"

lemma register_triple:
  "sched (reported l w) (store_register E w d) (\<lambda>r h. is_ok r \<longrightarrow> dispatching l w h)"
  unfolding store_register_def
proof (rule triple_perform, intro conjI allI impI)
  fix h r assume rep: "reported l w h"
  then show "scheduler_ok h (Registered w d r)" by (auto simp: scheduler_ok_def)
  fix x :: "(coordination_error, unit) result" assume "r = Inr x" "is_ok x"
  then have "r = Inr (Inr ())" by (simp add: is_ok_unit)
  with rep show "dispatching l w (h @ [Registered w d r])" by (auto simp: dispatching_def registered_def)
qed

lemma dispatch_window_triple:
  "sched (reported (obs_lease leader) w) (dispatch_window E m b s p w leader) (\<lambda>_ _. True)"
proof -
  let ?l = "obs_lease leader"
  have ready: "stable (reported ?l w)" by (auto simp: stable_def)
  have lag: "sched (reported ?l w) (now_unix_ms E) (\<lambda>_. reported ?l w)"
    unfolding now_unix_ms_def by (rule triple_read_clock) auto
  have slices: "sched (dispatching ?l w) (dispatch_slices E m b s p w leader (win_missing_slices w)) (\<lambda>_ _. True)"
    by (rule triple_weaken [OF dispatch_slices_triple [of _ _ ?l]]) (auto simp: heir_def)
  show ?thesis
    unfolding dispatch_window_def
    by (rule triple_bind [OF lag], rule triple_bind [OF lease_is_current_triple [OF ready]], rule triple_if,
        rule triple_return, simp, rule triple_bind [where R = "\<lambda>r h. is_ok r \<longrightarrow> dispatching ?l w h"],
        rule triple_weaken [OF register_triple], blast, assumption,
        rule triple_sum, rule triple_return, simp, simp add: slices)
qed

lemma dispatch_scenario_triple: "sched (\<lambda>_. True) (dispatch_scenario E material m b s p leader) (\<lambda>_ _. True)"
proof -
  let ?l = "obs_lease leader"
  let ?prep = "\<lambda>(r :: (coordination_error, DispatchOutcome) result) h. \<forall>w. r = Inr (Ready w) \<longrightarrow> reported ?l w h"
  have prepare: "sched (\<lambda>_. True) (store_prepare E spec ?l) ?prep" for spec
    unfolding store_prepare_def by (rule triple_perform) auto
  have outcome: "sched (?prep r) (case r of
       Inr (Ready w) \<Rightarrow> dispatch_window E m b s p w leader
     | Inr (NotDue _) \<Rightarrow> sreturn (Next_Scenario leader)
     | Inr Finished \<Rightarrow> sreturn (Next_Scenario leader)
     | Inl (StaleOwner _) \<Rightarrow> sreturn Leave_Round
     | Inl _ \<Rightarrow> sreturn (Next_Scenario leader)) (\<lambda>_ _. True)" for r
    using dispatch_window_triple
    by (auto intro!: triple_return split: sum.split DispatchOutcome.split coordination_error.split)
  show ?thesis
    unfolding dispatch_scenario_def
    by (rule triple_bind [OF dispatch_fenced_triple], simp, rule triple_if, rule triple_return, simp,
        rule triple_weaken [OF triple_bind [OF prepare outcome]]) simp_all
qed

lemma dispatch_round_triple: "sched (\<lambda>_. True) (dispatch_round E material m b plans leader) (\<lambda>_ _. True)"
proof (induction plans arbitrary: leader)
  case Nil
  show ?case unfolding dispatch_round.simps by (rule triple_return) simp
next
  case (Cons sp plans)
  obtain s p where sp: "sp = (s, p)" by force
  show ?case
    unfolding sp dispatch_round.simps
    by (rule triple_bind [OF dispatch_scenario_triple]) (auto intro!: triple_return Cons split: round_end.split)
qed

lemma scheduler_iteration_triple:
  "sched (\<lambda>_. True) (scheduler_iteration E material tick m b plans) (\<lambda>_ _. True)"
proof -
  have changed: "sched (\<lambda>_. True) (await_leader_changed E) (\<lambda>_ _. True)"
    unfolding await_leader_changed_def by (intro triple_rules) simp
  have wait: "sched (\<lambda>_. True) (wait_or_shutdown E d) (\<lambda>_ _. True)" for d
    unfolding wait_or_shutdown_def by (intro triple_rules) simp
  show ?thesis
    unfolding scheduler_iteration_def
    by (rule triple_bind [OF observe_triple])
       (auto intro!: triple_return triple_bind [OF changed] triple_bind [OF dispatch_round_triple]
          triple_bind [OF wait] split: option.split round_end.split)
qed

lemma scheduler_loop_traced:
  assumes "scheduler_loop E material tick m b plans h = Some y"
  shows "\<exists>es. snd y = h @ es \<and> traced scheduler_ok h es"
proof (rule scheduler_loop.raw_induct [where
      P = "\<lambda>E material tick m b plans h y. \<exists>es. snd y = h @ es \<and> traced scheduler_ok h es", OF _ assms],
    goal_cases)
  case (1 loop E material tick m b plans h y)
  obtain r h1 where it: "scheduler_iteration E material tick m b plans h = (r, h1)" by force
  from tripleD [OF scheduler_iteration_triple TrueI it] obtain es where
    es: "h1 = h @ es" "traced scheduler_ok h es" by blast
  show ?case
  proof (cases "\<not> env_shutdown E h \<and> r = Inr True")
    case True
    with 1(2) it have "loop E material tick m b plans h1 = Some y" by simp
    from 1(1) [OF this] es show ?thesis by auto
  next
    case False
    with 1(2) it es show ?thesis by (auto split: if_splits sum.splits)
  qed
qed

section \<open>A run of the scheduler\<close>

definition leading_node :: ObservedLeaderLease where
  "leading_node = \<lparr>obs_lease = \<lparr>lock_key = ''leader'', lease_node_id = ''node'', leader_token = ''owner'',
       fencing_token = 1, leader_expires_at = 30000, leader_ttl = from_secs 30\<rparr>, valid_until = 20\<rparr>"

definition demo_window :: DispatchWindow where
  "demo_window = \<lparr>win_scenario_id = ''scn'', window_id = ''scn:v1:1'', win_run_id = ''run'',
     win_scheduled_at = 5, win_contract_version = 1, win_total_slices = 1, win_plan_fingerprint = [],
     win_missing_slices = [0]\<rparr>"

definition demo_schedule :: "unit ScenarioExecutionPlan" where
  "demo_schedule = \<lparr>plan_scenario = \<lparr>sc_name = ''scn'', sc_steps = [()],
       sc_config = \<lparr>sc_endpoint = ''http://target'', sc_scenarios_per_sec = Finite 1, sc_max_concurrency = 1,
         sc_duration = from_secs 1, sc_repeat = Once, sc_partition = ByExecutionKey\<rparr>\<rparr>,
     execution_semantics = []\<rparr>"

definition leading_env :: "(unit, unit) node_env" where
  "leading_env = \<lparr>env_now = (\<lambda>_. 5), env_instant = (\<lambda>_. 7), env_shutdown = (\<lambda>_. False),
     env_sleep = (\<lambda>_ _. Inl Stopped), env_sleep_until = (\<lambda>_ _. Inl Stopped), env_wait = (\<lambda>_ _. Inr True),
     env_claim = (\<lambda>_ _. Inl Stopped), env_renew = (\<lambda>_ _. Inl Stopped), env_complete = (\<lambda>_ _ _. Inl Stopped),
     env_release = (\<lambda>_ _. Inl Stopped), env_publish_job = (\<lambda>_ _ _. Inl Stopped),
     env_publish_result = (\<lambda>_ _. Inl Stopped), env_publish_failed = (\<lambda>_ _ _. Inl Stopped),
     env_publish_poison = (\<lambda>_ _. Inl Stopped), env_run = (\<lambda>_ _ _. Inl Stopped), env_commit = (\<lambda>_ _. Inl Stopped),
     env_elect = (\<lambda>_ _. Inl Stopped), env_relinquish = (\<lambda>_ _. Inl Stopped),
     env_scheduler_stopped = (\<lambda>_. Inl Stopped), env_leader = (\<lambda>_. Some leading_node),
     env_leader_changed = (\<lambda>_. Inl Stopped), env_publication = (\<lambda>_ _ _. [Wake_Published (Inr ())]),
     env_prepare = (\<lambda>_ _ _. Inr (Inr (Ready demo_window))), env_register = (\<lambda>_ _ _. Inr (Inr ())),
     env_ack = (\<lambda>_ _ _ _. Inr (Inr DispatchComplete))\<rparr>"

lemma leading_env_simps [simp]:
  "env_now leading_env h = 5" "env_instant leading_env h = 7" "\<not> env_shutdown leading_env h"
  "env_wait leading_env h d = Inr True" "env_leader leading_env h = Some leading_node"
  "env_publication leading_env h k j = [Wake_Published (Inr ())]"
  "env_prepare leading_env h s l = Inr (Inr (Ready demo_window))" "env_register leading_env h w d = Inr (Inr ())"
  "env_ack leading_env h w i l = Inr (Inr DispatchComplete)"
  by (simp_all add: leading_env_def)

abbreviation demo_check :: history where
  "demo_check \<equiv> [Saw_Leader (Some leading_node), Saw_Leader (Some leading_node), Instant_Now 7]"

abbreviation demo_key :: string where "demo_key \<equiv> ''scn:v1:1:slice-0-of-1''"

abbreviation demo_slice :: ScenarioJob where
  "demo_slice \<equiv> scheduled_job 2 1 ''scn'' demo_schedule demo_window 0 demo_key"

abbreviation demo_dispatched :: "(unit \<Rightarrow> string) \<Rightarrow> history" where
  "demo_dispatched material \<equiv> [Saw_Leader (Some leading_node)] @ demo_check @
     [Prepared (dispatch_spec material 2 1 ''scn'' demo_schedule) (obs_lease leading_node) (Inr (Inr (Ready demo_window))),
      Now 5] @ demo_check @ [Registered demo_window (from_secs 1) (Inr (Inr ()))] @ demo_check"

lemma demo_lease_current: "lease_is_current leading_env leading_node h = (Inr True, h @ demo_check)"
  by (simp add: lease_is_current_def leader_identity_is_current_def observe_leader_def read_clock_def
      sbind_def sreturn_def same_leader_def instant_now_def Let_def leading_node_def)

lemma demo_fenced: "dispatch_fenced leading_env leading_node h = (Inr False, h @ demo_check)"
  by (simp add: dispatch_fenced_def shutdown_requested_def sbind_def sreturn_def demo_lease_current)

lemma demo_slice_key: "execution_key demo_window 0 = Some demo_key"
  by (simp add: execution_key_def demo_window_def word_str_def word_less_nat_alt) (simp add: nat_str.simps)

lemma demo_slices:
  "dispatch_slices leading_env 2 1 ''scn'' demo_schedule demo_window leading_node [0] h
   = (Inr (Next_Scenario leading_node), h @ demo_check @ [Job_Published demo_key demo_slice (Inr (Inr ())),
       Acked demo_window 0 (obs_lease leading_node) (Inr (Inr DispatchComplete))])"
proof -
  have "key_for (sc_partition (sc_config (plan_scenario demo_schedule))) demo_slice = demo_key"
    by (simp add: key_for_def demo_schedule_def scheduled_job_def)
  then show ?thesis
    by (simp add: sbind_def demo_fenced demo_slice_key publish_slice_def read_clock_def perform_def
        sreturn_def store_ack_def Let_def)
qed

lemma demo_scheduler_run:
  "scheduler_loop leading_env material tick 2 1 [(''scn'', demo_schedule)] []
   = Some (Inr (), demo_dispatched material @ [Job_Published demo_key demo_slice (Inr (Inr ())),
       Acked demo_window 0 (obs_lease leading_node) (Inr (Inr DispatchComplete)), Waited tick (Inr True)])"
proof -
  have w: "win_missing_slices demo_window = [0]" by (simp add: demo_window_def)
  have d: "sc_duration (sc_config (plan_scenario demo_schedule)) = from_secs 1" by (simp add: demo_schedule_def)
  have "dispatch_window leading_env 2 1 ''scn'' demo_schedule demo_window leading_node h
     = (Inr (Next_Scenario leading_node), h @ [Now 5] @ demo_check @
         [Registered demo_window (from_secs 1) (Inr (Inr ()))] @ demo_check @
         [Job_Published demo_key demo_slice (Inr (Inr ())),
          Acked demo_window 0 (obs_lease leading_node) (Inr (Inr DispatchComplete))])" for h
    unfolding dispatch_window_def w d
    by (simp add: sbind_def now_unix_ms_def read_clock_def demo_lease_current store_register_def perform_def
        demo_slices Let_def del: dispatch_slices.simps)
  then have "scheduler_iteration leading_env material tick 2 1 [(''scn'', demo_schedule)] []
     = (Inr False, demo_dispatched material @ [Job_Published demo_key demo_slice (Inr (Inr ())),
         Acked demo_window 0 (obs_lease leading_node) (Inr (Inr DispatchComplete)), Waited tick (Inr True)])"
    by (simp add: scheduler_iteration_def sbind_def observe_leader_def read_clock_def dispatch_scenario_def
        demo_fenced store_prepare_def perform_def sreturn_def wait_or_shutdown_def Let_def)
  then show ?thesis by (subst scheduler_loop.simps) simp
qed

section \<open>Properties of the scheduler\<close>

text \<open>C25: A slice is acknowledged in the dispatch ledger only after the broker acknowledged its job:
  whatever the environment does, the scheduler records slice \<open>i\<close> of a window as dispatched only when
  the job of exactly this slice, with the execution key and the run of the window, was published.
  So a crash or a lost leadership duplicates a slice at most, and never loses one.\<close>

theorem slice_acked_only_after_publication:
  assumes "scheduler_loop E material tick max_retries burst plans [] = Some (r, before @ Acked w i l reply # after)"
  shows "\<exists>k j. Job_Published k j (Inr (Inr ())) \<in> set before \<and> slice_job w i j"
proof -
  from scheduler_loop_traced [OF assms] have "traced scheduler_ok [] (before @ Acked w i l reply # after)" by auto
  from traced_split [OF this] show ?thesis by (simp add: scheduler_ok_def)
qed

theorem slice_acked_only_after_publication_witness:
  "\<exists>k j. Job_Published k j (Inr (Inr ()))
     \<in> set (demo_dispatched (\<lambda>_. []) @ [Job_Published demo_key demo_slice (Inr (Inr ()))]) \<and> slice_job demo_window 0 j"
  by (rule slice_acked_only_after_publication [of leading_env "\<lambda>_. []" 0 2 1 "[(''scn'', demo_schedule)]" "Inr ()" _
        demo_window 0 "obs_lease leading_node" "Inr (Inr DispatchComplete)" "[Waited 0 (Inr True)]"])
     (simp add: demo_scheduler_run)



end
