(* ===== verification/Wire_Format.thy ===== *)
theory Wire_Format
  imports Contracts
begin

unbundle bit_operations_syntax

text \<open>
  The byte level of the protobuf codec in \<open>infrastructure/grpc/dynamic_gateway.rs\<close>: varints, fixed
  width values, length-delimited values, keys and the zigzag representation of signed integers.

  A payload is a list of bytes and a position in it, as in the source.  Signed integers are words
  read in two's complement.  A position is a natural number; additions on \<open>usize\<close> check its bound.
\<close>

type_synonym u8 = "8 word"
type_synonym i32 = "32 word"
type_synonym i64 = "64 word"
type_synonym 'a decoded = "(pulse_error, 'a \<times> nat) result"

section \<open>Varints\<close>

lemma unat_drop_7: "unat (drop_bit 7 v) = unat v div 128" for v :: u64
  using drop_bit_eq_div [of 7 "unat v"] by (simp add: unat_drop_bit_eq)

function write_varint :: "u64 \<Rightarrow> u8 list" where
  "write_varint v =
     (if v < 0x80 then [ucast v]
      else ((ucast v AND 0x7F) OR 0x80) # write_varint (drop_bit 7 v))"
  by auto
termination
proof (relation "measure unat")
  fix v :: u64
  assume "\<not> v < 0x80"
  then have "128 \<le> unat v" by (simp add: word_less_nat_alt)
  then show "(drop_bit 7 v, v) \<in> measure unat" by (simp add: unat_drop_7)
qed simp

declare write_varint.simps [simp del]

function read_varint_loop :: "u8 list \<Rightarrow> nat \<Rightarrow> nat \<Rightarrow> u64 \<Rightarrow> u64 decoded" where
  "read_varint_loop buf idx shift out =
     (if length buf \<le> idx then Inl (Client ''unexpected end of payload while reading varint'')
      else let b = buf ! idx;
               out' = out OR push_bit shift (ucast (b AND 0x7F))
           in if b AND 0x80 = 0 then Inr (out', idx + 1)
              else if 63 < shift + 7 then Inl (Client ''varint too long'')
              else read_varint_loop buf (idx + 1) (shift + 7) out')"
  by auto
termination by (relation "measure (\<lambda>(buf, idx, _, _). length buf - idx)") auto

declare read_varint_loop.simps [simp del]

definition read_varint :: "u8 list \<Rightarrow> nat \<Rightarrow> u64 decoded" where
  "read_varint buf idx = read_varint_loop buf idx 0 0"

section \<open>Positions, fixed-width and length-delimited values\<close>

definition advance_to :: "string \<Rightarrow> string \<Rightarrow> u8 list \<Rightarrow> nat \<Rightarrow> nat \<Rightarrow> (pulse_error, nat) result" where
  "advance_to overflow beyond buf idx n =
     (if 2 ^ 64 \<le> idx + n then Inl (Client overflow)
      else if length buf < idx + n then Inl (Client beyond)
      else Inr (idx + n))"

definition advance :: "u8 list \<Rightarrow> nat \<Rightarrow> nat \<Rightarrow> (pulse_error, nat) result" where
  "advance = advance_to ''buffer index overflow'' ''buffer underflow while decoding''"

primrec from_le :: "u8 list \<Rightarrow> 'a::len word" where
  "from_le [] = 0"
| "from_le (b # bs) = ucast b OR push_bit 8 (from_le bs)"

primrec to_le :: "nat \<Rightarrow> 'a::len word \<Rightarrow> u8 list" where
  "to_le 0 w = []"
| "to_le (Suc n) w = ucast w # to_le n (drop_bit 8 w)"

definition read_fixed32 :: "u8 list \<Rightarrow> nat \<Rightarrow> u32 decoded" where
  "read_fixed32 buf idx =
     try_res (advance_to ''buffer index overflow'' ''buffer underflow reading fixed32'' buf idx 4)
       (\<lambda>end_idx. Inr (from_le (take 4 (drop idx buf)), end_idx))"

definition read_fixed64 :: "u8 list \<Rightarrow> nat \<Rightarrow> u64 decoded" where
  "read_fixed64 buf idx =
     try_res (advance_to ''buffer index overflow'' ''buffer underflow reading fixed64'' buf idx 8)
       (\<lambda>end_idx. Inr (from_le (take 8 (drop idx buf)), end_idx))"

definition read_length_delimited :: "u8 list \<Rightarrow> nat \<Rightarrow> (u8 list) decoded" where
  "read_length_delimited buf idx =
     try_res (read_varint buf idx) (\<lambda>(len, idx1).
     try_res (advance_to ''length-delimited overflow'' ''length-delimited field exceeds payload''
         buf idx1 (unat len))
       (\<lambda>end_idx. Inr (take (unat len) (drop idx1 buf), end_idx)))"

definition skip_wire_value :: "u8 \<Rightarrow> u8 list \<Rightarrow> nat \<Rightarrow> (pulse_error, nat) result" where
  "skip_wire_value wire_type buf idx =
     (if wire_type = 0 then try_res (read_varint buf idx) (\<lambda>(_, idx1). Inr idx1)
      else if wire_type = 1 then advance buf idx 8
      else if wire_type = 2
      then try_res (read_varint buf idx) (\<lambda>(len, idx1). advance buf idx1 (unat len))
      else if wire_type = 5 then advance buf idx 4
      else Inl (Client (''unsupported wire type while skipping unknown field: '' @ word_str wire_type)))"

definition write_key :: "u32 \<Rightarrow> u8 \<Rightarrow> u8 list" where
  "write_key field_number wire_type = write_varint (push_bit 3 (ucast field_number) OR ucast wire_type)"

definition write_length_delimited :: "u8 list \<Rightarrow> u8 list" where
  "write_length_delimited data = write_varint (of_nat (length data)) @ data"

section \<open>Zigzag\<close>

definition zigzag_i32 :: "i32 \<Rightarrow> u64" where
  "zigzag_i32 v = ucast (push_bit 1 v XOR signed_drop_bit 31 v)"

definition zigzag_i64 :: "i64 \<Rightarrow> u64" where
  "zigzag_i64 v = push_bit 1 v XOR signed_drop_bit 63 v"

definition unzigzag_i32 :: "u64 \<Rightarrow> i32" where
  "unzigzag_i32 v = (let v = ucast v :: u32 in drop_bit 1 v XOR - (v AND 1))"

definition unzigzag_i64 :: "u64 \<Rightarrow> i64" where
  "unzigzag_i64 v = drop_bit 1 v XOR - (v AND 1)"

section \<open>Round trips\<close>

lemma bit_continuation [simp]: "bit (0x80 :: 'a::semiring_bit_operations) n \<longleftrightarrow> possible_bit TYPE('a) n \<and> n = 7"
proof -
  have "bit (0x80 :: 'a) n = bit (2 ^ 7 :: 'a) n" by simp
  then show ?thesis by (simp only: bit_exp_iff eq_commute)
qed

lemma varint_head:
  fixes v :: u64
  defines "b \<equiv> (ucast v AND 0x7F) OR (0x80 :: u8)"
  shows "b AND 0x80 = 0x80" "ucast (b AND 0x7F) = take_bit 7 v"
proof -
  show "b AND 0x80 = 0x80" unfolding b_def by (rule bit_word_eqI) (auto simp: bit_simps)
  have m: "(0x7F :: u8) = mask 7" by (simp add: mask_eq_exp_minus_1)
  show "ucast (b AND 0x7F) = take_bit 7 v"
    unfolding b_def m by (rule bit_word_eqI) (auto simp: bit_simps)
qed

lemma read_write_varint_loop:
  "unat v < 2 ^ (64 - shift) \<Longrightarrow> shift \<le> 63 \<Longrightarrow>
   read_varint_loop (pre @ write_varint v @ post) (length pre) shift out
   = Inr (out OR push_bit shift v, length pre + length (write_varint v))"
proof (induction v arbitrary: pre shift out rule: write_varint.induct)
  case (1 v)
  show ?case
  proof (cases "v < 0x80")
    case True
    have u: "write_varint v = [ucast v]" using True by (simp add: write_varint.simps)
    have "unat (take_bit 7 v) = unat v"
      using True take_bit_nat_eq_self [of "unat v" 7] by (simp add: unsigned_take_bit_eq word_less_nat_alt)
    then have small: "take_bit 7 v = v" by (simp only: word_unat_eq_iff)
    have "(ucast v :: u8) AND 0x80 = 0" "ucast ((ucast v :: u8) AND 0x7F) = v"
    proof -
      have m: "(0x7F :: u8) = mask 7" by (simp add: mask_eq_exp_minus_1)
      have "\<not> bit v 7" using small by (metis bit_take_bit_iff less_irrefl)
      then show "(ucast v :: u8) AND 0x80 = 0"
        by (intro bit_word_eqI) (auto simp: bit_simps)
      have "ucast ((ucast v :: u8) AND mask 7) = take_bit 7 v"
        by (rule bit_word_eqI) (auto simp: bit_simps)
      then show "ucast ((ucast v :: u8) AND 0x7F) = v" by (simp add: m small)
    qed
    then show ?thesis
      by (subst read_varint_loop.simps) (simp add: u Let_def nth_append)
  next
    case False
    let ?b = "(ucast v AND 0x7F) OR 0x80 :: u8"
    have w: "write_varint v = ?b # write_varint (drop_bit 7 v)" using False by (simp add: write_varint.simps)
    from False have big: "128 \<le> unat v" by (simp add: word_less_nat_alt)
    have "7 < 64 - shift"
    proof (rule ccontr)
      assume "\<not> 7 < 64 - shift"
      then have "(2::nat) ^ (64 - shift) \<le> 2 ^ 7" by (intro power_increasing) auto
      with 1(2) big show False by simp
    qed
    then have s: "shift + 7 \<le> 63" and e: "64 - shift = (64 - (shift + 7)) + 7" by simp_all
    have "unat (drop_bit 7 v) = unat v div 2 ^ 7" by (simp only: unat_drop_7) simp
    also have "\<dots> < 2 ^ (64 - (shift + 7))"
      using 1(2) unfolding e power_add by (simp add: less_mult_imp_div_less)
    finally have small: "unat (drop_bit 7 v) < 2 ^ (64 - (shift + 7))" .
    have "take_bit 7 v OR push_bit 7 (drop_bit 7 v) = v"
    proof (rule bit_word_eqI)
      fix n :: nat
      show "bit (take_bit 7 v OR push_bit 7 (drop_bit 7 v)) n = bit v n"
        by (cases "n < 7") (auto simp: bit_simps dest: bit_imp_le_length)
    qed
    from arg_cong [OF this, of "push_bit shift"]
    have join: "(out OR push_bit shift (take_bit 7 v)) OR push_bit (shift + 7) (drop_bit 7 v) = out OR push_bit shift v"
      by (simp add: push_bit_or or.assoc)
    show ?thesis
      using 1(1) [OF False small s, of "pre @ [?b]"] s varint_head [of v] join
      by (subst read_varint_loop.simps) (simp add: w Let_def nth_append)
  qed
qed

lemma read_write_varint [simp]:
  "read_varint (pre @ write_varint v @ post) (length pre) = Inr (v, length pre + length (write_varint v))"
proof -
  have "unat v < 2 ^ (64 - 0)" using unat_bound [of v] by simp
  from read_write_varint_loop [OF this, of pre post 0] show ?thesis by (simp add: read_varint_def)
qed

lemma write_varint_length: "0 < length (write_varint v)" "length (write_varint v) \<le> 10"
proof -
  show "0 < length (write_varint v)" by (subst write_varint.simps) simp
  have "unat v < 2 ^ (7 * Suc n) \<Longrightarrow> length (write_varint v) \<le> Suc n" for n and v :: u64
  proof (induction n arbitrary: v)
    case 0
    then show ?case by (subst write_varint.simps) (simp add: word_less_nat_alt)
  next
    case (Suc n)
    have "unat (drop_bit 7 v) < 2 ^ (7 * Suc n)"
      using Suc.prems by (simp add: unat_drop_7 power_add less_mult_imp_div_less)
    from Suc.IH [OF this] show ?case by (subst write_varint.simps) simp
  qed
  moreover have "unat v < 2 ^ (7 * Suc 9)" using unat_bound [of v] by simp
  ultimately have "length (write_varint v) \<le> Suc 9" by blast
  then show "length (write_varint v) \<le> 10" by simp
qed

lemma read_write_varint_at [simp]:
  "n = length pre \<Longrightarrow> read_varint (pre @ write_varint v @ post) n = Inr (v, n + length (write_varint v))"
  by simp

text \<open>Every reader moves the position forward and stays inside the payload.\<close>

lemma read_varint_loop_bounds:
  "read_varint_loop buf idx shift out = Inr (v, idx1) \<Longrightarrow> idx < idx1 \<and> idx1 \<le> length buf"
proof (induction buf idx shift out rule: read_varint_loop.induct)
  case (1 buf idx shift out)
  show ?case
    using 1(2) 1(1) [OF _ refl refl] unfolding read_varint_loop.simps [of buf idx shift out]
    by (fastforce simp: Let_def split: if_splits)
qed

lemma read_varint_bounds: "read_varint buf idx = Inr (v, idx1) \<Longrightarrow> idx < idx1 \<and> idx1 \<le> length buf"
  unfolding read_varint_def by (rule read_varint_loop_bounds)

lemma advance_to_bounds: "advance_to o1 o2 buf idx n = Inr idx1 \<longleftrightarrow> idx1 = idx + n \<and> idx1 \<le> length buf \<and> idx1 < 2 ^ 64"
  by (auto simp: advance_to_def)

lemma read_fixed_bounds:
  "read_fixed32 buf idx = Inr (w, idx1) \<Longrightarrow> idx < idx1 \<and> idx1 \<le> length buf"
  "read_fixed64 buf idx = Inr (w', idx1) \<Longrightarrow> idx < idx1 \<and> idx1 \<le> length buf"
  by (auto simp: read_fixed32_def read_fixed64_def try_res_Inr_iff advance_to_bounds)

lemma read_length_delimited_bounds:
  "read_length_delimited buf idx = Inr (data, idx1) \<Longrightarrow>
   idx < idx1 \<and> idx1 \<le> length buf \<and> length data < length buf - idx"
  using read_varint_bounds
  by (fastforce simp: read_length_delimited_def try_res_Inr_iff advance_to_bounds)

lemma skip_wire_value_bounds: "skip_wire_value wt buf idx = Inr idx1 \<Longrightarrow> idx < idx1 \<and> idx1 \<le> length buf"
  using read_varint_bounds
  by (fastforce simp: skip_wire_value_def advance_def try_res_Inr_iff advance_to_bounds split: if_splits)

lemma length_to_le [simp]: "length (to_le n w) = n"
  by (induction n arbitrary: w) simp_all

lemma from_to_le: "from_le (to_le n w) = take_bit (8 * n) w"
proof (induction n arbitrary: w)
  case (Suc n)
  have "ucast (ucast w :: u8) OR push_bit 8 (take_bit (8 * n) (drop_bit 8 w)) = take_bit (8 * Suc n) w"
  proof (rule bit_word_eqI)
    fix m :: nat
    show "bit (ucast (ucast w :: u8) OR push_bit 8 (take_bit (8 * n) (drop_bit 8 w))) m
      = bit (take_bit (8 * Suc n) w) m"
      by (cases "m < 8") (auto simp: bit_simps dest: bit_imp_le_length)
  qed
  then show ?case using Suc by simp
qed simp

lemma read_write_fixed [simp]:
  "idx = length pre \<Longrightarrow> length pre + 4 < 2 ^ 64 \<Longrightarrow> read_fixed32 (pre @ to_le 4 w @ post) idx = Inr (w, idx + 4)"
  "idx = length pre \<Longrightarrow> length pre + 8 < 2 ^ 64 \<Longrightarrow> read_fixed64 (pre @ to_le 8 w' @ post) idx = Inr (w', idx + 8)"
  using take_bit_length_eq [of w] take_bit_length_eq [of w']
  by (simp_all add: read_fixed32_def read_fixed64_def advance_to_def from_to_le)

lemma read_write_length_delimited [simp]:
  assumes "idx = length pre" "length (pre @ write_length_delimited data) < 2 ^ 64"
  shows "read_length_delimited (pre @ write_length_delimited data @ post) idx
    = Inr (data, idx + length (write_length_delimited data))"
proof -
  have "unat (of_nat (length data) :: u64) = length data"
    using assms(2) by (simp add: unsigned_of_nat take_bit_nat_eq_self write_length_delimited_def)
  then show ?thesis
    using assms by (simp add: read_length_delimited_def write_length_delimited_def advance_to_def)
qed

lemma key_fields:
  fixes number :: u32 and wt :: u8
  assumes "wt < 8"
  shows "ucast (drop_bit 3 (push_bit 3 (ucast number) OR ucast wt :: u64)) = number"
    and "ucast ((push_bit 3 (ucast number) OR ucast wt :: u64) AND 7) = wt"
proof -
  have "unat wt < 2 ^ 3" using assms by (simp add: word_less_nat_alt)
  then have "unat (take_bit 3 wt) = unat wt"
    using take_bit_nat_eq_self [of "unat wt" 3] by (simp add: unsigned_take_bit_eq)
  then have small: "take_bit 3 wt = wt" by (simp only: word_unat_eq_iff)
  then have high: "\<not> bit wt n" if "3 \<le> n" for n using that by (metis bit_take_bit_iff not_le)
  show "ucast (drop_bit 3 (push_bit 3 (ucast number) OR ucast wt :: u64)) = number"
    by (rule bit_word_eqI) (auto simp: bit_simps high)
  have m: "(7 :: u64) = mask 3" by (simp add: mask_eq_exp_minus_1)
  have "ucast ((push_bit 3 (ucast number) OR ucast wt :: u64) AND mask 3) = take_bit 3 wt"
    by (rule bit_word_eqI) (auto simp: bit_simps)
  then show "ucast ((push_bit 3 (ucast number) OR ucast wt :: u64) AND 7) = wt" by (simp add: m small)
qed

text \<open>The sign of a word fills its arithmetic shift.\<close>

lemma signed_fill:
  "signed_drop_bit (LENGTH('a) - 1) v = (if bit v (LENGTH('a) - 1) then - 1 else 0)" for v :: "'a::len word"
proof (rule bit_word_eqI)
  fix n :: nat
  assume "n < LENGTH('a)"
  then show "bit (signed_drop_bit (LENGTH('a) - 1) v) n
    = bit (if bit v (LENGTH('a) - 1) then - 1 else 0 :: 'a word) n"
    by (cases "n = 0") (auto simp: bit_simps)
qed

lemma unzigzag_zigzag:
  fixes v :: "'a::len word"
  assumes "1 < LENGTH('a)"
  defines "z \<equiv> push_bit 1 v XOR signed_drop_bit (LENGTH('a) - 1) v"
  shows "drop_bit 1 z XOR - (z AND 1) = v"
proof -
  define s where "s = push_bit 1 v"
  have s: "bit s n \<longleftrightarrow> 0 < n \<and> n < LENGTH('a) \<and> bit v (n - 1)" for n
    unfolding s_def bit_push_bit_iff by (auto simp: Suc_le_eq)
  have low: "z AND 1 = (if bit v (LENGTH('a) - 1) then 1 else 0)"
    unfolding z_def signed_fill s_def [symmetric] by (rule bit_word_eqI) (auto simp: bit_simps s)
  show ?thesis
    unfolding low unfolding z_def signed_fill s_def [symmetric]
  proof (rule bit_word_eqI)
    fix n
    assume "n < LENGTH('a)"
    with assms(1) show "bit (drop_bit 1 (s XOR (if bit v (LENGTH('a) - 1) then - 1 else 0))
        XOR - (if bit v (LENGTH('a) - 1) then 1 else 0)) n = bit v n"
      by (cases "n = LENGTH('a) - 1") (auto simp: bit_simps s)
  qed
qed

lemma unzigzag_zigzag_widths [simp]: "unzigzag_i32 (zigzag_i32 i) = i" "unzigzag_i64 (zigzag_i64 j) = j"
proof -
  have "ucast (ucast w :: u64) = w" for w :: u32 by (rule bit_word_eqI) (simp add: bit_simps)
  then show "unzigzag_i32 (zigzag_i32 i) = i"
    using unzigzag_zigzag [of i] by (simp only: unzigzag_i32_def zigzag_i32_def Let_def) simp
  show "unzigzag_i64 (zigzag_i64 j) = j"
    using unzigzag_zigzag [of j] by (simp only: unzigzag_i64_def zigzag_i64_def) simp
qed

text \<open>Integers survive the wire: a varint written at any position of a payload is read back with its
  value, and the reader stops right behind it; and the zigzag form of every signed integer, also the
  smallest one, decodes to that integer, for both widths.\<close>

theorem varint_roundtrip:
  "read_varint (pre @ write_varint v @ post) (length pre) = Inr (v, length (pre @ write_varint v)) \<and>
   length (write_varint v) \<le> 10 \<and>
   unzigzag_i32 (zigzag_i32 i) = i \<and> unzigzag_i64 (zigzag_i64 j) = j"
  by (simp add: write_varint_length)

end
