(* ===== verification/Json_Values.thy ===== *)
theory Json_Values
  imports Wire_Format Rust_Floats "HOL-Library.Char_ord" "HOL-Library.List_Lexorder"
begin

text \<open>
  JSON values as the program uses them, and the conversions of the dynamic gateway from JSON to
  protobuf scalars (\<open>infrastructure/grpc/dynamic_gateway.rs\<close>, \<open>to_string_value\<close> to \<open>to_bytes\<close>).

  The number type of \<open>serde_json\<close> and the base64 engine are parameters: the type \<open>'n\<close> and the fields
  of \<open>codec_lib\<close>.  A floating-point value is its bit pattern, so a negative zero and the payload of a
  NaN are kept; the conversions between the two widths and the parsing of decimals are fields too.
  An object is the list of its entries in the order of its keys, the iteration order of the map.
\<close>

datatype 'n json =
    JNull
  | JBool bool
  | JNumber 'n
  | JString string
  | JArray "'n json list"
  | JObject "(string \<times> 'n json) list"

record 'n codec_lib =
  num_i64 :: "i64 \<Rightarrow> 'n"
  num_u64 :: "u64 \<Rightarrow> 'n"
  num_f64 :: "u64 \<Rightarrow> 'n option"
  as_i64 :: "'n \<Rightarrow> i64 option"
  as_u64 :: "'n \<Rightarrow> u64 option"
  as_f64 :: "'n \<Rightarrow> u64 option"
  num_str :: "'n \<Rightarrow> string"
  json_str :: "'n json \<Rightarrow> string"
  parse_f64 :: "string \<Rightarrow> u64 option"
  parse_f32 :: "string \<Rightarrow> u32 option"
  narrow_f64 :: "u64 \<Rightarrow> u32"
  widen_f32 :: "u32 \<Rightarrow> u64"
  b64_encode :: "u8 list \<Rightarrow> string"
  b64_decode :: "string \<Rightarrow> (string, u8 list) result"

text \<open>What is used of the libraries: an integer stored in a number is read back, at its own sign and,
  when it is not negative, at the other one; so is a finite double.\<close>

locale json_numbers =
  fixes J :: "'n codec_lib"
  assumes as_i64_num_i64 [simp]: "as_i64 J (num_i64 J v) = Some v"
    and as_u64_num_u64 [simp]: "as_u64 J (num_u64 J w) = Some w"
    and as_f64_num_f64: "num_f64 J x = Some n \<Longrightarrow> as_f64 J n = Some x"

section \<open>Objects\<close>

fun object_insert :: "string \<Rightarrow> 'v \<Rightarrow> (string \<times> 'v) list \<Rightarrow> (string \<times> 'v) list" where
  "object_insert k v [] = [(k, v)]"
| "object_insert k v ((k1, v1) # rest) =
     (if k = k1 then (k, v) # rest
      else if k < k1 then (k, v) # (k1, v1) # rest
      else (k1, v1) # object_insert k v rest)"

lemma map_of_object_insert [simp]: "map_of (object_insert k v m) = (map_of m)(k \<mapsto> v)"
  by (induction k v m rule: object_insert.induct) auto

definition object_ok :: "(string \<times> 'v) list \<Rightarrow> bool" where
  "object_ok m \<longleftrightarrow> sorted_wrt (<) (map fst m)"

lemma fst_object_insert: "fst ` set (object_insert k v m) = insert k (fst ` set m)"
  by (induction k v m rule: object_insert.induct) auto

lemma object_insert_ok: "object_ok m \<Longrightarrow> object_ok (object_insert k v m)"
proof (induction k v m rule: object_insert.induct)
  case (2 k v k1 v1 rest)
  have "set (map fst (object_insert k v rest)) = insert k (set (map fst rest))"
    using fst_object_insert [of k v rest] by simp
  with 2 show ?case by (auto simp: object_ok_def)
qed (simp add: object_ok_def)

lemma object_ok_distinct: "object_ok m \<Longrightarrow> distinct (map fst m)"
  unfolding object_ok_def by (metis strict_sorted_iff)

lemma entries_by_key: "distinct (map fst m) \<Longrightarrow> map (\<lambda>k. (k, the (map_of m k))) (map fst m) = m"
  by (auto simp: comp_def intro!: map_idI)

lemma object_eqI:
  assumes "object_ok m" "object_ok m'" "map_of m = map_of m'"
  shows "m = m'"
proof -
  from arg_cong [OF assms(3), of dom] have "set (map fst m) = set (map fst m')" by (simp add: dom_map_of_conv_image_fst)
  then have "map fst m = map fst m'"
    using assms(1,2) unfolding object_ok_def by (metis strict_sorted_equal)
  with entries_by_key [OF object_ok_distinct [OF assms(1)]] entries_by_key [OF object_ok_distinct [OF assms(2)]]
    assms(3) show ?thesis by metis
qed

text \<open>Inserting the entries of a well-formed object in any order gives the object.\<close>

lemma fold_object_insert:
  assumes "object_ok m" "set es = set m" "distinct (map fst es)"
  shows "fold (\<lambda>(k, v). object_insert k v) es [] = m"
proof (rule object_eqI)
  have "object_ok acc \<Longrightarrow> object_ok (fold (\<lambda>(k, v). object_insert k v) es acc)" for es and acc :: "(string \<times> 'a) list"
    by (induction es arbitrary: acc) (auto simp: object_insert_ok)
  then show "object_ok (fold (\<lambda>(k, v). object_insert k v) es [])" by (simp add: object_ok_def)
  have step: "distinct (map fst es) \<Longrightarrow>
      map_of (fold (\<lambda>(k, v). object_insert k v) es acc) = map_of acc ++ map_of es"
    for es and acc :: "(string \<times> 'a) list"
  proof (induction es arbitrary: acc)
    case (Cons e es)
    obtain k v where e: "e = (k, v)" by force
    from Cons.prems e have "k \<notin> dom (map_of es)" by (auto simp: dom_map_of_conv_image_fst)
    then show ?case using Cons e by (auto simp: fun_eq_iff map_add_def split: option.split)
  qed simp
  show "map_of (fold (\<lambda>(k, v). object_insert k v) es []) = map_of m"
    using step [OF assms(3), of "[]"] assms object_ok_distinct [OF assms(1)] by (simp add: map_of_inject_set)
qed (rule assms(1))

section \<open>Rust strings\<close>

definition to_ascii_lower :: "char \<Rightarrow> char" where
  "to_ascii_lower c = (let n = of_char c :: nat in if 65 \<le> n \<and> n \<le> 90 then char_of (n + 32) else c)"

definition eq_ignore_ascii_case :: "string \<Rightarrow> string \<Rightarrow> bool" where
  "eq_ignore_ascii_case a b \<longleftrightarrow> map to_ascii_lower a = map to_ascii_lower b"

text \<open>\<open>str::parse\<close> for a signed type: an optional sign, then digits, in the range of the type.\<close>

definition parse_signed :: "string \<Rightarrow> 'a::len word option" where
  "parse_signed s =
     (let negative = (s \<noteq> [] \<and> hd s = CHR ''-'');
          digits = (if s \<noteq> [] \<and> (hd s = CHR ''-'' \<or> hd s = CHR ''+'') then tl s else s)
      in case parse_nat digits of
           None \<Rightarrow> None
         | Some n \<Rightarrow>
             if negative then (if n \<le> 2 ^ (LENGTH('a) - 1) then Some (- of_nat n) else None)
             else (if n < 2 ^ (LENGTH('a) - 1) then Some (of_nat n) else None))"

definition bool_str :: "bool \<Rightarrow> string" where
  "bool_str b = (if b then ''true'' else ''false'')"

text \<open>UTF-8 validation of the standard library: the first position that is not valid, with the length
  of the invalid sequence, or without one at an incomplete end.\<close>

definition continuation :: "u8 \<Rightarrow> bool" where
  "continuation b \<longleftrightarrow> 0x80 \<le> b \<and> b \<le> 0xBF"

definition second_ok3 :: "u8 \<Rightarrow> u8 \<Rightarrow> bool" where
  "second_ok3 b c \<longleftrightarrow> (b = 0xE0 \<and> 0xA0 \<le> c \<and> c \<le> 0xBF) \<or> (0xE1 \<le> b \<and> b \<le> 0xEC \<and> continuation c) \<or>
     (b = 0xED \<and> 0x80 \<le> c \<and> c \<le> 0x9F) \<or> (0xEE \<le> b \<and> b \<le> 0xEF \<and> continuation c)"

definition second_ok4 :: "u8 \<Rightarrow> u8 \<Rightarrow> bool" where
  "second_ok4 b c \<longleftrightarrow> (b = 0xF0 \<and> 0x90 \<le> c \<and> c \<le> 0xBF) \<or> (0xF1 \<le> b \<and> b \<le> 0xF3 \<and> continuation c) \<or>
     (b = 0xF4 \<and> 0x80 \<le> c \<and> c \<le> 0x8F)"

text \<open>The check of one sequence: its length, or the error.\<close>

fun utf8_tail :: "(u8 \<Rightarrow> bool) list \<Rightarrow> nat \<Rightarrow> u8 list \<Rightarrow> (nat option, nat) result" where
  "utf8_tail [] n bs = Inr n"
| "utf8_tail (p # ps) n [] = Inl None"
| "utf8_tail (p # ps) n (b # bs) = (if p b then utf8_tail ps (Suc n) bs else Inl (Some n))"

definition utf8_sequence :: "u8 \<Rightarrow> u8 list \<Rightarrow> (nat option, nat) result" where
  "utf8_sequence b bs =
     (if b < 0x80 then Inr 1
      else if 0xC2 \<le> b \<and> b \<le> 0xDF then utf8_tail [continuation] 1 bs
      else if 0xE0 \<le> b \<and> b \<le> 0xEF then utf8_tail [second_ok3 b, continuation] 1 bs
      else if 0xF0 \<le> b \<and> b \<le> 0xF4 then utf8_tail [second_ok4 b, continuation, continuation] 1 bs
      else Inl (Some 1))"

lemma utf8_tail_ge: "utf8_tail ps n bs = Inr m \<Longrightarrow> n \<le> m"
  by (induction ps n bs rule: utf8_tail.induct) (auto split: if_splits)

lemma utf8_sequence_pos: "utf8_sequence b bs = Inr n \<Longrightarrow> 0 < n"
  using utf8_tail_ge [of _ 1 bs n] by (auto simp: utf8_sequence_def split: if_splits) fastforce+

function utf8_error :: "nat \<Rightarrow> u8 list \<Rightarrow> (nat \<times> nat option) option" where
  "utf8_error pos [] = None"
| "utf8_error pos (b # bs) = (case utf8_sequence b bs of
     Inl e \<Rightarrow> Some (pos, e)
   | Inr n \<Rightarrow> utf8_error (pos + n) (drop n (b # bs)))"
  by pat_completeness auto
termination
  by (relation "measure (length o snd)") (auto dest!: utf8_sequence_pos)

definition bytes_of :: "string \<Rightarrow> u8 list" where
  "bytes_of s = map of_char s"

definition string_of :: "u8 list \<Rightarrow> string" where
  "string_of bs = map (\<lambda>b. char_of (unat b)) bs"

definition from_utf8 :: "u8 list \<Rightarrow> (string, string) result" where
  "from_utf8 bs = (case utf8_error 0 bs of
     None \<Rightarrow> Inr (string_of bs)
   | Some (pos, Some n) \<Rightarrow> Inl (''invalid utf-8 sequence of '' @ nat_str n @ '' bytes from index '' @ nat_str pos)
   | Some (pos, None) \<Rightarrow> Inl (''incomplete utf-8 byte sequence from index '' @ nat_str pos))"

lemma unat_of_char [simp]: "unat (of_char c :: u8) = of_char c"
proof -
  have "(of_char c :: u8) = of_nat (of_char c)" by (rule of_nat_of_char [symmetric])
  moreover have "of_char c < (256 :: nat)" by (metis of_char_mod_256 mod_less_divisor zero_less_numeral)
  ultimately show ?thesis by (simp only: unsigned_of_nat) (simp add: take_bit_nat_eq_self)
qed

lemma of_char_char_of [simp]: "of_char (char_of (unat b)) = b" for b :: u8
proof -
  have "(of_char (char_of (unat b)) :: u8) = of_nat (of_char (char_of (unat b)))" by (rule of_nat_of_char [symmetric])
  also have "\<dots> = of_nat (unat b)" using unat_bound [of b] by (simp add: of_char_of)
  finally show ?thesis by simp
qed

lemma string_of_bytes_of [simp]: "string_of (bytes_of s) = s"
  by (simp add: string_of_def bytes_of_def comp_def)

lemma bytes_of_string_of [simp]: "bytes_of (string_of bs) = bs"
  by (simp add: string_of_def bytes_of_def comp_def)

lemma length_bytes_of [simp]: "length (bytes_of s) = length s"
  by (simp add: bytes_of_def)

section \<open>Conversions to scalars\<close>

definition client :: "string \<Rightarrow> (pulse_error, 'a) result" where
  "client m = Inl (Client m)"

definition to_string_value :: "'n codec_lib \<Rightarrow> 'n json \<Rightarrow> (pulse_error, string) result" where
  "to_string_value J v = (case v of
     JString s \<Rightarrow> Inr s
   | JNumber n \<Rightarrow> Inr (num_str J n)
   | JBool b \<Rightarrow> Inr (bool_str b)
   | JNull \<Rightarrow> client ''null is not valid here''
   | _ \<Rightarrow> client ''object/array is not valid for scalar field'')"

definition to_bool :: "'n codec_lib \<Rightarrow> 'n json \<Rightarrow> (pulse_error, bool) result" where
  "to_bool J v =
     (let other = client (''expected boolean value, got '' @ json_str J v)
      in case v of
           JBool b \<Rightarrow> Inr b
         | JString s \<Rightarrow>
             if eq_ignore_ascii_case s ''true'' then Inr True
             else if eq_ignore_ascii_case s ''false'' then Inr False
             else other
         | _ \<Rightarrow> other)"

text \<open>The numeric conversions share their shape: a number is converted by \<open>num\<close>, a string by
  \<open>parse\<close>, and everything else is an error naming the expected type.\<close>

definition to_number ::
  "string \<Rightarrow> 'n codec_lib \<Rightarrow> ('n \<Rightarrow> 'a option) \<Rightarrow> (string \<Rightarrow> 'a option) \<Rightarrow> 'n json \<Rightarrow> (pulse_error, 'a) result" where
  "to_number type_name J num parse v =
     (let other = Client (''expected '' @ type_name @ '' value, got '' @ json_str J v)
      in case v of
           JNumber n \<Rightarrow> ok_or (num n) other
         | JString s \<Rightarrow> ok_or (parse s) (Client (''expected '' @ type_name @ '' string, got '' @ quoted s))
         | _ \<Rightarrow> Inl other)"

definition i32_of_i64 :: "i64 \<Rightarrow> i32 option" where
  "i32_of_i64 v = (if - (2 ^ 31) \<le> sint v \<and> sint v < 2 ^ 31 then Some (ucast v) else None)"

definition u32_of_u64 :: "u64 \<Rightarrow> u32 option" where
  "u32_of_u64 v = (if unat v < 2 ^ 32 then Some (ucast v) else None)"

definition to_i32 :: "'n codec_lib \<Rightarrow> 'n json \<Rightarrow> (pulse_error, i32) result" where
  "to_i32 J = to_number ''i32'' J (\<lambda>n. Option.bind (as_i64 J n) i32_of_i64) parse_signed"

definition to_i64 :: "'n codec_lib \<Rightarrow> 'n json \<Rightarrow> (pulse_error, i64) result" where
  "to_i64 J = to_number ''i64'' J (as_i64 J) parse_signed"

definition to_u32 :: "'n codec_lib \<Rightarrow> 'n json \<Rightarrow> (pulse_error, u32) result" where
  "to_u32 J = to_number ''u32'' J (\<lambda>n. Option.bind (as_u64 J n) u32_of_u64) parse_word"

definition to_u64 :: "'n codec_lib \<Rightarrow> 'n json \<Rightarrow> (pulse_error, u64) result" where
  "to_u64 J = to_number ''u64'' J (as_u64 J) parse_word"

definition to_f32 :: "'n codec_lib \<Rightarrow> 'n json \<Rightarrow> (pulse_error, u32) result" where
  "to_f32 J = to_number ''float'' J (\<lambda>n. map_option (narrow_f64 J) (as_f64 J n)) (parse_f32 J)"

definition to_f64 :: "'n codec_lib \<Rightarrow> 'n json \<Rightarrow> (pulse_error, u64) result" where
  "to_f64 J = to_number ''double'' J (as_f64 J) (parse_f64 J)"

definition to_bytes :: "'n codec_lib \<Rightarrow> 'n json \<Rightarrow> (pulse_error, u8 list) result" where
  "to_bytes J v = (case v of
     JString s \<Rightarrow> (case strip_prefix_str ''base64:'' s of
       Some encoded \<Rightarrow> (case b64_decode J encoded of
         Inl e \<Rightarrow> client (''invalid base64 bytes value: '' @ e)
       | Inr data \<Rightarrow> Inr data)
     | None \<Rightarrow> Inr (bytes_of s))
   | _ \<Rightarrow> client (''expected bytes field as string, got '' @ json_str J v))"

section \<open>The numbers of the JSON library\<close>

text \<open>The documented representation: a non-negative integer, a negative integer, or a finite double.\<close>

datatype json_number = PosInt u64 | NegInt i64 | Float u64

definition finite_bits :: "u64 \<Rightarrow> bool" where
  "finite_bits x \<longleftrightarrow> drop_bit 52 x AND 0x7FF \<noteq> 0x7FF"

definition serde_numbers :: "json_number codec_lib" where
  "serde_numbers =
     \<lparr>num_i64 = (\<lambda>v. if 0 \<le> sint v then PosInt v else NegInt v),
      num_u64 = PosInt,
      num_f64 = (\<lambda>x. if finite_bits x then Some (Float x) else None),
      as_i64 = (\<lambda>n. case n of PosInt v \<Rightarrow> (if unat v < 2 ^ 63 then Some v else None) | NegInt v \<Rightarrow> Some v | Float _ \<Rightarrow> None),
      as_u64 = (\<lambda>n. case n of PosInt v \<Rightarrow> Some v | _ \<Rightarrow> None),
      as_f64 = (\<lambda>n. Some (case n of
         PosInt v \<Rightarrow> f64_to_bits (f64_of_nat (unat v))
       | NegInt v \<Rightarrow> f64_to_bits (f64_round (of_int (sint v)))
       | Float x \<Rightarrow> x)),
      num_str = (\<lambda>n. case n of PosInt v \<Rightarrow> word_str v | NegInt v \<Rightarrow> int_str (sint v) | Float _ \<Rightarrow> []),
      json_str = (\<lambda>_. []), parse_f64 = (\<lambda>_. None), parse_f32 = (\<lambda>_. None),
      narrow_f64 = (\<lambda>_. 0), widen_f32 = (\<lambda>_. 0),
      b64_encode = (\<lambda>_. []), b64_decode = (\<lambda>_. Inl [])\<rparr>"

lemma sint_nonneg_uint: "0 \<le> sint v \<Longrightarrow> uint v = sint v" for v :: i64
  using uint_sint [of v] sint_lt [of v] by (simp add: take_bit_int_eq_self)

lemma sint_nonneg_unat: "0 \<le> sint v \<Longrightarrow> unat v < 9223372036854775808" for v :: i64
  using sint_nonneg_uint [of v] sint_lt [of v] by (simp add: unat_eq_nat_uint)

interpretation serde: json_numbers serde_numbers
  by unfold_locales (auto simp: serde_numbers_def sint_nonneg_unat split: if_splits)

end
