(* ===== verification/Grpc_Schema.thy ===== *)
theory Grpc_Schema
  imports Json_Values "HOL-Library.Finite_Map"
begin

text \<open>
  The schema side of \<open>infrastructure/grpc/dynamic_gateway.rs\<close>: the registries of messages and methods
  and their construction from a descriptor set, which they represent message by message, field by field
  and method by method.

  The descriptor types of \<open>prost_types\<close> are records with the fields the source reads; the bytes of a
  descriptor file and their decoding are the argument \<open>read_set\<close>.  The numbers of the protobuf
  field types and labels are those of \<open>descriptor.proto\<close>.
\<close>

section \<open>Types\<close>

datatype FieldKind =
    KDouble | KFloat | KInt64 | KUInt64 | KInt32 | KFixed64 | KFixed32 | KBool | KString
  | KMessage string | KBytes | KUInt32 | KEnum | KSFixed32 | KSFixed64 | KSInt32 | KSInt64

record FieldSchema =
  fs_name :: string
  fs_number :: u32
  fs_repeated :: bool
  fs_packable :: bool
  fs_kind :: FieldKind

record MessageSchema =
  fields_by_name :: "(string, u32) fmap"
  fields_by_number :: "(u32, FieldSchema) fmap"

record MethodMeta =
  route_path :: string
  client_streaming :: bool
  server_streaming :: bool
  input_type :: string
  output_type :: string

type_synonym MethodRegistry = "(string \<times> string, MethodMeta) fmap"
type_synonym MessageRegistry = "(string, MessageSchema) fmap"

record FieldDescriptor =
  fd_name :: "string option"
  fd_number :: "i32 option"
  fd_label :: "i32 option"
  fd_type :: "i32 option"
  fd_type_name :: "string option"
  fd_json_name :: "string option"

datatype DescriptorProto =
  DescriptorProto (dp_name: "string option") (dp_field: "FieldDescriptor list") (dp_nested: "DescriptorProto list")

record MethodDescriptor =
  md_name :: "string option"
  md_input_type :: "string option"
  md_output_type :: "string option"
  md_client_streaming :: "bool option"
  md_server_streaming :: "bool option"

record ServiceDescriptor =
  sd_name :: "string option"
  sd_method :: "MethodDescriptor list"

record FileDescriptor =
  file_package :: "string option"
  file_message_type :: "DescriptorProto list"
  file_service :: "ServiceDescriptor list"

section \<open>Loading\<close>

definition normalize_name :: "string \<Rightarrow> string" where
  "normalize_name s = dropWhile (\<lambda>c. c = CHR ''.'') s"

definition is_packable :: "FieldKind \<Rightarrow> bool" where
  "is_packable kind = (case kind of KString \<Rightarrow> False | KMessage _ \<Rightarrow> False | KBytes \<Rightarrow> False | _ \<Rightarrow> True)"

definition map_field_kind :: "i32 \<Rightarrow> string option \<Rightarrow> (pulse_error, FieldKind) result option" where
  "map_field_kind field_type type_name =
     (if field_type = 1 then Some (Inr KDouble) else if field_type = 2 then Some (Inr KFloat)
      else if field_type = 3 then Some (Inr KInt64) else if field_type = 4 then Some (Inr KUInt64)
      else if field_type = 5 then Some (Inr KInt32) else if field_type = 6 then Some (Inr KFixed64)
      else if field_type = 7 then Some (Inr KFixed32) else if field_type = 8 then Some (Inr KBool)
      else if field_type = 9 then Some (Inr KString)
      else if field_type = 10 then Some (client ''protobuf groups are not supported'')
      else if field_type = 11
      then Some (Inr (KMessage (normalize_name (case type_name of None \<Rightarrow> [] | Some t \<Rightarrow> t))))
      else if field_type = 12 then Some (Inr KBytes) else if field_type = 13 then Some (Inr KUInt32)
      else if field_type = 14 then Some (Inr KEnum) else if field_type = 15 then Some (Inr KSFixed32)
      else if field_type = 16 then Some (Inr KSFixed64) else if field_type = 17 then Some (Inr KSInt32)
      else if field_type = 18 then Some (Inr KSInt64) else None)"

definition blank :: "string \<Rightarrow> bool" where
  "blank s \<longleftrightarrow> trim s = []"

fun collect_fields ::
  "string \<Rightarrow> FieldDescriptor list \<Rightarrow> MessageSchema \<Rightarrow> (pulse_error, MessageSchema) result" where
  "collect_fields full_name [] schema = Inr schema"
| "collect_fields full_name (field # rest) schema =
     (let field_name = (case fd_name field of None \<Rightarrow> [] | Some n \<Rightarrow> n);
          number = (case fd_number field of None \<Rightarrow> 0 | Some n \<Rightarrow> n)
      in if blank field_name \<or> sint number \<le> 0 then collect_fields full_name rest schema
         else case map_field_kind (case fd_type field of None \<Rightarrow> 0 | Some t \<Rightarrow> t) (fd_type_name field) of
           None \<Rightarrow> client (''unsupported field type for '' @ full_name @ ''.'' @ field_name)
         | Some (Inl e) \<Rightarrow> Inl e
         | Some (Inr kind) \<Rightarrow>
             let names = fmupd field_name number (fields_by_name schema);
                 names' = (case fd_json_name field of
                   Some j \<Rightarrow> if blank j then names else fmupd j number names
                 | None \<Rightarrow> names);
                 entry = \<lparr>fs_name = field_name, fs_number = number, fs_repeated = (fd_label field = Some 3),
                   fs_packable = is_packable kind, fs_kind = kind\<rparr>
             in collect_fields full_name rest
                  \<lparr>fields_by_name = names', fields_by_number = fmupd number entry (fields_by_number schema)\<rparr>)"

definition full_name_of :: "string \<Rightarrow> string option \<Rightarrow> string \<Rightarrow> string" where
  "full_name_of package parent name = (case parent of
     Some p \<Rightarrow> p @ ''.'' @ name
   | None \<Rightarrow> if package = [] then name else package @ ''.'' @ name)"

fun collect_messages ::
  "string \<Rightarrow> string option \<Rightarrow> DescriptorProto list \<Rightarrow> MessageRegistry \<Rightarrow> (pulse_error, MessageRegistry) result" where
  "collect_messages package parent [] out = Inr out"
| "collect_messages package parent (DescriptorProto name field nested # rest) out = (case name of
     None \<Rightarrow> collect_messages package parent rest out
   | Some n \<Rightarrow>
       if blank n then collect_messages package parent rest out
       else
         let full_name = full_name_of package parent n
         in case collect_fields full_name field \<lparr>fields_by_name = fmempty, fields_by_number = fmempty\<rparr> of
              Inl e \<Rightarrow> Inl e
            | Inr schema \<Rightarrow>
                if fmlookup out full_name \<noteq> None
                then client (''duplicate message in descriptor set: '' @ full_name)
                else case collect_messages package (Some full_name) nested (fmupd full_name schema out) of
                  Inl e \<Rightarrow> Inl e
                | Inr out' \<Rightarrow> collect_messages package parent rest out')"

fun load_methods ::
  "string \<Rightarrow> MessageRegistry \<Rightarrow> MethodDescriptor list \<Rightarrow> MethodRegistry \<Rightarrow> (pulse_error, MethodRegistry) result" where
  "load_methods service messages [] methods = Inr methods"
| "load_methods service messages (m # rest) methods = (case md_name m of
     None \<Rightarrow> load_methods service messages rest methods
   | Some name \<Rightarrow>
       if blank name then load_methods service messages rest methods
       else
         let input = normalize_name (case md_input_type m of None \<Rightarrow> [] | Some t \<Rightarrow> t);
             output = normalize_name (case md_output_type m of None \<Rightarrow> [] | Some t \<Rightarrow> t);
             label = service @ ''/'' @ name
         in if fmlookup messages input = None
            then client (''input type '' @ quoted input @ '' for '' @ label @ '' not found in descriptor set'')
            else if fmlookup messages output = None
            then client (''output type '' @ quoted output @ '' for '' @ label @ '' not found in descriptor set'')
            else if fmlookup methods (service, name) \<noteq> None
            then client (''duplicate method in descriptor set: '' @ label)
            else load_methods service messages rest (fmupd (service, name)
              \<lparr>route_path = ''/'' @ label,
               client_streaming = (md_client_streaming m = Some True),
               server_streaming = (md_server_streaming m = Some True),
               input_type = input, output_type = output\<rparr> methods))"

fun load_services ::
  "string \<Rightarrow> MessageRegistry \<Rightarrow> ServiceDescriptor list \<Rightarrow> MethodRegistry \<Rightarrow> (pulse_error, MethodRegistry) result" where
  "load_services package messages [] methods = Inr methods"
| "load_services package messages (s # rest) methods = (case sd_name s of
     None \<Rightarrow> load_services package messages rest methods
   | Some name \<Rightarrow>
       if blank name then load_services package messages rest methods
       else case load_methods (if package = [] then name else package @ ''.'' @ name) messages (sd_method s) methods of
         Inl e \<Rightarrow> Inl e
       | Inr methods' \<Rightarrow> load_services package messages rest methods')"

fun load_files ::
  "FileDescriptor list \<Rightarrow> MethodRegistry \<times> MessageRegistry \<Rightarrow> (pulse_error, MethodRegistry \<times> MessageRegistry) result" where
  "load_files [] registries = Inr registries"
| "load_files (f # rest) (methods, messages) =
     (let package = (case file_package f of None \<Rightarrow> [] | Some p \<Rightarrow> p)
      in try_res (collect_messages package None (file_message_type f) messages) (\<lambda>messages'.
         try_res (load_services package messages' (file_service f) methods) (\<lambda>methods'.
           load_files rest (methods', messages'))))"

definition load_schema ::
  "(string \<Rightarrow> (pulse_error, FileDescriptor list) result) \<Rightarrow> string
     \<Rightarrow> (pulse_error, MethodRegistry \<times> MessageRegistry) result" where
  "load_schema read_set path =
     try_res (read_set path) (\<lambda>files.
     try_res (load_files files (fmempty, fmempty)) (\<lambda>(methods, messages).
       if methods = fmempty
       then client (''descriptor set '' @ quoted path @ '' does not contain any service methods'')
       else Inr (methods, messages)))"

section \<open>The gateway\<close>

definition method_meta :: "MethodRegistry \<Rightarrow> string \<Rightarrow> string \<Rightarrow> (pulse_error, MethodMeta) result" where
  "method_meta methods service method =
     (let s = normalize_name service
      in ok_or (fmlookup methods (s, method))
           (Client (''method not found in descriptor set: '' @ s @ ''/'' @ method)))"

definition validate_unary_method :: "MethodRegistry \<Rightarrow> string \<Rightarrow> string \<Rightarrow> (pulse_error, unit) result" where
  "validate_unary_method methods service method =
     try_res (method_meta methods service method) (\<lambda>meta.
       if client_streaming meta \<or> server_streaming meta
       then Inl (InvalidScenario (''method '' @ service @ ''/'' @ method
         @ '' is streaming; only unary methods are supported''))
       else Inr ())"

section \<open>Well-formed registries\<close>

definition schema_ok :: "MessageSchema \<Rightarrow> bool" where
  "schema_ok s \<longleftrightarrow>
     (\<forall>k n. fmlookup (fields_by_name s) k = Some n \<longrightarrow> (\<exists>f. fmlookup (fields_by_number s) n = Some f)) \<and>
     (\<forall>n f. fmlookup (fields_by_number s) n = Some f \<longrightarrow>
        fs_number f = n \<and> 0 < sint n \<and> fs_packable f = is_packable (fs_kind f) \<and> \<not> blank (fs_name f))"

definition messages_ok :: "MessageRegistry \<Rightarrow> bool" where
  "messages_ok messages \<longleftrightarrow> (\<forall>name s. fmlookup messages name = Some s \<longrightarrow> schema_ok s)"

definition methods_ok :: "MessageRegistry \<Rightarrow> MethodRegistry \<Rightarrow> bool" where
  "methods_ok messages methods \<longleftrightarrow> (\<forall>key meta. fmlookup methods key = Some meta \<longrightarrow>
     fmlookup messages (input_type meta) \<noteq> None \<and> fmlookup messages (output_type meta) \<noteq> None \<and>
     route_path meta = ''/'' @ fst key @ ''/'' @ snd key)"

definition extends :: "MessageRegistry \<Rightarrow> MessageRegistry \<Rightarrow> bool" where
  "extends messages messages' \<longleftrightarrow>
     (\<forall>name s. fmlookup messages name = Some s \<longrightarrow> fmlookup messages' name = Some s)"

lemma collect_fields_ok:
  "collect_fields full_name fds schema = Inr schema' \<Longrightarrow> schema_ok schema \<Longrightarrow> schema_ok schema'"
proof (induction full_name fds schema rule: collect_fields.induct)
  case (2 full_name field rest schema)
  let ?name = "case fd_name field of None \<Rightarrow> [] | Some n \<Rightarrow> n"
  let ?number = "case fd_number field of None \<Rightarrow> 0 | Some n \<Rightarrow> n"
  let ?kind = "map_field_kind (case fd_type field of None \<Rightarrow> 0 | Some t \<Rightarrow> t) (fd_type_name field)"
  show ?case
  proof (cases "blank ?name \<or> sint ?number \<le> 0")
    case True
    with 2(1) [OF refl refl True] 2(3,4) show ?thesis by simp
  next
    case False
    with 2(3) obtain kind where kind: "?kind = Some (Inr kind)"
      by (auto simp: Let_def client_def split: option.splits sum.splits if_splits)
    have step: "schema_ok \<lparr>fields_by_name = names, fields_by_number = fmupd ?number \<lparr>fs_name = ?name,
        fs_number = ?number, fs_repeated = r, fs_packable = is_packable kind, fs_kind = kind\<rparr>
        (fields_by_number schema)\<rparr>"
      if "\<And>k n. fmlookup names k = Some n \<Longrightarrow> n = ?number \<or> fmlookup (fields_by_name schema) k = Some n" for names r
    proof -
      from 2(4) have old: "\<exists>f. fmlookup (fields_by_number schema) n = Some f"
        if "fmlookup (fields_by_name schema) k = Some n" for k n
        using that unfolding schema_ok_def by blast
      then have new: "\<exists>f. fmlookup (fields_by_number schema) n = Some f"
        if "fmlookup names k = Some n" "?number \<noteq> n" for k n
        using that \<open>\<And>k n. fmlookup names k = Some n \<Longrightarrow> _\<close> by blast
      from 2(4) have "fs_number f = n \<and> 0 < sint n \<and> fs_packable f = is_packable (fs_kind f) \<and> \<not> blank (fs_name f)"
        if "fmlookup (fields_by_number schema) n = Some f" for n f
        using that unfolding schema_ok_def by blast
      with new False show ?thesis unfolding schema_ok_def by (auto simp: not_le)
    qed
    let ?names = "fmupd ?name ?number (fields_by_name schema)"
    let ?names' = "case fd_json_name field of Some j \<Rightarrow> if blank j then ?names else fmupd j ?number ?names | None \<Rightarrow> ?names"
    let ?entry = "\<lparr>fs_name = ?name, fs_number = ?number, fs_repeated = (fd_label field = Some 3),
      fs_packable = is_packable kind, fs_kind = kind\<rparr>"
    let ?next = "\<lparr>fields_by_name = ?names', fields_by_number = fmupd ?number ?entry (fields_by_number schema)\<rparr>"
    have "collect_fields full_name rest ?next = Inr schema'"
      using 2(3) False kind by (simp add: Let_def)
    moreover have "schema_ok ?next"
      by (rule step) (auto split: option.splits if_splits)
    ultimately show ?thesis
      using 2(2) [OF refl refl False kind refl refl refl refl] by simp
  qed
qed simp

lemma collect_messages_ok:
  "collect_messages package parent ds out = Inr out' \<Longrightarrow> messages_ok out \<Longrightarrow> messages_ok out' \<and> extends out out'"
proof (induction package parent ds out arbitrary: out' rule: collect_messages.induct)
  case (2 package parent name field nested rest out)
  show ?case
  proof (cases "\<exists>n. name = Some n \<and> \<not> blank n")
    case False
    with 2 show ?thesis by (auto split: option.splits)
  next
    case True
    then obtain n where n: "name = Some n" "\<not> blank n" by blast
    let ?full = "full_name_of package parent n"
    let ?empty = "\<lparr>fields_by_name = fmempty, fields_by_number = fmempty\<rparr>"
    from 2(5) n obtain schema mid where run: "collect_fields ?full field ?empty = Inr schema"
      "fmlookup out ?full = None" "collect_messages package (Some ?full) nested (fmupd ?full schema out) = Inr mid"
      "collect_messages package parent rest mid = Inr out'"
      by (auto simp: Let_def client_def split: sum.splits if_splits)
    have "schema_ok schema" by (rule collect_fields_ok [OF run(1)]) (simp add: schema_ok_def)
    with 2(6) have "messages_ok (fmupd ?full schema out)" by (auto simp: messages_ok_def)
    moreover have "extends out (fmupd ?full schema out)" using run(2) by (auto simp: extends_def)
    ultimately show ?thesis
      using 2(3) [OF n refl run(1) _ run(3)] 2(4) [OF n refl run(1) _ run(3,4)] run(2) by (auto simp: extends_def)
  qed
qed (simp add: extends_def)

lemma methods_ok_extends: "methods_ok messages methods \<Longrightarrow> extends messages messages' \<Longrightarrow> methods_ok messages' methods"
  unfolding methods_ok_def extends_def by (metis not_Some_eq)

lemma load_methods_ok:
  "load_methods service messages ms methods = Inr methods' \<Longrightarrow> methods_ok messages methods \<Longrightarrow> methods_ok messages methods'"
proof (induction service messages ms methods rule: load_methods.induct)
  case (2 service messages m rest methods)
  show ?case
  proof (cases "\<exists>n. md_name m = Some n \<and> \<not> blank n")
    case False
    with 2 show ?thesis by (auto split: option.splits)
  next
    case True
    then obtain n where n: "md_name m = Some n" "\<not> blank n" by blast
    let ?in = "normalize_name (case md_input_type m of None \<Rightarrow> [] | Some t \<Rightarrow> t)"
    let ?out = "normalize_name (case md_output_type m of None \<Rightarrow> [] | Some t \<Rightarrow> t)"
    let ?meta = "\<lparr>route_path = ''/'' @ service @ ''/'' @ n, client_streaming = (md_client_streaming m = Some True),
      server_streaming = (md_server_streaming m = Some True), input_type = ?in, output_type = ?out\<rparr>"
    from 2(4) n have run: "fmlookup messages ?in \<noteq> None" "fmlookup messages ?out \<noteq> None"
      "fmlookup methods (service, n) = None"
      "load_methods service messages rest (fmupd (service, n) ?meta methods) = Inr methods'"
      by (simp_all add: Let_def client_def split: if_splits)
    with 2(5) have "methods_ok messages (fmupd (service, n) ?meta methods)" by (auto simp: methods_ok_def)
    with 2(3) [OF n refl refl refl _ _ _] run show ?thesis by simp
  qed
qed simp

lemma load_services_ok:
  "load_services package messages ss methods = Inr methods' \<Longrightarrow> methods_ok messages methods \<Longrightarrow> methods_ok messages methods'"
  by (induction package messages ss methods rule: load_services.induct)
     (auto split: option.splits if_splits sum.splits dest: load_methods_ok)

lemma load_files_ok:
  "load_files fs (methods, messages) = Inr (methods', messages') \<Longrightarrow> messages_ok messages \<Longrightarrow>
   methods_ok messages methods \<Longrightarrow> messages_ok messages' \<and> methods_ok messages' methods'"
proof (induction fs arbitrary: methods messages)
  case (Cons f fs)
  let ?p = "case file_package f of None \<Rightarrow> [] | Some p \<Rightarrow> p"
  from Cons.prems(1) obtain m1 d1 where run: "collect_messages ?p None (file_message_type f) messages = Inr m1"
    "load_services ?p m1 (file_service f) methods = Inr d1" "load_files fs (d1, m1) = Inr (methods', messages')"
    by (auto simp: Let_def try_res_Inr_iff)
  from collect_messages_ok [OF run(1) Cons.prems(2)] Cons.prems(3)
  have "messages_ok m1" "methods_ok m1 methods" by (auto dest: methods_ok_extends)
  with load_services_ok [OF run(2)] Cons.IH [OF run(3)] show ?case by blast
qed simp

section \<open>What a descriptor set declares\<close>

text \<open>The named messages of a file with their full names, nested ones included.\<close>

fun declared :: "string \<Rightarrow> string option \<Rightarrow> DescriptorProto list \<Rightarrow> (string \<times> FieldDescriptor list) list" where
  "declared package parent [] = []"
| "declared package parent (DescriptorProto name field nested # rest) = (case name of
     None \<Rightarrow> declared package parent rest
   | Some n \<Rightarrow>
       if blank n then declared package parent rest
       else (full_name_of package parent n, field)
         # declared package (Some (full_name_of package parent n)) nested @ declared package parent rest)"

definition declared_by :: "FileDescriptor list \<Rightarrow> (string \<times> FieldDescriptor list) list" where
  "declared_by files = concat (map (\<lambda>f.
     declared (case file_package f of None \<Rightarrow> [] | Some p \<Rightarrow> p) None (file_message_type f)) files)"

text \<open>The named methods of the named services, under the full name of their service.\<close>

definition named :: "string option \<Rightarrow> bool" where
  "named name \<longleftrightarrow> (case name of None \<Rightarrow> False | Some n \<Rightarrow> \<not> blank n)"

definition service_methods :: "string \<Rightarrow> MethodDescriptor list \<Rightarrow> (string \<times> MethodDescriptor) list" where
  "service_methods service ms = map (Pair service) (filter (\<lambda>m. named (md_name m)) ms)"

definition package_methods :: "string \<Rightarrow> ServiceDescriptor list \<Rightarrow> (string \<times> MethodDescriptor) list" where
  "package_methods package services = concat (map (\<lambda>s.
     service_methods (if package = [] then the (sd_name s) else package @ ''.'' @ the (sd_name s)) (sd_method s))
     (filter (\<lambda>s. named (sd_name s)) services))"

definition methods_declared_by :: "FileDescriptor list \<Rightarrow> (string \<times> MethodDescriptor) list" where
  "methods_declared_by files = concat (map (\<lambda>f.
     package_methods (case file_package f of None \<Rightarrow> [] | Some p \<Rightarrow> p) (file_service f)) files)"

definition method_key :: "string \<times> MethodDescriptor \<Rightarrow> string \<times> string" where
  "method_key d = (fst d, the (md_name (snd d)))"

definition describes :: "MethodDescriptor \<Rightarrow> MethodMeta \<Rightarrow> bool" where
  "describes m meta \<longleftrightarrow>
     client_streaming meta = (md_client_streaming m = Some True) \<and>
     server_streaming meta = (md_server_streaming m = Some True) \<and>
     input_type meta = normalize_name (case md_input_type m of None \<Rightarrow> [] | Some t \<Rightarrow> t) \<and>
     output_type meta = normalize_name (case md_output_type m of None \<Rightarrow> [] | Some t \<Rightarrow> t)"

text \<open>A field with a name and a positive number, and the names under which JSON may refer to it.\<close>

definition label_of :: "FieldDescriptor \<Rightarrow> string" where
  "label_of f = (case fd_name f of None \<Rightarrow> [] | Some n \<Rightarrow> n)"

definition number_of :: "FieldDescriptor \<Rightarrow> u32" where
  "number_of f = (case fd_number f of None \<Rightarrow> 0 | Some n \<Rightarrow> n)"

definition usable :: "FieldDescriptor \<Rightarrow> bool" where
  "usable f \<longleftrightarrow> \<not> blank (label_of f) \<and> 0 < sint (number_of f)"

definition accepted_names :: "FieldDescriptor \<Rightarrow> string set" where
  "accepted_names f = insert (label_of f) (case fd_json_name f of
     Some j \<Rightarrow> if blank j then {} else {j} | None \<Rightarrow> {})"

text \<open>No two fields of a message share a number or an accepted name.\<close>

fun unambiguous :: "FieldDescriptor list \<Rightarrow> bool" where
  "unambiguous [] \<longleftrightarrow> True"
| "unambiguous (f # rest) \<longleftrightarrow> unambiguous rest \<and> (usable f \<longrightarrow> list_all (\<lambda>g. usable g \<longrightarrow>
     number_of f \<noteq> number_of g \<and> accepted_names f \<inter> accepted_names g = {}) rest)"

text \<open>The schema has the field: its number leads to its entry, and each of its names to its number.\<close>

definition has_field :: "MessageSchema \<Rightarrow> FieldDescriptor \<Rightarrow> bool" where
  "has_field s f \<longleftrightarrow> (\<exists>kind.
     map_field_kind (case fd_type f of None \<Rightarrow> 0 | Some t \<Rightarrow> t) (fd_type_name f) = Some (Inr kind) \<and>
     fmlookup (fields_by_number s) (number_of f) = Some \<lparr>fs_name = label_of f, fs_number = number_of f,
       fs_repeated = (fd_label f = Some 3), fs_packable = is_packable kind, fs_kind = kind\<rparr>) \<and>
     (\<forall>k \<in> accepted_names f. fmlookup (fields_by_name s) k = Some (number_of f))"

definition represents :: "FieldDescriptor list \<Rightarrow> MessageSchema \<Rightarrow> bool" where
  "represents fds s \<longleftrightarrow>
     fset (fmdom (fields_by_name s)) = \<Union> (accepted_names ` {f \<in> set fds. usable f}) \<and>
     fset (fmdom (fields_by_number s)) = number_of ` {f \<in> set fds. usable f} \<and>
     (unambiguous fds \<longrightarrow> (\<forall>f \<in> set fds. usable f \<longrightarrow> has_field s f))"

section \<open>A loaded set represents what it declares\<close>

definition put_field :: "FieldDescriptor \<Rightarrow> FieldKind \<Rightarrow> MessageSchema \<Rightarrow> MessageSchema" where
  "put_field f kind s =
     (let names = fmupd (label_of f) (number_of f) (fields_by_name s)
      in \<lparr>fields_by_name = (case fd_json_name f of
            Some j \<Rightarrow> if blank j then names else fmupd j (number_of f) names | None \<Rightarrow> names),
          fields_by_number = fmupd (number_of f) \<lparr>fs_name = label_of f, fs_number = number_of f,
            fs_repeated = (fd_label f = Some 3), fs_packable = is_packable kind, fs_kind = kind\<rparr> (fields_by_number s)\<rparr>)"

lemma put_field_lookup:
  "fmlookup (fields_by_name (put_field f kind s)) k =
     (if k \<in> accepted_names f then Some (number_of f) else fmlookup (fields_by_name s) k)"
  "fmlookup (fields_by_number (put_field f kind s)) n =
     (if n = number_of f then Some \<lparr>fs_name = label_of f, fs_number = number_of f,
        fs_repeated = (fd_label f = Some 3), fs_packable = is_packable kind, fs_kind = kind\<rparr>
      else fmlookup (fields_by_number s) n)"
  by (auto simp: put_field_def accepted_names_def Let_def split: option.split)

lemma put_field_dom:
  "fset (fmdom (fields_by_name (put_field f kind s))) = accepted_names f \<union> fset (fmdom (fields_by_name s))"
  "fset (fmdom (fields_by_number (put_field f kind s))) = insert (number_of f) (fset (fmdom (fields_by_number s)))"
  by (auto simp: fmlookup_dom_iff put_field_lookup split: if_splits)

lemma collect_fields_Cons:
  assumes "collect_fields full_name (f # rest) s = Inr s'"
  shows "\<not> usable f \<and> collect_fields full_name rest s = Inr s' \<or> usable f \<and> (\<exists>kind.
     map_field_kind (case fd_type f of None \<Rightarrow> 0 | Some t \<Rightarrow> t) (fd_type_name f) = Some (Inr kind) \<and>
     collect_fields full_name rest (put_field f kind s) = Inr s')"
proof (cases "usable f")
  case True
  then have "\<not> (blank (label_of f) \<or> sint (number_of f) \<le> 0)" by (auto simp: usable_def)
  with assms True show ?thesis
    by (auto simp: label_of_def [symmetric] number_of_def [symmetric] put_field_def Let_def client_def
        split: option.splits sum.splits)
next
  case False
  then have "blank (label_of f) \<or> sint (number_of f) \<le> 0" by (auto simp: usable_def)
  with assms False show ?thesis
    by (simp add: label_of_def [symmetric] number_of_def [symmetric])
qed

text \<open>Fields leave the entries of other names and numbers alone.\<close>

lemma collect_fields_keeps:
  "collect_fields full_name fds s = Inr s' \<Longrightarrow>
   (\<forall>f \<in> set fds. usable f \<longrightarrow> k \<notin> accepted_names f) \<longrightarrow> fmlookup (fields_by_name s') k = fmlookup (fields_by_name s) k"
  "collect_fields full_name fds s = Inr s' \<Longrightarrow>
   (\<forall>f \<in> set fds. usable f \<longrightarrow> n \<noteq> number_of f) \<longrightarrow> fmlookup (fields_by_number s') n = fmlookup (fields_by_number s) n"
proof (induction fds arbitrary: s)
  case (Cons f fds)
  case 1
  from collect_fields_Cons [OF this] Cons.IH(1) show ?case by (auto simp: put_field_lookup)
next
  case (Cons f fds)
  case 2
  from collect_fields_Cons [OF this] Cons.IH(2) show ?case by (auto simp: put_field_lookup)
qed simp_all

lemma collect_fields_has_field:
  assumes "collect_fields full_name fds s = Inr s'" "unambiguous fds" "f \<in> set fds" "usable f"
  shows "has_field s' f"
  using assms
proof (induction fds arbitrary: s)
  case (Cons g fds)
  from collect_fields_Cons [OF Cons.prems(1)] show ?case
  proof (elim disjE conjE exE)
    assume "\<not> usable g" "collect_fields full_name fds s = Inr s'"
    with Cons show ?thesis by auto
  next
    fix kind
    assume g: "usable g" "map_field_kind (case fd_type g of None \<Rightarrow> 0 | Some t \<Rightarrow> t) (fd_type_name g) = Some (Inr kind)"
      and rest: "collect_fields full_name fds (put_field g kind s) = Inr s'"
    show ?thesis
    proof (cases "f \<in> set fds")
      case True
      with Cons rest show ?thesis by simp
    next
      case False
      with Cons.prems have f: "f = g" by simp
      have apart: "number_of g \<noteq> number_of h \<and> accepted_names g \<inter> accepted_names h = {}"
        if "h \<in> set fds" "usable h" for h
        using Cons.prems(2) g(1) that by (auto simp: list_all_iff)
      have "fmlookup (fields_by_number s') (number_of g) = fmlookup (fields_by_number (put_field g kind s)) (number_of g)"
        using collect_fields_keeps(2) [OF rest, of "number_of g"] apart by blast
      moreover have "fmlookup (fields_by_name s') k = fmlookup (fields_by_name (put_field g kind s)) k"
        if "k \<in> accepted_names g" for k
        using collect_fields_keeps(1) [OF rest, of k] apart that by blast
      ultimately show ?thesis unfolding f has_field_def using g(2) by (simp add: put_field_lookup)
    qed
  qed
qed simp

lemma collect_fields_dom:
  "collect_fields full_name fds s = Inr s' \<Longrightarrow>
   fset (fmdom (fields_by_name s')) = fset (fmdom (fields_by_name s)) \<union> \<Union> (accepted_names ` {f \<in> set fds. usable f}) \<and>
   fset (fmdom (fields_by_number s')) = fset (fmdom (fields_by_number s)) \<union> number_of ` {f \<in> set fds. usable f}"
proof (induction fds arbitrary: s)
  case (Cons f fds)
  from collect_fields_Cons [OF Cons.prems] Cons.IH show ?case by (fastforce simp: put_field_dom)
qed simp

lemma collect_fields_represents:
  assumes "collect_fields full_name fds \<lparr>fields_by_name = fmempty, fields_by_number = fmempty\<rparr> = Inr s"
  shows "represents fds s"
  using collect_fields_dom [OF assms] collect_fields_has_field [OF assms] by (simp add: represents_def)

text \<open>Declared messages are registered under their full names, with schemas that represent them.\<close>

definition registered_in :: "MessageRegistry \<Rightarrow> (string \<times> FieldDescriptor list) set \<Rightarrow> bool" where
  "registered_in messages decls \<longleftrightarrow>
     (\<forall>(full_name, fds) \<in> decls. \<exists>s. fmlookup messages full_name = Some s \<and> represents fds s)"

definition methods_in :: "MethodRegistry \<Rightarrow> (string \<times> MethodDescriptor) set \<Rightarrow> bool" where
  "methods_in methods decls \<longleftrightarrow>
     (\<forall>d \<in> decls. \<exists>meta. fmlookup methods (method_key d) = Some meta \<and> describes (snd d) meta)"

definition set_represented :: "FileDescriptor list \<Rightarrow> MethodRegistry \<Rightarrow> MessageRegistry \<Rightarrow> bool" where
  "set_represented files methods messages \<longleftrightarrow>
     fset (fmdom messages) = fst ` set (declared_by files) \<and> registered_in messages (set (declared_by files)) \<and>
     fset (fmdom methods) = method_key ` set (methods_declared_by files) \<and>
     methods_in methods (set (methods_declared_by files))"

text \<open>A registry of methods grows from one to another by exactly the given declarations.\<close>

definition grows_by :: "MethodRegistry \<Rightarrow> (string \<times> MethodDescriptor) set \<Rightarrow> MethodRegistry \<Rightarrow> bool" where
  "grows_by methods decls methods' \<longleftrightarrow> (\<forall>k v. fmlookup methods k = Some v \<longrightarrow> fmlookup methods' k = Some v) \<and>
     fset (fmdom methods') = fset (fmdom methods) \<union> method_key ` decls \<and> methods_in methods' decls"

lemma grows_by_refl: "grows_by methods {} methods"
  by (simp add: grows_by_def methods_in_def)

lemma grows_by_trans:
  assumes "grows_by m A m'" "grows_by m' B m''"
  shows "grows_by m (A \<union> B) m''"
proof -
  have "methods_in m'' A"
    using assms unfolding grows_by_def methods_in_def by blast
  then show ?thesis
    using assms by (simp add: grows_by_def methods_in_def image_Un Un_assoc ball_Un)
qed

lemma grows_by_one:
  "fmlookup methods (method_key d) = None \<Longrightarrow> describes (snd d) meta \<Longrightarrow>
   grows_by methods {d} (fmupd (method_key d) meta methods)"
  by (auto simp: grows_by_def methods_in_def)

lemma load_methods_grows:
  "load_methods service messages ms methods = Inr methods' \<Longrightarrow>
   grows_by methods (set (service_methods service ms)) methods'"
proof (induction ms arbitrary: methods)
  case Nil
  then show ?case by (simp add: service_methods_def grows_by_refl)
next
  case (Cons m ms)
  show ?case
  proof (cases "named (md_name m)")
    case False
    with Cons.prems have "load_methods service messages ms methods = Inr methods'"
      by (auto simp: named_def split: option.splits)
    with Cons.IH False show ?thesis by (simp add: service_methods_def)
  next
    case True
    then obtain name where name: "md_name m = Some name" "\<not> blank name" by (auto simp: named_def split: option.splits)
    let ?meta = "\<lparr>route_path = ''/'' @ service @ ''/'' @ name, client_streaming = (md_client_streaming m = Some True),
      server_streaming = (md_server_streaming m = Some True),
      input_type = normalize_name (case md_input_type m of None \<Rightarrow> [] | Some t \<Rightarrow> t),
      output_type = normalize_name (case md_output_type m of None \<Rightarrow> [] | Some t \<Rightarrow> t)\<rparr>"
    have "describes m ?meta" by (simp add: describes_def)
    moreover from Cons.prems name have "fmlookup methods (method_key (service, m)) = None"
      "load_methods service messages ms (fmupd (method_key (service, m)) ?meta methods) = Inr methods'"
      by (simp_all add: Let_def client_def method_key_def split: if_splits)
    ultimately show ?thesis
      using grows_by_trans [OF grows_by_one [of methods "(service, m)"] Cons.IH] True
      by (simp add: service_methods_def)
  qed
qed

lemma load_services_grows:
  "load_services package messages ss methods = Inr methods' \<Longrightarrow>
   grows_by methods (set (package_methods package ss)) methods'"
proof (induction ss arbitrary: methods)
  case Nil
  then show ?case by (simp add: package_methods_def grows_by_refl)
next
  case (Cons s ss)
  show ?case
  proof (cases "named (sd_name s)")
    case False
    with Cons.prems have "load_services package messages ss methods = Inr methods'"
      by (auto simp: named_def split: option.splits)
    with Cons.IH False show ?thesis by (simp add: package_methods_def)
  next
    case True
    then obtain name where name: "sd_name s = Some name" "\<not> blank name" by (auto simp: named_def split: option.splits)
    let ?full = "if package = [] then name else package @ ''.'' @ name"
    from Cons.prems name obtain mid where step: "load_methods ?full messages (sd_method s) methods = Inr mid"
      "load_services package messages ss mid = Inr methods'"
      by (auto split: sum.splits)
    from grows_by_trans [OF load_methods_grows [OF step(1)] Cons.IH [OF step(2)]]
    show ?thesis using True name by (simp add: package_methods_def split: if_splits)
  qed
qed

lemma registered_in_simps [simp]:
  "registered_in messages {}"
  "registered_in messages (insert (full_name, fds) A) \<longleftrightarrow>
     (\<exists>s. fmlookup messages full_name = Some s \<and> represents fds s) \<and> registered_in messages A"
  "registered_in messages (A \<union> B) \<longleftrightarrow> registered_in messages A \<and> registered_in messages B"
  by (simp_all add: registered_in_def ball_Un)

lemma registered_in_extends:
  "registered_in messages A \<Longrightarrow> extends messages messages' \<Longrightarrow> registered_in messages' A"
  unfolding registered_in_def extends_def by fast

lemma collect_messages_represents:
  "collect_messages package parent ds out = Inr out' \<Longrightarrow> messages_ok out \<Longrightarrow>
   fset (fmdom out') = fset (fmdom out) \<union> fst ` set (declared package parent ds) \<and>
   registered_in out' (set (declared package parent ds))"
proof (induction package parent ds out arbitrary: out' rule: collect_messages.induct)
  case (2 package parent name field nested rest out)
  show ?case
  proof (cases "\<exists>n. name = Some n \<and> \<not> blank n")
    case False
    with 2 show ?thesis by (auto split: option.splits)
  next
    case True
    then obtain n where n: "name = Some n" "\<not> blank n" by blast
    let ?full = "full_name_of package parent n"
    let ?empty = "\<lparr>fields_by_name = fmempty, fields_by_number = fmempty\<rparr>"
    from 2(5) n obtain schema mid where run: "collect_fields ?full field ?empty = Inr schema"
      "\<not> fmlookup out ?full \<noteq> None" "collect_messages package (Some ?full) nested (fmupd ?full schema out) = Inr mid"
      "collect_messages package parent rest mid = Inr out'"
      by (auto simp: Let_def client_def split: sum.splits if_splits)
    have "schema_ok schema" by (rule collect_fields_ok [OF run(1)]) (simp add: schema_ok_def)
    with 2(6) have ok: "messages_ok (fmupd ?full schema out)" by (auto simp: messages_ok_def)
    note mid = collect_messages_ok [OF run(3) ok]
    note kept = collect_messages_ok [OF run(4) conjunct1 [OF mid]]
    note nested = 2(3) [OF n refl run(1,2,3) ok]
    note siblings = 2(4) [OF n refl run(1,2,3,4) conjunct1 [OF mid]]
    have "fmlookup out' ?full = Some schema" using mid kept by (simp add: extends_def)
    moreover have "registered_in out' (set (declared package (Some ?full) nested))"
      by (rule registered_in_extends [OF conjunct2 [OF nested] conjunct2 [OF kept]])
    moreover have "set (declared package parent (DescriptorProto name field nested # rest)) =
        insert (?full, field) (set (declared package (Some ?full) nested) \<union> set (declared package parent rest))"
      using n by simp
    ultimately show ?thesis
      using nested siblings collect_fields_represents [OF run(1)] by (simp add: image_Un Un_assoc insert_commute)
  qed
qed simp

lemma load_files_represents:
  "load_files fs (methods, messages) = Inr (methods', messages') \<Longrightarrow> messages_ok messages \<Longrightarrow>
   extends messages messages' \<and> fset (fmdom messages') = fset (fmdom messages) \<union> fst ` set (declared_by fs) \<and>
   registered_in messages' (set (declared_by fs))"
proof (induction fs arbitrary: methods messages)
  case (Cons f fs)
  let ?p = "case file_package f of None \<Rightarrow> [] | Some p \<Rightarrow> p"
  from Cons.prems(1) obtain m1 d1 where run: "collect_messages ?p None (file_message_type f) messages = Inr m1"
    "load_services ?p m1 (file_service f) methods = Inr d1" "load_files fs (d1, m1) = Inr (methods', messages')"
    by (auto simp: Let_def try_res_Inr_iff)
  note kept = collect_messages_ok [OF run(1) Cons.prems(2)]
  note first = collect_messages_represents [OF run(1) Cons.prems(2)]
  note rest = Cons.IH [OF run(3) conjunct1 [OF kept]]
  have "registered_in messages' (set (declared ?p None (file_message_type f)))"
    by (rule registered_in_extends [OF conjunct2 [OF first] conjunct1 [OF rest]])
  moreover have "extends messages messages'" using kept rest by (simp add: extends_def)
  moreover have "set (declared_by (f # fs)) = set (declared ?p None (file_message_type f)) \<union> set (declared_by fs)"
    by (simp add: declared_by_def)
  ultimately show ?case using first rest by (simp add: image_Un Un_assoc)
qed (simp add: extends_def declared_by_def)

lemma load_files_grows:
  "load_files fs (methods, messages) = Inr (methods', messages') \<Longrightarrow>
   grows_by methods (set (methods_declared_by fs)) methods'"
proof (induction fs arbitrary: methods messages)
  case (Cons f fs)
  let ?p = "case file_package f of None \<Rightarrow> [] | Some p \<Rightarrow> p"
  from Cons.prems(1) obtain m1 d1 where run: "load_services ?p m1 (file_service f) methods = Inr d1"
    "load_files fs (d1, m1) = Inr (methods', messages')"
    by (auto simp: Let_def try_res_Inr_iff)
  from grows_by_trans [OF load_services_grows [OF run(1)] Cons.IH [OF run(2)]]
  show ?case by (simp add: methods_declared_by_def)
qed (simp add: methods_declared_by_def grows_by_refl)

text \<open>C29: A loaded descriptor set gives well-formed registries that represent what the set declares.
  There is a method; the input and output type of every method is a registered message and its route
  is built from its service and its name.  The registered methods are exactly the named methods of
  the named services, with the streaming flags and the types they declare.  The registered messages
  are exactly the named messages of the set under their full names, nested ones included.  A message
  accepts exactly the names and the numbers of its usable fields (those with a name and a positive
  number), and each accepted name leads to a field that carries its own number and is marked packable
  exactly when its kind is.  When no two usable fields of the message share a number or an accepted
  name, the name and the JSON name of each field lead to its number, and its number to the entry
  with its name, its number, its label and its kind.\<close>

theorem loaded_schema_ok:
  assumes "load_schema read_set path = Inr (methods, messages)"
  shows "methods \<noteq> fmempty \<and> messages_ok messages \<and> methods_ok messages methods \<and>
    (\<exists>files. read_set path = Inr files \<and> set_represented files methods messages)"
proof -
  from assms obtain fs where fs: "load_files fs (fmempty, fmempty) = Inr (methods, messages)" "methods \<noteq> fmempty"
    "read_set path = Inr fs"
    by (auto simp: load_schema_def try_res_Inr_iff client_def split: if_splits)
  from load_files_ok [OF fs(1)] have "messages_ok messages \<and> methods_ok messages methods"
    by (simp add: messages_ok_def methods_ok_def)
  moreover from load_files_represents [OF fs(1)] load_files_grows [OF fs(1)] have "set_represented fs methods messages"
    by (simp add: messages_ok_def set_represented_def grows_by_def)
  ultimately show ?thesis using fs(2,3) by blast
qed

end
