(* ===== verification/Grpc_Codec.thy ===== *)
theory Grpc_Codec
  imports Grpc_Schema "HOL-Library.Multiset"
begin

text \<open>
  The dynamic protobuf codec of \<open>infrastructure/grpc/dynamic_gateway.rs\<close>: a JSON object is encoded
  field by field along the schema of its message, and a payload is decoded into a JSON object.

  The output buffer of the source is the returned list of bytes; an error discards it there as well.
\<close>

section \<open>Sequencing\<close>

lemma try_res_cong [fundef_cong]:
  "r = r' \<Longrightarrow> (\<And>x. r' = Inr x \<Longrightarrow> k x = k' x) \<Longrightarrow> try_res r k = try_res r' k'"
  by (cases r') auto

definition map_res :: "('a \<Rightarrow> 'b) \<Rightarrow> ('e, 'a) result \<Rightarrow> ('e, 'b) result" where
  "map_res f r = try_res r (\<lambda>x. Inr (f x))"

lemma map_res_simps [simp]: "map_res f (Inr x) = Inr (f x)" "map_res f (Inl e) = Inl e"
  by (simp_all add: map_res_def)

lemma map_res_Inr_iff: "map_res f r = Inr y \<longleftrightarrow> (\<exists>x. r = Inr x \<and> y = f x)"
  by (auto simp: map_res_def try_res_Inr_iff)

primrec concat_res :: "('a \<Rightarrow> ('e, 'b list) result) \<Rightarrow> 'a list \<Rightarrow> ('e, 'b list) result" where
  "concat_res f [] = Inr []"
| "concat_res f (x # xs) = try_res (f x) (\<lambda>ys. map_res ((@) ys) (concat_res f xs))"

lemma concat_res_cong [fundef_cong]:
  "xs = ys \<Longrightarrow> (\<And>x. x \<in> set ys \<Longrightarrow> f x = g x) \<Longrightarrow> concat_res f xs = concat_res g ys"
  by (induction ys arbitrary: xs) auto

section \<open>Encoding\<close>

definition encode_packable_value :: "'n codec_lib \<Rightarrow> FieldKind \<Rightarrow> 'n json \<Rightarrow> (pulse_error, u8 list) result" where
  "encode_packable_value J kind v = (case kind of
     KDouble \<Rightarrow> map_res (to_le 8) (to_f64 J v)
   | KFloat \<Rightarrow> map_res (to_le 4) (to_f32 J v)
   | KInt64 \<Rightarrow> map_res write_varint (to_i64 J v)
   | KUInt64 \<Rightarrow> map_res write_varint (to_u64 J v)
   | KInt32 \<Rightarrow> map_res (\<lambda>i. write_varint (ucast i)) (to_i32 J v)
   | KFixed64 \<Rightarrow> map_res (to_le 8) (to_u64 J v)
   | KFixed32 \<Rightarrow> map_res (to_le 4) (to_u32 J v)
   | KBool \<Rightarrow> map_res (\<lambda>b. write_varint (if b then 1 else 0)) (to_bool J v)
   | KUInt32 \<Rightarrow> map_res (\<lambda>i. write_varint (ucast i)) (to_u32 J v)
   | KEnum \<Rightarrow> map_res (\<lambda>i. write_varint (ucast i)) (to_i32 J v)
   | KSFixed32 \<Rightarrow> map_res (to_le 4) (to_i32 J v)
   | KSFixed64 \<Rightarrow> map_res (to_le 8) (to_i64 J v)
   | KSInt32 \<Rightarrow> map_res (\<lambda>i. write_varint (zigzag_i32 i)) (to_i32 J v)
   | KSInt64 \<Rightarrow> map_res (\<lambda>i. write_varint (zigzag_i64 i)) (to_i64 J v)
   | _ \<Rightarrow> client ''non-packable field encoded as packed'')"

definition encode_packed_repeated_field ::
  "'n codec_lib \<Rightarrow> FieldSchema \<Rightarrow> 'n json list \<Rightarrow> (pulse_error, u8 list) result" where
  "encode_packed_repeated_field J field items =
     map_res (\<lambda>packed. write_key (fs_number field) 2 @ write_length_delimited packed)
       (concat_res (encode_packable_value J (fs_kind field)) items)"

text \<open>A single value; \<open>nested\<close> encodes the messages inside it.\<close>

definition encode_single_field_value ::
  "'n codec_lib \<Rightarrow> (string \<Rightarrow> 'n json \<Rightarrow> (pulse_error, u8 list) result) \<Rightarrow> FieldSchema \<Rightarrow> 'n json
     \<Rightarrow> (pulse_error, u8 list) result" where
  "encode_single_field_value J nested field v =
     (let keyed = (\<lambda>wire_type. map_res (\<lambda>data. write_key (fs_number field) wire_type @ data))
      in case fs_kind field of
           KDouble \<Rightarrow> keyed 1 (map_res (to_le 8) (to_f64 J v))
         | KFloat \<Rightarrow> keyed 5 (map_res (to_le 4) (to_f32 J v))
         | KInt64 \<Rightarrow> keyed 0 (map_res write_varint (to_i64 J v))
         | KUInt64 \<Rightarrow> keyed 0 (map_res write_varint (to_u64 J v))
         | KInt32 \<Rightarrow> keyed 0 (map_res (\<lambda>i. write_varint (ucast i)) (to_i32 J v))
         | KFixed64 \<Rightarrow> keyed 1 (map_res (to_le 8) (to_u64 J v))
         | KFixed32 \<Rightarrow> keyed 5 (map_res (to_le 4) (to_u32 J v))
         | KBool \<Rightarrow> keyed 0 (map_res (\<lambda>b. write_varint (if b then 1 else 0)) (to_bool J v))
         | KString \<Rightarrow> keyed 2 (map_res (\<lambda>s. write_length_delimited (bytes_of s)) (to_string_value J v))
         | KMessage message_name \<Rightarrow> keyed 2 (map_res write_length_delimited (nested message_name v))
         | KBytes \<Rightarrow> keyed 2 (map_res write_length_delimited (to_bytes J v))
         | KUInt32 \<Rightarrow> keyed 0 (map_res (\<lambda>i. write_varint (ucast i)) (to_u32 J v))
         | KEnum \<Rightarrow> keyed 0 (map_res (\<lambda>i. write_varint (ucast i)) (to_i32 J v))
         | KSFixed32 \<Rightarrow> keyed 5 (map_res (to_le 4) (to_i32 J v))
         | KSFixed64 \<Rightarrow> keyed 1 (map_res (to_le 8) (to_i64 J v))
         | KSInt32 \<Rightarrow> keyed 0 (map_res (\<lambda>i. write_varint (zigzag_i32 i)) (to_i32 J v))
         | KSInt64 \<Rightarrow> keyed 0 (map_res (\<lambda>i. write_varint (zigzag_i64 i)) (to_i64 J v)))"

definition encode_field ::
  "'n codec_lib \<Rightarrow> (string \<Rightarrow> 'n json \<Rightarrow> (pulse_error, u8 list) result) \<Rightarrow> FieldSchema \<Rightarrow> 'n json
     \<Rightarrow> (pulse_error, u8 list) result" where
  "encode_field J nested field v =
     (if fs_repeated field
      then case v of
        JArray items \<Rightarrow>
          if fs_packable field then encode_packed_repeated_field J field items
          else concat_res (encode_single_field_value J nested field) items
      | _ \<Rightarrow> client (''field '' @ quoted (fs_name field) @ '' is repeated and expects a JSON array'')
      else encode_single_field_value J nested field v)"

fun field_pairs ::
  "string \<Rightarrow> MessageSchema \<Rightarrow> (string \<times> 'n json) list \<Rightarrow> (pulse_error, (u32 \<times> FieldSchema \<times> 'n json) list) result" where
  "field_pairs message_name schema [] = Inr []"
| "field_pairs message_name schema ((key, v) # rest) = (case fmlookup (fields_by_name schema) key of
     None \<Rightarrow> client (''field '' @ quoted key @ '' is not defined in message '' @ quoted message_name)
   | Some number \<Rightarrow> (case fmlookup (fields_by_number schema) number of
       None \<Rightarrow> client (''field number '' @ quoted (word_str number) @ '' missing from schema for '' @ quoted message_name)
     | Some field \<Rightarrow> map_res ((#) (number, field, v)) (field_pairs message_name schema rest)))"

lemma field_pairs_values:
  "field_pairs name schema kvs = Inr ps \<Longrightarrow> map (snd \<circ> snd) ps = map snd kvs"
  by (induction name schema kvs arbitrary: ps rule: field_pairs.induct)
     (auto simp: client_def map_res_Inr_iff split: option.splits)

lemma json_size [termination_simp]:
  "v \<in> set items \<Longrightarrow> size v < size (JArray items)"
  "v \<in> snd ` set kvs \<Longrightarrow> size v < size (JObject kvs)"
proof -
  show "v \<in> set items \<Longrightarrow> size v < size (JArray items)"
    by (induction items) auto
  show "v \<in> snd ` set kvs \<Longrightarrow> size v < size (JObject kvs)"
    by (induction kvs) force+
qed

lemma encode_single_cong [fundef_cong]:
  "J = J' \<Longrightarrow> field = field' \<Longrightarrow> v = v' \<Longrightarrow> (\<And>name x. x = v' \<Longrightarrow> nested name x = nested' name x) \<Longrightarrow>
   encode_single_field_value J nested field v = encode_single_field_value J' nested' field' v'"
  by (simp add: encode_single_field_value_def cong: FieldKind.case_cong)

lemma encode_field_cong [fundef_cong]:
  "J = J' \<Longrightarrow> field = field' \<Longrightarrow> v = v' \<Longrightarrow>
   (\<And>name x. x = v' \<or> (\<exists>items. v' = JArray items \<and> x \<in> set items) \<Longrightarrow> nested name x = nested' name x) \<Longrightarrow>
   encode_field J nested field v = encode_field J' nested' field' v'"
  by (auto simp: encode_field_def intro!: concat_res_cong encode_single_cong split: json.split)

function encode_message ::
  "'n codec_lib \<Rightarrow> MessageRegistry \<Rightarrow> string \<Rightarrow> 'n json \<Rightarrow> (pulse_error, u8 list) result" where
  "encode_message J messages message_name v = (case fmlookup messages message_name of
     None \<Rightarrow> client (''message '' @ quoted message_name @ '' not found in descriptor set'')
   | Some schema \<Rightarrow> (case v of
       JObject kvs \<Rightarrow>
         try_res (field_pairs message_name schema kvs) (\<lambda>pairs.
           concat_res (\<lambda>p. encode_field J (encode_message J messages) (fst (snd p)) (snd (snd p)))
             (sort_key fst pairs))
     | _ \<Rightarrow> client (''request_fields for '' @ quoted message_name @ '' must be a JSON object'')))"
  by auto
termination
proof (relation "measure (\<lambda>(_, _, _, v). size v)", goal_cases)
  case (2 J messages message_name v schema kvs pairs p name x)
  then have "snd (snd p) \<in> set (map (snd \<circ> snd) pairs)" by auto
  with field_pairs_values [OF 2(3)] have "size (snd (snd p)) < size v"
    using 2(2) json_size(2) by auto
  with 2(5) show ?case by (auto dest: json_size(1))
qed simp

declare encode_message.simps [simp del]

section \<open>Decoding\<close>

definition map_decoded :: "('a \<Rightarrow> 'b) \<Rightarrow> 'a decoded \<Rightarrow> 'b decoded" where
  "map_decoded f r = map_res (\<lambda>(x, idx). (f x, idx)) r"

definition ensure_wire_type :: "u8 \<Rightarrow> u8 \<Rightarrow> FieldSchema \<Rightarrow> (pulse_error, unit) result" where
  "ensure_wire_type wire_type expected field =
     (if wire_type = expected then Inr ()
      else client (''unexpected wire type '' @ word_str wire_type @ '' for field '' @ quoted (fs_name field)
        @ '' (expected '' @ word_str expected @ '')''))"

definition double_value :: "'n codec_lib \<Rightarrow> string \<Rightarrow> u64 \<times> nat \<Rightarrow> 'n json decoded" where
  "double_value J type_name = (\<lambda>(x, idx). case num_f64 J x of
     None \<Rightarrow> client (''invalid '' @ type_name @ '' value'')
   | Some n \<Rightarrow> Inr (JNumber n, idx))"

abbreviation num_i32 :: "'n codec_lib \<Rightarrow> i32 \<Rightarrow> 'n" where
  "num_i32 J i \<equiv> num_i64 J (scast i)"

abbreviation num_u32 :: "'n codec_lib \<Rightarrow> u32 \<Rightarrow> 'n" where
  "num_u32 J i \<equiv> num_u64 J (ucast i)"

definition decode_packable_value :: "'n codec_lib \<Rightarrow> FieldKind \<Rightarrow> u8 list \<Rightarrow> nat \<Rightarrow> 'n json decoded" where
  "decode_packable_value J kind buf idx =
     (let varint = (\<lambda>f. map_decoded f (read_varint buf idx));
          fixed32 = (\<lambda>f. map_decoded f (read_fixed32 buf idx));
          fixed64 = (\<lambda>f. map_decoded f (read_fixed64 buf idx))
      in case kind of
           KDouble \<Rightarrow> try_res (read_fixed64 buf idx) (double_value J ''double'')
         | KFloat \<Rightarrow> try_res (read_fixed32 buf idx) (\<lambda>(x, idx1). double_value J ''float'' (widen_f32 J x, idx1))
         | KInt64 \<Rightarrow> varint (\<lambda>v. JNumber (num_i64 J v))
         | KUInt64 \<Rightarrow> varint (\<lambda>v. JNumber (num_u64 J v))
         | KInt32 \<Rightarrow> varint (\<lambda>v. JNumber (num_i32 J (ucast v)))
         | KFixed64 \<Rightarrow> fixed64 (\<lambda>v. JNumber (num_u64 J v))
         | KFixed32 \<Rightarrow> fixed32 (\<lambda>v. JNumber (num_u32 J v))
         | KBool \<Rightarrow> varint (\<lambda>v. JBool (v \<noteq> 0))
         | KUInt32 \<Rightarrow> varint (\<lambda>v. JNumber (num_u32 J (ucast v)))
         | KEnum \<Rightarrow> varint (\<lambda>v. JNumber (num_i32 J (ucast v)))
         | KSFixed32 \<Rightarrow> fixed32 (\<lambda>v. JNumber (num_i32 J v))
         | KSFixed64 \<Rightarrow> fixed64 (\<lambda>v. JNumber (num_i64 J v))
         | KSInt32 \<Rightarrow> varint (\<lambda>v. JNumber (num_i32 J (unzigzag_i32 v)))
         | KSInt64 \<Rightarrow> varint (\<lambda>v. JNumber (num_i64 J (unzigzag_i64 v)))
         | _ \<Rightarrow> client ''non-packable field decoded as packed'')"

definition decode_single_field_value ::
  "'n codec_lib \<Rightarrow> (string \<Rightarrow> u8 list \<Rightarrow> (pulse_error, 'n json) result) \<Rightarrow> FieldSchema \<Rightarrow> u8
     \<Rightarrow> u8 list \<Rightarrow> nat \<Rightarrow> 'n json decoded" where
  "decode_single_field_value J nested field wire_type buf idx =
     (let typed = (\<lambda>expected r. try_res (ensure_wire_type wire_type expected field) (\<lambda>_. r));
          varint = (\<lambda>f. typed 0 (map_decoded f (read_varint buf idx)));
          fixed32 = (\<lambda>f. typed 5 (map_decoded f (read_fixed32 buf idx)));
          fixed64 = (\<lambda>f. typed 1 (map_decoded f (read_fixed64 buf idx)));
          delimited = (\<lambda>f. typed 2 (try_res (read_length_delimited buf idx)
            (\<lambda>(data, idx1). map_res (\<lambda>v. (v, idx1)) (f data))))
      in case fs_kind field of
           KDouble \<Rightarrow> typed 1 (try_res (read_fixed64 buf idx) (double_value J ''double''))
         | KFloat \<Rightarrow> typed 5 (try_res (read_fixed32 buf idx)
             (\<lambda>(x, idx1). double_value J ''float'' (widen_f32 J x, idx1)))
         | KInt64 \<Rightarrow> varint (\<lambda>v. JNumber (num_i64 J v))
         | KUInt64 \<Rightarrow> varint (\<lambda>v. JNumber (num_u64 J v))
         | KInt32 \<Rightarrow> varint (\<lambda>v. JNumber (num_i32 J (ucast v)))
         | KFixed64 \<Rightarrow> fixed64 (\<lambda>v. JNumber (num_u64 J v))
         | KFixed32 \<Rightarrow> fixed32 (\<lambda>v. JNumber (num_u32 J v))
         | KBool \<Rightarrow> varint (\<lambda>v. JBool (v \<noteq> 0))
         | KString \<Rightarrow> delimited (\<lambda>data. case from_utf8 data of
             Inl e \<Rightarrow> client (''invalid utf8 in field '' @ quoted (fs_name field) @ '': '' @ e)
           | Inr text \<Rightarrow> Inr (JString text))
         | KMessage message_name \<Rightarrow> delimited (nested message_name)
         | KBytes \<Rightarrow> delimited (\<lambda>data. Inr (JString (b64_encode J data)))
         | KUInt32 \<Rightarrow> varint (\<lambda>v. JNumber (num_u32 J (ucast v)))
         | KEnum \<Rightarrow> varint (\<lambda>v. JNumber (num_i32 J (ucast v)))
         | KSFixed32 \<Rightarrow> fixed32 (\<lambda>v. JNumber (num_i32 J v))
         | KSFixed64 \<Rightarrow> fixed64 (\<lambda>v. JNumber (num_i64 J v))
         | KSInt32 \<Rightarrow> varint (\<lambda>v. JNumber (num_i32 J (unzigzag_i32 v)))
         | KSInt64 \<Rightarrow> varint (\<lambda>v. JNumber (num_i64 J (unzigzag_i64 v))))"

definition append_decoded_field ::
  "(string \<times> 'n json) list \<Rightarrow> string \<Rightarrow> 'n json \<Rightarrow> bool \<Rightarrow> (string \<times> 'n json) list" where
  "append_decoded_field target name v repeated =
     (if repeated
      then object_insert name (JArray (case map_of target name of
             Some (JArray existing) \<Rightarrow> existing @ [v]
           | Some old \<Rightarrow> [old, v]
           | None \<Rightarrow> [v])) target
      else object_insert name v target)"

lemma map_decoded_bounds:
  "map_decoded f r = Inr (v, idx1) \<Longrightarrow> (\<And>x i. r = Inr (x, i) \<Longrightarrow> P i) \<Longrightarrow> P idx1"
  by (auto simp: map_decoded_def map_res_Inr_iff)

lemma decode_packable_bounds:
  "decode_packable_value J kind buf idx = Inr (v, idx1) \<Longrightarrow> idx < idx1 \<and> idx1 \<le> length buf"
  using read_varint_bounds [of buf idx] read_fixed_bounds [of buf idx]
  by (auto simp: decode_packable_value_def Let_def client_def double_value_def try_res_Inr_iff
      elim!: map_decoded_bounds split: FieldKind.splits option.splits)

text \<open>The elements of a packed field: they are read from the whole payload until the position reaches
  the end of the field.\<close>

function decode_packed :: "'n codec_lib \<Rightarrow> FieldKind \<Rightarrow> u8 list \<Rightarrow> nat \<Rightarrow> nat \<Rightarrow> (pulse_error, 'n json list) result" where
  "decode_packed J kind buf idx fin =
     (if fin \<le> idx then Inr []
      else case decode_packable_value J kind buf idx of
        Inl e \<Rightarrow> Inl e
      | Inr (v, idx1) \<Rightarrow> map_res ((#) v) (decode_packed J kind buf idx1 fin))"
  by auto
termination
  by (relation "measure (\<lambda>(_, _, _, idx, fin). fin - idx)") (auto dest!: decode_packable_bounds)

declare decode_packed.simps [simp del]

definition packed_field ::
  "'n codec_lib \<Rightarrow> FieldKind \<Rightarrow> u8 list \<Rightarrow> nat \<Rightarrow> ('n json) decoded" where
  "packed_field J kind buf idx =
     try_res (read_varint buf idx) (\<lambda>(len, idx1).
     try_res (advance_to ''packed field length overflow'' ''packed field exceeds payload bounds'' buf idx1 (unat len))
       (\<lambda>fin. map_res (\<lambda>arr. (JArray arr, fin)) (decode_packed J kind buf idx1 fin)))"

definition field_value ::
  "'n codec_lib \<Rightarrow> (string \<Rightarrow> u8 list \<Rightarrow> (pulse_error, 'n json) result) \<Rightarrow> FieldSchema \<Rightarrow> u8
     \<Rightarrow> u8 list \<Rightarrow> nat \<Rightarrow> 'n json decoded" where
  "field_value J nested field wire_type buf idx =
     (if fs_repeated field \<and> fs_packable field \<and> wire_type = 2 then packed_field J (fs_kind field) buf idx
      else decode_single_field_value J nested field wire_type buf idx)"

lemma packed_field_bounds: "packed_field J kind buf idx = Inr (v, idx1) \<Longrightarrow> idx < idx1 \<and> idx1 \<le> length buf"
  using read_varint_bounds [of buf idx]
  by (fastforce simp: packed_field_def try_res_Inr_iff map_res_Inr_iff advance_to_bounds)

lemma decode_single_bounds:
  "decode_single_field_value J nested field wt buf idx = Inr (v, idx1) \<Longrightarrow> idx < idx1 \<and> idx1 \<le> length buf"
  using read_varint_bounds [of buf idx] read_fixed_bounds [of buf idx] read_length_delimited_bounds [of buf idx]
  by (auto simp: decode_single_field_value_def Let_def client_def double_value_def try_res_Inr_iff map_res_Inr_iff
      elim!: map_decoded_bounds split: FieldKind.splits option.splits)

lemma field_value_bounds:
  "field_value J nested field wt buf idx = Inr (v, idx1) \<Longrightarrow> idx < idx1 \<and> idx1 \<le> length buf"
  by (auto simp: field_value_def dest: packed_field_bounds decode_single_bounds split: if_splits)

lemma field_value_cong:
  assumes "\<And>name data. length data < length buf \<Longrightarrow> nested name data = nested' name data"
  shows "field_value J nested field wt buf idx = field_value J nested' field wt buf idx"
proof -
  have "try_res (read_length_delimited buf idx) (\<lambda>(data, idx1). map_res (\<lambda>v. (v, idx1)) (nested name data))
      = try_res (read_length_delimited buf idx) (\<lambda>(data, idx1). map_res (\<lambda>v. (v, idx1)) (nested' name data))" for name
    by (rule try_res_cong) (use assms in \<open>auto dest!: read_length_delimited_bounds\<close>)
  then have "decode_single_field_value J nested field wt buf idx = decode_single_field_value J nested' field wt buf idx"
    unfolding decode_single_field_value_def Let_def by (simp cong: FieldKind.case_cong)
  then show ?thesis by (simp add: field_value_def)
qed

function decode_fields ::
  "'n codec_lib \<Rightarrow> (string \<Rightarrow> u8 list \<Rightarrow> (pulse_error, 'n json) result) \<Rightarrow> MessageSchema
     \<Rightarrow> u8 list \<Rightarrow> nat \<Rightarrow> (string \<times> 'n json) list \<Rightarrow> (pulse_error, 'n json) result" where
  "decode_fields J nested schema buf idx out =
     (if length buf \<le> idx then Inr (JObject out)
      else case read_varint buf idx of
        Inl e \<Rightarrow> Inl e
      | Inr (key, idx1) \<Rightarrow>
          let field_number = ucast (drop_bit 3 key) :: u32;
              wire_type = ucast (key AND 0x7) :: u8
          in case fmlookup (fields_by_number schema) field_number of
               None \<Rightarrow> (case skip_wire_value wire_type buf idx1 of
                 Inl e \<Rightarrow> Inl e
               | Inr idx2 \<Rightarrow> decode_fields J nested schema buf idx2 out)
             | Some field \<Rightarrow> (case field_value J nested field wire_type buf idx1 of
                 Inl e \<Rightarrow> Inl e
               | Inr (v, idx2) \<Rightarrow> decode_fields J nested schema buf idx2
                   (append_decoded_field out (fs_name field) v (fs_repeated field))))"
  by auto
termination
  by (relation "measure (\<lambda>(_, _, _, buf, idx, _). length buf - idx)")
     (auto dest!: read_varint_bounds skip_wire_value_bounds field_value_bounds)

declare decode_fields.simps [simp del]

lemma decode_fields_cong [fundef_cong]:
  "J = J' \<Longrightarrow> schema = schema' \<Longrightarrow> buf = buf' \<Longrightarrow> idx = idx' \<Longrightarrow> out = out' \<Longrightarrow>
   (\<And>name data. length data < length buf' \<Longrightarrow> nested name data = nested' name data) \<Longrightarrow>
   decode_fields J nested schema buf idx out = decode_fields J' nested' schema' buf' idx' out'"
proof (hypsubst_thin, induction J' nested' schema' buf' idx' out' rule: decode_fields.induct)
  case (1 J nested' schema buf idx out)
  have "field_value J nested field wt buf i = field_value J nested' field wt buf i" for field wt i
    by (rule field_value_cong) (rule 1)
  with 1(1,2) [OF _ _ refl refl refl] 1(3) show ?case
    unfolding decode_fields.simps [of J _ schema buf idx out] Let_def
    by (auto split: sum.split option.split)
qed

function decode_message ::
  "'n codec_lib \<Rightarrow> MessageRegistry \<Rightarrow> string \<Rightarrow> u8 list \<Rightarrow> (pulse_error, 'n json) result" where
  "decode_message J messages message_name buf = (case fmlookup messages message_name of
     None \<Rightarrow> client (''message '' @ quoted message_name @ '' not found in descriptor set'')
   | Some schema \<Rightarrow> decode_fields J (decode_message J messages) schema buf 0 [])"
  by auto
termination by (relation "measure (\<lambda>(_, _, _, buf). length buf)") auto

declare decode_message.simps [simp del]

section \<open>Round trip\<close>

text \<open>The values a field of a kind is decoded to.  Bytes are left out: they are decoded to base64 text
  without the prefix that encoding expects.  Packed repeated fields are left out as well: they are
  decoded to a nested array.\<close>

inductive canonical :: "'n codec_lib \<Rightarrow> MessageRegistry \<Rightarrow> FieldKind \<Rightarrow> 'n json \<Rightarrow> bool" for J M where
  canonical_double: "num_f64 J x = Some n \<Longrightarrow> canonical J M KDouble (JNumber n)"
| canonical_float: "as_f64 J n = Some x \<Longrightarrow> num_f64 J (widen_f32 J (narrow_f64 J x)) = Some n
    \<Longrightarrow> canonical J M KFloat (JNumber n)"
| canonical_i64: "k \<in> {KInt64, KSFixed64, KSInt64} \<Longrightarrow> canonical J M k (JNumber (num_i64 J i))"
| canonical_u64: "k \<in> {KUInt64, KFixed64} \<Longrightarrow> canonical J M k (JNumber (num_u64 J u))"
| canonical_i32: "k \<in> {KInt32, KEnum, KSFixed32, KSInt32} \<Longrightarrow> canonical J M k (JNumber (num_i32 J i32))"
| canonical_u32: "k \<in> {KUInt32, KFixed32} \<Longrightarrow> canonical J M k (JNumber (num_u32 J u32))"
| canonical_bool: "canonical J M KBool (JBool b)"
| canonical_string: "utf8_error 0 (bytes_of s) = None \<Longrightarrow> canonical J M KString (JString s)"
| canonical_message: "fmlookup M name = Some schema \<Longrightarrow> object_ok kvs \<Longrightarrow>
    (\<forall>(k, v) \<in> set kvs. \<exists>n f. fmlookup (fields_by_name schema) k = Some n \<and>
       fmlookup (fields_by_number schema) n = Some f \<and> fs_name f = k \<and>
       (if fs_repeated f then \<not> fs_packable f \<and>
          (\<exists>items. v = JArray items \<and> items \<noteq> [] \<and> (\<forall>i \<in> set items. canonical J M (fs_kind f) i))
        else canonical J M (fs_kind f) v))
    \<Longrightarrow> canonical J M (KMessage name) (JObject kvs)"

definition wire_type_of :: "FieldKind \<Rightarrow> u8" where
  "wire_type_of kind = (case kind of
     KDouble \<Rightarrow> 1 | KFixed64 \<Rightarrow> 1 | KSFixed64 \<Rightarrow> 1 | KFloat \<Rightarrow> 5 | KFixed32 \<Rightarrow> 5 | KSFixed32 \<Rightarrow> 5
   | KString \<Rightarrow> 2 | KMessage _ \<Rightarrow> 2 | KBytes \<Rightarrow> 2 | _ \<Rightarrow> 0)"

lemma scast_i32: "sint (scast i :: i64) = sint i" "ucast (scast i :: i64) = i" "i32_of_i64 (scast i) = Some i"
  for i :: i32
proof -
  show s: "sint (scast i :: i64) = sint i" by (simp add: sint_up_scast is_up)
  show u: "ucast (scast i :: i64) = i" by (rule bit_word_eqI) (auto simp: bit_simps)
  show "i32_of_i64 (scast i) = Some i"
    using sint_ge [of i] sint_lt [of i] by (simp add: i32_of_i64_def s u)
qed

lemma ucast_u32: "ucast (ucast i :: u64) = i" "u32_of_u64 (ucast i) = Some i" for i :: u32
proof -
  show u: "ucast (ucast i :: u64) = i" by (rule bit_word_eqI) (auto simp: bit_simps)
  have "is_up (ucast :: u32 \<Rightarrow> u64)" by (simp add: is_up)
  then have "uint (ucast i :: u64) = uint i" by (rule uint_up_ucast)
  then have "unat (ucast i :: u64) = unat i" by (simp only: unat_eq_nat_uint)
  with unat_bound [of i] show "u32_of_u64 (ucast i) = Some i" by (simp add: u32_of_u64_def u)
qed

lemmas to_defs = to_i32_def to_i64_def to_u32_def to_u64_def to_f32_def to_f64_def to_number_def
  to_bool_def to_string_value_def

text \<open>\<open>carries\<close>: behind its key, the data of a value is decoded to the value wherever it stands.\<close>

definition carries ::
  "'n codec_lib \<Rightarrow> MessageRegistry \<Rightarrow> FieldSchema \<Rightarrow> 'n json \<Rightarrow> u8 list \<Rightarrow> bool" where
  "carries J M f v data \<longleftrightarrow> (\<forall>pre post. length (pre @ data) < 2 ^ 64 \<longrightarrow>
     decode_single_field_value J (decode_message J M) f (wire_type_of (fs_kind f)) (pre @ data @ post) (length pre)
     = Inr (v, length (pre @ data)))"

context json_numbers
begin

lemma scalar_carries:
  assumes "canonical J M kind v" "\<forall>name. kind \<noteq> KMessage name" "fs_kind f = kind"
    "encode_single_field_value J nested f v = Inr bs"
  shows "\<exists>data. bs = write_key (fs_number f) (wire_type_of kind) @ data \<and> carries J M f v data"
  using assms
proof cases
  case (canonical_double x n)
  then show ?thesis using assms(3,4) as_f64_num_f64 [of x n]
    by (auto simp: encode_single_field_value_def to_defs wire_type_of_def carries_def
        decode_single_field_value_def ensure_wire_type_def double_value_def)
next
  case (canonical_float n x)
  then show ?thesis using assms(3,4)
    by (auto simp: encode_single_field_value_def to_defs wire_type_of_def carries_def
        decode_single_field_value_def ensure_wire_type_def double_value_def)
next
  case (canonical_string s)
  then show ?thesis using assms(3,4)
    by (auto simp: encode_single_field_value_def to_defs wire_type_of_def carries_def
        decode_single_field_value_def ensure_wire_type_def from_utf8_def)
qed (use assms(2-4) in \<open>auto simp: encode_single_field_value_def to_defs wire_type_of_def carries_def
        decode_single_field_value_def ensure_wire_type_def map_decoded_def scast_i32 ucast_u32\<close>)

end

lemma is_packable_wire: "is_packable kind \<Longrightarrow> wire_type_of kind \<noteq> 2"
  by (cases kind) (simp_all add: is_packable_def wire_type_of_def)

lemma wire_type_less: "wire_type_of kind < 8"
  by (cases kind) (simp_all add: wire_type_of_def)

text \<open>\<open>seg\<close>: the bytes \<open>bs\<close> take the decoded object from \<open>out\<close> to \<open>out'\<close>.\<close>

definition seg ::
  "'n codec_lib \<Rightarrow> MessageRegistry \<Rightarrow> MessageSchema \<Rightarrow> u8 list \<Rightarrow> (string \<times> 'n json) list
     \<Rightarrow> (string \<times> 'n json) list \<Rightarrow> bool" where
  "seg J M schema bs out out' \<longleftrightarrow> (\<forall>pre post. length (pre @ bs @ post) < 2 ^ 64 \<longrightarrow>
     decode_fields J (decode_message J M) schema (pre @ bs @ post) (length pre) out
     = decode_fields J (decode_message J M) schema (pre @ bs @ post) (length (pre @ bs)) out')"

lemma seg_Nil [simp]: "seg J M schema [] out out"
  by (simp add: seg_def)

lemma seg_append:
  assumes "seg J M schema bs1 out1 out2" "seg J M schema bs2 out2 out3"
  shows "seg J M schema (bs1 @ bs2) out1 out3"
  unfolding seg_def
proof (intro allI impI)
  fix pre post
  assume len: "length (pre @ (bs1 @ bs2) @ post) < 2 ^ 64"
  with assms(1) [unfolded seg_def, rule_format, of pre "bs2 @ post"]
    assms(2) [unfolded seg_def, rule_format, of "pre @ bs1" post]
  show "decode_fields J (decode_message J M) schema (pre @ (bs1 @ bs2) @ post) (length pre) out1
     = decode_fields J (decode_message J M) schema (pre @ (bs1 @ bs2) @ post) (length (pre @ bs1 @ bs2)) out3"
    by simp
qed

lemma seg_single:
  assumes "fmlookup (fields_by_number schema) (fs_number f) = Some f"
    "fs_packable f = is_packable (fs_kind f)" "carries J M f v data"
  shows "seg J M schema (write_key (fs_number f) (wire_type_of (fs_kind f)) @ data) out
    (append_decoded_field out (fs_name f) v (fs_repeated f))"
  unfolding seg_def
proof (intro allI impI)
  fix pre post
  let ?key = "write_key (fs_number f) (wire_type_of (fs_kind f))"
  let ?buf = "pre @ (?key @ data) @ post"
  assume len: "length ?buf < 2 ^ 64"
  have val: "field_value J (decode_message J M) f (wire_type_of (fs_kind f)) ?buf (length pre + length ?key)
      = Inr (v, length pre + length ?key + length data)"
    using assms(3) [unfolded carries_def, rule_format, of "pre @ ?key" post] assms(2) len
      is_packable_wire [of "fs_kind f"]
    by (auto simp: field_value_def)
  define k :: u64 where "k = push_bit 3 (ucast (fs_number f)) OR ucast (wire_type_of (fs_kind f))"
  define key where "key = ?key"
  have key: "key = write_varint k" unfolding key_def k_def write_key_def ..
  have parts: "ucast (drop_bit 3 k) = fs_number f" "ucast (k AND 7) = wire_type_of (fs_kind f)"
    unfolding k_def using key_fields [OF wire_type_less] by blast+
  have read: "read_varint ?buf (length pre) = Inr (k, length pre + length key)"
    unfolding key_def [symmetric] unfolding key by simp
  have ne: "key \<noteq> []" using write_varint_length(1) [of k] unfolding key by blast
  have len2: "length (pre @ ?key @ data) = length pre + length key + length data" by (simp add: key_def)
  have "decode_fields J (decode_message J M) schema ?buf (length pre) out
     = decode_fields J (decode_message J M) schema ?buf (length pre + length key + length data)
         (append_decoded_field out (fs_name f) v (fs_repeated f))"
    using assms(1) val unfolding decode_fields.simps [of J _ schema ?buf "length pre" out] read
    by (simp add: Let_def parts ne key_def [symmetric] del: append_assoc)
  then show "decode_fields J (decode_message J M) schema ?buf (length pre) out
     = decode_fields J (decode_message J M) schema ?buf (length (pre @ ?key @ data))
         (append_decoded_field out (fs_name f) v (fs_repeated f))"
    unfolding len2 .
qed

lemma append_items:
  "items \<noteq> [] \<Longrightarrow> map_of out name = None \<Longrightarrow>
   fold (\<lambda>i o1. append_decoded_field o1 name i True) items out = object_insert name (JArray items) out"
proof (induction items rule: rev_induct)
  case (snoc i items)
  have twice: "object_insert name w (object_insert name v m) = object_insert name w m" for v w :: "'a json" and m
    by (induction name v m rule: object_insert.induct) auto
  show ?case
    using snoc by (cases "items = []") (auto simp: append_decoded_field_def twice)
qed simp

text \<open>One field of an object: all its occurrences together insert its value.\<close>

definition inserts :: "'n codec_lib \<Rightarrow> MessageRegistry \<Rightarrow> MessageSchema \<Rightarrow> FieldSchema \<Rightarrow> 'n json \<Rightarrow> bool" where
  "inserts J M schema f v \<longleftrightarrow> (\<forall>bs out. encode_field J (encode_message J M) f v = Inr bs \<longrightarrow>
     map_of out (fs_name f) = None \<longrightarrow> seg J M schema bs out (object_insert (fs_name f) v out))"

definition encodes :: "'n codec_lib \<Rightarrow> MessageRegistry \<Rightarrow> FieldSchema \<Rightarrow> 'n json \<Rightarrow> bool" where
  "encodes J M f v \<longleftrightarrow> (\<forall>bs. encode_single_field_value J (encode_message J M) f v = Inr bs \<longrightarrow>
     (\<exists>data. bs = write_key (fs_number f) (wire_type_of (fs_kind f)) @ data \<and> carries J M f v data))"

lemma items_seg:
  assumes "fmlookup (fields_by_number schema) (fs_number f) = Some f"
    "fs_packable f = is_packable (fs_kind f)" "fs_repeated f"
  shows "\<forall>i \<in> set items. encodes J M f i \<Longrightarrow>
    concat_res (encode_single_field_value J (encode_message J M) f) items = Inr bs \<Longrightarrow>
    seg J M schema bs out (fold (\<lambda>i o1. append_decoded_field o1 (fs_name f) i True) items out)"
proof (induction items arbitrary: bs out)
  case (Cons i items)
  from Cons.prems(2) obtain b1 b2 where b: "encode_single_field_value J (encode_message J M) f i = Inr b1"
    "concat_res (encode_single_field_value J (encode_message J M) f) items = Inr b2" "bs = b1 @ b2"
    by (auto simp: try_res_Inr_iff map_res_Inr_iff)
  from Cons.prems(1) b(1) obtain data where
    "b1 = write_key (fs_number f) (wire_type_of (fs_kind f)) @ data" "carries J M f i data"
    by (auto simp: encodes_def)
  then have "seg J M schema b1 out (append_decoded_field out (fs_name f) i True)"
    using seg_single [OF assms(1,2)] assms(3) by metis
  from seg_append [OF this Cons.IH [OF _ b(2)]] Cons.prems(1) show ?case by (simp add: b(3))
qed simp

lemma repeated_inserts:
  assumes "fmlookup (fields_by_number schema) (fs_number f) = Some f"
    "fs_packable f = is_packable (fs_kind f)" "fs_repeated f" "\<not> fs_packable f" "items \<noteq> []"
    "\<forall>i \<in> set items. encodes J M f i"
  shows "inserts J M schema f (JArray items)"
  unfolding inserts_def
proof (intro allI impI)
  fix bs and out :: "(string \<times> 'a json) list"
  assume "encode_field J (encode_message J M) f (JArray items) = Inr bs" "map_of out (fs_name f) = None"
  then show "seg J M schema bs out (object_insert (fs_name f) (JArray items) out)"
    using items_seg [OF assms(1-3,6), of bs out] append_items [OF assms(5), of out "fs_name f"] assms(3,4)
    by (simp add: encode_field_def)
qed

lemma single_inserts:
  assumes "fmlookup (fields_by_number schema) (fs_number f) = Some f"
    "fs_packable f = is_packable (fs_kind f)" "\<not> fs_repeated f" "encodes J M f v"
  shows "inserts J M schema f v"
  using assms seg_single [OF assms(1,2)]
  by (fastforce simp: inserts_def encodes_def encode_field_def append_decoded_field_def)

lemma pairs_seg:
  "\<forall>p \<in> set ps. inserts J M schema (fst (snd p)) (snd (snd p)) \<Longrightarrow>
   concat_res (\<lambda>p. encode_field J (encode_message J M) (fst (snd p)) (snd (snd p))) ps = Inr bs \<Longrightarrow>
   distinct (map (\<lambda>p. fs_name (fst (snd p))) ps) \<Longrightarrow>
   \<forall>p \<in> set ps. map_of out (fs_name (fst (snd p))) = None \<Longrightarrow>
   seg J M schema bs out (fold (\<lambda>(k, v). object_insert k v) (map (\<lambda>p. (fs_name (fst (snd p)), snd (snd p))) ps) out)"
proof (induction ps arbitrary: bs out)
  case (Cons p ps)
  let ?f = "fst (snd p)" and ?v = "snd (snd p)"
  from Cons.prems(2) obtain b1 b2 where b: "encode_field J (encode_message J M) ?f ?v = Inr b1"
    "concat_res (\<lambda>p. encode_field J (encode_message J M) (fst (snd p)) (snd (snd p))) ps = Inr b2" "bs = b1 @ b2"
    by (auto simp: try_res_Inr_iff map_res_Inr_iff)
  have one: "seg J M schema b1 out (object_insert (fs_name ?f) ?v out)"
    using Cons.prems(1,4) b(1) by (auto simp: inserts_def)
  have "\<forall>q \<in> set ps. map_of (object_insert (fs_name ?f) ?v out) (fs_name (fst (snd q))) = None"
    using Cons.prems(3,4) by (auto simp: image_iff)
  from seg_append [OF one Cons.IH [OF _ b(2) _ this]] Cons.prems(1,3) show ?case by (simp add: b(3))
qed simp

text \<open>A message whose fields insert their values is decoded to its object.\<close>

definition field_of :: "MessageSchema \<Rightarrow> string \<Rightarrow> FieldSchema option" where
  "field_of schema k = Option.bind (fmlookup (fields_by_name schema) k) (fmlookup (fields_by_number schema))"

lemma message_roundtrip:
  assumes "fmlookup M name = Some schema" "object_ok kvs"
    "\<forall>(k, v) \<in> set kvs. \<exists>f. field_of schema k = Some f \<and> fs_name f = k \<and> inserts J M schema f v"
    "encode_message J M name (JObject kvs) = Inr bs" "length bs < 2 ^ 64"
  shows "decode_message J M name bs = Inr (JObject kvs)"
proof -
  let ?named = "\<lambda>p :: u32 \<times> FieldSchema \<times> 'a json. (fs_name (fst (snd p)), snd (snd p))"
  from assms(1,4) obtain ps where ps: "field_pairs name schema kvs = Inr ps"
    "concat_res (\<lambda>p. encode_field J (encode_message J M) (fst (snd p)) (snd (snd p))) (sort_key fst ps) = Inr bs"
    by (auto simp: encode_message.simps [of J M name] try_res_Inr_iff)
  have pairs: "map ?named ps = kvs \<and> (\<forall>p \<in> set ps. inserts J M schema (fst (snd p)) (snd (snd p)))"
    using ps(1) assms(3)
    by (induction name schema kvs arbitrary: ps rule: field_pairs.induct)
       (fastforce simp: client_def map_res_Inr_iff field_of_def split: option.splits)+
  have names: "map (\<lambda>p. fs_name (fst (snd p))) (sort_key fst ps) = map fst (map ?named (sort_key fst ps))"
    by simp
  have dist: "distinct (map fst (map ?named (sort_key fst ps)))"
  proof -
    have "mset (map fst (map ?named (sort_key fst ps))) = mset (map fst (map ?named ps))"
      by (simp only: mset_map mset_sort)
    also have "\<dots> = mset (map fst kvs)" using pairs by simp
    finally have "distinct (map fst (map ?named (sort_key fst ps))) = distinct (map fst kvs)"
      by (rule mset_eq_imp_distinct_iff)
    with object_ok_distinct [OF assms(2)] show ?thesis by blast
  qed
  have "seg J M schema bs [] (fold (\<lambda>(k, v). object_insert k v) (map ?named (sort_key fst ps)) [])"
    by (rule pairs_seg [OF _ ps(2)]) (use pairs dist in \<open>simp_all only: names set_sort map_of.simps\<close>, auto)
  moreover have "fold (\<lambda>(k, v). object_insert k v) (map ?named (sort_key fst ps)) [] = kvs"
  proof (rule fold_object_insert [OF assms(2) _ dist])
    have "set (map ?named (sort_key fst ps)) = set (map ?named ps)" by (simp only: set_map set_sort)
    then show "set (map ?named (sort_key fst ps)) = set kvs" using pairs by simp
  qed
  ultimately have whole: "seg J M schema bs [] kvs" by simp
  have "decode_fields J (decode_message J M) schema bs 0 []
      = decode_fields J (decode_message J M) schema bs (length bs) kvs"
    using whole [unfolded seg_def, rule_format, of "[]" "[]"] assms(5) by simp
  also have "\<dots> = Inr (JObject kvs)" by (simp add: decode_fields.simps)
  finally show ?thesis by (simp add: decode_message.simps [of J M name] assms(1))
qed

context json_numbers
begin

lemma canonical_encodes:
  assumes "canonical J M kind v" "messages_ok M" "fs_kind f = kind"
  shows "encodes J M f v"
  using assms
proof (induction arbitrary: f rule: canonical.induct)
  case (canonical_message name schema kvs)
  from canonical_message.hyps(1) canonical_message.prems(1) have wf: "schema_ok schema" by (auto simp: messages_ok_def)
  have each: "\<exists>f. field_of schema k = Some f \<and> fs_name f = k \<and> inserts J M schema f v" if "(k, v) \<in> set kvs" for k v
  proof -
    from canonical_message.IH that canonical_message.prems(1) obtain n f where
      f: "fmlookup (fields_by_name schema) k = Some n" "fmlookup (fields_by_number schema) n = Some f" "fs_name f = k"
      and v: "if fs_repeated f then \<not> fs_packable f \<and> (\<exists>items. v = JArray items \<and> items \<noteq> [] \<and>
            (\<forall>i \<in> set items. encodes J M f i)) else encodes J M f v"
      by (fastforce split: if_splits)
    from wf f have "fmlookup (fields_by_number schema) (fs_number f) = Some f" "fs_packable f = is_packable (fs_kind f)"
      by (auto simp: schema_ok_def)
    with v have "inserts J M schema f v"
      by (auto intro: repeated_inserts single_inserts split: if_splits)
    with f show ?thesis by (auto simp: field_of_def)
  qed
  then have each': "\<forall>(k, v) \<in> set kvs. \<exists>f. field_of schema k = Some f \<and> fs_name f = k \<and> inserts J M schema f v"
    by blast
  have "carries J M f (JObject kvs) (write_length_delimited enc)" if "encode_message J M name (JObject kvs) = Inr enc" for enc
    unfolding carries_def
  proof (intro allI impI)
    fix pre post :: "u8 list"
    assume len: "length (pre @ write_length_delimited enc) < 2 ^ 64"
    then have "length enc < 2 ^ 64" by (simp add: write_length_delimited_def)
    from message_roundtrip [OF canonical_message.hyps(1,2) each' that this] len canonical_message.prems(2)
    show "decode_single_field_value J (decode_message J M) f (wire_type_of (fs_kind f))
        (pre @ write_length_delimited enc @ post) (length pre)
      = Inr (JObject kvs, length (pre @ write_length_delimited enc))"
      by (simp add: decode_single_field_value_def ensure_wire_type_def wire_type_of_def)
  qed
  then show ?case
    using canonical_message.prems(2)
    by (auto simp: encodes_def encode_single_field_value_def map_res_Inr_iff wire_type_of_def)
qed (use scalar_carries in \<open>fastforce simp: encodes_def intro: canonical.intros\<close>)+

end

section \<open>Encoding succeeds\<close>

lemma concat_res_ok: "(\<exists>ys. concat_res f xs = Inr ys) \<longleftrightarrow> (\<forall>x \<in> set xs. \<exists>y. f x = Inr y)"
proof (induction xs)
  case (Cons x xs)
  then show ?case by (cases "f x"; cases "concat_res f xs") auto
qed simp

context json_numbers
begin

lemma canonical_encodable:
  assumes "canonical J M kind v" "fs_kind f = kind"
  shows "\<exists>bs. encode_single_field_value J (encode_message J M) f v = Inr bs"
  using assms
proof (induction arbitrary: f rule: canonical.induct)
  case (canonical_message name schema kvs)
  have each: "\<exists>n f. fmlookup (fields_by_name schema) k = Some n \<and> fmlookup (fields_by_number schema) n = Some f \<and>
      (\<exists>bs. encode_field J (encode_message J M) f v = Inr bs)" if "(k, v) \<in> set kvs" for k v
  proof -
    from canonical_message.IH that obtain n f where
      f: "fmlookup (fields_by_name schema) k = Some n" "fmlookup (fields_by_number schema) n = Some f"
      and v: "if fs_repeated f then \<not> fs_packable f \<and> (\<exists>items. v = JArray items \<and>
            (\<forall>i \<in> set items. \<exists>bs. encode_single_field_value J (encode_message J M) f i = Inr bs))
          else (\<exists>bs. encode_single_field_value J (encode_message J M) f v = Inr bs)"
      by (fastforce split: if_splits)
    then have "\<exists>bs. encode_field J (encode_message J M) f v = Inr bs"
      by (auto simp: encode_field_def concat_res_ok split: if_splits)
    with f show ?thesis by blast
  qed
  have "\<exists>ps. field_pairs name schema kvs = Inr ps \<and>
      (\<forall>p \<in> set ps. \<exists>bs. encode_field J (encode_message J M) (fst (snd p)) (snd (snd p)) = Inr bs)"
    using each
  proof (induction kvs)
    case (Cons kv kvs)
    obtain k v where kv: "kv = (k, v)" by force
    from Cons.prems [of k v] obtain n f where
      "fmlookup (fields_by_name schema) k = Some n" "fmlookup (fields_by_number schema) n = Some f"
      "\<exists>bs. encode_field J (encode_message J M) f v = Inr bs" by (auto simp: kv)
    moreover from Cons.IH Cons.prems obtain ps where "field_pairs name schema kvs = Inr ps"
      "\<forall>p \<in> set ps. \<exists>bs. encode_field J (encode_message J M) (fst (snd p)) (snd (snd p)) = Inr bs"
      by (metis list.set_intros(2))
    ultimately show ?case by (auto simp: kv)
  qed simp
  then obtain ps where ps: "field_pairs name schema kvs = Inr ps"
    "\<forall>p \<in> set (sort_key fst ps). \<exists>bs. encode_field J (encode_message J M) (fst (snd p)) (snd (snd p)) = Inr bs"
    by auto
  from ps(2) obtain bs where
    "concat_res (\<lambda>p. encode_field J (encode_message J M) (fst (snd p)) (snd (snd p))) (sort_key fst ps) = Inr bs"
    using concat_res_ok [of "\<lambda>p. encode_field J (encode_message J M) (fst (snd p)) (snd (snd p))"] by blast
  then have "encode_message J M name (JObject kvs) = Inr bs"
    using canonical_message.hyps(1) ps(1) by (simp add: encode_message.simps [of J M name])
  then show ?case using canonical_message.prems by (simp add: encode_single_field_value_def)
next
  case (canonical_double x n)
  then show ?case using as_f64_num_f64 [of x n] by (simp add: encode_single_field_value_def to_defs)
qed (auto simp: encode_single_field_value_def to_defs scast_i32 ucast_u32)

lemma message_codec:
  assumes "messages_ok M" "canonical J M (KMessage name) v"
  shows "\<exists>bs. encode_message J M name v = Inr bs \<and> (length bs < 2 ^ 32 \<longrightarrow> decode_message J M name bs = Inr v)"
proof -
  define f where "f = \<lparr>fs_name = [], fs_number = 1, fs_repeated = False, fs_packable = False, fs_kind = KMessage name\<rparr>"
  have kind: "fs_kind f = KMessage name" by (simp add: f_def)
  from canonical_encodable [OF assms(2) kind] obtain bs where bs: "encode_message J M name v = Inr bs"
    by (auto simp: encode_single_field_value_def kind map_res_Inr_iff)
  from canonical_encodes [OF assms(2,1) kind] bs
  have "carries J M f v (write_length_delimited bs)"
    by (auto simp: encodes_def encode_single_field_value_def kind wire_type_of_def)
  moreover have "length (write_length_delimited bs) < 2 ^ 64" if "length bs < 2 ^ 32"
    using that write_varint_length(2) [of "of_nat (length bs)"] by (simp add: write_length_delimited_def)
  ultimately have "decode_message J M name bs = Inr v" if "length bs < 2 ^ 32"
    using that unfolding carries_def
    by (auto simp: decode_single_field_value_def kind wire_type_of_def ensure_wire_type_def map_res_Inr_iff
        dest!: spec [of _ "[]"])
  with bs show ?thesis by blast
qed

end

section \<open>Packed fields\<close>

context json_numbers
begin

lemma packable_value_roundtrip:
  assumes "canonical J M kind v" "is_packable kind" "encode_packable_value J kind v = Inr data"
    "length (pre @ data) < 2 ^ 64"
  shows "decode_packable_value J kind (pre @ data @ post) (length pre) = Inr (v, length (pre @ data))"
  using assms
proof cases
  case (canonical_double x n)
  then show ?thesis using assms(3,4) as_f64_num_f64 [of x n]
    by (auto simp: encode_packable_value_def to_defs decode_packable_value_def double_value_def)
next
  case (canonical_float n x)
  then show ?thesis using assms(3,4)
    by (auto simp: encode_packable_value_def to_defs decode_packable_value_def double_value_def)
qed (use assms(2-4) in \<open>auto simp: encode_packable_value_def to_defs is_packable_def client_def
        decode_packable_value_def map_decoded_def scast_i32 ucast_u32\<close>)

lemma packed_roundtrip:
  assumes "is_packable kind"
  shows "\<forall>i \<in> set items. canonical J M kind i \<Longrightarrow> concat_res (encode_packable_value J kind) items = Inr packed \<Longrightarrow>
    length (pre @ packed) < 2 ^ 64 \<Longrightarrow>
    decode_packed J kind (pre @ packed @ post) (length pre) (length (pre @ packed)) = Inr items"
proof (induction items arbitrary: pre packed)
  case (Cons i items)
  from Cons.prems(2) obtain b1 b2 where b: "encode_packable_value J kind i = Inr b1"
    "concat_res (encode_packable_value J kind) items = Inr b2" "packed = b1 @ b2"
    by (auto simp: try_res_Inr_iff map_res_Inr_iff)
  have one: "decode_packable_value J kind (pre @ packed @ post) (length pre) = Inr (i, length (pre @ b1))"
    using packable_value_roundtrip [of M kind i b1 pre "b2 @ post"] Cons.prems assms b by simp
  have "decode_packed J kind ((pre @ b1) @ b2 @ post) (length (pre @ b1)) (length ((pre @ b1) @ b2)) = Inr items"
    by (rule Cons.IH) (use Cons.prems b in auto)
  then show ?case
    using one decode_packable_bounds [OF one] b(3) by (subst decode_packed.simps) simp
qed (simp add: decode_packed.simps)

lemma packed_field_nested:
  assumes "messages_ok M" "fmlookup M name = Some schema" "fmlookup (fields_by_name schema) k = Some n"
    "fmlookup (fields_by_number schema) n = Some f" "fs_name f = k" "fs_repeated f" "fs_packable f"
    "\<forall>i \<in> set items. canonical J M (fs_kind f) i"
    "encode_message J M name (JObject [(k, JArray items)]) = Inr bs" "length bs < 2 ^ 64"
  shows "decode_message J M name bs = Inr (JObject [(k, JArray [JArray items])])"
proof -
  from assms(1-4) have f: "fs_number f = n" "is_packable (fs_kind f)"
    using assms(7) by (auto simp: messages_ok_def schema_ok_def)
  from assms(2-7,9) obtain packed where packed: "concat_res (encode_packable_value J (fs_kind f)) items = Inr packed"
    "bs = write_key n 2 @ write_length_delimited packed"
    by (auto simp: encode_message.simps [of J M name] encode_field_def encode_packed_repeated_field_def
        map_res_Inr_iff try_res_Inr_iff f(1))
  define key :: u64 where "key = push_bit 3 (ucast n) OR ucast (2 :: u8)"
  have key: "write_key n 2 = write_varint key" by (simp add: key_def write_key_def)
  have parts: "ucast (drop_bit 3 key) = n" "ucast (key AND 7) = (2 :: u8)"
    unfolding key_def using key_fields [of 2 n] by simp_all
  have len: "unat (of_nat (length packed) :: u64) = length packed"
    using assms(10) packed(2) by (simp add: unsigned_of_nat take_bit_nat_eq_self write_length_delimited_def)
  let ?pre = "write_varint key @ write_varint (of_nat (length packed))"
  have bs: "bs = ?pre @ packed" using packed(2) key by (simp add: write_length_delimited_def)
  have "decode_packed J (fs_kind f) (?pre @ packed @ []) (length ?pre) (length (?pre @ packed)) = Inr items"
    by (rule packed_roundtrip [OF f(2) assms(8) packed(1)]) (use assms(10) bs in simp)
  then have "packed_field J (fs_kind f) bs (length (write_varint key)) = Inr (JArray items, length bs)"
    using read_write_varint [of "write_varint key" "of_nat (length packed)" packed] assms(10) len
    by (simp add: packed_field_def bs advance_to_def add.assoc)
  moreover have "read_varint bs 0 = Inr (key, length (write_varint key))"
    using read_write_varint [of "[]" key "write_varint (of_nat (length packed)) @ packed"] by (simp add: bs)
  moreover have "bs \<noteq> []" using write_varint_length(1) [of key] by (auto simp: bs)
  ultimately show ?thesis
    using assms(2,4-7) parts
    by (simp add: decode_message.simps [of J M name] decode_fields.simps [of J _ schema bs 0]
        decode_fields.simps [of J _ schema bs "length bs"] Let_def field_value_def append_decoded_field_def)
qed

end

section \<open>The codec of the gateway\<close>

definition encode_request_fields ::
  "'n codec_lib \<Rightarrow> MethodRegistry \<times> MessageRegistry \<Rightarrow> string \<Rightarrow> string \<Rightarrow> 'n json \<Rightarrow> (pulse_error, u8 list) result" where
  "encode_request_fields J gateway service method v =
     try_res (method_meta (fst gateway) service method) (\<lambda>meta. encode_message J (snd gateway) (input_type meta) v)"

definition decode_response_fields ::
  "'n codec_lib \<Rightarrow> MethodRegistry \<times> MessageRegistry \<Rightarrow> string \<Rightarrow> string \<Rightarrow> u8 list \<Rightarrow> (pulse_error, 'n json) result" where
  "decode_response_fields J gateway service method payload =
     try_res (method_meta (fst gateway) service method) (\<lambda>meta. decode_message J (snd gateway) (output_type meta) payload)"

text \<open>A descriptor set with one message, whose fields are a text, a signed number, a repeated text, a
  repeated number and the message itself, and one method.\<close>

definition demo_field :: "string \<Rightarrow> i32 \<Rightarrow> i32 \<Rightarrow> i32 \<Rightarrow> FieldDescriptor" where
  "demo_field name number label type = \<lparr>fd_name = Some name, fd_number = Some number, fd_label = Some label,
     fd_type = Some type, fd_type_name = (if type = 11 then Some ''.echo.Ping'' else None), fd_json_name = None\<rparr>"

definition demo_set :: "string \<Rightarrow> (pulse_error, FileDescriptor list) result" where
  "demo_set path = Inr [\<lparr>file_package = Some ''echo'',
     file_message_type = [DescriptorProto (Some ''Ping'')
       [demo_field ''text'' 1 1 9, demo_field ''count'' 2 1 17, demo_field ''tags'' 3 3 9,
        demo_field ''ids'' 4 3 7, demo_field ''inner'' 5 1 11] []],
     file_service = [\<lparr>sd_name = Some ''Echo'', sd_method = [\<lparr>md_name = Some ''Send'',
       md_input_type = Some ''.echo.Ping'', md_output_type = Some ''.echo.Ping'',
       md_client_streaming = None, md_server_streaming = None\<rparr>]\<rparr>]\<rparr>]"

definition demo_schema :: MessageSchema where
  "demo_schema =
     (let field = (\<lambda>name number repeated kind. \<lparr>fs_name = name, fs_number = number, fs_repeated = repeated,
            fs_packable = is_packable kind, fs_kind = kind\<rparr>);
          fs = [field ''text'' 1 False KString, field ''count'' 2 False KSInt32, field ''tags'' 3 True KString,
            field ''ids'' 4 True KFixed32, field ''inner'' 5 False (KMessage ''echo.Ping'')]
      in \<lparr>fields_by_name = fold (\<lambda>f. fmupd (fs_name f) (fs_number f)) fs fmempty,
          fields_by_number = fold (\<lambda>f. fmupd (fs_number f) f) fs fmempty\<rparr>)"

definition demo_gateway :: "MethodRegistry \<times> MessageRegistry" where
  "demo_gateway = (fmupd (''echo.Echo'', ''Send'') \<lparr>route_path = ''/echo.Echo/Send'', client_streaming = False,
     server_streaming = False, input_type = ''echo.Ping'', output_type = ''echo.Ping''\<rparr> fmempty,
     fmupd ''echo.Ping'' demo_schema fmempty)"

lemma not_blank [simp]: "graphic c \<Longrightarrow> \<not> blank (c # s)"
  using trim_not_empty [of c "c # s"] by (simp add: blank_def)

lemma demo_loads: "load_schema demo_set ''set'' = Inr demo_gateway"
proof -
  have "collect_fields ''echo.Ping'' [demo_field ''text'' 1 1 9, demo_field ''count'' 2 1 17, demo_field ''tags'' 3 3 9,
      demo_field ''ids'' 4 3 7, demo_field ''inner'' 5 1 11] \<lparr>fields_by_name = fmempty, fields_by_number = fmempty\<rparr>
    = Inr demo_schema"
    by (simp add: demo_field_def demo_schema_def map_field_kind_def normalize_name_def graphic_def Let_def)
  then show ?thesis
    by (simp add: load_schema_def demo_set_def demo_gateway_def full_name_of_def graphic_def normalize_name_def
        Let_def del: collect_fields.simps)
qed

definition demo_request :: "json_number json" where
  "demo_request = JObject [(''count'', JNumber (num_i32 serde_numbers (- 3))), (''inner'', JObject [(''text'', JString ''hi'')]),
     (''tags'', JArray [JString ''a'', JString ''b'']), (''text'', JString ''x'')]"

lemma ping_fields [simp]:
  "fmlookup (snd demo_gateway) ''echo.Ping'' = Some demo_schema"
  "fmlookup (fields_by_name demo_schema) ''text'' = Some 1" "fmlookup (fields_by_name demo_schema) ''count'' = Some 2"
  "fmlookup (fields_by_name demo_schema) ''tags'' = Some 3" "fmlookup (fields_by_name demo_schema) ''ids'' = Some 4"
  "fmlookup (fields_by_name demo_schema) ''inner'' = Some 5"
  "fmlookup (fields_by_number demo_schema) 1 = Some \<lparr>fs_name = ''text'', fs_number = 1, fs_repeated = False, fs_packable = False, fs_kind = KString\<rparr>"
  "fmlookup (fields_by_number demo_schema) 2 = Some \<lparr>fs_name = ''count'', fs_number = 2, fs_repeated = False, fs_packable = True, fs_kind = KSInt32\<rparr>"
  "fmlookup (fields_by_number demo_schema) 3 = Some \<lparr>fs_name = ''tags'', fs_number = 3, fs_repeated = True, fs_packable = False, fs_kind = KString\<rparr>"
  "fmlookup (fields_by_number demo_schema) 4 = Some \<lparr>fs_name = ''ids'', fs_number = 4, fs_repeated = True, fs_packable = True, fs_kind = KFixed32\<rparr>"
  "fmlookup (fields_by_number demo_schema) 5 = Some \<lparr>fs_name = ''inner'', fs_number = 5, fs_repeated = False, fs_packable = False, fs_kind = KMessage ''echo.Ping''\<rparr>"
  "fmlookup (fields_by_number demo_schema) 0 = None"
  by (simp_all add: demo_gateway_def demo_schema_def is_packable_def)

lemma demo_canonical: "canonical serde_numbers (snd demo_gateway) (KMessage ''echo.Ping'') demo_request"
proof -
  have str: "canonical serde_numbers (snd demo_gateway) KString (JString s)" if "s \<in> {''hi'', ''a'', ''b'', ''x''}" for s
    by (rule canonical_string) (use that in \<open>auto simp: bytes_of_def utf8_sequence_def\<close>)
  have inner: "canonical serde_numbers (snd demo_gateway) (KMessage ''echo.Ping'') (JObject [(''text'', JString ''hi'')])"
    by (rule canonical_message [where schema = demo_schema]) (use str in \<open>auto simp: object_ok_def\<close>)
  define three :: i32 where "three = - 3"
  have number: "canonical serde_numbers (snd demo_gateway) KSInt32 (JNumber (num_i32 serde_numbers three))"
    by (rule canonical_i32) simp
  have sorted: "object_ok [(''count'', JNumber (num_i32 serde_numbers three)), (''inner'', JObject [(''text'', JString ''hi'')]),
     (''tags'', JArray [JString ''a'', JString ''b'']), (''text'', JString ''x'')]"
    by (simp add: object_ok_def less_char_def)
  show ?thesis
    unfolding demo_request_def three_def [symmetric]
    by (rule canonical_message [where schema = demo_schema, OF _ sorted]) (simp_all add: str inner number)
qed

section \<open>Properties of the codec\<close>

text \<open>C28: The codec is faithful on every loaded schema: a JSON object in canonical form for a message
  (integers in the range of their field, valid UTF-8, nested messages and repeated fields that are not
  packed, in key order) is accepted by the encoder, and decoding the bytes gives the object back.  The
  bound is the one gRPC puts on a message.\<close>

theorem message_codec_roundtrip:
  assumes "json_numbers J" "load_schema read_set path = Inr (methods, messages)"
    "canonical J messages (KMessage name) v"
  shows "\<exists>bs. encode_message J messages name v = Inr bs \<and>
    (length bs < 2 ^ 32 \<longrightarrow> decode_message J messages name bs = Inr v)"
proof (rule json_numbers.message_codec [OF assms(1) _ assms(3)])
  from assms(2) obtain fs where "load_files fs (fmempty, fmempty) = Inr (methods, messages)"
    by (auto simp: load_schema_def try_res_Inr_iff client_def split: if_splits)
  from load_files_ok [OF this] show "messages_ok messages" by (simp add: messages_ok_def methods_ok_def)
qed

theorem message_codec_roundtrip_witness:
  "\<exists>bs. encode_message serde_numbers (snd demo_gateway) ''echo.Ping'' demo_request = Inr bs \<and>
    (length bs < 2 ^ 32 \<longrightarrow> decode_message serde_numbers (snd demo_gateway) ''echo.Ping'' bs = Inr demo_request)"
  by (rule message_codec_roundtrip [OF serde.json_numbers_axioms _ demo_canonical,
        where read_set = demo_set and path = "''set''" and methods = "fst demo_gateway"])
     (simp add: demo_loads)

text \<open>C30: Packed fields do not survive the codec: a repeated field of a packable kind is encoded as one
  packed field, and decoding these bytes gives an array that holds the array of the elements, so an
  element is not where the request had it.\<close>

theorem packed_field_decoded_nested:
  assumes "json_numbers J" "messages_ok messages" "fmlookup messages name = Some schema"
    "fmlookup (fields_by_name schema) k = Some n" "fmlookup (fields_by_number schema) n = Some f"
    "fs_name f = k" "fs_repeated f" "fs_packable f" "\<forall>i \<in> set items. canonical J messages (fs_kind f) i"
    "encode_message J messages name (JObject [(k, JArray items)]) = Inr bs" "length bs < 2 ^ 64"
  shows "decode_message J messages name bs = Inr (JObject [(k, JArray [JArray items])])"
  by (rule json_numbers.packed_field_nested [OF assms])

lemma demo_messages_ok: "messages_ok (snd demo_gateway)"
  using load_files_ok [of _ fmempty fmempty "fst demo_gateway" "snd demo_gateway"] demo_loads
  by (auto simp: load_schema_def try_res_Inr_iff client_def messages_ok_def methods_ok_def split: if_splits)

lemma to_le_numeral: "to_le (numeral k) w = ucast w # to_le (pred_numeral k) (drop_bit 8 w)"
  by (simp add: numeral_eq_Suc)

lemma serde_simps:
  "num_u64 serde_numbers u = PosInt u" "as_u64 serde_numbers (PosInt u) = Some u"
  by (simp_all add: serde_numbers_def)

lemma demo_ids_encoded:
  "encode_message serde_numbers (snd demo_gateway) ''echo.Ping''
     (JObject [(''ids'', JArray [JNumber (PosInt 7), JNumber (PosInt 8)])])
   = Inr [34, 8, 7, 0, 0, 0, 8, 0, 0, 0]"
  by (simp add: encode_message.simps encode_field_def encode_packed_repeated_field_def encode_packable_value_def
      to_u32_def to_number_def serde_simps u32_of_u64_def write_key_def write_length_delimited_def
      write_varint.simps to_le_numeral)

theorem packed_field_decoded_nested_witness:
  "decode_message serde_numbers (snd demo_gateway) ''echo.Ping'' [34, 8, 7, 0, 0, 0, 8, 0, 0, 0]
   = Inr (JObject [(''ids'', JArray [JArray [JNumber (PosInt 7), JNumber (PosInt 8)]])])"
proof (rule packed_field_decoded_nested [OF serde.json_numbers_axioms demo_messages_ok ping_fields(1) ping_fields(5)
      ping_fields(10)])
  have "canonical serde_numbers (snd demo_gateway) KFixed32 (JNumber (PosInt n))" if "n \<in> {7, 8}" for n
    using canonical_u32 [of KFixed32 serde_numbers "snd demo_gateway" "ucast n"] that by (auto simp: serde_simps)
  then show "\<forall>i \<in> set [JNumber (PosInt 7), JNumber (PosInt 8)]. canonical serde_numbers (snd demo_gateway)
      (fs_kind \<lparr>fs_name = ''ids'', fs_number = 4, fs_repeated = True, fs_packable = True, fs_kind = KFixed32\<rparr>) i"
    by simp
qed (simp_all add: demo_ids_encoded)

text \<open>The elements of a packed field are read from the whole payload, so an element may reach beyond the
  end of its field: here a field of two bytes gives a four-byte element, and its last two bytes are
  then read again as the next field.\<close>

lemma packed_element_overruns_field:
  "decode_message serde_numbers (snd demo_gateway) ''echo.Ping'' [34, 2, 1, 0, 0, 0]
   = Inr (JObject [(''ids'', JArray [JArray [JNumber (PosInt 1)]])])"
  by (simp add: decode_message.simps decode_fields.simps read_varint_def read_varint_loop.simps field_value_def
      packed_field_def decode_packed.simps decode_packable_value_def advance_to_def read_fixed32_def
      map_decoded_def skip_wire_value_def append_decoded_field_def serde_simps)

theorem loaded_schema_ok_witness:
  "fst demo_gateway \<noteq> fmempty \<and> messages_ok (snd demo_gateway) \<and> methods_ok (snd demo_gateway) (fst demo_gateway) \<and>
   (\<exists>files. demo_set ''set'' = Inr files \<and> set_represented files (fst demo_gateway) (snd demo_gateway))"
  by (rule loaded_schema_ok [of demo_set "''set''"]) (simp add: demo_loads)

end
