(* ===== verification/Templates.thy ===== *)
theory Templates
  imports Grpc_Codec Run_Metrics
begin

text \<open>
  Scenario steps: the template language of \<open>application/template.rs\<close>, the step of
  \<open>application/steps.rs\<close> and the unary call of \<open>infrastructure/grpc/dynamic_gateway.rs\<close>.

  The random numbers and identifiers come from a generator: its state \<open>'g\<close> is passed along and its
  two operations are the fields of \<open>generator\<close>.  The network is the argument \<open>transport\<close> of a gateway,
  which answers a call by its route and payload.  The context is the finite map of its variables.
\<close>

section \<open>Text\<close>

text \<open>\<open>str::find\<close>.\<close>

fun find_str :: "string \<Rightarrow> string \<Rightarrow> nat option" where
  "find_str p [] = (if p = [] then Some 0 else None)"
| "find_str p (c # s) = (if prefix p (c # s) then Some 0 else map_option Suc (find_str p s))"

section \<open>Generators\<close>

record 'g generator =
  next_uuid :: "'g \<Rightarrow> string \<times> 'g"
  next_range :: "int \<Rightarrow> int \<Rightarrow> 'g \<Rightarrow> int \<times> 'g"

text \<open>A range gives a value between its bounds, both included.\<close>

locale random_ranges =
  fixes G :: "'g generator"
  assumes range_bounds: "lo \<le> hi \<Longrightarrow> lo \<le> fst (next_range G lo hi g) \<and> fst (next_range G lo hi g) \<le> hi"

definition generate_phone :: "'g generator \<Rightarrow> 'g \<Rightarrow> string \<times> 'g" where
  "generate_phone G g =
     (let (n1, g1) = next_range G 200 998 g;
          (n2, g2) = next_range G 100 998 g1;
          (n3, g3) = next_range G 1000 9998 g2
      in (''+1'' @ int_str n1 @ int_str n2 @ int_str n3, g3))"

section \<open>Templates\<close>

type_synonym ScenarioContext = "(string, string) fmap"

definition evaluate_template_expr ::
  "'g generator \<Rightarrow> string \<Rightarrow> ScenarioContext \<Rightarrow> 'g \<Rightarrow> (pulse_error, string) result \<times> 'g" where
  "evaluate_template_expr G expr ctx g = (case strip_prefix_str ''ctx.'' expr of
     Some key \<Rightarrow> (ok_or (fmlookup ctx key) (MissingContextVar key), g)
   | None \<Rightarrow>
       if expr = ''gen.uuid'' then (let (u, g1) = next_uuid G g in (Inr u, g1))
       else if expr = ''gen.phone'' then (let (p, g1) = generate_phone G g in (Inr p, g1))
       else case strip_prefix_str ''gen.int:'' expr of
         None \<Rightarrow> (client (''unsupported template expression: '' @ expr), g)
       | Some args \<Rightarrow>
           let invalid = client (''invalid generator expression: '' @ expr); parts = split_on CHR '':'' args
           in case parse_signed (hd parts) of
                None \<Rightarrow> (client (''invalid int min in expression: '' @ expr), g)
              | Some (low :: i64) \<Rightarrow> (case tl parts of
                  [] \<Rightarrow> (invalid, g)
                | second # rest \<Rightarrow> (case parse_signed second of
                    None \<Rightarrow> (client (''invalid int max in expression: '' @ expr), g)
                  | Some (high :: i64) \<Rightarrow>
                      if rest \<noteq> [] then (invalid, g)
                      else if sint high < sint low
                      then (client (''invalid generator bounds in '' @ quoted expr @ '': min > max''), g)
                      else let (n, g1) = next_range G (sint low) (sint high) g in (Inr (int_str n), g1))))"

lemma find_str_bound: "find_str p s = Some i \<Longrightarrow> i + length p \<le> length s"
  by (induction p s arbitrary: i rule: find_str.induct) (auto split: if_splits dest: prefix_length_le)

text \<open>The loop of \<open>render_string_template\<close> on the text behind its cursor.\<close>

function render_rest ::
  "'g generator \<Rightarrow> string \<Rightarrow> ScenarioContext \<Rightarrow> string \<Rightarrow> string \<Rightarrow> 'g \<Rightarrow> (pulse_error, string) result \<times> 'g" where
  "render_rest G input ctx rest out g = (case find_str ''${'' rest of
     None \<Rightarrow> (Inr (out @ rest), g)
   | Some start \<Rightarrow>
       let body = drop (start + 2) rest
       in case find_str ''}'' body of
            None \<Rightarrow> (client (''unterminated template expression in '' @ quoted input), g)
          | Some fin \<Rightarrow> (case evaluate_template_expr G (trim (take fin body)) ctx g of
              (Inl e, g1) \<Rightarrow> (Inl e, g1)
            | (Inr resolved, g1) \<Rightarrow>
                render_rest G input ctx (drop (fin + 1) body) (out @ take start rest @ resolved) g1))"
  by auto
termination
  by (relation "measure (\<lambda>(_, _, _, rest, _, _). length rest)") (auto dest!: find_str_bound)

declare render_rest.simps [simp del]

definition render_string_template ::
  "'g generator \<Rightarrow> string \<Rightarrow> ScenarioContext \<Rightarrow> 'g \<Rightarrow> (pulse_error, string) result \<times> 'g" where
  "render_string_template G input ctx g = render_rest G input ctx input [] g"

text \<open>\<open>render_json_templates\<close>, with the loops over the entries and items as folds that stop at an error.\<close>

fun render_json_templates ::
  "'g generator \<Rightarrow> 'n json \<Rightarrow> ScenarioContext \<Rightarrow> 'g \<Rightarrow> (pulse_error, 'n json) result \<times> 'g"
and render_items ::
  "'g generator \<Rightarrow> 'n json list \<Rightarrow> ScenarioContext \<Rightarrow> 'g \<Rightarrow> (pulse_error, 'n json list) result \<times> 'g"
and render_entries ::
  "'g generator \<Rightarrow> (string \<times> 'n json) list \<Rightarrow> (string \<times> 'n json) list \<Rightarrow> ScenarioContext \<Rightarrow> 'g
     \<Rightarrow> (pulse_error, (string \<times> 'n json) list) result \<times> 'g" where
  "render_json_templates G v ctx g = (case v of
     JObject m \<Rightarrow> (case render_entries G m [] ctx g of (r, g1) \<Rightarrow> (map_res JObject r, g1))
   | JArray items \<Rightarrow> (case render_items G items ctx g of (r, g1) \<Rightarrow> (map_res JArray r, g1))
   | JString s \<Rightarrow> (case render_string_template G s ctx g of (r, g1) \<Rightarrow> (map_res JString r, g1))
   | _ \<Rightarrow> (Inr v, g))"
| "render_items G [] ctx g = (Inr [], g)"
| "render_items G (v # items) ctx g = (case render_json_templates G v ctx g of
     (Inl e, g1) \<Rightarrow> (Inl e, g1)
   | (Inr v', g1) \<Rightarrow> (case render_items G items ctx g1 of (r, g2) \<Rightarrow> (map_res ((#) v') r, g2)))"
| "render_entries G [] out ctx g = (Inr out, g)"
| "render_entries G ((k, v) # m) out ctx g = (case render_json_templates G v ctx g of
     (Inl e, g1) \<Rightarrow> (Inl e, g1)
   | (Inr v', g1) \<Rightarrow> render_entries G m (object_insert k v' out) ctx g1)"

definition extract_path :: "'n json \<Rightarrow> string \<Rightarrow> 'n json option" where
  "extract_path v path =
     (if blank path then Some v
      else fold (\<lambda>segment current. Option.bind current (\<lambda>v. case v of
             JObject m \<Rightarrow> map_of m segment
           | _ \<Rightarrow> None)) (split_on CHR ''.'' path) (Some v))"

definition value_to_context_string :: "'n codec_lib \<Rightarrow> 'n json \<Rightarrow> (pulse_error, string) result" where
  "value_to_context_string J v = (case v of
     JString s \<Rightarrow> Inr s
   | JNumber n \<Rightarrow> Inr (num_str J n)
   | JBool b \<Rightarrow> Inr (bool_str b)
   | JNull \<Rightarrow> client ''cannot store null response value in context''
   | _ \<Rightarrow> Inr (json_str J v))"

section \<open>The unary call\<close>

text \<open>What the transport answers: the channel is not ready, the request deadline passes, the call ends
  with a status (with the flag of a deadline status), or it returns a payload.\<close>

datatype transport_reply =
    Not_Ready string
  | Elapsed
  | Status bool string string
  | Response "u8 list"

record gateway =
  gw_methods :: MethodRegistry
  gw_messages :: MessageRegistry
  gw_route :: "string \<Rightarrow> (string, unit) result"
  gw_transport :: "string \<Rightarrow> u8 list \<Rightarrow> transport_reply"

definition unary :: "gateway \<Rightarrow> string \<Rightarrow> string \<Rightarrow> u8 list \<Rightarrow> (pulse_error, u8 list) result" where
  "unary gw service method payload =
     try_res (method_meta (gw_methods gw) service method) (\<lambda>meta.
       let label = service @ ''/'' @ method; timeout = RequestTimeout (''grpc:'' @ label)
       in if client_streaming meta \<or> server_streaming meta
          then client (''method '' @ label @ '' is streaming; only unary is supported'')
          else case gw_route gw (route_path meta) of
            Inl e \<Rightarrow> client (''invalid grpc route path: '' @ e)
          | Inr _ \<Rightarrow> (case gw_transport gw (route_path meta) payload of
              Not_Ready e \<Rightarrow> Inl (TargetTransport (''dynamic grpc client not ready for '' @ label @ '': '' @ e))
            | Elapsed \<Rightarrow> Inl timeout
            | Status deadline_exceeded code status \<Rightarrow>
                if deadline_exceeded then Inl timeout
                else Inl (TargetStatus code (''dynamic grpc call '' @ label @ '' failed: '' @ status))
            | Response data \<Rightarrow> Inr data))"

section \<open>The step\<close>

datatype 'n GrpcRequestSpec =
    Empty_Request
  | StaticBase64Template string
  | FieldTemplate "'n json"

record 'n DynamicGrpcStep =
  step_name :: string
  endpoint_override :: "string option"
  step_service :: string
  step_method :: string
  request_spec :: "'n GrpcRequestSpec"
  extraction :: "(string, string) fmap"
  response_payload_context_key :: "string option"

definition new_step ::
  "string option \<Rightarrow> string \<Rightarrow> string \<Rightarrow> 'n GrpcRequestSpec \<Rightarrow> (string, string) fmap \<Rightarrow> string option
     \<Rightarrow> 'n DynamicGrpcStep" where
  "new_step override service method spec extract payload_key =
     \<lparr>step_name = ''grpc:'' @ service @ ''/'' @ method, endpoint_override = override, step_service = service,
      step_method = method, request_spec = spec, extraction = extract,
      response_payload_context_key = payload_key\<rparr>"

fun join_str :: "string \<Rightarrow> string list \<Rightarrow> string" where
  "join_str sep [] = []"
| "join_str sep [s] = s"
| "join_str sep (s # ss) = s @ sep @ join_str sep ss"

definition fingerprint_material :: "'n codec_lib \<Rightarrow> 'n DynamicGrpcStep \<Rightarrow> string" where
  "fingerprint_material J step =
     (let request = (case request_spec step of
            Empty_Request \<Rightarrow> ''empty''
          | StaticBase64Template t \<Rightarrow> ''base64:'' @ t
          | FieldTemplate v \<Rightarrow> ''fields:'' @ json_str J v);
          extracted = join_str '','' (map (\<lambda>(k, path). k @ ''='' @ path) (entries (extraction step)))
      in ''grpc|endpoint='' @ (case endpoint_override step of None \<Rightarrow> ''<default>'' | Some e \<Rightarrow> e)
         @ ''|service='' @ step_service step @ ''|method='' @ step_method step @ ''|request='' @ request
         @ ''|extract='' @ extracted @ ''|payload_key=''
         @ (case response_payload_context_key step of None \<Rightarrow> [] | Some k \<Rightarrow> k))"

record StepPorts =
  default_endpoint :: string
  dynamic_grpc_gateways :: "(string, gateway) fmap"

definition step_endpoint :: "'n DynamicGrpcStep \<Rightarrow> StepPorts \<Rightarrow> string" where
  "step_endpoint step ports = (case endpoint_override step of None \<Rightarrow> default_endpoint ports | Some e \<Rightarrow> e)"

definition validate_step :: "'n DynamicGrpcStep \<Rightarrow> StepPorts \<Rightarrow> (pulse_error, unit) result" where
  "validate_step step ports =
     (let endpoint = step_endpoint step ports
      in try_res (ok_or (fmlookup (dynamic_grpc_gateways ports) endpoint)
             (InvalidScenario (''dynamic gRPC gateway is not configured for endpoint '' @ quoted endpoint)))
           (\<lambda>gw. validate_unary_method (gw_methods gw) (step_service step) (step_method step)))"

definition request_payload ::
  "'n codec_lib \<Rightarrow> 'g generator \<Rightarrow> gateway \<Rightarrow> 'n DynamicGrpcStep \<Rightarrow> ScenarioContext \<Rightarrow> 'g
     \<Rightarrow> (pulse_error, u8 list) result \<times> 'g" where
  "request_payload J G gw step ctx g = (case request_spec step of
     Empty_Request \<Rightarrow> (Inr [], g)
   | StaticBase64Template t \<Rightarrow> (case render_string_template G t ctx g of (r, g1) \<Rightarrow>
       (try_res r (\<lambda>text. case b64_decode J text of
          Inl e \<Rightarrow> client (''invalid rendered request_base64 for '' @ step_service step @ ''/'' @ step_method step
            @ '': '' @ e)
        | Inr data \<Rightarrow> Inr data), g1))
   | FieldTemplate t \<Rightarrow> (case render_json_templates G t ctx g of (r, g1) \<Rightarrow>
       (try_res r (encode_request_fields J (gw_methods gw, gw_messages gw) (step_service step) (step_method step)), g1)))"

fun extract_all ::
  "'n codec_lib \<Rightarrow> string \<Rightarrow> 'n json \<Rightarrow> (string \<times> string) list \<Rightarrow> ScenarioContext \<Rightarrow> (pulse_error, ScenarioContext) result" where
  "extract_all J label decoded [] ctx = Inr ctx"
| "extract_all J label decoded ((ctx_key, path) # rest) ctx =
     try_res (ok_or (extract_path decoded path)
         (Client (''extraction path '' @ quoted path @ '' not found in response for '' @ label))) (\<lambda>v.
     try_res (value_to_context_string J v) (\<lambda>serialized.
       extract_all J label decoded rest (fmupd ctx_key serialized ctx)))"

definition execute_step ::
  "'n codec_lib \<Rightarrow> 'g generator \<Rightarrow> StepPorts \<Rightarrow> 'n DynamicGrpcStep \<Rightarrow> ScenarioContext \<Rightarrow> 'g
     \<Rightarrow> (pulse_error, ScenarioContext) result \<times> 'g" where
  "execute_step J G ports step ctx g =
     (let endpoint = step_endpoint step ports; label = step_service step @ ''/'' @ step_method step
      in case fmlookup (dynamic_grpc_gateways ports) endpoint of
           None \<Rightarrow> (client (''dynamic gRPC gateway is not configured for endpoint '' @ quoted endpoint @ '' in step ''
             @ quoted (step_name step)), g)
         | Some gw \<Rightarrow> (case request_payload J G gw step ctx g of (r, g1) \<Rightarrow>
             (try_res r (\<lambda>payload.
              try_res (unary gw (step_service step) (step_method step) payload) (\<lambda>response.
                let ctx1 = (case response_payload_context_key step of
                      None \<Rightarrow> ctx | Some key \<Rightarrow> fmupd key (b64_encode J response) ctx)
                in if extraction step = fmempty then Inr ctx1
                   else try_res (decode_response_fields J (gw_methods gw, gw_messages gw) (step_service step)
                       (step_method step) response)
                     (\<lambda>decoded. extract_all J label decoded (entries (extraction step)) ctx1))), g1)))"

section \<open>Rendering\<close>

text \<open>What a template can hold between its braces, and what it stands for.  A value is a result: a
  variable may be missing and the bounds of a range may be in the wrong order.\<close>

datatype placeholder = Context_Var string | Gen_Uuid | Gen_Phone | Gen_Int i64 i64

fun expr_text :: "placeholder \<Rightarrow> string" where
  "expr_text (Context_Var k) = ''ctx.'' @ k"
| "expr_text Gen_Uuid = ''gen.uuid''"
| "expr_text Gen_Phone = ''gen.phone''"
| "expr_text (Gen_Int lo hi) = ''gen.int:'' @ int_str (sint lo) @ '':'' @ int_str (sint hi)"

fun placeholder_value ::
  "'g generator \<Rightarrow> ScenarioContext \<Rightarrow> placeholder \<Rightarrow> 'g \<Rightarrow> (pulse_error, string) result \<times> 'g" where
  "placeholder_value G ctx (Context_Var k) g =
     (case fmlookup ctx k of None \<Rightarrow> (Inl (MissingContextVar k), g) | Some v \<Rightarrow> (Inr v, g))"
| "placeholder_value G ctx Gen_Uuid g = (Inr (fst (next_uuid G g)), snd (next_uuid G g))"
| "placeholder_value G ctx Gen_Phone g = (Inr (fst (generate_phone G g)), snd (generate_phone G g))"
| "placeholder_value G ctx (Gen_Int lo hi) g =
     (if sint lo \<le> sint hi
      then (Inr (int_str (fst (next_range G (sint lo) (sint hi) g))), snd (next_range G (sint lo) (sint hi) g))
      else (client (''invalid generator bounds in '' @ quoted (expr_text (Gen_Int lo hi)) @ '': min > max''), g))"

text \<open>A template is a list of segments, each a literal and a placeholder as written between its braces,
  and a last literal.  A literal does not open an expression, though it may have dollar signs and
  braces; a placeholder may have white space around it.\<close>

type_synonym segment = "string \<times> string \<times> placeholder"

definition segment_ok :: "segment \<Rightarrow> bool" where
  "segment_ok = (\<lambda>(literal, written, p).
     find_str ''${'' literal = None \<and> CHR ''}'' \<notin> set written \<and> trim written = expr_text p)"

definition segment_text :: "segment \<Rightarrow> string" where
  "segment_text = (\<lambda>(literal, written, p). literal @ ''${'' @ written @ ''}'')"

text \<open>The segments from left to right: the first placeholder without a value ends it.\<close>

fun template_value ::
  "'g generator \<Rightarrow> ScenarioContext \<Rightarrow> segment list \<Rightarrow> string \<Rightarrow> 'g \<Rightarrow> (pulse_error, string) result \<times> 'g" where
  "template_value G ctx [] final g = (Inr final, g)"
| "template_value G ctx ((literal, written, p) # segments) final g = (case placeholder_value G ctx p g of
     (Inl e, g1) \<Rightarrow> (Inl e, g1)
   | (Inr v, g1) \<Rightarrow> (case template_value G ctx segments final g1 of
       (r, g2) \<Rightarrow> (map_res (\<lambda>s. literal @ v @ s) r, g2)))"

lemma find_str_literal: "find_str ''${'' l = None \<Longrightarrow> find_str ''${'' (l @ ''${'' @ r) = Some (length l)"
proof (induction l)
  case (Cons c l)
  have "prefix ''{'' l" if "prefix ''{'' (l @ ''${'' @ r)"
    using that by (cases l) auto
  with Cons show ?case by (auto split: if_splits)
qed simp

lemma find_str_brace: "CHR ''}'' \<notin> set s \<Longrightarrow> find_str ''}'' (s @ ''}'' @ r) = Some (length s)"
  by (induction s) auto

lemma int_str_no_colon: "CHR '':'' \<notin> set (int_str i)"
  using nat_str_digits [of "CHR '':''"] by (auto simp: int_str_def is_digit_def digit_val_def)

text \<open>\<open>i64::from_str\<close> reads what \<open>Display\<close> writes.\<close>

lemma parse_signed_int_str: "parse_signed (int_str (sint w)) = Some (w :: 'a::len word)"
proof (cases "sint w < 0")
  case True
  have "- sint w \<le> 2 ^ (LENGTH('a) - 1)" using sint_greater_eq [of w] by simp
  then have "nat (- sint w) \<le> 2 ^ (LENGTH('a) - 1)" by (simp add: nat_le_iff)
  moreover have "- of_nat (nat (- sint w)) = w" using True by (simp add: of_nat_nat)
  ultimately show ?thesis using True by (simp add: parse_signed_def int_str_def)
next
  case False
  have "nat (sint w) < 2 ^ (LENGTH('a) - 1)" using False sint_less [of w] by (simp add: nat_less_iff)
  moreover have "of_nat (nat (sint w)) = w" using False by (simp add: of_nat_nat)
  moreover have "hd (nat_str n) \<noteq> CHR ''-''" "hd (nat_str n) \<noteq> CHR ''+''" for n
    using nat_str_digits [of "hd (nat_str n)" n] by (auto simp: is_digit_def digit_val_def)
  ultimately show ?thesis using False by (simp add: parse_signed_def int_str_def)
qed

lemma evaluate_placeholder:
  "evaluate_template_expr G (expr_text p) ctx g = placeholder_value G ctx p g"
proof (cases p)
  case (Gen_Int lo hi)
  let ?args = "int_str (sint lo) @ CHR '':'' # int_str (sint hi)"
  have "split_on CHR '':'' ?args = [int_str (sint lo), int_str (sint hi)]"
    by (simp add: split_on_append split_on_word int_str_no_colon)
  moreover have "strip_prefix_str ''gen.int:'' (expr_text p) = Some ?args" "strip_prefix_str ''ctx.'' (expr_text p) = None"
    "expr_text p \<noteq> ''gen.uuid''" "expr_text p \<noteq> ''gen.phone''"
    using Gen_Int by (simp_all add: strip_prefix_str_def)
  ultimately show ?thesis
    unfolding evaluate_template_expr_def using Gen_Int
    by (simp add: parse_signed_int_str Let_def not_less split: prod.split)
qed (auto simp: evaluate_template_expr_def strip_prefix_str_def ok_or_def split: option.split prod.split)

lemma render_segment:
  assumes "segment_ok (literal, written, p)"
  shows "render_rest G input ctx (segment_text (literal, written, p) @ rest) out g =
    (case placeholder_value G ctx p g of
       (Inl e, g1) \<Rightarrow> (Inl e, g1)
     | (Inr v, g1) \<Rightarrow> render_rest G input ctx rest (out @ literal @ v) g1)"
proof -
  let ?t = "segment_text (literal, written, p) @ rest"
  have start: "find_str ''${'' ?t = Some (length literal)"
    using assms find_str_literal [of literal "written @ ''}'' @ rest"] by (simp add: segment_ok_def segment_text_def)
  have body: "drop (length literal + 2) ?t = written @ ''}'' @ rest" by (simp add: segment_text_def)
  have fin: "find_str ''}'' (written @ ''}'' @ rest) = Some (length written)"
    by (rule find_str_brace) (use assms in \<open>simp add: segment_ok_def\<close>)
  have pre: "take (length literal) ?t = literal" by (simp add: segment_text_def)
  have expr: "trim written = expr_text p" using assms by (simp add: segment_ok_def)
  have behind: "drop (length written + 1) (written @ ''}'' @ rest) = rest" by simp
  show ?thesis
    unfolding render_rest.simps [of G input ctx ?t] start option.case Let_def body fin pre behind
    by (simp add: expr evaluate_placeholder)
qed

lemma map_res_append: "map_res ((@) out) (map_res (\<lambda>s. l @ v @ s) x) = map_res ((@) (out @ l @ v)) x"
  by (cases x) simp_all

lemma render_segments:
  assumes "list_all segment_ok segments" "find_str ''${'' final = None"
  shows "render_rest G input ctx (concat (map segment_text segments) @ final) out g =
    (case template_value G ctx segments final g of (r, g1) \<Rightarrow> (map_res ((@) out) r, g1))"
  using assms(1)
proof (induction segments arbitrary: out g)
  case Nil
  then show ?case using assms(2) by (subst render_rest.simps) simp
next
  case (Cons segment segments)
  obtain literal written p where "segment = (literal, written, p)" by (cases segment)
  with Cons show ?case
    using render_segment [of literal written p G input ctx "concat (map segment_text segments) @ final" out g]
    by (auto simp: map_res_append split: prod.splits sum.splits)
qed

text \<open>C32: A template is rendered by substitution and nothing else.  Its literals stay as they are, and
  each expression between braces, with white space around it or not, is replaced by its value: a
  context variable by its current value, \<open>gen.uuid\<close> and \<open>gen.phone\<close> by the next identifier and the next
  phone number of the generator, \<open>gen.int:lo:hi\<close> by the decimal form of its next number of that
  range.  The generator is used from left to right, once for each generated value.  A value is inserted
  as it is, so a value that contains an expression of its own is never evaluated.  The first variable
  that is missing, or range with bounds in the wrong order, ends the rendering with its error.\<close>

theorem render_substitutes:
  assumes "list_all segment_ok segments" "find_str ''${'' final = None"
  shows "render_string_template G (concat (map segment_text segments) @ final) ctx g
    = template_value G ctx segments final g"
  using render_segments [OF assms, of G _ ctx "[]" g]
  by (cases "template_value G ctx segments final g"; cases "fst (template_value G ctx segments final g)")
     (simp_all add: render_string_template_def)

section \<open>Generated values\<close>

lemma length_nat_str_eq: "10 ^ k \<le> n \<Longrightarrow> n < 10 ^ Suc k \<Longrightarrow> length (nat_str n) = Suc k"
proof (induction k arbitrary: n)
  case (Suc k)
  have "10 \<le> (10 :: nat) ^ Suc k" by simp
  with Suc.prems(1) have "\<not> n < 10" by linarith
  moreover have "10 ^ k \<le> n div 10" "n div 10 < 10 ^ Suc k" using Suc.prems by (simp_all add: div_le_mono less_mult_imp_div_less less_eq_div_iff_mult_less_eq)
  ultimately show ?case using Suc.IH [of "n div 10"] by (subst nat_str.simps) simp
qed (simp add: nat_str.simps)

lemma int_str_digits: "0 \<le> i \<Longrightarrow> list_all is_digit (int_str i)"
  using nat_str_digits by (auto simp: int_str_def list_all_iff)

context random_ranges
begin

lemma range_length:
  assumes "10 ^ k \<le> lo" "lo \<le> hi" "hi < 10 ^ Suc k"
  shows "length (int_str (fst (next_range G lo hi g))) = Suc k" "0 \<le> fst (next_range G lo hi g)"
proof -
  let ?n = "fst (next_range G lo hi g)"
  from range_bounds [OF assms(2), of g] assms have b: "10 ^ k \<le> ?n" "?n < 10 ^ Suc k" by linarith+
  moreover have "(0 :: int) < 10 ^ k" by simp
  ultimately show "0 \<le> ?n" by linarith
  then have "10 ^ k \<le> nat ?n" "nat ?n < 10 ^ Suc k"
    using b by (metis int_nat_eq of_nat_le_iff of_nat_numeral of_nat_power, metis nat_less_iff of_nat_numeral of_nat_power)
  with \<open>0 \<le> ?n\<close> show "length (int_str ?n) = Suc k" by (simp add: int_str_def length_nat_str_eq)
qed

lemma phone_shape:
  "\<exists>d. fst (generate_phone G g) = ''+1'' @ d \<and> length d = 10 \<and> list_all is_digit d"
proof -
  note r = range_length [of 2] range_length [of 3]
  show ?thesis
    by (simp add: generate_phone_def split: prod.split) (use r int_str_digits in \<open>fastforce dest: arg_cong [of _ _ fst]\<close>)
qed

end

text \<open>A generator that counts.\<close>

definition counter :: "nat generator" where
  "counter = \<lparr>next_uuid = (\<lambda>g. (nat_str g, Suc g)), next_range = (\<lambda>lo hi g. (lo + int g mod (hi - lo + 1), Suc g))\<rparr>"

lemma counter_simps:
  "next_uuid counter g = (nat_str g, Suc g)"
  "next_range counter lo hi g = (lo + int g mod (hi - lo + 1), Suc g)"
  by (simp_all add: counter_def)

interpretation counting: random_ranges counter
proof
  fix lo hi :: int and g
  assume "lo \<le> hi"
  then have "0 \<le> int g mod (hi - lo + 1)" "int g mod (hi - lo + 1) < hi - lo + 1"
    using pos_mod_bound [of "hi - lo + 1" "int g"] pos_mod_sign [of "hi - lo + 1" "int g"] by simp_all
  then show "lo \<le> fst (next_range counter lo hi g) \<and> fst (next_range counter lo hi g) \<le> hi"
    by (simp add: counter_def)
qed

text \<open>A context variable whose value looks like an expression, an identifier and a number.\<close>

theorem render_substitutes_witness:
  "render_string_template counter ''$1 ${ctx.user}/${ gen.uuid }/${gen.int:-3:9}!'' (fmupd ''user'' ''${gen.uuid}'' fmempty) 4
   = (Inr ''$1 ${gen.uuid}/4/2!'', 6)"
proof -
  have "trim ''ctx.user'' = ''ctx.user''" "trim '' gen.uuid '' = ''gen.uuid''" "trim ''gen.int:-3:9'' = ''gen.int:-3:9''"
    by code_simp+
  then show ?thesis
    using render_substitutes [of "[(''$1 '', ''ctx.user'', Context_Var ''user''), (''/'', '' gen.uuid '', Gen_Uuid),
        (''/'', ''gen.int:-3:9'', Gen_Int (- 3) 9)]" "''!''" counter "fmupd ''user'' ''${gen.uuid}'' fmempty" 4]
    by (simp add: segment_ok_def segment_text_def counter_simps int_str_def nat_str.simps)
qed

text \<open>C33: Generated values stay in range: a phone number is \<open>+1\<close> and ten digits, and an accepted integer
  expression has exactly two bounds and gives the decimal form of a number between them, whatever the
  random source draws.\<close>

theorem generated_values_in_range:
  assumes "random_ranges G"
    "evaluate_template_expr G (''gen.int:'' @ args) ctx g = (Inr s, g')"
  shows "(\<exists>d. fst (generate_phone G g) = ''+1'' @ d \<and> length d = 10 \<and> list_all is_digit d) \<and>
    (\<exists>lo hi low high n. split_on CHR '':'' args = [lo, hi] \<and> parse_signed lo = Some (low :: i64) \<and>
       parse_signed hi = Some (high :: i64) \<and> s = int_str n \<and> sint low \<le> n \<and> n \<le> sint high)"
proof
  have parts: "split_on c t \<noteq> []" for c t by (induction t) (auto split: list.split)
  have "\<exists>lo hi low high n g1. split_on CHR '':'' args = [lo, hi] \<and> parse_signed lo = Some (low :: i64) \<and>
      parse_signed hi = Some (high :: i64) \<and> sint low \<le> sint high \<and>
      next_range G (sint low) (sint high) g = (n, g1) \<and> s = int_str n"
    using assms(2) parts [of "CHR '':''" args]
    by (cases "split_on CHR '':'' args")
       (auto simp: evaluate_template_expr_def strip_prefix_str_def client_def Let_def
          split: option.splits list.splits if_splits prod.splits)
  then show "\<exists>lo hi low high n. split_on CHR '':'' args = [lo, hi] \<and> parse_signed lo = Some (low :: i64) \<and>
       parse_signed hi = Some (high :: i64) \<and> s = int_str n \<and> sint low \<le> n \<and> n \<le> sint high"
    using random_ranges.range_bounds [OF assms(1)] by (metis fst_conv)
qed (rule random_ranges.phone_shape [OF assms(1)])

theorem generated_values_in_range_witness:
  "(\<exists>d. fst (generate_phone counter 5) = ''+1'' @ d \<and> length d = 10 \<and> list_all is_digit d) \<and>
    (\<exists>lo hi low high n. split_on CHR '':'' ''1:9'' = [lo, hi] \<and> parse_signed lo = Some (low :: i64) \<and>
       parse_signed hi = Some (high :: i64) \<and> ''6'' = int_str n \<and> sint low \<le> n \<and> n \<le> sint high)"
proof (rule generated_values_in_range [OF counting.random_ranges_axioms, where ctx = fmempty])
  have "parse_nat ''1'' = Some 1" "parse_nat ''9'' = Some 9" by (simp_all add: parse_nat_def digit_val_def)
  then show "evaluate_template_expr counter (''gen.int:'' @ ''1:9'') fmempty 5 = (Inr ''6'', 6)"
    by (simp add: evaluate_template_expr_def strip_prefix_str_def parse_signed_def counter_def int_str_def nat_str.simps)
qed

text \<open>The material of a fingerprint joins the extraction entries with commas and equal signs that may
  also occur inside them, so two different steps can have the same material.\<close>

lemma fingerprint_material_collides:
  "fingerprint_material J (new_step None ''s'' ''m'' Empty_Request (fmupd ''a'' ''x,b=y'' fmempty) None)
   = fingerprint_material J (new_step None ''s'' ''m'' Empty_Request (fmupd ''b'' ''y'' (fmupd ''a'' ''x'' fmempty)) None)"
proof -
  have "sorted_list_of_fset {|''a'', ''b''|} = [''a'', ''b'']"
    by (simp add: sorted_list_of_fset.rep_eq less_char_def)
  moreover have "sorted_list_of_fset {|''b'', ''a''|} = [''a'', ''b'']"
    by (simp add: sorted_list_of_fset.rep_eq less_char_def)
  moreover have "sorted_list_of_fset {|''a''|} = [''a'']" by (simp add: sorted_list_of_fset.rep_eq)
  ultimately show ?thesis by (simp add: fingerprint_material_def new_step_def entries_def)
qed

end
