(* ===== verification/Scenario_Files.thy ===== *)
theory Scenario_Files
  imports Templates Slice_Planning
begin

text \<open>
  Loading of scenarios from a file (\<open>application/scenarios.rs\<close>): the schema of the file, its validation,
  duration literals and the translation into scenarios.

  The YAML parser is the argument \<open>from_yaml\<close>, which gives the entries of a file or a message.
\<close>

section \<open>The file\<close>

definition MAX_CONFIGURED_SCENARIOS :: nat where "MAX_CONFIGURED_SCENARIOS = 128"
definition MAX_CONFIGURED_SCENARIO_NAME_BYTES :: nat where "MAX_CONFIGURED_SCENARIO_NAME_BYTES = 256"
definition MAX_CONFIGURED_STEPS_PER_SCENARIO :: nat where "MAX_CONFIGURED_STEPS_PER_SCENARIO = 128"

datatype RepeatEntry = Once_Entry | Every_Entry string

datatype PartitionKeyStrategyEntry = ScenarioId_Entry | ExecutionKey_Entry

record 'n GrpcEntry =
  ge_endpoint :: "string option"
  ge_service :: string
  ge_method :: string
  ge_request_base64 :: "string option"
  ge_request_fields :: "'n json option"
  ge_extract :: "(string, string) fmap option"
  ge_payload_key :: "string option"

datatype 'n StepEntry =
    Grpc "'n GrpcEntry"
  | Http string string

record 'n ScenarioEntry =
  se_name :: string
  se_endpoint :: "string option"
  se_scenarios_per_sec :: f64
  se_max_concurrency :: usize
  se_duration :: string
  se_repeat :: RepeatEntry
  se_partition :: "PartitionKeyStrategyEntry option"
  se_steps :: "'n StepEntry list"

record 'n ScenarioFile =
  file_version :: u16
  file_scenarios :: "'n ScenarioEntry list"

section \<open>Duration literals\<close>

definition strip_suffix_char :: "char \<Rightarrow> string \<Rightarrow> string option" where
  "strip_suffix_char c s = (if s \<noteq> [] \<and> last s = c then Some (butlast s) else None)"

definition scaled_literal :: "string \<Rightarrow> nat \<Rightarrow> string \<Rightarrow> string \<Rightarrow> (string, duration) result" where
  "scaled_literal unit factor s digits = (case parse_word digits of
     None \<Rightarrow> Inl (''invalid '' @ unit @ '' duration: '' @ s)
   | Some (n :: u64) \<Rightarrow>
       if n = 0 then Inl (''duration must be > 0: '' @ s)
       else case checked_mul n (of_nat factor) of
         None \<Rightarrow> Inl (unit @ '' duration exceeds u64 seconds: '' @ s)
       | Some seconds \<Rightarrow> Inr (from_secs (unat seconds)))"

definition parse_duration_literal :: "string \<Rightarrow> (string, duration) result" where
  "parse_duration_literal s = (case strip_suffix_char CHR ''s'' s of
     Some digits \<Rightarrow> (case parse_word digits of
       None \<Rightarrow> Inl (''invalid seconds duration: '' @ s)
     | Some (n :: u64) \<Rightarrow>
         if n = 0 then Inl (''duration must be > 0: '' @ s) else Inr (from_secs (unat n)))
   | None \<Rightarrow> (case strip_suffix_char CHR ''m'' s of
       Some digits \<Rightarrow> scaled_literal ''minutes'' 60 s digits
     | None \<Rightarrow> (case strip_suffix_char CHR ''h'' s of
         Some digits \<Rightarrow> scaled_literal ''hours'' 3600 s digits
       | None \<Rightarrow> Inl (''unsupported duration format: '' @ s @ '' (use Ns/Nm/Nh)''))))"

section \<open>Validation\<close>

definition complain :: "bool \<Rightarrow> string \<Rightarrow> string list" where
  "complain b e = (if b then [e] else [])"

definition blank_option :: "string option \<Rightarrow> bool" where
  "blank_option o1 = (case o1 of None \<Rightarrow> False | Some s \<Rightarrow> blank s)"

definition extract_errors :: "string \<Rightarrow> (string \<times> string) list \<Rightarrow> string list" where
  "extract_errors at_step es = concat (map (\<lambda>(key, path).
     complain (blank key) (at_step @ ''.extract contains empty context key'') @
     complain (blank path) (at_step @ ''.extract path for '' @ quoted key @ '' must not be empty'')) es)"

definition step_errors :: "'n codec_lib \<Rightarrow> string \<Rightarrow> 'n StepEntry \<Rightarrow> string list" where
  "step_errors J at_step step = (case step of
     Grpc g \<Rightarrow>
       complain (blank_option (ge_endpoint g)) (at_step @ ''.endpoint must not be empty when provided'') @
       complain (blank (ge_service g)) (at_step @ ''.service must not be empty'') @
       complain (blank (ge_method g)) (at_step @ ''.method must not be empty'') @
       (case ge_request_base64 g of
          None \<Rightarrow> []
        | Some raw \<Rightarrow>
            if blank raw then [at_step @ ''.request_base64 must not be empty when provided'']
            else complain (find_str ''${'' raw = None \<and> \<not> is_ok (b64_decode J raw))
              (at_step @ ''.request_base64 must be valid base64 payload'')) @
       complain (ge_request_base64 g \<noteq> None \<and> ge_request_fields g \<noteq> None)
         (at_step @ '' must define only one of request_base64 or request_fields'') @
       (case ge_request_fields g of
          None \<Rightarrow> []
        | Some (JObject _) \<Rightarrow> []
        | Some _ \<Rightarrow> [at_step @ ''.request_fields must be a JSON object'']) @
       (case ge_extract g of None \<Rightarrow> [] | Some m \<Rightarrow> extract_errors at_step (entries m)) @
       complain (blank_option (ge_payload_key g))
         (at_step @ ''.response_payload_context_key must not be empty when provided'')
   | Http method url \<Rightarrow>
       complain (blank method) (at_step @ ''.method must not be empty'') @
       complain (blank url) (at_step @ ''.url must not be empty''))"

definition at_index :: "string \<Rightarrow> nat \<Rightarrow> string" where
  "at_index label i = label @ ''['' @ nat_str i @ '']''"

text \<open>The errors of one scenario, with the set of the names before and after it.\<close>

definition name_errors :: "string \<Rightarrow> string \<Rightarrow> string set \<Rightarrow> string list \<times> string set" where
  "name_errors at_entry name names =
     (if blank name then ([at_entry @ ''.name must not be empty''], names)
      else if length name > MAX_CONFIGURED_SCENARIO_NAME_BYTES
      then ([at_entry @ ''.name exceeds '' @ nat_str MAX_CONFIGURED_SCENARIO_NAME_BYTES @ '' bytes''], names)
      else if trim name \<in> names then ([at_entry @ ''.name '' @ quoted name @ '' is duplicated''], names)
      else ([], insert (trim name) names))"

definition entry_errors :: "'n codec_lib \<Rightarrow> string \<Rightarrow> 'n ScenarioEntry \<Rightarrow> string list" where
  "entry_errors J at_entry s =
     complain (blank_option (se_endpoint s)) (at_entry @ ''.endpoint must not be empty when provided'') @
     complain (\<not> f64_is_finite (se_scenarios_per_sec s) \<or> f64_le (se_scenarios_per_sec s) (Finite 0))
       (at_entry @ ''.scenarios_per_sec must be > 0'') @
     complain (se_max_concurrency s = 0) (at_entry @ ''.max_concurrency must be > 0'') @
     complain (\<not> is_ok (parse_duration_literal (se_duration s)))
       (at_entry @ ''.duration '' @ quoted (se_duration s) @ '' must use Ns/Nm/Nh format'') @
     (case se_repeat s of
        Once_Entry \<Rightarrow> []
      | Every_Entry interval \<Rightarrow> complain (\<not> is_ok (parse_duration_literal interval))
          (at_entry @ ''.repeat.interval '' @ quoted interval @ '' must use Ns/Nm/Nh format'')) @
     (if se_steps s = [] then [at_entry @ ''.steps must contain at least one step'']
      else complain (length (se_steps s) > MAX_CONFIGURED_STEPS_PER_SCENARIO)
        (at_entry @ ''.steps contains '' @ nat_str (length (se_steps s)) @ '' items; maximum is ''
           @ nat_str MAX_CONFIGURED_STEPS_PER_SCENARIO)) @
     concat (map (\<lambda>(j, step). step_errors J (at_index (at_entry @ ''.steps'') j) step) (enumerate 0 (se_steps s)))"

fun scenario_errors :: "'n codec_lib \<Rightarrow> nat \<Rightarrow> string set \<Rightarrow> 'n ScenarioEntry list \<Rightarrow> string list" where
  "scenario_errors J i names [] = []"
| "scenario_errors J i names (s # rest) =
     (let at_entry = at_index ''scenarios'' i; (es, names') = name_errors at_entry (se_name s) names
      in es @ entry_errors J at_entry s @ scenario_errors J (Suc i) names' rest)"

definition validate_schema :: "'n codec_lib \<Rightarrow> 'n ScenarioFile \<Rightarrow> string list" where
  "validate_schema J f =
     complain (file_version f \<noteq> 1)
       (''unsupported scenarios file version '' @ quoted (word_str (file_version f)) @ '' (expected 1)'') @
     (if file_scenarios f = [] then [''scenarios must contain at least one item'']
      else complain (length (file_scenarios f) > MAX_CONFIGURED_SCENARIOS)
          (''scenarios contains '' @ nat_str (length (file_scenarios f)) @ '' items; maximum is ''
             @ nat_str MAX_CONFIGURED_SCENARIOS) @
        scenario_errors J 0 {} (file_scenarios f))"

section \<open>Translation\<close>

definition step_entry_into_domain :: "'n StepEntry \<Rightarrow> (string, 'n DynamicGrpcStep) result" where
  "step_entry_into_domain step = (case step of
     Grpc g \<Rightarrow> Inr (new_step (ge_endpoint g) (ge_service g) (ge_method g)
       (case ge_request_base64 g of
          Some raw \<Rightarrow> StaticBase64Template raw
        | None \<Rightarrow> (case ge_request_fields g of Some v \<Rightarrow> FieldTemplate v | None \<Rightarrow> Empty_Request))
       (case ge_extract g of None \<Rightarrow> fmempty | Some m \<Rightarrow> m) (ge_payload_key g))
   | Http _ _ \<Rightarrow> Inl ''http step declared in yaml, but HTTP adapter is not implemented yet (step 5)'')"

primrec collect_res :: "('a \<Rightarrow> ('e, 'b) result) \<Rightarrow> 'a list \<Rightarrow> ('e, 'b list) result" where
  "collect_res f [] = Inr []"
| "collect_res f (x # xs) = try_res (f x) (\<lambda>y. map_res ((#) y) (collect_res f xs))"

definition repeat_into_domain :: "RepeatEntry \<Rightarrow> (string, RepeatPolicy) result" where
  "repeat_into_domain r = (case r of
     Once_Entry \<Rightarrow> Inr Once
   | Every_Entry interval \<Rightarrow> map_res Every (parse_duration_literal interval))"

definition scenario_entry_into_domain ::
  "'n ScenarioEntry \<Rightarrow> string \<Rightarrow> (string, 'n DynamicGrpcStep Scenario) result" where
  "scenario_entry_into_domain entry endpoint =
     try_res (collect_res step_entry_into_domain (se_steps entry)) (\<lambda>steps.
     try_res (repeat_into_domain (se_repeat entry)) (\<lambda>repeat.
     try_res (parse_duration_literal (se_duration entry)) (\<lambda>duration.
       Inr \<lparr>sc_name = se_name entry, sc_steps = steps,
         sc_config = \<lparr>sc_endpoint = (case se_endpoint entry of Some e \<Rightarrow> e | None \<Rightarrow> endpoint),
           sc_scenarios_per_sec = se_scenarios_per_sec entry, sc_max_concurrency = se_max_concurrency entry,
           sc_duration = duration, sc_repeat = repeat,
           sc_partition = (case se_partition entry of
             Some ScenarioId_Entry \<Rightarrow> ByScenarioId | _ \<Rightarrow> ByExecutionKey)\<rparr>\<rparr>)))"

definition parse_scenarios_yaml ::
  "'n codec_lib \<Rightarrow> (string \<Rightarrow> (string, 'n ScenarioFile) result) \<Rightarrow> string \<Rightarrow> string
     \<Rightarrow> (string, 'n DynamicGrpcStep Scenario list) result" where
  "parse_scenarios_yaml J from_yaml raw endpoint = (case from_yaml raw of
     Inl e \<Rightarrow> Inl (''invalid yaml: '' @ e)
   | Inr f \<Rightarrow>
       let errors = validate_schema J f
       in if errors \<noteq> []
          then Inl (''scenario schema validation failed:'' @ concat (map (\<lambda>e. [CHR 0x0A] @ '' - '' @ e) errors))
          else collect_res (\<lambda>entry. scenario_entry_into_domain entry endpoint) (file_scenarios f))"

definition load_scenarios_from_yaml ::
  "'n codec_lib \<Rightarrow> (string \<Rightarrow> (string, 'n ScenarioFile) result) \<Rightarrow> (string \<Rightarrow> (string, string) result) \<Rightarrow> string \<Rightarrow> string
     \<Rightarrow> (string, 'n DynamicGrpcStep Scenario list) result" where
  "load_scenarios_from_yaml J from_yaml read_file path endpoint = (case read_file path of
     Inl e \<Rightarrow> Inl (''failed to read scenarios file '' @ quoted path @ '': '' @ e)
   | Inr raw \<Rightarrow> (case parse_scenarios_yaml J from_yaml raw endpoint of
       Inl e \<Rightarrow> Inl (''failed to load scenarios from '' @ quoted path @ '': '' @ e)
     | Inr scenarios \<Rightarrow> Inr scenarios))"

definition load_scenarios ::
  "'n codec_lib \<Rightarrow> (string \<Rightarrow> (string, 'n ScenarioFile) result) \<Rightarrow> (string \<Rightarrow> (string, string) result)
     \<Rightarrow> (string \<Rightarrow> bool) \<Rightarrow> string option \<Rightarrow> string \<Rightarrow> (string, 'n DynamicGrpcStep Scenario list) result" where
  "load_scenarios J from_yaml read_file file_exists scenarios_file endpoint = (case scenarios_file of
     Some path \<Rightarrow> load_scenarios_from_yaml J from_yaml read_file path endpoint
   | None \<Rightarrow>
       if file_exists ''scenarios.yaml''
       then load_scenarios_from_yaml J from_yaml read_file ''scenarios.yaml'' endpoint
       else Inl ''no scenario source found; set PULSE_SCENARIOS_FILE or add ./scenarios.yaml'')"

section \<open>Properties\<close>

lemma complain_Nil [simp]: "complain b e = [] \<longleftrightarrow> \<not> b" "complain False e = []"
  by (simp_all add: complain_def)

lemma checked_mul_pos: "checked_mul n m = Some (k :: u64) \<Longrightarrow> n \<noteq> 0 \<Longrightarrow> m \<noteq> 0 \<Longrightarrow> k \<noteq> 0"
  using checked_mul_SomeD [of n m k] by (auto simp: unat_eq_zero)

lemma parse_duration_literal_bounds:
  "parse_duration_literal s = Inr d \<Longrightarrow> \<exists>w :: u64. w \<noteq> 0 \<and> d = from_secs (unat w)"
  by (auto simp: parse_duration_literal_def scaled_literal_def dest: checked_mul_pos
      split: option.splits if_splits)

definition scenario_ok :: "'step Scenario \<Rightarrow> bool" where
  "scenario_ok s \<longleftrightarrow>
     \<not> blank (sc_name s) \<and> length (sc_name s) \<le> 256 \<and>
     (\<exists>r. sc_scenarios_per_sec (sc_config s) = Finite r \<and> 0 < r) \<and> 0 < sc_max_concurrency (sc_config s) \<and>
     0 < sc_duration (sc_config s) \<and> (\<forall>d. sc_repeat (sc_config s) = Every d \<longrightarrow> 0 < d) \<and>
     0 < length (sc_steps s) \<and> length (sc_steps s) \<le> 128"

lemma collect_res_length: "collect_res f xs = Inr ys \<Longrightarrow> list_all2 (\<lambda>x y. f x = Inr y) xs ys"
  by (induction xs arbitrary: ys) (auto simp: try_res_Inr_iff map_res_Inr_iff)

lemma name_errors_ok:
  "name_errors at_entry name names = ([], names') \<longleftrightarrow>
   \<not> blank name \<and> length name \<le> 256 \<and> trim name \<notin> names \<and> names' = insert (trim name) names"
  by (auto simp: name_errors_def MAX_CONFIGURED_SCENARIO_NAME_BYTES_def)

lemma entry_ok:
  assumes "entry_errors J at_entry entry = []" "scenario_entry_into_domain entry endpoint = Inr s"
    "\<not> blank (se_name entry)" "length (se_name entry) \<le> 256"
  shows "scenario_ok s \<and> sc_name s = se_name entry"
proof -
  from assms(2) obtain steps r d where parts: "collect_res step_entry_into_domain (se_steps entry) = Inr steps"
    "repeat_into_domain (se_repeat entry) = Inr r" "parse_duration_literal (se_duration entry) = Inr d"
    and s: "sc_name s = se_name entry" "sc_steps s = steps" "sc_max_concurrency (sc_config s) = se_max_concurrency entry"
      "sc_scenarios_per_sec (sc_config s) = se_scenarios_per_sec entry" "sc_duration (sc_config s) = d"
      "sc_repeat (sc_config s) = r"
    by (auto simp: scenario_entry_into_domain_def try_res_Inr_iff)
  have "0 < d" using parse_duration_literal_bounds [OF parts(3)] by (auto simp: from_secs_def unat_gt_0)
  moreover have "\<forall>x. r = Every x \<longrightarrow> 0 < x"
    using parts(2) by (auto simp: repeat_into_domain_def map_res_Inr_iff from_secs_def unat_gt_0
        dest!: parse_duration_literal_bounds split: RepeatEntry.splits)
  moreover have "\<exists>q. se_scenarios_per_sec entry = Finite q \<and> 0 < q"
    using assms(1) by (cases "se_scenarios_per_sec entry") (auto simp: entry_errors_def)
  moreover have "length steps = length (se_steps entry)"
    using list_all2_lengthD [OF collect_res_length [OF parts(1)]] by simp
  moreover have "se_max_concurrency entry \<noteq> 0" "se_steps entry \<noteq> []" "length (se_steps entry) \<le> 128"
    using assms(1) by (auto simp: entry_errors_def MAX_CONFIGURED_STEPS_PER_SCENARIO_def split: if_splits)
  ultimately show ?thesis
    using assms(3,4) s by (auto simp: scenario_ok_def word_neq_0_conv)
qed

lemma scenarios_ok:
  "scenario_errors J i names ents = [] \<Longrightarrow>
   collect_res (\<lambda>entry. scenario_entry_into_domain entry endpoint) ents = Inr ss \<Longrightarrow>
   (\<forall>s \<in> set ss. scenario_ok s \<and> trim (sc_name s) \<notin> names) \<and> distinct (map (\<lambda>s. trim (sc_name s)) ss)"
proof (induction ents arbitrary: i names ss)
  case (Cons entry ents)
  let ?at = "at_index ''scenarios'' i"
  obtain es names' where names: "name_errors ?at (se_name entry) names = (es, names')" by force
  with Cons.prems(1) have errs: "es = []" "entry_errors J ?at entry = []" "scenario_errors J (Suc i) names' ents = []"
    by (simp_all add: Let_def)
  from Cons.prems(2) obtain s rest where run: "scenario_entry_into_domain entry endpoint = Inr s"
    "collect_res (\<lambda>entry. scenario_entry_into_domain entry endpoint) ents = Inr rest" "ss = s # rest"
    by (auto simp: try_res_Inr_iff map_res_Inr_iff)
  from names errs(1) name_errors_ok have name: "\<not> blank (se_name entry)" "length (se_name entry) \<le> 256"
    "trim (se_name entry) \<notin> names" "names' = insert (trim (se_name entry)) names" by blast+
  from entry_ok [OF errs(2) run(1) name(1,2)] Cons.IH [OF errs(3) run(2)] name(3,4) run(3)
  show ?case by auto
qed simp

text \<open>C31: Loaded scenarios are well formed: there are between 1 and 128 of them with distinct names; each
  has a name that is not blank and has at most 256 bytes, a finite positive rate, a positive
  concurrency, a positive duration and repeat interval, and between 1 and 128 steps.\<close>

theorem loaded_scenarios_ok:
  assumes "parse_scenarios_yaml J from_yaml raw endpoint = Inr scenarios"
  shows "scenarios \<noteq> [] \<and> length scenarios \<le> 128 \<and> (\<forall>s \<in> set scenarios. scenario_ok s) \<and>
    distinct (map (\<lambda>s. trim (sc_name s)) scenarios)"
proof -
  from assms obtain f where f: "validate_schema J f = []"
    "collect_res (\<lambda>entry. scenario_entry_into_domain entry endpoint) (file_scenarios f) = Inr scenarios"
    by (auto simp: parse_scenarios_yaml_def Let_def split: sum.splits if_splits)
  then have errs: "file_scenarios f \<noteq> []" "length (file_scenarios f) \<le> 128" "scenario_errors J 0 {} (file_scenarios f) = []"
    by (auto simp: validate_schema_def MAX_CONFIGURED_SCENARIOS_def split: if_splits)
  have "length scenarios = length (file_scenarios f)"
    using list_all2_lengthD [OF collect_res_length [OF f(2)]] by simp
  with scenarios_ok [OF errs(3) f(2)] errs(1,2) show ?thesis by auto
qed

definition demo_step_entry :: "json_number GrpcEntry" where
  "demo_step_entry = \<lparr>ge_endpoint = None, ge_service = ''echo.Echo'', ge_method = ''Send'', ge_request_base64 = None,
     ge_request_fields = Some (JObject []), ge_extract = None, ge_payload_key = None\<rparr>"

definition demo_file :: "json_number ScenarioFile" where
  "demo_file = \<lparr>file_version = 1, file_scenarios = [\<lparr>se_name = ''ping'', se_endpoint = None,
     se_scenarios_per_sec = Finite 5, se_max_concurrency = 2, se_duration = ''30s'', se_repeat = Once_Entry,
     se_partition = None, se_steps = [Grpc demo_step_entry]\<rparr>]\<rparr>"

definition ping_scenario :: "json_number DynamicGrpcStep Scenario" where
  "ping_scenario = \<lparr>sc_name = ''ping'', sc_steps = [new_step None ''echo.Echo'' ''Send'' (FieldTemplate (JObject [])) fmempty None],
     sc_config = \<lparr>sc_endpoint = ''http://target'', sc_scenarios_per_sec = Finite 5, sc_max_concurrency = 2,
       sc_duration = from_secs 30, sc_repeat = Once, sc_partition = ByExecutionKey\<rparr>\<rparr>"

lemma demo_file_loads:
  "parse_scenarios_yaml serde_numbers (\<lambda>_. Inr demo_file) [] ''http://target'' = Inr [ping_scenario]"
proof -
  have "parse_word ''30'' = Some (30 :: u64)"
    by (simp add: parse_word_def parse_uint_def parse_nat_def digit_val_def)
  then have d: "parse_duration_literal ''30s'' = Inr (from_secs 30)"
    by (simp add: parse_duration_literal_def strip_suffix_char_def)
  have errors: "validate_schema serde_numbers demo_file = []"
    by (simp add: validate_schema_def demo_file_def demo_step_entry_def name_errors_def entry_errors_def step_errors_def
        blank_option_def d graphic_def MAX_CONFIGURED_SCENARIOS_def MAX_CONFIGURED_SCENARIO_NAME_BYTES_def
        MAX_CONFIGURED_STEPS_PER_SCENARIO_def Let_def)
  then show ?thesis
    by (simp add: parse_scenarios_yaml_def demo_file_def [THEN arg_cong [of _ _ file_scenarios]]
        scenario_entry_into_domain_def step_entry_into_domain_def repeat_into_domain_def d ping_scenario_def
        demo_step_entry_def)
qed

theorem loaded_scenarios_ok_witness:
  "[ping_scenario] \<noteq> [] \<and> length [ping_scenario] \<le> 128 \<and> scenario_ok ping_scenario \<and>
    distinct (map (\<lambda>s. trim (sc_name s)) [ping_scenario])"
  using loaded_scenarios_ok [OF demo_file_loads] by simp

text \<open>Duration literals are read exactly: a positive number of seconds, minutes or hours that fits
  into 64 bits of seconds is read as that duration, one that does not fit is rejected, and zero is
  rejected.\<close>

theorem duration_literal_exact:
  "parse_duration_literal (word_str (n :: u64) @ [c]) =
     (if c \<notin> {CHR ''s'', CHR ''m'', CHR ''h''}
      then Inl (''unsupported duration format: '' @ word_str n @ [c] @ '' (use Ns/Nm/Nh)'')
      else if n = 0 then Inl (''duration must be > 0: '' @ word_str n @ [c])
      else let seconds = unat n * (if c = CHR ''s'' then 1 else if c = CHR ''m'' then 60 else 3600)
           in if seconds < 2 ^ 64 then Inr (from_secs seconds)
              else Inl ((if c = CHR ''m'' then ''minutes'' else ''hours'') @ '' duration exceeds u64 seconds: ''
                @ word_str n @ [c]))"
proof -
  have small: "unat n < 18446744073709551616" using unat_bound [of n] by simp
  have mul: "checked_mul n (of_nat k) = (if unat n * k < 2 ^ 64 then Some (of_nat (unat n * k)) else None)"
    if "k \<in> {60, 3600}" for k
    using that by (auto simp: checked_mul_def)
  have exact: "unat (of_nat k :: u64) = k" if "k < 2 ^ 64" for k
    using that by (simp add: unsigned_of_nat take_bit_nat_eq_self)
  show ?thesis
    using small mul [of 60] mul [of 3600] exact
    by (auto simp: parse_duration_literal_def strip_suffix_char_def scaled_literal_def Let_def)
qed

end
