(* ===== verification/Rate_Limiter.thy ===== *)
theory Rate_Limiter
  imports Node_Runtime
begin

text \<open>
  The token bucket that paces the starts of a run, \<open>application/rate_limiter.rs\<close>, over the \<open>f64\<close>
  arithmetic of \<open>Rust_Floats\<close>.  The assertions of the constructors are the error branch of an
  option.  \<open>acquire\<close> is a loop around one poll: refill, take a token when there is one, or sleep.
  The poll is a function of the current instant, the sleep is a separate function, and the loop is
  part of the run in \<open>Runner\<close>, which races it against the tasks and the deadline.
\<close>

section \<open>Subtraction and conversions\<close>

fun f64_neg :: "f64 \<Rightarrow> f64" where
  "f64_neg NaN = NaN"
| "f64_neg (Infinite b) = Infinite (\<not> b)"
| "f64_neg (Finite a) = Finite (- a)"

definition f64_sub :: "f64 \<Rightarrow> f64 \<Rightarrow> f64" where
  "f64_sub x y = f64_add x (f64_neg y)"

text \<open>\<open>Duration::from_secs_f64\<close>, which panics on values that are negative, not finite or too large.\<close>

definition from_secs_f64 :: "f64 \<Rightarrow> duration option" where
  "from_secs_f64 x = (case x of
     Finite a \<Rightarrow>
       if a < 0 then None
       else let nanos = nat (round_even (a * 10 ^ 9)) in if nanos < 2 ^ 64 * 10 ^ 9 then Some nanos else None
   | _ \<Rightarrow> None)"

section \<open>The bucket\<close>

record TokenBucket =
  tb_capacity :: f64
  tb_refill_per_sec :: f64
  tb_tokens :: f64
  tb_last_refill :: instant

definition build :: "f64 \<Rightarrow> usize \<Rightarrow> instant \<Rightarrow> TokenBucket option" where
  "build sps burst_capacity now =
     (if f64_is_finite sps \<and> f64_less (Finite 0) sps
      then Some \<lparr>tb_capacity = f64_of_nat (unat burst_capacity), tb_refill_per_sec = sps,
                 tb_tokens = Finite (1 / 2), tb_last_refill = now\<rparr>
      else None)"

definition build_with_initial_tokens :: "f64 \<Rightarrow> usize \<Rightarrow> instant \<Rightarrow> TokenBucket option" where
  "build_with_initial_tokens sps burst_capacity now =
     map_option (\<lambda>b. b\<lparr>tb_tokens := tb_capacity b\<rparr>) (build sps burst_capacity now)"

definition new_token_bucket :: "f64 \<Rightarrow> instant \<Rightarrow> TokenBucket option" where
  "new_token_bucket sps now = build sps 1 now"

definition with_burst :: "f64 \<Rightarrow> usize \<Rightarrow> instant \<Rightarrow> TokenBucket option" where
  "with_burst sps burst_capacity now =
     (if burst_capacity > 0 then build_with_initial_tokens sps burst_capacity now else None)"

definition refill :: "instant \<Rightarrow> TokenBucket \<Rightarrow> TokenBucket" where
  "refill now b =
     b\<lparr>tb_last_refill := now,
       tb_tokens := f64_min (f64_add (tb_tokens b) (f64_mul (as_secs_f64 (now - tb_last_refill b)) (tb_refill_per_sec b)))
         (tb_capacity b)\<rparr>"

definition acquire_poll :: "instant \<Rightarrow> TokenBucket \<Rightarrow> bool \<times> TokenBucket" where
  "acquire_poll now b =
     (let b1 = refill now b
      in if f64_le (Finite 1) (tb_tokens b1) then (True, b1\<lparr>tb_tokens := f64_sub (tb_tokens b1) (Finite 1)\<rparr>)
         else (False, b1))"

text \<open>The sleep of a bucket without a token.\<close>

definition acquire_wait :: "TokenBucket \<Rightarrow> duration option" where
  "acquire_wait b =
     map_option (\<lambda>d. max d 1) (from_secs_f64 (f64_div (f64_sub (Finite 1) (tb_tokens b)) (tb_refill_per_sec b)))"

fun acquire_polls :: "nat \<Rightarrow> instant \<Rightarrow> TokenBucket \<Rightarrow> bool list \<times> TokenBucket" where
  "acquire_polls 0 now b = ([], b)"
| "acquire_polls (Suc n) now b =
     (let (r, b1) = acquire_poll now b; (rs, b2) = acquire_polls n now b1 in (r # rs, b2))"

section \<open>Small integers are exact\<close>

lemma bit_count_le: "n < 2 ^ k \<Longrightarrow> bit_count n \<le> k"
proof (induction k arbitrary: n)
  case (Suc k)
  then have "bit_count (n div 2) \<le> k" by (intro Suc.IH) auto
  then show ?case by (simp add: bit_count.simps [of n])
qed (simp add: bit_count.simps)

lemma f64_of_nat_exact:
  assumes "n < 2 ^ 53" shows "f64_of_nat n = Finite (of_nat n)"
proof (cases "n = 0")
  case False
  define e where "e = f64_ulp_exp (of_nat n)"
  have q: "quotient_of (of_nat n) = (int n, 1)"
    using quotient_of_int [of "int n"] by simp
  have "bit_count 1 = 1" by (simp add: bit_count.simps)
  then have "log2_floor (of_nat n) \<le> 52"
    using bit_count_le [OF assms] by (auto simp: log2_floor_def q Let_def)
  then have "e \<le> 0" by (simp add: e_def f64_ulp_exp_def)
  then have "of_nat n / two_powi e = of_int (int n * 2 ^ nat (- e))"
    by (auto simp: two_powi_def)
  then have "of_int (round_even (of_nat n / two_powi e)) * two_powi e = of_nat n"
    by (metis round_even_int nonzero_divide_eq_eq two_powi_pos less_irrefl)
  moreover have "(of_nat n :: rat) < f64_limit"
  proof -
    have "n < 2 ^ 1024" using assms by (rule less_le_trans) (rule power_increasing; simp)
    then show ?thesis unfolding f64_limit_def by (metis of_nat_less_iff of_nat_numeral of_nat_power)
  qed
  ultimately show ?thesis
    using False by (simp add: f64_of_nat_def f64_round_def Let_def e_def)
qed (simp add: f64_of_nat_def)

section \<open>Tokens stay within the capacity\<close>

definition bucket_inv :: "TokenBucket \<Rightarrow> bool" where
  "bucket_inv b \<longleftrightarrow> f64_less (Finite 0) (tb_refill_per_sec b) \<and> f64_is_finite (tb_refill_per_sec b) \<and>
     f64_le (Finite 0) (tb_tokens b) \<and> f64_le (Finite 0) (tb_capacity b)"

lemma f64_round_le: "0 \<le> q \<Longrightarrow> f64_le (Finite 0) (f64_round q)"
  using f64_round_nonneg [of q] by auto

lemma f64_add_nonneg: "f64_le (Finite 0) x \<Longrightarrow> f64_le (Finite 0) y \<Longrightarrow> f64_le (Finite 0) (f64_add x y)"
  by (cases x; cases y) (auto simp: f64_round_le)

lemma f64_mul_nonneg: "f64_le (Finite 0) x \<Longrightarrow> 0 < a \<Longrightarrow> f64_le (Finite 0) (f64_mul x (Finite a))"
  by (cases x) (auto simp: f64_round_le f64_sign_def)

lemma f64_div_nonneg: "f64_le (Finite 0) x \<Longrightarrow> 0 < a \<Longrightarrow> f64_le (Finite 0) (f64_div x (Finite a))"
  by (cases x) (auto simp: f64_round_le)

lemma f64_pred_nonneg: "f64_le (Finite 1) x \<Longrightarrow> f64_le (Finite 0) (f64_sub x (Finite 1))"
  by (cases x) (auto simp: f64_sub_def f64_round_le)

lemma f64_le_min: "f64_le (Finite 0) x \<Longrightarrow> f64_le (Finite 0) c \<Longrightarrow>
    f64_le (Finite 0) (f64_min x c) \<and> f64_le (f64_min x c) c"
  by (cases x; cases c) (auto simp: f64_min_def)

lemma as_secs_f64_nonneg: "f64_le (Finite 0) (as_secs_f64 d)"
proof -
  have of_nat: "f64_le (Finite 0) (f64_of_nat n)" for n
    using f64_of_nat_nonneg [of n] by auto
  have "f64_of_nat (10 ^ 9) = Finite (10 ^ 9)" using f64_of_nat_exact [of "10 ^ 9"] by simp
  with of_nat show ?thesis unfolding as_secs_f64_def
    by (auto intro!: f64_add_nonneg f64_div_nonneg)
qed

lemma refill_tokens:
  assumes "bucket_inv b" shows "bucket_inv (refill now b)" "f64_le (tb_tokens (refill now b)) (tb_capacity b)"
proof -
  from assms obtain r where r: "tb_refill_per_sec b = Finite r" "0 < r"
    by (auto simp: bucket_inv_def elim!: f64_is_finiteE)
  let ?t = "f64_add (tb_tokens b) (f64_mul (as_secs_f64 (now - tb_last_refill b)) (Finite r))"
  have "f64_le (Finite 0) ?t"
    using assms r(2) by (intro f64_add_nonneg f64_mul_nonneg as_secs_f64_nonneg) (auto simp: bucket_inv_def)
  with assms r f64_le_min [of ?t "tb_capacity b"]
  show "bucket_inv (refill now b)" "f64_le (tb_tokens (refill now b)) (tb_capacity b)"
    by (simp_all add: bucket_inv_def refill_def)
qed

lemma acquire_poll_inv: "bucket_inv b \<Longrightarrow> bucket_inv (snd (acquire_poll now b))"
  using refill_tokens(1) [of b now] by (auto simp: acquire_poll_def Let_def bucket_inv_def f64_pred_nonneg)

lemma new_bucket_inv:
  "new_token_bucket sps now = Some b \<Longrightarrow> bucket_inv b"
  "with_burst sps burst now = Some b \<Longrightarrow> bucket_inv b"
  using f64_of_nat_nonneg [of "unat burst"] f64_of_nat_exact [of 1]
  by (auto simp: new_token_bucket_def with_burst_def build_with_initial_tokens_def build_def bucket_inv_def
      split: if_splits)

lemma f64_round_half: "f64_round (1 / 2) = Finite (1 / 2)"
proof -
  have "quotient_of (1 / 2) = (1, 2)" by code_simp
  then have "f64_ulp_exp (1 / 2) = - 53"
    by (simp add: f64_ulp_exp_def log2_floor_def two_powi_def bit_count.simps)
  moreover have "1 / 2 / two_powi (- 53) = of_int (2 ^ 52)" by (simp add: two_powi_def)
  moreover have "of_int (2 ^ 52) * two_powi (- 53) = 1 / 2" by (simp add: two_powi_def)
  moreover have "1 / 2 < f64_limit"
    unfolding f64_limit_def by (rule less_le_trans [of _ 1]) simp_all
  ultimately show ?thesis
    using round_even_int [of "2 ^ 52"] by (simp add: f64_round_def Let_def del: of_int_power round_even_int)
qed

section \<open>Startup\<close>

text \<open>At the instant of its last refill a bucket gains nothing.\<close>

lemma poll_at_once:
  assumes "f64_is_finite (tb_refill_per_sec b)" "tb_last_refill b = now" "tb_tokens b = f64_of_nat k"
    "tb_capacity b = f64_of_nat n" "k \<le> n" "n < 2 ^ 53"
  shows "acquire_poll now b = (0 < k, b\<lparr>tb_tokens := f64_of_nat (k - 1)\<rparr>)"
proof -
  have exact: "f64_of_nat i = Finite (of_nat i)" "f64_round (of_nat i) = Finite (of_nat i)" if "i \<le> n" for i
    using that assms(6) f64_of_nat_exact [of i] by (auto simp: f64_of_nat_def)
  have "as_secs_f64 0 = Finite 0"
    using f64_of_nat_exact [of 0] f64_of_nat_exact [of "10 ^ 9"] by (simp add: as_secs_f64_def)
  moreover have "f64_round (of_nat k - 1) = Finite (of_nat (k - 1))" if "0 < k"
    using exact(2) [of "k - 1"] that assms(5) by (simp add: of_nat_diff)
  ultimately show ?thesis
    using assms exact [of k] exact [of n] exact [of "k - 1"]
    by (auto simp: acquire_poll_def refill_def f64_min_def f64_sub_def Let_def elim!: f64_is_finiteE)
qed

lemma polls_at_once:
  assumes "f64_is_finite (tb_refill_per_sec b)" "tb_last_refill b = now" "tb_tokens b = f64_of_nat k"
    "tb_capacity b = f64_of_nat n" "k \<le> n" "n < 2 ^ 53"
  shows "fst (acquire_polls m now b) = map (\<lambda>i. i < k) [0..<m]"
  using assms
proof (induction m arbitrary: k b)
  case (Suc m)
  have "fst (acquire_polls m now (b\<lparr>tb_tokens := f64_of_nat (k - 1)\<rparr>)) = map (\<lambda>i. i < k - 1) [0..<m]"
    using Suc.prems by (intro Suc.IH) auto
  then show ?case
    using poll_at_once [OF Suc.prems] by (auto simp: upt_conv_Cons map_Suc_upt [symmetric] split_beta simp del: upt_Suc)
qed simp

section \<open>No burst beyond the capacity\<close>

lemma bit_count_ge: "0 < n \<Longrightarrow> 2 ^ bit_count n \<le> 2 * n"
proof (induction n rule: bit_count.induct)
  case (1 n)
  show ?case
  proof (cases "n = 1")
    case False
    with 1 have "2 ^ bit_count (n div 2) \<le> 2 * (n div 2)" by auto
    then show ?thesis using 1(2) by (simp add: bit_count.simps [of n])
  qed (simp add: bit_count.simps)
qed

lemma bit_count_lt: "n < 2 ^ bit_count n"
proof (induction n rule: bit_count.induct)
  case (1 n)
  show ?case
  proof (cases "n = 0")
    case False
    with 1 have "n div 2 < 2 ^ bit_count (n div 2)" by simp
    then show ?thesis using False by (simp add: bit_count.simps [of n])
  qed (simp add: bit_count.simps)
qed

lemma two_powi_diff: "two_powi (int a - int b) = 2 ^ a / 2 ^ b"
proof (cases "b \<le> a")
  case True
  then show ?thesis by (simp add: two_powi_def nat_diff_distrib power_diff)
next
  case False
  then have "nat (int b - int a) = b - a" by simp
  with False show ?thesis by (simp add: two_powi_def power_diff)
qed

lemma log2_floor_lower: assumes "0 < q" shows "two_powi (log2_floor q) \<le> q"
proof -
  obtain n d where nd: "quotient_of q = (n, d)" by fastforce
  then have q: "q = of_int n / of_int d" and d: "0 < d" by (rule quotient_of_div, rule quotient_of_denom_pos)
  with assms have n: "0 < n" by (simp add: zero_less_divide_iff)
  let ?a = "bit_count (nat n)" and ?b = "bit_count (nat d)"
  have "(2 :: rat) ^ ?a \<le> of_nat (2 * nat n)"
    using bit_count_ge [of "nat n"] n by (metis of_nat_le_iff of_nat_numeral of_nat_power zero_less_nat_eq)
  then have a: "(2 :: rat) ^ ?a \<le> 2 * of_int n" using n by simp
  have "(of_nat (nat d) :: rat) < 2 ^ ?b"
    using bit_count_lt [of "nat d"] by (metis of_nat_less_iff of_nat_numeral of_nat_power)
  then have b: "(of_int d :: rat) \<le> 2 ^ ?b" using d by simp
  have "2 ^ ?a / 2 ^ (?b + 1) \<le> (2 * of_int n) / (2 * of_int d :: rat)"
    using a b d n by (intro frac_le) auto
  then have "two_powi (int ?a - int ?b - 1) \<le> q"
    using two_powi_diff [of ?a "?b + 1"] q by (simp add: algebra_simps)
  then show ?thesis by (simp add: log2_floor_def nd Let_def)
qed

lemma log2_floor_le: assumes "0 < q" "q < 2 ^ k" shows "log2_floor q < int k"
proof (rule ccontr)
  assume "\<not> log2_floor q < int k"
  then have "(2 :: rat) ^ k \<le> two_powi (log2_floor q)"
    by (auto simp: two_powi_def intro!: power_increasing)
  with log2_floor_lower [OF assms(1)] assms(2) show False by linarith
qed

lemma round_even_le:
  assumes "x \<le> of_int i" shows "round_even x \<le> i"
proof (cases "\<lfloor>x\<rfloor> < i")
  case False
  with assms have "x = of_int i" by linarith
  then show ?thesis by simp
qed (auto simp: round_even_def Let_def)

text \<open>Rounding does not pass a small integer.\<close>

lemma f64_round_upto:
  assumes "0 \<le> q" "q \<le> of_nat k" "k < 2 ^ 53"
  shows "\<exists>v. f64_round q = Finite v \<and> 0 \<le> v \<and> v \<le> of_nat k"
proof (cases "q = 0")
  case False
  with assms have q: "0 < q" "q < 2 ^ 53"
    using of_nat_less_iff [of k "2 ^ 53", where ?'a = rat] by auto
  define e where "e = f64_ulp_exp q"
  have e: "e \<le> 0" using log2_floor_le [OF q] by (simp add: e_def f64_ulp_exp_def)
  let ?v = "of_int (round_even (q / two_powi e)) * two_powi e"
  have "of_nat k / two_powi e = of_int (int k * 2 ^ nat (- e))" using e by (auto simp: two_powi_def)
  moreover have "q / two_powi e \<le> of_nat k / two_powi e" using assms(2) by (intro divide_right_mono) (auto intro: less_imp_le)
  ultimately have "round_even (q / two_powi e) \<le> int k * 2 ^ nat (- e)" using round_even_le by metis
  then have "?v \<le> of_int (int k * 2 ^ nat (- e)) * two_powi e"
    by (intro mult_right_mono) (simp_all only: of_int_le_iff two_powi_pos less_imp_le)
  also have "\<dots> = of_nat k" using e by (simp add: two_powi_def)
  finally have v: "?v \<le> of_nat k" .
  have "0 \<le> round_even (q / two_powi e)" using q by (intro round_even_nonneg divide_nonneg_pos) auto
  then have "0 \<le> ?v" by (intro mult_nonneg_nonneg) (auto intro: less_imp_le)
  moreover have "(of_nat k :: rat) < f64_limit"
  proof -
    have "k < 2 ^ 1024" using assms(3) by (rule less_le_trans) (rule power_increasing; simp)
    then show ?thesis unfolding f64_limit_def by (metis of_nat_less_iff of_nat_numeral of_nat_power)
  qed
  ultimately show ?thesis using v q by (simp add: f64_round_def Let_def e_def)
qed simp

lemma f64_pred_upto:
  assumes "1 \<le> v" "v \<le> of_nat k" "k < 2 ^ 53"
  shows "0 < k \<and> (\<exists>w. f64_sub (Finite v) (Finite 1) = Finite w \<and> 0 \<le> w \<and> w \<le> of_nat (k - 1))"
proof
  show k: "0 < k" using assms(1,2) by (cases k) auto
  have "v - 1 \<le> of_nat (k - 1)" using assms(2) k by (simp add: of_nat_diff)
  with f64_round_upto [of "v - 1" "k - 1"] assms
  show "\<exists>w. f64_sub (Finite v) (Finite 1) = Finite w \<and> 0 \<le> w \<and> w \<le> of_nat (k - 1)"
    by (simp add: f64_sub_def)
qed

abbreviation let_through :: "bool list \<Rightarrow> nat" where
  "let_through rs \<equiv> length (filter (\<lambda>r. r) rs)"

text \<open>At one instant a bucket with at most \<open>k\<close> tokens lets at most \<open>k\<close> polls through.\<close>

lemma polls_bounded:
  assumes "f64_is_finite (tb_refill_per_sec b)" "tb_last_refill b = now" "tb_tokens b = Finite t" "0 \<le> t" "t \<le> of_nat k"
    "tb_capacity b = Finite (of_nat n)" "k \<le> n" "n < 2 ^ 53"
  shows "let_through (fst (acquire_polls m now b)) \<le> k"
  using assms
proof (induction m arbitrary: k t b)
  case (Suc m)
  have "as_secs_f64 0 = Finite 0"
    using f64_of_nat_exact [of 0] f64_of_nat_exact [of "10 ^ 9"] by (simp add: as_secs_f64_def)
  moreover obtain v where v: "f64_round t = Finite v" "0 \<le> v" "v \<le> of_nat k"
    using f64_round_upto [of t k] Suc.prems by auto
  moreover have "v \<le> of_nat n" using v(3) Suc.prems(7) by (meson of_nat_le_iff order_trans)
  ultimately have refill: "refill now b = b\<lparr>tb_tokens := Finite v\<rparr>"
    using Suc.prems by (auto simp: refill_def f64_min_def elim!: f64_is_finiteE)
  show ?case
  proof (cases "1 \<le> v")
    case True
    from f64_pred_upto [OF True v(3)] Suc.prems(7,8) obtain w where
      k: "0 < k" and w: "f64_sub (Finite v) (Finite 1) = Finite w" "0 \<le> w" "w \<le> of_nat (k - 1)" by auto
    have "let_through (fst (acquire_polls m now (b\<lparr>tb_tokens := Finite w\<rparr>))) \<le> k - 1"
      using Suc.prems w by (intro Suc.IH [of _ w]) auto
    with True refill w k show ?thesis by (simp add: acquire_poll_def split_beta)
  next
    case False
    have "let_through (fst (acquire_polls m now (b\<lparr>tb_tokens := Finite v\<rparr>))) \<le> k"
      using Suc.prems v by (intro Suc.IH [of _ v]) auto
    with False refill show ?thesis by (simp add: acquire_poll_def split_beta)
  qed
qed simp

lemma refilled_polls_bounded:
  assumes "bucket_inv b" "tb_capacity b = Finite (of_nat n)" "n < 2 ^ 53"
  shows "let_through (fst (acquire_polls m now b)) \<le> n"
proof (cases m)
  case (Suc m')
  let ?b = "refill now b"
  from refill_tokens [OF assms(1), of now] assms(2) obtain t where t: "tb_tokens ?b = Finite t" "0 \<le> t" "t \<le> of_nat n"
    by (cases "tb_tokens ?b") (auto simp: bucket_inv_def)
  have b: "f64_is_finite (tb_refill_per_sec ?b)" "tb_last_refill ?b = now" "tb_capacity ?b = Finite (of_nat n)"
    using assms by (simp_all add: refill_def bucket_inv_def)
  show ?thesis
  proof (cases "1 \<le> t")
    case True
    from f64_pred_upto [OF True t(3) assms(3)] obtain w where
      n: "0 < n" and w: "f64_sub (Finite t) (Finite 1) = Finite w" "0 \<le> w" "w \<le> of_nat (n - 1)" by auto
    have "let_through (fst (acquire_polls m' now (?b\<lparr>tb_tokens := Finite w\<rparr>))) \<le> n - 1"
      using b w assms(3) by (intro polls_bounded [of _ _ w]) auto
    with True t w n Suc show ?thesis by (simp add: acquire_poll_def split_beta Let_def)
  next
    case False
    with polls_bounded [OF b(1,2) t b(3) _ assms(3), of m'] Suc t(1) show ?thesis
      by (simp add: acquire_poll_def split_beta Let_def)
  qed
qed simp

text \<open>A bucket after polls at the instants \<open>ts\<close>.\<close>

abbreviation after_polls :: "instant list \<Rightarrow> TokenBucket \<Rightarrow> TokenBucket" where
  "after_polls ts b \<equiv> foldl (\<lambda>b t. snd (acquire_poll t b)) b ts"

lemma after_polls_inv: "bucket_inv b \<Longrightarrow> bucket_inv (after_polls ts b) \<and> tb_capacity (after_polls ts b) = tb_capacity b"
proof (induction ts arbitrary: b)
  case (Cons t ts)
  have "tb_capacity (snd (acquire_poll t b)) = tb_capacity b" by (simp add: acquire_poll_def refill_def Let_def)
  with Cons.IH [OF acquire_poll_inv [OF Cons.prems, of t]] show ?case by simp
qed simp

text \<open>C38: Startup bursts are exact and never exceeded.  A bucket with a burst of \<open>n\<close> lets exactly the first
  \<open>n\<close> starts through at the instant it is made, however many are tried, and a smoothly paced bucket
  lets none through.  After any polls at any instants the tokens are still capped: at one later
  instant the bucket lets at most \<open>n\<close> starts through, and the smoothly paced bucket at most one,
  however long nothing was started.\<close>

theorem startup_burst_exact:
  assumes "f64_is_finite sps" "f64_less (Finite 0) sps" "0 < unat n" "unat n < 2 ^ 53"
  shows "(\<exists>b. with_burst sps n now = Some b \<and> fst (acquire_polls m now b) = map (\<lambda>i. i < unat n) [0..<m] \<and>
      let_through (fst (acquire_polls m later (after_polls ts b))) \<le> unat n) \<and>
    (\<exists>b. new_token_bucket sps now = Some b \<and> \<not> fst (acquire_poll now b) \<and>
      let_through (fst (acquire_polls m later (after_polls ts b))) \<le> 1)"
proof
  have capped: "let_through (fst (acquire_polls m later (after_polls ts b))) \<le> k"
    if "bucket_inv b" "tb_capacity b = f64_of_nat k" "k < 2 ^ 53" for b k
    using after_polls_inv [OF that(1), of ts] that f64_of_nat_exact [OF that(3)]
    by (intro refilled_polls_bounded) auto
  obtain b where b: "with_burst sps n now = Some b" "f64_is_finite (tb_refill_per_sec b)" "tb_last_refill b = now"
    "tb_tokens b = f64_of_nat (unat n)" "tb_capacity b = f64_of_nat (unat n)"
    using assms by (auto simp: with_burst_def build_with_initial_tokens_def build_def word_less_nat_alt)
  with polls_at_once [OF b(2-5) order_refl assms(4)] capped [OF new_bucket_inv(2) [OF b(1)] b(5) assms(4)]
  show "\<exists>b. with_burst sps n now = Some b \<and> fst (acquire_polls m now b) = map (\<lambda>i. i < unat n) [0..<m] \<and>
      let_through (fst (acquire_polls m later (after_polls ts b))) \<le> unat n"
    by blast
  have zero: "as_secs_f64 0 = Finite 0" "f64_of_nat 1 = Finite 1"
    using f64_of_nat_exact [of 0] f64_of_nat_exact [of 1] f64_of_nat_exact [of "10 ^ 9"]
    by (simp_all add: as_secs_f64_def)
  obtain c where c: "new_token_bucket sps now = Some c" "tb_capacity c = f64_of_nat 1"
    using assms(1,2) by (auto simp: new_token_bucket_def build_def)
  moreover have "\<not> fst (acquire_poll now c)"
    using assms(1,2) c(1) f64_round_half zero
    by (auto simp: new_token_bucket_def build_def acquire_poll_def refill_def f64_min_def elim!: f64_is_finiteE)
  ultimately show "\<exists>b. new_token_bucket sps now = Some b \<and> \<not> fst (acquire_poll now b) \<and>
      let_through (fst (acquire_polls m later (after_polls ts b))) \<le> 1"
    using capped [OF new_bucket_inv(1) [OF c(1)] c(2)] by auto
qed

theorem startup_burst_exact_witness:
  "(\<exists>b. with_burst (Finite 5) 3 7 = Some b \<and> fst (acquire_polls 5 7 b) = [True, True, True, False, False] \<and>
      let_through (fst (acquire_polls 5 (60 * 10 ^ 9) (after_polls [8, 10 ^ 9] b))) \<le> 3) \<and>
    (\<exists>b. new_token_bucket (Finite 5) 7 = Some b \<and> \<not> fst (acquire_poll 7 b) \<and>
      let_through (fst (acquire_polls 5 (60 * 10 ^ 9) (after_polls [8, 10 ^ 9] b))) \<le> 1)"
  using startup_burst_exact [of "Finite 5" 3 7 5 "60 * 10 ^ 9" "[8, 10 ^ 9]"] by (simp add: upt_rec)

end
