(* ===== verification/Runner.thy ===== *)
theory Runner
  imports Rate_Limiter Worker_Discipline
begin

text \<open>
  One run of a scenario against its target, \<open>application/runner.rs\<close>: the launch loop with its
  concurrency gate and pacing, the tasks it spawns, and the report.

  The tasks run concurrently with the launch loop and share the metrics of their worker slot under
  a lock, so a run is a transition system: a transition is one lock-protected update of a task, one
  step of the launch loop, or the passing of time.  What a step of a scenario returns, how long it
  takes and whether a task panics is left open, every answer is a transition.  \<open>run_phase\<close> is the
  position of the launch loop, \<open>run_live\<close> and \<open>run_ended\<close> together are its \<open>JoinSet\<close>: the tasks that
  still run, and the ends of tasks (\<open>False\<close> for a panic) that are not joined yet.  \<open>run_outcomes\<close>
  records each task that ended and how, for the statements about the report.
\<close>

section \<open>Tasks\<close>

text \<open>The position of a task: before the step with this index, or after a failed step.\<close>

datatype progress = Running nat | Failing pulse_error

record task =
  task_slot :: nat
  task_started :: instant
  task_progress :: progress

text \<open>How a task ended, with the duration it measured.\<close>

datatype outcome = Succeeded duration | Failed string duration | Panicked

text \<open>The update under the lock with which a task ends.\<close>

definition record_success :: "'h hdr \<Rightarrow> string \<Rightarrow> duration \<Rightarrow> 'h RunMetrics \<Rightarrow> 'h RunMetrics" where
  "record_success H scenario d m = record_scenario H scenario d True m"

definition record_failure :: "'h hdr \<Rightarrow> string \<Rightarrow> string \<Rightarrow> duration \<Rightarrow> 'h RunMetrics \<Rightarrow> 'h RunMetrics" where
  "record_failure H scenario kind d m = record_scenario H scenario d False (record_error_kind kind m)"

section \<open>The launch loop\<close>

datatype phase = Reaping | Gating | Pacing | Launching | Draining | Returned

record 'h run_state =
  run_phase :: phase
  run_now :: instant
  run_bucket :: TokenBucket
  run_live :: "task list"
  run_ended :: "bool list"
  run_launched :: nat
  run_peak :: nat
  run_failures :: u64
  run_slots :: "'h RunMetrics list"
  run_outcomes :: "(task \<times> outcome) list"

definition concurrency :: "RunnerConfig \<Rightarrow> nat" where
  "concurrency cfg = max (unat (rc_max_concurrency cfg)) 1"

definition pending :: "'h run_state \<Rightarrow> nat" where
  "pending s = length (run_live s) + length (run_ended s)"

text \<open>Instants are unbounded; \<open>Instant + Duration\<close> only panics beyond the range of the platform clock.\<close>

definition launch_deadline :: "RunnerConfig \<Rightarrow> instant \<Rightarrow> instant" where
  "launch_deadline cfg launch_start = launch_start + rc_duration cfg"

definition start_bucket :: "RunnerConfig \<Rightarrow> instant \<Rightarrow> TokenBucket option" where
  "start_bucket cfg now =
     (if rc_startup_burst cfg > 0 then with_burst (rc_scenarios_per_sec cfg) (rc_startup_burst cfg) now
      else new_token_bucket (rc_scenarios_per_sec cfg) now)"

definition run_start :: "RunnerConfig \<Rightarrow> instant \<Rightarrow> 'h run_state option" where
  "run_start cfg now = map_option (\<lambda>bucket.
     \<lparr>run_phase = Reaping, run_now = now, run_bucket = bucket, run_live = [], run_ended = [], run_launched = 0,
      run_peak = 0, run_failures = 0, run_slots = replicate (concurrency cfg) new_metrics, run_outcomes = []\<rparr>)
     (start_bucket cfg now)"

definition record_join_result :: "bool \<Rightarrow> u64" where
  "record_join_result ok = (if ok then 0 else 1)"

text \<open>Joining an ended task, and spawning a task on the next slot.\<close>

definition join_task :: "bool \<Rightarrow> bool list \<Rightarrow> 'h run_state \<Rightarrow> 'h run_state" where
  "join_task ok rest s =
     s\<lparr>run_ended := rest, run_failures := saturating_add (run_failures s) (record_join_result ok)\<rparr>"

definition spawn_task :: "RunnerConfig \<Rightarrow> 'h run_state \<Rightarrow> 'h run_state" where
  "spawn_task cfg s =
     s\<lparr>run_phase := Reaping,
       run_live := run_live s @ [\<lparr>task_slot = run_launched s mod concurrency cfg, task_started = run_now s,
                                 task_progress = Running 0\<rparr>],
       run_launched := run_launched s + 1, run_peak := max (run_peak s) (pending s + 1)\<rparr>"

text \<open>A task that ends leaves the live tasks, updates its slot and is ready to be joined.\<close>

definition end_task ::
  "task \<Rightarrow> task list \<Rightarrow> outcome \<Rightarrow> ('h RunMetrics \<Rightarrow> 'h RunMetrics) \<Rightarrow> 'h run_state \<Rightarrow> 'h run_state" where
  "end_task t others r update s =
     s\<lparr>run_live := others, run_ended := run_ended s @ [r \<noteq> Panicked],
       run_slots := (run_slots s)[task_slot t := update (run_slots s ! task_slot t)],
       run_outcomes := run_outcomes s @ [(t, r)]\<rparr>"

definition step_task ::
  "task \<Rightarrow> task list \<Rightarrow> task list \<Rightarrow> progress \<Rightarrow> ('h RunMetrics \<Rightarrow> 'h RunMetrics) \<Rightarrow> 'h run_state \<Rightarrow> 'h run_state" where
  "step_task t before after p update s =
     s\<lparr>run_live := before @ t\<lparr>task_progress := p\<rparr> # after,
       run_slots := (run_slots s)[task_slot t := update (run_slots s ! task_slot t)]\<rparr>"

inductive run_step ::
  "'h hdr \<Rightarrow> ('step \<Rightarrow> string) \<Rightarrow> 'step Scenario \<Rightarrow> RunnerConfig \<Rightarrow> instant \<Rightarrow> 'h run_state \<Rightarrow> 'h run_state \<Rightarrow> bool"
  for H step_name scenario cfg launch_start where
  time_passes: "run_now s \<le> now \<Longrightarrow> run_step H step_name scenario cfg launch_start s (s\<lparr>run_now := now\<rparr>)"
| step_succeeds: "run_live s = before @ t # after \<Longrightarrow> task_progress t = Running k \<Longrightarrow> k < length (sc_steps scenario)
    \<Longrightarrow> d \<le> run_now s - task_started t \<Longrightarrow> run_step H step_name scenario cfg launch_start s
      (step_task t before after (Running (k + 1)) (record_step H (step_name (sc_steps scenario ! k)) d True) s)"
| step_fails: "run_live s = before @ t # after \<Longrightarrow> task_progress t = Running k \<Longrightarrow> k < length (sc_steps scenario)
    \<Longrightarrow> d \<le> run_now s - task_started t \<Longrightarrow> run_step H step_name scenario cfg launch_start s
      (step_task t before after (Failing e) (record_step H (step_name (sc_steps scenario ! k)) d False) s)"
| task_succeeds: "run_live s = before @ t # after \<Longrightarrow> task_progress t = Running (length (sc_steps scenario))
    \<Longrightarrow> d \<le> run_now s - task_started t \<Longrightarrow> run_step H step_name scenario cfg launch_start s
      (end_task t (before @ after) (Succeeded d) (record_success H (sc_name scenario) d) s)"
| task_fails: "run_live s = before @ t # after \<Longrightarrow> task_progress t = Failing e
    \<Longrightarrow> d \<le> run_now s - task_started t \<Longrightarrow> run_step H step_name scenario cfg launch_start s
      (end_task t (before @ after) (Failed (kind_label e) d) (record_failure H (sc_name scenario) (kind_label e) d) s)"
| task_times_out: "run_live s = before @ t # after \<Longrightarrow> rc_scenario_timeout cfg = Some limit
    \<Longrightarrow> limit \<le> d \<Longrightarrow> d \<le> run_now s - task_started t \<Longrightarrow> run_step H step_name scenario cfg launch_start s
      (end_task t (before @ after) (Failed ''scenario_timeout'' d)
        (record_failure H (sc_name scenario) ''scenario_timeout'' d) s)"
| task_panics: "run_live s = before @ t # after \<Longrightarrow> run_step H step_name scenario cfg launch_start s
      (end_task t (before @ after) Panicked id s)"
| reap_one: "run_phase s = Reaping \<Longrightarrow> run_ended s = before @ ok # after
    \<Longrightarrow> run_step H step_name scenario cfg launch_start s (join_task ok (before @ after) s)"
| reaped: "run_phase s = Reaping \<Longrightarrow> run_ended s = []
    \<Longrightarrow> run_step H step_name scenario cfg launch_start s (s\<lparr>run_phase := Gating\<rparr>)"
| gate_joins: "run_phase s = Gating \<Longrightarrow> concurrency cfg \<le> pending s \<Longrightarrow> run_ended s = before @ ok # after
    \<Longrightarrow> run_step H step_name scenario cfg launch_start s (join_task ok (before @ after) s)"
| gate_deadline: "run_phase s = Gating \<Longrightarrow> launch_deadline cfg launch_start \<le> run_now s
    \<Longrightarrow> run_step H step_name scenario cfg launch_start s (s\<lparr>run_phase := Draining\<rparr>)"
| gate_passes: "run_phase s = Gating \<Longrightarrow> pending s < concurrency cfg \<Longrightarrow> run_now s < launch_deadline cfg launch_start
    \<Longrightarrow> run_step H step_name scenario cfg launch_start s (s\<lparr>run_phase := Pacing\<rparr>)"
| pace_polls: "run_phase s = Pacing \<Longrightarrow> acquire_poll (run_now s) (run_bucket s) = (acquired, bucket)
    \<Longrightarrow> run_step H step_name scenario cfg launch_start s
      (s\<lparr>run_phase := if acquired then Launching else Pacing, run_bucket := bucket\<rparr>)"
| pace_joins: "run_phase s = Pacing \<Longrightarrow> run_ended s = before @ ok # after
    \<Longrightarrow> run_step H step_name scenario cfg launch_start s (join_task ok (before @ after) s)"
| pace_deadline: "run_phase s = Pacing \<Longrightarrow> launch_deadline cfg launch_start \<le> run_now s
    \<Longrightarrow> run_step H step_name scenario cfg launch_start s (s\<lparr>run_phase := Draining\<rparr>)"
| launch_deadline: "run_phase s = Launching \<Longrightarrow> launch_deadline cfg launch_start \<le> run_now s
    \<Longrightarrow> run_step H step_name scenario cfg launch_start s (s\<lparr>run_phase := Draining\<rparr>)"
| launch: "run_phase s = Launching \<Longrightarrow> run_now s < launch_deadline cfg launch_start
    \<Longrightarrow> run_step H step_name scenario cfg launch_start s (spawn_task cfg s)"
| drain_joins: "run_phase s = Draining \<Longrightarrow> run_ended s = before @ ok # after
    \<Longrightarrow> run_step H step_name scenario cfg launch_start s (join_task ok (before @ after) s)"
| drained: "run_phase s = Draining \<Longrightarrow> run_live s = [] \<Longrightarrow> run_ended s = []
    \<Longrightarrow> run_step H step_name scenario cfg launch_start s (s\<lparr>run_phase := Returned\<rparr>)"

definition run_reaches ::
  "'h hdr \<Rightarrow> ('step \<Rightarrow> string) \<Rightarrow> 'step Scenario \<Rightarrow> RunnerConfig \<Rightarrow> instant \<Rightarrow> 'h run_state \<Rightarrow> bool" where
  "run_reaches H step_name scenario cfg launch_start s \<longleftrightarrow>
     (\<exists>s0. run_start cfg launch_start = Some s0 \<and> (run_step H step_name scenario cfg launch_start)\<^sup>*\<^sup>* s0 s)"

section \<open>The report\<close>

definition run_summary :: "'h hdr \<Rightarrow> 'h run_state \<Rightarrow> 'h RunMetrics" where
  "run_summary H s =
     (let merged = fold (merge_worker H) (run_slots s) new_metrics
      in if run_failures s > 0
         then merged\<lparr>error_counts := update_entry ''invariant_violation'' 0 (\<lambda>c. c + run_failures s) (error_counts merged)\<rparr>
         else merged)"

definition run_report :: "'h hdr \<Rightarrow> 'step Scenario \<Rightarrow> RunnerConfig \<Rightarrow> instant \<Rightarrow> 'h run_state \<Rightarrow> 'h RunReport" where
  "run_report H scenario cfg launch_start s =
     (let elapsed_secs = f64_max (as_secs_f64 (run_now s - launch_start)) (f64_round (1 / 1000))
      in \<lparr>summary = run_summary H s, started = of_nat (run_launched s),
          finished = tally m_total (scenario_metrics (run_summary H s)) (sc_name scenario),
          configured_scenarios_per_sec = rc_scenarios_per_sec cfg,
          actual_started_per_sec = f64_div (f64_of_nat (run_launched s)) elapsed_secs,
          peak_pending_tasks = of_nat (run_peak s)\<rparr>)"

section \<open>Bounds of a run\<close>

definition run_tasks :: "'h run_state \<Rightarrow> task list" where
  "run_tasks s = run_live s @ map fst (run_outcomes s)"

definition bounds_inv :: "RunnerConfig \<Rightarrow> instant \<Rightarrow> 'h run_state \<Rightarrow> bool" where
  "bounds_inv cfg launch_start s \<longleftrightarrow>
     pending s \<le> concurrency cfg \<and> (run_phase s \<in> {Pacing, Launching} \<longrightarrow> pending s < concurrency cfg) \<and>
     run_peak s \<le> concurrency cfg \<and> run_launched s = length (run_tasks s) \<and>
     launch_start \<le> run_now s \<and> length (run_slots s) = concurrency cfg \<and> bucket_inv (run_bucket s) \<and>
     (\<forall>t \<in> set (run_tasks s). task_slot t < concurrency cfg \<and> launch_start \<le> task_started t \<and>
        task_started t < launch_deadline cfg launch_start)"

lemma concurrency_pos [simp]: "0 < concurrency cfg"
  by (simp add: concurrency_def)

lemma bounds_start: "run_start cfg now = Some s \<Longrightarrow> bounds_inv cfg now s"
  by (auto simp: run_start_def start_bucket_def bounds_inv_def pending_def run_tasks_def new_bucket_inv
      split: if_splits)

lemma end_task_bounds:
  "bounds_inv cfg launch_start s \<Longrightarrow> run_live s = before @ t # after
   \<Longrightarrow> bounds_inv cfg launch_start (end_task t (before @ after) r update s)"
  by (auto simp: bounds_inv_def pending_def run_tasks_def end_task_def)

lemma step_task_bounds:
  "bounds_inv cfg launch_start s \<Longrightarrow> run_live s = before @ t # after
   \<Longrightarrow> bounds_inv cfg launch_start (step_task t before after p update s)"
  by (auto simp: bounds_inv_def pending_def run_tasks_def step_task_def)

lemma join_task_bounds:
  "bounds_inv cfg launch_start s \<Longrightarrow> run_ended s = before @ ok # after
   \<Longrightarrow> bounds_inv cfg launch_start (join_task ok (before @ after) s)"
  by (auto simp: bounds_inv_def pending_def run_tasks_def join_task_def)

lemma spawn_task_bounds:
  "bounds_inv cfg launch_start s \<Longrightarrow> run_phase s = Launching \<Longrightarrow> run_now s < launch_deadline cfg launch_start
   \<Longrightarrow> bounds_inv cfg launch_start (spawn_task cfg s)"
  by (auto simp: bounds_inv_def pending_def run_tasks_def spawn_task_def)

lemma phase_simps [simp]:
  "run_tasks (s\<lparr>run_phase := p\<rparr>) = run_tasks s" "pending (s\<lparr>run_phase := p\<rparr>) = pending s"
  "run_tasks (s\<lparr>run_now := now\<rparr>) = run_tasks s" "pending (s\<lparr>run_now := now\<rparr>) = pending s"
  "run_tasks (s\<lparr>run_phase := p, run_bucket := b\<rparr>) = run_tasks s" "pending (s\<lparr>run_phase := p, run_bucket := b\<rparr>) = pending s"
  by (simp_all add: run_tasks_def pending_def)

lemma run_step_bounds:
  assumes "run_step H step_name scenario cfg launch_start s s'" "bounds_inv cfg launch_start s"
  shows "bounds_inv cfg launch_start s'"
  using assms
proof cases
  case (pace_polls acquired bucket)
  then show ?thesis
    using assms(2) acquire_poll_inv [of "run_bucket s" "run_now s"] by (auto simp: bounds_inv_def)
qed (auto intro: end_task_bounds step_task_bounds join_task_bounds spawn_task_bounds, auto simp: bounds_inv_def)

section \<open>The metrics account for the outcomes\<close>

fun observation :: "outcome \<Rightarrow> (duration \<times> bool) list" where
  "observation (Succeeded d) = [(d, True)]"
| "observation (Failed kind d) = [(d, False)]"
| "observation Panicked = []"

fun fails_with :: "string \<Rightarrow> outcome \<Rightarrow> bool" where
  "fails_with kind (Failed k d) \<longleftrightarrow> k = kind"
| "fails_with kind _ \<longleftrightarrow> False"

definition observations :: "outcome list \<Rightarrow> (duration \<times> bool) list" where
  "observations rs = concat (map observation rs)"

lemma observations_simps [simp]:
  "observations [] = []" "observations (xs @ ys) = observations xs @ observations ys"
  "observations (r # rs) = observation r @ observations rs"
  by (simp_all add: observations_def)

text \<open>The metrics of a slot whose tasks ended with these outcomes.\<close>

definition accounts :: "('h \<Rightarrow> u64 list) \<Rightarrow> string \<Rightarrow> outcome list \<Rightarrow> 'h RunMetrics \<Rightarrow> bool" where
  "accounts samples name rs m \<longleftrightarrow>
     (case fmlookup (scenario_metrics m) name of
        None \<Rightarrow> observations rs = []
      | Some b \<Rightarrow> observes samples (observations rs) b) \<and>
     (\<forall>kind. errors_of m kind = of_nat (length (filter (fails_with kind) rs))) \<and>
     fset (fmdom (error_counts m)) = {kind. \<exists>r \<in> set rs. fails_with kind r}"

lemma fmdom_update_entry: "fset (fmdom (update_entry k d f m)) = insert k (fset (fmdom m))"
  by (simp add: update_entry_def)

lemma accounts_mset: "mset xs = mset ys \<Longrightarrow> accounts samples name xs m \<longleftrightarrow> accounts samples name ys m"
proof -
  assume eq: "mset xs = mset ys"
  have "mset (observations rs) = (\<Sum>r\<in>#mset rs. mset (observation r))" for rs
    by (induction rs) auto
  with eq have obs: "mset (observations xs) = mset (observations ys)" by simp
  have "length (filter P xs) = length (filter P ys)" for P
    using eq by (metis mset_filter size_mset)
  moreover have "set xs = set ys" using eq by (rule mset_eq_setD)
  moreover have "observations xs = [] \<longleftrightarrow> observations ys = []"
    using obs by (metis mset_zero_iff)
  ultimately show ?thesis
    using obs by (simp only: accounts_def observes_mset [OF obs])
qed

lemma accounts_step: "accounts samples name rs m \<Longrightarrow> accounts samples name rs (record_step H step d ok m)"
  by (simp add: accounts_def record_step_def errors_of_def)

context hdr_histogram
begin

lemma accounts_new: "accounts samples name [] new_metrics"
  by (simp add: accounts_def new_metrics_def errors_of_def observes_new)

lemma observed_bucket:
  "accounts samples name rs m \<Longrightarrow> observes samples (observations rs)
     (case fmlookup (scenario_metrics m) name of None \<Rightarrow> new_bucket H | Some b \<Rightarrow> b)"
  by (cases "fmlookup (scenario_metrics m) name") (simp_all add: accounts_def observes_new)

lemma accounts_success:
  "accounts samples name rs m \<Longrightarrow> accounts samples name (rs @ [Succeeded d]) (record_success H name d m)"
  using observes_record [OF observed_bucket]
  by (simp add: accounts_def record_success_def record_scenario_def fmlookup_update_entry errors_of_def)

lemma accounts_failure:
  "accounts samples name rs m
   \<Longrightarrow> accounts samples name (rs @ [Failed kind d]) (record_failure H name kind d m)"
  using observes_record [OF observed_bucket, of name rs m d False]
  by (auto simp: accounts_def record_failure_def record_scenario_def record_error_kind_def fmlookup_update_entry
      fmdom_update_entry errors_of_def)

lemma accounts_merge:
  assumes "accounts samples name xs w" "accounts samples name ys m"
  shows "accounts samples name (ys @ xs) (merge_worker H w m)"
proof -
  have "case fmlookup (scenario_metrics (merge_worker H w m)) name of
      None \<Rightarrow> observations (ys @ xs) = []
    | Some b \<Rightarrow> observes samples (observations (ys @ xs)) b"
  proof (cases "fmlookup (scenario_metrics w) name")
    case None
    with assms show ?thesis
      by (simp add: accounts_def merge_worker_def fmlookup_merge_buckets cong: option.case_cong)
  next
    case (Some b)
    with assms(1) have "observes samples (observations xs) b" by (simp add: accounts_def)
    from observes_merge [OF this observed_bucket [OF assms(2)]] Some show ?thesis
      by (simp add: merge_worker_def fmlookup_merge_buckets)
  qed
  moreover have "fset (fmdom (error_counts (merge_worker H w m))) = fset (fmdom (error_counts m)) \<union> fset (fmdom (error_counts w))"
    by (auto simp: fmlookup_merge_errors fmlookup_dom_iff split: option.splits)
  ultimately show ?thesis
    using assms by (auto simp: accounts_def merge_worker_errors)
qed

lemma accounts_fold_merge:
  "list_all2 (accounts samples name) oss ms \<Longrightarrow> accounts samples name os m
   \<Longrightarrow> accounts samples name (os @ concat oss) (fold (merge_worker H) ms m)"
proof (induction oss ms arbitrary: os m rule: list_all2_induct)
  case (Cons os1 oss m1 ms)
  from Cons.IH [OF accounts_merge [OF Cons(1) Cons.prems]] show ?case by simp
qed simp

end

definition slot_outcomes :: "'h run_state \<Rightarrow> nat \<Rightarrow> outcome list" where
  "slot_outcomes s i = map snd (filter (\<lambda>x. task_slot (fst x) = i) (run_outcomes s))"

definition panics :: "'h run_state \<Rightarrow> nat" where
  "panics s = length (filter (\<lambda>x. snd x = Panicked) (run_outcomes s))"

lemma panics_le: "panics s \<le> length (run_outcomes s)"
  by (simp add: panics_def)

definition account_inv :: "('h \<Rightarrow> u64 list) \<Rightarrow> RunnerConfig \<Rightarrow> string \<Rightarrow> 'h run_state \<Rightarrow> bool" where
  "account_inv samples cfg name s \<longleftrightarrow>
     (\<forall>i < concurrency cfg. accounts samples name (slot_outcomes s i) (run_slots s ! i)) \<and>
     (length (run_outcomes s) < 2 ^ 64 \<longrightarrow>
        unat (run_failures s) + length (filter Not (run_ended s)) = panics s) \<and>
     (run_phase s = Returned \<longrightarrow> run_live s = [] \<and> run_ended s = [])"

lemma account_frame [simp]:
  "slot_outcomes (s\<lparr>run_phase := p\<rparr>) = slot_outcomes s" "slot_outcomes (s\<lparr>run_now := now\<rparr>) = slot_outcomes s"
  "slot_outcomes (s\<lparr>run_phase := p, run_bucket := b\<rparr>) = slot_outcomes s"
  "panics (s\<lparr>run_phase := p\<rparr>) = panics s" "panics (s\<lparr>run_now := now\<rparr>) = panics s"
  "panics (s\<lparr>run_phase := p, run_bucket := b\<rparr>) = panics s"
  by (simp_all add: slot_outcomes_def panics_def fun_eq_iff)

lemma end_task_account:
  assumes "account_inv samples cfg name s" "bounds_inv cfg launch_start s" "run_live s = before @ t # after"
    "\<And>rs m. accounts samples name rs m \<Longrightarrow> accounts samples name (rs @ [r]) (update m)"
  shows "account_inv samples cfg name (end_task t (before @ after) r update s)"
  using assms
  by (auto simp: account_inv_def bounds_inv_def end_task_def slot_outcomes_def nth_list_update run_tasks_def panics_def)

lemma step_task_account:
  assumes "account_inv samples cfg name s" "bounds_inv cfg launch_start s" "run_live s = before @ t # after"
    "\<And>rs m. accounts samples name rs m \<Longrightarrow> accounts samples name rs (update m)"
  shows "account_inv samples cfg name (step_task t before after p update s)"
  using assms
  by (auto simp: account_inv_def bounds_inv_def step_task_def slot_outcomes_def nth_list_update run_tasks_def panics_def)

lemma join_task_account:
  assumes "account_inv samples cfg name s" "run_ended s = before @ ok # after"
  shows "account_inv samples cfg name (join_task ok (before @ after) s)"
proof -
  have "panics (join_task ok (before @ after) s) = panics s"
    by (simp add: panics_def join_task_def)
  with assms panics_le [of s] show ?thesis
    by (auto simp: account_inv_def join_task_def slot_outcomes_def unat_saturating_add record_join_result_def)
qed

lemma spawn_task_account:
  "account_inv samples cfg name s \<Longrightarrow> account_inv samples cfg name (spawn_task cfg s)"
  by (simp add: account_inv_def spawn_task_def slot_outcomes_def panics_def)

lemma accounts_panic: "accounts samples name rs m \<Longrightarrow> accounts samples name (rs @ [Panicked]) m"
  by (simp add: accounts_def cong: option.case_cong)

context hdr_histogram
begin

lemma account_start: "run_start cfg now = Some s \<Longrightarrow> account_inv samples cfg name s"
  by (auto simp: run_start_def account_inv_def slot_outcomes_def panics_def accounts_new)

lemma run_step_account:
  assumes "run_step H step_name scenario cfg launch_start s s'" "bounds_inv cfg launch_start s"
    "account_inv samples cfg (sc_name scenario) s"
  shows "account_inv samples cfg (sc_name scenario) s'"
  using assms(1)
proof cases
  case (task_panics before t after)
  then show ?thesis
    unfolding task_panics(1) by (intro end_task_account [OF assms(3,2)]) (simp_all add: accounts_panic)
qed (use assms(2,3) in \<open>auto intro!: end_task_account step_task_account join_task_account spawn_task_account
      accounts_success accounts_failure accounts_step\<close>, auto simp: account_inv_def)

lemma run_reaches_inv:
  assumes "run_reaches H step_name scenario cfg launch_start s"
  shows "bounds_inv cfg launch_start s \<and> account_inv samples cfg (sc_name scenario) s"
proof -
  from assms obtain s0 where s0: "run_start cfg launch_start = Some s0"
    "(run_step H step_name scenario cfg launch_start)\<^sup>*\<^sup>* s0 s"
    by (auto simp: run_reaches_def)
  from s0(2) show ?thesis
    by (induction rule: rtranclp_induct)
       (auto intro: bounds_start [OF s0(1)] account_start [OF s0(1)] run_step_bounds run_step_account)
qed

end

lemma mset_by_key: "mset (concat (map (\<lambda>i. filter (\<lambda>x. f x = i) xs) [0..<n])) = mset (filter (\<lambda>x. f x < n) xs)"
proof (induction n)
  case (Suc n)
  have "mset (filter (\<lambda>x. f x < n) ys) + mset (filter (\<lambda>x. f x = n) ys) = mset (filter (\<lambda>x. f x < Suc n) ys)" for ys
    by (induction ys) (auto simp: less_Suc_eq)
  with Suc show ?case by simp
qed simp

lemma slot_outcomes_mset:
  assumes "\<forall>x \<in> set (run_outcomes s). task_slot (fst x) < n"
  shows "mset (concat (map (slot_outcomes s) [0..<n])) = mset (map snd (run_outcomes s))"
proof -
  have "concat (map (slot_outcomes s) [0..<n])
    = map snd (concat (map (\<lambda>i. filter (\<lambda>x. task_slot (fst x) = i) (run_outcomes s)) [0..<n]))"
    by (simp add: slot_outcomes_def [abs_def] map_concat comp_def)
  then have "mset (concat (map (slot_outcomes s) [0..<n]))
    = image_mset snd (mset (filter (\<lambda>x. task_slot (fst x) < n) (run_outcomes s)))"
    by (simp only: mset_map mset_by_key)
  also have "filter (\<lambda>x. task_slot (fst x) < n) (run_outcomes s) = run_outcomes s"
    using assms by (auto simp: filter_id_conv)
  finally show ?thesis by simp
qed

context hdr_histogram
begin

lemma merged_accounts:
  assumes "bounds_inv cfg launch_start s" "account_inv samples cfg name s"
  shows "accounts samples name (map snd (run_outcomes s)) (fold (merge_worker H) (run_slots s) new_metrics)"
proof -
  have "list_all2 (accounts samples name) (map (slot_outcomes s) [0..<concurrency cfg]) (run_slots s)"
    using assms by (simp add: list_all2_conv_all_nth bounds_inv_def account_inv_def)
  from accounts_fold_merge [OF this accounts_new]
  have "accounts samples name (concat (map (slot_outcomes s) [0..<concurrency cfg]))
      (fold (merge_worker H) (run_slots s) new_metrics)" by simp
  moreover have "\<forall>x \<in> set (run_outcomes s). task_slot (fst x) < concurrency cfg"
    using assms(1) by (simp add: bounds_inv_def run_tasks_def)
  ultimately show ?thesis
    using accounts_mset [OF slot_outcomes_mset] by blast
qed

end

section \<open>Properties\<close>

lemma length_observations: "length (filter P (observations rs)) = length (filter (\<lambda>r. list_ex P (observation r)) rs)"
proof (induction rs)
  case (Cons r rs)
  then show ?case by (cases r) auto
qed simp

lemma length_observation: "length (observation r) = (if r \<noteq> Panicked then 1 else 0)"
  by (cases r) simp_all

definition is_failed :: "outcome \<Rightarrow> bool" where
  "is_failed r \<longleftrightarrow> (\<exists>kind d. r = Failed kind d)"

definition is_succeeded :: "outcome \<Rightarrow> bool" where
  "is_succeeded r \<longleftrightarrow> (\<exists>d. r = Succeeded d)"

lemma accounted_counts:
  assumes "accounts samples name rs m"
  shows "tally m_total (scenario_metrics m) name = of_nat (length (filter (\<lambda>r. r \<noteq> Panicked) rs))"
    and "tally m_success (scenario_metrics m) name = of_nat (length (filter is_succeeded rs))"
    and "tally m_failure (scenario_metrics m) name = of_nat (length (filter is_failed rs))"
proof -
  have obs: "list_ex (\<lambda>_. True) (observation r) \<longleftrightarrow> r \<noteq> Panicked" "list_ex snd (observation r) \<longleftrightarrow> is_succeeded r"
    "list_ex (\<lambda>x. \<not> snd x) (observation r) \<longleftrightarrow> is_failed r" for r
    by (cases r; simp add: is_succeeded_def is_failed_def)+
  have "length (observations rs) = length (filter (\<lambda>r. r \<noteq> Panicked) rs)"
    "length (filter snd (observations rs)) = length (filter is_succeeded rs)"
    "length (filter (\<lambda>x. \<not> snd x) (observations rs)) = length (filter is_failed rs)"
    using length_observations [of "\<lambda>_. True" rs] length_observations [of snd rs]
      length_observations [of "\<lambda>x. \<not> snd x" rs] by (simp_all add: obs)
  with assms show "tally m_total (scenario_metrics m) name = of_nat (length (filter (\<lambda>r. r \<noteq> Panicked) rs))"
    "tally m_success (scenario_metrics m) name = of_nat (length (filter is_succeeded rs))"
    "tally m_failure (scenario_metrics m) name = of_nat (length (filter is_failed rs))"
    by (auto simp: tally_def accounts_def observes_def split: option.splits)
qed

lemma run_summary_simps:
  "scenario_metrics (run_summary H s) = scenario_metrics (fold (merge_worker H) (run_slots s) new_metrics)"
  "errors_of (run_summary H s) kind = errors_of (fold (merge_worker H) (run_slots s) new_metrics) kind +
     (if kind = ''invariant_violation'' then run_failures s else 0)"
proof -
  define m where "m = fold (merge_worker H) (run_slots s) new_metrics"
  have "run_summary H s = (if 0 < run_failures s then m\<lparr>error_counts := update_entry ''invariant_violation'' 0
      (\<lambda>c. c + run_failures s) (error_counts m)\<rparr> else m)"
    by (simp add: run_summary_def m_def Let_def)
  then show "scenario_metrics (run_summary H s) = scenario_metrics (fold (merge_worker H) (run_slots s) new_metrics)"
    "errors_of (run_summary H s) kind = errors_of (fold (merge_worker H) (run_slots s) new_metrics) kind +
       (if kind = ''invariant_violation'' then run_failures s else 0)"
    unfolding m_def [symmetric] by (auto simp: errors_of_def fmlookup_update_entry word_gt_0)
qed

text \<open>C34: A run stays within its configuration.  At every moment the launch loop retains at most the
  configured number of tasks, each task started within the half-open load window and reports to an
  existing worker slot, every launched task is running or has ended, and the reported peak is within
  the concurrency.\<close>

theorem run_stays_bounded:
  assumes "hdr_histogram H samples lowest highest" "run_reaches H step_name scenario cfg launch_start s"
  shows "pending s \<le> concurrency cfg \<and> run_peak s \<le> concurrency cfg \<and>
    run_launched s = length (run_live s) + length (run_outcomes s) \<and>
    (\<forall>t \<in> set (run_tasks s). task_slot t < length (run_slots s) \<and> launch_start \<le> task_started t \<and>
       task_started t < launch_start + rc_duration cfg)"
  using hdr_histogram.run_reaches_inv [OF assms]
  by (auto simp: bounds_inv_def run_tasks_def launch_deadline_def)

text \<open>C35: The report of a run accounts for every task.  When the run returns, each launched task has ended;
  the counts of the scenario are those of the tasks that finished, each failure is counted under its
  kind, and the tasks that panicked are counted as invariant violations.\<close>

theorem run_accounts_for_every_task:
  assumes "hdr_histogram H samples lowest highest" "run_reaches H step_name scenario cfg launch_start s"
    "run_phase s = Returned" "length (run_outcomes s) < 2 ^ 64"
  shows "let report = run_report H scenario cfg launch_start s; rs = map snd (run_outcomes s);
      counted = (\<lambda>sel. unat (tally sel (scenario_metrics (summary report)) (sc_name scenario)))
    in unat (started report) = length rs \<and> unat (finished report) = length (filter (\<lambda>r. r \<noteq> Panicked) rs) \<and>
      counted m_success = length (filter is_succeeded rs) \<and> counted m_failure = length (filter is_failed rs) \<and>
      (\<forall>kind. unat (errors_of (summary report) kind) = length (filter (fails_with kind) rs) +
         (if kind = ''invariant_violation'' then length (filter (\<lambda>r. r = Panicked) rs) else 0))"
proof -
  define rs where "rs = map snd (run_outcomes s)"
  let ?m = "fold (merge_worker H) (run_slots s) new_metrics"
  from hdr_histogram.run_reaches_inv [OF assms(1,2)]
  have bounds: "bounds_inv cfg launch_start s" and account: "account_inv samples cfg (sc_name scenario) s" by auto
  have acc: "accounts samples (sc_name scenario) rs ?m"
    unfolding rs_def by (rule hdr_histogram.merged_accounts [OF assms(1) bounds account])
  have room: "length rs < 2 ^ 64" using assms(4) by (simp add: rs_def)
  then have exact: "unat (of_nat (length (filter P rs)) :: u64) = length (filter P rs)" for P
    by (intro unat_of_nat_len) (simp add: le_less_trans [OF length_filter_le])
  have returned: "run_launched s = length rs" "unat (run_failures s) = length (filter (\<lambda>r. r = Panicked) rs)"
    using bounds account assms(3,4)
    by (auto simp: rs_def bounds_inv_def account_inv_def run_tasks_def panics_def filter_map comp_def)
  have errors: "unat (errors_of (run_summary H s) kind) = length (filter (fails_with kind) rs) +
      (if kind = ''invariant_violation'' then length (filter (\<lambda>r. r = Panicked) rs) else 0)" for kind
  proof -
    have "length (filter (fails_with kind) os) + length (filter (\<lambda>r. r = Panicked) os) \<le> length os" for os
      by (induction os) auto
    from le_less_trans [OF this room]
    have "unat (of_nat (length (filter (fails_with kind) rs)) + run_failures s)
        = length (filter (fails_with kind) rs) + length (filter (\<lambda>r. r = Panicked) rs)"
      by (subst unat_plus_exact) (simp_all add: exact returned)
    moreover have "errors_of (run_summary H s) kind = of_nat (length (filter (fails_with kind) rs)) +
        (if kind = ''invariant_violation'' then run_failures s else 0)"
      using acc unfolding run_summary_simps accounts_def by simp
    ultimately show ?thesis by (auto simp: exact)
  qed
  have report: "unat (started (run_report H scenario cfg launch_start s)) = length rs"
    "summary (run_report H scenario cfg launch_start s) = run_summary H s"
    "finished (run_report H scenario cfg launch_start s) = tally m_total (scenario_metrics ?m) (sc_name scenario)"
    using returned(1) room unat_of_nat_len [where 'a = 64, of "length rs"] by (simp_all add: run_report_def Let_def run_summary_simps(1))
  show ?thesis
    unfolding rs_def [symmetric] Let_def report run_summary_simps(1) accounted_counts [OF acc] exact errors
    by simp
qed

section \<open>The result of a run\<close>

lemma sum_by_kind:
  "finite kinds \<Longrightarrow> (\<forall>r \<in> set rs. \<forall>kind. fails_with kind r \<longrightarrow> kind \<in> kinds)
   \<Longrightarrow> (\<Sum>kind\<in>kinds. length (filter (fails_with kind) rs)) = length (filter is_failed rs)"
proof (induction rs)
  case (Cons r rs)
  then have IH: "(\<Sum>kind\<in>kinds. length (filter (fails_with kind) rs)) = length (filter is_failed rs)" by simp
  have "(\<Sum>kind\<in>kinds. length (filter (fails_with kind) (r # rs)))
      = (\<Sum>kind\<in>kinds. if fails_with kind r then 1 else 0) + (\<Sum>kind\<in>kinds. length (filter (fails_with kind) rs))"
    unfolding sum.distrib [symmetric] by (intro sum.cong) auto
  also have "(\<Sum>kind\<in>kinds. if fails_with kind r then 1 else 0) = (if is_failed r then 1 else 0 :: nat)"
    using Cons.prems by (cases r) (auto simp: is_failed_def)
  finally show ?case by (simp add: IH)
qed simp

lemma sum_entries:
  "(\<Sum>x\<leftarrow>entries m. f (snd x)) =(\<Sum>k\<in>fset (fmdom m). f (the (fmlookup m k)))"
  by (simp add: entries_def sorted_list_of_fset.rep_eq sum_list_distinct_conv_sum_set comp_def)

lemma length_entries: "length (entries m) = card (fset (fmdom m))"
  by (simp add: entries_def sorted_list_of_fset.rep_eq)

lemma fst_entries: "set (map fst (entries m)) = fset (fmdom m)"
  by (simp add: entries_def comp_def sorted_list_of_fset.rep_eq)

lemma accounted_errors:
  assumes acc: "accounts samples name rs m" and room: "length rs < 2 ^ 64"
  defines "es \<equiv> map (\<lambda>(kind, n). \<lparr>error_kind = kind, error_count = n\<rparr>) (entries (error_counts m))"
  shows "error_total_of es = length (filter is_failed rs)" "distinct (map error_kind es)"
    "length es = card {kind. \<exists>r \<in> set rs. fails_with kind r}"
    "set (map error_kind es) = {kind. \<exists>r \<in> set rs. fails_with kind r}"
proof -
  have dom: "fset (fmdom (error_counts m)) = {kind. \<exists>r \<in> set rs. fails_with kind r}"
    using acc by (simp add: accounts_def)
  have "unat (the (fmlookup (error_counts m) kind)) = length (filter (fails_with kind) rs)"
    if in_dom: "kind \<in> fset (fmdom (error_counts m))" for kind
  proof -
    have "errors_of m kind = of_nat (length (filter (fails_with kind) rs))" using acc by (simp add: accounts_def)
    moreover obtain n where "fmlookup (error_counts m) kind = Some n" using in_dom by (auto simp: fmlookup_dom_iff)
    ultimately show ?thesis
      using room by (simp add: errors_of_def unat_of_nat_len le_less_trans [OF length_filter_le])
  qed
  then have "(\<Sum>k\<in>fset (fmdom (error_counts m)). unat (the (fmlookup (error_counts m) k)))
      = (\<Sum>k\<in>fset (fmdom (error_counts m)). length (filter (fails_with k) rs))"
    by (intro sum.cong) auto
  also have "\<dots> = length (filter is_failed rs)"
    using dom by (intro sum_by_kind finite_fset) auto
  finally have "(\<Sum>k\<in>fset (fmdom (error_counts m)). unat (the (fmlookup (error_counts m) k))) = length (filter is_failed rs)" .
  then show "error_total_of es = length (filter is_failed rs)"
    unfolding sum_entries [symmetric] by (simp add: es_def error_total_of_def comp_def split_beta)
  have keys: "map error_kind es = map fst (entries (error_counts m))"
    by (simp add: es_def comp_def split_beta)
  show "distinct (map error_kind es)" "length es = card {kind. \<exists>r \<in> set rs. fails_with kind r}"
    "set (map error_kind es) = {kind. \<exists>r \<in> set rs. fails_with kind r}"
    unfolding keys using distinct_entries [of "error_counts m"] fst_entries [of "error_counts m"]
    by (simp_all add: es_def length_entries dom)
qed

lemma accounted_histogram:
  assumes H: "hdr_cells H samples lowest highest" and acc: "accounts samples name rs m" and room: "length rs < 2 ^ 64"
    and calm: "\<forall>(d, ok) \<in> set (observations rs). \<not> straddles lowest highest (unat (tracked_ms d))"
  defines "b \<equiv> (case fmlookup (scenario_metrics m) name of None \<Rightarrow> new_bucket H | Some b \<Rightarrow> b)"
  shows "histogram_wf (mergeable_latency_buckets H b) (length (filter (\<lambda>r. r \<noteq> Panicked) rs))"
proof -
  have obs: "length (observations rs) = length (filter (\<lambda>r. r \<noteq> Panicked) rs)"
    by (induction rs) (simp_all add: length_observation)
  have "bucket_total_of (mergeable_latency_buckets H b) = length (observations rs)"
    unfolding b_def
    using room calm
    by (intro hdr_cells.calm_histogram_total [OF H hdr_histogram.observed_bucket [OF hdr_cells.axioms(1) [OF H] acc]])
      (auto simp: obs le_less_trans [OF length_filter_le])
  then show ?thesis unfolding obs by (rule mergeable_wf)
qed

lemma succeeded_or_failed:
  "length (filter is_succeeded rs) + length (filter is_failed rs) = length (filter (\<lambda>r. r \<noteq> Panicked) rs)"
proof (induction rs)
  case (Cons r rs)
  then show ?case by (cases r) (simp_all add: is_succeeded_def is_failed_def)
qed simp

lemma run_result_identity [simp]:
  "res_schema_version (run_result H job t0 t1 report) = 2" "res_scenario_id (run_result H job t0 t1 report) = job_scenario_id job"
  "res_run_id (run_result H job t0 t1 report) = job_run_id job" "res_attempt (run_result H job t0 t1 report) = job_attempt job"
  "res_execution_key (run_result H job t0 t1 report) = job_execution_key job" "res_slice (run_result H job t0 t1 report) = job_slice job"
  "res_event_id (run_result H job t0 t1 report) = build_terminal_event_id (job_execution_key job) (job_attempt job) ''result''"
  "started_at_unix_ms (run_result H job t0 t1 report) = t0" "finished_at_unix_ms (run_result H job t0 t1 report) = t1"
  by (simp_all add: run_result_def Let_def contract_limits)

text \<open>C36: The result of a clean run passes the validation of its contract, for every histogram whose
  cells are ordered intervals.  The conditions are: the job is valid and its event identity has at
  most 1024 bytes; its run of fewer than \<open>2 ^ 53\<close> tasks returned without a panic; no latency
  straddles a bucket bound; the failures have at most 64 kinds, none blank or longer than 256 bytes;
  and the clock did not run backwards.  Then the validator accepts the result that the worker builds
  from the report: its counts add up, its errors account for its failures and its histogram for its
  total.\<close>

theorem run_result_accepted:
  fixes scenario :: "'step Scenario"
  assumes H: "hdr_cells H samples lowest highest"
    and run: "run_reaches H step_name scenario cfg launch_start s" "run_phase s = Returned"
    and few: "length (run_outcomes s) < 2 ^ 53"
    and calm: "\<forall>(t, r) \<in> set (run_outcomes s). r \<noteq> Panicked \<and>
      (\<forall>(d, ok) \<in> set (observation r). \<not> straddles lowest highest (unat (tracked_ms d)))"
    and kinds: "card {kind. \<exists>r \<in> snd ` set (run_outcomes s). fails_with kind r} \<le> 64"
      "\<forall>kind. \<forall>r \<in> snd ` set (run_outcomes s). fails_with kind r \<longrightarrow> trim kind \<noteq> [] \<and> length kind \<le> 256"
    and job: "validate_job job = Inr ()" "job_scenario_id job = sc_name scenario"
      "length (build_terminal_event_id (job_execution_key job) (job_attempt job) ''result'') \<le> 1024"
    and clock: "started_at \<le> finished_at"
  shows "validate_result (run_result H job started_at finished_at
    (run_report H scenario cfg launch_start s)) = Inr ()"
proof -
  define rs where "rs = map snd (run_outcomes s)"
  define m where "m = fold (merge_worker H) (run_slots s) new_metrics"
  note hist = hdr_cells.axioms(1) [OF H]
  from hdr_histogram.run_reaches_inv [OF hist run(1)]
  have inv: "bounds_inv cfg launch_start s" "account_inv samples cfg (sc_name scenario) s" by auto
  have acc: "accounts samples (sc_name scenario) rs m"
    unfolding rs_def m_def by (rule hdr_histogram.merged_accounts [OF hist inv])
  have room: "length rs < 2 ^ 64" using few by (simp add: rs_def)
  have "panics s = 0" using calm by (auto simp: panics_def filter_empty_conv)
  then have "run_failures s = 0"
    using inv(2) run(2) room by (auto simp: account_inv_def rs_def unat_eq_0)
  then have summary: "run_summary H s = m"
    by (simp add: run_summary_def m_def)
  have far: "\<forall>(d, ok) \<in> set (observations rs). \<not> straddles lowest highest (unat (tracked_ms d))"
    using calm by (fastforce simp: rs_def observations_def)
  define r where "r = run_result H job started_at finished_at (run_report H scenario cfg launch_start s)"
  have fields: "res_total r = tally m_total (scenario_metrics m) (sc_name scenario)"
    "res_success r = tally m_success (scenario_metrics m) (sc_name scenario)"
    "res_failure r = tally m_failure (scenario_metrics m) (sc_name scenario)"
    "latency_histogram r = mergeable_latency_buckets H
      (case fmlookup (scenario_metrics m) (sc_name scenario) of None \<Rightarrow> new_bucket H | Some b \<Rightarrow> b)"
    "error_breakdown r = map (\<lambda>(kind, n). \<lparr>error_kind = kind, error_count = n\<rparr>) (entries (error_counts m))"
    by (simp_all add: r_def run_result_def run_report_def Let_def summary tally_def job(2))
  have counts: "unat (res_total r) = length (filter (\<lambda>r. r \<noteq> Panicked) rs)"
    "unat (res_success r) = length (filter is_succeeded rs)" "unat (res_failure r) = length (filter is_failed rs)"
    unfolding fields accounted_counts [OF acc] using room
    by (simp_all add: unat_of_nat_len le_less_trans [OF length_filter_le])
  then have sum: "unat (res_success r) + unat (res_failure r) = unat (res_total r)"
    by (simp add: succeeded_or_failed)
  have buckets: "histogram_wf (latency_histogram r) (unat (res_total r))"
    unfolding counts unfolding fields by (rule accounted_histogram [OF H acc room far])
  have full: "latency_histogram r \<noteq> []"
    by (simp add: fields mergeable_latency_buckets_def)
  note errors = accounted_errors [OF acc room, folded fields(5)]
  have "error_kind e \<in> {kind. \<exists>r \<in> set rs. fails_with kind r}" if "e \<in> set (error_breakdown r)" for e
    using errors(4) that by auto
  then have errs: "errors_wf (error_breakdown r)"
    using errors kinds by (auto simp: errors_wf_def rs_def)
  have "unat (res_total r) < 2 ^ 53"
    unfolding counts using few by (simp add: rs_def le_less_trans [OF length_filter_le])
  then have "result_wf r"
    using job clock sum buckets full errs errors(1) validate_job_wf [of job]
    unfolding result_wf_def counts(3) [symmetric] by (simp add: r_def supported_version_def job_wf_def)
  then show ?thesis by (simp add: validate_result_wf r_def)
qed

section \<open>Draining\<close>

definition task_work :: "nat \<Rightarrow> task \<Rightarrow> nat" where
  "task_work n t = (case task_progress t of Running k \<Rightarrow> n - k + 3 | Failing _ \<Rightarrow> 2)"

text \<open>What is left to do for a run that no longer launches.\<close>

definition drain_work :: "nat \<Rightarrow> 'h run_state \<Rightarrow> nat" where
  "drain_work n s = sum_list (map (task_work n) (run_live s)) + length (run_ended s) + (if run_phase s = Draining then 1 else 0)"

definition drain_step ::
  "'h hdr \<Rightarrow> ('step \<Rightarrow> string) \<Rightarrow> 'step Scenario \<Rightarrow> RunnerConfig \<Rightarrow> instant \<Rightarrow> 'h run_state \<Rightarrow> 'h run_state \<Rightarrow> bool" where
  "drain_step H step_name scenario cfg launch_start s s' \<longleftrightarrow>
     run_phase s = Draining \<and> run_step H step_name scenario cfg launch_start s s' \<and> run_now s' = run_now s \<and> s' \<noteq> s"

lemma task_work_ge: "2 \<le> task_work n t"
  by (simp add: task_work_def split: progress.split)

lemma end_task_work:
  "run_live s = before @ t # after \<Longrightarrow> drain_work n (end_task t (before @ after) r update s) < drain_work n s"
  using task_work_ge [of n t] by (simp add: drain_work_def end_task_def)

lemma drain_step_work:
  assumes "drain_step H step_name scenario cfg launch_start s s'"
  shows "drain_work (length (sc_steps scenario)) s' < drain_work (length (sc_steps scenario)) s"
proof -
  from assms have phase: "run_phase s = Draining" "run_now s' = run_now s" "s' \<noteq> s"
    and "run_step H step_name scenario cfg launch_start s s'" by (auto simp: drain_step_def)
  from this(4) show ?thesis
    using phase
    by cases (auto simp: end_task_work, auto simp: drain_work_def step_task_def join_task_def task_work_def)
qed

lemma run_reaches_bounds:
  assumes "run_reaches H step_name scenario cfg launch_start s"
  shows "bounds_inv cfg launch_start s"
proof -
  from assms obtain s0 where s0: "run_start cfg launch_start = Some s0"
    "(run_step H step_name scenario cfg launch_start)\<^sup>*\<^sup>* s0 s"
    by (auto simp: run_reaches_def)
  from s0(2) show ?thesis
    by (induction rule: rtranclp_induct) (auto intro: bounds_start [OF s0(1)] run_step_bounds)
qed

text \<open>A transition that needs nothing from the target: no task gets on, except that one may end by the
  scenario timeout.\<close>

definition silent_step ::
  "'h hdr \<Rightarrow> ('step \<Rightarrow> string) \<Rightarrow> 'step Scenario \<Rightarrow> RunnerConfig \<Rightarrow> instant \<Rightarrow> 'h run_state \<Rightarrow> 'h run_state \<Rightarrow> bool" where
  "silent_step H step_name scenario cfg launch_start s s' \<longleftrightarrow>
     run_step H step_name scenario cfg launch_start s s' \<and>
     (run_live s' = run_live s \<or>
      (\<exists>before t after d. run_live s = before @ t # after \<and> run_live s' = before @ after \<and>
         run_outcomes s' = run_outcomes s @ [(t, Failed ''scenario_timeout'' d)]))"

lemma silent_join_all:
  assumes "run_phase s \<in> {Reaping, Draining}"
  shows "\<exists>s'. (silent_step H step_name scenario cfg launch_start)\<^sup>*\<^sup>* s s' \<and> run_phase s' = run_phase s \<and>
     run_now s' = run_now s \<and> run_live s' = run_live s \<and> run_ended s' = []"
  using assms
proof (induction "run_ended s" arbitrary: s)
  case (Cons ok rest)
  let ?s = "join_task ok rest s"
  have "run_step H step_name scenario cfg launch_start s ?s"
    using run_step.reap_one [of s "[]" ok rest] run_step.drain_joins [of s "[]" ok rest] Cons by auto
  then have step: "silent_step H step_name scenario cfg launch_start s ?s"
    by (simp add: silent_step_def join_task_def)
  have "\<exists>s'. (silent_step H step_name scenario cfg launch_start)\<^sup>*\<^sup>* ?s s' \<and> run_phase s' = run_phase ?s \<and>
     run_now s' = run_now ?s \<and> run_live s' = run_live ?s \<and> run_ended s' = []"
    by (rule Cons.hyps(1)) (use Cons in \<open>simp_all add: join_task_def\<close>)
  with converse_rtranclp_into_rtranclp [of "silent_step H step_name scenario cfg launch_start" s ?s, OF step] show ?case
    by (auto simp: join_task_def)
qed auto

lemma silent_timeouts:
  assumes "rc_scenario_timeout cfg = Some limit" "\<forall>t \<in> set (run_live s). task_started t + limit \<le> run_now s"
  shows "\<exists>s'. (silent_step H step_name scenario cfg launch_start)\<^sup>*\<^sup>* s s' \<and> run_phase s' = run_phase s \<and>
     run_now s' = run_now s \<and> run_live s' = []"
  using assms(2)
proof (induction "run_live s" arbitrary: s)
  case (Cons t rest)
  let ?d = "run_now s - task_started t"
  let ?s = "end_task t rest (Failed ''scenario_timeout'' ?d) (record_failure H (sc_name scenario) ''scenario_timeout'' ?d) s"
  have "task_started t + limit \<le> run_now s" using Cons by (metis list.set_intros(1))
  then have "run_step H step_name scenario cfg launch_start s ?s"
    using run_step.task_times_out [of s "[]" t rest cfg limit ?d H step_name scenario launch_start] Cons(2) assms(1)
    by simp
  then have step: "silent_step H step_name scenario cfg launch_start s ?s"
    unfolding silent_step_def using Cons(2)
    by (intro conjI disjI2 exI [of _ "[]"] exI [of _ t] exI [of _ rest] exI [of _ ?d]) (simp_all add: end_task_def)
  have "\<exists>s'. (silent_step H step_name scenario cfg launch_start)\<^sup>*\<^sup>* ?s s' \<and> run_phase s' = run_phase ?s \<and>
     run_now s' = run_now ?s \<and> run_live s' = []"
    by (rule Cons.hyps(1)) (use Cons in \<open>auto simp: end_task_def dest: sym [of "_ # _"]\<close>)
  with converse_rtranclp_into_rtranclp [of "silent_step H step_name scenario cfg launch_start" s ?s, OF step] show ?case
    by (auto simp: end_task_def)
qed auto

lemma silent_phase:
  "run_step H step_name scenario cfg launch_start s (s\<lparr>run_phase := p\<rparr>)
     \<Longrightarrow> silent_step H step_name scenario cfg launch_start s (s\<lparr>run_phase := p\<rparr>)"
  by (simp add: silent_step_def)

text \<open>After the launch deadline the launch loop comes to draining by itself.\<close>

lemma silent_to_draining:
  assumes late: "launch_deadline cfg launch_start \<le> run_now s" and phase: "run_phase s \<noteq> Returned"
  shows "\<exists>s'. (silent_step H step_name scenario cfg launch_start)\<^sup>*\<^sup>* s s' \<and> run_phase s' = Draining \<and>
     run_now s' = run_now s \<and> run_live s' = run_live s"
proof -
  let ?step = "silent_step H step_name scenario cfg launch_start"
  have direct: "?step s (s\<lparr>run_phase := Draining\<rparr>)" if "run_phase s \<in> {Gating, Pacing, Launching}"
    "launch_deadline cfg launch_start \<le> run_now s" for s
    using that by (auto intro!: silent_phase intro: run_step.gate_deadline run_step.pace_deadline run_step.launch_deadline)
  consider "run_phase s \<in> {Gating, Pacing, Launching}" | "run_phase s = Draining" | "run_phase s = Reaping"
    using phase by (cases "run_phase s") auto
  then show ?thesis
  proof cases
    case 1
    from r_into_rtranclp [of ?step, OF direct [OF 1 late]] show ?thesis
      by (intro exI [of _ "s\<lparr>run_phase := Draining\<rparr>"]) simp
  next
    case 2
    then show ?thesis by blast
  next
    case 3
    with silent_join_all [of s H step_name scenario cfg launch_start] obtain s1 where
      s1: "?step\<^sup>*\<^sup>* s s1" "run_phase s1 = Reaping" "run_now s1 = run_now s" "run_live s1 = run_live s" "run_ended s1 = []"
      by auto
    let ?s2 = "s1\<lparr>run_phase := Gating\<rparr>"
    have "?step s1 ?s2" using s1 by (intro silent_phase run_step.reaped)
    moreover have "?step ?s2 (?s2\<lparr>run_phase := Draining\<rparr>)" using s1 late by (intro direct) simp_all
    ultimately have "?step\<^sup>*\<^sup>* s (?s2\<lparr>run_phase := Draining\<rparr>)" using s1(1) by (meson rtranclp.rtrancl_into_rtrancl)
    with s1 show ?thesis by (intro exI [of _ "?s2\<lparr>run_phase := Draining\<rparr>"]) simp
  qed
qed

text \<open>C37: A run comes to its end without any help of the target.  With a scenario timeout configured,
  every reachable state of a run has a continuation to its return in which no step of a scenario
  answers, no task panics and nothing more is launched: the tasks that still run end by the
  timeout, and the run has returned when the launch deadline and one timeout have passed.  And once
  the launch loop drains, every sequence of transitions other than the passing of time is finite.\<close>

theorem run_ends_by_timeout:
  fixes s :: "'h run_state" and scenario :: "'step Scenario"
  assumes "run_reaches H step_name scenario cfg launch_start s" "rc_scenario_timeout cfg = Some limit"
  shows "(\<exists>s'. (silent_step H step_name scenario cfg launch_start)\<^sup>*\<^sup>* s s' \<and> run_phase s' = Returned \<and>
      run_now s' \<le> max (run_now s) (launch_deadline cfg launch_start + limit)) \<and>
    wfP (\<lambda>(s2 :: 'h run_state) s1. drain_step H step_name scenario cfg launch_start s1 s2)"
proof
  let ?step = "silent_step H step_name scenario cfg launch_start"
  let ?T = "max (run_now s) (launch_deadline cfg launch_start + limit)"
  show "\<exists>s'. ?step\<^sup>*\<^sup>* s s' \<and> run_phase s' = Returned \<and> run_now s' \<le> ?T"
  proof (cases "run_phase s = Returned")
    case False
    let ?s = "s\<lparr>run_now := ?T\<rparr>"
    have wait: "?step s ?s" by (simp add: silent_step_def run_step.time_passes)
    obtain s1 where s1: "?step\<^sup>*\<^sup>* ?s s1" "run_phase s1 = Draining" "run_now s1 = ?T" "run_live s1 = run_live s"
      using silent_to_draining [of cfg launch_start ?s H step_name scenario] False by (auto simp: le_max_iff_disj)
    have "task_started t + limit \<le> ?T" if "t \<in> set (run_live s)" for t
    proof -
      have "task_started t < launch_deadline cfg launch_start"
        using run_reaches_bounds [OF assms(1)] that by (auto simp: bounds_inv_def run_tasks_def)
      then show ?thesis by linarith
    qed
    with silent_timeouts [OF assms(2), of s1 H step_name scenario launch_start] s1 obtain s2 where
      s2: "?step\<^sup>*\<^sup>* s1 s2" "run_phase s2 = Draining" "run_now s2 = ?T" "run_live s2 = []" by auto
    with silent_join_all [of s2 H step_name scenario cfg launch_start] obtain s3 where
      s3: "?step\<^sup>*\<^sup>* s2 s3" "run_phase s3 = Draining" "run_now s3 = ?T" "run_live s3 = []" "run_ended s3 = []" by auto
    have "?step s3 (s3\<lparr>run_phase := Returned\<rparr>)" using s3 by (intro silent_phase run_step.drained)
    with wait s1(1) s2(1) s3(1) have "?step\<^sup>*\<^sup>* s (s3\<lparr>run_phase := Returned\<rparr>)"
      by (meson converse_rtranclp_into_rtranclp rtranclp.rtrancl_into_rtrancl rtranclp_trans)
    with s3(3) show ?thesis by (intro exI [of _ "s3\<lparr>run_phase := Returned\<rparr>"]) simp
  qed auto
  show "wfP (\<lambda>s2 s1. drain_step H step_name scenario cfg launch_start s1 s2)"
    by (rule wfp_subset [OF wfp_if_convertible_to_nat]) (auto dest: drain_step_work)
qed

section \<open>A concrete run\<close>

definition demo_runner :: RunnerConfig where
  "demo_runner = \<lparr>rc_duration = 10, rc_scenarios_per_sec = Finite 1, rc_max_concurrency = 1,
     rc_scenario_timeout = None, rc_startup_burst = 1\<rparr>"

definition demo_load :: "unit Scenario" where
  "demo_load = demo_scenario\<lparr>sc_name := ''scn''\<rparr>"

definition demo_task :: "progress \<Rightarrow> task" where
  "demo_task p = \<lparr>task_slot = 0, task_started = 0, task_progress = p\<rparr>"

definition demo_bucket :: "f64 \<Rightarrow> TokenBucket" where
  "demo_bucket tokens = \<lparr>tb_capacity = Finite 1, tb_refill_per_sec = Finite 1, tb_tokens = tokens, tb_last_refill = 0\<rparr>"

definition demo_run :: "phase \<Rightarrow> instant \<Rightarrow> f64 \<Rightarrow> task list \<Rightarrow> bool list \<Rightarrow> nat \<Rightarrow> u64 list RunMetrics
    \<Rightarrow> (task \<times> outcome) list \<Rightarrow> u64 list run_state" where
  "demo_run p now tokens live ended n m os =
     \<lparr>run_phase = p, run_now = now, run_bucket = demo_bucket tokens, run_live = live, run_ended = ended,
      run_launched = n, run_peak = n, run_failures = 0, run_slots = [m], run_outcomes = os\<rparr>"

definition demo_steps :: "u64 list RunMetrics" where
  "demo_steps = record_step hdr_reference ''step'' 0 True new_metrics"

definition demo_metrics :: "u64 list RunMetrics" where
  "demo_metrics = record_success hdr_reference ''scn'' 0 demo_steps"

definition demo_returned :: "u64 list run_state" where
  "demo_returned = demo_run Returned 10 (Finite 0) [] [] 1 demo_metrics [(demo_task (Running 1), Succeeded 0)]"

abbreviation demo_run_step :: "u64 list run_state \<Rightarrow> u64 list run_state \<Rightarrow> bool" where
  "demo_run_step \<equiv> run_step hdr_reference (\<lambda>_. ''step'') demo_load demo_runner 0"

lemma demo_run_starts: "run_start demo_runner 0 = Some (demo_run Reaping 0 (Finite 1) [] [] 0 new_metrics [])"
  using f64_of_nat_exact [of 1]
  by (simp add: run_start_def start_bucket_def demo_runner_def with_burst_def build_with_initial_tokens_def build_def
      concurrency_def demo_run_def demo_bucket_def)

lemma demo_polls: "acquire_poll 0 (demo_bucket (Finite 1)) = (True, demo_bucket (Finite 0))"
  using poll_at_once [of "demo_bucket (Finite 1)" 0 1 1] f64_of_nat_exact [of 1] f64_of_nat_exact [of 0]
  by (simp add: demo_bucket_def)

lemma demo_run_launches:
  "(run_step hdr_reference (\<lambda>_. ''step'') demo_load (demo_runner\<lparr>rc_scenario_timeout := timeout\<rparr>) 0)\<^sup>*\<^sup>* (demo_run Reaping 0 (Finite 1) [] [] 0 new_metrics [])
     (demo_run Reaping 0 (Finite 0) [demo_task (Running 0)] [] 1 new_metrics [])"
proof -
  let ?cfg = "demo_runner\<lparr>rc_scenario_timeout := timeout\<rparr>"
  let ?step = "run_step hdr_reference (\<lambda>_. ''step'') demo_load ?cfg 0"
  have "?step (demo_run Reaping 0 (Finite 1) [] [] 0 new_metrics []) (demo_run Gating 0 (Finite 1) [] [] 0 new_metrics [])"
    using run_step.reaped [of "demo_run Reaping 0 (Finite 1) [] [] 0 new_metrics []"] by (simp add: demo_run_def)
  moreover have "?step (demo_run Gating 0 (Finite 1) [] [] 0 new_metrics []) (demo_run Pacing 0 (Finite 1) [] [] 0 new_metrics [])"
    using run_step.gate_passes [of "demo_run Gating 0 (Finite 1) [] [] 0 new_metrics []" ?cfg 0]
    by (simp add: demo_run_def pending_def launch_deadline_def demo_runner_def)
  moreover have "?step (demo_run Pacing 0 (Finite 1) [] [] 0 new_metrics []) (demo_run Launching 0 (Finite 0) [] [] 0 new_metrics [])"
    using run_step.pace_polls [of "demo_run Pacing 0 (Finite 1) [] [] 0 new_metrics []" True "demo_bucket (Finite 0)"] demo_polls
    by (simp add: demo_run_def)
  moreover have "?step (demo_run Launching 0 (Finite 0) [] [] 0 new_metrics [])
      (demo_run Reaping 0 (Finite 0) [demo_task (Running 0)] [] 1 new_metrics [])"
    using run_step.launch [of "demo_run Launching 0 (Finite 0) [] [] 0 new_metrics []" ?cfg 0]
    by (simp add: demo_run_def pending_def launch_deadline_def demo_runner_def spawn_task_def demo_task_def concurrency_def)
  ultimately show ?thesis
    by - ((rule converse_rtranclp_into_rtranclp, assumption)+, rule rtranclp.rtrancl_refl)
qed

lemma demo_run_finishes:
  "demo_run_step\<^sup>*\<^sup>* (demo_run Reaping 0 (Finite 0) [demo_task (Running 0)] [] 1 new_metrics []) demo_returned"
proof -
  let ?os = "[(demo_task (Running 1), Succeeded 0)]"
  have "demo_run_step (demo_run Reaping 0 (Finite 0) [demo_task (Running 0)] [] 1 new_metrics [])
      (demo_run Reaping 0 (Finite 0) [demo_task (Running 1)] [] 1 demo_steps [])"
    using run_step.step_succeeds [of "demo_run Reaping 0 (Finite 0) [demo_task (Running 0)] [] 1 new_metrics []" "[]"
        "demo_task (Running 0)" "[]" 0 demo_load 0 hdr_reference "\<lambda>_. ''step''" demo_runner 0]
    by (simp add: demo_run_def demo_task_def demo_load_def demo_scenario_def step_task_def demo_steps_def)
  moreover have "demo_run_step (demo_run Reaping 0 (Finite 0) [demo_task (Running 1)] [] 1 demo_steps [])
      (demo_run Reaping 0 (Finite 0) [] [True] 1 demo_metrics ?os)"
    using run_step.task_succeeds [of "demo_run Reaping 0 (Finite 0) [demo_task (Running 1)] [] 1 demo_steps []" "[]"
        "demo_task (Running 1)" "[]" demo_load 0 hdr_reference "\<lambda>_. ''step''" demo_runner 0]
    by (simp add: demo_run_def demo_task_def demo_load_def demo_scenario_def end_task_def demo_metrics_def)
  moreover have "demo_run_step (demo_run Reaping 0 (Finite 0) [] [True] 1 demo_metrics ?os)
      (demo_run Reaping 0 (Finite 0) [] [] 1 demo_metrics ?os)"
    using run_step.reap_one [of "demo_run Reaping 0 (Finite 0) [] [True] 1 demo_metrics ?os" "[]" True "[]"]
    by (simp add: demo_run_def join_task_def record_join_result_def saturating_add_def)
  moreover have "demo_run_step (demo_run Reaping 0 (Finite 0) [] [] 1 demo_metrics ?os)
      (demo_run Gating 0 (Finite 0) [] [] 1 demo_metrics ?os)"
    using run_step.reaped [of "demo_run Reaping 0 (Finite 0) [] [] 1 demo_metrics ?os"] by (simp add: demo_run_def)
  moreover have "demo_run_step (demo_run Gating 0 (Finite 0) [] [] 1 demo_metrics ?os)
      (demo_run Gating 10 (Finite 0) [] [] 1 demo_metrics ?os)"
    using run_step.time_passes [of "demo_run Gating 0 (Finite 0) [] [] 1 demo_metrics ?os" 10] by (simp add: demo_run_def)
  moreover have "demo_run_step (demo_run Gating 10 (Finite 0) [] [] 1 demo_metrics ?os)
      (demo_run Draining 10 (Finite 0) [] [] 1 demo_metrics ?os)"
    using run_step.gate_deadline [of "demo_run Gating 10 (Finite 0) [] [] 1 demo_metrics ?os" demo_runner 0]
    by (simp add: demo_run_def launch_deadline_def demo_runner_def)
  moreover have "demo_run_step (demo_run Draining 10 (Finite 0) [] [] 1 demo_metrics ?os) demo_returned"
    using run_step.drained [of "demo_run Draining 10 (Finite 0) [] [] 1 demo_metrics ?os"]
    by (simp add: demo_run_def demo_returned_def)
  ultimately show ?thesis
    by - ((rule converse_rtranclp_into_rtranclp, assumption)+, rule rtranclp.rtrancl_refl)
qed

lemma no_timeout: "demo_runner\<lparr>rc_scenario_timeout := None\<rparr> = demo_runner"
  by (simp add: demo_runner_def)

lemma demo_run_reaches: "run_reaches hdr_reference (\<lambda>_. ''step'') demo_load demo_runner 0 demo_returned"
  unfolding run_reaches_def
  using demo_run_starts rtranclp_trans [OF demo_run_launches [of None, unfolded no_timeout] demo_run_finishes] by blast

lemma demo_returned_simps [simp]:
  "run_phase demo_returned = Returned" "run_outcomes demo_returned = [(demo_task (Running 1), Succeeded 0)]"
  by (simp_all add: demo_returned_def demo_run_def)

theorem run_stays_bounded_witness:
  "pending demo_returned \<le> 1 \<and> run_peak demo_returned \<le> 1 \<and> run_launched demo_returned = 1"
  using run_stays_bounded [OF hdr_ref.hdr_histogram_axioms demo_run_reaches]
  by (simp add: concurrency_def demo_runner_def) (simp add: demo_returned_def demo_run_def)

theorem run_accounts_for_every_task_witness:
  "unat (finished (run_report hdr_reference demo_load demo_runner 0 demo_returned)) = 1 \<and>
   unat (started (run_report hdr_reference demo_load demo_runner 0 demo_returned)) = 1"
  using run_accounts_for_every_task [OF hdr_ref.hdr_histogram_axioms demo_run_reaches]
  by (simp add: Let_def)

theorem run_result_accepted_witness:
  "validate_result (run_result hdr_reference demo_job 3 7
     (run_report hdr_reference demo_load demo_runner 0 demo_returned)) = Inr ()"
proof (rule run_result_accepted [OF hdr_ref.hdr_cells_axioms demo_run_reaches])
  have "tracked_ms 0 = 1" by (simp add: tracked_ms_def as_millis_def)
  then show "\<forall>(t, r) \<in> set (run_outcomes demo_returned). r \<noteq> Panicked \<and>
      (\<forall>(d, ok) \<in> set (observation r). \<not> straddles lowest_equivalent highest_equivalent (unat (tracked_ms d)))"
    by (simp add: reference_straddles)
  show "validate_job demo_job = Inr ()"
    using demo_validate by (simp add: validate_limits_def try_res_Inr_iff)
qed (simp_all add: demo_job_def demo_load_def build_terminal_event_id_def word_str_def nat_str.simps)

text \<open>A task that was launched and whose step never answers.\<close>

lemma hanging_run:
  "run_reaches hdr_reference (\<lambda>_. ''step'') demo_load (demo_runner\<lparr>rc_scenario_timeout := Some 5\<rparr>) 0
     (demo_run Reaping 0 (Finite 0) [demo_task (Running 0)] [] 1 new_metrics [])"
proof -
  have "run_start (demo_runner\<lparr>rc_scenario_timeout := Some 5\<rparr>) 0 = run_start demo_runner 0"
    by (simp add: run_start_def start_bucket_def concurrency_def)
  then have "run_start (demo_runner\<lparr>rc_scenario_timeout := Some 5\<rparr>) 0
      = Some (demo_run Reaping 0 (Finite 1) [] [] 0 new_metrics [])"
    using demo_run_starts by (rule trans)
  with demo_run_launches [of "Some 5"] show ?thesis unfolding run_reaches_def by blast
qed

theorem run_ends_by_timeout_witness:
  "\<exists>s'. (silent_step hdr_reference (\<lambda>_. ''step'') demo_load (demo_runner\<lparr>rc_scenario_timeout := Some 5\<rparr>) 0)\<^sup>*\<^sup>*
     (demo_run Reaping 0 (Finite 0) [demo_task (Running 0)] [] 1 new_metrics []) s' \<and>
     run_phase s' = Returned \<and> run_now s' \<le> 15"
  using run_ends_by_timeout [OF hanging_run, of 5]
  by (simp add: launch_deadline_def demo_runner_def demo_run_def)

end
