(* ===== verification/Script_Triples.thy ===== *)
theory Script_Triples
  imports Redis_Client
begin

text \<open>
  Reasoning about scripts and the operations around them.  A triple has a condition for the normal end
  and one for an error, since a Lua error keeps the writes made before it; \<open>reads\<close> marks scripts that
  change nothing, \<open>keeps\<close> those that keep an invariant, and \<open>preserves\<close> speaks of the state after an
  operation whatever it returns.
\<close>

section \<open>Triples\<close>

definition htriple ::
  "('s \<Rightarrow> bool) \<Rightarrow> ('s \<Rightarrow> bool) \<Rightarrow> ('s, 'e, 'a) action \<Rightarrow> ('a \<Rightarrow> 's \<Rightarrow> bool) \<Rightarrow> bool" where
  "htriple E P m Q \<longleftrightarrow>
     (\<forall>s s'. P s \<longrightarrow> (\<forall>e. m s = (Inl e, s') \<longrightarrow> E s') \<and> (\<forall>x. m s = (Inr x, s') \<longrightarrow> Q x s'))"

named_theorems htriple_rules

lemma htriple_eval: "(\<And>s. P s \<Longrightarrow> \<exists>x s'. m s = (Inr x, s') \<and> Q x s') \<Longrightarrow> htriple E P m Q"
  unfolding htriple_def by fastforce

lemma htriple_bind:
  assumes "htriple E P m R" "\<And>x. htriple E (R x) (k x) Q"
  shows "htriple E P (sbind m k) Q"
  unfolding htriple_def
proof (intro allI impI conjI)
  fix s s' e assume "P s" "sbind m k s = (Inl e, s')"
  with assms show "E s'" unfolding htriple_def by (elim sbind_cases) blast+
next
  fix s s' x assume "P s" "sbind m k s = (Inr x, s')"
  with assms show "Q x s'" unfolding htriple_def by (elim sbind_cases) blast+
qed

lemma htriple_weaken:
  "htriple E P m Q \<Longrightarrow> (\<And>s. P' s \<Longrightarrow> P s) \<Longrightarrow> (\<And>x s. Q x s \<Longrightarrow> Q' x s) \<Longrightarrow> htriple E P' m Q'"
  unfolding htriple_def by blast

lemma htriple_return [htriple_rules]: "(\<And>s. P s \<Longrightarrow> Q x s) \<Longrightarrow> htriple E P (sreturn x) Q"
  by (simp add: htriple_def)

lemma htriple_error [htriple_rules]: "(\<And>s. P s \<Longrightarrow> E s) \<Longrightarrow> htriple E P (serror e) Q"
  by (simp add: htriple_def)

lemma htriple_if [htriple_rules]:
  "(b \<Longrightarrow> htriple E P m Q) \<Longrightarrow> (\<not> b \<Longrightarrow> htriple E P n Q) \<Longrightarrow> htriple E P (if b then m else n) Q"
  by simp

lemma htriple_option [htriple_rules]:
  "(v = None \<Longrightarrow> htriple E P m Q) \<Longrightarrow> (\<And>y. v = Some y \<Longrightarrow> htriple E P (k y) Q)
     \<Longrightarrow> htriple E P (case v of None \<Rightarrow> m | Some y \<Rightarrow> k y) Q"
  by (cases v) simp_all

lemma htriple_sum [htriple_rules]:
  "(\<And>y. v = Inl y \<Longrightarrow> htriple E P (j y) Q) \<Longrightarrow> (\<And>y. v = Inr y \<Longrightarrow> htriple E P (k y) Q)
     \<Longrightarrow> htriple E P (case v of Inl y \<Rightarrow> j y | Inr y \<Rightarrow> k y) Q"
  by (cases v) simp_all

lemma htriple_prod [htriple_rules]:
  "(\<And>x y. v = (x, y) \<Longrightarrow> htriple E P (k x y) Q) \<Longrightarrow> htriple E P (case v of (x, y) \<Rightarrow> k x y) Q"
  by (cases v) simp_all

lemma htriple_let [htriple_rules]:
  "(\<And>x. x = v \<Longrightarrow> htriple E P (k x) Q) \<Longrightarrow> htriple E P (Let v k) Q"
  by simp

lemma htriple_state:
  assumes "htriple E P m Q" "P s" "\<And>x s. Q x s \<Longrightarrow> E s"
  shows "E (snd (m s))"
proof (cases "m s")
  case (Pair r s')
  with assms show ?thesis unfolding htriple_def by (cases r) auto
qed

text \<open>Commands that only read.\<close>

definition reads :: "('s, 'e, 'a) action \<Rightarrow> bool" where
  "reads m \<longleftrightarrow> (\<forall>s. snd (m s) = s)"

named_theorems reads_rules

lemma readsD: "reads m \<Longrightarrow> m s = (r, s') \<Longrightarrow> s' = s"
  unfolding reads_def by (metis snd_conv)

lemma htriple_reads: "reads m \<Longrightarrow> (\<And>s. P s \<Longrightarrow> E s) \<Longrightarrow> htriple E P m (\<lambda>_. P)"
  unfolding htriple_def by (auto dest: readsD)

lemma reads_basic [reads_rules]:
  "reads (sreturn x)" "reads (serror e)" "reads (slift r)" "reads (lua_need v)"
  by (auto simp: reads_def lua_need_def split: option.splits)

lemma reads_bind [reads_rules]:
  assumes "reads m" "\<And>x. reads (k x)"
  shows "reads (sbind m k)"
  unfolding reads_def
proof
  fix s
  obtain r s' where r: "sbind m k s = (r, s')" by force
  then have "s' = s" by (elim sbind_cases) (auto dest: readsD [OF assms(1)] readsD [OF assms(2)])
  with r show "snd (sbind m k s) = s" by simp
qed

lemma reads_cases [reads_rules]:
  "reads m \<Longrightarrow> reads n \<Longrightarrow> reads (if b then m else n)"
  "reads m \<Longrightarrow> (\<And>y. reads (k y)) \<Longrightarrow> reads (case v of None \<Rightarrow> m | Some y \<Rightarrow> k y)"
  "(\<And>x y. reads (j x y)) \<Longrightarrow> reads (case p of (x, y) \<Rightarrow> j x y)"
  by (auto split: option.splits prod.splits)

lemma reads_commands [reads_rules]:
  "reads (kv_hget k f)" "reads (kv_hexists k f)" "reads (kv_hgetall k)" "reads (kv_exists k)" "reads (kv_zcard k)"
  "reads kv_time" "reads (kv_zrangebyscore k sc n)" "reads (kv_zrange k n)"
  by (auto simp: reads_def kv_hget_def kv_hexists_def kv_hgetall_def kv_zcard_def kv_time_def kv_zrangebyscore_def
      kv_zrange_def on_hash_def on_zset_def split: option.splits)

lemma htriple_error_weaken: "htriple E P m Q \<Longrightarrow> (\<And>s. E s \<Longrightarrow> E' s) \<Longrightarrow> htriple E' P m Q"
  unfolding htriple_def by blast

lemma htriple_reads_post:
  "reads m \<Longrightarrow> (\<And>s. P s \<Longrightarrow> E s) \<Longrightarrow> (\<And>s. P s \<Longrightarrow> Q s) \<Longrightarrow> htriple E P m (\<lambda>_. Q)"
  by (rule htriple_weaken [OF htriple_reads [of m P E]])

lemma sbind_sreturn [simp]: "sbind (sreturn y) k = k y"
  by (rule ext) (simp add: sbind_def)

lemma reads_then:
  "reads m \<Longrightarrow> (\<And>s. I s \<Longrightarrow> E s) \<Longrightarrow> (\<And>y. htriple E I (k y) Q) \<Longrightarrow> htriple E I (sbind m k) Q"
  by (rule htriple_bind [OF htriple_reads])

lemma snd_bind_return: "snd (sbind m (\<lambda>_. sreturn y) t) = snd (m t)"
  by (cases "m t"; cases "fst (m t)") (auto simp: sbind_def)

section \<open>Invariants\<close>

text \<open>\<open>keeps E I m\<close>: the script keeps \<open>I\<close>, and an error leaves a state with \<open>E\<close>.\<close>

definition keeps :: "('s \<Rightarrow> bool) \<Rightarrow> ('s \<Rightarrow> bool) \<Rightarrow> ('s, 'e, 'a) action \<Rightarrow> bool" where
  "keeps E I m \<longleftrightarrow> htriple E I m (\<lambda>_. I)"

named_theorems keeps_rules

lemma keeps_triple: "keeps E I m \<Longrightarrow> htriple E I m (\<lambda>_. I)"
  by (simp add: keeps_def)

lemma keeps_bind [keeps_rules]: "keeps E I m \<Longrightarrow> (\<And>x. keeps E I (k x)) \<Longrightarrow> keeps E I (sbind m k)"
  unfolding keeps_def by (rule htriple_bind)

lemma keeps_reads: "reads m \<Longrightarrow> (\<And>s. I s \<Longrightarrow> E s) \<Longrightarrow> keeps E I m"
  unfolding keeps_def by (rule htriple_reads)

lemma keeps_return [keeps_rules]: "keeps E I (sreturn x)"
  by (simp add: keeps_def htriple_def)

lemma keeps_cases [keeps_rules]:
  "(b \<Longrightarrow> keeps E I m) \<Longrightarrow> (\<not> b \<Longrightarrow> keeps E I m') \<Longrightarrow> keeps E I (if b then m else m')"
  "keeps E I m \<Longrightarrow> (\<And>y. keeps E I (k y)) \<Longrightarrow> keeps E I (case v of None \<Rightarrow> m | Some y \<Rightarrow> k y)"
  "(\<And>x. keeps E I (k' x)) \<Longrightarrow> keeps E I (Let v' k')"
  by (auto split: option.splits)

lemma keeps_eval: "(\<And>s. I s \<Longrightarrow> \<exists>x s'. m s = (Inr x, s') \<and> I s') \<Longrightarrow> keeps E I m"
  unfolding keeps_def by (rule htriple_eval)

lemma keeps_reply [keeps_rules]: "keeps E I m \<Longrightarrow> keeps E I (lua_reply m)"
  unfolding lua_reply_def by (intro keeps_rules)

lemmas then_bind = htriple_bind [OF keeps_triple]

section \<open>Operations\<close>

text \<open>\<open>preserves P Q m\<close>: from a state with \<open>P\<close> the action ends in a state with \<open>Q\<close>.\<close>

definition preserves :: "('s \<Rightarrow> bool) \<Rightarrow> ('s \<Rightarrow> bool) \<Rightarrow> ('s, 'e, 'a) action \<Rightarrow> bool" where
  "preserves P Q m \<longleftrightarrow> (\<forall>s. P s \<longrightarrow> Q (snd (m s)))"

lemma preserves_lift:
  assumes "\<And>x. preserves P Q (k x)" "\<And>s. P s \<Longrightarrow> Q s"
  shows "preserves P Q (sbind (slift r) k)"
  using assms by (cases r) (auto simp: preserves_def sbind_def)

lemma preserves_last: "preserves P Q m \<Longrightarrow> preserves P Q (sbind m (\<lambda>x. slift (f x)))"
  by (auto simp: preserves_def sbind_def split: prod.splits sum.splits)

lemma preserves_bind:
  assumes "preserves P P m" "\<And>x. preserves P Q (k x)" "\<And>s. P s \<Longrightarrow> Q s"
  shows "preserves P Q (sbind m k)"
  unfolding preserves_def
proof (intro allI impI)
  fix s assume "P s"
  obtain r t where t: "m s = (r, t)" by force
  with assms(1) \<open>P s\<close> have "P t" unfolding preserves_def by (metis snd_conv)
  with assms(2,3) t show "Q (snd (sbind m k s))" by (cases r) (auto simp: preserves_def sbind_def)
qed

lemma preserves_simple:
  assumes "\<And>s. P s \<Longrightarrow> Q s"
  shows "preserves P Q (sreturn x)" "preserves P Q (serror e)" "preserves P Q (slift r)"
  using assms by (simp_all add: preserves_def)

lemma preserves_split:
  "(b \<Longrightarrow> preserves P Q m) \<Longrightarrow> (\<not> b \<Longrightarrow> preserves P Q m') \<Longrightarrow> preserves P Q (if b then m else m')"
  "(\<And>x y. preserves P Q (f x y)) \<Longrightarrow> preserves P Q (case p of (x, y) \<Rightarrow> f x y)"
  by (auto split: prod.splits)

lemma simulates_state: "simulates view Q m m' \<Longrightarrow> view (snd (m s)) = snd (m' (view s))"
  by (simp add: simulates_def)

lemma reads_sim: "simulates view Q m m' \<Longrightarrow> reads m' \<Longrightarrow> preserves (\<lambda>s. P (view s)) (\<lambda>s. P (view s)) m"
  by (simp add: preserves_def simulates_state reads_def)

end
