(* ===== verification/Aggregation_Scripts.thy ===== *)
theory Aggregation_Scripts
  imports Dispatch_Ledger
begin

text \<open>
  The Lua scripts of the durable run aggregation, \<open>infrastructure/redis/aggregation.rs\<close>.  A run is a
  hash; three sorted sets hold the deadlines of open runs, the outbox of summaries that wait for
  their publication, and the active runs with the time they are kept until.  The variable part of the
  arguments of the ingest script, which the source lays out by counts and positions, is a list of
  bucket counts and a list of error kinds with their counts.  The reply of a script carries the fields
  and values of the hash as one flat list.
\<close>

section \<open>Common parts\<close>

type_synonym snapshot = "string list"

definition flat_entries :: "(string \<times> string) list \<Rightarrow> snapshot" where
  "flat_entries fvs = concat (map (\<lambda>(f, v). [f, v]) fvs)"

definition snapshot_reply :: "'s redis \<Rightarrow> rkey \<Rightarrow> int \<Rightarrow> string \<Rightarrow> ('s, int \<times> string \<times> snapshot) script" where
  "snapshot_reply R key1 code message = sbind (hgetall R key1) (\<lambda>fvs. sreturn (code, message, flat_entries fvs))"

definition refresh_retention :: "'s redis \<Rightarrow> rkey \<Rightarrow> rkey \<Rightarrow> rarg \<Rightarrow> int \<Rightarrow> int \<Rightarrow> ('s, unit) script" where
  "refresh_retention R key1 key4 run_id now_ms retention_ms =
     sbind (hget_number R key1 ''summary_pending_revision'' ''0'') (\<lambda>pending.
     sbind (hget_number R key1 ''summary_ack_revision'' ''0'') (\<lambda>acknowledged.
     if pending > acknowledged then
       sbind (persist R key1) (\<lambda>_. sbind (zadd R key4 MAX_EXACT run_id) (\<lambda>_. sreturn ()))
     else
       sbind (pexpire R key1 (int_str retention_ms)) (\<lambda>_.
       sbind (zadd R key4 (lua_add now_ms retention_ms) run_id) (\<lambda>_. sreturn ()))))"

text \<open>A field read as a number where a missing number is tested, not used.\<close>

definition hget_optional :: "'s redis \<Rightarrow> rkey \<Rightarrow> string \<Rightarrow> string \<Rightarrow> ('s, int option) script" where
  "hget_optional R key1 f absent =
     sbind (hget R key1 f) (\<lambda>v. sreturn (lua_tonumber (case v of None \<Rightarrow> absent | Some x \<Rightarrow> x)))"

definition final_status :: "string \<Rightarrow> bool" where
  "final_status status \<longleftrightarrow> status \<in> {''partial'', ''timed_out'', ''cancelled'', ''complete''}"

section \<open>Ingest\<close>

record ingest_args =
  arg_scenario_id :: rarg
  arg_run_id :: rarg
  arg_schema_version :: rarg
  arg_expected_slices :: rarg
  arg_slice_index :: rarg
  arg_execution_key :: rarg
  arg_histogram_bounds :: rarg
  arg_total :: rarg
  arg_success :: rarg
  arg_failure :: rarg
  arg_retention_ms :: rarg
  arg_max_error_kinds :: rarg
  arg_max_active_runs :: rarg
  arg_partial_timeout_ms :: rarg
  arg_buckets :: "rarg list"
  arg_errors :: "(rarg \<times> rarg) list"

text \<open>The numeric arguments, when the script accepts them.\<close>

record ingest_numbers =
  num_expected :: int
  num_slice :: int
  num_total :: int
  num_success :: int
  num_failure :: int
  num_retention :: int
  num_max_kinds :: int
  num_max_active :: int
  num_timeout :: int

definition exact_count :: "rarg \<Rightarrow> bool" where
  "exact_count s = (case lua_tonumber s of None \<Rightarrow> False | Some n \<Rightarrow> 0 \<le> n \<and> n \<le> MAX_EXACT)"

definition ingest_numbers_of :: "ingest_args \<Rightarrow> int \<Rightarrow> ingest_numbers option" where
  "ingest_numbers_of a now =
     (case (lua_tonumber (arg_expected_slices a), lua_tonumber (arg_slice_index a), lua_tonumber (arg_total a),
            lua_tonumber (arg_success a), lua_tonumber (arg_failure a)) of
        (Some expected, Some slice_index, Some t, Some s, Some f) \<Rightarrow>
          (case (lua_tonumber (arg_retention_ms a), lua_tonumber (arg_max_error_kinds a),
                 lua_tonumber (arg_max_active_runs a), lua_tonumber (arg_partial_timeout_ms a)) of
             (Some retention, Some kinds, Some active, Some timeout) \<Rightarrow>
               if expected < 1 \<or> slice_index < 0 \<or> slice_index \<ge> expected \<or> t < 0 \<or> t > MAX_EXACT
                  \<or> s < 0 \<or> s > MAX_EXACT \<or> f < 0 \<or> f > MAX_EXACT \<or> lua_add s f \<noteq> t
                  \<or> retention < 1 \<or> kinds < 1 \<or> active < 1 \<or> timeout < 1 \<or> now > lua_sub MAX_EXACT timeout
               then None
               else Some \<lparr>num_expected = expected, num_slice = slice_index, num_total = t, num_success = s,
                      num_failure = f, num_retention = retention, num_max_kinds = kinds, num_max_active = active,
                      num_timeout = timeout\<rparr>
           | _ \<Rightarrow> None)
      | _ \<Rightarrow> None)"

definition metadata_changed :: "'s redis \<Rightarrow> rkey \<Rightarrow> ingest_args \<Rightarrow> int \<Rightarrow> string option \<Rightarrow> ('s, bool) script" where
  "metadata_changed R key1 a expected stored_bounds =
     sbind (hget R key1 ''scenario_id'') (\<lambda>s.
     if s \<noteq> Some (arg_scenario_id a) then sreturn True
     else sbind (hget R key1 ''run_id'') (\<lambda>r.
     if r \<noteq> Some (arg_run_id a) then sreturn True
     else sbind (hget R key1 ''schema_version'') (\<lambda>v.
     if v \<noteq> Some (arg_schema_version a) then sreturn True
     else sbind (hget_optional R key1 ''expected_slices'' ''-1'') (\<lambda>n.
     sreturn (n \<noteq> Some expected \<or> (stored_bounds \<noteq> Some [] \<and> stored_bounds \<noteq> Some (arg_histogram_bounds a)))))))"

definition slice_field :: "int \<Rightarrow> string" where
  "slice_field i = ''slice:'' @ lua_tostring i"

definition execution_field :: "string \<Rightarrow> string" where
  "execution_field key = ''execution:'' @ key"

definition error_field :: "string \<Rightarrow> string" where
  "error_field kind = ''error:'' @ kind"

definition latency_field :: "nat \<Rightarrow> string" where
  "latency_field i = ''latency:'' @ lua_tostring (int i)"

text \<open>The checks against an existing run: the status of a run that may take the slice, or the code and
  message of the reply; \<open>True\<close> asks for a refresh of the retention before the reply.\<close>

definition existing_run ::
  "'s redis \<Rightarrow> rkey \<Rightarrow> ingest_args \<Rightarrow> ingest_numbers \<Rightarrow> ('s, (bool \<times> int \<times> string, string) result) script" where
  "existing_run R key1 a n =
     sbind (hget R key1 ''histogram_bounds'') (\<lambda>stored_bounds.
     sbind (metadata_changed R key1 a (num_expected n) stored_bounds) (\<lambda>changed.
     if changed
     then sreturn (Inl (False, 5, ''scenario, schema, expected slices, or histogram bounds changed''))
     else
     sbind (if stored_bounds = Some []
            then sbind (hget_optional R key1 ''received_slices'' ''-1'') (\<lambda>received.
                 if received \<noteq> Some 0 then sreturn False
                 else sbind (hset R key1 [(''histogram_bounds'', arg_histogram_bounds a)]) (\<lambda>_. sreturn True))
            else sreturn True) (\<lambda>pinned.
     if \<not> pinned then sreturn (Inl (False, 5, ''registered run histogram is unset after accepting slices''))
     else
     sbind (hget R key1 ''status'') (\<lambda>st.
     let status = (case st of None \<Rightarrow> [] | Some x \<Rightarrow> x) in
     if status \<noteq> ''open'' \<and> \<not> final_status status
     then sreturn (Inl (False, 5, ''stored aggregation status is invalid''))
     else
     sbind (hget R key1 (slice_field (num_slice n))) (\<lambda>existing_slice.
     case existing_slice of
       Some key \<Rightarrow>
         if key = arg_execution_key a then sreturn (Inl (True, 2, []))
         else sreturn (Inl (False, 5, ''slice index already belongs to a different execution identity''))
     | None \<Rightarrow>
         sbind (hget R key1 (execution_field (arg_execution_key a))) (\<lambda>existing_execution.
         case existing_execution of
           Some i \<Rightarrow>
             if lua_tonumber i = Some (num_slice n) then sreturn (Inl (True, 2, []))
             else sreturn (Inl (False, 5, ''execution identity already belongs to a different slice''))
         | None \<Rightarrow>
             if status = ''complete'' \<or> status = ''cancelled''
             then sreturn (Inl (False, 5, ''terminal run cannot accept an unrecorded slice''))
             else sreturn (Inr status)))))))"

definition stored_counters ::
  "'s redis \<Rightarrow> rkey \<Rightarrow> ingest_numbers \<Rightarrow> ('s, int option) script" where
  "stored_counters R key1 n =
     sbind (hget_optional R key1 ''received_slices'' ''-1'') (\<lambda>received.
     sbind (hget_optional R key1 ''error_kind_count'' ''-1'') (\<lambda>kinds.
     sreturn (case (received, kinds) of
        (Some i, Some k) \<Rightarrow> if i < 0 \<or> i \<ge> num_expected n \<or> k < 0 then None else Some k
      | _ \<Rightarrow> None)))"

fun additional_kinds :: "'s redis \<Rightarrow> rkey \<Rightarrow> (rarg \<times> rarg) list \<Rightarrow> int \<Rightarrow> ('s, int) script" where
  "additional_kinds R key1 [] k = sreturn k"
| "additional_kinds R key1 ((kind, _) # es) k =
     sbind (hexists R key1 (error_field kind)) (\<lambda>present.
     additional_kinds R key1 es (if present = 0 then lua_add k 1 else k))"

fun sums_exact :: "'s redis \<Rightarrow> rkey \<Rightarrow> (string \<times> int option) list \<Rightarrow> ('s, bool) script" where
  "sums_exact R key1 [] = sreturn True"
| "sums_exact R key1 ((f, incoming) # fs) =
     sbind (hget_optional R key1 f ''0'') (\<lambda>current.
     case (current, incoming) of
       (Some c, Some i) \<Rightarrow>
         if 0 \<le> c \<and> c \<le> MAX_EXACT \<and> i \<le> lua_sub MAX_EXACT c then sums_exact R key1 fs else sreturn False
     | _ \<Rightarrow> sreturn False)"

definition bucket_fields :: "ingest_args \<Rightarrow> (string \<times> rarg) list" where
  "bucket_fields a = zip (map latency_field [0..<length (arg_buckets a)]) (arg_buckets a)"

definition create_run :: "'s redis \<Rightarrow> rkey \<Rightarrow> rkey \<Rightarrow> ingest_args \<Rightarrow> ingest_numbers \<Rightarrow> int \<Rightarrow> ('s, unit) script" where
  "create_run R key1 key2 a n now =
     sbind (hset R key1
       [(''scenario_id'', arg_scenario_id a), (''run_id'', arg_run_id a), (''schema_version'', arg_schema_version a),
        (''expected_slices'', lua_tostring (num_expected n)), (''histogram_bounds'', arg_histogram_bounds a),
        (''status'', ''open''), (''received_slices'', ''0''), (''total'', ''0''), (''success'', ''0''),
        (''failure'', ''0''), (''error_kind_count'', ''0''), (''first_result_at'', lua_tostring now),
        (''last_result_at'', lua_tostring now), (''deadline_at'', lua_tostring (lua_add now (num_timeout n))),
        (''finalized_at'', ''0''), (''summary_revision'', ''0''), (''summary_pending_revision'', ''0''),
        (''summary_ack_revision'', ''0'')]) (\<lambda>_.
     sbind (zadd R key2 (lua_add now (num_timeout n)) (arg_run_id a)) (\<lambda>_. sreturn ()))"

fun add_buckets :: "'s redis \<Rightarrow> rkey \<Rightarrow> (string \<times> rarg) list \<Rightarrow> ('s, unit) script" where
  "add_buckets R key1 [] = sreturn ()"
| "add_buckets R key1 ((f, c) # fs) = sbind (hincrby R key1 f c) (\<lambda>_. add_buckets R key1 fs)"

fun add_errors :: "'s redis \<Rightarrow> rkey \<Rightarrow> (rarg \<times> rarg) list \<Rightarrow> ('s, unit) script" where
  "add_errors R key1 [] = sreturn ()"
| "add_errors R key1 ((kind, c) # es) =
     sbind (hexists R key1 (error_field kind)) (\<lambda>present.
     sbind (if present = 0 then sbind (hincrby R key1 ''error_kind_count'' ''1'') (\<lambda>_. sreturn ()) else sreturn ()) (\<lambda>_.
     sbind (hincrby R key1 (error_field kind) c) (\<lambda>_. add_errors R key1 es)))"

definition stamp_result :: "'s redis \<Rightarrow> rkey \<Rightarrow> int \<Rightarrow> ('s, unit) script" where
  "stamp_result R key1 now =
     sbind (hget_optional R key1 ''last_result_at'' ''0'') (\<lambda>previous_last.
     sbind (hget_optional R key1 ''first_result_at'' ''0'') (\<lambda>first_result.
     sbind (if first_result = Some 0
            then sbind (hset R key1 [(''first_result_at'', lua_tostring now)]) (\<lambda>_. sreturn ()) else sreturn ()) (\<lambda>_.
     sbind (lua_need previous_last) (\<lambda>last_at.
     if now > last_at
     then sbind (hset R key1 [(''last_result_at'', lua_tostring now)]) (\<lambda>_. sreturn ()) else sreturn ()))))"

definition add_slice ::
  "'s redis \<Rightarrow> rkey \<Rightarrow> ingest_args \<Rightarrow> ingest_numbers \<Rightarrow> int \<Rightarrow> ('s, int) script" where
  "add_slice R key1 a n now =
     sbind (hset R key1 [(slice_field (num_slice n), arg_execution_key a),
       (execution_field (arg_execution_key a), lua_tostring (num_slice n))]) (\<lambda>_.
     sbind (lua_reply (hincrby R key1 ''received_slices'' ''1'')) (\<lambda>received.
     sbind (hincrby R key1 ''total'' (arg_total a)) (\<lambda>_.
     sbind (hincrby R key1 ''success'' (arg_success a)) (\<lambda>_.
     sbind (hincrby R key1 ''failure'' (arg_failure a)) (\<lambda>_.
     sbind (add_buckets R key1 (bucket_fields a)) (\<lambda>_.
     sbind (add_errors R key1 (arg_errors a)) (\<lambda>_.
     sbind (stamp_result R key1 now) (\<lambda>_.
     sreturn received))))))))"

text \<open>A new summary revision enters the outbox.\<close>

definition enqueue_summary :: "'s redis \<Rightarrow> rkey \<Rightarrow> rkey \<Rightarrow> rkey \<Rightarrow> rarg \<Rightarrow> string \<Rightarrow> int \<Rightarrow> ('s, unit) script" where
  "enqueue_summary R key1 key2 key3 run_id status now =
     sbind (lua_reply (hincrby R key1 ''summary_revision'' ''1'')) (\<lambda>revision.
     sbind (hset R key1 [(''status'', status), (''finalized_at'', lua_tostring now),
       (''summary_pending_revision'', lua_tostring revision)]) (\<lambda>_.
     sbind (zrem R key2 run_id) (\<lambda>_.
     sbind (zadd R key3 now run_id) (\<lambda>_. sreturn ()))))"

text \<open>The capacity and exactness checks before the first write of a slice.\<close>

definition slice_problem ::
  "'s redis \<Rightarrow> rkey \<Rightarrow> ingest_args \<Rightarrow> ingest_numbers \<Rightarrow> int \<Rightarrow> ('s, (int \<times> string) option) script" where
  "slice_problem R key1 a n kinds =
     sbind (additional_kinds R key1 (arg_errors a) 0) (\<lambda>more_kinds.
     if lua_add kinds more_kinds > num_max_kinds n
     then sreturn (Some (6, ''bounded error-kind capacity exceeded''))
     else
     sbind (sums_exact R key1 [(''total'', Some (num_total n)), (''success'', Some (num_success n)),
       (''failure'', Some (num_failure n))]) (\<lambda>totals_fit.
     if \<not> totals_fit
     then sreturn (Some (9, ''aggregate result counter exceeds the exact Redis Lua range''))
     else
     sbind (sums_exact R key1 (map (\<lambda>(f, c). (f, lua_tonumber c)) (bucket_fields a))) (\<lambda>buckets_fit.
     if \<not> buckets_fit
     then sreturn (Some (9, ''aggregate latency counter exceeds the exact Redis Lua range''))
     else
     sbind (sums_exact R key1 (map (\<lambda>(kind, c). (error_field kind, lua_tonumber c)) (arg_errors a))) (\<lambda>errors_fit.
     if \<not> errors_fit
     then sreturn (Some (9, ''aggregate error counter exceeds the exact Redis Lua range''))
     else sreturn None))))"

definition late_status :: "string \<Rightarrow> bool" where
  "late_status status \<longleftrightarrow> status = ''partial'' \<or> status = ''timed_out''"

text \<open>The writes of an accepted slice, with the summary of a run it completes.\<close>

definition accept_slice ::
  "'s redis \<Rightarrow> rkey \<Rightarrow> rkey \<Rightarrow> rkey \<Rightarrow> rkey \<Rightarrow> ingest_args \<Rightarrow> ingest_numbers \<Rightarrow> int \<Rightarrow> string
     \<Rightarrow> ('s, int \<times> string \<times> snapshot) script" where
  "accept_slice R key1 key2 key3 key4 a n now status =
     sbind (add_slice R key1 a n now) (\<lambda>received.
     sbind (refresh_retention R key1 key4 (arg_run_id a) now (num_retention n)) (\<lambda>_.
     if received = num_expected n then
       sbind (enqueue_summary R key1 key2 key3 (arg_run_id a) ''complete'' now) (\<lambda>_.
       sbind (refresh_retention R key1 key4 (arg_run_id a) now (num_retention n)) (\<lambda>_.
       snapshot_reply R key1 (if late_status status then 4 else 3) []))
     else snapshot_reply R key1 (if late_status status then 7 else 1) []))"

definition ingest_script ::
  "'s redis \<Rightarrow> rkey \<Rightarrow> rkey \<Rightarrow> rkey \<Rightarrow> rkey \<Rightarrow> ingest_args \<Rightarrow> ('s, int \<times> string \<times> snapshot) script" where
  "ingest_script R key1 key2 key3 key4 a =
     sbind (script_now_ms R) (\<lambda>now.
     case ingest_numbers_of a now of
       None \<Rightarrow> sreturn (5, ''invalid aggregation script arguments'', [])
     | Some n \<Rightarrow>
         if \<not> list_all exact_count (arg_buckets a)
         then sreturn (5, ''latency bucket count is outside the exact Redis Lua range'', [])
         else if \<not> list_all (exact_count \<circ> snd) (arg_errors a)
         then sreturn (5, ''error count is outside the exact Redis Lua range'', [])
         else
         sbind (exists_key R key1) (\<lambda>found.
         sbind (zremrangebyscore R key4 now) (\<lambda>_.
         sbind (if found = 1 then sreturn False
                else sbind (zcard R key4) (\<lambda>active. sreturn (active \<ge> num_max_active n))) (\<lambda>exhausted.
         if exhausted then sreturn (8, ''bounded active-run capacity exceeded'', [])
         else
         sbind (if found = 1 then existing_run R key1 a n else sreturn (Inr ''open'')) (\<lambda>checked.
         case checked of
           Inl (refresh, code, message) \<Rightarrow>
             sbind (if refresh then refresh_retention R key1 key4 (arg_run_id a) now (num_retention n) else sreturn ())
               (\<lambda>_. snapshot_reply R key1 code message)
         | Inr status \<Rightarrow>
             sbind (if found = 1 then stored_counters R key1 n else sreturn (Some 0)) (\<lambda>stored.
             case stored of
               None \<Rightarrow> snapshot_reply R key1 5 ''stored aggregation counters are invalid''
             | Some kinds \<Rightarrow>
                 sbind (slice_problem R key1 a n kinds) (\<lambda>problem.
                 case problem of
                   Some (code, message) \<Rightarrow> snapshot_reply R key1 code message
                 | None \<Rightarrow>
                     sbind (if found = 1 then sreturn () else create_run R key1 key2 a n now) (\<lambda>_.
                     accept_slice R key1 key2 key3 key4 a n now status))))))))"

section \<open>Expiry and finalization\<close>

text \<open>A run that already has a final status leaves the deadlines; a summary that still waits keeps it.\<close>

definition keep_final :: "'s redis \<Rightarrow> rkey \<Rightarrow> rkey \<Rightarrow> rkey \<Rightarrow> rarg \<Rightarrow> ('s, unit) script" where
  "keep_final R key1 key2 key4 run_id =
     sbind (zrem R key2 run_id) (\<lambda>_.
     sbind (hget_number R key1 ''summary_pending_revision'' ''0'') (\<lambda>pending.
     sbind (hget_number R key1 ''summary_ack_revision'' ''0'') (\<lambda>acknowledged.
     if pending > acknowledged
     then sbind (persist R key1) (\<lambda>_. sbind (zadd R key4 MAX_EXACT run_id) (\<lambda>_. sreturn ()))
     else sreturn ())))"

definition forget_run :: "'s redis \<Rightarrow> rkey list \<Rightarrow> rarg \<Rightarrow> ('s, unit) script" where
  "forget_run R ks run_id = sfold (\<lambda>k _. sbind (zrem R k run_id) (\<lambda>_. sreturn ())) ks ()"

definition close_run :: "'s redis \<Rightarrow> rkey \<Rightarrow> rkey \<Rightarrow> rkey \<Rightarrow> rkey \<Rightarrow> rarg \<Rightarrow> string \<Rightarrow> int \<Rightarrow> ('s, unit) script" where
  "close_run R key1 key2 key3 key4 run_id status now =
     sbind (enqueue_summary R key1 key2 key3 run_id status now) (\<lambda>_.
     sbind (persist R key1) (\<lambda>_.
     sbind (zadd R key4 MAX_EXACT run_id) (\<lambda>_. sreturn ())))"

definition mark_expired_script ::
  "'s redis \<Rightarrow> rkey \<Rightarrow> rkey \<Rightarrow> rkey \<Rightarrow> rkey \<Rightarrow> rarg \<Rightarrow> rarg \<Rightarrow> ('s, int \<times> string \<times> snapshot) script" where
  "mark_expired_script R key1 key2 key3 key4 argv1 run_id =
     sbind (exists_key R key1) (\<lambda>present.
     if present = 0 then sbind (forget_run R [key2, key3, key4] run_id) (\<lambda>_. sreturn (0, [], []))
     else
     sbind (script_now_ms R) (\<lambda>now.
     let retention_ok = (case lua_tonumber argv1 of None \<Rightarrow> False
                         | Some retention \<Rightarrow> retention \<ge> 1 \<and> now \<le> lua_sub MAX_EXACT retention) in
     if \<not> retention_ok then snapshot_reply R key1 4 ''invalid expiration arguments''
     else
     sbind (hget R key1 ''status'') (\<lambda>st.
     let status = (case st of None \<Rightarrow> [] | Some x \<Rightarrow> x) in
     if final_status status
     then sbind (keep_final R key1 key2 key4 run_id) (\<lambda>_. snapshot_reply R key1 3 [])
     else if status \<noteq> ''open'' then snapshot_reply R key1 4 ''stored aggregation status is invalid''
     else
     sbind (hget_optional R key1 ''deadline_at'' ''-1'') (\<lambda>deadline.
     case deadline of
       None \<Rightarrow> snapshot_reply R key1 4 ''stored aggregation deadline is invalid''
     | Some deadline_at \<Rightarrow>
         if deadline_at < 0 then snapshot_reply R key1 4 ''stored aggregation deadline is invalid''
         else if now < deadline_at then snapshot_reply R key1 1 (lua_tostring (lua_sub deadline_at now))
         else sbind (close_run R key1 key2 key3 key4 run_id ''timed_out'' now) (\<lambda>_. snapshot_reply R key1 2 [])))))"

definition finalize_run_script ::
  "'s redis \<Rightarrow> rkey \<Rightarrow> rkey \<Rightarrow> rkey \<Rightarrow> rkey \<Rightarrow> rarg \<Rightarrow> rarg \<Rightarrow> rarg \<Rightarrow> ('s, int \<times> string \<times> snapshot) script" where
  "finalize_run_script R key1 key2 key3 key4 requested_status argv2 run_id =
     sbind (script_now_ms R) (\<lambda>now.
     let retention_ok = (case lua_tonumber argv2 of None \<Rightarrow> False
                         | Some retention \<Rightarrow> retention \<ge> 1 \<and> now \<le> lua_sub MAX_EXACT retention) in
     if requested_status \<noteq> ''partial'' \<and> requested_status \<noteq> ''cancelled''
     then sreturn (3, ''only partial or cancelled explicit finalization is supported'', [])
     else if \<not> retention_ok then sreturn (3, ''invalid explicit finalization arguments'', [])
     else
     sbind (exists_key R key1) (\<lambda>present.
     if present = 0 then sbind (forget_run R [key2, key3, key4] run_id) (\<lambda>_. sreturn (0, [], []))
     else
     sbind (hget R key1 ''status'') (\<lambda>st.
     let status = (case st of None \<Rightarrow> [] | Some x \<Rightarrow> x) in
     if status \<noteq> ''open'' then
       (if final_status status
        then sbind (keep_final R key1 key2 key4 run_id) (\<lambda>_. snapshot_reply R key1 2 [])
        else snapshot_reply R key1 3 ''stored aggregation status is invalid'')
     else sbind (close_run R key1 key2 key3 key4 run_id requested_status now) (\<lambda>_. snapshot_reply R key1 1 []))))"

definition due_runs_script :: "'s redis \<Rightarrow> rkey \<Rightarrow> rarg \<Rightarrow> ('s, string list) script" where
  "due_runs_script R key1 argv1 =
     (case lua_tonumber argv1 of
        None \<Rightarrow> serror ''aggregation scan limit must be positive''
      | Some limit \<Rightarrow>
          if limit < 1 then serror ''aggregation scan limit must be positive''
          else sbind (script_now_ms R) (\<lambda>now. zrangebyscore R key1 now (nat limit)))"

section \<open>Acknowledgement\<close>

definition settle_run :: "'s redis \<Rightarrow> rkey \<Rightarrow> rkey \<Rightarrow> rkey \<Rightarrow> rarg \<Rightarrow> int \<Rightarrow> ('s, unit) script" where
  "settle_run R key1 key2 key3 run_id retention_ms =
     sbind (zrem R key2 run_id) (\<lambda>_.
     sbind (pexpire R key1 (int_str retention_ms)) (\<lambda>_.
     sbind (script_now_ms R) (\<lambda>now.
     sbind (zadd R key3 (lua_add now retention_ms) run_id) (\<lambda>_. sreturn ()))))"

definition acknowledge_summary_script ::
  "'s redis \<Rightarrow> rkey \<Rightarrow> rkey \<Rightarrow> rkey \<Rightarrow> rarg \<Rightarrow> rarg \<Rightarrow> rarg \<Rightarrow> ('s, int \<times> int \<times> string) script" where
  "acknowledge_summary_script R key1 key2 key3 argv1 run_id argv3 =
     sbind (exists_key R key1) (\<lambda>present.
     if present = 0 then sbind (forget_run R [key2, key3] run_id) (\<lambda>_. sreturn (0, 0, []))
     else
     sbind (hget_optional R key1 ''summary_revision'' ''0'') (\<lambda>stored.
     sbind (hget_optional R key1 ''summary_ack_revision'' ''0'') (\<lambda>acked.
     sbind (hget_optional R key1 ''summary_pending_revision'' ''0'') (\<lambda>waiting.
     case (lua_tonumber argv1, lua_tonumber argv3, stored, acked, waiting) of
       (Some revision, Some retention_ms, Some current, Some acknowledged, Some pending) \<Rightarrow>
         if revision < 1 \<or> retention_ms < 1 \<or> current < 1 \<or> acknowledged < 0 \<or> pending < 0
         then sreturn (4, current, ''stored summary revision is invalid'')
         else if revision > current then sreturn (4, current, ''cannot acknowledge a future summary revision'')
         else if revision < current then
           sbind (if revision > acknowledged
                  then sbind (hset R key1 [(''summary_ack_revision'', lua_tostring revision)]) (\<lambda>_. sreturn ())
                  else sreturn ()) (\<lambda>_. sreturn (3, current, []))
         else if acknowledged \<ge> revision then
           sbind (if pending \<le> acknowledged then settle_run R key1 key2 key3 run_id retention_ms else sreturn ())
             (\<lambda>_. sreturn (2, current, []))
         else
           sbind (hset R key1 [(''summary_ack_revision'', lua_tostring revision)]) (\<lambda>_.
           sbind (if pending = revision then settle_run R key1 key2 key3 run_id retention_ms else sreturn ())
             (\<lambda>_. sreturn (1, current, [])))
     | _ \<Rightarrow> sreturn (4, case stored of None \<Rightarrow> 0 | Some current \<Rightarrow> current, ''stored summary revision is invalid'')))))"

definition clean_outbox_script :: "'s redis \<Rightarrow> rkey \<Rightarrow> rkey \<Rightarrow> rarg \<Rightarrow> ('s, int) script" where
  "clean_outbox_script R key1 key2 run_id =
     sbind (exists_key R key1) (\<lambda>present.
     if present = 0 then sbind (zrem R key2 run_id) (\<lambda>_. sreturn 1)
     else
     sbind (hget_number R key1 ''summary_pending_revision'' ''0'') (\<lambda>pending.
     sbind (hget_number R key1 ''summary_ack_revision'' ''0'') (\<lambda>acknowledged.
     if pending \<le> acknowledged then sbind (zrem R key2 run_id) (\<lambda>_. sreturn 1) else sreturn 0)))"

end
