(* ===== verification/Run_Aggregation.thy ===== *)
theory Run_Aggregation
  imports Run_Metrics Rust_Floats
begin

text \<open>
  The aggregation of slice results into run summaries, \<open>application/aggregation.rs\<close>: the in-process
  aggregator, and the summary it builds from the state of a run.  Hash sets are finite sets, the
  ordered maps of the source are finite maps whose entries are read in key order.  The arithmetic
  keeps the widths of the source: totals saturate, histogram and error counts wrap.
\<close>

section \<open>State\<close>

datatype AggregationUpdate =
    Agg_Accepted
  | Agg_Duplicate
  | Finalized ScenarioRunSummary
  | LateUpdate ScenarioRunSummary

datatype AggregationError =
    Agg_Contract contract_error
  | Agg_Capacity usize
  | InconsistentRun string

record RunState =
  rs_schema_version :: u16
  rs_scenario_id :: string
  rs_run_id :: string
  rs_expected_slices :: u32
  received_execution_keys :: "string fset"
  received_slice_indexes :: "u32 fset"
  rs_total :: u64
  rs_success :: u64
  rs_failure :: u64
  rs_histogram :: "(u64, u64) fmap"
  rs_errors :: "(string, u64) fmap"
  rs_first_result_at :: u128
  rs_last_result_at :: u128
  finalized_status :: "ScenarioRunSummaryStatus option"

record RunAggregator =
  agg_runs :: "(string, RunState) fmap"
  agg_max_runs :: usize

definition new_aggregator :: "usize \<Rightarrow> RunAggregator option" where
  "new_aggregator max_runs = (if max_runs > 0 then Some \<lparr>agg_runs = fmempty, agg_max_runs = max_runs\<rparr> else None)"

definition active_runs :: "RunAggregator \<Rightarrow> nat" where
  "active_runs a = fcard (fmdom (agg_runs a))"

definition from_first :: "ScenarioRunResult \<Rightarrow> u128 \<Rightarrow> RunState" where
  "from_first r now =
     \<lparr>rs_schema_version = res_schema_version r, rs_scenario_id = res_scenario_id r, rs_run_id = res_run_id r,
      rs_expected_slices = slice_total (res_slice r), received_execution_keys = {||}, received_slice_indexes = {||},
      rs_total = 0, rs_success = 0, rs_failure = 0, rs_histogram = fmempty, rs_errors = fmempty,
      rs_first_result_at = now, rs_last_result_at = now, finalized_status = None\<rparr>"

definition validate_compatible :: "RunState \<Rightarrow> ScenarioRunResult \<Rightarrow> (AggregationError, unit) result" where
  "validate_compatible st r =
     (if rs_scenario_id st \<noteq> res_scenario_id r \<or> rs_expected_slices st \<noteq> slice_total (res_slice r)
        \<or> rs_schema_version st \<noteq> res_schema_version r
      then Inl (InconsistentRun (''run '' @ quoted (res_run_id r) @ '' changed scenario, slice total, or schema version''))
      else Inr ())"

definition merge_result :: "RunState \<Rightarrow> ScenarioRunResult \<Rightarrow> u128 \<Rightarrow> (AggregationError, RunState) result" where
  "merge_result st r now =
     (if rs_histogram st \<noteq> fmempty \<and> latency_histogram r \<noteq> []
         \<and> map fst (entries (rs_histogram st)) \<noteq> map upper_bound_ms (latency_histogram r)
      then Inl (InconsistentRun ''latency histogram bounds changed between slices'')
      else Inr (st\<lparr>received_execution_keys := finsert (res_execution_key r) (received_execution_keys st),
                   received_slice_indexes := finsert (index (res_slice r)) (received_slice_indexes st),
                   rs_total := saturating_add (rs_total st) (res_total r),
                   rs_success := saturating_add (rs_success st) (res_success r),
                   rs_failure := saturating_add (rs_failure st) (res_failure r),
                   rs_histogram := fold (\<lambda>b. update_entry (upper_bound_ms b) 0 (\<lambda>c. c + bucket_count b))
                     (latency_histogram r) (rs_histogram st),
                   rs_errors := fold (\<lambda>e. update_entry (error_kind e) 0 (\<lambda>c. c + error_count e))
                     (error_breakdown r) (rs_errors st),
                   rs_last_result_at := now\<rparr>))"

section \<open>Summaries\<close>

text \<open>The first bucket at which the cumulative count reaches the rank; the unbounded bucket stands for
  the bound before it.\<close>

fun quantile_loop :: "u64 \<Rightarrow> u64 \<Rightarrow> u64 \<Rightarrow> LatencyBucket list \<Rightarrow> u64" where
  "quantile_loop rank cumulative previous [] = previous"
| "quantile_loop rank cumulative previous (b # bs) =
     (let reached = saturating_add cumulative (bucket_count b)
      in if reached \<ge> rank then if upper_bound_ms b = - 1 then previous else upper_bound_ms b
         else quantile_loop rank reached (upper_bound_ms b) bs)"

definition histogram_quantile :: "LatencyBucket list \<Rightarrow> f64 \<Rightarrow> u64" where
  "histogram_quantile histogram q =
     (let n = sum_list (map bucket_count histogram)
      in if n = 0 then 0
         else quantile_loop (f64_as_u64 (f64_max (f64_ceil (f64_mul (f64_of_nat (unat n)) q)) (Finite 1))) 0 0 histogram)"

definition run_state_summary :: "RunState \<Rightarrow> ScenarioRunSummaryStatus \<Rightarrow> u128 \<Rightarrow> ScenarioRunSummary" where
  "run_state_summary st status finalized_at =
     (let histogram = map (\<lambda>(u, n). \<lparr>upper_bound_ms = u, bucket_count = n\<rparr>) (entries (rs_histogram st))
      in \<lparr>sum_schema_version = rs_schema_version st, sum_scenario_id = rs_scenario_id st, sum_run_id = rs_run_id st,
          sum_status = status, sum_expected_slices = rs_expected_slices st,
          sum_received_slices = of_nat (fcard (received_slice_indexes st)),
          sum_missing_slices = filter (\<lambda>i. i |\<notin>| received_slice_indexes st)
            (map of_nat [0..<unat (rs_expected_slices st)]),
          sum_total = rs_total st, sum_success = rs_success st, sum_failure = rs_failure st,
          sum_p50_ms = histogram_quantile histogram (f64_round (50 / 100)),
          sum_p95_ms = histogram_quantile histogram (f64_round (95 / 100)),
          sum_p99_ms = histogram_quantile histogram (f64_round (99 / 100)),
          sum_latency_histogram = histogram,
          sum_error_breakdown = map (\<lambda>(kind, n). \<lparr>error_kind = kind, error_count = n\<rparr>) (entries (rs_errors st)),
          first_result_at_unix_ms = rs_first_result_at st, finalized_at_unix_ms = finalized_at\<rparr>)"

section \<open>Operations\<close>

definition put_run :: "string \<Rightarrow> RunState \<Rightarrow> RunAggregator \<Rightarrow> RunAggregator" where
  "put_run run_id st a = a\<lparr>agg_runs := fmupd run_id st (agg_runs a)\<rparr>"

definition aggregator_ingest ::
  "ScenarioRunResult \<Rightarrow> u128 \<Rightarrow> RunAggregator \<Rightarrow> (AggregationError, AggregationUpdate) result \<times> RunAggregator" where
  "aggregator_ingest r now a =
     (case validate_result r of
        Inl e \<Rightarrow> (Inl (Agg_Contract e), a)
      | Inr _ \<Rightarrow>
          if fmlookup (agg_runs a) (res_run_id r) = None \<and> active_runs a \<ge> unat (agg_max_runs a)
          then (Inl (Agg_Capacity (agg_max_runs a)), a)
          else
            let st = (case fmlookup (agg_runs a) (res_run_id r) of None \<Rightarrow> from_first r now | Some st \<Rightarrow> st);
                a1 = put_run (res_run_id r) st a
            in case validate_compatible st r of
                 Inl e \<Rightarrow> (Inl e, a1)
               | Inr _ \<Rightarrow>
                   if res_execution_key r |\<in>| received_execution_keys st
                      \<or> index (res_slice r) |\<in>| received_slice_indexes st
                   then (Inr Agg_Duplicate, a1)
                   else case merge_result st r now of
                          Inl e \<Rightarrow> (Inl e, a1)
                        | Inr st1 \<Rightarrow>
                            if fcard (received_slice_indexes st1) = unat (rs_expected_slices st1)
                            then let st2 = st1\<lparr>finalized_status := Some Complete\<rparr>; s = run_state_summary st2 Complete now
                                 in (Inr (if finalized_status st \<noteq> None then LateUpdate s else Finalized s),
                                     put_run (res_run_id r) st2 a1)
                            else (Inr Agg_Accepted, put_run (res_run_id r) st1 a1))"

definition expires :: "u128 \<Rightarrow> nat \<Rightarrow> RunState \<Rightarrow> bool" where
  "expires now timeout_ms st \<longleftrightarrow>
     \<not> (finalized_status st \<noteq> None \<or> unat (saturating_sub now (rs_first_result_at st)) < timeout_ms)"

definition finalize_expired :: "u128 \<Rightarrow> duration \<Rightarrow> RunAggregator \<Rightarrow> ScenarioRunSummary list \<times> RunAggregator" where
  "finalize_expired now timeout a =
     (let timeout_ms = as_millis timeout;
          due = filter (\<lambda>(_, st). expires now timeout_ms st) (entries (agg_runs a))
      in (sort_key sum_run_id (map (\<lambda>(_, st). run_state_summary (st\<lparr>finalized_status := Some TimedOut\<rparr>) TimedOut now) due),
          a\<lparr>agg_runs := fmmap (\<lambda>st. if expires now timeout_ms st then st\<lparr>finalized_status := Some TimedOut\<rparr> else st)
              (agg_runs a)\<rparr>))"

definition aggregator_cancel :: "string \<Rightarrow> u128 \<Rightarrow> RunAggregator \<Rightarrow> ScenarioRunSummary option \<times> RunAggregator" where
  "aggregator_cancel run_id now a = (case fmlookup (agg_runs a) run_id of
     None \<Rightarrow> (None, a)
   | Some st \<Rightarrow>
       let st1 = st\<lparr>finalized_status := Some SummaryCancelled\<rparr>
       in (Some (run_state_summary st1 SummaryCancelled now), put_run run_id st1 a))"

definition aggregator_remove :: "string \<Rightarrow> RunAggregator \<Rightarrow> ScenarioRunSummary option \<times> RunAggregator" where
  "aggregator_remove run_id a = (case fmlookup (agg_runs a) run_id of
     None \<Rightarrow> (None, a)
   | Some st \<Rightarrow>
       (Some (run_state_summary st (case finalized_status st of None \<Rightarrow> Partial | Some s \<Rightarrow> s) (rs_last_result_at st)),
        a\<lparr>agg_runs := fmdrop run_id (agg_runs a)\<rparr>))"

section \<open>Accumulated counts\<close>

definition count_of :: "('k, u64) fmap \<Rightarrow> 'k \<Rightarrow> u64" where
  "count_of m k = (case fmlookup m k of None \<Rightarrow> 0 | Some c \<Rightarrow> c)"

lemma count_of_fold:
  "count_of (fold (\<lambda>x. update_entry (key x) 0 (\<lambda>c. c + cnt x)) xs m) k
     = count_of m k + sum_list (map cnt (filter (\<lambda>x. key x = k) xs))"
  by (induction xs arbitrary: m) (auto simp: count_of_def fmlookup_update_entry)

lemma fmdom_fold_update:
  "fset (fmdom (fold (\<lambda>x. update_entry (key x) d (f x)) xs m)) = fset (fmdom m) \<union> key ` set xs"
  by (induction xs arbitrary: m) (auto simp: update_entry_def)

lemma entries_keys: "sorted_wrt (<) ks \<Longrightarrow> fset (fmdom m) = set ks \<Longrightarrow> map fst (entries m) = ks"
  by (simp add: entries_def comp_def sorted_list_of_fset.rep_eq strict_sorted_iff sorted_list_of_set.idem_if_sorted_distinct)

definition bucket_counts :: "ScenarioRunResult \<Rightarrow> u64 \<Rightarrow> u64" where
  "bucket_counts r u = sum_list (map bucket_count (filter (\<lambda>b. upper_bound_ms b = u) (latency_histogram r)))"

definition error_counts_of :: "ScenarioRunResult \<Rightarrow> string \<Rightarrow> u64" where
  "error_counts_of r kind = sum_list (map error_count (filter (\<lambda>e. error_kind e = kind) (error_breakdown r)))"

text \<open>The results of the slices of one run: they agree on the run, and a slice or an execution has one
  result, however often it is delivered.\<close>

definition same_run :: "ScenarioRunResult \<Rightarrow> ScenarioRunResult \<Rightarrow> bool" where
  "same_run r q \<longleftrightarrow>
     res_run_id r = res_run_id q \<and> res_scenario_id r = res_scenario_id q \<and> res_schema_version r = res_schema_version q \<and>
     slice_total (res_slice r) = slice_total (res_slice q) \<and>
     (latency_histogram r \<noteq> [] \<and> latency_histogram q \<noteq> [] \<longrightarrow>
        map upper_bound_ms (latency_histogram r) = map upper_bound_ms (latency_histogram q)) \<and>
     (index (res_slice r) = index (res_slice q) \<or> res_execution_key r = res_execution_key q \<longrightarrow> r = q)"

definition coherent :: "ScenarioRunResult set \<Rightarrow> bool" where
  "coherent rs \<longleftrightarrow> finite rs \<and> (\<forall>r \<in> rs. validate_result r = Inr ()) \<and> (\<forall>r \<in> rs. \<forall>q \<in> rs. same_run r q) \<and>
     (\<Sum>r\<in>rs. unat (res_total r)) < 2 ^ 64"

definition slice_indexes :: "ScenarioRunResult set \<Rightarrow> u32 set" where
  "slice_indexes rs = (\<lambda>r. index (res_slice r)) ` rs"

text \<open>The state of a run that has received exactly the results \<open>rs\<close>.\<close>

definition aggregates :: "ScenarioRunResult set \<Rightarrow> RunState \<Rightarrow> bool" where
  "aggregates rs st \<longleftrightarrow>
     (\<forall>r \<in> rs. rs_scenario_id st = res_scenario_id r \<and> rs_schema_version st = res_schema_version r \<and>
        rs_expected_slices st = slice_total (res_slice r)) \<and>
     fset (received_slice_indexes st) = slice_indexes rs \<and> fset (received_execution_keys st) = res_execution_key ` rs \<and>
     unat (rs_total st) = (\<Sum>r\<in>rs. unat (res_total r)) \<and> unat (rs_success st) = (\<Sum>r\<in>rs. unat (res_success r)) \<and>
     unat (rs_failure st) = (\<Sum>r\<in>rs. unat (res_failure r)) \<and>
     (\<forall>u. count_of (rs_histogram st) u = (\<Sum>r\<in>rs. bucket_counts r u)) \<and>
     (\<forall>kind. count_of (rs_errors st) kind = (\<Sum>r\<in>rs. error_counts_of r kind)) \<and>
     fset (fmdom (rs_histogram st)) = (\<Union>r\<in>rs. upper_bound_ms ` set (latency_histogram r)) \<and>
     finalized_status st = (if rs \<noteq> {} \<and> card (slice_indexes rs) = unat (rs_expected_slices st) then Some Complete else None)"

lemma coherent_subset: "coherent rs \<Longrightarrow> qs \<subseteq> rs \<Longrightarrow> coherent qs"
  unfolding coherent_def by (auto intro: finite_subset le_less_trans [OF sum_mono2])

lemma saturating_sum:
  "unat a + unat b < 2 ^ 64 \<Longrightarrow> unat (saturating_add a (b :: u64)) = unat a + unat b"
  by (simp add: unat_saturating_add)

lemma aggregated_bounds:
  assumes "coherent rs" "r \<in> rs" "qs \<subseteq> rs" "latency_histogram r \<noteq> []"
    "fset (fmdom h) = (\<Union>q\<in>qs. upper_bound_ms ` set (latency_histogram q))" "h \<noteq> fmempty"
  shows "map fst (entries h) = map upper_bound_ms (latency_histogram r)"
proof (rule entries_keys)
  have "validate_result r = Inr ()" using assms(1,2) by (auto simp: coherent_def)
  then show "sorted_wrt (<) (map upper_bound_ms (latency_histogram r))"
    by (simp add: validate_result_wf result_wf_def histogram_wf_def)
  have same: "upper_bound_ms ` set (latency_histogram q) = upper_bound_ms ` set (latency_histogram r)"
    if "q \<in> qs" "latency_histogram q \<noteq> []" for q
  proof -
    have "same_run q r" using assms(1-3) that(1) unfolding coherent_def by blast
    with that(2) assms(4) have "map upper_bound_ms (latency_histogram q) = map upper_bound_ms (latency_histogram r)"
      by (simp add: same_run_def)
    then show ?thesis by (metis list.set_map)
  qed
  have "fmdom h \<noteq> {||}"
  proof
    assume "fmdom h = {||}"
    then have "h = fmempty" by (intro fmap_ext) (simp add: fmdom_notD)
    with assms(6) show False ..
  qed
  then obtain q where q: "q \<in> qs" "latency_histogram q \<noteq> []" using assms(5) by fastforce
  have "(\<Union>q\<in>qs. upper_bound_ms ` set (latency_histogram q)) = upper_bound_ms ` set (latency_histogram r)"
  proof (intro equalityI UN_least)
    show "upper_bound_ms ` set (latency_histogram q') \<subseteq> upper_bound_ms ` set (latency_histogram r)" if "q' \<in> qs" for q'
      using same [of q'] that by (cases "latency_histogram q'") auto
    show "upper_bound_ms ` set (latency_histogram r) \<subseteq> (\<Union>q\<in>qs. upper_bound_ms ` set (latency_histogram q))"
      unfolding same [OF q, symmetric] using q(1) by blast
  qed
  then show "fset (fmdom h) = set (map upper_bound_ms (latency_histogram r))" using assms(5) by simp
qed

lemma saturating_totals:
  assumes "coherent (insert r rs)" "r \<notin> rs" "aggregates rs st"
  shows "unat (saturating_add (rs_total st) (res_total r)) = (\<Sum>q\<in>insert r rs. unat (res_total q))"
    "unat (saturating_add (rs_success st) (res_success r)) = (\<Sum>q\<in>insert r rs. unat (res_success q))"
    "unat (saturating_add (rs_failure st) (res_failure r)) = (\<Sum>q\<in>insert r rs. unat (res_failure q))"
proof -
  have fin: "finite rs" and room: "(\<Sum>q\<in>insert r rs. unat (res_total q)) < 2 ^ 64"
    using assms(1) by (auto simp: coherent_def)
  have wf: "unat (res_success q) + unat (res_failure q) = unat (res_total q)" if "q \<in> insert r rs" for q
    using assms(1) that validate_result_wf [of q] by (auto simp: coherent_def result_wf_def)
  have "(\<Sum>q\<in>insert r rs. unat (res_success q)) \<le> (\<Sum>q\<in>insert r rs. unat (res_total q))"
    "(\<Sum>q\<in>insert r rs. unat (res_failure q)) \<le> (\<Sum>q\<in>insert r rs. unat (res_total q))"
    using wf by (intro sum_mono; metis le_add1 le_add2)+
  with room assms(2,3) fin
  show "unat (saturating_add (rs_total st) (res_total r)) = (\<Sum>q\<in>insert r rs. unat (res_total q))"
    "unat (saturating_add (rs_success st) (res_success r)) = (\<Sum>q\<in>insert r rs. unat (res_success q))"
    "unat (saturating_add (rs_failure st) (res_failure r)) = (\<Sum>q\<in>insert r rs. unat (res_failure q))"
    by (simp_all add: aggregates_def saturating_sum)
qed

lemma merge_result_aggregates:
  assumes "coherent (insert r rs)" "r \<notin> rs" "aggregates rs st" "validate_compatible st r = Inr ()"
  obtains st1 where "merge_result st r now = Inr st1" "rs_expected_slices st1 = rs_expected_slices st"
    "aggregates (insert r rs) (st1\<lparr>finalized_status :=
       if card (slice_indexes (insert r rs)) = unat (rs_expected_slices st) then Some Complete else None\<rparr>)"
    "fset (received_slice_indexes st1) = slice_indexes (insert r rs)" "finalized_status st1 = finalized_status st"
proof -
  have fin: "finite rs" using assms(1) by (simp add: coherent_def)
  have "\<not> (rs_histogram st \<noteq> fmempty \<and> latency_histogram r \<noteq> []
      \<and> map fst (entries (rs_histogram st)) \<noteq> map upper_bound_ms (latency_histogram r))"
    using aggregated_bounds [OF assms(1), of r rs "rs_histogram st"] assms(3) by (auto simp: aggregates_def)
  then obtain st1 where st1: "merge_result st r now = Inr st1" by (simp add: merge_result_def)
  then have fields: "rs_expected_slices st1 = rs_expected_slices st" "finalized_status st1 = finalized_status st"
    "rs_scenario_id st1 = rs_scenario_id st" "rs_schema_version st1 = rs_schema_version st"
    "received_slice_indexes st1 = finsert (index (res_slice r)) (received_slice_indexes st)"
    "received_execution_keys st1 = finsert (res_execution_key r) (received_execution_keys st)"
    "rs_total st1 = saturating_add (rs_total st) (res_total r)"
    "rs_success st1 = saturating_add (rs_success st) (res_success r)"
    "rs_failure st1 = saturating_add (rs_failure st) (res_failure r)"
    "rs_histogram st1 = fold (\<lambda>b. update_entry (upper_bound_ms b) 0 (\<lambda>c. c + bucket_count b)) (latency_histogram r) (rs_histogram st)"
    "rs_errors st1 = fold (\<lambda>e. update_entry (error_kind e) 0 (\<lambda>c. c + error_count e)) (error_breakdown r) (rs_errors st)"
    by (auto simp: merge_result_def split: if_splits)
  have idx: "fset (received_slice_indexes st1) = slice_indexes (insert r rs)"
    using assms(3) by (simp add: fields aggregates_def slice_indexes_def)
  have "aggregates (insert r rs) (st1\<lparr>finalized_status :=
       if card (slice_indexes (insert r rs)) = unat (rs_expected_slices st) then Some Complete else None\<rparr>)"
    using assms(3,4) saturating_totals [OF assms(1-3)] fin assms(2)
    by (auto simp: aggregates_def fields slice_indexes_def count_of_fold fmdom_fold_update bucket_counts_def
        error_counts_of_def validate_compatible_def add.commute split: if_splits)
  with st1 fields(1,2) idx that show thesis by blast
qed

lemma slices_bounded:
  assumes "coherent rs" "\<forall>r \<in> rs. slice_total (res_slice r) = n"
  shows "card (slice_indexes rs) \<le> unat n"
proof -
  have "unat ` slice_indexes rs \<subseteq> {..<unat n}"
  proof
    fix i assume "i \<in> unat ` slice_indexes rs"
    then obtain r where r: "r \<in> rs" "i = unat (index (res_slice r))" by (auto simp: slice_indexes_def)
    then have "result_wf r" using assms(1) validate_result_wf by (auto simp: coherent_def)
    then show "i \<in> {..<unat n}" using r assms(2) by (auto simp: result_wf_def slice_wf_def)
  qed
  then have "card (unat ` slice_indexes rs) \<le> unat n" using card_mono [of "{..<unat n}"] by fastforce
  moreover have "inj_on unat (slice_indexes rs)" by (simp add: inj_on_def word_unat_eq_iff)
  ultimately show ?thesis by (simp add: card_image)
qed

lemma incomplete_before:
  assumes "coherent (insert r rs)" "r \<notin> rs" "aggregates rs st" "rs_expected_slices st = slice_total (res_slice r)"
  shows "finalized_status st = None"
proof (rule ccontr)
  assume "finalized_status st \<noteq> None"
  with assms(3) have full: "card (slice_indexes rs) = unat (rs_expected_slices st)" by (simp add: aggregates_def split: if_splits)
  have same: "same_run r q" if "q \<in> rs" for q using assms(1) that by (auto simp: coherent_def)
  have "index (res_slice r) \<notin> slice_indexes rs" using same assms(2) by (auto simp: slice_indexes_def same_run_def)
  moreover have "finite (slice_indexes rs)" using assms(1) by (simp add: coherent_def slice_indexes_def)
  ultimately have "card (slice_indexes (insert r rs)) = Suc (card (slice_indexes rs))" by (simp add: slice_indexes_def)
  moreover have "card (slice_indexes (insert r rs)) \<le> unat (rs_expected_slices st)"
    using same assms(4) by (intro slices_bounded [OF assms(1)]) (auto simp: same_run_def)
  ultimately show False using full by simp
qed

text \<open>What an aggregator holds of a run after the results \<open>rs\<close>.\<close>

definition holds :: "RunAggregator \<Rightarrow> string \<Rightarrow> ScenarioRunResult set \<Rightarrow> bool" where
  "holds a run_id rs \<longleftrightarrow> (case fmlookup (agg_runs a) run_id of
     None \<Rightarrow> rs = {} \<and> active_runs a < unat (agg_max_runs a)
   | Some st \<Rightarrow> rs \<noteq> {} \<and> aggregates rs st)"

lemma fmlookup_put_run [simp]: "fmlookup (agg_runs (put_run k st a)) k = Some st"
  by (simp add: put_run_def)

lemma aggregates_first: "aggregates {} (from_first r now)"
  by (simp add: aggregates_def from_first_def slice_indexes_def count_of_def)

lemma ingest_holds:
  assumes "holds a (res_run_id r) rs" "coherent (insert r rs)"
  shows "holds (snd (aggregator_ingest r now a)) (res_run_id r) (insert r rs)"
proof -
  define st where "st = (case fmlookup (agg_runs a) (res_run_id r) of None \<Rightarrow> from_first r now | Some st \<Rightarrow> st)"
  have agg: "aggregates rs st" and room: "\<not> (fmlookup (agg_runs a) (res_run_id r) = None \<and> active_runs a \<ge> unat (agg_max_runs a))"
    using assms(1) aggregates_first by (auto simp: holds_def st_def split: option.splits)
  have same: "same_run r q" if "q \<in> rs" for q using assms(2) that by (auto simp: coherent_def)
  have compat: "validate_compatible st r = Inr ()"
  proof (cases "rs = {}")
    case True
    with assms(1) have "st = from_first r now" by (auto simp: holds_def st_def split: option.splits)
    then show ?thesis by (simp add: validate_compatible_def from_first_def)
  next
    case False
    then obtain q where "q \<in> rs" by auto
    with agg same [of q] show ?thesis by (auto simp: validate_compatible_def aggregates_def same_run_def)
  qed
  have valid: "validate_result r = Inr ()" using assms(2) by (simp add: coherent_def)
  have dup: "res_execution_key r |\<in>| received_execution_keys st \<or> index (res_slice r) |\<in>| received_slice_indexes st \<longleftrightarrow> r \<in> rs"
    using agg same by (fastforce simp: aggregates_def slice_indexes_def same_run_def)
  show ?thesis
  proof (cases "r \<in> rs")
    case True
    with agg valid compat dup room show ?thesis
      by (auto simp: aggregator_ingest_def holds_def Let_def insert_absorb simp flip: st_def)
  next
    case False
    from merge_result_aggregates [OF assms(2) False agg compat, of now] obtain st1 where
      st1: "merge_result st r now = Inr st1" "rs_expected_slices st1 = rs_expected_slices st"
        "aggregates (insert r rs) (st1\<lparr>finalized_status :=
           if card (slice_indexes (insert r rs)) = unat (rs_expected_slices st) then Some Complete else None\<rparr>)"
        "fset (received_slice_indexes st1) = slice_indexes (insert r rs)" "finalized_status st1 = finalized_status st" by blast
    have "fcard (received_slice_indexes st1) = card (slice_indexes (insert r rs))"
      using st1(4) by (simp add: fcard.rep_eq)
    moreover have "finalized_status st1 = None"
      using incomplete_before [OF assms(2) False agg] compat st1(5) by (simp add: validate_compatible_def split: if_splits)
    then have "st1\<lparr>finalized_status := None\<rparr> = st1" by simp
    ultimately show ?thesis
      using st1(1-3) valid compat dup room False
      by (auto simp: aggregator_ingest_def holds_def Let_def simp flip: st_def)
  qed
qed

definition ingest_all :: "(ScenarioRunResult \<times> u128) list \<Rightarrow> RunAggregator \<Rightarrow> RunAggregator" where
  "ingest_all deliveries a = fold (\<lambda>(r, now) a. snd (aggregator_ingest r now a)) deliveries a"

lemma ingest_all_holds:
  assumes "holds a run_id rs" "coherent (rs \<union> fst ` set deliveries)" "\<forall>(r, now) \<in> set deliveries. res_run_id r = run_id"
  shows "holds (ingest_all deliveries a) run_id (rs \<union> fst ` set deliveries)"
  using assms
proof (induction deliveries arbitrary: a rs)
  case (Cons d deliveries)
  obtain r now where d: "d = (r, now)" by force
  with Cons.prems have "coherent (insert r rs)" by (intro coherent_subset [OF Cons.prems(2)]) auto
  then have "holds (snd (aggregator_ingest r now a)) run_id (insert r rs)"
    using ingest_holds [of a r rs now] Cons.prems d by simp
  from Cons.IH [OF this] Cons.prems d show ?case by (simp add: ingest_all_def)
qed (simp add: ingest_all_def)

text \<open>C39: An aggregate is the sum of its slices, whatever the order and the number of deliveries.  When the
  results of a run agree on the run and each slice has one result, an aggregator that receives them in
  any order and any number of times holds exactly the sums of the totals, of every histogram bucket and
  of every error kind over the distinct results, and the run is complete exactly when every slice has
  arrived.\<close>

theorem aggregate_is_sum_of_slices:
  assumes "coherent rs" "rs \<noteq> {}" "fst ` set deliveries = rs" "\<forall>r \<in> rs. res_run_id r = run_id"
    "fmlookup (agg_runs a) run_id = None" "active_runs a < unat (agg_max_runs a)"
  shows "\<exists>st. fmlookup (agg_runs (ingest_all deliveries a)) run_id = Some st \<and>
    unat (rs_total st) = (\<Sum>r\<in>rs. unat (res_total r)) \<and> unat (rs_success st) = (\<Sum>r\<in>rs. unat (res_success r)) \<and>
    unat (rs_failure st) = (\<Sum>r\<in>rs. unat (res_failure r)) \<and>
    (\<forall>u. count_of (rs_histogram st) u = (\<Sum>r\<in>rs. bucket_counts r u)) \<and>
    (\<forall>kind. count_of (rs_errors st) kind = (\<Sum>r\<in>rs. error_counts_of r kind)) \<and>
    fset (received_slice_indexes st) = slice_indexes rs \<and>
    finalized_status st = (if card (slice_indexes rs) = unat (rs_expected_slices st) then Some Complete else None)"
proof -
  have "holds a run_id {}" using assms(5,6) by (simp add: holds_def)
  from ingest_all_holds [OF this, of deliveries] assms(1,3,4) have "holds (ingest_all deliveries a) run_id rs" by fastforce
  with assms(2) show ?thesis by (auto simp: holds_def aggregates_def split: option.splits)
qed

definition demo_slice_result :: "u32 \<Rightarrow> string \<Rightarrow> u64 \<Rightarrow> ScenarioRunResult" where
  "demo_slice_result i key n =
     \<lparr>res_schema_version = 1, res_scenario_id = ''scn'', res_run_id = ''run'', res_execution_key = key, res_event_id = ''ev'',
      res_attempt = 0, res_slice = \<lparr>index = i, slice_total = 2\<rparr>, started_at_unix_ms = 1, finished_at_unix_ms = 2,
      res_status = RunSuccess, res_total = n, res_success = n, res_failure = 0, res_p50_ms = 1, res_p95_ms = 1,
      res_p99_ms = 1, latency_histogram = [\<lparr>upper_bound_ms = 10, bucket_count = n\<rparr>], error_breakdown = []\<rparr>"

lemma demo_slices_coherent: "coherent {demo_slice_result 0 ''k0'' 2, demo_slice_result 1 ''k1'' 3}"
proof -
  have names: "trim ''scn'' \<noteq> []" "trim ''run'' \<noteq> []" "trim ''k0'' \<noteq> []" "trim ''k1'' \<noteq> []"
    using trim_not_empty [of "CHR ''n''" "''scn''"] trim_not_empty [of "CHR ''n''" "''run''"]
      trim_not_empty [of "CHR ''k''" "''k0''"] trim_not_empty [of "CHR ''k''" "''k1''"] by (simp_all add: graphic_def)
  then have "result_wf (demo_slice_result 0 ''k0'' 2)" "result_wf (demo_slice_result 1 ''k1'' 3)"
    by (simp_all add: result_wf_def demo_slice_result_def supported_version_def identity_wf_def slice_wf_def
        errors_wf_def histogram_wf_def bucket_total_of_def error_total_of_def)
  moreover have "(\<Sum>r\<in>{demo_slice_result 0 ''k0'' 2, demo_slice_result 1 ''k1'' 3}. unat (res_total r)) = 5"
    by (simp add: demo_slice_result_def)
  ultimately show ?thesis
    by (simp add: coherent_def validate_result_wf same_run_def) (simp add: demo_slice_result_def)
qed

theorem aggregate_is_sum_of_slices_witness:
  "\<exists>st. fmlookup (agg_runs (ingest_all
      [(demo_slice_result 1 ''k1'' 3, 7), (demo_slice_result 0 ''k0'' 2, 8), (demo_slice_result 1 ''k1'' 3, 9)]
      \<lparr>agg_runs = fmempty, agg_max_runs = 1\<rparr>)) ''run'' = Some st \<and> unat (rs_total st) = 5"
proof -
  let ?rs = "{demo_slice_result 0 ''k0'' 2, demo_slice_result 1 ''k1'' 3}"
  have sum: "(\<Sum>r\<in>?rs. unat (res_total r)) = 5" by (simp add: demo_slice_result_def)
  have "\<forall>r \<in> ?rs. res_run_id r = ''run''" by (simp add: demo_slice_result_def)
  from aggregate_is_sum_of_slices [OF demo_slices_coherent _ _ this, of
      "[(demo_slice_result 1 ''k1'' 3, 7), (demo_slice_result 0 ''k0'' 2, 8), (demo_slice_result 1 ''k1'' 3, 9)]"
      "\<lparr>agg_runs = fmempty, agg_max_runs = 1\<rparr>"]
  show ?thesis unfolding sum by (auto simp: active_runs_def)
qed

end
