(* ===== verification/Aggregation_Store.thy ===== *)
theory Aggregation_Store
  imports Aggregation_Scripts Run_Aggregation
begin

text \<open>
  The durable aggregation store, \<open>RedisRunAggregationStore\<close> in \<open>infrastructure/redis/aggregation.rs\<close>:
  its construction, the checks before a result enters a script, the operations around the scripts, and
  the reading of a run hash back into a summary.  A hash map of the source is a finite map; where the
  source visits it in the order of the hash table, the model visits it in key order, which decides
  only which of several errors is reported.
\<close>

section \<open>Outcomes\<close>

datatype RunAggregationUpdate =
    Accepted u32 u32
  | LateAccepted u32 u32
  | Duplicate u32 u32 "ScenarioRunSummaryStatus option"
  | Completed ScenarioRunSummary
  | LateCompleted ScenarioRunSummary

datatype RunExpiryOutcome =
    Expiry_Missing
  | NotExpired duration
  | MarkedTimedOut ScenarioRunSummary
  | Expiry_AlreadyFinalized ScenarioRunSummary

datatype RunFinalizationOutcome =
    Finalization_Missing
  | Finalization_Finalized ScenarioRunSummary
  | Finalization_AlreadyFinalized ScenarioRunSummary

record DurableRunSummary =
  dur_revision :: u64
  dur_event_id :: string
  dur_pending_publication :: bool
  dur_summary :: ScenarioRunSummary

datatype SummaryAcknowledgement =
    Acknowledged
  | AlreadyAcknowledged
  | Stale u64
  | Acknowledgement_Missing

datatype RunAggregationStoreError =
    Store_Contract contract_error
  | Store_Unavailable string string
  | Store_Timeout string
  | Store_InvalidState string string
  | InconsistentResult string
  | ErrorKindCapacity usize
  | ActiveRunCapacity usize

fun map_coordination_error :: "coordination_error \<Rightarrow> RunAggregationStoreError" where
  "map_coordination_error (Unavailable operation message) = Store_Unavailable operation message"
| "map_coordination_error (Timeout operation) = Store_Timeout operation"
| "map_coordination_error (InvalidState operation message) = Store_InvalidState operation message"
| "map_coordination_error (StaleOwner operation) = Store_InvalidState operation ''unexpected stale-owner response''"

definition run_redis_operation ::
  "string \<Rightarrow> net \<Rightarrow> ('s, 'a) script \<Rightarrow> ('s, RunAggregationStoreError, 'a) action" where
  "run_redis_operation operation net m s =
     (case redis_invoke operation net m s of
        (Inl e, s') \<Rightarrow> (Inl (map_coordination_error e), s')
      | (Inr x, s') \<Rightarrow> (Inr x, s'))"

section \<open>Construction\<close>

record RedisRunAggregationStore =
  store_key_prefix :: string
  store_partial_timeout :: duration
  store_retention_ttl :: duration
  store_operation_timeout :: duration
  store_max_error_kinds :: usize
  store_max_active_runs :: usize
  store_max_scan_limit :: usize

definition DEFAULT_OPERATION_TIMEOUT :: duration where "DEFAULT_OPERATION_TIMEOUT = from_secs 2"
definition DEFAULT_MAX_ERROR_KINDS :: usize where "DEFAULT_MAX_ERROR_KINDS = 64"
definition DEFAULT_MAX_ACTIVE_RUNS :: usize where "DEFAULT_MAX_ACTIVE_RUNS = 10000"
definition DEFAULT_MAX_SCAN_LIMIT :: usize where "DEFAULT_MAX_SCAN_LIMIT = 1024"
definition MAX_IDENTITY_BYTES :: nat where "MAX_IDENTITY_BYTES = 1024"

definition checked_duration_ms :: "string \<Rightarrow> duration \<Rightarrow> (RunAggregationStoreError, int) result" where
  "checked_duration_ms operation d =
     (if d = 0 then Inl (Store_InvalidState operation ''duration must be at least one millisecond'')
      else if as_millis d < 2 ^ 63 then Inr (int (as_millis d))
      else Inl (Store_InvalidState operation ''duration exceeds the Redis integer range''))"

definition checked_lua_duration_ms :: "string \<Rightarrow> duration \<Rightarrow> (RunAggregationStoreError, int) result" where
  "checked_lua_duration_ms operation d =
     try_res (checked_duration_ms operation d) (\<lambda>millis.
     if millis > int (unat MAX_CONTRACT_EXACT_INTEGER)
     then Inl (Store_InvalidState operation (''duration exceeds Redis Lua'' @ [CHR 0x27] @ ''s exact integer range''))
     else Inr millis)"

definition new_store :: "string \<Rightarrow> duration \<Rightarrow> duration \<Rightarrow> (RunAggregationStoreError, RedisRunAggregationStore) result" where
  "new_store prefix_arg partial_timeout retention_ttl =
     (let op = ''aggregation_config'' in
      if trim prefix_arg = [] \<or> length prefix_arg > MAX_IDENTITY_BYTES \<or> CHR ''{'' \<in> set prefix_arg \<or> CHR ''}'' \<in> set prefix_arg
      then Inl (Store_InvalidState op
        ''Redis aggregation key prefix must be non-empty, bounded, and contain no hash-tag braces'')
      else
      try_res (checked_lua_duration_ms op partial_timeout) (\<lambda>_.
      try_res (checked_lua_duration_ms op retention_ttl) (\<lambda>_.
      if retention_ttl \<le> partial_timeout
      then Inl (Store_InvalidState op ''aggregation retention TTL must exceed the partial-run timeout'')
      else Inr \<lparr>store_key_prefix = prefix_arg, store_partial_timeout = partial_timeout,
                store_retention_ttl = retention_ttl, store_operation_timeout = DEFAULT_OPERATION_TIMEOUT,
                store_max_error_kinds = DEFAULT_MAX_ERROR_KINDS, store_max_active_runs = DEFAULT_MAX_ACTIVE_RUNS,
                store_max_scan_limit = DEFAULT_MAX_SCAN_LIMIT\<rparr>)))"

definition with_operation_timeout ::
  "duration \<Rightarrow> RedisRunAggregationStore \<Rightarrow> (RunAggregationStoreError, RedisRunAggregationStore) result" where
  "with_operation_timeout d st =
     try_res (checked_duration_ms ''aggregation_config'' d) (\<lambda>_. Inr (st\<lparr>store_operation_timeout := d\<rparr>))"

definition lua_limit :: "usize \<Rightarrow> bool" where
  "lua_limit n \<longleftrightarrow> \<not> (n = 0 \<or> unat n > unat MAX_CONTRACT_EXACT_INTEGER)"

definition with_max_error_kinds ::
  "usize \<Rightarrow> RedisRunAggregationStore \<Rightarrow> (RunAggregationStoreError, RedisRunAggregationStore) result" where
  "with_max_error_kinds n st =
     (if lua_limit n then Inr (st\<lparr>store_max_error_kinds := n\<rparr>)
      else Inl (Store_InvalidState ''aggregation_config''
        ''maximum error kinds must fit in Redis and be greater than zero''))"

definition with_max_active_runs ::
  "usize \<Rightarrow> RedisRunAggregationStore \<Rightarrow> (RunAggregationStoreError, RedisRunAggregationStore) result" where
  "with_max_active_runs n st =
     (if lua_limit n then Inr (st\<lparr>store_max_active_runs := n\<rparr>)
      else Inl (Store_InvalidState ''aggregation_config''
        ''maximum active runs must fit in Redis and be greater than zero''))"

definition with_max_scan_limit ::
  "usize \<Rightarrow> RedisRunAggregationStore \<Rightarrow> (RunAggregationStoreError, RedisRunAggregationStore) result" where
  "with_max_scan_limit n st =
     (if lua_limit n then Inr (st\<lparr>store_max_scan_limit := n\<rparr>)
      else Inl (Store_InvalidState ''aggregation_config''
        ''maximum aggregation scan limit must fit in Redis and be greater than zero''))"

section \<open>Keys and checks\<close>

definition key_for_run :: "RedisRunAggregationStore \<Rightarrow> string \<Rightarrow> string" where
  "key_for_run st run_id = store_key_prefix st @ '':{runs}:run:'' @ run_id"

definition deadline_key :: "RedisRunAggregationStore \<Rightarrow> string" where
  "deadline_key st = store_key_prefix st @ '':{runs}:deadlines''"

definition outbox_key :: "RedisRunAggregationStore \<Rightarrow> string" where
  "outbox_key st = store_key_prefix st @ '':{runs}:summary-outbox''"

definition active_key :: "RedisRunAggregationStore \<Rightarrow> string" where
  "active_key st = store_key_prefix st @ '':{runs}:active''"

definition validate_scan_limit :: "RedisRunAggregationStore \<Rightarrow> usize \<Rightarrow> (RunAggregationStoreError, int) result" where
  "validate_scan_limit st limit =
     (let op = ''aggregation_scan'' in
      if limit = 0 \<or> limit > store_max_scan_limit st
      then Inl (Store_InvalidState op (''scan limit must be within 1..='' @ word_str (store_max_scan_limit st)))
      else if unat limit < 2 ^ 63 then Inr (int (unat limit))
      else Inl (Store_InvalidState op ''scan limit exceeds Redis range''))"

definition exact_result_integer :: "string \<Rightarrow> u64 \<Rightarrow> (RunAggregationStoreError, unit) result" where
  "exact_result_integer f n =
     reject_if (n > MAX_CONTRACT_EXACT_INTEGER)
       (Store_Contract (InvalidResult (f @ '' exceeds Redis Lua'' @ [CHR 0x27] @ ''s exact integer range'')))"

definition validate_identity :: "string \<Rightarrow> string \<Rightarrow> (RunAggregationStoreError, unit) result" where
  "validate_identity f v =
     reject_if (trim v = [] \<or> length v > MAX_IDENTITY_BYTES)
       (Store_InvalidState ''aggregation_ingest''
         (f @ '' must be non-empty and at most '' @ nat_str MAX_IDENTITY_BYTES @ '' bytes''))"

record NormalizedResult =
  norm_histogram_bounds :: string
  norm_histogram_counts :: "u64 list"
  norm_error_counts :: "(string \<times> u64) list"

fun merge_errors ::
  "ErrorCount list \<Rightarrow> (string, u64) fmap \<Rightarrow> (RunAggregationStoreError, (string, u64) fmap) result" where
  "merge_errors [] errors = Inr errors"
| "merge_errors (e # es) errors =
     (if trim (error_kind e) = [] \<or> length (error_kind e) > MAX_CONTRACT_ERROR_KIND_BYTES
      then Inl (Store_InvalidState ''aggregation_ingest'' ''error kind must be non-empty and at most 256 bytes'')
      else
      try_res (exact_result_integer ''error count'' (error_count e)) (\<lambda>_.
      try_res (ok_or (checked_add (case fmlookup errors (error_kind e) of None \<Rightarrow> 0 | Some n \<Rightarrow> n) (error_count e))
        (Store_InvalidState ''aggregation_ingest'' ''error count overflowed u64'')) (\<lambda>n.
      try_res (exact_result_integer ''merged error count'' n) (\<lambda>_.
      merge_errors es (fmupd (error_kind e) n errors)))))"

definition normalize_result ::
  "RedisRunAggregationStore \<Rightarrow> ScenarioRunResult \<Rightarrow> (RunAggregationStoreError, NormalizedResult) result" where
  "normalize_result st r =
     (let op = ''aggregation_ingest'' in
      case validate_result r of
        Inl e \<Rightarrow> Inl (Store_Contract e)
      | Inr _ \<Rightarrow>
          try_res (check_all
            [reject_if (slice_total (res_slice r) > MAX_CONTRACT_SLICES)
               (Store_InvalidState op (''expected slices exceed the bounded maximum of '' @ word_str MAX_CONTRACT_SLICES)),
             reject_if (length (latency_histogram r) > MAX_CONTRACT_HISTOGRAM_BUCKETS)
               (Store_InvalidState op (''latency histogram exceeds the bounded maximum of ''
                 @ nat_str MAX_CONTRACT_HISTOGRAM_BUCKETS @ '' buckets'')),
             reject_if (length (error_breakdown r) > unat (store_max_error_kinds st))
               (ErrorKindCapacity (store_max_error_kinds st)),
             validate_identity ''scenario_id'' (res_scenario_id r), validate_identity ''run_id'' (res_run_id r),
             validate_identity ''execution_key'' (res_execution_key r),
             exact_result_integer ''total'' (res_total r), exact_result_integer ''success'' (res_success r),
             exact_result_integer ''failure'' (res_failure r),
             check_all (map (\<lambda>b. exact_result_integer ''latency bucket count'' (bucket_count b)) (latency_histogram r))])
          (\<lambda>_. try_res (merge_errors (error_breakdown r) fmempty) (\<lambda>errors.
          if fcard (fmdom errors) > unat (store_max_error_kinds st) then Inl (ErrorKindCapacity (store_max_error_kinds st))
          else Inr
            \<lparr>norm_histogram_bounds =
               join_with (CHR '','') (map (\<lambda>b. word_str (upper_bound_ms b)) (latency_histogram r)),
             norm_histogram_counts = map bucket_count (latency_histogram r),
             norm_error_counts = entries errors\<rparr>)))"

section \<open>Reading a run\<close>

fun chunk_pairs :: "string list \<Rightarrow> (string \<times> string) list" where
  "chunk_pairs (f # v # vs) = (f, v) # chunk_pairs vs"
| "chunk_pairs _ = []"

definition snapshot_map :: "snapshot \<Rightarrow> string \<Rightarrow> (RunAggregationStoreError, (string, string) fmap) result" where
  "snapshot_map vs op =
     (if odd (length vs) then Inl (Store_InvalidState op ''Redis aggregation snapshot has an odd field count'')
      else Inr (fmupds (chunk_pairs vs) fmempty))"

definition required :: "(string, string) fmap \<Rightarrow> string \<Rightarrow> string \<Rightarrow> (RunAggregationStoreError, string) result" where
  "required m f op = ok_or (fmlookup m f) (Store_InvalidState op (''aggregation field '' @ quoted f @ '' is missing''))"

definition parse_field ::
  "(string, string) fmap \<Rightarrow> string \<Rightarrow> string \<Rightarrow> (RunAggregationStoreError, 'a::len word) result" where
  "parse_field m f op =
     try_res (required m f op) (\<lambda>v.
     ok_or (parse_word v) (Store_InvalidState op (''aggregation field '' @ quoted f @ '' is invalid'')))"

definition run_progress :: "snapshot \<Rightarrow> string \<Rightarrow> (RunAggregationStoreError, u32 \<times> u32 \<times> string) result" where
  "run_progress vs op =
     try_res (snapshot_map vs op) (\<lambda>m.
     try_res (parse_field m ''received_slices'' op) (\<lambda>received.
     try_res (parse_field m ''expected_slices'' op) (\<lambda>expected.
     try_res (required m ''status'' op) (\<lambda>status.
     if status = ''open'' \<or> final_status status then Inr (received, expected, status)
     else Inl (Store_InvalidState op ''aggregation status is invalid'')))))"

definition status_of :: "string \<Rightarrow> ScenarioRunSummaryStatus option" where
  "status_of status =
     (if status = ''partial'' then Some Partial else if status = ''timed_out'' then Some TimedOut
      else if status = ''cancelled'' then Some SummaryCancelled else if status = ''complete'' then Some Complete
      else None)"

definition finalized_status_of ::
  "string \<Rightarrow> string \<Rightarrow> (RunAggregationStoreError, ScenarioRunSummaryStatus option) result" where
  "finalized_status_of status op =
     (if status = ''open'' then Inr None
      else case status_of status of
        None \<Rightarrow> Inl (Store_InvalidState op ''aggregation status is invalid'')
      | Some x \<Rightarrow> Inr (Some x))"

fun slice_indexes_of :: "string \<Rightarrow> u32 \<Rightarrow> string list \<Rightarrow> (RunAggregationStoreError, u32 fset) result" where
  "slice_indexes_of op expected [] = Inr {||}"
| "slice_indexes_of op expected (f # fs) =
     (case strip_prefix_str ''slice:'' f of
        None \<Rightarrow> slice_indexes_of op expected fs
      | Some t \<Rightarrow>
          try_res (ok_or (parse_word t) (Store_InvalidState op ''stored slice index is not an unsigned integer'')) (\<lambda>i.
          if i \<ge> expected then Inl (Store_InvalidState op ''stored slice index exceeds expected slice count'')
          else try_res (slice_indexes_of op expected fs) (\<lambda>is. Inr (finsert i is))))"

fun stored_histogram ::
  "(string, string) fmap \<Rightarrow> string \<Rightarrow> nat \<Rightarrow> u64 option \<Rightarrow> string list \<Rightarrow> (RunAggregationStoreError, LatencyBucket list) result"
where
  "stored_histogram m op i previous [] = Inr []"
| "stored_histogram m op i previous (t # ts) =
     try_res (ok_or (parse_word t) (Store_InvalidState op ''stored latency histogram bound is invalid'')) (\<lambda>bound.
     if (case previous of None \<Rightarrow> False | Some p \<Rightarrow> bound \<le> p)
     then Inl (Store_InvalidState op ''stored latency histogram bounds are not strictly increasing'')
     else
     try_res (ok_or (fmlookup m (''latency:'' @ nat_str i)) (Store_InvalidState op ''latency bucket count is missing'')) (\<lambda>v.
     try_res (ok_or (parse_word v) (Store_InvalidState op ''latency bucket count is invalid'')) (\<lambda>n.
     try_res (stored_histogram m op (i + 1) (Some bound) ts) (\<lambda>bs.
     Inr (\<lparr>upper_bound_ms = bound, bucket_count = n\<rparr> # bs)))))"

fun stored_errors :: "string \<Rightarrow> (string \<times> string) list \<Rightarrow> (RunAggregationStoreError, (string, u64) fmap) result" where
  "stored_errors op [] = Inr fmempty"
| "stored_errors op ((f, v) # fvs) =
     (case strip_prefix_str ''error:'' f of
        None \<Rightarrow> stored_errors op fvs
      | Some kind \<Rightarrow>
          try_res (ok_or (parse_word v) (Store_InvalidState op ''stored error count is invalid'')) (\<lambda>n.
          try_res (stored_errors op fvs) (\<lambda>errors. Inr (fmupd kind n errors))))"

fun checked_total :: "u64 \<Rightarrow> u64 list \<Rightarrow> u64 option" where
  "checked_total acc [] = Some acc"
| "checked_total acc (n # ns) = Option.bind (checked_add acc n) (\<lambda>t. checked_total t ns)"

definition check_counts ::
  "string \<Rightarrow> ScenarioRunSummaryStatus \<Rightarrow> u32 \<Rightarrow> u32 \<Rightarrow> (RunAggregationStoreError, unit) result" where
  "check_counts op status expected received =
     check_all
       [reject_if (received > expected) (Store_InvalidState op ''received slice count exceeds expected slice count''),
        reject_if (status = Complete \<and> received \<noteq> expected)
          (Store_InvalidState op ''complete aggregation does not contain every expected slice''),
        reject_if (status \<noteq> Complete \<and> received = expected)
          (Store_InvalidState op ''incomplete aggregation status contains every expected slice'')]"

definition summary_from_snapshot :: "snapshot \<Rightarrow> string \<Rightarrow> (RunAggregationStoreError, ScenarioRunSummary) result" where
  "summary_from_snapshot vs op =
     try_res (snapshot_map vs op) (\<lambda>m.
     try_res (required m ''status'' op) (\<lambda>st.
     try_res (ok_or (status_of st) (Store_InvalidState op (''cannot build a final summary from status '' @ quoted st))) (\<lambda>status.
     try_res (parse_field m ''expected_slices'' op) (\<lambda>expected.
     try_res (parse_field m ''received_slices'' op) (\<lambda>received.
     try_res (check_counts op status expected received) (\<lambda>_.
     try_res (slice_indexes_of op expected (map fst (entries m))) (\<lambda>is.
     if fcard is \<noteq> unat received
     then Inl (Store_InvalidState op ''stored received-slice count does not match slice identities'')
     else
     try_res (required m ''histogram_bounds'' op) (\<lambda>bounds.
     try_res (if bounds = [] then Inr [] else stored_histogram m op 0 None (split_on (CHR '','') bounds)) (\<lambda>histogram.
     try_res (stored_errors op (entries m)) (\<lambda>errors.
     try_res (parse_field m ''error_kind_count'' op) (\<lambda>kinds :: usize.
     if fcard (fmdom errors) \<noteq> unat kinds
     then Inl (Store_InvalidState op ''stored error-kind count does not match error fields'')
     else
     try_res (parse_field m ''total'' op) (\<lambda>n.
     try_res (parse_field m ''success'' op) (\<lambda>ok.
     try_res (parse_field m ''failure'' op) (\<lambda>bad.
     if checked_add ok bad \<noteq> Some n
     then Inl (Store_InvalidState op ''stored success and failure counts do not equal total'')
     else
     try_res (ok_or (checked_total 0 (map bucket_count histogram))
       (Store_InvalidState op ''stored latency histogram count overflowed'')) (\<lambda>observed.
     if histogram \<noteq> [] \<and> observed \<noteq> n
     then Inl (Store_InvalidState op ''stored latency histogram count does not equal total'')
     else
     try_res (parse_field m ''schema_version'' op) (\<lambda>schema.
     try_res (required m ''scenario_id'' op) (\<lambda>scenario.
     try_res (required m ''run_id'' op) (\<lambda>run.
     try_res (parse_field m ''first_result_at'' op) (\<lambda>first_at.
     try_res (parse_field m ''finalized_at'' op) (\<lambda>finalized_at.
     Inr \<lparr>sum_schema_version = schema, sum_scenario_id = scenario, sum_run_id = run, sum_status = status,
          sum_expected_slices = expected, sum_received_slices = received,
          sum_missing_slices = filter (\<lambda>i. i |\<notin>| is) (map of_nat [0..<unat expected]),
          sum_total = n, sum_success = ok, sum_failure = bad,
          sum_p50_ms = histogram_quantile histogram (f64_round (50 / 100)),
          sum_p95_ms = histogram_quantile histogram (f64_round (95 / 100)),
          sum_p99_ms = histogram_quantile histogram (f64_round (99 / 100)),
          sum_latency_histogram = histogram,
          sum_error_breakdown = map (\<lambda>(kind, c). \<lparr>error_kind = kind, error_count = c\<rparr>) (entries errors),
          first_result_at_unix_ms = first_at, finalized_at_unix_ms = finalized_at\<rparr>))))))))))))))))))))"

fun status_label :: "ScenarioRunSummaryStatus \<Rightarrow> string" where
  "status_label Partial = ''partial''"
| "status_label Complete = ''complete''"
| "status_label TimedOut = ''timed-out''"
| "status_label SummaryCancelled = ''cancelled''"

definition durable_summary_from_snapshot ::
  "snapshot \<Rightarrow> string \<Rightarrow> (RunAggregationStoreError, DurableRunSummary option) result" where
  "durable_summary_from_snapshot vs op =
     (if vs = [] then Inr None
      else
      try_res (snapshot_map vs op) (\<lambda>m.
      try_res (required m ''status'' op) (\<lambda>status.
      if status = ''open'' then Inr None
      else if \<not> final_status status then Inl (Store_InvalidState op ''aggregation status is invalid'')
      else
      try_res (parse_field m ''summary_revision'' op) (\<lambda>revision :: u64.
      try_res (parse_field m ''summary_pending_revision'' op) (\<lambda>pending :: u64.
      try_res (parse_field m ''summary_ack_revision'' op) (\<lambda>acknowledged :: u64.
      if revision = 0 \<or> pending > revision \<or> acknowledged > revision
      then Inl (Store_InvalidState op ''stored summary publication revisions are inconsistent'')
      else
      try_res (summary_from_snapshot vs op) (\<lambda>s.
      Inr (Some \<lparr>dur_revision = revision,
             dur_event_id = sum_run_id s @ '':summary:r'' @ word_str revision @ '':'' @ status_label (sum_status s),
             dur_pending_publication = (pending > acknowledged), dur_summary = s\<rparr>))))))))"

section \<open>Operations\<close>

definition is_permanent_result_conflict :: "string \<Rightarrow> bool" where
  "is_permanent_result_conflict message \<longleftrightarrow> message \<in>
     {''scenario, schema, expected slices, or histogram bounds changed'',
      ''slice index already belongs to a different execution identity'',
      ''execution identity already belongs to a different slice'',
      ''terminal run cannot accept an unrecorded slice''}"

definition unknown_store_code :: "string \<Rightarrow> int \<Rightarrow> RunAggregationStoreError" where
  "unknown_store_code op code = Store_InvalidState op (''unknown Redis response code '' @ int_str code)"

definition ingest_response ::
  "RedisRunAggregationStore \<Rightarrow> int \<times> string \<times> snapshot \<Rightarrow> (RunAggregationStoreError, RunAggregationUpdate) result" where
  "ingest_response st reply = (case reply of (code, message, vs) \<Rightarrow>
     let op = ''aggregation_ingest'' in
     if code = 1 then try_res (run_progress vs op) (\<lambda>(received, expected, _). Inr (Accepted received expected))
     else if code = 2 then
       try_res (run_progress vs op) (\<lambda>(received, expected, status).
       try_res (finalized_status_of status op) (\<lambda>final. Inr (Duplicate received expected final)))
     else if code = 3 then try_res (summary_from_snapshot vs op) (\<lambda>s. Inr (Completed s))
     else if code = 4 then try_res (summary_from_snapshot vs op) (\<lambda>s. Inr (LateCompleted s))
     else if code = 5 then
       (if is_permanent_result_conflict message then Inl (InconsistentResult message)
        else Inl (Store_InvalidState op message))
     else if code = 6 then Inl (ErrorKindCapacity (store_max_error_kinds st))
     else if code = 7 then try_res (run_progress vs op) (\<lambda>(received, expected, _). Inr (LateAccepted received expected))
     else if code = 8 then Inl (ActiveRunCapacity (store_max_active_runs st))
     else if code = 9 then Inl (Store_Contract (InvalidResult message))
     else Inl (unknown_store_code op code))"

definition ingest_args_of ::
  "RedisRunAggregationStore \<Rightarrow> ScenarioRunResult \<Rightarrow> NormalizedResult \<Rightarrow> int \<Rightarrow> int \<Rightarrow> ingest_args" where
  "ingest_args_of st r norm_r retention_ms timeout_ms =
     \<lparr>arg_scenario_id = res_scenario_id r, arg_run_id = res_run_id r, arg_schema_version = word_str (res_schema_version r),
      arg_expected_slices = word_str (slice_total (res_slice r)), arg_slice_index = word_str (index (res_slice r)),
      arg_execution_key = res_execution_key r, arg_histogram_bounds = norm_histogram_bounds norm_r,
      arg_total = word_str (res_total r), arg_success = word_str (res_success r), arg_failure = word_str (res_failure r),
      arg_retention_ms = int_str retention_ms, arg_max_error_kinds = word_str (store_max_error_kinds st),
      arg_max_active_runs = word_str (store_max_active_runs st), arg_partial_timeout_ms = int_str timeout_ms,
      arg_buckets = map word_str (norm_histogram_counts norm_r),
      arg_errors = map (\<lambda>(kind, n). (kind, word_str n)) (norm_error_counts norm_r)\<rparr>"

definition store_ingest ::
  "'s redis \<Rightarrow> RedisRunAggregationStore \<Rightarrow> ScenarioRunResult \<Rightarrow> net \<Rightarrow> ('s, RunAggregationStoreError, RunAggregationUpdate) action"
where
  "store_ingest R st r net =
     (let op = ''aggregation_ingest'' in
     sbind (slift (normalize_result st r)) (\<lambda>norm_r.
     sbind (slift (checked_duration_ms op (store_retention_ttl st))) (\<lambda>retention_ms.
     sbind (slift (checked_duration_ms op (store_partial_timeout st))) (\<lambda>timeout_ms.
     sbind (run_redis_operation op net
       (ingest_script R (key_for_run st (res_run_id r)) (deadline_key st) (outbox_key st) (active_key st)
          (ingest_args_of st r norm_r retention_ms timeout_ms)))
       (\<lambda>reply. slift (ingest_response st reply))))))"

definition store_due_runs ::
  "'s redis \<Rightarrow> RedisRunAggregationStore \<Rightarrow> usize \<Rightarrow> net \<Rightarrow> ('s, RunAggregationStoreError, string list) action" where
  "store_due_runs R st limit net =
     sbind (slift (validate_scan_limit st limit)) (\<lambda>n.
     run_redis_operation ''aggregation_due_runs'' net (due_runs_script R (deadline_key st) (int_str n)))"

definition expiry_response :: "int \<times> string \<times> snapshot \<Rightarrow> (RunAggregationStoreError, RunExpiryOutcome) result" where
  "expiry_response reply = (case reply of (code, message, vs) \<Rightarrow>
     let op = ''aggregation_mark_expired'' in
     if code = 0 then Inr Expiry_Missing
     else if code = 1 then
       try_res (ok_or (parse_word message) (Store_InvalidState op ''Redis returned an invalid expiration delay''))
         (\<lambda>ms :: u64. Inr (NotExpired (from_millis (unat ms))))
     else if code = 2 then try_res (summary_from_snapshot vs op) (\<lambda>s. Inr (MarkedTimedOut s))
     else if code = 3 then try_res (summary_from_snapshot vs op) (\<lambda>s. Inr (Expiry_AlreadyFinalized s))
     else if code = 4 then Inl (Store_InvalidState op message)
     else Inl (unknown_store_code op code))"

definition store_mark_expired ::
  "'s redis \<Rightarrow> RedisRunAggregationStore \<Rightarrow> string \<Rightarrow> net \<Rightarrow> ('s, RunAggregationStoreError, RunExpiryOutcome) action" where
  "store_mark_expired R st run_id net =
     (let op = ''aggregation_mark_expired'' in
     sbind (slift (validate_identity ''run_id'' run_id)) (\<lambda>_.
     sbind (slift (checked_duration_ms op (store_retention_ttl st))) (\<lambda>retention_ms.
     sbind (run_redis_operation op net
       (mark_expired_script R (key_for_run st run_id) (deadline_key st) (outbox_key st) (active_key st)
          (int_str retention_ms) run_id))
       (\<lambda>reply. slift (expiry_response reply)))))"

definition finalization_response ::
  "int \<times> string \<times> snapshot \<Rightarrow> (RunAggregationStoreError, RunFinalizationOutcome) result" where
  "finalization_response reply = (case reply of (code, message, vs) \<Rightarrow>
     let op = ''aggregation_finalize_run'' in
     if code = 0 then Inr Finalization_Missing
     else if code = 1 then try_res (summary_from_snapshot vs op) (\<lambda>s. Inr (Finalization_Finalized s))
     else if code = 2 then try_res (summary_from_snapshot vs op) (\<lambda>s. Inr (Finalization_AlreadyFinalized s))
     else if code = 3 then Inl (Store_InvalidState op message)
     else Inl (unknown_store_code op code))"

definition requested_label :: "ScenarioRunSummaryStatus \<Rightarrow> (RunAggregationStoreError, string) result" where
  "requested_label status = (case status of
     Partial \<Rightarrow> Inr ''partial''
   | SummaryCancelled \<Rightarrow> Inr ''cancelled''
   | _ \<Rightarrow> Inl (Store_InvalidState ''aggregation_finalize_run''
       ''explicit finalization only accepts Partial or Cancelled''))"

definition store_finalize_run ::
  "'s redis \<Rightarrow> RedisRunAggregationStore \<Rightarrow> string \<Rightarrow> ScenarioRunSummaryStatus \<Rightarrow> net
     \<Rightarrow> ('s, RunAggregationStoreError, RunFinalizationOutcome) action" where
  "store_finalize_run R st run_id status net =
     (let op = ''aggregation_finalize_run'' in
     sbind (slift (validate_identity ''run_id'' run_id)) (\<lambda>_.
     sbind (slift (requested_label status)) (\<lambda>label.
     sbind (slift (checked_duration_ms op (store_retention_ttl st))) (\<lambda>retention_ms.
     sbind (run_redis_operation op net
       (finalize_run_script R (key_for_run st run_id) (deadline_key st) (outbox_key st) (active_key st)
          label (int_str retention_ms) run_id))
       (\<lambda>reply. slift (finalization_response reply))))))"

definition load_snapshot ::
  "'s redis \<Rightarrow> RedisRunAggregationStore \<Rightarrow> string \<Rightarrow> string \<Rightarrow> net \<Rightarrow> ('s, RunAggregationStoreError, snapshot) action" where
  "load_snapshot R st run_id op net =
     run_redis_operation op net (sbind (hgetall R (key_for_run st run_id)) (\<lambda>fvs. sreturn (flat_entries fvs)))"

definition store_load_summary ::
  "'s redis \<Rightarrow> RedisRunAggregationStore \<Rightarrow> string \<Rightarrow> net \<Rightarrow> ('s, RunAggregationStoreError, DurableRunSummary option) action"
where
  "store_load_summary R st run_id net =
     (let op = ''aggregation_load_summary'' in
     sbind (slift (validate_identity ''run_id'' run_id)) (\<lambda>_.
     sbind (load_snapshot R st run_id op net) (\<lambda>vs. slift (durable_summary_from_snapshot vs op))))"

definition clean_outbox_if_settled ::
  "'s redis \<Rightarrow> RedisRunAggregationStore \<Rightarrow> string \<Rightarrow> net \<Rightarrow> ('s, RunAggregationStoreError, unit) action" where
  "clean_outbox_if_settled R st run_id net =
     sbind (run_redis_operation ''aggregation_outbox_cleanup'' net
       (clean_outbox_script R (key_for_run st run_id) (outbox_key st) run_id)) (\<lambda>_. sreturn ())"

text \<open>The cleanup tasks run side by side and the first error is returned.  A task that is aborted
  then is a request that fails, so the tasks are taken in order with any deliveries.\<close>

fun clean_all ::
  "'s redis \<Rightarrow> RedisRunAggregationStore \<Rightarrow> (string \<Rightarrow> net) \<Rightarrow> string list \<Rightarrow> ('s, RunAggregationStoreError, unit) action" where
  "clean_all R st nets [] s = (Inr (), s)"
| "clean_all R st nets (run_id # run_ids) s =
     (case clean_outbox_if_settled R st run_id (nets run_id) s of
        (Inr _, s') \<Rightarrow> clean_all R st nets run_ids s'
      | (Inl e, s') \<Rightarrow> (Inl e, snd (clean_all R st nets run_ids s')))"

fun split_pending ::
  "string \<Rightarrow> (string \<times> snapshot) list \<Rightarrow> (RunAggregationStoreError, DurableRunSummary list \<times> string list) result" where
  "split_pending op [] = Inr ([], [])"
| "split_pending op ((run_id, vs) # rest) =
     try_res (durable_summary_from_snapshot vs op) (\<lambda>d.
     try_res (split_pending op rest) (\<lambda>(pending, stale).
     case d of
       Some s \<Rightarrow> if dur_pending_publication s then Inr (s # pending, stale) else Inr (pending, run_id # stale)
     | None \<Rightarrow> Inr (pending, run_id # stale)))"

record scan_net =
  scan_connect :: delivery
  scan_range :: delivery
  scan_batch :: delivery
  scan_clean :: "string \<Rightarrow> net"

definition snapshot_batch :: "'s redis \<Rightarrow> RedisRunAggregationStore \<Rightarrow> string list \<Rightarrow> ('s, snapshot list) script" where
  "snapshot_batch R st run_ids =
     sfold (\<lambda>run_id vss. sbind (hgetall R (key_for_run st run_id)) (\<lambda>fvs. sreturn (vss @ [flat_entries fvs]))) run_ids []"

definition store_pending_summaries ::
  "'s redis \<Rightarrow> RedisRunAggregationStore \<Rightarrow> usize \<Rightarrow> scan_net \<Rightarrow> ('s, RunAggregationStoreError, DurableRunSummary list) action"
where
  "store_pending_summaries R st limit net =
     (let op = ''aggregation_pending_summaries'' in
     sbind (slift (validate_scan_limit st limit)) (\<lambda>n.
     sbind (run_redis_operation op \<lparr>connecting = scan_connect net, invoking = scan_range net\<rparr>
       (zrange R (outbox_key st) (nat n))) (\<lambda>run_ids.
     if run_ids = [] then sreturn []
     else
     sbind (run_redis_operation op \<lparr>connecting = Delivered, invoking = scan_batch net\<rparr> (snapshot_batch R st run_ids))
       (\<lambda>vss.
     if length vss \<noteq> length run_ids
     then serror (Store_InvalidState op ''Redis aggregation snapshot batch length changed'')
     else
     sbind (slift (split_pending op (zip run_ids vss))) (\<lambda>(pending, stale).
     sbind (clean_all R st (scan_clean net) stale) (\<lambda>_. sreturn pending))))))"

definition acknowledgement_response ::
  "int \<times> int \<times> string \<Rightarrow> (RunAggregationStoreError, SummaryAcknowledgement) result" where
  "acknowledgement_response reply = (case reply of (code, current, message) \<Rightarrow>
     let op = ''aggregation_acknowledge_summary'' in
     if code = 0 then Inr Acknowledgement_Missing
     else if code = 1 then Inr Acknowledged
     else if code = 2 then Inr AlreadyAcknowledged
     else if code = 3 then
       (if current < 0 then Inl (Store_InvalidState op ''stored summary revision is negative'')
        else Inr (Stale (of_int current)))
     else if code = 4 then Inl (Store_InvalidState op message)
     else Inl (unknown_store_code op code))"

definition store_acknowledge_summary ::
  "'s redis \<Rightarrow> RedisRunAggregationStore \<Rightarrow> string \<Rightarrow> u64 \<Rightarrow> net \<Rightarrow> ('s, RunAggregationStoreError, SummaryAcknowledgement) action"
where
  "store_acknowledge_summary R st run_id revision net =
     (let op = ''aggregation_acknowledge_summary'' in
     sbind (slift (validate_identity ''run_id'' run_id)) (\<lambda>_.
     if revision = 0 \<or> unat revision \<ge> 2 ^ 63
     then serror (Store_InvalidState op ''summary revision must be within 1..=i64::MAX'')
     else
     sbind (slift (checked_duration_ms op (store_retention_ttl st))) (\<lambda>retention_ms.
     sbind (run_redis_operation op net
       (acknowledge_summary_script R (key_for_run st run_id) (outbox_key st) (active_key st)
          (word_str revision) run_id (int_str retention_ms)))
       (\<lambda>reply. slift (acknowledgement_response reply)))))"

end
