(* ===== verification/Outbox_Invariant.thy ===== *)
theory Outbox_Invariant
  imports Script_Triples Aggregation_Store
begin

text \<open>
  The invariant of the aggregation keys, and that every script keeps it: a summary revision that a
  script has enqueued and that is not acknowledged is in the outbox, in a run hash without expiry.  The
  proof runs along the structure of the scripts; the runs of the keyspace other than the one a script
  works on are framed by \<open>inv_update\<close>.
\<close>

lemma reads_parts [reads_rules]:
  "reads (hget_number kv_redis k f d)" "reads (hget_optional kv_redis k f d)" "reads (script_now_ms kv_redis)"
  "reads (snapshot_reply kv_redis k c msg)"
  unfolding hget_number_def hget_optional_def script_now_ms_def snapshot_reply_def kv_redis_simps
  by (intro reads_rules)+

lemma reads_checks [reads_rules]:
  "reads (metadata_changed kv_redis k a e b)" "reads (stored_counters kv_redis k n)"
  unfolding metadata_changed_def stored_counters_def kv_redis_simps
  by (intro reads_rules)+

lemma reads_additional_kinds [reads_rules]: "reads (additional_kinds kv_redis k es n)"
  by (induction es arbitrary: n) (auto intro!: reads_rules)

lemma reads_sums_exact [reads_rules]: "reads (sums_exact kv_redis k fs)"
proof (induction fs)
  case Nil
  show ?case unfolding sums_exact.simps by (rule reads_basic)
next
  case (Cons fi fs)
  obtain f i where fi: "fi = (f, i)" by force
  show ?case
    unfolding fi sums_exact.simps
    by (rule reads_bind, rule reads_parts, simp only: prod.case, intro reads_cases reads_basic Cons)
qed

section \<open>The invariant\<close>

text \<open>The publication counters of a run: its latest summary revision, which is the one that waits, and
  the acknowledged revision.\<close>

definition counters :: "(string, string) fmap \<Rightarrow> int \<Rightarrow> int \<Rightarrow> bool" where
  "counters h r a \<longleftrightarrow> fmlookup h ''summary_revision'' = Some (int_str r) \<and>
     fmlookup h ''summary_pending_revision'' = Some (int_str r) \<and> fmlookup h ''summary_ack_revision'' = Some (int_str a)"

definition counter_fields :: "string set" where
  "counter_fields = {''summary_revision'', ''summary_pending_revision'', ''summary_ack_revision''}"

definition has_counters :: "RedisRunAggregationStore \<Rightarrow> keyspace \<Rightarrow> string \<Rightarrow> int \<Rightarrow> int \<Rightarrow> bool" where
  "has_counters st ks run r a \<longleftrightarrow> (\<exists>h. kv_live ks (key_for_run st run) = Some (RHash h) \<and> counters h r a)"

definition queued :: "RedisRunAggregationStore \<Rightarrow> keyspace \<Rightarrow> string \<Rightarrow> bool" where
  "queued st ks run \<longleftrightarrow> (\<exists>z. kv_zset ks (outbox_key st) = Some z \<and> fmlookup z run \<noteq> None)"

definition zset_keys :: "RedisRunAggregationStore \<Rightarrow> string set" where
  "zset_keys st = {deadline_key st, outbox_key st, active_key st}"

text \<open>A run is absent, or a hash whose unacknowledged summary is queued and does not expire; the runs
  in \<open>X\<close> are in the middle of a script and exempt.  \<open>n\<close> bounds the revisions.\<close>

definition run_sound :: "RedisRunAggregationStore \<Rightarrow> nat \<Rightarrow> string set \<Rightarrow> keyspace \<Rightarrow> string \<Rightarrow> bool" where
  "run_sound st n X ks run \<longleftrightarrow> kv_live ks (key_for_run st run) = None \<or>
     (\<exists>r a. has_counters st ks run r a \<and> 0 \<le> a \<and> a \<le> r \<and> r \<le> int n \<and>
        (a < r \<longrightarrow> run \<notin> X \<longrightarrow> kv_expiry ks (key_for_run st run) = None \<and> queued st ks run))"

definition waits :: "RedisRunAggregationStore \<Rightarrow> keyspace \<Rightarrow> string \<Rightarrow> int \<Rightarrow> bool" where
  "waits st ks run p \<longleftrightarrow> (\<exists>r a. has_counters st ks run r a \<and> a < p \<and> p \<le> r)"

definition outbox_inv ::
  "RedisRunAggregationStore \<Rightarrow> nat \<Rightarrow> (string \<times> int) set \<Rightarrow> string set \<Rightarrow> keyspace \<Rightarrow> bool" where
  "outbox_inv st n L X ks \<longleftrightarrow>
     (\<forall>k \<in> zset_keys st. kv_zset ks k \<noteq> None \<and> kv_expiry ks k = None) \<and>
     (\<forall>run. run_sound st n X ks run) \<and> (\<forall>(run, p) \<in> L. waits st ks run p)"

lemma key_simps [simp]:
  "key_for_run st x = key_for_run st y \<longleftrightarrow> x = y"
  "key_for_run st x \<noteq> deadline_key st" "deadline_key st \<noteq> key_for_run st x"
  "key_for_run st x \<noteq> outbox_key st" "outbox_key st \<noteq> key_for_run st x"
  "key_for_run st x \<noteq> active_key st" "active_key st \<noteq> key_for_run st x"
  "deadline_key st \<noteq> outbox_key st" "outbox_key st \<noteq> deadline_key st"
  "deadline_key st \<noteq> active_key st" "active_key st \<noteq> deadline_key st"
  "outbox_key st \<noteq> active_key st" "active_key st \<noteq> outbox_key st"
  by (simp_all add: key_for_run_def deadline_key_def outbox_key_def active_key_def)

lemma zset_keys_simps [simp]:
  "deadline_key st \<in> zset_keys st" "outbox_key st \<in> zset_keys st" "active_key st \<in> zset_keys st"
  "key_for_run st x \<notin> zset_keys st" "k \<in> zset_keys st \<Longrightarrow> key_for_run st x \<noteq> k" "k \<in> zset_keys st \<Longrightarrow> k \<noteq> key_for_run st x"
  by (auto simp: zset_keys_def)

lemma has_counters_unique: "has_counters st ks x r a \<Longrightarrow> has_counters st ks x r' a' \<Longrightarrow> r' = r \<and> a' = a"
  by (auto simp: has_counters_def counters_def int_str_inject)

lemma has_counters_cong:
  "kv_live ks' (key_for_run st x) = kv_live ks (key_for_run st x) \<Longrightarrow> has_counters st ks' x r a = has_counters st ks x r a"
  by (simp add: has_counters_def)

lemma entry_live_expiry:
  "kv_entry ks' k = kv_entry ks k \<Longrightarrow> kv_live ks' k = kv_live ks k \<and> kv_expiry ks' k = kv_expiry ks k"
  by (simp add: kv_live_def kv_expiry_def)

lemma inv_zset:
  assumes "outbox_inv st n L X ks" "k \<in> zset_keys st"
  obtains z where "kv_zset ks k = Some z" "kv_expiry ks k = None"
  using assms by (auto simp: outbox_inv_def)

lemma inv_run: "outbox_inv st n L X ks \<Longrightarrow> run_sound st n X ks x"
  by (simp add: outbox_inv_def)

lemma inv_waits: "outbox_inv st n L X ks \<Longrightarrow> (x, p) \<in> L \<Longrightarrow> waits st ks x p"
  by (auto simp: outbox_inv_def)

lemma run_soundI:
  "has_counters st ks x r a \<Longrightarrow> 0 \<le> a \<Longrightarrow> a \<le> r \<Longrightarrow> r \<le> int n \<Longrightarrow>
   (a < r \<Longrightarrow> x \<notin> X \<Longrightarrow> kv_expiry ks (key_for_run st x) = None \<and> queued st ks x) \<Longrightarrow> run_sound st n X ks x"
  unfolding run_sound_def by blast

lemma run_soundE:
  assumes "run_sound st n X ks x" "kv_live ks (key_for_run st x) \<noteq> None"
  obtains r a where "has_counters st ks x r a" "0 \<le> a" "a \<le> r" "r \<le> int n"
    "a < r \<Longrightarrow> x \<notin> X \<Longrightarrow> kv_expiry ks (key_for_run st x) = None" "a < r \<Longrightarrow> x \<notin> X \<Longrightarrow> queued st ks x"
  using assms unfolding run_sound_def by blast

lemma run_sound_cong:
  assumes "run_sound st n X ks y" "kv_entry ks' (key_for_run st y) = kv_entry ks (key_for_run st y)"
    and "queued st ks y \<Longrightarrow> queued st ks' y" "y \<in> X \<Longrightarrow> y \<in> X'" "n \<le> n'"
  shows "run_sound st n' X' ks' y"
proof (cases "kv_live ks (key_for_run st y) = None")
  case True
  with entry_live_expiry [OF assms(2)] show ?thesis by (simp add: run_sound_def)
next
  case False
  then obtain r a where ra: "has_counters st ks y r a" "0 \<le> a" "a \<le> r" "r \<le> int n"
    "a < r \<Longrightarrow> y \<notin> X \<Longrightarrow> kv_expiry ks (key_for_run st y) = None" "a < r \<Longrightarrow> y \<notin> X \<Longrightarrow> queued st ks y"
    using run_soundE [OF assms(1)] by metis
  have "has_counters st ks' y r a" "kv_expiry ks' (key_for_run st y) = kv_expiry ks (key_for_run st y)"
    using ra(1) entry_live_expiry [OF assms(2)] by (simp_all add: has_counters_def)
  with ra assms(3-5) show ?thesis by (intro run_soundI [of _ _ _ r a]) auto
qed

text \<open>A change that concerns one run.\<close>

lemma inv_update:
  assumes inv: "outbox_inv st n L X ks" and n: "n \<le> n'"
    and others: "\<And>y. y \<noteq> x \<Longrightarrow> kv_entry ks' (key_for_run st y) = kv_entry ks (key_for_run st y)"
    and zsets: "\<And>k. k \<in> zset_keys st \<Longrightarrow> kv_zset ks' k \<noteq> None \<and> kv_expiry ks' k = None"
    and queue: "\<And>y. y \<noteq> x \<Longrightarrow> queued st ks y \<Longrightarrow> queued st ks' y"
    and exempt: "X \<subseteq> insert x X'"
    and sound: "run_sound st n' X' ks' x"
    and waiting: "\<And>p. (x, p) \<in> L \<Longrightarrow> waits st ks' x p"
  shows "outbox_inv st n' L X' ks'"
  unfolding outbox_inv_def
proof (intro conjI ballI allI)
  fix y show "run_sound st n' X' ks' y"
  proof (cases "y = x")
    case False
    with run_sound_cong [OF inv_run [OF inv] others [OF False] queue [OF False] _ n] exempt show ?thesis by blast
  qed (use sound in simp)
next
  fix yp assume "yp \<in> L"
  then obtain y p where yp: "yp = (y, p)" "(y, p) \<in> L" by (cases yp) auto
  have "waits st ks' y p"
  proof (cases "y = x")
    case False
    with inv_waits [OF inv yp(2)] entry_live_expiry [OF others [OF False]] show ?thesis
      by (auto simp: waits_def has_counters_def)
  qed (use waiting yp in simp)
  with yp show "case yp of (y, p) \<Rightarrow> waits st ks' y p" by simp
qed (use zsets in simp_all)

section \<open>Writes\<close>

text \<open>The summary of a quiescent run does not wait; its place in the outbox and its hash may go.\<close>

definition quiescent :: "RedisRunAggregationStore \<Rightarrow> keyspace \<Rightarrow> string \<Rightarrow> bool" where
  "quiescent st ks x \<longleftrightarrow> (\<forall>r a. has_counters st ks x r a \<longrightarrow> r \<le> a)"

lemma quiescentD: "quiescent st ks x \<Longrightarrow> has_counters st ks x r a \<Longrightarrow> r \<le> a"
  by (simp add: quiescent_def)

lemma quiescent_not_waiting:
  assumes "outbox_inv st n L X ks" "quiescent st ks x"
  shows "(x, p) \<notin> L"
proof
  assume "(x, p) \<in> L"
  from inv_waits [OF assms(1) this] obtain r a where "has_counters st ks x r a" "a < p" "p \<le> r"
    unfolding waits_def by blast
  with quiescentD [OF assms(2)] show False by fastforce
qed

lemma inv_put_zset:
  assumes inv: "outbox_inv st n L X ks" and k: "k \<in> zset_keys st"
    and queue: "\<And>y. k = outbox_key st \<Longrightarrow> queued st ks y \<Longrightarrow> \<not> quiescent st ks y \<Longrightarrow> fmlookup z y \<noteq> None"
  shows "outbox_inv st n L X (kv_put_zset k z ks)"
  unfolding outbox_inv_def
proof (intro conjI ballI allI)
  let ?ks = "kv_put_zset k z ks"
  have entry: "kv_entry ?ks (key_for_run st y) = kv_entry ks (key_for_run st y)" for y
    using k by auto
  note live = entry_live_expiry [OF entry]
  fix y
  show "run_sound st n X ?ks y"
  proof (cases "quiescent st ks y")
    case True
    have hc: "has_counters st ?ks y r a = has_counters st ks y r a" for r a
      using live by (intro has_counters_cong) blast
    show ?thesis
    proof (cases "kv_live ks (key_for_run st y) = None")
      case False
      with run_soundE [OF inv_run [OF inv]] obtain r a where
        "has_counters st ks y r a" "0 \<le> a" "a \<le> r" "r \<le> int n" by metis
      moreover from this True have "r \<le> a" by (blast dest: quiescentD)
      ultimately show ?thesis by (intro run_soundI [of _ _ _ r a]) (simp_all add: hc)
    qed (use live [of y] in \<open>simp add: run_sound_def\<close>)
  next
    case False
    have "queued st ks y \<Longrightarrow> queued st ?ks y"
      using queue [of y] False by (cases "k = outbox_key st") (auto simp: queued_def)
    with run_sound_cong [OF inv_run [OF inv] entry] show ?thesis by blast
  qed
next
  fix yp assume "yp \<in> L"
  with inv k show "case yp of (y, p) \<Rightarrow> waits st (kv_put_zset k z ks) y p"
    by (cases yp) (auto simp: waits_def has_counters_def dest!: inv_waits)
qed (use inv k in \<open>auto simp: outbox_inv_def\<close>)

lemma queued_put_hash [simp]: "queued st (kv_put_hash (key_for_run st x) h ks) y = queued st ks y"
  by (simp add: queued_def)

lemma queued_set_expiry [simp]: "queued st (kv_set_expiry (key_for_run st x) e ks) y = queued st ks y"
proof -
  have "kv_live (kv_set_expiry (key_for_run st x) e ks) (outbox_key st) = kv_live ks (outbox_key st)" by simp
  then show ?thesis by (simp add: queued_def kv_zset_def)
qed

lemma inv_put_hash:
  assumes inv: "outbox_inv st n L X ks" and n: "n \<le> n'" and X: "X \<subseteq> insert x X'"
    and h: "counters h r a" "0 \<le> a" "a \<le> r" "r \<le> int n'"
    and safe: "a < r \<Longrightarrow> x \<notin> X' \<Longrightarrow> kv_expiry ks (key_for_run st x) = None \<and> queued st ks x"
    and waiting: "\<And>p. (x, p) \<in> L \<Longrightarrow> a < p \<and> p \<le> r"
  shows "outbox_inv st n' L X' (kv_put_hash (key_for_run st x) h ks)" (is "outbox_inv _ _ _ _ ?ks")
proof (rule inv_update [OF inv n _ _ _ X])
  have "h \<noteq> fmempty" using h(1) by (auto simp: counters_def)
  then have hc: "has_counters st ?ks x r a" using h(1) by (simp add: has_counters_def)
  with h safe \<open>h \<noteq> fmempty\<close> show "run_sound st n' X' ?ks x"
    by (intro run_soundI [of _ _ _ r a]) auto
  show "waits st ?ks x p" if "(x, p) \<in> L" for p
    using hc waiting [OF that] by (auto simp: waits_def)
next
  fix k assume "k \<in> zset_keys st"
  with inv show "kv_zset ?ks k \<noteq> None \<and> kv_expiry ?ks k = None"
    by (auto simp: outbox_inv_def)
qed auto

lemma zset_set_expiry:
  "k \<in> zset_keys st \<Longrightarrow> kv_zset (kv_set_expiry (key_for_run st x) e ks) k = kv_zset ks k"
  by (simp add: kv_zset_def)

lemma inv_set_expiry:
  assumes inv: "outbox_inv st n L X ks" and X: "X \<subseteq> {x}"
    and live: "\<not> expired (kv_now ks) e" and safe: "e = None \<and> (x \<in> X \<longrightarrow> queued st ks x) \<or> quiescent st ks x"
  shows "outbox_inv st n L {} (kv_set_expiry (key_for_run st x) e ks)" (is "outbox_inv _ _ _ _ ?ks")
proof (rule inv_update [OF inv order_refl, where x = x])
  have hc: "has_counters st ?ks x r a = has_counters st ks x r a" for r a
    using live by (intro has_counters_cong) simp
  have none: "kv_live ?ks (key_for_run st x) = kv_live ks (key_for_run st x)"
    using live by simp
  show "run_sound st n {} ?ks x"
  proof (cases "kv_live ks (key_for_run st x) = None")
    case False
    then obtain r a where ra: "has_counters st ks x r a" "0 \<le> a" "a \<le> r" "r \<le> int n"
      "a < r \<Longrightarrow> x \<notin> X \<Longrightarrow> queued st ks x"
      using run_soundE [OF inv_run [OF inv]] by metis
    have "e = None" "queued st ks x" if "a < r"
      using safe ra that quiescentD [of st ks x r a] by force+
    with ra hc show ?thesis by (intro run_soundI [of _ _ _ r a]) simp_all
  qed (simp add: run_sound_def none)
  show "waits st ?ks x p" if "(x, p) \<in> L" for p
    using inv_waits [OF inv that] by (simp add: waits_def hc)
next
  fix k assume "k \<in> zset_keys st"
  with inv show "kv_zset ?ks k \<noteq> None \<and> kv_expiry ?ks k = None"
    by (auto simp: outbox_inv_def zset_set_expiry)
qed (use X in auto)

section \<open>Scripts on a present run\<close>

definition present :: "RedisRunAggregationStore \<Rightarrow> string \<Rightarrow> keyspace \<Rightarrow> bool" where
  "present st x ks \<longleftrightarrow> kv_live ks (key_for_run st x) \<noteq> None"

definition open_inv :: "RedisRunAggregationStore \<Rightarrow> nat \<Rightarrow> (string \<times> int) set \<Rightarrow> string \<Rightarrow> keyspace \<Rightarrow> bool" where
  "open_inv st n L x ks \<longleftrightarrow> outbox_inv st n L {} ks \<and> present st x ks"

lemma present_counters:
  assumes "outbox_inv st n L X ks" "present st x ks"
  obtains h r a where "kv_live ks (key_for_run st x) = Some (RHash h)" "counters h r a" "0 \<le> a" "a \<le> r" "r \<le> int n"
    "a < r \<Longrightarrow> x \<notin> X \<Longrightarrow> kv_expiry ks (key_for_run st x) = None" "a < r \<Longrightarrow> x \<notin> X \<Longrightarrow> queued st ks x"
    "\<And>p. (x, p) \<in> L \<Longrightarrow> a < p \<and> p \<le> r"
proof -
  obtain r a where ra: "has_counters st ks x r a" "0 \<le> a" "a \<le> r" "r \<le> int n"
    "a < r \<Longrightarrow> x \<notin> X \<Longrightarrow> kv_expiry ks (key_for_run st x) = None" "a < r \<Longrightarrow> x \<notin> X \<Longrightarrow> queued st ks x"
    using run_soundE [OF inv_run [OF assms(1)] assms(2) [unfolded present_def]] by metis
  have "a < p \<and> p \<le> r" if xp: "(x, p) \<in> L" for p
    using inv_waits [OF assms(1) xp] has_counters_unique [OF ra(1)] unfolding waits_def by blast
  with ra that show thesis by (auto simp: has_counters_def)
qed

lemma fmupds_other [simp]: "f \<notin> fst ` set fvs \<Longrightarrow> fmlookup (fmupds fvs h) f = fmlookup h f"
  by (induction fvs arbitrary: h) auto

lemma open_put_hash:
  assumes "open_inv st n L x ks" "kv_live ks (key_for_run st x) = Some (RHash h)"
    and same: "\<And>f. f \<in> counter_fields \<Longrightarrow> fmlookup h' f = fmlookup h f"
  shows "open_inv st n L x (kv_put_hash (key_for_run st x) h' ks)"
proof -
  have inv: "outbox_inv st n L {} ks" "present st x ks"
    using assms(1) by (simp_all add: open_inv_def)
  then obtain h0 r a where *: "kv_live ks (key_for_run st x) = Some (RHash h0)" "counters h0 r a" "0 \<le> a" "a \<le> r" "r \<le> int n"
    "a < r \<Longrightarrow> x \<notin> {} \<Longrightarrow> kv_expiry ks (key_for_run st x) = None" "a < r \<Longrightarrow> x \<notin> {} \<Longrightarrow> queued st ks x"
    "\<And>p. (x, p) \<in> L \<Longrightarrow> a < p \<and> p \<le> r"
    by (rule present_counters) (rule that)
  then have "counters h' r a"
    using assms(2) same by (simp add: counters_def counter_fields_def)
  moreover from this have "h' \<noteq> fmempty" by (auto simp: counters_def)
  ultimately show ?thesis
    using inv_put_hash [OF inv(1) order_refl, of x "{}" h' r a] * by (simp add: open_inv_def present_def)
qed

lemma open_hash:
  assumes "open_inv st n L x ks"
  obtains h where "kv_live ks (key_for_run st x) = Some (RHash h)"
  using assms present_counters unfolding open_inv_def by metis

lemma keeps_hset:
  assumes "fst ` set fvs \<inter> counter_fields = {}"
  shows "keeps E (open_inv st n L x) (kv_hset (key_for_run st x) fvs)"
proof (rule keeps_eval)
  fix ks assume inv: "open_inv st n L x ks"
  then obtain h where h: "kv_live ks (key_for_run st x) = Some (RHash h)" by (rule open_hash)
  have "open_inv st n L x (kv_put_hash (key_for_run st x) (fmupds fvs h) ks)"
    by (rule open_put_hash [OF inv h], rule fmupds_other) (use assms in blast)
  then show "\<exists>y ks'. kv_hset (key_for_run st x) fvs ks = (Inr y, ks') \<and> open_inv st n L x ks'"
    by (auto simp: hash_commands(4) [OF kv_hash_live(1) [OF h]])
qed

lemma keeps_hincrby:
  assumes "f \<notin> counter_fields" and E: "\<And>s. open_inv st n L x s \<Longrightarrow> E s"
  shows "keeps E (open_inv st n L x) (kv_hincrby (key_for_run st x) f d)"
  unfolding keeps_def htriple_def
proof (intro allI impI)
  fix ks ks' assume inv: "open_inv st n L x ks"
  then obtain h where h: "kv_live ks (key_for_run st x) = Some (RHash h)" by (rule open_hash)
  have "open_inv st n L x (kv_put_hash (key_for_run st x) (fmupd f v h) ks)" for v
    by (rule open_put_hash [OF inv h]) (use assms(1) in auto)
  with inv E h show "(\<forall>e. kv_hincrby (key_for_run st x) f d ks = (Inl e, ks') \<longrightarrow> E ks') \<and>
      (\<forall>y. kv_hincrby (key_for_run st x) f d ks = (Inr y, ks') \<longrightarrow> open_inv st n L x ks')"
    by (auto simp: kv_hincrby_def on_hash_def kv_hash_live(1) [OF h] split: option.splits if_splits)
qed

lemma open_put_zset:
  "open_inv st n L x ks \<Longrightarrow> k \<in> zset_keys st
     \<Longrightarrow> (\<And>y. k = outbox_key st \<Longrightarrow> queued st ks y \<Longrightarrow> \<not> quiescent st ks y \<Longrightarrow> fmlookup z y \<noteq> None)
     \<Longrightarrow> open_inv st n L x (kv_put_zset k z ks)"
  unfolding open_inv_def present_def by (auto intro!: inv_put_zset)

lemma keeps_zadd:
  assumes k: "k \<in> zset_keys st"
  shows "keeps E (open_inv st n L x) (kv_zadd k sc m)"
proof (rule keeps_eval)
  fix ks assume inv: "open_inv st n L x ks"
  then obtain z where z: "kv_zset ks k = Some z" using inv_zset k unfolding open_inv_def by metis
  have "open_inv st n L x (kv_put_zset k (fmupd m sc z) ks)"
    by (rule open_put_zset [OF inv k]) (use z in \<open>auto simp: queued_def\<close>)
  with z show "\<exists>y ks'. kv_zadd k sc m ks = (Inr y, ks') \<and> open_inv st n L x ks'"
    by auto
qed

lemma keeps_zrem:
  assumes k: "k \<in> zset_keys st" "k \<noteq> outbox_key st"
  shows "keeps E (open_inv st n L x) (kv_zrem k m)"
proof (rule keeps_eval)
  fix ks assume inv: "open_inv st n L x ks"
  then obtain z where "kv_zset ks k = Some z" using inv_zset k unfolding open_inv_def by metis
  with open_put_zset [OF inv k(1), of "fmdrop m z"] k(2)
  show "\<exists>y ks'. kv_zrem k m ks = (Inr y, ks') \<and> open_inv st n L x ks'"
    by auto
qed

lemma keeps_persist: "keeps E (open_inv st n L x) (kv_persist (key_for_run st x))"
  by (rule keeps_eval) (auto simp: open_inv_def present_def intro!: inv_set_expiry)

text \<open>The common use: the error condition is the invariant.\<close>

lemma open_inv_inv: "open_inv st n L x s \<Longrightarrow> outbox_inv st n L {} s"
  by (simp add: open_inv_def)

lemma inv_settled:
  assumes inv: "outbox_inv st n L X ks" and X: "X \<subseteq> {x}" and quiet: "quiescent st ks x"
  shows "outbox_inv st n L {} ks"
proof (rule inv_update [OF inv order_refl, where x = x])
  show "run_sound st n {} ks x"
  proof (cases "kv_live ks (key_for_run st x) = None")
    case False
    with run_soundE [OF inv_run [OF inv]] obtain r a where
      "has_counters st ks x r a" "0 \<le> a" "a \<le> r" "r \<le> int n" by metis
    moreover from this quiet have "r \<le> a" by (blast dest: quiescentD)
    ultimately show ?thesis by (intro run_soundI [of _ _ _ r a]) simp_all
  qed (simp add: run_sound_def)
qed (use inv X in \<open>auto simp: outbox_inv_def\<close>)

lemma quiescent_iff: "kv_live ks (key_for_run st x) = Some (RHash h) \<Longrightarrow> counters h r a \<Longrightarrow> quiescent st ks x \<longleftrightarrow> r \<le> a"
  by (auto simp: quiescent_def has_counters_def counters_def int_str_inject)

lemma counter_reads:
  assumes "kv_live ks (key_for_run st x) = Some (RHash h)" "counters h r a" "0 \<le> a" "a \<le> r" "r < 10 ^ 14"
  shows "hget_number kv_redis (key_for_run st x) ''summary_pending_revision'' ''0'' ks = (Inr r, ks)"
    and "hget_number kv_redis (key_for_run st x) ''summary_ack_revision'' ''0'' ks = (Inr a, ks)"
    and "hget_optional kv_redis (key_for_run st x) ''summary_revision'' ''0'' ks = (Inr (Some r), ks)"
    and "hget_optional kv_redis (key_for_run st x) ''summary_pending_revision'' ''0'' ks = (Inr (Some r), ks)"
    and "hget_optional kv_redis (key_for_run st x) ''summary_ack_revision'' ''0'' ks = (Inr (Some a), ks)"
proof -
  have "lua_round r = r" "lua_round a = a"
    using assms(3-5) by (auto intro!: lua_round_exact)
  with assms(2) show
    "hget_number kv_redis (key_for_run st x) ''summary_pending_revision'' ''0'' ks = (Inr r, ks)"
    "hget_number kv_redis (key_for_run st x) ''summary_ack_revision'' ''0'' ks = (Inr a, ks)"
    "hget_optional kv_redis (key_for_run st x) ''summary_revision'' ''0'' ks = (Inr (Some r), ks)"
    "hget_optional kv_redis (key_for_run st x) ''summary_pending_revision'' ''0'' ks = (Inr (Some r), ks)"
    "hget_optional kv_redis (key_for_run st x) ''summary_ack_revision'' ''0'' ks = (Inr (Some a), ks)"
    by (simp_all add: hget_number_def hget_optional_def hash_commands(1) [OF kv_hash_live(1) [OF assms(1)]] counters_def)
qed

text \<open>Giving a quiescent run an expiry, and keeping a run whose summary waits.\<close>

lemma expire_settled:
  assumes X: "X \<subseteq> {x}" and ret: "1 \<le> ret"
  shows "htriple (outbox_inv st n L {})
     (\<lambda>ks. outbox_inv st n L X ks \<and> present st x ks \<and> quiescent st ks x)
     (kv_pexpire (key_for_run st x) (int_str ret)) (\<lambda>_. open_inv st n L x)"
  unfolding htriple_def
proof (intro allI impI)
  let ?k = "key_for_run st x"
  fix ks ks' assume pre: "outbox_inv st n L X ks \<and> present st x ks \<and> quiescent st ks x"
  have same: "outbox_inv st n L {} ks" using inv_settled X pre by blast
  have ms: "redis_int (int_str ret) = Some ms \<Longrightarrow> ms = ret" for ms
    by (auto simp: redis_int_def Let_def int_str_inject split: option.splits if_splits)
  have later: "open_inv st n L x (kv_set_expiry ?k (Some (kv_now ks + nat ret)) ks)"
    using inv_set_expiry [OF same, of x "Some (kv_now ks + nat ret)"] pre by (auto simp: open_inv_def present_def)
  from pre same later ret show "(\<forall>e. kv_pexpire ?k (int_str ret) ks = (Inl e, ks') \<longrightarrow> outbox_inv st n L {} ks') \<and>
      (\<forall>y. kv_pexpire ?k (int_str ret) ks = (Inr y, ks') \<longrightarrow> open_inv st n L x ks')"
    by (auto simp: kv_pexpire_def present_def dest!: ms split: option.splits if_splits)
qed

lemma keep_waiting:
  assumes X: "X \<subseteq> {x}"
  shows "htriple E (\<lambda>ks. outbox_inv st n L X ks \<and> present st x ks \<and> (x \<in> X \<longrightarrow> queued st ks x))
     (kv_persist (key_for_run st x)) (\<lambda>_. open_inv st n L x)"
proof (rule htriple_eval)
  fix ks assume pre: "outbox_inv st n L X ks \<and> present st x ks \<and> (x \<in> X \<longrightarrow> queued st ks x)"
  with inv_set_expiry [OF _ X, of st n L ks None]
  show "\<exists>y ks'. kv_persist (key_for_run st x) ks = (Inr y, ks') \<and> open_inv st n L x ks'"
    by (auto simp: open_inv_def present_def)
qed

lemma revision_bound: "r \<le> int n \<Longrightarrow> n < 10 ^ 14 \<Longrightarrow> r < 10 ^ 14"
  using of_nat_less_iff [of n "10 ^ 14", where 'a = int] by simp

lemma refresh_triple:
  assumes X: "X \<subseteq> {x}" and n: "n < 10 ^ 14" and ret: "1 \<le> ret"
  shows "htriple (outbox_inv st n L {})
     (\<lambda>ks. outbox_inv st n L X ks \<and> present st x ks \<and> (x \<in> X \<longrightarrow> queued st ks x))
     (refresh_retention kv_redis (key_for_run st x) (active_key st) m now ret) (\<lambda>_. open_inv st n L x)"
  unfolding htriple_def
proof (intro allI impI)
  let ?k = "key_for_run st x" and ?E = "outbox_inv st n L {}"
  fix ks ks'
  assume pre: "outbox_inv st n L X ks \<and> present st x ks \<and> (x \<in> X \<longrightarrow> queued st ks x)"
  then obtain h r a where h: "kv_live ks ?k = Some (RHash h)" "counters h r a" "0 \<le> a" "a \<le> r" "r \<le> int n"
    using present_counters by metis
  have "r < 10 ^ 14" by (rule revision_bound [OF h(5) n])
  note reading = counter_reads [OF h(1-4) this]
  define rest where "rest = (if r > a then sbind (kv_persist ?k) (\<lambda>_. sbind (kv_zadd (active_key st) MAX_EXACT m) (\<lambda>_. sreturn ()))
    else sbind (kv_pexpire ?k (int_str ret)) (\<lambda>_. sbind (kv_zadd (active_key st) (lua_add now ret) m) (\<lambda>_. sreturn ())))"
  have eq: "refresh_retention kv_redis ?k (active_key st) m now ret ks = rest ks"
    unfolding refresh_retention_def rest_def by (simp only: sbind_def [of "hget_number _ _ _ _"] reading prod.case sum.case kv_redis_simps)
  have tail: "htriple ?E (open_inv st n L x) (sbind (kv_zadd (active_key st) sc m) (\<lambda>_. sreturn ())) (\<lambda>_. open_inv st n L x)" for sc
    by (rule htriple_bind [OF keeps_triple [OF keeps_zadd]]) (simp_all add: htriple_return)
  have "htriple ?E (\<lambda>s. s = ks) rest (\<lambda>_. open_inv st n L x)"
  proof (cases "r > a")
    case True
    then show ?thesis
      unfolding rest_def
      by simp (rule htriple_bind [OF htriple_weaken [OF keep_waiting [OF X]] tail], use pre in auto)
  next
    case False
    then have "quiescent st ks x" using quiescent_iff [OF h(1,2)] by simp
    with False pre show ?thesis
      unfolding rest_def
      by simp (rule htriple_bind [OF htriple_weaken [OF expire_settled [OF X ret]] tail], auto)
  qed
  then show "(\<forall>e. refresh_retention kv_redis ?k (active_key st) m now ret ks = (Inl e, ks') \<longrightarrow> ?E ks') \<and>
      (\<forall>y. refresh_retention kv_redis ?k (active_key st) m now ret ks = (Inr y, ks') \<longrightarrow> open_inv st n L x ks')"
    unfolding eq htriple_def by blast
qed

lemma enqueue_triple:
  assumes n: "Suc n < 10 ^ 14"
  shows "htriple E (open_inv st n L x)
     (enqueue_summary kv_redis (key_for_run st x) (deadline_key st) (outbox_key st) x status now)
     (\<lambda>_ ks. outbox_inv st (Suc n) L {x} ks \<and> present st x ks \<and> queued st ks x)"
proof (rule htriple_eval)
  let ?k = "key_for_run st x"
  fix ks assume inv: "open_inv st n L x ks"
  then have inv': "outbox_inv st n L {} ks" "present st x ks" by (simp_all add: open_inv_def)
  then obtain h r a where h: "kv_live ks ?k = Some (RHash h)" "counters h r a" "0 \<le> a" "a \<le> r" "r \<le> int n"
    and waiting: "\<And>p. (x, p) \<in> L \<Longrightarrow> a < p \<and> p \<le> r"
    using present_counters by metis
  have r: "r + 1 < 10 ^ 14" using revision_bound [of "r + 1" "Suc n"] h(5) n by simp
  define h' where "h' = fmupds [(''status'', status), (''finalized_at'', lua_tostring now),
    (''summary_pending_revision'', int_str (r + 1))] (fmupd ''summary_revision'' (int_str (r + 1)) h)"
  have h': "counters h' (r + 1) a" using h(2) by (simp add: h'_def counters_def)
  then have nonempty: "h' \<noteq> fmempty" by (auto simp: counters_def)
  obtain z2 z3 where z: "kv_zset ks (deadline_key st) = Some z2" "kv_zset ks (outbox_key st) = Some z3"
    using inv_zset [OF inv'(1)] by (metis zset_keys_simps(1,2))
  let ?ks1 = "kv_put_hash ?k h' ks"
  let ?ks2 = "kv_put_zset (deadline_key st) (fmdrop x z2) ?ks1"
  let ?ks3 = "kv_put_zset (outbox_key st) (fmupd x now z3) ?ks2"
  have "outbox_inv st (Suc n) L {x} ?ks1"
    using h h' waiting by (intro inv_put_hash [OF inv'(1), where r = "r + 1" and a = a]) (force+)
  then have "outbox_inv st (Suc n) L {x} ?ks2" by (rule inv_put_zset) simp_all
  then have "outbox_inv st (Suc n) L {x} ?ks3"
    by (rule inv_put_zset) (use z in \<open>auto simp: queued_def\<close>)
  moreover have "enqueue_summary kv_redis ?k (deadline_key st) (outbox_key st) x status now ks = (Inr (), ?ks3)"
  proof -
    have inc: "kv_hincrby ?k ''summary_revision'' ''1'' ks =
        (Inr (r + 1), kv_put_hash ?k (fmupd ''summary_revision'' (int_str (r + 1)) h) ks)"
      using h r redis_int_int_str [of 1] redis_int_int_str [of r]
      by (intro kv_hincrby_eval) (auto simp: counters_def int_str_small)
    have "lua_round (r + 1) = r + 1" "lua_tostring (r + 1) = int_str (r + 1)"
      using h r by (auto intro!: lua_round_exact simp: lua_tostring_def)
    with inc z h(1) show ?thesis
      by (simp add: enqueue_summary_def h'_def)
  qed
  ultimately show "\<exists>y ks'. enqueue_summary kv_redis ?k (deadline_key st) (outbox_key st) x status now ks = (Inr y, ks') \<and>
      outbox_inv st (Suc n) L {x} ks' \<and> present st x ks' \<and> queued st ks' x"
    using nonempty by (auto simp: present_def queued_def)
qed

definition quiet_inv :: "RedisRunAggregationStore \<Rightarrow> nat \<Rightarrow> (string \<times> int) set \<Rightarrow> string \<Rightarrow> keyspace \<Rightarrow> bool" where
  "quiet_inv st n L x ks \<longleftrightarrow> open_inv st n L x ks \<and> quiescent st ks x"

definition closed_inv :: "RedisRunAggregationStore \<Rightarrow> nat \<Rightarrow> (string \<times> int) set \<Rightarrow> string \<Rightarrow> keyspace \<Rightarrow> bool" where
  "closed_inv st n L x ks \<longleftrightarrow> outbox_inv st n L {} ks \<and> \<not> present st x ks"

lemma create_hash:
  assumes new: "counters (fmupds fvs fmempty) 0 0"
  shows "htriple E (closed_inv st n L x) (kv_hset (key_for_run st x) fvs) (\<lambda>_. quiet_inv st n L x)"
proof (rule htriple_eval)
  let ?k = "key_for_run st x" and ?h = "fmupds fvs fmempty"
  fix ks assume "closed_inv st n L x ks"
  then have inv: "outbox_inv st n L {} ks" and absent: "kv_live ks ?k = None"
    by (simp_all add: closed_inv_def present_def)
  have "(x, p) \<notin> L" for p
    using quiescent_not_waiting [OF inv, of x] absent by (simp add: quiescent_def has_counters_def)
  then have "outbox_inv st n L {} (kv_put_hash ?k ?h ks)"
    using new by (intro inv_put_hash [OF inv, where r = 0 and a = 0]) auto
  moreover have nonempty: "?h \<noteq> fmempty" using new by (auto simp: counters_def)
  moreover have "quiescent st (kv_put_hash ?k ?h ks) x"
    using quiescent_iff [OF _ new, of "kv_put_hash ?k ?h ks"] nonempty by simp
  ultimately show "\<exists>y ks'. kv_hset ?k fvs ks = (Inr y, ks') \<and> quiet_inv st n L x ks'"
    using hash_commands(4) [OF kv_hash_live(2) [OF absent]] by (auto simp: quiet_inv_def open_inv_def present_def)
qed

lemma quiet_zadd:
  assumes k: "k \<in> zset_keys st"
  shows "keeps E (quiet_inv st n L x) (kv_zadd k sc m)"
proof (rule keeps_eval)
  fix ks assume pre: "quiet_inv st n L x ks"
  then have inv: "open_inv st n L x ks" by (simp add: quiet_inv_def)
  then obtain z where z: "kv_zset ks k = Some z" using inv_zset k unfolding open_inv_def by metis
  have "open_inv st n L x (kv_put_zset k (fmupd m sc z) ks)"
    by (rule open_put_zset [OF inv k]) (use z in \<open>auto simp: queued_def\<close>)
  with pre z k show "\<exists>y ks'. kv_zadd k sc m ks = (Inr y, ks') \<and> quiet_inv st n L x ks'"
    by (auto simp: quiet_inv_def quiescent_def has_counters_def)
qed

lemma create_triple:
  "htriple E (closed_inv st n L (arg_run_id a))
     (create_run kv_redis (key_for_run st (arg_run_id a)) (deadline_key st) a nums now) (\<lambda>_. open_inv st n L (arg_run_id a))"
  unfolding create_run_def kv_redis_simps
  by (rule htriple_bind [OF create_hash htriple_bind [OF keeps_triple [OF quiet_zadd] htriple_return]])
     (simp_all add: counters_def int_str_small quiet_inv_def)

lemma counter_fields_simps [simp]:
  "slice_field i \<notin> counter_fields" "execution_field key \<notin> counter_fields" "error_field kind \<notin> counter_fields"
  "latency_field j \<notin> counter_fields" "''histogram_bounds'' \<notin> counter_fields" "''received_slices'' \<notin> counter_fields"
  "''total'' \<notin> counter_fields" "''success'' \<notin> counter_fields" "''failure'' \<notin> counter_fields"
  "''error_kind_count'' \<notin> counter_fields" "''first_result_at'' \<notin> counter_fields" "''last_result_at'' \<notin> counter_fields"
  by (simp_all add: counter_fields_def slice_field_def execution_field_def error_field_def latency_field_def)

lemmas open_keeps =
  keeps_hset keeps_hincrby keeps_zadd keeps_zrem keeps_persist keeps_rules

lemma keeps_buckets:
  assumes E: "\<And>s. open_inv st n L x s \<Longrightarrow> E s"
  shows "(\<And>f c. (f, c) \<in> set fs \<Longrightarrow> f \<notin> counter_fields) \<Longrightarrow> keeps E (open_inv st n L x) (add_buckets kv_redis (key_for_run st x) fs)"
proof (induction fs)
  case (Cons fc fs)
  obtain f c where fc: "fc = (f, c)" by force
  show ?case
    unfolding fc add_buckets.simps kv_redis_simps
    by (intro keeps_bind keeps_hincrby E Cons.IH) (use Cons.prems fc in auto)
qed (simp only: add_buckets.simps keeps_return)

lemma keeps_errors:
  assumes E: "\<And>s. open_inv st n L x s \<Longrightarrow> E s"
  shows "keeps E (open_inv st n L x) (add_errors kv_redis (key_for_run st x) es)"
proof (induction es)
  case (Cons kc es)
  obtain kind c where kc: "kc = (kind, c)" by force
  show ?case
    unfolding kc add_errors.simps kv_redis_simps
    by (intro keeps_bind keeps_cases keeps_return keeps_hincrby E Cons.IH keeps_reads reads_rules; simp)
qed (simp only: add_errors.simps keeps_return)

lemma keeps_add_slice:
  assumes E: "\<And>s. open_inv st n L x s \<Longrightarrow> E s"
  shows "keeps E (open_inv st n L x) (add_slice kv_redis (key_for_run st x) a nums now)"
proof -
  have fields: "f \<notin> counter_fields" if "(f, c) \<in> set (bucket_fields a)" for f c
    using that by (auto simp: bucket_fields_def dest!: set_zip_leftD)
  have "keeps E (open_inv st n L x) (stamp_result kv_redis (key_for_run st x) now)"
    unfolding stamp_result_def kv_redis_simps
    by (intro keeps_bind keeps_cases keeps_return keeps_hset; (intro keeps_reads reads_rules E)?; simp)
  then show ?thesis
    unfolding add_slice_def kv_redis_simps
    by (intro keeps_bind keeps_return keeps_reply keeps_hset keeps_hincrby keeps_buckets [OF E fields] keeps_errors E; simp)
qed

lemma keeps_existing_run:
  assumes E: "\<And>s. open_inv st n L x s \<Longrightarrow> E s"
  shows "keeps E (open_inv st n L x) (existing_run kv_redis (key_for_run st x) a nums)"
  unfolding existing_run_def kv_redis_simps
  by (intro keeps_bind keeps_cases keeps_return keeps_hset; (intro keeps_reads reads_rules E)?; simp)

section \<open>The scripts\<close>

lemma inv_mono: "outbox_inv st n L X ks \<Longrightarrow> n \<le> n' \<Longrightarrow> outbox_inv st n' L X ks"
  by (rule inv_update [where x = "[]"]) (auto simp: outbox_inv_def intro: run_sound_cong)

text \<open>The invariant before a script, with the bound of its revisions, and after it.\<close>

definition inv_step :: "RedisRunAggregationStore \<Rightarrow> nat \<Rightarrow> (string \<times> int) set \<Rightarrow> (keyspace, 'e, 'a) action \<Rightarrow> bool" where
  "inv_step st n L m \<longleftrightarrow>
     htriple (outbox_inv st (Suc n) L {}) (outbox_inv st n L {}) m (\<lambda>_. outbox_inv st (Suc n) L {})"

lemma inv_Suc: "outbox_inv st n L X ks \<Longrightarrow> outbox_inv st (Suc n) L X ks"
  by (erule inv_mono) simp

lemma open_Suc: "open_inv st n L x ks \<Longrightarrow> outbox_inv st (Suc n) L {} ks"
  using inv_Suc by (auto simp: open_inv_def)

lemma refresh_open:
  assumes "n < 10 ^ 14" "1 \<le> ret"
  shows "keeps (outbox_inv st (Suc n) L {}) (open_inv st n L x)
     (refresh_retention kv_redis (key_for_run st x) (active_key st) m now ret)"
  unfolding keeps_def
  by (rule htriple_error_weaken [OF htriple_weaken [OF refresh_triple [OF empty_subsetI assms]]])
     (auto simp: open_inv_def inv_Suc)

lemma reply_open:
  "htriple (outbox_inv st (Suc n) L {}) (open_inv st n L x) (snapshot_reply kv_redis k c msg) (\<lambda>_. outbox_inv st (Suc n) L {})"
  "htriple (outbox_inv st (Suc n) L {}) (open_inv st (Suc n) L x) (snapshot_reply kv_redis k c msg) (\<lambda>_. outbox_inv st (Suc n) L {})"
  by (rule htriple_reads_post; (intro reads_rules)?; erule open_Suc open_inv_inv)+

lemma accept_triple:
  assumes n: "Suc n < 10 ^ 14" and ret: "1 \<le> num_retention nums" and x: "x = arg_run_id a"
  shows "htriple (outbox_inv st (Suc n) L {}) (open_inv st n L x)
     (accept_slice kv_redis (key_for_run st x) (deadline_key st) (outbox_key st) (active_key st) a nums now status)
     (\<lambda>_. outbox_inv st (Suc n) L {})"
proof -
  have n': "n < 10 ^ 14" using n by simp
  have again: "htriple (outbox_inv st (Suc n) L {})
     (\<lambda>ks. outbox_inv st (Suc n) L {x} ks \<and> present st x ks \<and> queued st ks x)
     (refresh_retention kv_redis (key_for_run st x) (active_key st) x now (num_retention nums)) (\<lambda>_. open_inv st (Suc n) L x)"
    by (rule htriple_weaken [OF refresh_triple [OF subset_refl n ret]]) auto
  show ?thesis
    unfolding accept_slice_def x [symmetric]
    by (intro then_bind [OF keeps_add_slice] then_bind [OF refresh_open [OF n' ret]] htriple_if
          htriple_bind [OF enqueue_triple [OF n]] htriple_bind [OF again] reply_open open_Suc)
qed

lemma ingest_numbers_retention: "ingest_numbers_of a now = Some nums \<Longrightarrow> 1 \<le> num_retention nums"
  by (auto simp: ingest_numbers_of_def split: option.splits if_splits)

lemma exists_bind:
  assumes "htriple E (open_inv st n L x) (k 1) Q" "htriple E (closed_inv st n L x) (k 0) Q"
  shows "htriple E (outbox_inv st n L {}) (sbind (kv_exists (key_for_run st x)) k) Q"
  using assms unfolding htriple_def sbind_def
  by (auto simp: open_inv_def closed_inv_def present_def)

lemma prune_active:
  assumes I: "I \<in> {open_inv st n L x, closed_inv st n L x, outbox_inv st n L {}}"
  shows "keeps E I (kv_zremrangebyscore (active_key st) sc)"
proof (rule keeps_eval)
  fix ks assume pre: "I ks"
  with I have inv: "outbox_inv st n L {} ks" by (auto simp: open_inv_def closed_inv_def)
  obtain z where z: "kv_zset ks (active_key st) = Some z" using inv_zset [OF inv] by (metis zset_keys_simps(3))
  have "outbox_inv st n L {} (kv_put_zset (active_key st) z' ks)" for z'
    by (rule inv_put_zset [OF inv]) auto
  with pre I z show "\<exists>y ks'. kv_zremrangebyscore (active_key st) sc ks = (Inr y, ks') \<and> I ks'"
    by (auto simp: open_inv_def closed_inv_def present_def)
qed

lemma prunes:
  "keeps E (open_inv st n L x) (kv_zremrangebyscore (active_key st) sc)"
  "keeps E (closed_inv st n L x) (kv_zremrangebyscore (active_key st) sc)"
  "keeps E (outbox_inv st n L {}) (kv_zremrangebyscore (active_key st) sc)"
  by (rule prune_active [of _ st n L x]; simp)+

lemma reads_slice_problem [reads_rules]: "reads (slice_problem kv_redis k a n kinds)"
  unfolding slice_problem_def by (intro reads_rules)

lemma closed_Suc: "closed_inv st n L x ks \<Longrightarrow> outbox_inv st (Suc n) L {} ks"
  using inv_Suc by (auto simp: closed_inv_def)

lemma reply_closed:
  "htriple (outbox_inv st (Suc n) L {}) (closed_inv st n L x) (snapshot_reply kv_redis k c msg) (\<lambda>_. outbox_inv st (Suc n) L {})"
  by (rule htriple_reads_post; (intro reads_rules)?; erule closed_Suc)

lemma ingest_present:
  assumes n: "Suc n < 10 ^ 14" and nums: "ingest_numbers_of a now = Some nums" and x: "x = arg_run_id a"
  shows "htriple (outbox_inv st (Suc n) L {}) (open_inv st n L x)
     (sbind (existing_run kv_redis (key_for_run st x) a nums) (\<lambda>checked.
         case checked of
           Inl (refresh, code, message) \<Rightarrow>
             sbind (if refresh then refresh_retention kv_redis (key_for_run st x) (active_key st) (arg_run_id a) now (num_retention nums)
                    else sreturn ())
               (\<lambda>_. snapshot_reply kv_redis (key_for_run st x) code message)
         | Inr status \<Rightarrow>
             sbind (stored_counters kv_redis (key_for_run st x) nums) (\<lambda>stored.
             case stored of
               None \<Rightarrow> snapshot_reply kv_redis (key_for_run st x) 5 msg
             | Some kinds \<Rightarrow>
                 sbind (slice_problem kv_redis (key_for_run st x) a nums kinds) (\<lambda>problem.
                 case problem of
                   Some (code, message) \<Rightarrow> snapshot_reply kv_redis (key_for_run st x) code message
                 | None \<Rightarrow> accept_slice kv_redis (key_for_run st x) (deadline_key st) (outbox_key st) (active_key st) a nums now status))))
     (\<lambda>_. outbox_inv st (Suc n) L {})"
proof -
  have n': "n < 10 ^ 14" using n by simp
  note ret = ingest_numbers_retention [OF nums]
  show ?thesis
    by (intro then_bind [OF keeps_existing_run] then_bind [OF keeps_cases(1)] refresh_open [OF n' ret] keeps_return
          htriple_sum htriple_prod htriple_option reads_then reads_checks reads_slice_problem
          accept_triple [OF n ret x] reply_open open_Suc)
qed

lemma ingest_absent:
  assumes n: "Suc n < 10 ^ 14" and nums: "ingest_numbers_of a now = Some nums" and x: "x = arg_run_id a"
  shows "htriple (outbox_inv st (Suc n) L {}) (closed_inv st n L x)
     (sbind (slice_problem kv_redis (key_for_run st x) a nums kinds) (\<lambda>problem.
         case problem of
           Some (code, message) \<Rightarrow> snapshot_reply kv_redis (key_for_run st x) code message
         | None \<Rightarrow>
             sbind (create_run kv_redis (key_for_run st x) (deadline_key st) a nums now) (\<lambda>_.
             accept_slice kv_redis (key_for_run st x) (deadline_key st) (outbox_key st) (active_key st) a nums now status)))
     (\<lambda>_. outbox_inv st (Suc n) L {})"
proof -
  have made: "htriple (outbox_inv st (Suc n) L {}) (closed_inv st n L x)
     (create_run kv_redis (key_for_run st x) (deadline_key st) a nums now) (\<lambda>_. open_inv st n L x)"
    unfolding x by (rule create_triple)
  show ?thesis
    by (intro reads_then reads_slice_problem htriple_option htriple_prod htriple_bind [OF made]
          accept_triple [OF n ingest_numbers_retention [OF nums] x] reply_closed closed_Suc)
qed

lemma ingest_step:
  assumes n: "Suc n < 10 ^ 14"
  shows "inv_step st n L
     (ingest_script kv_redis (key_for_run st (arg_run_id a)) (deadline_key st) (outbox_key st) (active_key st) a)"
proof -
  have capacity: "htriple (outbox_inv st (Suc n) L {}) (closed_inv st n L x)
     (sbind (sbind (kv_zcard (active_key st)) (\<lambda>active. sreturn (c \<le> active))) (\<lambda>exhausted.
        if exhausted then sreturn y else k)) (\<lambda>_. outbox_inv st (Suc n) L {})"
    if "htriple (outbox_inv st (Suc n) L {}) (closed_inv st n L x) k (\<lambda>_. outbox_inv st (Suc n) L {})"
    for c x k and y :: "int \<times> string \<times> snapshot"
    by (intro reads_then reads_bind reads_commands reads_basic htriple_if htriple_return closed_Suc that)
  show ?thesis
    unfolding inv_step_def ingest_script_def kv_redis_simps
    apply (rule reads_then, rule reads_parts, erule inv_Suc)
    apply (rule htriple_option, rule htriple_return, erule inv_Suc)
    apply (rule htriple_if, rule htriple_return, erule inv_Suc)+
    apply (rule exists_bind)
     apply (simp only: sbind_sreturn if_True if_False refl)
     apply (rule then_bind [OF prunes(1)], erule ingest_present [OF n _ refl])
    apply (simp only: zero_neq_one sbind_sreturn if_False option.case sum.case)
    apply (rule then_bind [OF prunes(2)], rule capacity, erule ingest_absent [OF n _ refl])
    done
qed

lemma keeps_keep_final:
  assumes E: "\<And>s. open_inv st n L x s \<Longrightarrow> E s"
  shows "keeps E (open_inv st n L x) (keep_final kv_redis (key_for_run st x) (deadline_key st) (active_key st) m)"
  unfolding keep_final_def kv_redis_simps
  by (intro keeps_bind keeps_cases keeps_return keeps_zrem keeps_zadd keeps_persist keeps_reads reads_rules E; simp)

lemma closed_zrem:
  assumes k: "k \<in> zset_keys st"
  shows "keeps E (closed_inv st n L x) (kv_zrem k x)"
proof (rule keeps_eval)
  fix ks assume pre: "closed_inv st n L x ks"
  then have inv: "outbox_inv st n L {} ks" and absent: "quiescent st ks x"
    by (auto simp: closed_inv_def present_def quiescent_def has_counters_def)
  obtain z where z: "kv_zset ks k = Some z" using inv_zset [OF inv k] by metis
  have "outbox_inv st n L {} (kv_put_zset k (fmdrop x z) ks)"
    by (rule inv_put_zset [OF inv k]) (use z absent in \<open>auto simp: queued_def\<close>)
  with pre z k show "\<exists>y ks'. kv_zrem k x ks = (Inr y, ks') \<and> closed_inv st n L x ks'"
    by (auto simp: closed_inv_def present_def)
qed

lemma keeps_forget:
  assumes "set keys \<subseteq> zset_keys st"
  shows "keeps E (closed_inv st n L x) (forget_run kv_redis keys x)"
proof -
  have "keeps E (closed_inv st n L x) (sfold (\<lambda>k _. sbind (kv_zrem k x) (\<lambda>_. sreturn ())) keys u)" for u
    using assms
  proof (induction keys arbitrary: u)
    case Nil show ?case unfolding sfold.simps by (rule keeps_return)
  next
    case (Cons k keys)
    show ?case unfolding sfold.simps by (intro keeps_bind keeps_return closed_zrem Cons.IH) (use Cons.prems in auto)
  qed
  then show ?thesis unfolding forget_run_def kv_redis_simps by blast
qed

lemma close_triple:
  assumes n: "Suc n < 10 ^ 14"
  shows "htriple (outbox_inv st (Suc n) L {}) (open_inv st n L x)
     (close_run kv_redis (key_for_run st x) (deadline_key st) (outbox_key st) (active_key st) x status now)
     (\<lambda>_. open_inv st (Suc n) L x)"
proof -
  have kept: "htriple (outbox_inv st (Suc n) L {})
     (\<lambda>ks. outbox_inv st (Suc n) L {x} ks \<and> present st x ks \<and> queued st ks x)
     (kv_persist (key_for_run st x)) (\<lambda>_. open_inv st (Suc n) L x)"
    by (rule htriple_weaken [OF keep_waiting [OF subset_refl]]) auto
  show ?thesis
    unfolding close_run_def kv_redis_simps
    by (intro htriple_bind [OF enqueue_triple [OF n]] htriple_bind [OF kept] then_bind [OF keeps_zadd]
          keeps_triple [OF keeps_return] zset_keys_simps)
qed

lemma missing_reply:
  "set keys \<subseteq> zset_keys st \<Longrightarrow> htriple (outbox_inv st (Suc n) L {}) (closed_inv st n L x)
     (sbind (forget_run kv_redis keys x) (\<lambda>_. sreturn y)) (\<lambda>_. outbox_inv st (Suc n) L {})"
  by (rule then_bind [OF keeps_forget], assumption, rule htriple_return, erule closed_Suc)

lemma mark_expired_step:
  assumes n: "Suc n < 10 ^ 14"
  shows "inv_step st n L
     (mark_expired_script kv_redis (key_for_run st x) (deadline_key st) (outbox_key st) (active_key st) ret x)"
  unfolding inv_step_def mark_expired_script_def kv_redis_simps
  apply (rule exists_bind)
   apply (simp only: one_neq_zero if_False)
   apply (intro reads_then reads_parts reads_commands htriple_if htriple_let htriple_option
      then_bind [OF keeps_keep_final] htriple_bind [OF close_triple [OF n]] reply_open open_Suc; assumption)
  apply (simp only: refl if_True)
  apply (rule missing_reply, simp)
  done

lemma finalize_step:
  assumes n: "Suc n < 10 ^ 14"
  shows "inv_step st n L
     (finalize_run_script kv_redis (key_for_run st x) (deadline_key st) (outbox_key st) (active_key st) status ret x)"
  unfolding inv_step_def finalize_run_script_def kv_redis_simps
  apply (rule reads_then, rule reads_parts, erule inv_Suc)
  apply (rule htriple_let)
  apply (rule htriple_if, rule htriple_return, erule inv_Suc)+
  apply (rule exists_bind)
   apply (simp only: one_neq_zero if_False)
   apply (intro reads_then reads_parts reads_commands htriple_if htriple_let htriple_option
      then_bind [OF keeps_keep_final] htriple_bind [OF close_triple [OF n]] reply_open open_Suc; assumption)
  apply (simp only: refl if_True)
  apply (rule missing_reply, simp)
  done

lemma settle_triple:
  assumes ret: "1 \<le> ret"
  shows "htriple (outbox_inv st n L {}) (quiet_inv st n L x)
     (settle_run kv_redis (key_for_run st x) (outbox_key st) (active_key st) x ret) (\<lambda>_. outbox_inv st n L {})"
proof -
  let ?P = "\<lambda>ks. outbox_inv st n L {} ks \<and> present st x ks \<and> quiescent st ks x"
  have "keeps E ?P (kv_zrem (outbox_key st) x)" for E
  proof (rule keeps_eval)
    fix ks assume pre: "?P ks"
    obtain z where z: "kv_zset ks (outbox_key st) = Some z" using pre inv_zset by (metis zset_keys_simps(2))
    have "outbox_inv st n L {} (kv_put_zset (outbox_key st) (fmdrop x z) ks)"
      by (rule inv_put_zset) (use z pre in \<open>auto simp: queued_def\<close>)
    with pre z show "\<exists>y ks'. kv_zrem (outbox_key st) x ks = (Inr y, ks') \<and> ?P ks'"
      by (auto simp: present_def quiescent_def has_counters_def)
  qed
  then have removed: "htriple (outbox_inv st n L {}) (quiet_inv st n L x)
      (kv_zrem (outbox_key st) x) (\<lambda>_. ?P)"
    by (rule htriple_weaken [OF keeps_triple]) (auto simp: quiet_inv_def open_inv_def)
  show ?thesis
    unfolding settle_run_def kv_redis_simps
    by (intro htriple_bind [OF removed] htriple_bind [OF expire_settled [OF empty_subsetI ret]] reads_then reads_parts
          then_bind [OF keeps_zadd] htriple_return zset_keys_simps open_inv_inv)
qed

lemma acknowledge_hset:
  assumes inv: "open_inv st n L x ks" and h: "kv_live ks (key_for_run st x) = Some (RHash h)" "counters h r a"
    and q: "a < q" "q \<le> r" "0 \<le> a" "r < 10 ^ 14" and fresh: "\<And>p. (x, p) \<in> L \<Longrightarrow> q < p"
  obtains m ks' where "kv_hset (key_for_run st x) [(''summary_ack_revision'', lua_tostring q)] ks = (Inr m, ks')"
    "open_inv st n L x ks'" "quiescent st ks' x \<longleftrightarrow> r \<le> q"
proof -
  let ?k = "key_for_run st x" and ?h = "fmupd ''summary_ack_revision'' (int_str q) h"
  from inv obtain h0 r0 a0 where *: "kv_live ks ?k = Some (RHash h0)" "counters h0 r0 a0" "0 \<le> a0" "a0 \<le> r0" "r0 \<le> int n"
    "a0 < r0 \<Longrightarrow> x \<notin> {} \<Longrightarrow> kv_expiry ks ?k = None" "a0 < r0 \<Longrightarrow> x \<notin> {} \<Longrightarrow> queued st ks x"
    "\<And>p. (x, p) \<in> L \<Longrightarrow> a0 < p \<and> p \<le> r0"
    unfolding open_inv_def by (auto elim: present_counters)
  then have same: "r0 = r" "a0 = a" using h by (auto simp: counters_def int_str_inject)
  have new: "counters ?h r q" using h(2) by (simp add: counters_def)
  have "outbox_inv st n L {} (kv_put_hash ?k ?h ks)"
    using inv new q fresh * same
    by (intro inv_put_hash [of st n L "{}" ks n x "{}" ?h r q]) (auto simp: open_inv_def)
  then have "open_inv st n L x (kv_put_hash ?k ?h ks)" by (simp add: open_inv_def present_def)
  moreover have "quiescent st (kv_put_hash ?k ?h ks) x \<longleftrightarrow> r \<le> q"
    by (rule quiescent_iff [OF _ new]) simp
  moreover have "lua_tostring q = int_str q" using q by (simp add: lua_tostring_def)
  ultimately show thesis using h(1) by (intro that) auto
qed

text \<open>The acknowledgement of revision \<open>q\<close> of a run with counters \<open>r\<close> and \<open>a\<close>.\<close>

definition acknowledge_body ::
  "(keyspace, 'u) script \<Rightarrow> (keyspace, unit) script \<Rightarrow> int \<Rightarrow> int \<Rightarrow> int \<Rightarrow> int \<Rightarrow> (keyspace, int \<times> int \<times> string) script" where
  "acknowledge_body put settle q ret r a =
     (if q < 1 \<or> ret < 1 \<or> r < 1 \<or> a < 0 \<or> r < 0 then sreturn (4, r, ''stored summary revision is invalid'')
      else if q > r then sreturn (4, r, ''cannot acknowledge a future summary revision'')
      else if q < r then sbind (if q > a then sbind put (\<lambda>_. sreturn ()) else sreturn ()) (\<lambda>_. sreturn (3, r, []))
      else if a \<ge> q then sbind (if r \<le> a then settle else sreturn ()) (\<lambda>_. sreturn (2, r, []))
      else sbind put (\<lambda>_. sbind (if r = q then settle else sreturn ()) (\<lambda>_. sreturn (1, r, []))))"

lemma acknowledge_eval:
  assumes h: "kv_live ks (key_for_run st x) = Some (RHash h)" "counters h r a" "0 \<le> a" "a \<le> r" "r < 10 ^ 14"
    and q: "q = lua_round (int (unat revision))"
  shows "acknowledge_summary_script kv_redis (key_for_run st x) (outbox_key st) (active_key st) (word_str revision) x (int_str ret) ks =
    acknowledge_body (kv_hset (key_for_run st x) [(''summary_ack_revision'', lua_tostring q)])
      (settle_run kv_redis (key_for_run st x) (outbox_key st) (active_key st) x (lua_round ret)) q (lua_round ret) r a ks"
proof -
  have present: "kv_exists (key_for_run st x) ks = (Inr 1, ks)" using h(1) by simp
  show ?thesis
    by (simp only: acknowledge_summary_script_def acknowledge_body_def kv_redis_simps q word_str_def present
        sbind_def [of "kv_exists _"] sbind_def [of "hget_optional _ _ _ _"] counter_reads [OF h] prod.case sum.case
        option.case lua_tonumber_nat_str lua_tonumber_int_str one_neq_zero if_False)
qed

lemma acknowledge_body_safe:
  assumes inv: "E ks" "a < q \<Longrightarrow> q \<le> r \<Longrightarrow> \<exists>m t. put ks = (Inr m, t) \<and> E t \<and> (r \<le> q \<longrightarrow> 1 \<le> ret \<longrightarrow> E (snd (settle t)))"
    and quiescent: "q \<le> a \<Longrightarrow> r \<le> q \<Longrightarrow> 1 \<le> ret \<Longrightarrow> E (snd (settle ks))"
  shows "E (snd (acknowledge_body put settle q ret r a ks))"
proof (cases "a < q \<and> q \<le> r")
  case True
  with inv obtain m t where "put ks = (Inr m, t)" "E t" "r \<le> q \<Longrightarrow> 1 \<le> ret \<Longrightarrow> E (snd (settle t))" by blast
  with True inv(1) show ?thesis by (auto simp: acknowledge_body_def snd_bind_return)
next
  case False
  then have "q \<le> a \<or> r < q" by linarith
  with False inv(1) quiescent show ?thesis by (auto simp: acknowledge_body_def snd_bind_return)
qed

lemma acknowledge_present:
  assumes n: "n < 10 ^ 14" and fresh: "\<And>p. (x, p) \<in> L \<Longrightarrow> int (unat revision) < p" and inv: "open_inv st n L x ks"
  shows "outbox_inv st n L {} (snd (acknowledge_summary_script kv_redis (key_for_run st x) (outbox_key st) (active_key st)
     (word_str revision) x (int_str ret) ks))"
proof -
  let ?k = "key_for_run st x"
  from inv obtain h r a where h: "kv_live ks ?k = Some (RHash h)" "counters h r a" "0 \<le> a" "a \<le> r" "r \<le> int n"
    unfolding open_inv_def using present_counters by metis
  note r = revision_bound [OF h(5) n]
  define q where "q = lua_round (int (unat revision))"
  have q: "q \<le> r \<Longrightarrow> q = int (unat revision)"
    unfolding q_def by (rule lua_round_small) (use r in simp_all)
  let ?put = "kv_hset ?k [(''summary_ack_revision'', lua_tostring q)]"
  have after: "outbox_inv st n L {} (snd (settle_run kv_redis ?k (outbox_key st) (active_key st) x ret' t))"
    if "open_inv st n L x t" "quiescent st t x" "1 \<le> ret'" for t ret'
    using htriple_state [OF settle_triple [OF that(3)], of st n L x t] that by (simp add: quiet_inv_def)
  show ?thesis
    unfolding acknowledge_eval [OF h(1-4) r q_def]
  proof (rule acknowledge_body_safe)
    assume aq: "a < q" "q \<le> r"
    then obtain m t where t: "?put ks = (Inr m, t)" "open_inv st n L x t" "quiescent st t x \<longleftrightarrow> r \<le> q"
      using acknowledge_hset [OF inv h(1,2) aq h(3) r] fresh q by metis
    with after [OF t(2)] show "\<exists>m t. ?put ks = (Inr m, t) \<and> outbox_inv st n L {} t \<and> (r \<le> q \<longrightarrow> 1 \<le> lua_round ret \<longrightarrow>
        outbox_inv st n L {} (snd (settle_run kv_redis ?k (outbox_key st) (active_key st) x (lua_round ret) t)))"
      by (auto intro: open_inv_inv)
  qed (use inv after [OF inv] quiescent_iff [OF h(1,2)] in \<open>auto intro: open_inv_inv\<close>)
qed

text \<open>A fact about the state after a script, whatever it replies.\<close>

lemma inv_stepI:
  assumes "\<And>ks. outbox_inv st n L {} ks \<Longrightarrow> outbox_inv st (Suc n) L {} (snd (m ks))"
  shows "inv_step st n L m"
  unfolding inv_step_def htriple_def by (auto dest!: assms)

lemma inv_stepD: "inv_step st n L m \<Longrightarrow> outbox_inv st n L {} ks \<Longrightarrow> outbox_inv st (Suc n) L {} (snd (m ks))"
  unfolding inv_step_def by (rule htriple_state)

lemma acknowledge_step:
  assumes "n < 10 ^ 14" "\<And>p. (x, p) \<in> L \<Longrightarrow> int (unat revision) < p"
  shows "inv_step st n L (acknowledge_summary_script kv_redis (key_for_run st x) (outbox_key st) (active_key st)
     (word_str revision) x (int_str ret))"
proof (rule inv_stepI)
  fix ks assume inv: "outbox_inv st n L {} ks"
  show "outbox_inv st (Suc n) L {} (snd (acknowledge_summary_script kv_redis (key_for_run st x) (outbox_key st) (active_key st)
     (word_str revision) x (int_str ret) ks))"
  proof (cases "present st x ks")
    case True
    with inv have "open_inv st n L x ks" by (simp add: open_inv_def)
    from inv_Suc [OF acknowledge_present [OF assms this]] show ?thesis .
  next
    case False
    then have absent: "kv_exists (key_for_run st x) ks = (Inr 0, ks)" by (simp add: present_def)
    have "closed_inv st n L x ks" using inv False by (simp add: closed_inv_def)
    from htriple_state [OF missing_reply this, of "[outbox_key st, active_key st]" "(0, 0, [])"]
    show ?thesis
      by (simp add: acknowledge_summary_script_def sbind_def [of "kv_exists _"] absent del: kv_exists_eval)
  qed
qed

lemma clean_safe:
  assumes n: "n < 10 ^ 14" and inv: "outbox_inv st n L {} ks"
  shows "outbox_inv st n L {} (snd (clean_outbox_script kv_redis (key_for_run st x) (outbox_key st) x ks))"
proof -
  obtain z where z: "kv_zset ks (outbox_key st) = Some z" using inv_zset [OF inv] by (metis zset_keys_simps(2))
  have removed: "outbox_inv st n L {} (kv_put_zset (outbox_key st) (fmdrop x z) ks)" if "quiescent st ks x"
    by (rule inv_put_zset [OF inv]) (use z that in \<open>auto simp: queued_def\<close>)
  show ?thesis
  proof (cases "present st x ks")
    case True
    then obtain h r a where h: "kv_live ks (key_for_run st x) = Some (RHash h)" "counters h r a" "0 \<le> a" "a \<le> r" "r \<le> int n"
      using present_counters [OF inv] by metis
    with counter_reads [OF h(1-4) revision_bound [OF h(5) n]] quiescent_iff [OF h(1,2)] inv removed z show ?thesis
      by (auto simp: clean_outbox_script_def sbind_def)
  next
    case False
    then have "quiescent st ks x" by (simp add: quiescent_def present_def has_counters_def)
    with removed z False show ?thesis by (simp add: clean_outbox_script_def present_def)
  qed
qed

lemma refresh_registered_eq: "refresh_registered = refresh_retention"
  by (intro ext) (simp add: refresh_registered_def refresh_retention_def)

lemma quiet_Suc: "quiet_inv st n L x ks \<Longrightarrow> outbox_inv st (Suc n) L {} ks"
  by (auto simp: quiet_inv_def open_Suc)

lemma register_step:
  assumes n: "n < 10 ^ 14"
  shows "inv_step st n L (register_script kv_redis (key_for_run st x) (deadline_key st) (active_key st) x sc v a4 a5 a6 a7)"
proof -
  let ?E = "outbox_inv st (Suc n) L {}"
  have expiry: "htriple ?E (quiet_inv st n L x) (kv_pexpire (key_for_run st x) (int_str ret)) (\<lambda>_. open_inv st n L x)"
    if "\<not> ret < 1" for ret
    by (rule htriple_error_weaken [OF htriple_weaken [OF expire_settled [OF empty_subsetI, of ret st n L x]]])
       (use that in \<open>auto simp: quiet_inv_def open_inv_def inv_Suc\<close>)
  have reads': "reads (registered_mismatch kv_redis k a b c d)" for k a b c d
    unfolding registered_mismatch_def kv_redis_simps by (intro reads_rules)
  show ?thesis
    unfolding inv_step_def register_script_def refresh_registered_eq kv_redis_simps prod.case
    apply (intro htriple_option htriple_if; (rule htriple_return, erule inv_Suc)?)
    subgoal for expected deadline ret active
      apply (rule reads_then, rule reads_parts, erule inv_Suc)
      apply (rule then_bind [OF prunes(3)])
      apply (rule exists_bind)
       apply (simp only: refl if_True)
       apply (rule reads_then, rule reads', erule open_Suc)
       apply (rule htriple_if, rule htriple_return, erule open_Suc)
       apply (rule then_bind [OF refresh_open [OF n]], simp, rule htriple_return, erule open_Suc)
      apply (simp only: zero_neq_one if_False)
      apply (rule reads_then, rule reads_commands, erule closed_Suc)
      apply (rule htriple_if, rule htriple_return, erule closed_Suc)
      apply (rule htriple_bind [OF create_hash], simp add: counters_def int_str_small)
      apply (rule then_bind [OF quiet_zadd], simp)
      apply (rule htriple_bind [OF expiry], simp)
      apply (rule then_bind [OF keeps_zadd], simp)
      apply (rule htriple_return, erule open_Suc)
      done
    done
qed

end
