(* ===== verification/Summary_Outbox.thy ===== *)
theory Summary_Outbox
  imports Outbox_Invariant
begin

text \<open>
  The durability of run summaries.  A summary revision that a script has enqueued stays in the outbox,
  in a run hash without expiry, until a revision at least as new is acknowledged, whatever the
  operations of the aggregators, the registrations of the leaders, lost requests and replies, aborted
  scripts and the passing of time do meanwhile.
\<close>

section \<open>Any server\<close>

context redis_server
begin

lemma hget_optional_sim: "simulates view (=) (hget_optional R k f d) (hget_optional kv_redis k f d)"
  unfolding hget_optional_def kv_redis_simps by (intro simulation command_sims refl)

lemma snapshot_reply_sim: "simulates view (\<lambda>_ _. True) (snapshot_reply R k c msg) (snapshot_reply kv_redis k c msg)"
  unfolding snapshot_reply_def kv_redis_simps
  by (rule simulates_bind_rel [OF hgetall_sim]) (intro simulates_return TrueI)

lemma refresh_sim: "simulates view (=) (refresh_retention R k k4 m now ret) (refresh_retention kv_redis k k4 m now ret)"
  unfolding refresh_retention_def kv_redis_simps by (intro simulation command_sims hget_number_sim refl)

lemma existing_run_sim: "simulates view (=) (existing_run R k a n) (existing_run kv_redis k a n)"
  unfolding existing_run_def metadata_changed_def kv_redis_simps
  by (intro simulation command_sims hget_optional_sim refl)

lemma stored_counters_sim: "simulates view (=) (stored_counters R k n) (stored_counters kv_redis k n)"
  unfolding stored_counters_def kv_redis_simps by (intro simulation command_sims hget_optional_sim refl)

lemma additional_kinds_sim: "simulates view (=) (additional_kinds R k es m) (additional_kinds kv_redis k es m)"
proof (induction es arbitrary: m)
  case (Cons kc es)
  obtain kind c where kc: "kc = (kind, c)" by force
  show ?case unfolding kc additional_kinds.simps kv_redis_simps by (intro simulation command_sims Cons.IH)
qed (simp only: additional_kinds.simps simulates_return)

lemma sums_exact_sim: "simulates view (=) (sums_exact R k fs) (sums_exact kv_redis k fs)"
proof (induction fs)
  case (Cons fi fs)
  obtain f i where fi: "fi = (f, i)" by force
  show ?case
    unfolding fi sums_exact.simps prod.case by (intro simulation hget_optional_sim refl Cons.IH)
qed (simp only: sums_exact.simps simulates_return)

lemma slice_problem_sim: "simulates view (=) (slice_problem R k a n kinds) (slice_problem kv_redis k a n kinds)"
  unfolding slice_problem_def by (intro simulation additional_kinds_sim sums_exact_sim refl)

lemma add_buckets_sim: "simulates view (=) (add_buckets R k fs) (add_buckets kv_redis k fs)"
proof (induction fs)
  case (Cons fc fs)
  obtain f c where fc: "fc = (f, c)" by force
  show ?case unfolding fc add_buckets.simps kv_redis_simps by (intro simulation command_sims Cons.IH)
qed (simp only: add_buckets.simps simulates_return)

lemma add_errors_sim: "simulates view (=) (add_errors R k es) (add_errors kv_redis k es)"
proof (induction es)
  case (Cons kc es)
  obtain kind c where kc: "kc = (kind, c)" by force
  show ?case unfolding kc add_errors.simps kv_redis_simps by (intro simulation command_sims refl Cons.IH)
qed (simp only: add_errors.simps simulates_return)

lemma add_slice_sim: "simulates view (=) (add_slice R k a n now) (add_slice kv_redis k a n now)"
  unfolding add_slice_def stamp_result_def kv_redis_simps
  by (intro simulation command_sims add_buckets_sim add_errors_sim hget_optional_sim refl)

lemma enqueue_sim:
  "simulates view (=) (enqueue_summary R k k2 k3 m status now) (enqueue_summary kv_redis k k2 k3 m status now)"
  unfolding enqueue_summary_def kv_redis_simps by (intro simulation command_sims refl)

lemma accept_sim:
  "simulates view (\<lambda>_ _. True) (accept_slice R k k2 k3 k4 a n now status) (accept_slice kv_redis k k2 k3 k4 a n now status)"
  unfolding accept_slice_def by (intro simulation add_slice_sim refresh_sim enqueue_sim snapshot_reply_sim)

lemma create_sim: "simulates view (=) (create_run R k k2 a n now) (create_run kv_redis k k2 a n now)"
  unfolding create_run_def kv_redis_simps by (intro simulation command_sims refl)

lemma simulates_case_sum [simulation]:
  "(\<And>x. simulates view Q (f x) (f' x)) \<Longrightarrow> (\<And>y. simulates view Q (g y) (g' y)) \<Longrightarrow>
   simulates view Q (case v of Inl x \<Rightarrow> f x | Inr y \<Rightarrow> g y) (case v of Inl x \<Rightarrow> f' x | Inr y \<Rightarrow> g' y)"
  by (cases v) simp_all

lemma ingest_script_sim:
  "simulates view (\<lambda>_ _. True) (ingest_script R k k2 k3 k4 a) (ingest_script kv_redis k k2 k3 k4 a)"
  unfolding ingest_script_def kv_redis_simps
  by (intro simulation simulates_case_sum now_sim command_sims refl TrueI existing_run_sim refresh_sim snapshot_reply_sim
        stored_counters_sim slice_problem_sim create_sim accept_sim)

lemma forget_sim: "simulates view (=) (forget_run R keys x) (forget_run kv_redis keys x)"
  unfolding forget_run_def kv_redis_simps by (intro simulation command_sims refl)

lemma keep_final_sim: "simulates view (=) (keep_final R k k2 k4 m) (keep_final kv_redis k k2 k4 m)"
  unfolding keep_final_def kv_redis_simps by (intro simulation command_sims hget_number_sim refl)

lemma close_sim: "simulates view (=) (close_run R k k2 k3 k4 m status now) (close_run kv_redis k k2 k3 k4 m status now)"
  unfolding close_run_def kv_redis_simps by (intro simulation command_sims enqueue_sim refl)

lemma mark_expired_sim:
  "simulates view (\<lambda>_ _. True) (mark_expired_script R k k2 k3 k4 ret m) (mark_expired_script kv_redis k k2 k3 k4 ret m)"
  unfolding mark_expired_script_def kv_redis_simps
  by (intro simulation now_sim command_sims hget_optional_sim refl TrueI forget_sim keep_final_sim close_sim snapshot_reply_sim)

lemma finalize_sim:
  "simulates view (\<lambda>_ _. True) (finalize_run_script R k k2 k3 k4 q ret m) (finalize_run_script kv_redis k k2 k3 k4 q ret m)"
  unfolding finalize_run_script_def kv_redis_simps
  by (intro simulation now_sim command_sims refl TrueI forget_sim keep_final_sim close_sim snapshot_reply_sim)

lemma settle_sim: "simulates view (=) (settle_run R k k2 k3 m ret) (settle_run kv_redis k k2 k3 m ret)"
  unfolding settle_run_def kv_redis_simps by (intro simulation now_sim command_sims refl)

lemma acknowledge_sim:
  "simulates view (=) (acknowledge_summary_script R k k2 k3 q m ret) (acknowledge_summary_script kv_redis k k2 k3 q m ret)"
  unfolding acknowledge_summary_script_def kv_redis_simps
  by (intro simulation command_sims hget_optional_sim refl forget_sim settle_sim)

lemma clean_sim: "simulates view (=) (clean_outbox_script R k k2 m) (clean_outbox_script kv_redis k k2 m)"
  unfolding clean_outbox_script_def kv_redis_simps by (intro simulation command_sims hget_number_sim refl)

lemma registration_sim:
  "simulates view (=) (register_script R k k2 k3 m sc v a4 a5 a6 a7) (register_script kv_redis k k2 k3 m sc v a4 a5 a6 a7)"
  unfolding register_script_def registered_mismatch_def refresh_registered_eq kv_redis_simps
  by (intro simulation now_sim command_sims refl refresh_sim)

end

section \<open>The passing of time and other keys\<close>

definition own_key :: "RedisRunAggregationStore \<Rightarrow> string \<Rightarrow> bool" where
  "own_key st k \<longleftrightarrow> k \<in> zset_keys st \<or> (\<exists>x. k = key_for_run st x)"

lemma inv_cong:
  assumes inv: "outbox_inv st n L X ks" and same: "\<And>k. own_key st k \<Longrightarrow> kv_entry ks' k = kv_entry ks k"
  shows "outbox_inv st n L X ks'"
proof (rule inv_update [OF inv order_refl, where x = "[]"])
  have live: "kv_live ks' k = kv_live ks k \<and> kv_expiry ks' k = kv_expiry ks k" if "own_key st k" for k
    by (rule entry_live_expiry [OF same [OF that]])
  have runs: "own_key st (key_for_run st y)" for y by (auto simp: own_key_def)
  have zsets: "own_key st k" if "k \<in> zset_keys st" for k using that by (simp add: own_key_def)
  show queue: "queued st ks' y" if "queued st ks y" for y
    using that live [OF zsets [OF zset_keys_simps(2)]] by (simp add: queued_def kv_zset_def)
  show "kv_entry ks' (key_for_run st y) = kv_entry ks (key_for_run st y)" for y by (rule same [OF runs])
  then show "run_sound st n X ks' []" using run_sound_cong [OF inv_run [OF inv]] queue by blast
  show "kv_zset ks' k \<noteq> None \<and> kv_expiry ks' k = None" if "k \<in> zset_keys st" for k
    using inv that live [OF zsets [OF that]] by (auto simp: outbox_inv_def kv_zset_def)
  show "waits st ks' [] p" if "([], p) \<in> L" for p
    using inv_waits [OF inv that] live [OF runs] by (simp add: waits_def has_counters_def)
qed auto

lemma tick_entry:
  "kv_expiry ks k = None \<Longrightarrow> kv_entry (kv_tick us ks) k = kv_entry ks k"
  by (cases "kv_entry ks k") (auto simp: kv_entry_tick kv_expiry_def)

lemma tick_live: "kv_live (kv_tick us ks) k \<in> {None, kv_live ks k}"
  by (cases "kv_entry ks k") (auto simp: kv_live_def kv_entry_tick split: if_splits)

lemma inv_tick:
  assumes inv: "outbox_inv st n L {} ks"
  shows "outbox_inv st n L {} (kv_tick us ks)" (is "outbox_inv _ _ _ _ ?ks")
  unfolding outbox_inv_def
proof (intro conjI ballI allI)
  have zsets: "kv_entry ?ks k = kv_entry ks k" if "k \<in> zset_keys st" for k
    using inv that by (intro tick_entry) (auto simp: outbox_inv_def)
  then have live: "kv_live ?ks k = kv_live ks k \<and> kv_expiry ?ks k = kv_expiry ks k" if "k \<in> zset_keys st" for k
    using entry_live_expiry that by blast
  have queue: "queued st ?ks y = queued st ks y" for y
    using live [OF zset_keys_simps(2)] by (simp add: queued_def kv_zset_def)
  show "kv_zset ?ks k \<noteq> None" "kv_expiry ?ks k = None" if "k \<in> zset_keys st" for k
    using inv that live [OF that] by (auto simp: outbox_inv_def kv_zset_def)
  show "run_sound st n {} ?ks y" for y
  proof (cases "kv_live ?ks (key_for_run st y) = None")
    case False
    then have same: "kv_live ?ks (key_for_run st y) = kv_live ks (key_for_run st y)"
      using tick_live [of us ks "key_for_run st y"] by auto
    with False obtain r a where ra: "has_counters st ks y r a" "0 \<le> a" "a \<le> r" "r \<le> int n"
      "a < r \<Longrightarrow> y \<notin> {} \<Longrightarrow> kv_expiry ks (key_for_run st y) = None" "a < r \<Longrightarrow> y \<notin> {} \<Longrightarrow> queued st ks y"
      using run_soundE [OF inv_run [OF inv]] by metis
    moreover from ra(5) have "a < r \<Longrightarrow> kv_expiry ?ks (key_for_run st y) = None"
      using entry_live_expiry [OF tick_entry] by force
    ultimately show ?thesis
      using same queue by (intro run_soundI [of _ _ _ r a]) (auto simp: has_counters_def)
  qed (simp add: run_sound_def)
  fix yp assume yp: "yp \<in> L"
  obtain y p where "yp = (y, p)" by force
  moreover from yp this have w: "waits st ks y p" using inv_waits [OF inv] by blast
  then have "present st y ks" by (auto simp: waits_def has_counters_def present_def)
  with inv obtain h r a where h: "kv_live ks (key_for_run st y) = Some (RHash h)" "counters h r a"
      "a < r \<Longrightarrow> y \<notin> {} \<Longrightarrow> kv_expiry ks (key_for_run st y) = None" "\<And>p. (y, p) \<in> L \<Longrightarrow> a < p \<and> p \<le> r"
    using present_counters by metis
  then have "kv_expiry ks (key_for_run st y) = None" using yp \<open>yp = (y, p)\<close> by fastforce
  with w have "waits st ?ks y p"
    using entry_live_expiry [OF tick_entry] by (simp add: waits_def has_counters_def)
  ultimately show "case yp of (y, p) \<Rightarrow> waits st ?ks y p" by simp
qed

section \<open>The aggregation keys under every operation\<close>

datatype store_op =
    Op_Ingest ScenarioRunResult net
  | Op_Expire string net
  | Op_Finalize string ScenarioRunSummaryStatus net
  | Op_Acknowledge string u64 net
  | Op_Pending usize scan_net
  | Op_Due usize net
  | Op_Load string net
  | Op_Register DispatchWindow duration net

text \<open>The server after an operation, whatever it returns.\<close>

fun store_effect :: "'s redis \<Rightarrow> RedisRunAggregationStore \<Rightarrow> RedisDueStateStore \<Rightarrow> store_op \<Rightarrow> 's \<Rightarrow> 's" where
  "store_effect R st due (Op_Ingest r net) s = snd (store_ingest R st r net s)"
| "store_effect R st due (Op_Expire run_id net) s = snd (store_mark_expired R st run_id net s)"
| "store_effect R st due (Op_Finalize run_id status net) s = snd (store_finalize_run R st run_id status net s)"
| "store_effect R st due (Op_Acknowledge run_id revision net) s = snd (store_acknowledge_summary R st run_id revision net s)"
| "store_effect R st due (Op_Pending limit net) s = snd (store_pending_summaries R st limit net s)"
| "store_effect R st due (Op_Due limit net) s = snd (store_due_runs R st limit net s)"
| "store_effect R st due (Op_Load run_id net) s = snd (store_load_summary R st run_id net s)"
| "store_effect R st due (Op_Register w d net) s = snd (register_run R due w d net s)"

text \<open>Histories of the server: operations of any node in any order, the passing of time, and changes
  of other keys.\<close>

inductive aggregation_run ::
  "'s redis \<Rightarrow> ('s \<Rightarrow> keyspace) \<Rightarrow> RedisRunAggregationStore \<Rightarrow> RedisDueStateStore \<Rightarrow> 's \<Rightarrow> store_op list \<Rightarrow> 's \<Rightarrow> bool"
  for R :: "'s redis" and view :: "'s \<Rightarrow> keyspace" and st :: RedisRunAggregationStore and due :: RedisDueStateStore
    and start :: 's where
  run_start: "aggregation_run R view st due start [] start"
| run_operation: "aggregation_run R view st due start ops s \<Longrightarrow>
    aggregation_run R view st due start (ops @ [op]) (store_effect R st due op s)"
| run_time: "aggregation_run R view st due start ops s \<Longrightarrow> view s' = kv_tick us (view s) \<Longrightarrow>
    aggregation_run R view st due start ops s'"
| run_elsewhere: "aggregation_run R view st due start ops s \<Longrightarrow>
    (\<And>k. own_key st k \<Longrightarrow> kv_entry (view s') k = kv_entry (view s) k) \<Longrightarrow>
    aggregation_run R view st due start ops s'"

definition no_runs :: "RedisRunAggregationStore \<Rightarrow> keyspace \<Rightarrow> bool" where
  "no_runs st ks \<longleftrightarrow> (\<forall>k. own_key st k \<longrightarrow> kv_entry ks k = None)"

definition shares_prefix :: "RedisDueStateStore \<Rightarrow> RedisRunAggregationStore \<Rightarrow> bool" where
  "shares_prefix due st \<longleftrightarrow>
     (\<forall>config. aggregation_registration due = Some config \<longrightarrow> reg_key_prefix config = store_key_prefix st)"

definition spares :: "string \<times> int \<Rightarrow> store_op \<Rightarrow> bool" where
  "spares w op = (case op of Op_Acknowledge run_id revision _ \<Rightarrow> run_id = fst w \<longrightarrow> int (unat revision) < snd w | _ \<Rightarrow> True)"

lemma inv_empty: "no_runs st ks \<Longrightarrow> outbox_inv st n {} {} ks"
  by (auto simp: no_runs_def outbox_inv_def run_sound_def own_key_def kv_zset_def kv_expiry_def kv_live_def)

lemma preserves_invoke:
  assumes "\<And>s. P s \<Longrightarrow> Q s" "preserves P Q m"
  shows "preserves P Q (redis_invoke op net m)" "preserves P Q (run_redis_operation op net m)"
proof -
  have "Q (snd (redis_invoke op net m s))" if "P s" for s
    using redis_invoke_state [of op net m s] assms that by (auto simp: preserves_def)
  moreover have "snd (run_redis_operation op net m s) = snd (redis_invoke op net m s)" for s
    by (auto simp: run_redis_operation_def split: prod.splits sum.splits)
  ultimately show "preserves P Q (redis_invoke op net m)" "preserves P Q (run_redis_operation op net m)"
    by (simp_all add: preserves_def)
qed

lemma step_sim:
  "simulates view Q m m' \<Longrightarrow> inv_step st n L m' \<Longrightarrow>
   preserves (\<lambda>s. outbox_inv st n L {} (view s)) (\<lambda>s. outbox_inv st (Suc n) L {} (view s)) m"
  unfolding preserves_def by (auto simp: simulates_state dest: inv_stepD)

context redis_server
begin

lemma clean_one_inv:
  assumes n: "n < 10 ^ 14"
  shows "preserves (\<lambda>s. outbox_inv st n L {} (view s)) (\<lambda>s. outbox_inv st n L {} (view s))
    (clean_outbox_if_settled R st x net)"
  unfolding clean_outbox_if_settled_def
proof (rule preserves_bind [OF preserves_invoke(2) preserves_simple(1)])
  show "preserves (\<lambda>s. outbox_inv st n L {} (view s)) (\<lambda>s. outbox_inv st n L {} (view s))
      (clean_outbox_script R (key_for_run st x) (outbox_key st) x)"
    unfolding preserves_def simulates_state [OF clean_sim] by (blast intro: clean_safe [OF n])
qed

lemma clean_all_inv:
  assumes n: "n < 10 ^ 14"
  shows "preserves (\<lambda>s. outbox_inv st n L {} (view s)) (\<lambda>s. outbox_inv st n L {} (view s)) (clean_all R st nets run_ids)"
  unfolding preserves_def
proof (intro allI impI)
  show "outbox_inv st n L {} (view (snd (clean_all R st nets run_ids s)))" if "outbox_inv st n L {} (view s)" for s
    using that
  proof (induction run_ids arbitrary: s)
    case (Cons x run_ids)
    obtain r t where t: "clean_outbox_if_settled R st x (nets x) s = (r, t)" by force
    with clean_one_inv [OF n, of st L x "nets x"] Cons.prems have "outbox_inv st n L {} (view t)"
      unfolding preserves_def by (metis snd_conv)
    with Cons.IH [of t] t show ?case by (cases r) simp_all
  qed simp
qed

lemma snapshot_batch_sim: "preserves (\<lambda>s. P (view s)) (\<lambda>s. P (view s)) (snapshot_batch R st run_ids)"
proof -
  have get: "preserves (\<lambda>s. P (view s)) (\<lambda>s. P (view s)) (hgetall R k)" for k
    by (rule reads_sim [OF hgetall_sim reads_commands(3)])
  have "preserves (\<lambda>s. P (view s)) (\<lambda>s. P (view s)) (sfold (\<lambda>run_id vss.
      sbind (hgetall R (key_for_run st run_id)) (\<lambda>fvs. sreturn (vss @ [flat_entries fvs]))) run_ids acc)" for acc
  proof (induction run_ids arbitrary: acc)
    case (Cons x run_ids)
    show ?case unfolding sfold.simps by (intro preserves_bind get preserves_simple Cons.IH)
  qed (simp add: preserves_def)
  then show ?thesis unfolding snapshot_batch_def .
qed

lemma pending_inv:
  assumes n: "n < 10 ^ 14"
  shows "preserves (\<lambda>s. outbox_inv st n L {} (view s)) (\<lambda>s. outbox_inv st n L {} (view s))
    (store_pending_summaries R st limit net)"
  unfolding store_pending_summaries_def Let_def
  by (intro preserves_bind preserves_simple preserves_split preserves_invoke clean_all_inv [OF n] snapshot_batch_sim
        reads_sim [OF zrange_sim reads_commands(8)])

lemma acknowledge_inv:
  assumes n: "n < 10 ^ 14" and fresh: "\<And>p. (x, p) \<in> L \<Longrightarrow> int (unat revision) < p"
  shows "preserves (\<lambda>s. outbox_inv st n L {} (view s)) (\<lambda>s. outbox_inv st (Suc n) L {} (view s))
    (store_acknowledge_summary R st x revision net)"
  unfolding store_acknowledge_summary_def Let_def
  by (intro preserves_lift preserves_split preserves_simple preserves_last preserves_invoke step_sim [OF acknowledge_sim]
        acknowledge_step n fresh) (auto intro: inv_Suc)

lemma ingest_inv:
  assumes n: "Suc n < 10 ^ 14"
  shows "preserves (\<lambda>s. outbox_inv st n L {} (view s)) (\<lambda>s. outbox_inv st (Suc n) L {} (view s)) (store_ingest R st r net)"
proof -
  have "arg_run_id (ingest_args_of st r norm_r a b) = res_run_id r" for norm_r a b by (simp add: ingest_args_of_def)
  then have step: "inv_step st n L (ingest_script kv_redis (key_for_run st (res_run_id r)) (deadline_key st) (outbox_key st)
      (active_key st) (ingest_args_of st r norm_r a b))" for norm_r a b
    using ingest_step [OF n, of st L "ingest_args_of st r norm_r a b"] by simp
  show ?thesis
    unfolding store_ingest_def Let_def
    by (intro preserves_lift preserves_last preserves_invoke step_sim [OF ingest_script_sim] step) (auto intro: inv_Suc)
qed

lemma register_inv:
  assumes n: "n < 10 ^ 14" and due: "shares_prefix due st"
  shows "preserves (\<lambda>s. outbox_inv st n L {} (view s)) (\<lambda>s. outbox_inv st (Suc n) L {} (view s)) (register_run R due w d net)"
proof (cases "aggregation_registration due")
  case None
  then show ?thesis unfolding register_run_def Let_def by (simp add: preserves_def inv_Suc)
next
  case (Some config)
  with due have prefix: "reg_key_prefix config = store_key_prefix st" by (simp add: shares_prefix_def)
  have step: "inv_step st n L (register_script kv_redis ((reg_key_prefix config @ '':{runs}:'') @ ''run:'' @ win_run_id w)
      ((reg_key_prefix config @ '':{runs}:'') @ ''deadlines'') ((reg_key_prefix config @ '':{runs}:'') @ ''active'')
      (win_run_id w) sc v a4 a5 a6 a7)" for sc v a4 a5 a6 a7
    using register_step [OF n, of st L "win_run_id w"] by (simp add: prefix key_for_run_def deadline_key_def active_key_def)
  have keep: "preserves P Q m \<Longrightarrow> (\<And>s. P s \<Longrightarrow> Q s) \<Longrightarrow> (\<And>x. reads (k x)) \<Longrightarrow> preserves P Q (sbind m k)"
    for P Q :: "'s \<Rightarrow> bool" and m :: "('s, 'e, 'a) action" and k :: "'a \<Rightarrow> ('s, 'e, 'b) action"
    unfolding preserves_def reads_def sbind_def by (auto split: prod.splits sum.splits)
  have ends: "reads (case p of (code, message) \<Rightarrow> if code = 1 \<or> code = 2 then sreturn ()
      else if code = 3 \<or> code = 4 then serror (f message) else serror (g code))" for p :: "int \<times> string" and f g
    by (intro reads_cases reads_basic)
  show ?thesis
    unfolding register_run_def Let_def Some option.case
    by (intro preserves_split(1) preserves_simple(2) preserves_lift keep preserves_invoke(1) ends
          step_sim [OF registration_sim step]; erule inv_Suc)
qed

lemma effect_inv:
  assumes n: "Suc n < 10 ^ 14" and inv: "outbox_inv st n L {} (view s)" and due: "shares_prefix due st"
    and spared: "\<And>w. w \<in> L \<Longrightarrow> spares w op"
  shows "outbox_inv st (Suc n) L {} (view (store_effect R st due op s))"
proof -
  let ?I = "\<lambda>s. outbox_inv st n L {} (view s)" and ?J = "\<lambda>s. outbox_inv st (Suc n) L {} (view s)"
  have n': "n < 10 ^ 14" using n by simp
  have same: "?J (snd (m s))" if "preserves ?I ?I m" for m :: "('s, 'e, 'a) action"
    using that inv by (simp add: preserves_def inv_Suc)
  show ?thesis
  proof (cases op)
    case (Op_Ingest r net)
    with ingest_inv [OF n] inv show ?thesis by (simp add: preserves_def)
  next
    case (Op_Expire x net)
    have "preserves ?I ?J (store_mark_expired R st x net)"
      unfolding store_mark_expired_def Let_def
      by (intro preserves_lift preserves_last preserves_invoke step_sim [OF mark_expired_sim mark_expired_step [OF n]]; erule inv_Suc)
    with Op_Expire inv show ?thesis by (simp add: preserves_def)
  next
    case (Op_Finalize x status net)
    have "preserves ?I ?J (store_finalize_run R st x status net)"
      unfolding store_finalize_run_def Let_def
      by (intro preserves_lift preserves_last preserves_invoke step_sim [OF finalize_sim finalize_step [OF n]]; erule inv_Suc)
    with Op_Finalize inv show ?thesis by (simp add: preserves_def)
  next
    case (Op_Acknowledge x revision net)
    then have "\<And>p. (x, p) \<in> L \<Longrightarrow> int (unat revision) < p" using spared by (force simp: spares_def)
    from acknowledge_inv [OF n' this] Op_Acknowledge inv show ?thesis by (simp add: preserves_def)
  next
    case (Op_Pending limit net)
    then show ?thesis using same [OF pending_inv [OF n']] by simp
  next
    case (Op_Due limit net)
    have "simulates view (=) (due_runs_script R k a) (due_runs_script kv_redis k a)" for k a
      unfolding due_runs_script_def kv_redis_simps by (intro simulation now_sim command_sims)
    moreover have "reads (due_runs_script kv_redis k a)" for k a
      unfolding due_runs_script_def kv_redis_simps by (intro reads_rules)
    ultimately have "preserves ?I ?I (store_due_runs R st limit net)"
      unfolding store_due_runs_def by (intro preserves_lift preserves_invoke reads_sim)
    with Op_Due same show ?thesis by simp
  next
    case (Op_Load x net)
    have "preserves ?I ?I (store_load_summary R st x net)"
      unfolding store_load_summary_def load_snapshot_def Let_def
      by (intro preserves_lift preserves_last preserves_invoke preserves_bind preserves_simple
            reads_sim [OF hgetall_sim reads_commands(3)])
    with Op_Load same show ?thesis by simp
  next
    case (Op_Register w d net)
    with register_inv [OF n' due] inv show ?thesis by (simp add: preserves_def)
  qed
qed

lemma run_inv:
  assumes "aggregation_run R view st due start ops s" "outbox_inv st n L {} (view start)" "shares_prefix due st"
    and "n + length ops < 10 ^ 14" "\<And>w op. w \<in> L \<Longrightarrow> op \<in> set ops \<Longrightarrow> spares w op"
  shows "outbox_inv st (n + length ops) L {} (view s)"
  using assms
proof (induction rule: aggregation_run.induct)
  case (run_operation ops s op)
  then have "outbox_inv st (n + length ops) L {} (view s)" by simp
  from effect_inv [OF _ this run_operation.prems(2), of op] run_operation.prems show ?case by simp
next
  case (run_time ops s s' us)
  then show ?case using inv_tick by simp
next
  case (run_elsewhere ops s s')
  then show ?case using inv_cong [of st "n + length ops" L "{}" "view s" "view s'"] by blast
qed simp

end
text \<open>C5: No summary is lost: start from a server without runs and let any nodes perform any operations.
  Once revision \<open>p\<close> of the summary of a run waits for its publication, the run stays in the outbox and
  its hash has no expiry, with a revision from \<open>p\<close> on pending and none from \<open>p\<close> on acknowledged, until
  someone acknowledges a revision from \<open>p\<close> on.  Requests and replies may get lost, scripts may abort,
  and time may pass.  The bound on the number of operations is the range in which Lua prints
  revisions exactly.\<close>

theorem pending_summary_durable:
  assumes "redis_server R view" "shares_prefix due st" "no_runs st (view s0)"
    and "aggregation_run R view st due s0 before s" "waits st (view s) run p"
    and "aggregation_run R view st due s after s'" "\<And>op. op \<in> set after \<Longrightarrow> spares (run, p) op"
    and "length before + length after < 10 ^ 14"
  shows "\<exists>h r a z. kv_entry (view s') (key_for_run st run) = Some (RHash h, None) \<and> counters h r a \<and> a < p \<and> p \<le> r \<and>
     kv_zset (view s') (outbox_key st) = Some z \<and> fmlookup z run \<noteq> None"
proof -
  have "outbox_inv st (0 + length before) {} {} (view s)"
    using redis_server.run_inv [OF assms(1,4) inv_empty [OF assms(3)] assms(2), of 0] assms(8) by simp
  then have "outbox_inv st (length before) {(run, p)} {} (view s)"
    using assms(5) by (simp add: outbox_inv_def)
  then have inv: "outbox_inv st (length before + length after) {(run, p)} {} (view s')"
    by (rule redis_server.run_inv [OF assms(1,6) _ assms(2)]) (use assms(7,8) in auto)
  have "present st run (view s')"
    using inv_waits [OF inv, of run p] by (auto simp: waits_def has_counters_def present_def)
  with inv obtain h r a where h: "kv_live (view s') (key_for_run st run) = Some (RHash h)" "counters h r a"
    "a < r \<Longrightarrow> run \<notin> {} \<Longrightarrow> kv_expiry (view s') (key_for_run st run) = None" "a < r \<Longrightarrow> run \<notin> {} \<Longrightarrow> queued st (view s') run"
    "\<And>q. (run, q) \<in> {(run, p)} \<Longrightarrow> a < q \<and> q \<le> r"
    using present_counters by metis
  from h(5) [of p] have ap: "a < p" "p \<le> r" by auto
  then have q: "kv_expiry (view s') (key_for_run st run) = None" "queued st (view s') run" using h(3,4) by auto
  have "kv_entry (view s') (key_for_run st run) = Some (RHash h, None)"
    using h(1) q(1) by (cases "kv_entry (view s') (key_for_run st run)") (auto simp: kv_live_def kv_expiry_def)
  with h(2) ap q(2) show ?thesis unfolding queued_def by blast
qed

section \<open>A concrete run\<close>

definition sample_store :: RedisRunAggregationStore where
  "sample_store = \<lparr>store_key_prefix = ''agg'', store_partial_timeout = from_secs 1, store_retention_ttl = from_secs 60,
     store_operation_timeout = DEFAULT_OPERATION_TIMEOUT, store_max_error_kinds = DEFAULT_MAX_ERROR_KINDS,
     store_max_active_runs = DEFAULT_MAX_ACTIVE_RUNS, store_max_scan_limit = DEFAULT_MAX_SCAN_LIMIT\<rparr>"

definition sample_due :: RedisDueStateStore where
  "sample_due = \<lparr>schedule_prefix = ''due'', aggregation_registration = Some \<lparr>reg_key_prefix = ''agg'',
     reg_partial_timeout = from_secs 1, reg_retention = from_secs 60, reg_max_active_runs = 10\<rparr>\<rparr>"

definition sample_window :: DispatchWindow where
  "sample_window = \<lparr>win_scenario_id = ''s'', window_id = ''w'', win_run_id = ''w'', win_scheduled_at = 0,
     win_contract_version = 1, win_total_slices = 2, win_plan_fingerprint = ''p'', win_missing_slices = [0, 1]\<rparr>"

definition lost_reply :: net where
  "lost_reply = \<lparr>connecting = Delivered, invoking = NoReplyInTime True\<rparr>"

definition sample_start :: keyspace where
  "sample_start = \<lparr>ks_data = (\<lambda>_. None), ks_clock = 0\<rparr>"

definition sample_hash :: "(string, string) fmap" where
  "sample_hash = fmupds
     [(''scenario_id'', ''s''), (''run_id'', ''w''), (''schema_version'', ''1''), (''expected_slices'', ''2''),
      (''histogram_bounds'', []), (''status'', ''open''), (''received_slices'', ''0''), (''total'', ''0''),
      (''success'', ''0''), (''failure'', ''0''), (''error_kind_count'', ''0''), (''first_result_at'', ''0''),
      (''last_result_at'', ''0''), (''deadline_at'', ''1000''), (''finalized_at'', ''0''),
      (''summary_revision'', ''0''), (''summary_pending_revision'', ''0''), (''summary_ack_revision'', ''0'')] fmempty"

definition sample_registered :: keyspace where
  "sample_registered = kv_put_zset (active_key sample_store) (fmupd ''w'' 60000 fmempty)
     (kv_set_expiry (key_for_run sample_store ''w'') (Some 60000)
       (kv_put_zset (deadline_key sample_store) (fmupd ''w'' 1000 fmempty)
         (kv_put_hash (key_for_run sample_store ''w'') sample_hash
           (kv_put_zset (active_key sample_store) fmempty sample_start))))"

lemma digit_chars: "digit_char 0 = CHR ''0''" "digit_char 1 = CHR ''1''" "digit_char 2 = CHR ''2''" "digit_char 4 = CHR ''4''"
  "digit_char 5 = CHR ''5''" "digit_char 6 = CHR ''6''"
  by code_simp+

lemma sample_digits:
  "nat_str 1 = ''1''" "nat_str 2 = ''2''" "nat_str 10 = ''10''" "nat_str 1000 = ''1000''" "nat_str 60000 = ''60000''"
  by (simp_all add: nat_str.simps digit_chars del: One_nat_def)

lemma sample_numerals:
  "lua_tonumber ''1000'' = Some 1000" "lua_tonumber ''60000'' = Some 60000" "lua_tonumber ''10'' = Some 10"
  "lua_tonumber ''2'' = Some 2" "lua_tostring 2 = ''2''" "lua_tostring 1000 = ''1000''"
  "int_str 60000 = ''60000''" "int_str 10 = ''10''"
  "word_str (1 :: u16) = ''1''" "word_str (2 :: u32) = ''2''" "word_str (1000 :: u128) = ''1000''"
  using lua_tonumber_nat_str [of 1000] lua_tonumber_nat_str [of 60000] lua_tonumber_nat_str [of 10] lua_tonumber_nat_str [of 2]
  by (simp_all add: sample_digits lua_tostring_def int_str_def word_str_def del: One_nat_def)

lemma sample_ttl: "redis_int ''60000'' = Some 60000"
  using redis_int_int_str [of 60000] by (simp add: sample_numerals)

lemma sample_register_run:
  "store_effect kv_redis sample_store sample_due (Op_Register sample_window 0 lost_reply) sample_start = sample_registered"
proof -
  have absent: "kv_live sample_start k = None" "kv_zset sample_start k = Some fmempty" "kv_now sample_start = 0"
    "kv_expiry sample_start k = None" "kv_hash sample_start k = Some fmempty" for k
    by (simp_all add: sample_start_def kv_live_def kv_entry_def kv_zset_def kv_now_def kv_expiry_def kv_hash_def)
  have script: "snd (register_script kv_redis (key_for_run sample_store ''w'') (deadline_key sample_store) (active_key sample_store)
      ''w'' ''s'' ''1'' ''2'' ''1000'' ''60000'' ''10'' sample_start) = sample_registered"
    by (simp add: register_script_def sample_numerals sample_ttl absent MAX_EXACT_def lua_exact fcard_fempty sample_registered_def
        sample_hash_def)
  have key: "''agg'' @ '':{runs}:'' @ ''run:w'' = key_for_run sample_store ''w''"
    "''agg'' @ '':{runs}:'' @ ''deadlines'' = deadline_key sample_store" "''agg'' @ '':{runs}:'' @ ''active'' = active_key sample_store"
    by (simp_all add: key_for_run_def deadline_key_def active_key_def sample_store_def)
  have millis: "as_millis (from_secs 1) = 1000" "as_millis (from_secs 60) = 60000" "as_millis 0 = 0"
    by (simp_all add: as_millis_def from_secs_def)
  have run: "register_run kv_redis sample_due sample_window 0 lost_reply sample_start =
      (Inl (Timeout ''aggregation_register_run''), sample_registered)"
    using script unfolding key [symmetric]
    by (simp add: register_run_def sample_due_def sample_window_def lost_reply_def millis checked_add_def duration_ms_def try_i64_def
      redis_invoke_def redis_operation_def sbind_def sample_numerals Let_def del: One_nat_def)
  then show ?thesis by simp
qed

definition sample_expired :: keyspace where
  "sample_expired = store_effect kv_redis sample_store sample_due (Op_Expire ''w'' lost_reply)
     (kv_tick 5000000 sample_registered)"

lemma sample_trim: "trim ''w'' \<noteq> []"
  by code_simp

lemma sample_waits: "waits sample_store sample_expired ''w'' 1"
proof -
  let ?k = "key_for_run sample_store ''w''" and ?ks = "kv_tick 5000000 sample_registered"
  have now: "kv_now ?ks = 5000" "kv_now sample_start = 0"
    by (simp_all add: kv_now_def kv_tick_def sample_registered_def sample_start_def)
  have start: "kv_entry sample_start k = None" for k by (simp add: sample_start_def kv_entry_def)
  have live: "kv_entry ?ks ?k = Some (RHash sample_hash, Some 60000)"
    "kv_entry ?ks (deadline_key sample_store) = Some (RZset (fmupd ''w'' 1000 fmempty), None)"
    "kv_entry ?ks (outbox_key sample_store) = None"
    "kv_entry ?ks (active_key sample_store) = Some (RZset (fmupd ''w'' 60000 fmempty), None)"
    unfolding kv_entry_tick now
    by (simp_all add: sample_registered_def start now kv_expiry_def sample_hash_def)
  have hash: "kv_hash ?ks ?k = Some sample_hash" "kv_live ?ks ?k = Some (RHash sample_hash)"
    and zsets: "kv_zset ?ks (deadline_key sample_store) = Some (fmupd ''w'' 1000 fmempty)"
    "kv_zset ?ks (outbox_key sample_store) = Some fmempty"
    "kv_zset ?ks (active_key sample_store) = Some (fmupd ''w'' 60000 fmempty)"
    using live by (simp_all add: kv_hash_def kv_zset_def kv_live_def)
  have zero: "redis_int ''0'' = Some 0" "redis_int ''1'' = Some 1"
    using redis_int_int_str [of 0] redis_int_int_str [of 1] by (simp_all add: int_str_small)
  have "has_counters sample_store (snd (mark_expired_script kv_redis ?k (deadline_key sample_store) (outbox_key sample_store)
      (active_key sample_store) ''60000'' ''w'' ?ks)) ''w'' 1 0"
    by (simp add: mark_expired_script_def close_run_def enqueue_summary_def hget_optional_def final_status_def hash zsets now
        sample_numerals MAX_EXACT_def lua_exact sample_hash_def zero snapshot_reply_def has_counters_def counters_def
        int_str_small lua_tostring_def)
  moreover have "sample_expired = snd (mark_expired_script kv_redis ?k (deadline_key sample_store) (outbox_key sample_store)
      (active_key sample_store) ''60000'' ''w'' ?ks)"
  proof -
    have "checked_duration_ms op (store_retention_ttl sample_store) = Inr 60000" for op
      by (simp add: checked_duration_ms_def sample_store_def as_millis_def from_secs_def)
    moreover have "validate_identity f ''w'' = Inr ()" for f
      unfolding validate_identity_def MAX_IDENTITY_BYTES_def by (simp add: sample_trim)
    ultimately show ?thesis
      by (simp add: sample_expired_def store_mark_expired_def run_redis_operation_def redis_invoke_def redis_operation_def
          lost_reply_def sbind_def sample_numerals)
  qed
  ultimately show ?thesis unfolding waits_def by (intro exI [of _ 1] exI [of _ 0]) simp
qed

theorem pending_summary_durable_witness:
  "\<exists>h r a z. kv_entry (store_effect kv_redis sample_store sample_due (Op_Finalize ''w'' Partial lost_reply) sample_expired)
       (key_for_run sample_store ''w'') = Some (RHash h, None) \<and> counters h r a \<and> a < 1 \<and> 1 \<le> r \<and>
     kv_zset (store_effect kv_redis sample_store sample_due (Op_Finalize ''w'' Partial lost_reply) sample_expired)
       (outbox_key sample_store) = Some z \<and> fmlookup z ''w'' \<noteq> None"
proof -
  let ?run = "aggregation_run kv_redis id sample_store sample_due"
  have "?run sample_start [Op_Register sample_window 0 lost_reply] sample_registered"
    using run_operation [OF run_start, of kv_redis id sample_store sample_due sample_start "Op_Register sample_window 0 lost_reply"]
    by (simp only: sample_register_run append_Nil)
  from run_operation [OF run_time [OF this], of "kv_tick 5000000 sample_registered" 5000000 "Op_Expire ''w'' lost_reply"]
  have before: "?run sample_start [Op_Register sample_window 0 lost_reply, Op_Expire ''w'' lost_reply] sample_expired"
    by (simp add: sample_expired_def)
  have after: "?run sample_expired [Op_Finalize ''w'' Partial lost_reply]
      (store_effect kv_redis sample_store sample_due (Op_Finalize ''w'' Partial lost_reply) sample_expired)"
    using run_operation [OF run_start] by (metis append_Nil)
  have "shares_prefix sample_due sample_store" by (simp add: shares_prefix_def sample_due_def sample_store_def)
  moreover have "no_runs sample_store (id sample_start)" by (simp add: no_runs_def sample_start_def kv_entry_def)
  ultimately show ?thesis
    using pending_summary_durable [OF kv.redis_server_axioms _ _ before _ after, of "''w''" 1] sample_waits
    by (simp add: spares_def)
qed

end
