(* ===== verification/Receptions.thy ===== *)
theory Receptions
  imports Traces
begin

text \<open>
  Consumers that process one message at a time.  \<open>rcv\<close> tells which events of a history receive a
  message; \<open>since rcv h\<close> is the last message received, with the events after its reception.
\<close>

definition since_event :: "('ev \<Rightarrow> 'm option) \<Rightarrow> ('m \<times> 'ev list) option \<Rightarrow> 'ev \<Rightarrow> ('m \<times> 'ev list) option" where
  "since_event rcv s e = (case rcv e of Some m \<Rightarrow> Some (m, []) | None \<Rightarrow> map_option (\<lambda>(m, es). (m, es @ [e])) s)"

definition since :: "('ev \<Rightarrow> 'm option) \<Rightarrow> 'ev list \<Rightarrow> ('m \<times> 'ev list) option" where
  "since rcv h = foldl (since_event rcv) None h"

definition silent :: "('ev \<Rightarrow> 'm option) \<Rightarrow> 'ev list \<Rightarrow> bool" where
  "silent rcv es = list_all (\<lambda>e. rcv e = None) es"

lemma silent_simps [simp]:
  "silent rcv []" "silent rcv (e # es) \<longleftrightarrow> rcv e = None \<and> silent rcv es"
  "silent rcv (es @ fs) \<longleftrightarrow> silent rcv es \<and> silent rcv fs"
  by (simp_all add: silent_def)

lemma since_Nil [simp]: "since rcv [] = None"
  by (simp add: since_def)

lemma since_snoc_None [simp]: "rcv e = None \<Longrightarrow> since rcv (h @ [e]) = map_option (\<lambda>(m, es). (m, es @ [e])) (since rcv h)"
  by (simp add: since_def since_event_def)

lemma since_snoc_Some [simp]: "rcv e = Some m \<Longrightarrow> since rcv (h @ [e]) = Some (m, [])"
  by (simp add: since_def since_event_def)

lemma since_append: "silent rcv es \<Longrightarrow> since rcv (h @ es) = map_option (\<lambda>(m, fs). (m, fs @ es)) (since rcv h)"
proof (induction es rule: rev_induct)
  case (snoc e es)
  then show ?case using since_snoc_None [of rcv e "h @ es"] by (cases "since rcv h") auto
qed (simp add: option.map_id)

lemma since_received: "rcv e = Some m \<Longrightarrow> silent rcv es \<Longrightarrow> since rcv (as @ e # es) = Some (m, es)"
  using since_append [of rcv es "as @ [e]"] by simp

lemma since_SomeD:
  "since rcv h = Some (m, es) \<Longrightarrow> \<exists>as e. h = as @ e # es \<and> rcv e = Some m \<and> silent rcv es"
proof (induction h arbitrary: es rule: rev_induct)
  case (snoc e h)
  show ?case
  proof (cases "rcv e")
    case None
    with snoc.prems obtain es' where "since rcv h = Some (m, es')" "es = es' @ [e]" by auto
    with snoc.IH None show ?thesis by fastforce
  next
    case (Some m')
    with snoc.prems show ?thesis by auto
  qed
qed simp

text \<open>A message is settled by a fact about its events that later events keep.\<close>

definition all_settled :: "('ev \<Rightarrow> 'm option) \<Rightarrow> ('m \<Rightarrow> 'ev list \<Rightarrow> bool) \<Rightarrow> 'ev list \<Rightarrow> bool" where
  "all_settled rcv settled h \<longleftrightarrow> (case since rcv h of None \<Rightarrow> True | Some (m, es) \<Rightarrow> settled m es)"

lemma all_settled_Nil [simp]: "all_settled rcv settled []"
  by (simp add: all_settled_def)

lemma all_settled_append:
  "(\<And>m es fs. settled m es \<Longrightarrow> settled m (es @ fs)) \<Longrightarrow> all_settled rcv settled h \<Longrightarrow> silent rcv es
     \<Longrightarrow> all_settled rcv settled (h @ es)"
  by (auto simp: all_settled_def since_append split: option.splits)

end
