(* ===== verification/Aggregation_Service.thy ===== *)
theory Aggregation_Service
  imports Aggregation_Store Receptions
begin

text \<open>
  The aggregation runtime, \<open>application/aggregation_service.rs\<close>: results are consumed from the broker
  and ingested into the durable store, due runs are expired, and the summaries of the outbox are
  published and acknowledged.  The store, the broker and the clock are the environment, which answers
  every call from the history so far.  An awaited call is answered by its reply, or it is cut off by
  the deadline around it, whether or not it had its effect.  The tasks of a join set are interleaved
  by the environment, one awaited call at a time.
\<close>

section \<open>Calls\<close>

text \<open>A consumed record, the trait \<open>CommitableResult\<close>: its position in the topic, the decoded result,
  and the poison record for a reason.\<close>

record result_record =
  rr_offset :: nat
  rr_result :: "(contract_error, ScenarioRunResult) result"
  rr_poison_record :: "string \<Rightarrow> PoisonMessageRecord"

text \<open>Why an awaited call gives no reply: the deadline around it dropped it, or it panicked.\<close>

datatype lost = Cut_Off | Panicked string

type_synonym ('e, 'a) reply = "(lost, ('e, 'a) result) result"

text \<open>What wakes the loop: a change of the shutdown channel (with the flag that it is closed), the
  interval of the scan, or the consumer.\<close>

datatype wake =
    Shutdown_Changed bool
  | Scan_Tick
  | Record_Received "(string, result_record option) result"

datatype agg_event =
    Woke wake
  | Shutdown_Read bool
  | Clock_Read u128
  | Ingested ScenarioRunResult u128 "(RunAggregationStoreError, RunAggregationUpdate) reply"
  | Poisoned PoisonMessageRecord "(string, unit) reply"
  | Committed_Offset nat "(string, unit) reply"
  | Due_Runs u128 usize "(RunAggregationStoreError, string list) reply"
  | Expired string u128 "(RunAggregationStoreError, RunExpiryOutcome) reply"
  | Pending_Summaries usize "(RunAggregationStoreError, DurableRunSummary list) reply"
  | Published ScenarioRunSummaryEvent "(string, unit) reply"
  | Acknowledged_Summary string u64 "(RunAggregationStoreError, SummaryAcknowledgement) reply"

type_synonym agg_history = "agg_event list"
type_synonym 'a agg_action = "(agg_history, lost, 'a) action"
type_synonym ('e, 'a) agg_call = "('e, 'a) result agg_action"

record agg_env =
  on_wake :: "agg_history \<Rightarrow> wake"
  on_shutdown :: "agg_history \<Rightarrow> bool"
  on_clock :: "agg_history \<Rightarrow> u128"
  on_ingest :: "agg_history \<Rightarrow> ScenarioRunResult \<Rightarrow> u128 \<Rightarrow> (RunAggregationStoreError, RunAggregationUpdate) reply"
  on_poison :: "agg_history \<Rightarrow> PoisonMessageRecord \<Rightarrow> (string, unit) reply"
  on_commit :: "agg_history \<Rightarrow> nat \<Rightarrow> (string, unit) reply"
  on_due :: "agg_history \<Rightarrow> u128 \<Rightarrow> usize \<Rightarrow> (RunAggregationStoreError, string list) reply"
  on_expire :: "agg_history \<Rightarrow> string \<Rightarrow> u128 \<Rightarrow> (RunAggregationStoreError, RunExpiryOutcome) reply"
  on_pending :: "agg_history \<Rightarrow> usize \<Rightarrow> (RunAggregationStoreError, DurableRunSummary list) reply"
  on_publish :: "agg_history \<Rightarrow> ScenarioRunSummaryEvent \<Rightarrow> (string, unit) reply"
  on_acknowledge :: "agg_history \<Rightarrow> string \<Rightarrow> u64 \<Rightarrow> (RunAggregationStoreError, SummaryAcknowledgement) reply"
  on_schedule :: "agg_history \<Rightarrow> nat"

definition next_wake :: "agg_env \<Rightarrow> wake agg_action" where
  "next_wake E = read_clock (on_wake E) Woke"

definition shutdown_seen :: "agg_env \<Rightarrow> bool agg_action" where
  "shutdown_seen E = read_clock (on_shutdown E) Shutdown_Read"

definition agg_now :: "agg_env \<Rightarrow> u128 agg_action" where
  "agg_now E = read_clock (on_clock E) Clock_Read"

definition agg_ingest :: "agg_env \<Rightarrow> ScenarioRunResult \<Rightarrow> u128 \<Rightarrow> (RunAggregationStoreError, RunAggregationUpdate) agg_call" where
  "agg_ingest E r now = perform (\<lambda>h. on_ingest E h r now) (Ingested r now)"

definition agg_poison :: "agg_env \<Rightarrow> PoisonMessageRecord \<Rightarrow> (string, unit) agg_call" where
  "agg_poison E p = perform (\<lambda>h. on_poison E h p) (Poisoned p)"

definition agg_commit :: "agg_env \<Rightarrow> nat \<Rightarrow> (string, unit) agg_call" where
  "agg_commit E i = perform (\<lambda>h. on_commit E h i) (Committed_Offset i)"

definition agg_due :: "agg_env \<Rightarrow> u128 \<Rightarrow> usize \<Rightarrow> (RunAggregationStoreError, string list) agg_call" where
  "agg_due E now limit = perform (\<lambda>h. on_due E h now limit) (Due_Runs now limit)"

definition agg_expire :: "agg_env \<Rightarrow> string \<Rightarrow> u128 \<Rightarrow> (RunAggregationStoreError, RunExpiryOutcome) agg_call" where
  "agg_expire E run now = perform (\<lambda>h. on_expire E h run now) (Expired run now)"

definition agg_pending :: "agg_env \<Rightarrow> usize \<Rightarrow> (RunAggregationStoreError, DurableRunSummary list) agg_call" where
  "agg_pending E limit = perform (\<lambda>h. on_pending E h limit) (Pending_Summaries limit)"

definition agg_publish :: "agg_env \<Rightarrow> ScenarioRunSummaryEvent \<Rightarrow> (string, unit) agg_call" where
  "agg_publish E ev = perform (\<lambda>h. on_publish E h ev) (Published ev)"

definition agg_acknowledge :: "agg_env \<Rightarrow> string \<Rightarrow> u64 \<Rightarrow> (RunAggregationStoreError, SummaryAcknowledgement) agg_call" where
  "agg_acknowledge E run revision = perform (\<lambda>h. on_acknowledge E h run revision) (Acknowledged_Summary run revision)"

lemmas agg_calls = next_wake_def shutdown_seen_def agg_now_def agg_ingest_def agg_poison_def agg_commit_def agg_due_def
  agg_expire_def agg_pending_def agg_publish_def agg_acknowledge_def

section \<open>Configuration\<close>

record AggregationRuntimeConfig =
  arc_scan_interval :: duration
  arc_scan_batch_limit :: usize
  arc_outbox_batch_limit :: usize
  arc_shutdown_drain_timeout :: duration
  arc_max_processing_interval :: duration

definition default_aggregation_config :: AggregationRuntimeConfig where
  "default_aggregation_config = \<lparr>arc_scan_interval = from_secs 1, arc_scan_batch_limit = 128, arc_outbox_batch_limit = 128,
     arc_shutdown_drain_timeout = from_secs 10, arc_max_processing_interval = from_secs 299\<rparr>"

definition new_aggregation_runtime :: "AggregationRuntimeConfig \<Rightarrow> (string, AggregationRuntimeConfig) result" where
  "new_aggregation_runtime cfg =
     try_res (check_all
       [reject_if (arc_scan_interval cfg = 0) ''aggregation scan interval must be greater than zero'',
        reject_if (arc_scan_batch_limit cfg = 0 \<or> arc_outbox_batch_limit cfg = 0)
          ''aggregation scan and outbox limits must be greater than zero'',
        reject_if (arc_shutdown_drain_timeout cfg = 0) ''aggregation shutdown drain timeout must be greater than zero'',
        reject_if (arc_max_processing_interval cfg = 0) ''aggregation processing interval must be greater than zero''])
     (\<lambda>_. Inr cfg)"

definition store_error_display :: "RunAggregationStoreError \<Rightarrow> string" where
  "store_error_display e = (case e of
     Store_Contract c \<Rightarrow> ''invalid result contract: '' @ contract_error_display c
   | Store_Unavailable op msg \<Rightarrow> ''aggregation operation '' @ quoted op @ '' is unavailable: '' @ msg
   | Store_Timeout op \<Rightarrow> ''aggregation operation '' @ quoted op @ '' timed out''
   | Store_InvalidState op msg \<Rightarrow> ''aggregation operation '' @ quoted op @ '' found invalid state: '' @ msg
   | InconsistentResult msg \<Rightarrow> ''inconsistent aggregate result: '' @ msg
   | ErrorKindCapacity n \<Rightarrow> ''aggregation error-kind capacity of '' @ word_str n @ '' was exceeded''
   | ActiveRunCapacity n \<Rightarrow> ''aggregation active-run capacity of '' @ word_str n @ '' was exhausted'')"

section \<open>Results\<close>

definition prefix_error :: "string \<Rightarrow> (string, 'a) result \<Rightarrow> (string, 'a) result" where
  "prefix_error p r = (case r of Inl e \<Rightarrow> Inl (p @ e) | Inr x \<Rightarrow> Inr x)"

definition dead_letter_and_commit :: "agg_env \<Rightarrow> result_record \<Rightarrow> string \<Rightarrow> (string, unit) agg_call" where
  "dead_letter_and_commit E rec reason =
     sbind (agg_poison E (rr_poison_record rec reason)) (\<lambda>published.
     case published of
       Inl e \<Rightarrow> sreturn (Inl (''result poison DLQ publication failed; source offset remains uncommitted: '' @ e))
     | Inr _ \<Rightarrow>
         sbind (agg_commit E (rr_offset rec)) (\<lambda>committed.
         sreturn (prefix_error ''result poison was published but synchronous source commit failed: '' committed)))"

fun is_poison_error :: "RunAggregationStoreError \<Rightarrow> bool" where
  "is_poison_error (Store_Contract _) = True"
| "is_poison_error (InconsistentResult _) = True"
| "is_poison_error (ErrorKindCapacity _) = True"
| "is_poison_error _ = False"

definition agg_process_record :: "agg_env \<Rightarrow> result_record \<Rightarrow> (string, unit) agg_call" where
  "agg_process_record E rec = (case rr_result rec of
     Inl e \<Rightarrow> dead_letter_and_commit E rec (''invalid result contract: '' @ contract_error_display e)
   | Inr r \<Rightarrow>
       sbind (agg_now E) (\<lambda>now.
       sbind (agg_ingest E r now) (\<lambda>reply.
       case reply of
         Inl e \<Rightarrow>
           if is_poison_error e then dead_letter_and_commit E rec (store_error_display e)
           else sreturn (Inl (''result aggregation failed before durable acceptance; source offset remains uncommitted: ''
             @ store_error_display e))
       | Inr _ \<Rightarrow>
           sbind (agg_commit E (rr_offset rec)) (\<lambda>committed.
           sreturn (prefix_error (''result was durably aggregated but synchronous source commit failed; ''
             @ ''duplicate redelivery is safe: '') committed)))))"

text \<open>A deadline turns a cut-off into an error; a panic passes through it.\<close>

definition agg_deadline :: "string \<Rightarrow> (string, unit) agg_call \<Rightarrow> (string, unit) agg_call" where
  "agg_deadline message m h = (case m h of (Inl Cut_Off, h') \<Rightarrow> (Inr (Inl message), h') | reply \<Rightarrow> reply)"

definition process_record_with_deadline ::
  "agg_env \<Rightarrow> AggregationRuntimeConfig \<Rightarrow> result_record \<Rightarrow> (string, unit) agg_call" where
  "process_record_with_deadline E cfg rec =
     agg_deadline (''result processing exceeded its '' @ nat_str (as_millis (arc_max_processing_interval cfg))
       @ '' ms Kafka-safe bound; source offset remains unsettled'') (agg_process_record E rec)"

section \<open>Maintenance\<close>

text \<open>The tasks of the join sets: the expiry of a run, and the publication of a summary, which goes
  on to its acknowledgement.\<close>

datatype agg_task =
    Expire_Task string u128
  | Publish_Task DurableRunSummary
  | Acknowledge_Task ScenarioRunSummaryEvent

definition summary_event :: "DurableRunSummary \<Rightarrow> ScenarioRunSummaryEvent" where
  "summary_event d = \<lparr>ev_schema_version = CURRENT_CONTRACT_VERSION, ev_event_id = dur_event_id d,
     ev_revision = dur_revision d, ev_summary = dur_summary d\<rparr>"

lemma summary_event_sel: "ev_summary (summary_event d) = dur_summary d" "ev_revision (summary_event d) = dur_revision d"
  by (simp_all add: summary_event_def)

text \<open>One awaited call of a task: the rest of the task, or its result.\<close>

fun task_step :: "agg_env \<Rightarrow> agg_task \<Rightarrow> (agg_task + (string, unit) result) agg_action" where
  "task_step E (Expire_Task run now) =
     sbind (agg_expire E run now) (\<lambda>reply. sreturn (Inr (case reply of
       Inl e \<Rightarrow> Inl (''failed to finalize expired aggregate '' @ quoted run @ '': '' @ store_error_display e)
     | Inr _ \<Rightarrow> Inr ())))"
| "task_step E (Publish_Task d) =
     sbind (agg_publish E (summary_event d)) (\<lambda>reply. sreturn (case reply of
       Inl e \<Rightarrow> Inr (Inl (''summary '' @ quoted (dur_event_id d)
         @ '' publication failed; Redis outbox remains pending: '' @ e))
     | Inr _ \<Rightarrow> Inl (Acknowledge_Task (summary_event d))))"
| "task_step E (Acknowledge_Task ev) =
     sbind (agg_acknowledge E (sum_run_id (ev_summary ev)) (ev_revision ev)) (\<lambda>reply. sreturn (Inr (case reply of
       Inl e \<Rightarrow> Inl (''summary '' @ quoted (ev_event_id ev)
         @ '' was published but its Redis outbox acknowledgement failed: '' @ store_error_display e)
     | Inr Acknowledgement_Missing \<Rightarrow>
         Inl (''summary '' @ quoted (ev_event_id ev) @ '' was published but its durable run disappeared'')
     | Inr _ \<Rightarrow> Inr ())))"

text \<open>How a panic of the task is reported.\<close>

fun task_panic :: "agg_task \<Rightarrow> string \<Rightarrow> string" where
  "task_panic (Expire_Task run now) e = ''aggregation expiration task failed: '' @ e"
| "task_panic _ e = ''aggregation publication task failed: '' @ e"

fun task_weight :: "agg_task \<Rightarrow> nat" where
  "task_weight (Publish_Task d) = 2"
| "task_weight _ = 1"

lemma task_step_weight: "task_step E t h = (Inr (Inl t'), h') \<Longrightarrow> task_weight t' < task_weight t"
  by (cases t) (auto simp: agg_calls perform_def sbind_def sreturn_def Let_def split: sum.splits)

lemma task_weight_pos [simp]: "0 < task_weight t"
  by (cases t) simp_all

lemma update_weight:
  "i < length ts \<Longrightarrow> task_weight t' < task_weight (ts ! i) \<Longrightarrow>
   sum_list (map task_weight (ts[i := t'])) < sum_list (map task_weight ts)"
  by (induction ts arbitrary: i) (auto split: nat.splits)

definition without :: "nat \<Rightarrow> 'a list \<Rightarrow> 'a list" where
  "without i xs = take i xs @ drop (Suc i) xs"

lemma set_without: "set (without i xs) \<subseteq> set xs"
  using set_take_subset [of i xs] set_drop_subset [of "Suc i" xs] by (auto simp: without_def)

lemma without_weight:
  "i < length ts \<Longrightarrow> sum_list (map task_weight (without i ts)) < sum_list (map task_weight ts)"
  by (induction ts arbitrary: i) (auto simp: without_def add_strict_mono less_Suc_eq_0_disj split: nat.splits)

text \<open>The join set: the environment picks the task that makes the next call, a finished task is
  joined, and the first error is kept.  The deadline drops the set.\<close>

definition keep_first :: "string option \<Rightarrow> (string, unit) result \<Rightarrow> string option" where
  "keep_first first_error r = (case first_error of Some e \<Rightarrow> Some e | None \<Rightarrow> (case r of Inl e \<Rightarrow> Some e | Inr _ \<Rightarrow> None))"

function join_all :: "agg_env \<Rightarrow> agg_task list \<Rightarrow> string option \<Rightarrow> (string, unit) agg_call" where
  "join_all E ts first_error h =
     (if ts = [] then (Inr (case first_error of None \<Rightarrow> Inr () | Some e \<Rightarrow> Inl e), h)
      else
        let i = on_schedule E h mod length ts in
        case task_step E (ts ! i) h of
          (Inl Cut_Off, h') \<Rightarrow> (Inl Cut_Off, h')
        | (Inl (Panicked e), h') \<Rightarrow> join_all E (without i ts) (keep_first first_error (Inl (task_panic (ts ! i) e))) h'
        | (Inr (Inl t), h') \<Rightarrow> join_all E (ts[i := t]) first_error h'
        | (Inr (Inr r), h') \<Rightarrow> join_all E (without i ts) (keep_first first_error r) h')"
  by pat_completeness auto
termination
  by (relation "measure (\<lambda>(E, ts, first_error, h). sum_list (map task_weight ts))")
     (auto simp: without_weight intro!: update_weight intro: task_step_weight [OF sym])

declare join_all.simps [simp del]

definition expire_due_runs :: "agg_env \<Rightarrow> AggregationRuntimeConfig \<Rightarrow> (string, unit) agg_call" where
  "expire_due_runs E cfg =
     sbind (agg_now E) (\<lambda>now.
     sbind (agg_due E now (arc_scan_batch_limit cfg)) (\<lambda>reply.
     case reply of
       Inl e \<Rightarrow> sreturn (Inl (''aggregation deadline scan failed: '' @ store_error_display e))
     | Inr due \<Rightarrow> join_all E (map (\<lambda>run. Expire_Task run now) due) None))"

definition publish_pending :: "agg_env \<Rightarrow> AggregationRuntimeConfig \<Rightarrow> (string, unit) agg_call" where
  "publish_pending E cfg =
     sbind (agg_pending E (arc_outbox_batch_limit cfg)) (\<lambda>reply.
     case reply of
       Inl e \<Rightarrow> sreturn (Inl (''aggregation outbox scan failed: '' @ store_error_display e))
     | Inr pending \<Rightarrow> join_all E (map Publish_Task pending) None)"

definition maintenance :: "agg_env \<Rightarrow> AggregationRuntimeConfig \<Rightarrow> (string, unit) agg_call" where
  "maintenance E cfg =
     sbind (expire_due_runs E cfg) (\<lambda>r. case r of Inl e \<Rightarrow> sreturn (Inl e) | Inr _ \<Rightarrow> publish_pending E cfg)"

definition maintenance_with_deadline :: "agg_env \<Rightarrow> AggregationRuntimeConfig \<Rightarrow> string \<Rightarrow> (string, unit) agg_call" where
  "maintenance_with_deadline E cfg phase =
     agg_deadline (''aggregation '' @ phase @ '' maintenance exceeded its ''
       @ nat_str (as_millis (arc_max_processing_interval cfg)) @ '' ms Kafka-safe bound'') (maintenance E cfg)"

section \<open>The loop\<close>

text \<open>One turn: \<open>Inr True\<close> goes on, \<open>Inr False\<close> leaves the loop for the shutdown.\<close>

definition agg_turn :: "agg_env \<Rightarrow> AggregationRuntimeConfig \<Rightarrow> (string, bool) agg_call" where
  "agg_turn E cfg =
     sbind (shutdown_seen E) (\<lambda>stop.
     if stop then sreturn (Inr False)
     else sbind (next_wake E) (\<lambda>w. case w of
       Shutdown_Changed gone \<Rightarrow>
         if gone then sreturn (Inr False) else sbind (shutdown_seen E) (\<lambda>stop. sreturn (Inr (\<not> stop)))
     | Scan_Tick \<Rightarrow> sbind (maintenance_with_deadline E cfg ''periodic'') (\<lambda>r. sreturn (map_sum id (\<lambda>_. True) r))
     | Record_Received polled \<Rightarrow> (case polled of
         Inl e \<Rightarrow> sreturn (Inl e)
       | Inr None \<Rightarrow> sreturn (Inr True)
       | Inr (Some rec) \<Rightarrow> sbind (process_record_with_deadline E cfg rec) (\<lambda>r. sreturn (map_sum id (\<lambda>_. True) r)))))"

text \<open>The loop up to a number of turns; \<open>None\<close> when it is still running after them.\<close>

fun agg_loop :: "agg_env \<Rightarrow> AggregationRuntimeConfig \<Rightarrow> nat \<Rightarrow> (string, unit) result option agg_action" where
  "agg_loop E cfg 0 = sreturn None"
| "agg_loop E cfg (Suc n) =
     sbind (agg_turn E cfg) (\<lambda>r. case r of
       Inl e \<Rightarrow> sreturn (Some (Inl e))
     | Inr go_on \<Rightarrow> if go_on then agg_loop E cfg n else sreturn (Some (Inr ())))"

definition final_flush :: "agg_env \<Rightarrow> AggregationRuntimeConfig \<Rightarrow> (string, unit) agg_call" where
  "final_flush E cfg =
     agg_deadline ''aggregation drain deadline expired; outbox remains durable for restart'' (publish_pending E cfg)"

definition aggregation_runtime :: "agg_env \<Rightarrow> AggregationRuntimeConfig \<Rightarrow> nat \<Rightarrow> (string, unit) result option agg_action" where
  "aggregation_runtime E cfg n =
     sbind (maintenance_with_deadline E cfg ''startup'') (\<lambda>r. case r of
       Inl e \<Rightarrow> sreturn (Some (Inl e))
     | Inr _ \<Rightarrow>
         sbind (agg_loop E cfg n) (\<lambda>ended.
         if ended = Some (Inr ()) then sbind (final_flush E cfg) (\<lambda>_. sreturn (Some (Inr ()))) else sreturn ended))"

section \<open>What the runtime may do after which history\<close>

text \<open>The record under processing, with the events since its reception.\<close>

definition received :: "agg_event \<Rightarrow> result_record option" where
  "received e = (case e of Woke (Record_Received (Inr (Some rec))) \<Rightarrow> Some rec | _ \<Rightarrow> None)"

lemma received_iff: "received e = Some rec \<longleftrightarrow> e = Woke (Record_Received (Inr (Some rec)))"
  by (auto simp: received_def split: agg_event.splits wake.splits sum.splits option.splits)

lemma received_woke [simp]: "received (Woke (Record_Received (Inr (Some rec)))) = Some rec"
  by (simp add: received_iff)

lemma since_record: "silent received es \<Longrightarrow> since received (as @ Woke (Record_Received (Inr (Some rec))) # es) = Some (rec, es)"
  by (rule since_received) simp_all

text \<open>The durable disposition of a record: its result was ingested, or its poison record was
  published, for a result that does not decode or that the store refuses for good.\<close>

definition poison_reason :: "result_record \<Rightarrow> agg_history \<Rightarrow> string \<Rightarrow> bool" where
  "poison_reason rec es reason \<longleftrightarrow>
     (\<exists>e. rr_result rec = Inl e \<and> reason = ''invalid result contract: '' @ contract_error_display e)
   \<or> (\<exists>r now e. rr_result rec = Inr r \<and> Ingested r now (Inr (Inl e)) \<in> set es \<and> is_poison_error e
        \<and> reason = store_error_display e)"

definition result_disposed :: "result_record \<Rightarrow> agg_history \<Rightarrow> bool" where
  "result_disposed rec es \<longleftrightarrow>
     (\<exists>r now u. rr_result rec = Inr r \<and> Ingested r now (Inr (Inr u)) \<in> set es)
   \<or> (\<exists>reason. Poisoned (rr_poison_record rec reason) (Inr (Inr ())) \<in> set es \<and> poison_reason rec es reason)"

definition committed :: "result_record \<Rightarrow> agg_history \<Rightarrow> bool" where
  "committed rec es \<longleftrightarrow> Committed_Offset (rr_offset rec) (Inr (Inr ())) \<in> set es"

abbreviation all_committed :: "agg_history \<Rightarrow> bool" where
  "all_committed \<equiv> all_settled received committed"

lemma committed_append: "committed rec es \<Longrightarrow> committed rec (es @ fs)"
  by (simp add: committed_def)

text \<open>A summary of the outbox, and a publication the broker acknowledged.\<close>

definition pending_event :: "agg_history \<Rightarrow> ScenarioRunSummaryEvent \<Rightarrow> bool" where
  "pending_event h ev \<longleftrightarrow> (\<exists>limit ds. Pending_Summaries limit (Inr (Inr ds)) \<in> set h \<and> ev \<in> summary_event ` set ds)"

definition delivered_summary :: "agg_history \<Rightarrow> ScenarioRunSummaryEvent \<Rightarrow> bool" where
  "delivered_summary h ev \<longleftrightarrow> pending_event h ev \<and> Published ev (Inr (Inr ())) \<in> set h"

lemma pending_event_append [simp]: "pending_event h ev \<Longrightarrow> pending_event (h @ es) ev"
  by (auto simp: pending_event_def)

fun allowed :: "agg_history \<Rightarrow> agg_event \<Rightarrow> bool" where
  "allowed h (Committed_Offset i c) \<longleftrightarrow> (\<exists>rec es. since received h = Some (rec, es) \<and> rr_offset rec = i \<and> result_disposed rec es)"
| "allowed h (Acknowledged_Summary run revision c) \<longleftrightarrow>
     (\<exists>ev. delivered_summary h ev \<and> run = sum_run_id (ev_summary ev) \<and> revision = ev_revision ev)"
| "allowed h (Published ev c) \<longleftrightarrow> pending_event h ev"
| "allowed h e \<longleftrightarrow> (received e \<noteq> None \<longrightarrow> all_committed h)"

definition called :: "agg_history \<Rightarrow> agg_event \<Rightarrow> bool" where
  "called h e \<longleftrightarrow> allowed h e \<and> received e = None"

lemma called_allowed: "traced called h es \<Longrightarrow> traced allowed h es"
  by (erule traced_mono) (simp add: called_def)

lemma called_none: "traced called h es \<Longrightarrow> silent received es"
  by (induction es arbitrary: h) (auto simp: called_def)

lemma all_committed_append: "all_committed h \<Longrightarrow> traced called h es \<Longrightarrow> all_committed (h @ es)"
  by (rule all_settled_append) (auto simp: committed_append called_none)

section \<open>Results are committed once they are durable\<close>

lemma triple_deadline:
  assumes "triple ok P m Q" "\<And>h. Q (Inl message) h"
  shows "triple ok P (agg_deadline message m) Q"
  using assms by (auto simp: triple_def agg_deadline_def split: prod.splits sum.splits lost.splits)

lemma poison_reason_append [simp]: "poison_reason rec es reason \<Longrightarrow> poison_reason rec (es @ fs) reason"
  by (auto simp: poison_reason_def)

lemma result_disposed_poison:
  "poison_reason rec es reason \<Longrightarrow> result_disposed rec (es @ [Poisoned (rr_poison_record rec reason) (Inr (Inr ()))])"
  by (auto simp: result_disposed_def intro!: exI [of _ reason])

lemma commit_triple:
  "triple called (\<lambda>h. \<exists>es. since received h = Some (rec, es) \<and> result_disposed rec es)
     (sbind (perform (\<lambda>h. on_commit E h (rr_offset rec)) (Committed_Offset (rr_offset rec))) (\<lambda>c. sreturn (prefix_error p c)))
     (\<lambda>r h. r = Inr () \<longrightarrow> all_committed h)"
proof (rule triple_bind [where R = "\<lambda>r h. r = Inr () \<longrightarrow> all_committed h"])
  show "triple called (\<lambda>h. \<exists>es. since received h = Some (rec, es) \<and> result_disposed rec es)
      (perform (\<lambda>h. on_commit E h (rr_offset rec)) (Committed_Offset (rr_offset rec))) (\<lambda>r h. r = Inr () \<longrightarrow> all_committed h)"
    by (rule triple_perform) (auto simp: called_def received_def all_settled_def committed_def)
qed (auto intro!: triple_return simp: prefix_error_def split: sum.splits)

lemma agg_dead_letter_triple:
  "triple called (\<lambda>h. \<exists>es. since received h = Some (rec, es) \<and> poison_reason rec es reason)
     (dead_letter_and_commit E rec reason) (\<lambda>r h. r = Inr () \<longrightarrow> all_committed h)"
  unfolding dead_letter_and_commit_def agg_calls
proof (rule triple_bind [where R = "\<lambda>r h. r = Inr () \<longrightarrow> (\<exists>es. since received h = Some (rec, es) \<and> result_disposed rec es)"])
  show "triple called (\<lambda>h. \<exists>es. since received h = Some (rec, es) \<and> poison_reason rec es reason)
      (perform (\<lambda>h. on_poison E h (rr_poison_record rec reason)) (Poisoned (rr_poison_record rec reason)))
      (\<lambda>r h. r = Inr () \<longrightarrow> (\<exists>es. since received h = Some (rec, es) \<and> result_disposed rec es))"
    by (rule triple_perform) (auto simp: called_def received_def result_disposed_poison)
next
  fix r :: "(string, unit) result"
  show "triple called (\<lambda>h. r = Inr () \<longrightarrow> (\<exists>es. since received h = Some (rec, es) \<and> result_disposed rec es))
      (case r of Inl e \<Rightarrow> sreturn (Inl (''result poison DLQ publication failed; source offset remains uncommitted: '' @ e))
       | Inr _ \<Rightarrow> sbind (perform (\<lambda>h. on_commit E h (rr_offset rec)) (Committed_Offset (rr_offset rec))) (\<lambda>committed.
           sreturn (prefix_error ''result poison was published but synchronous source commit failed: '' committed)))
      (\<lambda>r h. r = Inr () \<longrightarrow> all_committed h)"
    by (cases r) (auto intro!: triple_return commit_triple)
qed

lemma process_record_triple:
  "triple called (\<lambda>h. since received h = Some (rec, [])) (agg_process_record E rec) (\<lambda>r h. r = Inr () \<longrightarrow> all_committed h)"
proof (cases "rr_result rec")
  case (Inl e)
  show ?thesis
    unfolding agg_process_record_def Inl sum.case
    by (rule triple_weaken [OF agg_dead_letter_triple]) (simp_all add: poison_reason_def Inl)
next
  case (Inr r)
  let ?R = "\<lambda>now reply h. \<exists>es. since received h = Some (rec, es) \<and> Ingested r now (Inr reply) \<in> set es"
  have ingest: "triple called (\<lambda>h. \<exists>es. since received h = Some (rec, es)) (agg_ingest E r now) (?R now)" for now
    unfolding agg_calls by (rule triple_perform) (auto simp: called_def received_def)
  have tail: "triple called (?R now reply)
      (case reply of
         Inl e \<Rightarrow>
           if is_poison_error e then dead_letter_and_commit E rec (store_error_display e)
           else sreturn (Inl (''result aggregation failed before durable acceptance; source offset remains uncommitted: ''
             @ store_error_display e))
       | Inr _ \<Rightarrow>
           sbind (agg_commit E (rr_offset rec)) (\<lambda>committed.
           sreturn (prefix_error (''result was durably aggregated but synchronous source commit failed; ''
             @ ''duplicate redelivery is safe: '') committed)))
      (\<lambda>r h. r = Inr () \<longrightarrow> all_committed h)" for now reply
  proof (intro triple_sum triple_if)
    fix e assume "reply = Inl e" "is_poison_error e"
    then show "triple called (?R now reply) (dead_letter_and_commit E rec (store_error_display e)) (\<lambda>r h. r = Inr () \<longrightarrow> all_committed h)"
      by (intro triple_weaken [OF agg_dead_letter_triple]) (auto simp: poison_reason_def Inr)
  next
    fix u assume "reply = Inr u"
    then show "triple called (?R now reply) (sbind (agg_commit E (rr_offset rec)) (\<lambda>committed.
           sreturn (prefix_error (''result was durably aggregated but synchronous source commit failed; ''
             @ ''duplicate redelivery is safe: '') committed))) (\<lambda>r h. r = Inr () \<longrightarrow> all_committed h)"
      unfolding agg_commit_def by (intro triple_weaken [OF commit_triple]) (auto simp: result_disposed_def Inr)
  qed (rule triple_return, simp)
  show ?thesis
    unfolding agg_process_record_def Inr sum.case agg_now_def
    by (rule triple_bind [OF triple_read_clock triple_bind [OF ingest tail]]) (auto simp: called_def received_def)
qed

section \<open>Summaries are acknowledged once they are published\<close>

fun task_ready :: "agg_history \<Rightarrow> agg_task \<Rightarrow> bool" where
  "task_ready h (Expire_Task run now) \<longleftrightarrow> True"
| "task_ready h (Publish_Task d) \<longleftrightarrow> pending_event h (summary_event d)"
| "task_ready h (Acknowledge_Task ev) \<longleftrightarrow> delivered_summary h ev"

lemma task_ready_append: "task_ready h t \<Longrightarrow> task_ready (h @ es) t"
  by (cases t) (auto simp: delivered_summary_def)

lemma task_step_ready:
  assumes "task_ready h t" "task_step E t h = (r, h')"
  shows "\<exists>es. h' = h @ es \<and> traced called h es \<and> (\<forall>t'. r = Inr (Inl t') \<longrightarrow> task_ready h' t')"
proof (cases t)
  case (Publish_Task d)
  with assms show ?thesis
    by (auto simp: agg_calls perform_def sbind_def sreturn_def Let_def called_def received_def delivered_summary_def
        split: sum.splits)
next
  case (Acknowledge_Task ev)
  with assms show ?thesis
    by (auto simp: agg_calls perform_def sbind_def sreturn_def Let_def called_def received_def split: sum.splits)
next
  case (Expire_Task run now)
  with assms show ?thesis
    by (auto simp: agg_calls perform_def sbind_def sreturn_def Let_def called_def received_def split: sum.splits)
qed

lemma join_all_called:
  "list_all (task_ready h) ts \<Longrightarrow> join_all E ts first_error h = (r, h') \<Longrightarrow> \<exists>es. h' = h @ es \<and> traced called h es"
proof (induction E ts first_error h rule: join_all.induct)
  case (1 E ts first_error h)
  show ?case
  proof (cases "ts = []")
    case False
    let ?i = "on_schedule E h mod length ts"
    have i: "?i < length ts" using False by simp
    obtain q h1 where step: "task_step E (ts ! ?i) h = (q, h1)" by force
    from 1(4) i have "task_ready h (ts ! ?i)" by (simp add: list_all_length)
    from task_step_ready [OF this step] obtain es where
      es: "h1 = h @ es" "traced called h es" "\<And>t'. q = Inr (Inl t') \<Longrightarrow> task_ready h1 t'" by blast
    have ready: "list_all (task_ready h1) ts" using 1(4) es(1) by (auto simp: list_all_iff task_ready_append)
    then have dropped: "list_all (task_ready h1) (without ?i ts)"
      using set_without [of ?i ts] by (auto simp: list_all_iff)
    have advanced: "q = Inr (Inl t') \<Longrightarrow> list_all (task_ready h1) (ts[?i := t'])" for t'
      using ready es(3) set_update_subset_insert [of ts ?i t'] by (auto simp: list_all_iff)
    have "\<exists>fs. h' = h1 @ fs \<and> traced called h1 fs"
    proof (cases q)
      case (Inl l)
      with 1(5) False step 1(1) [OF False refl step [symmetric]] dropped show ?thesis
        by (cases l) (auto simp: Let_def join_all.simps [of E ts])
    next
      case (Inr p)
      with 1(5) False step 1(2,3) [OF False refl step [symmetric]] dropped advanced show ?thesis
        by (cases p) (auto simp: Let_def join_all.simps [of E ts])
    qed
    with es show ?thesis by auto
  qed (use 1 in \<open>simp add: join_all.simps\<close>)
qed

lemma join_all_triple: "triple called (\<lambda>h. list_all (task_ready h) ts) (join_all E ts first_error) (\<lambda>_ _. True)"
  unfolding triple_def using join_all_called by (metis prod.collapse)

lemma expire_due_runs_triple: "triple called (\<lambda>_. True) (expire_due_runs E cfg) (\<lambda>_ _. True)"
  unfolding expire_due_runs_def agg_calls
  by (intro triple_bind [where R = "\<lambda>_ _. True"] triple_read_clock triple_perform triple_sum triple_return
        triple_weaken [OF join_all_triple])
     (auto simp: called_def received_def list_all_iff)

lemma publish_pending_triple: "triple called (\<lambda>_. True) (publish_pending E cfg) (\<lambda>_ _. True)"
  unfolding publish_pending_def agg_calls
proof (rule triple_bind [where R = "\<lambda>r h. \<forall>ds. r = Inr ds \<longrightarrow> list_all (task_ready h) (map Publish_Task ds)"])
  show "triple called (\<lambda>_. True) (perform (\<lambda>h. on_pending E h (arc_outbox_batch_limit cfg)) (Pending_Summaries (arc_outbox_batch_limit cfg)))
      (\<lambda>r h. \<forall>ds. r = Inr ds \<longrightarrow> list_all (task_ready h) (map Publish_Task ds))"
    by (rule triple_perform) (auto simp: called_def received_def list_all_iff pending_event_def)
qed (intro triple_sum triple_return triple_weaken [OF join_all_triple], auto)

lemma maintenance_triple: "triple called (\<lambda>_. True) (maintenance E cfg) (\<lambda>_ _. True)"
  unfolding maintenance_def
  by (rule triple_bind [OF expire_due_runs_triple]) (intro triple_sum triple_return publish_pending_triple TrueI)

section \<open>The loop keeps the discipline\<close>

lemma triple_called: "triple called P m Q \<Longrightarrow> triple allowed P m Q"
  unfolding triple_def using called_allowed by blast

lemma triple_called_keeps:
  "triple called P m Q \<Longrightarrow> triple allowed (\<lambda>h. P h \<and> all_committed h) m (\<lambda>x h. Q x h \<and> all_committed h)"
  unfolding triple_def using called_allowed all_committed_append by metis

lemma maintenance_with_deadline_triple:
  "triple allowed all_committed (maintenance_with_deadline E cfg phase) (\<lambda>_ h. all_committed h)"
  unfolding maintenance_with_deadline_def
  using triple_called_keeps [OF triple_deadline [OF maintenance_triple]] by simp

lemma process_record_with_deadline_triple:
  "triple allowed (\<lambda>h. since received h = Some (rec, [])) (process_record_with_deadline E cfg rec) (\<lambda>r h. r = Inr () \<longrightarrow> all_committed h)"
  unfolding process_record_with_deadline_def by (rule triple_called [OF triple_deadline [OF process_record_triple]]) simp

lemma is_ok_map_sum: "is_ok (map_sum f g (r :: (string, unit) result)) \<longleftrightarrow> r = Inr ()"
  by (cases r) simp_all

lemma agg_turn_triple:
  "triple allowed all_committed (agg_turn E cfg) (\<lambda>r h. is_ok r \<longrightarrow> all_committed h)"
proof -
  have shutdown: "triple allowed all_committed (shutdown_seen E) (\<lambda>_ h. all_committed h)"
    unfolding agg_calls by (rule triple_read_clock) (auto simp: received_def all_settled_def committed_def split: option.splits)
  have woke: "triple allowed all_committed (next_wake E)
      (\<lambda>w h. case received (Woke w) of None \<Rightarrow> all_committed h | Some rec \<Rightarrow> since received h = Some (rec, []))"
    unfolding agg_calls by (rule triple_read_clock) (auto simp: all_settled_def committed_def split: option.splits)
  have periodic: "triple allowed all_committed
      (sbind (maintenance_with_deadline E cfg ''periodic'') (\<lambda>r. sreturn (map_sum id (\<lambda>_. True) r)))
      (\<lambda>r h. is_ok r \<longrightarrow> all_committed h)"
    by (rule triple_bind [OF maintenance_with_deadline_triple triple_return]) simp
  have process: "triple allowed (\<lambda>h. since received h = Some (rec, []))
      (sbind (process_record_with_deadline E cfg rec) (\<lambda>r. sreturn (map_sum id (\<lambda>_. True) r)))
      (\<lambda>r h. is_ok r \<longrightarrow> all_committed h)" for rec
    by (rule triple_bind [OF process_record_with_deadline_triple triple_return]) (simp add: is_ok_map_sum)
  have changed: "triple allowed all_committed
      (sbind (shutdown_seen E) (\<lambda>stop. sreturn (Inr (\<not> stop)))) (\<lambda>r h. is_ok r \<longrightarrow> all_committed h)"
    by (rule triple_bind [OF shutdown triple_return]) simp
  show ?thesis
    unfolding agg_turn_def
  proof (intro triple_bind [OF shutdown] triple_if triple_return triple_bind [OF woke], simp)
    fix w
    show "triple allowed (\<lambda>h. case received (Woke w) of None \<Rightarrow> all_committed h | Some rec \<Rightarrow> since received h = Some (rec, []))
        (case w of
           Shutdown_Changed gone \<Rightarrow> if gone then sreturn (Inr False) else sbind (shutdown_seen E) (\<lambda>stop. sreturn (Inr (\<not> stop)))
         | Scan_Tick \<Rightarrow> sbind (maintenance_with_deadline E cfg ''periodic'') (\<lambda>r. sreturn (map_sum id (\<lambda>_. True) r))
         | Record_Received polled \<Rightarrow> (case polled of
             Inl e \<Rightarrow> sreturn (Inl e)
           | Inr None \<Rightarrow> sreturn (Inr True)
           | Inr (Some rec) \<Rightarrow> sbind (process_record_with_deadline E cfg rec) (\<lambda>r. sreturn (map_sum id (\<lambda>_. True) r))))
        (\<lambda>r h. is_ok r \<longrightarrow> all_committed h)"
      using periodic process changed
      by (auto simp: received_def split: wake.splits sum.splits option.splits intro!: triple_return)
  qed
qed

lemma agg_loop_triple:
  "triple allowed all_committed (agg_loop E cfg n) (\<lambda>r h. r = Some (Inr ()) \<longrightarrow> all_committed h)"
proof (induction n)
  case (Suc n)
  show ?case
    unfolding agg_loop.simps
  proof (rule triple_bind [OF agg_turn_triple])
    fix r :: "(string, bool) result"
    show "triple allowed (\<lambda>h. is_ok r \<longrightarrow> all_committed h)
        (case r of Inl e \<Rightarrow> sreturn (Some (Inl e)) | Inr go_on \<Rightarrow> if go_on then agg_loop E cfg n else sreturn (Some (Inr ())))
        (\<lambda>r h. r = Some (Inr ()) \<longrightarrow> all_committed h)"
      using Suc by (cases r) (auto intro!: triple_return)
  qed
qed (unfold agg_loop.simps, rule triple_return, simp)

theorem aggregation_runtime_traced: "traced allowed [] (snd (aggregation_runtime E cfg n []))"
proof -
  have flush: "triple allowed (\<lambda>_. True) (final_flush E cfg) (\<lambda>_ _. True)"
    unfolding final_flush_def by (rule triple_called [OF triple_deadline [OF publish_pending_triple]]) simp
  have "triple allowed all_committed (aggregation_runtime E cfg n) (\<lambda>_ _. True)"
    unfolding aggregation_runtime_def
    by (intro triple_bind [OF maintenance_with_deadline_triple] triple_sum triple_bind [OF agg_loop_triple] triple_if
        triple_bind [OF triple_weaken [OF flush]] triple_return TrueI)
  from tripleD [OF this _ prod.collapse [symmetric]] show ?thesis
    by (metis all_settled_def append_Nil option.simps(4) since_Nil)
qed

lemma runtime_allowed: "snd (aggregation_runtime E cfg n []) = as @ e # bs \<Longrightarrow> allowed as e"
  using aggregation_runtime_traced [of E cfg n] by simp

section \<open>A flush that succeeds drains its batch\<close>

definition acked :: "agg_history \<Rightarrow> ScenarioRunSummaryEvent \<Rightarrow> bool" where
  "acked h ev \<longleftrightarrow> (\<exists>a. a \<noteq> Acknowledgement_Missing
     \<and> Acknowledged_Summary (sum_run_id (ev_summary ev)) (ev_revision ev) (Inr (Inr a)) \<in> set h)"

fun task_goal :: "agg_history \<Rightarrow> agg_task \<Rightarrow> bool" where
  "task_goal h (Expire_Task run now) \<longleftrightarrow> (\<exists>outcome. Expired run now (Inr (Inr outcome)) \<in> set h)"
| "task_goal h (Acknowledge_Task ev) \<longleftrightarrow> acked h ev"
| "task_goal h (Publish_Task d) \<longleftrightarrow>
     Published (summary_event d) (Inr (Inr ())) \<in> set h \<and> acked h (summary_event d)"

lemma task_goal_append: "task_goal h t \<Longrightarrow> task_goal (h @ es) t"
  by (cases t) (auto simp: acked_def)

lemma task_step_appends: "task_step E t h = (r, h') \<Longrightarrow> \<exists>es. h' = h @ es"
  by (cases t) (auto simp: agg_calls perform_def sbind_def sreturn_def Let_def split: sum.splits)

lemma task_step_goal: "task_step E t h = (Inr (Inr (Inr ())), h') \<Longrightarrow> task_goal h' t"
  by (cases t) (auto simp: agg_calls perform_def sbind_def sreturn_def Let_def acked_def
      split: sum.splits SummaryAcknowledgement.splits)

lemma task_step_next:
  "task_step E t h = (Inr (Inl t'), h1) \<Longrightarrow> task_goal (h1 @ es) t' \<Longrightarrow> task_goal (h1 @ es) t"
  by (cases t) (auto simp: agg_calls perform_def sbind_def sreturn_def Let_def split: sum.splits)

lemma set_without_insert: "i < length xs \<Longrightarrow> set xs \<subseteq> insert (xs ! i) (set (without i xs))"
  by (metis Cons_nth_drop_Suc append_take_drop_id list.simps(15) set_append sup.idem sup_assoc Un_insert_right
      without_def subset_refl)

lemma set_without_update: "i < length xs \<Longrightarrow> set xs \<subseteq> insert (xs ! i) (set (xs[i := x]))"
  by (metis in_set_conv_nth insert_iff length_list_update nth_list_update_neq subsetI)

lemma keep_first_None [simp]: "keep_first e r = None \<longleftrightarrow> e = None \<and> r = Inr ()"
  by (cases r) (simp_all add: keep_first_def split: option.splits)

lemma join_all_goals:
  "join_all E ts first_error h = (Inr (Inr ()), h') \<Longrightarrow>
   first_error = None \<and> (\<exists>es. h' = h @ es) \<and> (\<forall>t \<in> set ts. task_goal h' t)"
proof (induction E ts first_error h rule: join_all.induct)
  case (1 E ts first_error h)
  show ?case
  proof (cases "ts = []")
    case True
    with 1(4) show ?thesis by (auto simp: join_all.simps split: option.splits)
  next
    case False
    let ?i = "on_schedule E h mod length ts"
    have i: "?i < length ts" using False by simp
    obtain q h1 where step: "task_step E (ts ! ?i) h = (q, h1)" by force
    from task_step_appends [OF step] obtain es where h1: "h1 = h @ es" ..
    note run = 1(4) [unfolded join_all.simps [of E ts]]
    consider (next_call) t where "q = Inr (Inl t)" | (joined) r where "q = Inr (Inr r)" | (panic) e where "q = Inl (Panicked e)"
      | (cut) "q = Inl Cut_Off"
      by (metis lost.exhaust sum.exhaust)
    then show ?thesis
    proof cases
      case next_call
      with run False step have "join_all E (ts[?i := t]) first_error h1 = (Inr (Inr ()), h')" by (simp add: Let_def)
      with 1(2) [OF False refl step [symmetric]] next_call obtain fs where
        IH: "first_error = None" "h' = h1 @ fs" "\<forall>t' \<in> set (ts[?i := t]). task_goal h' t'" by blast
      have "task_goal h' (ts ! ?i)"
        using task_step_next [OF step [unfolded next_call]] IH set_update_memI [OF i] by metis
      with IH h1 show ?thesis using set_without_update [OF i] by auto
    next
      case joined
      with run False step have "join_all E (without ?i ts) (keep_first first_error r) h1 = (Inr (Inr ()), h')"
        by (simp add: Let_def)
      with 1(3) [OF False refl step [symmetric]] joined obtain fs where
        IH: "keep_first first_error r = None" "h' = h1 @ fs" "\<forall>t' \<in> set (without ?i ts). task_goal h' t'" by blast
      moreover have "task_goal h' (ts ! ?i)"
        using IH task_step_goal step joined task_goal_append by (metis keep_first_None)
      ultimately show ?thesis using set_without_insert [OF i] h1 by auto
    next
      case panic
      with run False step 1(1) [OF False refl step [symmetric]] show ?thesis by (auto simp: Let_def)
    next
      case cut
      with run False step show ?thesis by (simp add: Let_def)
    qed
  qed
qed

lemma result_disposed_append: "result_disposed rec es \<Longrightarrow> result_disposed rec (es @ fs)"
  unfolding result_disposed_def using poison_reason_append by fastforce

lemma next_reception:
  assumes "snd (aggregation_runtime E cfg n []) = as @ Woke (Record_Received (Inr (Some rec))) # es @ e # bs"
    and "received e \<noteq> None" "silent received es"
  shows "committed rec es \<and> result_disposed rec es"
proof -
  let ?w = "Woke (Record_Received (Inr (Some rec)))"
  have "allowed (as @ ?w # es) e" using runtime_allowed [of E cfg n "as @ ?w # es"] assms(1) by simp
  then have "all_committed (as @ ?w # es)" using assms(2) by (cases e) (auto simp: received_def)
  then have "committed rec es" by (simp add: all_settled_def since_record assms(3))
  moreover then obtain e1 e2 where es: "es = e1 @ Committed_Offset (rr_offset rec) (Inr (Inr ())) # e2"
    unfolding committed_def by (meson split_list)
  then have "allowed (as @ ?w # e1) (Committed_Offset (rr_offset rec) (Inr (Inr ())))"
    using runtime_allowed [of E cfg n "as @ ?w # e1"] assms(1) by simp
  then have "result_disposed rec e1" using es assms(3) by (auto simp: since_record)
  ultimately show ?thesis using es result_disposed_append by blast
qed

section \<open>Properties\<close>

text \<open>C15: In every history of the aggregation runtime, whatever the store, the broker and the clock
  answer and wherever a deadline cuts a call off, the offset of a result is committed only for the
  record under processing and after its durable disposition: the store accepted it (or knew it), or
  its poison record was published because it does not decode or the store refuses it for good.\<close>

theorem result_commit_after_disposition:
  assumes "snd (aggregation_runtime E cfg n []) = as @ Committed_Offset i c # bs"
  shows "\<exists>before rec es. as = before @ Woke (Record_Received (Inr (Some rec))) # es \<and> silent received es
    \<and> rr_offset rec = i \<and> result_disposed rec es"
proof -
  from runtime_allowed [OF assms] obtain rec es where "since received as = Some (rec, es)" "rr_offset rec = i" "result_disposed rec es"
    by auto
  with since_SomeD [of received as rec es] show ?thesis by (auto simp: received_iff)
qed

text \<open>The runtime never steps over a result: when it receives a further record, the one before
  was disposed of durably and its offset was committed with the broker's confirmation, in between.\<close>

theorem results_settled_in_order:
  assumes "snd (aggregation_runtime E cfg n []) =
    as @ Woke (Record_Received (Inr (Some rec))) # es @ Woke (Record_Received (Inr (Some rec'))) # bs"
  shows "Committed_Offset (rr_offset rec) (Inr (Inr ())) \<in> set es \<and> result_disposed rec es"
proof (cases "silent received es")
  case True
  with next_reception [OF assms _ True] show ?thesis by (simp add: received_def committed_def)
next
  case False
  then have "\<exists>x \<in> set es. received x \<noteq> None" by (auto simp: silent_def list_all_iff)
  from split_list_first_prop [OF this] obtain e1 e e2 where
    "es = e1 @ e # e2" "received e \<noteq> None" "\<forall>x \<in> set e1. \<not> received x \<noteq> None" by blast
  with next_reception [of E cfg n as rec e1 e] assms have "committed rec e1 \<and> result_disposed rec e1" "es = e1 @ e # e2"
    by (simp_all add: silent_def list_all_iff)
  then show ?thesis using result_disposed_append by (auto simp: committed_def)
qed

text \<open>C40: A revision of a run summary is acknowledged in the outbox only after the broker confirmed
  the publication of exactly that revision, which came from the outbox.\<close>

theorem summary_acknowledged_after_publication:
  assumes "snd (aggregation_runtime E cfg n []) = as @ Acknowledged_Summary run revision c # bs"
  shows "\<exists>limit ds d. Pending_Summaries limit (Inr (Inr ds)) \<in> set as \<and> d \<in> set ds
    \<and> Published (summary_event d) (Inr (Inr ())) \<in> set as \<and> sum_run_id (dur_summary d) = run \<and> dur_revision d = revision"
proof -
  from runtime_allowed [OF assms] obtain limit ds d where
    "Pending_Summaries limit (Inr (Inr ds)) \<in> set as" "d \<in> set ds" "Published (summary_event d) (Inr (Inr ())) \<in> set as"
    "run = sum_run_id (ev_summary (summary_event d))" "revision = ev_revision (summary_event d)"
    by (auto simp: delivered_summary_def pending_event_def)
  then show ?thesis by (auto simp: summary_event_sel)
qed

text \<open>A flush of the outbox that reports success has published every summary of its batch and the
  outbox acknowledged each one, however the environment interleaves the tasks.\<close>

theorem flush_drains_batch:
  assumes "publish_pending E cfg h = (Inr (Inr ()), h')"
  shows "\<exists>ds. on_pending E h (arc_outbox_batch_limit cfg) = Inr (Inr ds)
    \<and> (\<forall>d \<in> set ds. Published (summary_event d) (Inr (Inr ())) \<in> set h' \<and> acked h' (summary_event d))"
proof -
  from assms obtain ds where ds: "on_pending E h (arc_outbox_batch_limit cfg) = Inr (Inr ds)"
    and "join_all E (map Publish_Task ds) None
      (h @ [Pending_Summaries (arc_outbox_batch_limit cfg) (Inr (Inr ds))]) = (Inr (Inr ()), h')"
    by (auto simp: publish_pending_def agg_calls perform_def sbind_def sreturn_def Let_def
        split: sum.splits)
  from join_all_goals [OF this(2)] ds show ?thesis by auto
qed

section \<open>A sample run\<close>

text \<open>A run that flushes one summary, ingests one result, sends an undecodable one to the dead-letter
  topic, and stops.\<close>

definition sample_result :: ScenarioRunResult where
  "sample_result = \<lparr>res_schema_version = 1, res_scenario_id = ''s'', res_run_id = ''r'', res_execution_key = ''k'',
     res_event_id = ''e'', res_attempt = 0, res_slice = \<lparr>index = 0, slice_total = 1\<rparr>, started_at_unix_ms = 0,
     finished_at_unix_ms = 1, res_status = RunSuccess, res_total = 0, res_success = 0, res_failure = 0, res_p50_ms = 0,
     res_p95_ms = 0, res_p99_ms = 0, latency_histogram = [], error_breakdown = []\<rparr>"

definition sample_durable :: DurableRunSummary where
  "sample_durable = \<lparr>dur_revision = 1, dur_event_id = ''r:summary:r1:complete'', dur_pending_publication = True,
     dur_summary = \<lparr>sum_schema_version = 1, sum_scenario_id = ''s'', sum_run_id = ''r'', sum_status = Complete,
       sum_expected_slices = 1, sum_received_slices = 1, sum_missing_slices = [], sum_total = 0, sum_success = 0,
       sum_failure = 0, sum_p50_ms = 0, sum_p95_ms = 0, sum_p99_ms = 0, sum_latency_histogram = [],
       sum_error_breakdown = [], first_result_at_unix_ms = 0, finalized_at_unix_ms = 1\<rparr>\<rparr>"

definition sample_poison :: "string \<Rightarrow> PoisonMessageRecord" where
  "sample_poison why = \<lparr>pm_schema_version = 1, pm_event_id = ''poison:results:0:8'', pm_failed_at_unix_ms = 1,
     source_topic = ''results'', source_partition = 0, source_offset = 8, source_key_base64 = None,
     source_key_original_bytes = None, source_key_truncated = False, payload_base64 = None, payload_original_bytes = None,
     payload_truncated = False, pm_reason = why\<rparr>"

definition good_record :: result_record where
  "good_record = \<lparr>rr_offset = 7, rr_result = Inr sample_result, rr_poison_record = sample_poison\<rparr>"

definition bad_record :: result_record where
  "bad_record = \<lparr>rr_offset = 8, rr_result = Inl (Malformed ''x''), rr_poison_record = sample_poison\<rparr>"

fun is_woke :: "agg_event \<Rightarrow> bool" where
  "is_woke (Woke w) = True"
| "is_woke _ = False"

fun is_published :: "agg_event \<Rightarrow> bool" where
  "is_published (Published ev c) = True"
| "is_published _ = False"

definition sample_agg_env :: agg_env where
  "sample_agg_env = \<lparr>
     on_wake = (\<lambda>h. case filter is_woke h of [] \<Rightarrow> Record_Received (Inr (Some good_record))
       | [_] \<Rightarrow> Record_Received (Inr (Some bad_record)) | _ \<Rightarrow> Shutdown_Changed True),
     on_shutdown = (\<lambda>_. False), on_clock = (\<lambda>_. 0),
     on_ingest = (\<lambda>_ _ _. Inr (Inr (Accepted 1 2))), on_poison = (\<lambda>_ _. Inr (Inr ())), on_commit = (\<lambda>_ _. Inr (Inr ())),
     on_due = (\<lambda>_ _ _. Inr (Inr [])), on_expire = (\<lambda>_ _ _. Inr (Inr Expiry_Missing)),
     on_pending = (\<lambda>h _. Inr (Inr (if list_ex is_published h then [] else [sample_durable]))),
     on_publish = (\<lambda>_ _. Inr (Inr ())), on_acknowledge = (\<lambda>_ _ _. Inr (Inr Acknowledged)), on_schedule = (\<lambda>_. 0)\<rparr>"

definition sample_startup :: agg_history where
  "sample_startup = [Clock_Read 0, Due_Runs 0 128 (Inr (Inr [])), Pending_Summaries 128 (Inr (Inr [sample_durable])),
     Published (summary_event sample_durable) (Inr (Inr ()))]"

definition sample_good :: agg_history where
  "sample_good = [Clock_Read 0, Ingested sample_result 0 (Inr (Inr (Accepted 1 2)))]"

definition sample_poisoned :: agg_event where
  "sample_poisoned = Poisoned (sample_poison (''invalid result contract: '' @ contract_error_display (Malformed ''x''))) (Inr (Inr ()))"

definition sample_rest :: agg_history where
  "sample_rest = [sample_poisoned, Committed_Offset 8 (Inr (Inr ())), Shutdown_Read False, Woke (Shutdown_Changed True),
     Pending_Summaries 128 (Inr (Inr []))]"

lemma sample_env_simps:
  "on_wake sample_agg_env h = (case filter is_woke h of [] \<Rightarrow> Record_Received (Inr (Some good_record))
       | [_] \<Rightarrow> Record_Received (Inr (Some bad_record)) | _ \<Rightarrow> Shutdown_Changed True)"
  "on_shutdown sample_agg_env h = False" "on_clock sample_agg_env h = 0"
  "on_ingest sample_agg_env h r now = Inr (Inr (Accepted 1 2))" "on_poison sample_agg_env h p = Inr (Inr ())"
  "on_commit sample_agg_env h i = Inr (Inr ())" "on_due sample_agg_env h now l = Inr (Inr [])"
  "on_pending sample_agg_env h l = Inr (Inr (if list_ex is_published h then [] else [sample_durable]))"
  "on_publish sample_agg_env h ev = Inr (Inr ())" "on_acknowledge sample_agg_env h run rv = Inr (Inr Acknowledged)"
  "on_schedule sample_agg_env h = 0"
  by (simp_all add: sample_agg_env_def)

lemmas sample_run_simps = sample_env_simps agg_calls perform_def read_clock_def sbind_def sreturn_def Let_def
  agg_deadline_def prefix_error_def join_all.simps without_def keep_first_def

lemma sample_run:
  "snd (aggregation_runtime sample_agg_env default_aggregation_config 3 []) =
     sample_startup @ Acknowledged_Summary ''r'' 1 (Inr (Inr Acknowledged))
     # Shutdown_Read False # Woke (Record_Received (Inr (Some good_record))) # sample_good
     @ Committed_Offset 7 (Inr (Inr ())) # Shutdown_Read False # Woke (Record_Received (Inr (Some bad_record)))
     # sample_rest"
proof -
  let ?start = "sample_startup @ [Acknowledged_Summary ''r'' 1 (Inr (Inr Acknowledged))]"
  let ?good = "?start @ [Shutdown_Read False, Woke (Record_Received (Inr (Some good_record)))] @ sample_good
    @ [Committed_Offset 7 (Inr (Inr ()))]"
  let ?bad = "?good @ [Shutdown_Read False, Woke (Record_Received (Inr (Some bad_record))), sample_poisoned,
    Committed_Offset 8 (Inr (Inr ()))]"
  let ?stop = "?bad @ [Shutdown_Read False, Woke (Shutdown_Changed True)]"
  have start: "maintenance_with_deadline sample_agg_env default_aggregation_config ''startup'' [] = (Inr (Inr ()), ?start)"
    by (simp add: sample_run_simps maintenance_with_deadline_def maintenance_def expire_due_runs_def publish_pending_def
        default_aggregation_config_def sample_startup_def summary_event_sel sample_durable_def)
  have good: "agg_turn sample_agg_env default_aggregation_config ?start = (Inr (Inr True), ?good)"
    by (simp add: sample_run_simps agg_turn_def process_record_with_deadline_def agg_process_record_def good_record_def
        sample_startup_def sample_good_def)
  have bad: "agg_turn sample_agg_env default_aggregation_config ?good = (Inr (Inr True), ?bad)"
    by (simp add: sample_run_simps agg_turn_def process_record_with_deadline_def agg_process_record_def bad_record_def
        dead_letter_and_commit_def sample_startup_def sample_good_def sample_poisoned_def)
  have stop: "agg_turn sample_agg_env default_aggregation_config ?bad = (Inr (Inr False), ?stop)"
    by (simp add: sample_run_simps agg_turn_def sample_startup_def sample_good_def sample_poisoned_def)
  have flush: "final_flush sample_agg_env default_aggregation_config ?stop =
      (Inr (Inr ()), ?stop @ [Pending_Summaries 128 (Inr (Inr []))])"
    by (simp add: sample_run_simps final_flush_def publish_pending_def default_aggregation_config_def sample_startup_def)
  have "agg_loop sample_agg_env default_aggregation_config 3 ?start = (Inr (Some (Inr ())), ?stop)"
    unfolding numeral_3_eq_3 agg_loop.simps sbind_def good bad stop prod.case sum.case if_True if_False sreturn_def ..
  then show ?thesis
    unfolding aggregation_runtime_def sbind_def start prod.case sum.case sreturn_def
    using flush by (simp add: sample_rest_def)
qed

theorem result_commit_after_disposition_witness:
  "\<exists>before rec es. sample_startup @ Acknowledged_Summary ''r'' 1 (Inr (Inr Acknowledged)) # Shutdown_Read False
       # Woke (Record_Received (Inr (Some good_record))) # sample_good
     = before @ Woke (Record_Received (Inr (Some rec))) # es \<and> silent received es
     \<and> rr_offset rec = 7 \<and> result_disposed rec es"
  by (rule result_commit_after_disposition [where E = sample_agg_env and cfg = default_aggregation_config and n = 3 and c = "Inr (Inr ())"
      and bs = "Shutdown_Read False # Woke (Record_Received (Inr (Some bad_record))) # sample_rest"]) (simp add: sample_run)

theorem results_settled_in_order_witness:
  "Committed_Offset (rr_offset good_record) (Inr (Inr ()))
     \<in> set (sample_good @ [Committed_Offset 7 (Inr (Inr ())), Shutdown_Read False])
   \<and> result_disposed good_record (sample_good @ [Committed_Offset 7 (Inr (Inr ())), Shutdown_Read False])"
  by (rule results_settled_in_order [where E = sample_agg_env and cfg = default_aggregation_config and n = 3 and rec' = bad_record
      and as = "sample_startup @ [Acknowledged_Summary ''r'' 1 (Inr (Inr Acknowledged)), Shutdown_Read False]" and bs = sample_rest]) (simp add: sample_run)

theorem summary_acknowledged_after_publication_witness:
  "\<exists>limit ds d. Pending_Summaries limit (Inr (Inr ds)) \<in> set sample_startup \<and> d \<in> set ds
     \<and> Published (summary_event d) (Inr (Inr ())) \<in> set sample_startup
     \<and> sum_run_id (dur_summary d) = ''r'' \<and> dur_revision d = 1"
  by (rule summary_acknowledged_after_publication [where E = sample_agg_env and cfg = default_aggregation_config and n = 3 and c = "Inr (Inr Acknowledged)"
      and bs = "Shutdown_Read False # Woke (Record_Received (Inr (Some good_record))) # sample_good
        @ Committed_Offset 7 (Inr (Inr ())) # Shutdown_Read False # Woke (Record_Received (Inr (Some bad_record))) # sample_rest"]) (simp add: sample_run)

lemma sample_flush:
  "publish_pending sample_agg_env default_aggregation_config [] =
     (Inr (Inr ()), [Pending_Summaries 128 (Inr (Inr [sample_durable])), Published (summary_event sample_durable) (Inr (Inr ())),
        Acknowledged_Summary ''r'' 1 (Inr (Inr Acknowledged))])"
  by (simp add: sample_run_simps publish_pending_def default_aggregation_config_def summary_event_sel sample_durable_def)

theorem flush_drains_batch_witness:
  "Published (summary_event sample_durable) (Inr (Inr ())) \<in> set (snd (publish_pending sample_agg_env default_aggregation_config []))
   \<and> acked (snd (publish_pending sample_agg_env default_aggregation_config [])) (summary_event sample_durable)"
  using flush_drains_batch [OF sample_flush] by (simp only: sample_flush snd_conv) (simp add: sample_env_simps)

end
