(* ===== verification/Kafka_Records.thy ===== *)
theory Kafka_Records
  imports Slice_Planning Json_Values Node_Runtime
begin

text \<open>
  The Kafka adapter, \<open>infrastructure/kafka/mod.rs\<close>: the validated client configurations, the decoding
  of consumed records with their bounded poison evidence, the validation before a publication, and the
  fenced commit of an offset.  The client library, \<open>serde_json\<close> and the base64 engine are parameters.
\<close>

section \<open>Client configuration\<close>

definition I32_MAX :: nat where "I32_MAX = 2 ^ 31 - 1"
definition KAFKA_RESPONSE_OVERHEAD_BYTES :: usize where "KAFKA_RESPONSE_OVERHEAD_BYTES = 512"

definition validate_kafka_duration :: "string \<Rightarrow> duration \<Rightarrow> (string, unit) result" where
  "validate_kafka_duration name d = check_all
     [reject_if (as_millis d = 0) (name @ '' must be at least one millisecond''),
      reject_if (as_millis d > I32_MAX) (name @ '' exceeds Kafka'' @ [CHR 0x27] @ ''s signed 32-bit millisecond limit'')]"

definition validate_capacity :: "string \<Rightarrow> usize \<Rightarrow> (string, unit) result" where
  "validate_capacity name n = check_all
     [reject_if (n = 0) (name @ '' must be greater than zero''),
      reject_if (unat n > I32_MAX) (name @ '' exceeds Kafka'' @ [CHR 0x27] @ ''s signed 32-bit limit'')]"

record KafkaProducerConfig =
  kp_queue_capacity_messages :: usize
  kp_message_max_bytes :: usize
  kp_message_timeout :: duration
  kp_delivery_timeout :: duration
  kp_request_timeout :: duration
  kp_acks :: string
  kp_enable_idempotence :: bool

definition default_producer_config :: KafkaProducerConfig where
  "default_producer_config = \<lparr>kp_queue_capacity_messages = 1024, kp_message_max_bytes = 1000000,
     kp_message_timeout = from_secs 10, kp_delivery_timeout = from_secs 10, kp_request_timeout = from_secs 5,
     kp_acks = ''all'', kp_enable_idempotence = True\<rparr>"

definition with_queue_capacity :: "usize \<Rightarrow> KafkaProducerConfig" where
  "with_queue_capacity n = default_producer_config\<lparr>kp_queue_capacity_messages := n\<rparr>"

definition validate_producer :: "KafkaProducerConfig \<Rightarrow> (string, unit) result" where
  "validate_producer c = check_all
     [validate_capacity ''Kafka producer queue capacity'' (kp_queue_capacity_messages c),
      validate_capacity ''Kafka producer message max bytes'' (kp_message_max_bytes c),
      validate_kafka_duration ''Kafka message timeout'' (kp_message_timeout c),
      validate_kafka_duration ''Kafka delivery timeout'' (kp_delivery_timeout c),
      validate_kafka_duration ''Kafka request timeout'' (kp_request_timeout c),
      reject_if (kp_message_timeout c \<noteq> kp_delivery_timeout c)
        (''Kafka message timeout must equal delivery timeout because librdkafka treats ''
          @ ''message.timeout.ms and delivery.timeout.ms as aliases''),
      reject_if (kp_request_timeout c > kp_delivery_timeout c) ''Kafka request timeout must not exceed delivery timeout'',
      reject_if (kp_acks c \<noteq> ''all'' \<and> kp_acks c \<noteq> ''-1'')
        (''Kafka producer acks must be '' @ quoted ''all'' @ '' or '' @ quoted ''-1''
          @ '' for durable disposition publication'')]"

record KafkaConsumerConfig =
  kc_max_poll_interval :: duration
  kc_session_timeout :: duration
  kc_request_timeout :: duration
  kc_prefetch_kib :: usize
  kc_partition_fetch_max_bytes :: usize
  kc_fetch_max_bytes :: usize
  kc_record_max_bytes :: usize

definition default_consumer_config :: KafkaConsumerConfig where
  "default_consumer_config = \<lparr>kc_max_poll_interval = from_secs 300, kc_session_timeout = from_secs 10,
     kc_request_timeout = from_secs 5, kc_prefetch_kib = 4096, kc_partition_fetch_max_bytes = 524288,
     kc_fetch_max_bytes = 4194304, kc_record_max_bytes = 1000000\<rparr>"

definition with_prefetch_kib :: "usize \<Rightarrow> KafkaConsumerConfig" where
  "with_prefetch_kib n = default_consumer_config\<lparr>kc_prefetch_kib := n\<rparr>"

definition validate_consumer :: "KafkaConsumerConfig \<Rightarrow> (string, unit) result" where
  "validate_consumer c =
     (let poison_evidence_bytes = MAX_POISON_EVIDENCE_FIELD_BYTES * 2 in
     check_all
      [validate_kafka_duration ''Kafka max poll interval'' (kc_max_poll_interval c),
       validate_kafka_duration ''Kafka session timeout'' (kc_session_timeout c),
       validate_kafka_duration ''Kafka consumer request timeout'' (kc_request_timeout c),
       validate_capacity ''Kafka consumer prefetch KiB'' (kc_prefetch_kib c),
       validate_capacity ''Kafka consumer partition fetch max bytes'' (kc_partition_fetch_max_bytes c),
       validate_capacity ''Kafka consumer fetch max bytes'' (kc_fetch_max_bytes c),
       validate_capacity ''Kafka consumer record max bytes'' (kc_record_max_bytes c),
       reject_if (poison_evidence_bytes \<ge> 2 ^ 64) ''Kafka poison evidence byte bound overflowed'',
       reject_if (kc_session_timeout c \<ge> kc_max_poll_interval c)
         ''Kafka session timeout must be less than max poll interval'',
       reject_if (kc_request_timeout c \<ge> kc_max_poll_interval c)
         ''Kafka consumer request timeout must be less than max poll interval'',
       reject_if (kc_fetch_max_bytes c < kc_partition_fetch_max_bytes c)
         ''Kafka consumer fetch max bytes must be at least the partition fetch max bytes'',
       reject_if (kc_fetch_max_bytes c < kc_record_max_bytes c)
         ''Kafka consumer fetch max bytes must be at least the consumed-record max bytes'',
       reject_if (unat (kc_record_max_bytes c) < poison_evidence_bytes)
         (''Kafka consumer record max bytes must be at least '' @ nat_str poison_evidence_bytes
           @ '' to retain bounded key and payload poison prefixes''),
       reject_if (case checked_add (kc_fetch_max_bytes c) KAFKA_RESPONSE_OVERHEAD_BYTES of
           None \<Rightarrow> True | Some n \<Rightarrow> unat n > I32_MAX)
         ''Kafka consumer fetch max bytes leaves no room for protocol response overhead''])"

type_synonym client_config = "(string \<times> string) list"

definition producer_client_config :: "string \<Rightarrow> KafkaProducerConfig \<Rightarrow> (string, client_config) result" where
  "producer_client_config brokers c =
     try_res (validate_producer c) (\<lambda>_. Inr
       [(''bootstrap.servers'', brokers),
        (''acks'', kp_acks c),
        (''enable.idempotence'', bool_str (kp_enable_idempotence c)),
        (''queue.buffering.max.messages'', word_str (kp_queue_capacity_messages c)),
        (''message.max.bytes'', word_str (kp_message_max_bytes c)),
        (''message.timeout.ms'', nat_str (as_millis (kp_message_timeout c))),
        (''delivery.timeout.ms'', nat_str (as_millis (kp_delivery_timeout c))),
        (''request.timeout.ms'', nat_str (as_millis (kp_request_timeout c)))])"

definition consumer_client_config :: "string \<Rightarrow> string \<Rightarrow> KafkaConsumerConfig \<Rightarrow> (string, client_config) result" where
  "consumer_client_config brokers group_id c =
     try_res (validate_consumer c) (\<lambda>_.
     try_res (ok_or (checked_add (kc_fetch_max_bytes c) KAFKA_RESPONSE_OVERHEAD_BYTES)
       ''Kafka receive-message byte limit overflowed'') (\<lambda>receive_max_bytes. Inr
       [(''bootstrap.servers'', brokers),
        (''group.id'', group_id),
        (''enable.auto.commit'', ''false''),
        (''enable.auto.offset.store'', ''false''),
        (''enable.partition.eof'', ''false''),
        (''auto.offset.reset'', ''earliest''),
        (''max.poll.interval.ms'', nat_str (as_millis (kc_max_poll_interval c))),
        (''session.timeout.ms'', nat_str (as_millis (kc_session_timeout c))),
        (''socket.timeout.ms'', nat_str (as_millis (kc_request_timeout c))),
        (''queued.max.messages.kbytes'', word_str (kc_prefetch_kib c)),
        (''fetch.message.max.bytes'', word_str (kc_partition_fetch_max_bytes c)),
        (''fetch.max.bytes'', word_str (kc_fetch_max_bytes c)),
        (''receive.message.max.bytes'', word_str receive_max_bytes)]))"

section \<open>Consumed records\<close>

record base64_engine =
  b64_encode :: "string \<Rightarrow> string"
  b64_decode :: "string \<Rightarrow> (string, string) result"

text \<open>What the adapter uses of \<open>serde_json\<close>: the writers and readers of the messages.\<close>

record 'n contract_serde =
  job_to_string :: "ScenarioJob \<Rightarrow> (string, string) result"
  job_from_slice :: "string \<Rightarrow> (string, ScenarioJob) result"
  run_result_to_string :: "ScenarioRunResult \<Rightarrow> (string, string) result"
  run_result_from_slice :: "string \<Rightarrow> (string, ScenarioRunResult) result"
  failed_to_string :: "FailedScenarioJob \<Rightarrow> (string, string) result"
  poison_to_string :: "PoisonMessageRecord \<Rightarrow> (string, string) result"
  json_from_slice :: "string \<Rightarrow> (string, 'n json) result"
  failed_from_value :: "'n json \<Rightarrow> (string, FailedScenarioJob) result"
  poison_from_value :: "'n json \<Rightarrow> (string, PoisonMessageRecord) result"

record BoundedPoisonEvidence =
  be_prefix :: "string option"
  be_original_bytes :: "u64 option"
  be_truncated :: bool

text \<open>\<open>u64::try_from(len).unwrap_or(u64::MAX)\<close>\<close>

definition len_u64 :: "string \<Rightarrow> u64" where
  "len_u64 s = (if length s < 2 ^ 64 then of_nat (length s) else - 1)"

definition capture :: "string option \<Rightarrow> BoundedPoisonEvidence" where
  "capture v = (case v of
     None \<Rightarrow> \<lparr>be_prefix = None, be_original_bytes = None, be_truncated = False\<rparr>
   | Some s \<Rightarrow>
       let retained = min (length s) MAX_POISON_EVIDENCE_FIELD_BYTES in
       \<lparr>be_prefix = Some (take retained s), be_original_bytes = Some (len_u64 s), be_truncated = length s > retained\<rparr>)"

definition opt_len :: "string option \<Rightarrow> nat" where
  "opt_len v = (case v of None \<Rightarrow> 0 | Some s \<Rightarrow> length s)"

definition consumed_record_size :: "string option \<Rightarrow> string option \<Rightarrow> (contract_error, nat) result" where
  "consumed_record_size source_key payload =
     (if opt_len source_key + opt_len payload < 2 ^ 64 then Inr (opt_len source_key + opt_len payload)
      else Inl (Malformed (''Kafka record byte length overflowed (key='' @ nat_str (opt_len source_key)
        @ '', payload='' @ nat_str (opt_len payload) @ '')'')))"

definition enforce_consumed_record_size :: "string option \<Rightarrow> string option \<Rightarrow> usize \<Rightarrow> (contract_error, unit) result" where
  "enforce_consumed_record_size source_key payload record_max_bytes =
     try_res (consumed_record_size source_key payload) (\<lambda>observed.
     reject_if (observed > unat record_max_bytes)
       (Malformed (''Kafka record exceeds configured '' @ word_str record_max_bytes @ ''-byte consumer limit (total=''
         @ nat_str observed @ '', key='' @ nat_str (opt_len source_key) @ '', payload='' @ nat_str (opt_len payload) @ '')'')))"

definition decode_job :: "'n contract_serde \<Rightarrow> string option \<Rightarrow> (contract_error, ScenarioJob) result" where
  "decode_job S payload =
     try_res (ok_or payload (Malformed ''Kafka message has no payload'')) (\<lambda>bs.
     case job_from_slice S bs of
       Inl e \<Rightarrow> Inl (Malformed (''invalid scenario job JSON: '' @ e))
     | Inr job \<Rightarrow> try_res (validate_job job) (\<lambda>_. Inr job))"

definition decode_result :: "'n contract_serde \<Rightarrow> string option \<Rightarrow> (contract_error, ScenarioRunResult) result" where
  "decode_result S payload =
     try_res (ok_or payload (Malformed ''Kafka result has no payload'')) (\<lambda>bs.
     case run_result_from_slice S bs of
       Inl e \<Rightarrow> Inl (Malformed (''invalid scenario result JSON: '' @ e))
     | Inr r \<Rightarrow> try_res (validate_result r) (\<lambda>_. Inr r))"

definition decode_consumed_job ::
  "'n contract_serde \<Rightarrow> string option \<Rightarrow> string option \<Rightarrow> usize \<Rightarrow> (contract_error, ScenarioJob) result" where
  "decode_consumed_job S source_key payload record_max_bytes =
     try_res (enforce_consumed_record_size source_key payload record_max_bytes) (\<lambda>_. decode_job S payload)"

definition decode_consumed_result ::
  "'n contract_serde \<Rightarrow> string option \<Rightarrow> string option \<Rightarrow> usize \<Rightarrow> (contract_error, ScenarioRunResult) result" where
  "decode_consumed_result S source_key payload record_max_bytes =
     try_res (enforce_consumed_record_size source_key payload record_max_bytes) (\<lambda>_. decode_result S payload)"

section \<open>Validation before publication\<close>

definition serialize_validated_job :: "'n contract_serde \<Rightarrow> ScenarioJob \<Rightarrow> (string, string) result" where
  "serialize_validated_job S job = (case validate_job job of
     Inl e \<Rightarrow> Inl (''refusing to publish invalid scenario job: '' @ contract_error_display e)
   | Inr _ \<Rightarrow> map_sum (\<lambda>e. ''failed to serialize scenario job: '' @ e) id (job_to_string S job))"

definition serialize_validated_result :: "'n contract_serde \<Rightarrow> ScenarioRunResult \<Rightarrow> (string, string) result" where
  "serialize_validated_result S r = (case validate_result r of
     Inl e \<Rightarrow> Inl (''refusing to publish invalid scenario result: '' @ contract_error_display e)
   | Inr _ \<Rightarrow> map_sum (\<lambda>e. ''failed to serialize scenario result: '' @ e) id (run_result_to_string S r))"

definition POISON_REASON_TRUNCATION_MARKER :: string where
  "POISON_REASON_TRUNCATION_MARKER = ''...[truncated]''"

definition bounded_dlq_reason :: "string \<Rightarrow> string" where
  "bounded_dlq_reason reason =
     (if length reason \<le> MAX_CONTRACT_ID_BYTES then reason
      else take (floor_boundary reason (MAX_CONTRACT_ID_BYTES - length POISON_REASON_TRUNCATION_MARKER)) reason
        @ POISON_REASON_TRUNCATION_MARKER)"

definition validate_dlq_text :: "string \<Rightarrow> string \<Rightarrow> (string, unit) result" where
  "validate_dlq_text field v =
     reject_if (trim v = [] \<or> length v > MAX_CONTRACT_ID_BYTES) (''refusing to publish DLQ record with invalid '' @ field)"

definition validate_dlq_slice :: "JobSlice \<Rightarrow> (string, unit) result" where
  "validate_dlq_slice sl =
     reject_if (slice_total sl = 0 \<or> slice_total sl > MAX_CONTRACT_SLICES \<or> index sl \<ge> slice_total sl)
       ''refusing to publish failed job with invalid slice metadata''"

definition contract_version_for :: "string \<Rightarrow> u16 \<Rightarrow> (string, unit) result" where
  "contract_version_for message v = map_sum (\<lambda>e. message @ contract_error_display e) id (validate_contract_version v)"

definition serialize_validated_failed_job :: "'n contract_serde \<Rightarrow> FailedScenarioJob \<Rightarrow> (string, string) result" where
  "serialize_validated_failed_job S job0 =
     (let job = job0\<lparr>fj_reason := bounded_dlq_reason (fj_reason job0)\<rparr> in
     try_res (check_all
       [contract_version_for ''refusing to publish invalid failed job: '' (fj_schema_version job),
        validate_dlq_text ''scenario_id'' (fj_scenario_id job),
        validate_dlq_text ''run_id'' (fj_run_id job),
        validate_dlq_text ''execution_key'' (fj_execution_key job),
        validate_dlq_text ''reason'' (fj_reason job),
        validate_dlq_slice (fj_slice job),
        reject_if (fj_attempt job > fj_max_retries job \<or> fj_max_retries job > MAX_CONTRACT_ATTEMPT)
          ''refusing to publish failed job with invalid attempt metadata'',
        (if fj_schema_version job \<ge> 2
         then check_all
           [validate_dlq_text ''event_id'' (fj_event_id job),
            reject_if (fj_event_id job \<noteq> build_terminal_event_id (fj_execution_key job) (fj_attempt job) ''dlq'')
              ''refusing to publish failed job with a non-deterministic event_id'']
         else Inr ())])
     (\<lambda>_. map_sum (\<lambda>e. ''failed to serialize failed scenario job: '' @ e) id (failed_to_string S job)))"

definition poison_event_id :: "string \<Rightarrow> int \<Rightarrow> int \<Rightarrow> string" where
  "poison_event_id topic part offset = ''poison:'' @ topic @ '':'' @ int_str part @ '':'' @ int_str offset"

definition max_encoded_bytes :: nat where
  "max_encoded_bytes = (MAX_POISON_EVIDENCE_FIELD_BYTES + 2) div 3 * 4"

definition validate_poison_evidence_for_publish ::
  "base64_engine \<Rightarrow> u16 \<Rightarrow> string \<Rightarrow> string option \<Rightarrow> u64 option \<Rightarrow> bool \<Rightarrow> (string, unit) result" where
  "validate_poison_evidence_for_publish B version field encoded original_bytes truncated = (case encoded of
     None \<Rightarrow> reject_if (original_bytes \<noteq> None \<or> truncated) (''invalid poison '' @ field @ '' evidence metadata'')
   | Some text \<Rightarrow>
       if length text > max_encoded_bytes then Inl (''poison '' @ field @ '' evidence exceeds its prefix bound'')
       else case b64_decode B text of
         Inl e \<Rightarrow> Inl (''invalid poison '' @ field @ '' base64: '' @ e)
       | Inr decoded \<Rightarrow>
           if length decoded > MAX_POISON_EVIDENCE_FIELD_BYTES
           then Inl (''poison '' @ field @ '' evidence exceeds its prefix bound'')
           else case original_bytes of
             None \<Rightarrow> reject_if (\<not> (version < 2 \<and> \<not> truncated))
               (''poison '' @ field @ '' evidence lacks its original byte count'')
           | Some original \<Rightarrow>
               reject_if (truncated \<and> original \<le> len_u64 decoded \<or> \<not> truncated \<and> original \<noteq> len_u64 decoded)
                 (''poison '' @ field @ '' evidence length metadata is inconsistent''))"

definition serialize_validated_poison :: "'n contract_serde \<Rightarrow> base64_engine \<Rightarrow> PoisonMessageRecord \<Rightarrow> (string, string) result" where
  "serialize_validated_poison S B rec0 =
     (let rec = rec0\<lparr>pm_reason := bounded_dlq_reason (pm_reason rec0)\<rparr> in
     try_res (check_all
       [contract_version_for ''refusing to publish invalid poison record: '' (pm_schema_version rec),
        validate_dlq_text ''event_id'' (pm_event_id rec),
        validate_dlq_text ''source_topic'' (source_topic rec),
        validate_dlq_text ''reason'' (pm_reason rec),
        reject_if (source_partition rec < 0 \<or> source_offset rec < 0)
          ''refusing to publish poison record with invalid source coordinates'',
        reject_if (pm_event_id rec \<noteq> poison_event_id (source_topic rec) (source_partition rec) (source_offset rec))
          ''refusing to publish poison record with a non-deterministic event_id'',
        validate_poison_evidence_for_publish B (pm_schema_version rec) ''source_key'' (source_key_base64 rec)
          (source_key_original_bytes rec) (source_key_truncated rec),
        validate_poison_evidence_for_publish B (pm_schema_version rec) ''payload'' (payload_base64 rec)
          (payload_original_bytes rec) (payload_truncated rec)])
     (\<lambda>_. map_sum (\<lambda>e. ''failed to serialize poison message record: '' @ e) id (poison_to_string S rec)))"

definition poison_record_from_evidence ::
  "base64_engine \<Rightarrow> u128 \<Rightarrow> string \<Rightarrow> int \<Rightarrow> int \<Rightarrow> BoundedPoisonEvidence \<Rightarrow> BoundedPoisonEvidence \<Rightarrow> string \<Rightarrow> PoisonMessageRecord" where
  "poison_record_from_evidence B now topic part offset source_key payload reason =
     \<lparr>pm_schema_version = CURRENT_CONTRACT_VERSION, pm_event_id = poison_event_id topic part offset,
      pm_failed_at_unix_ms = now, source_topic = topic, source_partition = part, source_offset = offset,
      source_key_base64 = map_option (b64_encode B) (be_prefix source_key),
      source_key_original_bytes = be_original_bytes source_key, source_key_truncated = be_truncated source_key,
      payload_base64 = map_option (b64_encode B) (be_prefix payload),
      payload_original_bytes = be_original_bytes payload, payload_truncated = be_truncated payload,
      pm_reason = bounded_dlq_reason reason\<rparr>"

text \<open>A message of the client library, and the record the job consumer makes of it; \<open>now\<close> is the clock
  when a poison record is built.\<close>

record kafka_message =
  km_topic :: string
  km_partition :: int
  km_offset :: int
  km_key :: "string option"
  km_payload :: "string option"

definition consumed_job :: "'n contract_serde \<Rightarrow> base64_engine \<Rightarrow> u128 \<Rightarrow> usize \<Rightarrow> kafka_message \<Rightarrow> source_record" where
  "consumed_job S B now record_max_bytes msg =
     \<lparr>src_job = decode_consumed_job S (km_key msg) (km_payload msg) record_max_bytes,
      src_poison_record = poison_record_from_evidence B now (km_topic msg) (km_partition msg) (km_offset msg)
        (capture (km_key msg)) (capture (km_payload msg)),
      src_topic = km_topic msg, src_partition = km_partition msg, src_offset = km_offset msg\<rparr>"

section \<open>The publishers\<close>

text \<open>A publication: the payload is validated and serialized, then \<open>send\<close> hands the key and the payload
  to the producer.\<close>

definition publish_validated ::
  "string \<Rightarrow> (string \<Rightarrow> string \<Rightarrow> ('s, string, unit) action) \<Rightarrow> string \<Rightarrow> (string, string) result \<Rightarrow> ('s, string, unit) action" where
  "publish_validated message send k payload =
     sbind (slift payload) (\<lambda>text s. case send k text s of (Inl e, s') \<Rightarrow> (Inl (message @ e), s') | r \<Rightarrow> r)"

definition kafka_publish_job where
  "kafka_publish_job S send k job = publish_validated ''failed to publish job: '' send k (serialize_validated_job S job)"

definition kafka_publish_result where
  "kafka_publish_result S send r =
     publish_validated ''failed to publish result: '' send (res_execution_key r) (serialize_validated_result S r)"

definition kafka_publish_failed_job where
  "kafka_publish_failed_job S send k job =
     (if k \<noteq> fj_execution_key job then serror ''refusing to publish failed job under a non-execution key''
      else publish_validated ''failed to publish dead-letter job: '' send k (serialize_validated_failed_job S job))"

definition kafka_publish_poison where
  "kafka_publish_poison S B send rec =
     publish_validated ''failed to publish poison message: '' send (pm_event_id rec) (serialize_validated_poison S B rec)"

section \<open>The fenced commit\<close>

datatype commit_event =
    Epoch_Read u64
  | Assignment_Read "(string, (string \<times> int) list) result"
  | Sync_Committed string int int "(string, unit) result"

type_synonym commit_history = "commit_event list"

text \<open>The consumer of the client library: the rebalance epoch of its context, the assignment, the
  offset list and the synchronous commit; \<open>cm_join\<close> is the failure of the blocking task, if any.\<close>

record commit_env =
  cm_epoch :: "commit_history \<Rightarrow> u64"
  cm_assignment :: "commit_history \<Rightarrow> (string, (string \<times> int) list) result"
  cm_offsets :: "string \<Rightarrow> int \<Rightarrow> int \<Rightarrow> (string, unit) result"
  cm_commit :: "commit_history \<Rightarrow> string \<Rightarrow> int \<Rightarrow> int \<Rightarrow> (string, unit) result"
  cm_join :: "commit_history \<Rightarrow> string option"

type_synonym 'a commit_action = "(commit_history, string, 'a) action"

definition check_epoch :: "commit_env \<Rightarrow> u64 \<Rightarrow> string \<Rightarrow> unit commit_action" where
  "check_epoch E consumed_epoch message =
     sbind (read_clock (cm_epoch E) Epoch_Read) (\<lambda>current.
     slift (reject_if (current \<noteq> consumed_epoch)
       (message @ '': consumed epoch '' @ word_str consumed_epoch @ '', current epoch '' @ word_str current)))"

definition check_assignment :: "commit_env \<Rightarrow> string \<Rightarrow> int \<Rightarrow> string \<Rightarrow> string \<Rightarrow> unit commit_action" where
  "check_assignment E topic part inspect_message revoked_message =
     sbind (read_clock (cm_assignment E) Assignment_Read) (\<lambda>r.
     slift (case r of
       Inl e \<Rightarrow> Inl (inspect_message @ e)
     | Inr assigned \<Rightarrow> reject_if ((topic, part) \<notin> set assigned) revoked_message))"

definition commit_task :: "commit_env \<Rightarrow> u64 \<Rightarrow> string \<Rightarrow> int \<Rightarrow> int \<Rightarrow> unit commit_action" where
  "commit_task E consumed_epoch topic part next_offset =
     (let name = topic @ ''['' @ int_str part @ '']'' in
     sbind (check_epoch E consumed_epoch ''refusing Kafka offset commit after rebalance'') (\<lambda>_.
     sbind (check_assignment E topic part ''failed to inspect Kafka assignment before commit: ''
       (''refusing Kafka offset commit for revoked assignment '' @ name)) (\<lambda>_.
     sbind (slift (map_sum (\<lambda>e. ''failed to build Kafka commit offset: '' @ e) id (cm_offsets E topic part next_offset))) (\<lambda>_.
     sbind (read_clock (\<lambda>h. cm_commit E h topic part next_offset) (Sync_Committed topic part next_offset)) (\<lambda>committed.
     sbind (check_epoch E consumed_epoch ''Kafka rebalance raced with offset commit acknowledgement'') (\<lambda>_.
     sbind (check_assignment E topic part ''failed to inspect Kafka assignment after commit: ''
       (''Kafka assignment '' @ name @ '' was revoked during commit acknowledgement'')) (\<lambda>_.
     slift (map_sum (\<lambda>e. ''failed to commit Kafka message: '' @ e) id committed))))))))"

definition commit_offset :: "commit_env \<Rightarrow> u64 \<Rightarrow> string \<Rightarrow> int \<Rightarrow> int \<Rightarrow> unit commit_action" where
  "commit_offset E consumed_epoch topic part offset =
     (if offset + 1 \<ge> 2 ^ 63 then serror ''cannot commit Kafka offset because it overflowed''
      else (\<lambda>h. case commit_task E consumed_epoch topic part (offset + 1) h of
        (r, h') \<Rightarrow> (case cm_join E h' of Some e \<Rightarrow> (Inl (''Kafka commit task failed: '' @ e), h') | None \<Rightarrow> (r, h'))))"

section \<open>Base64\<close>

text \<open>The documented behaviour of the standard engine: decoding inverts encoding, and the text has four
  characters for every three bytes, padded.\<close>

locale base64 =
  fixes B :: base64_engine
  assumes decode_encode: "b64_decode B (b64_encode B s) = Inr s"
    and length_encode: "length (b64_encode B s) = (length s + 2) div 3 * 4"
begin

lemma captured_length:
  "be_prefix (capture v) = Some s \<Longrightarrow> length s \<le> MAX_POISON_EVIDENCE_FIELD_BYTES \<and> length (b64_encode B s) \<le> max_encoded_bytes"
  by (auto simp: capture_def Let_def length_encode max_encoded_bytes_def intro!: div_le_mono split: option.splits)

lemma captured_consistent:
  assumes "opt_len v < 2 ^ 64" "be_prefix (capture v) = Some s"
  shows "\<exists>n. be_original_bytes (capture v) = Some n \<and>
    \<not> (be_truncated (capture v) \<and> n \<le> len_u64 s \<or> \<not> be_truncated (capture v) \<and> n \<noteq> len_u64 s)"
  using assms by (auto simp: capture_def Let_def opt_len_def len_u64_def word_le_nat_alt unat_of_nat min_def
      split: option.splits if_splits)

lemma captured_publishable:
  assumes "opt_len v < 2 ^ 64"
  shows "validate_poison_evidence_for_publish B version field (map_option (b64_encode B) (be_prefix (capture v)))
    (be_original_bytes (capture v)) (be_truncated (capture v)) = Inr ()"
proof (cases "be_prefix (capture v)")
  case None
  then show ?thesis
    by (auto simp: validate_poison_evidence_for_publish_def capture_def Let_def split: option.splits)
next
  case (Some s)
  from captured_consistent [OF assms Some] captured_length [OF Some] show ?thesis
    by (auto simp: validate_poison_evidence_for_publish_def Some decode_encode not_less)
qed

end

text \<open>The standard alphabet with padding.\<close>

definition b64_digit :: "nat \<Rightarrow> char" where
  "b64_digit n = char_of (if n < 26 then 65 + n else if n < 52 then 71 + n else if n < 62 then n - 4
     else if n = 62 then 43 else 47)"

definition b64_value :: "char \<Rightarrow> nat option" where
  "b64_value c = (let n = of_char c in
     if 65 \<le> n \<and> n \<le> 90 then Some (n - 65) else if 97 \<le> n \<and> n \<le> 122 then Some (n - 71)
     else if 48 \<le> n \<and> n \<le> 57 then Some (n + 4) else if n = 43 then Some 62 else if n = 47 then Some 63 else None)"

fun std_encode :: "string \<Rightarrow> string" where
  "std_encode [] = []"
| "std_encode [a] = (let x = of_char a in [b64_digit (x div 4), b64_digit (x mod 4 * 16), CHR ''='', CHR ''=''])"
| "std_encode [a, b] = (let x = of_char a; y = of_char b in
     [b64_digit (x div 4), b64_digit (x mod 4 * 16 + y div 16), b64_digit (y mod 16 * 4), CHR ''=''])"
| "std_encode (a # b # c # r) = (let x = of_char a; y = of_char b; z = of_char c in
     b64_digit (x div 4) # b64_digit (x mod 4 * 16 + y div 16) # b64_digit (y mod 16 * 4 + z div 64) # b64_digit (z mod 64)
     # std_encode r)"

fun std_decode :: "string \<Rightarrow> (string, string) result" where
  "std_decode [] = Inr []"
| "std_decode (p # q # r # s # t) = (case (b64_value p, b64_value q) of
     (Some i, Some j) \<Rightarrow>
       if r = CHR ''='' then
         (if s = CHR ''='' \<and> t = [] \<and> j mod 16 = 0 then Inr [char_of (i * 4 + j div 16)] else Inl ''Invalid padding'')
       else if s = CHR ''='' then (case b64_value r of
         Some k \<Rightarrow> if t = [] \<and> k mod 4 = 0 then Inr [char_of (i * 4 + j div 16), char_of (j mod 16 * 16 + k div 4)]
           else Inl ''Invalid padding''
       | None \<Rightarrow> Inl ''Invalid symbol'')
       else (case (b64_value r, b64_value s) of
         (Some k, Some l) \<Rightarrow> try_res (std_decode t) (\<lambda>u.
           Inr (char_of (i * 4 + j div 16) # char_of (j mod 16 * 16 + k div 4) # char_of (k mod 4 * 64 + l) # u))
       | _ \<Rightarrow> Inl ''Invalid symbol'')
   | _ \<Rightarrow> Inl ''Invalid symbol'')"
| "std_decode _ = Inl ''Invalid input length''"

lemma b64_value_digit [simp]: "n < 64 \<Longrightarrow> b64_value (b64_digit n) = Some n"
  by (auto simp: b64_value_def b64_digit_def Let_def)

lemma b64_digit_pad [simp]: "n < 64 \<Longrightarrow> b64_digit n \<noteq> CHR ''=''"
proof
  assume "n < 64" "b64_digit n = CHR ''=''"
  then have "b64_value (CHR ''='') = Some n" by (metis b64_value_digit)
  then show False by (simp add: b64_value_def Let_def)
qed

lemma byte_bound: "(of_char c :: nat) < 256"
  by simp

lemma byte_parts:
  fixes x y z :: nat
  assumes "x < 256" "y < 256" "z < 256"
  shows "x div 4 < 64" "x mod 4 * 16 < 64" "x mod 4 * 16 + y div 16 < 64" "y mod 16 * 4 < 64" "y mod 16 * 4 + z div 64 < 64"
    "z mod 64 < 64"
  using assms by auto

lemma byte_joins:
  fixes x y z :: nat
  assumes "x < 256" "y < 256" "z < 256"
  shows "x div 4 * 4 + (x mod 4 * 16) div 16 = x" "x div 4 * 4 + (x mod 4 * 16 + y div 16) div 16 = x"
    "(x mod 4 * 16 + y div 16) mod 16 * 16 + (y mod 16 * 4) div 4 = y"
    "(x mod 4 * 16 + y div 16) mod 16 * 16 + (y mod 16 * 4 + z div 64) div 4 = y"
    "(y mod 16 * 4 + z div 64) mod 4 * 64 + z mod 64 = z" "y div 16 mod 16 * 16 + y mod 16 = y"
  using assms by auto

lemma std_decode_encode: "std_decode (std_encode s) = Inr s"
proof (induction s rule: std_encode.induct)
  case (2 a)
  show ?case using byte_parts [of "of_char a" 0 0] byte_joins [of "of_char a" 0 0] by (simp add: Let_def)
next
  case (3 a b)
  show ?case using byte_parts [of "of_char a" "of_char b" 0] byte_joins [of "of_char a" "of_char b" 0] by (simp add: Let_def)
next
  case (4 a b c r)
  then show ?case
    using byte_parts [of "of_char a" "of_char b" "of_char c"] byte_joins [of "of_char a" "of_char b" "of_char c"]
    by (simp add: Let_def)
qed simp

lemma length_std_encode: "length (std_encode s) = (length s + 2) div 3 * 4"
proof (induction s rule: std_encode.induct)
  case (4 a b c r)
  have "(5 + length r) div 3 = Suc (Suc (Suc (length r)) div 3)" by presburger
  with 4 show ?case by (simp add: Let_def)
qed (simp_all add: Let_def)

definition standard_base64 :: base64_engine where
  "standard_base64 = \<lparr>b64_encode = std_encode, b64_decode = std_decode\<rparr>"

interpretation std64: base64 standard_base64
  by unfold_locales (simp_all add: standard_base64_def std_decode_encode length_std_encode)

section \<open>Poison evidence is always publishable\<close>

lemma length_bounded_dlq_reason: "length (bounded_dlq_reason reason) \<le> MAX_CONTRACT_ID_BYTES"
  using floor_boundary_le [of reason "MAX_CONTRACT_ID_BYTES - length POISON_REASON_TRUNCATION_MARKER"]
  by (auto simp: bounded_dlq_reason_def contract_limits POISON_REASON_TRUNCATION_MARKER_def)

lemma bounded_dlq_reason_idem [simp]: "bounded_dlq_reason (bounded_dlq_reason reason) = bounded_dlq_reason reason"
  using length_bounded_dlq_reason [of reason] by (simp add: bounded_dlq_reason_def [of "bounded_dlq_reason reason"])

lemma bounded_dlq_reason_not_blank: "trim reason \<noteq> [] \<Longrightarrow> trim (bounded_dlq_reason reason) \<noteq> []"
  using trim_not_empty [of "CHR ''.''" "p @ POISON_REASON_TRUNCATION_MARKER" for p]
  by (simp add: bounded_dlq_reason_def) (simp add: POISON_REASON_TRUNCATION_MARKER_def graphic_def)

lemma length_int_str: "0 \<le> i \<Longrightarrow> i < 10 ^ k \<Longrightarrow> 0 < k \<Longrightarrow> length (int_str i) \<le> k"
  by (simp add: int_str_def length_nat_str nat_less_iff)

lemma poison_event_id_valid:
  assumes "length topic \<le> 249" "0 \<le> part" "part < 2 ^ 31" "0 \<le> offset" "offset < 2 ^ 63"
  shows "validate_dlq_text field (poison_event_id topic part offset) = Inr ()"
proof -
  have "length (int_str part) \<le> 10" "length (int_str offset) \<le> 19"
    using assms by (auto intro!: length_int_str)
  moreover have "trim (poison_event_id topic part offset) \<noteq> []"
    by (rule trim_not_empty [of "CHR ''p''"]) (simp_all add: poison_event_id_def graphic_def)
  ultimately show ?thesis
    using assms(1) by (simp add: validate_dlq_text_def contract_limits poison_event_id_def)
qed

text \<open>Whatever key and payload a consumed record has, its poison record passes every check of the
  publisher, so a record that cannot be processed can always be sent to the dead-letter topic: the
  evidence is cut to the bounded prefix with consistent lengths, the identity is the source position,
  and the reason is bounded.\<close>

theorem poison_always_publishable:
  assumes "base64 B" "trim topic \<noteq> []" "length topic \<le> 249" "0 \<le> part" "part < 2 ^ 31" "0 \<le> offset" "offset < 2 ^ 63"
    and "trim reason \<noteq> []" "opt_len source_key < 2 ^ 64" "opt_len payload < 2 ^ 64"
    and "poison_to_string S (poison_record_from_evidence B now topic part offset (capture source_key) (capture payload) reason) = Inr text"
  shows "serialize_validated_poison S B
    (poison_record_from_evidence B now topic part offset (capture source_key) (capture payload) reason) = Inr text"
  using assms base64.captured_publishable [OF assms(1)] poison_event_id_valid [OF assms(3-7)] length_bounded_dlq_reason [of reason]
  by (simp add: serialize_validated_poison_def poison_record_from_evidence_def contract_version_for_def validate_contract_version_def
      contract_limits validate_dlq_text_def bounded_dlq_reason_not_blank check_all.simps)

lemma map_sum_Inr_iff [simp]: "map_sum f id r = Inr x \<longleftrightarrow> r = Inr x"
  by (cases r) simp_all

section \<open>A commit is fenced on both sides\<close>

text \<open>A commit is reported as successful only when the broker acknowledged the offset after the
  consumed one, and both before and after it the rebalance epoch was the one of the reception and the
  partition was assigned.\<close>

theorem commit_fenced_by_rebalance:
  assumes "commit_offset E consumed_epoch topic part offset [] = (Inr (), h)"
  shows "\<exists>before after. h = [Epoch_Read consumed_epoch, Assignment_Read (Inr before), Sync_Committed topic part (offset + 1) (Inr ()),
      Epoch_Read consumed_epoch, Assignment_Read (Inr after)] \<and> (topic, part) \<in> set before \<and> (topic, part) \<in> set after"
  using assms
  by (auto simp: commit_offset_def commit_task_def check_epoch_def check_assignment_def sbind_def slift_def read_clock_def
      serror_def Let_def reject_if_def split: if_splits sum.splits option.splits prod.splits)

section \<open>Concrete records\<close>

definition sample_serde :: "unit contract_serde" where
  "sample_serde = \<lparr>job_to_string = (\<lambda>_. Inr ''job''), job_from_slice = (\<lambda>_. Inl ''eof''), run_result_to_string = (\<lambda>_. Inr ''result''),
     run_result_from_slice = (\<lambda>_. Inl ''eof''), failed_to_string = (\<lambda>_. Inr ''failed''), poison_to_string = (\<lambda>_. Inr ''poison''),
     json_from_slice = (\<lambda>_. Inl ''eof''), failed_from_value = (\<lambda>_. Inl ''eof''), poison_from_value = (\<lambda>_. Inl ''eof'')\<rparr>"

theorem poison_always_publishable_witness:
  "serialize_validated_poison sample_serde standard_base64 (poison_record_from_evidence standard_base64 5 ''jobs'' 0 7
     (capture None) (capture (Some ''{'')) ''bad'') = Inr ''poison''"
proof (rule poison_always_publishable)
  show "base64 standard_base64" by unfold_locales
  show "trim ''jobs'' \<noteq> []" by (rule trim_not_empty [of "CHR ''j''"]) (simp_all add: graphic_def)
  show "trim ''bad'' \<noteq> []" by (rule trim_not_empty [of "CHR ''b''"]) (simp_all add: graphic_def)
qed (simp_all add: opt_len_def sample_serde_def)

definition sample_consumer :: commit_env where
  "sample_consumer = \<lparr>cm_epoch = (\<lambda>_. 3), cm_assignment = (\<lambda>_. Inr [(''jobs'', 0)]), cm_offsets = (\<lambda>_ _ _. Inr ()),
     cm_commit = (\<lambda>_ _ _ _. Inr ()), cm_join = (\<lambda>_. None)\<rparr>"

theorem commit_fenced_by_rebalance_witness:
  "\<exists>before after. snd (commit_offset sample_consumer 3 ''jobs'' 0 7 []) =
      [Epoch_Read 3, Assignment_Read (Inr before), Sync_Committed ''jobs'' 0 8 (Inr ()), Epoch_Read 3, Assignment_Read (Inr after)]
    \<and> (''jobs'', 0) \<in> set before \<and> (''jobs'', 0) \<in> set after"
proof -
  have "commit_offset sample_consumer 3 ''jobs'' 0 7 [] = (Inr (), snd (commit_offset sample_consumer 3 ''jobs'' 0 7 []))"
    by (simp add: commit_offset_def commit_task_def check_epoch_def check_assignment_def sbind_def slift_def read_clock_def
        Let_def sample_consumer_def)
  from commit_fenced_by_rebalance [OF this] show ?thesis by simp
qed

end
