(* ===== verification/Spec2Isabelle.thy ===== *)
theory Spec2Isabelle
  imports Contract_Validation Leader_Tenure Dispatch_Windows Worker_Discipline Lease_Renewal Scheduler
    Scenario_Files Runner Summary_Outbox Aggregation_Service Kafka_Records
begin

text \<open>
  A verification development for Pulse, a distributed load generator written in Rust.

  \<^bold>\<open>The program.\<close>  The nodes of a cluster elect a leader through a lease in Redis.  The leader plans
  the due windows of its scenarios in a dispatch ledger in Redis, splits each window into slices and
  publishes one job per slice to Kafka.  Every node consumes jobs, claims an execution lease for the
  slice, drives the target through dynamically encoded gRPC calls, and settles the job: a result, a
  retry or a dead letter is published, the terminal outcome is recorded in Redis, and only then is
  the source offset committed.  An aggregation runtime consumes the results, merges the slices of a
  run in Redis and publishes versioned run summaries from an outbox.

  \<^bold>\<open>Theories and sources\<close> (paths below \<open>src/\<close>).
    \<^item> \<open>Prelude\<close>: machine integers as words of their width, strings as byte lists, durations and
      instants, results, text functions of the standard library, and the shared lemmas.
      \<open>Lua_Numbers\<close> and \<open>Rust_Floats\<close>: IEEE doubles as the Lua scripts and the Rust code use them.
    \<^item> \<open>Contracts\<close>, \<open>Contract_Validation\<close>: messages, validators and identities of
      \<open>domain/contracts.rs\<close> and \<open>domain/error.rs\<close>.  \<open>Coordination\<close>: the types of
      \<open>domain/coordination.rs\<close>.
    \<^item> \<open>Redis_Server\<close>: the commands the scripts call, as a parameter with the laws \<open>redis_server\<close>, and
      the keyspace that satisfies them.  \<open>Redis_Client\<close>: one request with its failures.
    \<^item> \<open>Leader_Election\<close>, \<open>Leader_Tenure\<close>, \<open>Execution_Lease\<close>, \<open>Dispatch_Ledger\<close>, \<open>Dispatch_Windows\<close>: the
      three stores of \<open>infrastructure/redis/mod.rs\<close>, each operation with its Lua script.
    \<^item> \<open>Slice_Planning\<close>: the pure planning functions of \<open>application/service.rs\<close>.  \<open>Traces\<close>,
      \<open>Node_Runtime\<close>: programs over an environment that answers from the history, and the ports of
      the node.  \<open>Worker_Settlement\<close>, \<open>Worker_Discipline\<close>, \<open>Lease_Renewal\<close>, \<open>Scheduler\<close>: the worker loop,
      the renewal loop, the election loop and the scheduler loop of \<open>application/service.rs\<close>.
    \<^item> \<open>Run_Metrics\<close>, \<open>Rate_Limiter\<close>, \<open>Runner\<close>: \<open>application/metrics.rs\<close>, \<open>rate_limiter.rs\<close> and \<open>runner.rs\<close>;
      a run is a transition system of the launch loop and its tasks.
    \<^item> \<open>Wire_Format\<close>, \<open>Json_Values\<close>, \<open>Grpc_Schema\<close>, \<open>Grpc_Codec\<close>: \<open>infrastructure/grpc/dynamic_gateway.rs\<close>.
      \<open>Templates\<close>, \<open>Scenario_Files\<close>: \<open>application/template.rs\<close>, \<open>steps.rs\<close> and \<open>scenarios.rs\<close>.
    \<^item> \<open>Run_Aggregation\<close>: the in-memory aggregator of \<open>application/aggregation.rs\<close>.
      \<open>Aggregation_Scripts\<close>, \<open>Aggregation_Store\<close>: \<open>infrastructure/redis/aggregation.rs\<close>, scripts and store.
      \<open>Script_Triples\<close>, \<open>Outbox_Invariant\<close>, \<open>Summary_Outbox\<close>: the durability of summaries.
      \<open>Receptions\<close>, \<open>Aggregation_Service\<close>: the runtime of \<open>application/aggregation_service.rs\<close>.
    \<^item> \<open>Kafka_Records\<close>: configurations, decoding, poison evidence, validation before publication and
      the fenced commit of \<open>infrastructure/kafka/mod.rs\<close>.

  \<^bold>\<open>What is shown.\<close>
    \<^item> Coordination in Redis, for every server with the stated laws and any interleaving of clients
      with lost requests, lost replies and passing time: one holder per execution attempt, immutable
      terminal outcomes, one leader at a time, increasing fencing tokens, no effect of a stale
      leader, windows that close exactly once; each store operation refines an abstract machine.
    \<^item> The node, for every behaviour of its environment: offsets are committed after durable
      dispositions only, publications and recordings happen under verified leases, slices are
      acknowledged after their publication and published under leadership, one pass over a record
      makes a bounded number of calls, the local lease deadline is safe, and the worker loop returns.
    \<^item> Aggregation: the in-memory aggregate is the sum of its slices, a pending summary survives until
      it is acknowledged, results are committed after their disposition and summaries acknowledged
      after their publication.
    \<^item> Runs: bounded concurrency, starts inside the load window, exact startup bursts, reports that
      account for every task, results that pass their own validation, an end by the timeout.
    \<^item> Data: validated results are well formed, identities are injective, slices divide the load,
      delays and reasons are bounded, scenario files load within their limits, templates are rendered
      by substitution, generated values are in range, loaded schemas represent their descriptor set,
      and the codec round trips.
    \<^item> Two properties state defects: a latency in a histogram cell that a bucket bound divides is
      counted twice, and a packed field is decoded one array too deep.

  \<^bold>\<open>External code.\<close>  Redis, the Kafka client, \<open>serde\<close>, base64, \<open>hdrhistogram\<close>, the gRPC transport, the
  random source and the clocks are arguments of the definitions.  Where a property relies on their
  documented behaviour it is the assumption of a locale (\<open>redis_server\<close>, \<open>json_numbers\<close>, \<open>hdr_cells\<close>,
  \<open>base64\<close>, \<open>random_ranges\<close>), and each locale is interpreted by a concrete implementation.  The locale
  \<open>call_budget\<close> is the counting contract of the worker, interpreted for each kind of call.

  \<^bold>\<open>Bounds and non-termination.\<close>  A loop that may run for ever is a partial function with value \<open>None\<close>
  (\<open>worker_loop\<close>, \<open>scheduler_loop\<close>, \<open>leader_election_loop\<close>, \<open>lease_renewal_until_loss\<close>), and that the worker
  loop returns is a property of its own.  \<open>agg_loop\<close> takes the number of turns it may make, and its
  properties hold for every number.  All other loops are total functions.  Numbers of the scripts are
  exact below \<open>2 ^ 53\<close>; where a script depends on it, the bound is a hypothesis.  Local instants and
  durations are natural numbers of nanoseconds, so an overflow of \<open>Instant + Duration\<close>, which panics in
  the source, does not occur in the model.

  \<^bold>\<open>Not modelled.\<close>  The reading of the configuration from the environment
  (\<open>infrastructure/config/mod.rs\<close>), the wiring in \<open>main.rs\<close>, the Prometheus metrics
  (\<open>infrastructure/metrics/mod.rs\<close>) and log lines, the operator tools for dead letters
  (\<open>application/dlq_replay.rs\<close>, \<open>bin/pulse_dlq.rs\<close>) and benchmarks, the creation of Kafka clients and
  topics, the demonstration target, and the deployment files.  They start, observe or deploy the parts
  above and take no part in their protocols.
\<close>

end
